(* ===== verification/Rust_Base.thy ===== *)
theory Rust_Base
  imports Main "HOL-Library.Sublist"
begin

section \<open>Rust values shared by every component\<close>

text \<open>
  The prelude of the development: the parts of the Rust standard library the
  modelled code calls, and the generic lemmas about them.

  A Rust \<open>str\<close> is a UTF-8 byte sequence, and so is a \<open>string\<close> here: every
  \<open>char\<close> of Isabelle is one byte, \<open>length\<close> is Rust's \<open>len()\<close> and a slice at byte
  positions is \<open>take\<close>/\<open>drop\<close>.  What Rust does per code point (\<open>chars()\<close>,
  \<open>trim()\<close>) is defined on the encoded bytes.  A \<open>usize\<close> is a \<open>nat\<close>; the
  saturating operations write the 64-bit bound out.
\<close>

named_theorems str_simps \<open>computation rules of the string operations\<close>

type_synonym ('e, 'a) result = "'e + 'a"

subsection \<open>Saturating arithmetic on usize\<close>

definition usize_max :: nat where
  "usize_max = 2 ^ 64 - 1"

definition saturating_add :: "nat \<Rightarrow> nat \<Rightarrow> nat" where
  "saturating_add a b = min usize_max (a + b)"

definition saturating_sub :: "nat \<Rightarrow> nat \<Rightarrow> nat" where
  "saturating_sub a b = (if b \<le> a then a - b else 0)"

definition saturating_mul :: "nat \<Rightarrow> nat \<Rightarrow> nat" where
  "saturating_mul a b = min usize_max (a * b)"

lemma saturating_sub_eq [simp]: "saturating_sub a b = a - b"
  by (simp add: saturating_sub_def)

lemma saturating_add_exact: "a + b \<le> usize_max \<Longrightarrow> saturating_add a b = a + b"
  by (simp add: saturating_add_def)

lemma saturating_add_le: "saturating_add a b \<le> a + b"
  by (simp add: saturating_add_def)

subsection \<open>Searching a range\<close>

text \<open>\<open>for i in k..n { if p(i) { return Some(i) } }\<close> is \<open>List.find\<close> over \<open>[k..<n]\<close>.\<close>

lemma find_upt_Some_iff:
  "List.find P [k..<n] = Some i \<longleftrightarrow> k \<le> i \<and> i < n \<and> P i \<and> (\<forall>j. k \<le> j \<and> j < i \<longrightarrow> \<not> P j)"
proof -
  have "List.find P [k..<n] = Some i \<longleftrightarrow>
      (\<exists>m < length [k..<n]. P ([k..<n] ! m) \<and> i = [k..<n] ! m \<and> (\<forall>j < m. \<not> P ([k..<n] ! j)))"
    by (rule find_Some_iff)
  also have "\<dots> \<longleftrightarrow> (\<exists>m < n - k. P (k + m) \<and> i = k + m \<and> (\<forall>j < m. \<not> P (k + j)))"
    by auto
  also have "\<dots> \<longleftrightarrow> k \<le> i \<and> i < n \<and> P i \<and> (\<forall>j. k \<le> j \<and> j < i \<longrightarrow> \<not> P j)"
    by (auto dest: less_imp_le_nat intro!: exI [of _ "i - k"]
        simp: le_Suc_ex less_diff_conv2) (metis le_add_diff_inverse nat_add_left_cancel_less)
  finally show ?thesis .
qed

lemma find_upt_None_iff:
  "List.find P [k..<n] = None \<longleftrightarrow> (\<forall>i. k \<le> i \<and> i < n \<longrightarrow> \<not> P i)"
  by (auto simp: find_None_iff)

subsection \<open>The last maximum\<close>

text \<open>\<open>max_by_key\<close>: of several maxima, the last.\<close>

definition max_by_key :: "('a \<Rightarrow> 'k :: linorder) \<Rightarrow> 'a list \<Rightarrow> 'a option" where
  "max_by_key f xs =
     (case xs of
        [] \<Rightarrow> None
      | x # ys \<Rightarrow> Some (fold (\<lambda>y best. if f best \<le> f y then y else best) ys x))"

lemma max_by_key_None [simp]: "max_by_key f xs = None \<longleftrightarrow> xs = []"
  by (simp add: max_by_key_def split: list.split)

lemma max_by_key_Nil [simp]: "max_by_key f [] = None"
  by simp

lemma max_by_key_exists: "xs \<noteq> [] \<Longrightarrow> \<exists>y. max_by_key f xs = Some y"
  by (cases "max_by_key f xs") simp_all

lemma fold_max_by_key:
  "(let y = fold (\<lambda>y best. if f best \<le> f y then y else best) ys x in
     y \<in> insert x (set ys) \<and> (\<forall>z \<in> insert x (set ys). f z \<le> (f y :: 'k :: linorder)))"
proof (induction ys arbitrary: x)
  case (Cons a ys)
  show ?case
  proof (cases "f x \<le> f a")
    case True
    then show ?thesis using Cons.IH [of a] by (auto simp: Let_def intro: order.trans)
  next
    case False
    then have "f a \<le> f x" by simp
    with False show ?thesis using Cons.IH [of x] by (auto simp: Let_def intro: order.trans)
  qed
qed simp

lemma max_by_key_Some:
  "max_by_key f xs = Some y \<Longrightarrow> y \<in> set xs \<and> (\<forall>z \<in> set xs. f z \<le> f y)"
  using fold_max_by_key [of f _ _] by (fastforce simp: max_by_key_def Let_def split: list.splits)

subsection \<open>Byte-level string operations\<close>

definition strip_prefix :: "string \<Rightarrow> string \<Rightarrow> string option" where
  "strip_prefix p s = (if prefix p s then Some (drop (length p) s) else None)"

definition strip_suffix :: "string \<Rightarrow> string \<Rightarrow> string option" where
  "strip_suffix p s = (if suffix p s then Some (take (length s - length p) s) else None)"

definition nl :: char where
  "nl = CHR 0x0A"

lemma nl_neq [simp]:
  "nl \<noteq> CHR ''+''" "nl \<noteq> CHR ''-''" "nl \<noteq> CHR '' ''" "nl \<noteq> CHR ''*''" "nl \<noteq> CHR ''@''"
  "CHR ''+'' \<noteq> nl" "CHR ''-'' \<noteq> nl" "CHR '' '' \<noteq> nl" "CHR ''*'' \<noteq> nl" "CHR ''@'' \<noteq> nl"
  by (simp_all add: nl_def)

text \<open>\<open>str::find\<close>: the byte offset of the first occurrence.\<close>

fun find_str :: "string \<Rightarrow> string \<Rightarrow> nat option" where
  "find_str pat [] = (if pat = [] then Some 0 else None)"
| "find_str pat (c # s) = (if prefix pat (c # s) then Some 0 else map_option Suc (find_str pat s))"

definition contains_str :: "string \<Rightarrow> string \<Rightarrow> bool" where
  "contains_str s pat = (find_str pat s \<noteq> None)"

text \<open>\<open>split(c)\<close>: always at least one piece.\<close>

fun split_char :: "char \<Rightarrow> string \<Rightarrow> string list" where
  "split_char c [] = [[]]"
| "split_char c (x # s) =
     (if x = c then [] # split_char c s
      else (case split_char c s of [] \<Rightarrow> [[x]] | l # ls \<Rightarrow> (x # l) # ls))"

fun join_str :: "string \<Rightarrow> string list \<Rightarrow> string" where
  "join_str sep [] = []"
| "join_str sep [x] = x"
| "join_str sep (x # y # xs) = x @ sep @ join_str sep (y # xs)"

text \<open>\<open>lines()\<close>: split at line feeds, a carriage return before the line feed is
  dropped, and a final empty piece is not a line.\<close>

definition strip_cr :: "string \<Rightarrow> string" where
  "strip_cr l = (if l \<noteq> [] \<and> last l = CHR 0x0D then butlast l else l)"

lemma length_dropWhile_lt:
  assumes "dropWhile P s = c # r"
  shows "length r < length s"
proof -
  have "length (c # r) \<le> length s"
    unfolding assms [symmetric] by (rule length_dropWhile_le)
  then show ?thesis by simp
qed

function str_lines :: "string \<Rightarrow> string list" where
  "str_lines s =
     (if s = [] then []
      else case dropWhile (\<lambda>c. c \<noteq> nl) s of
             [] \<Rightarrow> [s]
           | _ # r \<Rightarrow> strip_cr (takeWhile (\<lambda>c. c \<noteq> nl) s) # str_lines r)"
  by pat_completeness auto
termination
  by (relation "measure length") (simp, simp only: in_measure, rule length_dropWhile_lt)

declare str_lines.simps [simp del]

subsection \<open>Code points and white space\<close>

definition is_cont_byte :: "char \<Rightarrow> bool" where
  "is_cont_byte c = (let n = (of_char c :: nat) in 0x80 \<le> n \<and> n < 0xC0)"

text \<open>\<open>chars()\<close> on a valid string: each leading byte with its continuation bytes.\<close>

function str_chars :: "string \<Rightarrow> string list" where
  "str_chars [] = []"
| "str_chars (b # bs) = (b # takeWhile is_cont_byte bs) # str_chars (dropWhile is_cont_byte bs)"
  by pat_completeness auto
termination
  by (relation "measure length") (auto simp: less_Suc_eq_le length_dropWhile_le)

text \<open>\<open>char::is_whitespace\<close>: the Unicode White\_Space code points, encoded.\<close>

definition ws_units :: "string list" where
  "ws_units =
     [[CHR 0x20], [CHR 0x09], [CHR 0x0A], [CHR 0x0B], [CHR 0x0C], [CHR 0x0D],
      [CHR 0xC2, CHR 0x85], [CHR 0xC2, CHR 0xA0], [CHR 0xE1, CHR 0x9A, CHR 0x80],
      [CHR 0xE2, CHR 0x80, CHR 0x80], [CHR 0xE2, CHR 0x80, CHR 0x81],
      [CHR 0xE2, CHR 0x80, CHR 0x82], [CHR 0xE2, CHR 0x80, CHR 0x83],
      [CHR 0xE2, CHR 0x80, CHR 0x84], [CHR 0xE2, CHR 0x80, CHR 0x85],
      [CHR 0xE2, CHR 0x80, CHR 0x86], [CHR 0xE2, CHR 0x80, CHR 0x87],
      [CHR 0xE2, CHR 0x80, CHR 0x88], [CHR 0xE2, CHR 0x80, CHR 0x89],
      [CHR 0xE2, CHR 0x80, CHR 0x8A], [CHR 0xE2, CHR 0x80, CHR 0xA8],
      [CHR 0xE2, CHR 0x80, CHR 0xA9], [CHR 0xE2, CHR 0x80, CHR 0xAF],
      [CHR 0xE2, CHR 0x81, CHR 0x9F], [CHR 0xE3, CHR 0x80, CHR 0x80]]"

definition unit_at :: "string list \<Rightarrow> string \<Rightarrow> string option" where
  "unit_at us s = List.find (\<lambda>u. u \<noteq> [] \<and> prefix u s) us"

lemma unit_at_SomeD: "unit_at us s = Some u \<Longrightarrow> u \<in> set us \<and> u \<noteq> [] \<and> prefix u s"
  by (auto simp: unit_at_def find_Some_iff)

function strip_units :: "string list \<Rightarrow> string \<Rightarrow> string" where
  "strip_units us s =
     (case unit_at us s of None \<Rightarrow> s | Some u \<Rightarrow> strip_units us (drop (length u) s))"
  by pat_completeness auto
termination
  by (relation "measure (\<lambda>(us, s). length s)")
     (auto dest!: unit_at_SomeD simp: prefix_def)

declare strip_units.simps [simp del]

definition trim_start :: "string \<Rightarrow> string" where
  "trim_start s = strip_units ws_units s"

definition trim_end :: "string \<Rightarrow> string" where
  "trim_end s = rev (strip_units (map rev ws_units) (rev s))"

definition str_trim :: "string \<Rightarrow> string" where
  "str_trim s = trim_start (trim_end s)"

text \<open>Decimal digits.\<close>

fun nat_digits :: "nat \<Rightarrow> string" where
  "nat_digits n =
     (if n < 10 then [char_of (48 + n)] else nat_digits (n div 10) @ [char_of (48 + n mod 10)])"

declare nat_digits.simps [simp del]

subsection \<open>Lemmas on the search for a substring\<close>

lemma prefix_take: "prefix p s \<Longrightarrow> take (length p) s = p"
  by (auto simp: prefix_def)

lemma find_str_Some_iff:
  "find_str pat s = Some i \<longleftrightarrow>
     i \<le> length s \<and> prefix pat (drop i s) \<and> (\<forall>j < i. \<not> prefix pat (drop j s))"
proof (induction s arbitrary: i)
  case Nil
  then show ?case by auto
next
  case (Cons c s)
  show ?case
  proof (cases i)
    case 0
    then show ?thesis by auto
  next
    case (Suc m)
    have "(\<forall>j < Suc m. \<not> prefix pat (drop j (c # s))) \<longleftrightarrow>
        \<not> prefix pat (c # s) \<and> (\<forall>j < m. \<not> prefix pat (drop j s))"
      by (auto simp: less_Suc_eq_0_disj)
    with Suc Cons.IH [of m] show ?thesis by auto
  qed
qed

lemma find_str_None_iff: "find_str pat s = None \<longleftrightarrow> (\<forall>i \<le> length s. \<not> prefix pat (drop i s))"
proof (induction s)
  case (Cons c s)
  have "(\<forall>i \<le> length (c # s). \<not> prefix pat (drop i (c # s))) \<longleftrightarrow>
      \<not> prefix pat (c # s) \<and> (\<forall>i \<le> length s. \<not> prefix pat (drop i s))"
    unfolding less_Suc_eq_le [symmetric] by (simp add: All_less_Suc2)
  with Cons.IH show ?case by auto
qed simp

lemma find_str_bound: "find_str pat s = Some i \<Longrightarrow> i + length pat \<le> length s"
  by (auto simp: find_str_Some_iff dest!: prefix_length_le)

text \<open>More text does not move an occurrence.\<close>

lemma find_str_append:
  assumes "find_str pat s = Some i"
  shows "find_str pat (s @ t) = Some i"
proof -
  from assms have i: "i \<le> length s" "prefix pat (drop i s)" "\<forall>j < i. \<not> prefix pat (drop j s)"
    by (auto simp: find_str_Some_iff)
  from find_str_bound [OF assms] have bound: "i + length pat \<le> length s" .
  have "\<not> prefix pat (drop j (s @ t))" if "j < i" for j
  proof
    assume "prefix pat (drop j (s @ t))"
    then have "take (length pat) (drop j (s @ t)) = pat" by (rule prefix_take)
    moreover have "take (length pat) (drop j (s @ t)) = take (length pat) (drop j s)"
      using that bound by simp
    ultimately have "prefix pat (drop j s)" by (metis take_is_prefix)
    with i(3) that show False by blast
  qed
  with i show ?thesis by (auto simp: find_str_Some_iff prefix_prefix)
qed

text \<open>Text in which no occurrence starts can be skipped.\<close>

lemma find_str_skip:
  assumes "d \<le> length s" and "\<forall>j < d. \<not> prefix pat (drop j s)"
  shows "find_str pat s = map_option ((+) d) (find_str pat (drop d s))"
  using assms
proof (induction d arbitrary: s)
  case 0
  then show ?case by (cases "find_str pat s") simp_all
next
  case (Suc d)
  then obtain c s' where s: "s = c # s'" by (cases s) auto
  with Suc.prems have "\<not> prefix pat (c # s')" and "d \<le> length s'" by auto
  moreover have "\<forall>j < d. \<not> prefix pat (drop j s')"
  proof (intro allI impI)
    fix j assume "j < d"
    with Suc.prems(2) have "\<not> prefix pat (drop (Suc j) s)" by blast
    with s show "\<not> prefix pat (drop j s')" by simp
  qed
  ultimately show ?case using Suc.IH [of s'] s by (simp add: option.map_comp comp_def)
qed

subsection \<open>Lemmas on lines and joins\<close>

lemma str_lines_Nil [simp]: "str_lines [] = []"
  by (simp add: str_lines.simps)

lemma str_lines_last: "s \<noteq> [] \<Longrightarrow> nl \<notin> set s \<Longrightarrow> str_lines s = [s]"
proof -
  assume s: "s \<noteq> []" and "nl \<notin> set s"
  then have dw: "dropWhile (\<lambda>c. c \<noteq> nl) s = []" by (auto simp: dropWhile_eq_Nil_conv)
  from s show ?thesis by (simp add: str_lines.simps [of s] dw)
qed

lemma str_lines_Cons:
  assumes "nl \<notin> set l"
  shows "str_lines (l @ nl # s) = strip_cr l # str_lines s"
proof -
  from assms have l: "\<forall>c \<in> set l. c \<noteq> nl" by auto
  then have "dropWhile (\<lambda>c. c \<noteq> nl) (l @ nl # s) = nl # s"
    and "takeWhile (\<lambda>c. c \<noteq> nl) (l @ nl # s) = l"
    by (simp_all add: takeWhile_append2 dropWhile_append2)
  then show ?thesis by (simp add: str_lines.simps [of "l @ nl # s"])
qed

text \<open>A clean line has no line feed and does not end in a carriage return, so
  \<open>lines()\<close> gives it back unchanged.\<close>

definition clean_line :: "string \<Rightarrow> bool" where
  "clean_line l = (nl \<notin> set l \<and> (l = [] \<or> last l \<noteq> CHR 0x0D))"

lemma strip_cr_clean: "clean_line l \<Longrightarrow> strip_cr l = l"
  by (auto simp: clean_line_def strip_cr_def)

lemma str_lines_join:
  assumes "\<forall>l \<in> set ls. clean_line l" and "ls \<noteq> []" and "last ls \<noteq> []"
  shows "str_lines (join_str [nl] ls) = ls"
  using assms
proof (induction "[nl]" ls rule: join_str.induct)
  case 1
  then show ?case by simp
next
  case (2 x)
  then show ?case by (simp add: str_lines_last clean_line_def)
next
  case (3 x y xs)
  then have "nl \<notin> set x" and "strip_cr x = x"
    by (simp_all add: clean_line_def strip_cr_clean)
  with 3 show ?case by (simp add: str_lines_Cons)
qed

lemma join_str_snoc: "xs \<noteq> [] \<Longrightarrow> join_str sep (xs @ [y]) = join_str sep xs @ sep @ y"
  by (induction sep xs rule: join_str.induct) auto

lemma join_str_Cons: "xs \<noteq> [] \<Longrightarrow> join_str sep (x # xs) = x @ sep @ join_str sep xs"
  by (cases xs) simp_all

subsection \<open>Lemmas on trimming\<close>

lemma strip_units_None: "unit_at us s = None \<Longrightarrow> strip_units us s = s"
  by (simp add: strip_units.simps)

lemma strip_units_Some:
  "unit_at us s = Some u \<Longrightarrow> strip_units us s = strip_units us (drop (length u) s)"
  by (simp add: strip_units.simps [of us s])

lemma strip_units_suffix: "suffix (strip_units us s) s"
proof (induction us s rule: strip_units.induct)
  case (1 us s)
  then show ?case
    by (cases "unit_at us s")
       (auto simp: strip_units_None strip_units_Some intro: suffix_order.trans suffix_drop)
qed

lemma strip_units_stops: "unit_at us (strip_units us s) = None"
proof (induction us s rule: strip_units.induct)
  case (1 us s)
  then show ?case by (cases "unit_at us s") (simp_all add: strip_units_None strip_units_Some)
qed

lemma strip_units_idem [simp]: "strip_units us (strip_units us s) = strip_units us s"
  by (simp add: strip_units_None strip_units_stops)

lemma strip_units_id_iff: "strip_units us s = s \<longleftrightarrow> unit_at us s = None"
  using strip_units_None strip_units_stops by metis

lemma unit_at_None_iff: "unit_at us s = None \<longleftrightarrow> (\<forall>u \<in> set us. u = [] \<or> \<not> prefix u s)"
  by (auto simp: unit_at_def find_None_iff)

lemma trim_end_id_iff:
  "trim_end s = s \<longleftrightarrow> (\<forall>u \<in> set ws_units. u = [] \<or> \<not> suffix u s)"
proof -
  have "trim_end s = s \<longleftrightarrow> strip_units (map rev ws_units) (rev s) = rev s"
    by (metis rev_rev_ident trim_end_def)
  also have "\<dots> \<longleftrightarrow> (\<forall>u \<in> set ws_units. u = [] \<or> \<not> suffix u s)"
    by (simp add: strip_units_id_iff unit_at_None_iff suffix_to_prefix)
  finally show ?thesis .
qed

lemma trim_start_id_iff:
  "trim_start s = s \<longleftrightarrow> (\<forall>u \<in> set ws_units. u = [] \<or> \<not> prefix u s)"
  by (simp add: trim_start_def strip_units_id_iff unit_at_None_iff)

lemma trim_Nil [simp]: "trim_start [] = []" "trim_end [] = []" "str_trim [] = []"
  using trim_start_id_iff [of "[]"] trim_end_id_iff [of "[]"] by (simp_all add: str_trim_def)

lemma trim_end_idem [simp]: "trim_end (trim_end s) = trim_end s"
  by (simp add: trim_end_def)

lemma trim_end_prefix: "prefix (trim_end s) s"
  using strip_units_suffix [of "map rev ws_units" "rev s"]
  by (simp add: trim_end_def suffix_to_prefix)

lemma trim_start_suffix: "suffix (trim_start s) s"
  by (simp add: trim_start_def strip_units_suffix)

definition ws_bytes :: "char list" where
  "ws_bytes = concat ws_units"

lemma ws_bytes_code:
  "ws_bytes = [CHR 0x20, CHR 0x09, CHR 0x0A, CHR 0x0B, CHR 0x0C, CHR 0x0D,
     CHR 0xC2, CHR 0x85, CHR 0xC2, CHR 0xA0, CHR 0xE1, CHR 0x9A, CHR 0x80] @
     concat (map (\<lambda>b. [CHR 0xE2, CHR 0x80, b])
       [CHR 0x80, CHR 0x81, CHR 0x82, CHR 0x83, CHR 0x84, CHR 0x85, CHR 0x86, CHR 0x87,
        CHR 0x88, CHR 0x89, CHR 0x8A, CHR 0xA8, CHR 0xA9, CHR 0xAF]) @
     [CHR 0xE2, CHR 0x81, CHR 0x9F, CHR 0xE3, CHR 0x80, CHR 0x80]"
  by (simp add: ws_bytes_def ws_units_def)

lemma ws_unit_bytes: "u \<in> set ws_units \<Longrightarrow> set u \<subseteq> set ws_bytes"
  by (auto simp: ws_bytes_def)

lemma ws_units_nonempty: "u \<in> set ws_units \<Longrightarrow> u \<noteq> []"
  by (auto simp: ws_units_def)

lemma ws_unit_space: "u \<in> set ws_units \<Longrightarrow> CHR 0x20 \<in> set u \<Longrightarrow> u = [CHR 0x20]"
  by (auto simp: ws_units_def)

lemma suffix_append_cases:
  "suffix u (a @ b) \<Longrightarrow> suffix u b \<or> (\<exists>v. v \<noteq> [] \<and> suffix v a \<and> u = v @ b)"
  by (metis append_Nil suffix_append suffix_order.refl)

text \<open>Bytes that occur in no white-space code point survive trimming.\<close>

lemma trim_end_snoc:
  assumes "c \<notin> set ws_bytes"
  shows "trim_end (s @ [c]) = s @ [c]"
proof -
  have "\<not> suffix u (s @ [c])" if "u \<in> set ws_units" for u
  proof
    assume suf: "suffix u (s @ [c])"
    from that ws_units_nonempty obtain v x where u: "u = v @ [x]"
      by (metis append_butlast_last_id)
    with suf have "x = c" by (auto simp: suffix_def)
    with u that ws_unit_bytes assms show False by fastforce
  qed
  then show ?thesis by (simp add: trim_end_id_iff)
qed

lemma trim_start_Cons:
  assumes "c \<notin> set ws_bytes"
  shows "trim_start (c # s) = c # s"
proof -
  have "\<not> prefix u (c # s)" if u: "u \<in> set ws_units" for u
  proof
    assume "prefix u (c # s)"
    moreover from u have "u \<noteq> []" by (rule ws_units_nonempty)
    ultimately have "c \<in> set u" by (cases u) auto
    with ws_unit_bytes [OF u] assms show False by blast
  qed
  then show ?thesis by (simp add: trim_start_id_iff)
qed

lemma strip_units_keeps:
  assumes "\<forall>u \<in> set us. c \<notin> set u"
  shows "\<exists>t. strip_units us (s @ [c]) = t @ [c]"
  using assms
proof (induction s rule: length_induct)
  case (1 s)
  show ?case
  proof (cases "unit_at us (s @ [c])")
    case None
    then show ?thesis by (simp add: strip_units_None)
  next
    case (Some u)
    from unit_at_SomeD [OF Some] have u: "u \<in> set us" "u \<noteq> []" "prefix u (s @ [c])" by auto
    with "1.prems" have pre: "prefix u s"
      by (metis in_set_conv_decomp prefix_snoc)
    then have "drop (length u) (s @ [c]) = drop (length u) s @ [c]"
      by (simp add: prefix_length_le)
    moreover from pre u have "length (drop (length u) s) < length s"
      by (auto simp: prefix_def)
    ultimately show ?thesis
      using "1.IH" "1.prems" Some by (simp add: strip_units_Some)
  qed
qed

lemma str_trim_Cons:
  assumes "c \<notin> set ws_bytes"
  shows "\<exists>t. str_trim (c # s) = c # t"
proof -
  have "\<forall>u \<in> set (map rev ws_units). c \<notin> set u"
    using assms ws_unit_bytes by auto
  from strip_units_keeps [OF this, of "rev s"] obtain t where "trim_end (c # s) = c # rev t"
    by (auto simp: trim_end_def)
  then show ?thesis using assms by (auto simp: str_trim_def trim_start_Cons)
qed

lemma str_trim_visible_ends:
  assumes "c \<notin> set ws_bytes" and "d \<notin> set ws_bytes"
  shows "str_trim (c # s @ [d]) = c # s @ [d]"
  using assms trim_end_snoc [of d "c # s"] by (simp add: str_trim_def trim_start_Cons)

text \<open>A marker that ends in a space keeps a following text that has no trailing white
  space of its own.\<close>

lemma trim_end_marker:
  assumes "p \<noteq> []" and "trim_end p = p"
  shows "trim_end (m @ CHR '' '' # p) = m @ CHR '' '' # p"
proof -
  have "\<not> suffix u (m @ CHR '' '' # p)" if u: "u \<in> set ws_units" for u
  proof
    assume "suffix u (m @ CHR '' '' # p)"
    then have "suffix u ((m @ [CHR '' '']) @ p)" by simp
    with assms u ws_units_nonempty obtain v where v: "v \<noteq> []" "suffix v (m @ [CHR '' ''])" "u = v @ p"
      by (metis suffix_append_cases trim_end_id_iff)
    then have "last v = CHR '' ''" by (metis last_appendR last_snoc suffix_def)
    then have "CHR '' '' \<in> set u" using v by (metis UnI1 last_in_set set_append)
    with ws_unit_space u have "u = [CHR '' '']" by simp
    with v assms show False by (cases v) auto
  qed
  then show ?thesis by (simp add: trim_end_id_iff)
qed

end
