(* ===== verification/Patch_Parser.thy ===== *)
theory Patch_Parser
  imports Rust_Base
begin

section \<open>The patch parser\<close>

text \<open>
  A model of \<^verbatim>\<open>codex-rs/apply-patch/src/parser.rs\<close>: the text a model sends to the
  \<open>apply_patch\<close> tool is cut into lines, its boundary markers are checked (with the
  here-document wrapper tolerated in lenient mode), and the lines between them are
  parsed into hunks.  Every \<open>return Err\<close> of the source is an \<open>Inl\<close> here, with its
  message and line number.

  Which patches of the grammar in the head comment of the source file it takes is
  said in \<^verbatim>\<open>Patch_Grammar\<close>.
\<close>

subsection \<open>Markers and data\<close>

definition BEGIN_PATCH_MARKER :: string where
  "BEGIN_PATCH_MARKER = ''*** Begin Patch''"

definition END_PATCH_MARKER :: string where
  "END_PATCH_MARKER = ''*** End Patch''"

definition ADD_FILE_MARKER :: string where
  "ADD_FILE_MARKER = ''*** Add File: ''"

definition DELETE_FILE_MARKER :: string where
  "DELETE_FILE_MARKER = ''*** Delete File: ''"

definition UPDATE_FILE_MARKER :: string where
  "UPDATE_FILE_MARKER = ''*** Update File: ''"

definition MOVE_TO_MARKER :: string where
  "MOVE_TO_MARKER = ''*** Move to: ''"

definition EOF_MARKER :: string where
  "EOF_MARKER = ''*** End of File''"

definition CHANGE_CONTEXT_MARKER :: string where
  "CHANGE_CONTEXT_MARKER = ''@@ ''"

definition EMPTY_CHANGE_CONTEXT_MARKER :: string where
  "EMPTY_CHANGE_CONTEXT_MARKER = ''@@''"

lemmas marker_defs =
  BEGIN_PATCH_MARKER_def END_PATCH_MARKER_def ADD_FILE_MARKER_def DELETE_FILE_MARKER_def
  UPDATE_FILE_MARKER_def MOVE_TO_MARKER_def EOF_MARKER_def CHANGE_CONTEXT_MARKER_def
  EMPTY_CHANGE_CONTEXT_MARKER_def

definition PARSE_IN_STRICT_MODE :: bool where
  "PARSE_IN_STRICT_MODE = False"

datatype parse_error =
    InvalidPatchError string
  | InvalidHunkError (hunk_message: string) (hunk_line_number: nat)

record update_file_chunk =
  change_context :: "string option"
  old_lines :: "string list"
  new_lines :: "string list"
  is_end_of_file :: bool

datatype hunk =
    AddFile (hunk_path: string) (hunk_contents: string)
  | DeleteFile (hunk_path: string)
  | UpdateFile (hunk_path: string) (hunk_move_path: "string option")
      (hunk_chunks: "update_file_chunk list")

record apply_patch_args =
  patch :: string
  hunks :: "hunk list"
  workdir :: "string option"

datatype parse_mode = Strict | Lenient

subsection \<open>One chunk of an update hunk\<close>

definition msg_no_lines :: string where
  "msg_no_lines = ''Update hunk does not contain any lines''"

definition msg_unexpected_line :: "string \<Rightarrow> string" where
  "msg_unexpected_line l =
     ''Unexpected line found in update hunk: '' @ [CHR 0x27] @ l @ [CHR 0x27] @
     ''. Every line should start with '' @ [CHR 0x27, CHR '' '', CHR 0x27] @
     '' (context line), '' @ [CHR 0x27, CHR ''+'', CHR 0x27] @
     '' (added line), or '' @ [CHR 0x27, CHR ''-'', CHR 0x27] @ '' (removed line)''"

text \<open>The \<open>for\<close> loop over \<open>lines[start_index..]\<close>, with \<open>parsed_lines\<close> as \<open>n\<close>.\<close>

fun chunk_loop ::
  "string list \<Rightarrow> nat \<Rightarrow> update_file_chunk \<Rightarrow> nat \<Rightarrow> (parse_error, update_file_chunk \<times> nat) result"
where
  "chunk_loop [] ln chunk n = Inr (chunk, n)"
| "chunk_loop (l # ls) ln chunk n =
     (if l = EOF_MARKER then
        (if n = 0 then Inl (InvalidHunkError msg_no_lines (ln + 1))
         else Inr (chunk\<lparr>is_end_of_file := True\<rparr>, n + 1))
      else case l of
        [] \<Rightarrow> chunk_loop ls ln
                (chunk\<lparr>old_lines := old_lines chunk @ [[]], new_lines := new_lines chunk @ [[]]\<rparr>) (n + 1)
      | c # r \<Rightarrow>
          if c = CHR '' '' then
            chunk_loop ls ln
              (chunk\<lparr>old_lines := old_lines chunk @ [r], new_lines := new_lines chunk @ [r]\<rparr>) (n + 1)
          else if c = CHR ''+'' then
            chunk_loop ls ln (chunk\<lparr>new_lines := new_lines chunk @ [r]\<rparr>) (n + 1)
          else if c = CHR ''-'' then
            chunk_loop ls ln (chunk\<lparr>old_lines := old_lines chunk @ [r]\<rparr>) (n + 1)
          else if n = 0 then Inl (InvalidHunkError (msg_unexpected_line l) (ln + 1))
          else Inr (chunk, n))"

text \<open>The optional context marker: the context and the index of the first diff line.\<close>

definition chunk_header ::
  "string \<Rightarrow> nat \<Rightarrow> bool \<Rightarrow> (parse_error, string option \<times> nat) result"
where
  "chunk_header l0 ln allow_missing_context =
     (if l0 = EMPTY_CHANGE_CONTEXT_MARKER then Inr (None, 1)
      else (case strip_prefix CHANGE_CONTEXT_MARKER l0 of
              Some ctx \<Rightarrow> Inr (Some ctx, 1)
            | None \<Rightarrow>
                if \<not> allow_missing_context then
                  Inl (InvalidHunkError
                    (''Expected update hunk to start with a @@ context marker, got: '' @
                     [CHR 0x27] @ l0 @ [CHR 0x27]) ln)
                else Inr (None, 0)))"

definition new_chunk :: "string option \<Rightarrow> update_file_chunk" where
  "new_chunk ctx =
     \<lparr>change_context = ctx, old_lines = [], new_lines = [], is_end_of_file = False\<rparr>"

definition parse_update_file_chunk ::
  "string list \<Rightarrow> nat \<Rightarrow> bool \<Rightarrow> (parse_error, update_file_chunk \<times> nat) result"
where
  "parse_update_file_chunk lines ln allow_missing_context =
     (case lines of
        [] \<Rightarrow> Inl (InvalidHunkError msg_no_lines ln)
      | l0 # _ \<Rightarrow>
          (case chunk_header l0 ln allow_missing_context of
             Inl e \<Rightarrow> Inl e
           | Inr (ctx, start_index) \<Rightarrow>
               if start_index \<ge> length lines then
                 Inl (InvalidHunkError msg_no_lines (ln + 1))
               else
                 (case chunk_loop (drop start_index lines) ln (new_chunk ctx) 0 of
                    Inl e \<Rightarrow> Inl e
                  | Inr (chunk, n) \<Rightarrow> Inr (chunk, n + start_index))))"

text \<open>A parsed chunk consumes at least one line and at most the lines it was given:
  the loops below stop, and their slices are in range.\<close>

lemma chunk_loop_consumes:
  "chunk_loop ls ln chunk n = Inr (chunk', m) \<Longrightarrow> n \<le> m \<and> m \<le> n + length ls"
  by (induction ls ln chunk n rule: chunk_loop.induct)
     (fastforce split: if_splits list.splits)+

lemma chunk_loop_progress:
  assumes "chunk_loop ls ln chunk 0 = Inr (chunk', m)" and "ls \<noteq> []"
  shows "0 < m"
  using assms
  by (cases ls) (auto split: if_splits list.splits dest!: chunk_loop_consumes)

lemma parse_update_file_chunk_Inr:
  assumes "parse_update_file_chunk lines ln b = Inr (chunk, m)"
  obtains ctx i n where "lines \<noteq> []" and "chunk_header (hd lines) ln b = Inr (ctx, i)"
    and "i < length lines" and "chunk_loop (drop i lines) ln (new_chunk ctx) 0 = Inr (chunk, n)"
    and "m = n + i"
  using assms
  by (auto simp: parse_update_file_chunk_def simp del: chunk_loop.simps
      split: list.splits if_splits sum.splits)

lemma parse_update_file_chunk_intro:
  assumes "lines \<noteq> []" and "chunk_header (hd lines) ln b = Inr (ctx, i)" and "i < length lines"
    and "chunk_loop (drop i lines) ln (new_chunk ctx) 0 = Inr (chunk, n)"
  shows "parse_update_file_chunk lines ln b = Inr (chunk, n + i)"
  using assms by (cases lines) (simp_all add: parse_update_file_chunk_def del: chunk_loop.simps)

lemma parse_update_file_chunk_consumes:
  assumes "parse_update_file_chunk lines ln b = Inr (chunk, m)"
  shows "0 < m \<and> m \<le> length lines"
  using assms
proof (rule parse_update_file_chunk_Inr)
  fix ctx i n
  assume i: "i < length lines"
    and run: "chunk_loop (drop i lines) ln (new_chunk ctx) 0 = Inr (chunk, n)" and m: "m = n + i"
  from chunk_loop_progress [OF run] i have "0 < n" by simp
  with chunk_loop_consumes [OF run] i m show ?thesis by simp
qed

subsection \<open>Hunks\<close>

text \<open>The \<open>while\<close> loop of the update arm; \<open>n\<close> is \<open>parsed_lines\<close>.\<close>

function parse_chunks ::
  "nat \<Rightarrow> string list \<Rightarrow> nat \<Rightarrow> update_file_chunk list \<Rightarrow>
   (parse_error, update_file_chunk list \<times> nat) result"
where
  "parse_chunks ln lines n cs =
     (case lines of
        [] \<Rightarrow> Inr (cs, n)
      | l # ls \<Rightarrow>
          if str_trim l = [] then parse_chunks ln ls (n + 1) cs
          else if prefix ''***'' l then Inr (cs, n)
          else (case parse_update_file_chunk lines (ln + n) (cs = []) of
                  Inl e \<Rightarrow> Inl e
                | Inr (chunk, m) \<Rightarrow> parse_chunks ln (drop m lines) (n + m) (cs @ [chunk])))"
  by pat_completeness auto
termination
  by (relation "measure (\<lambda>(ln, lines, n, cs). length lines)")
     (auto dest!: parse_update_file_chunk_consumes)

declare parse_chunks.simps [simp del]

text \<open>The \<open>for\<close> loop of the add arm: contents and the number of added lines.\<close>

fun add_lines :: "string list \<Rightarrow> string \<times> nat" where
  "add_lines [] = ([], 0)"
| "add_lines (l # ls) =
     (case strip_prefix ''+'' l of
        Some s \<Rightarrow> (let (c, n) = add_lines ls in (s @ [nl] @ c, n + 1))
      | None \<Rightarrow> ([], 0))"

definition msg_invalid_header :: "string \<Rightarrow> string" where
  "msg_invalid_header first_line =
     [CHR 0x27] @ first_line @ [CHR 0x27] @
     '' is not a valid hunk header. Valid hunk headers: '' @
     [CHR 0x27] @ ''*** Add File: {path}'' @ [CHR 0x27] @ '', '' @
     [CHR 0x27] @ ''*** Delete File: {path}'' @ [CHR 0x27] @ '', '' @
     [CHR 0x27] @ ''*** Update File: {path}'' @ [CHR 0x27]"

text \<open>The slice the source passes is never empty; it is given as its first line and the
  rest.\<close>

definition parse_one_hunk ::
  "string \<Rightarrow> string list \<Rightarrow> nat \<Rightarrow> (parse_error, hunk \<times> nat) result"
where
  "parse_one_hunk line0 rest ln =
     (let first_line = str_trim line0 in
      (case strip_prefix ADD_FILE_MARKER first_line of
         Some p \<Rightarrow> (let (c, n) = add_lines rest in Inr (AddFile p c, n + 1))
       | None \<Rightarrow>
      (case strip_prefix DELETE_FILE_MARKER first_line of
         Some p \<Rightarrow> Inr (DeleteFile p, 1)
       | None \<Rightarrow>
      (case strip_prefix UPDATE_FILE_MARKER first_line of
         Some p \<Rightarrow>
           (let mv = (case rest of [] \<Rightarrow> None | x # _ \<Rightarrow> strip_prefix MOVE_TO_MARKER x);
                (remaining, n) = (if mv \<noteq> None then (tl rest, 2) else (rest, 1))
            in (case parse_chunks ln remaining n [] of
                  Inl e \<Rightarrow> Inl e
                | Inr (cs, m) \<Rightarrow>
                    if cs = [] then
                      Inl (InvalidHunkError
                        (''Update file hunk for path '' @ [CHR 0x27] @ p @ [CHR 0x27] @ '' is empty'') ln)
                    else Inr (UpdateFile p mv cs, m)))
       | None \<Rightarrow> Inl (InvalidHunkError (msg_invalid_header first_line) ln)))))"

lemma add_lines_bound: "snd (add_lines ls) \<le> length ls"
  by (induction ls) (auto split: option.splits prod.splits)

lemma parse_chunks_Nil [simp]: "parse_chunks ln [] n cs = Inr (cs, n)"
  by (simp add: parse_chunks.simps)

lemma parse_chunks_blank:
  "str_trim l = [] \<Longrightarrow> parse_chunks ln (l # ls) n cs = parse_chunks ln ls (n + 1) cs"
  by (simp add: parse_chunks.simps [of ln "l # ls"])

lemma parse_chunks_stop:
  "str_trim l \<noteq> [] \<Longrightarrow> prefix ''***'' l \<Longrightarrow> parse_chunks ln (l # ls) n cs = Inr (cs, n)"
  by (simp add: parse_chunks.simps [of ln "l # ls"])

lemma parse_chunks_chunk:
  "str_trim l \<noteq> [] \<Longrightarrow> \<not> prefix ''***'' l \<Longrightarrow>
   parse_chunks ln (l # ls) n cs =
     (case parse_update_file_chunk (l # ls) (ln + n) (cs = []) of
        Inl e \<Rightarrow> Inl e
      | Inr (chunk, m) \<Rightarrow> parse_chunks ln (drop m (l # ls)) (n + m) (cs @ [chunk]))"
  by (simp add: parse_chunks.simps [of ln "l # ls"])

lemma parse_chunks_consumes:
  "parse_chunks ln lines n cs = Inr (cs', m) \<Longrightarrow> n \<le> m \<and> m \<le> n + length lines"
proof (induction ln lines n cs rule: parse_chunks.induct)
  case (1 ln lines n cs)
  show ?case
  proof (cases lines)
    case Nil
    with "1.prems" show ?thesis by simp
  next
    case (Cons l ls)
    consider (blank) "str_trim l = []" | (stop) "str_trim l \<noteq> []" "prefix ''***'' l"
      | (chunk) "str_trim l \<noteq> []" "\<not> prefix ''***'' l" by blast
    then show ?thesis
    proof cases
      case blank
      with "1.prems" Cons have "parse_chunks ln ls (n + 1) cs = Inr (cs', m)"
        by (simp add: parse_chunks_blank)
      with "1.IH"(1) [OF Cons blank] Cons show ?thesis by simp
    next
      case stop
      with "1.prems" Cons show ?thesis by (simp add: parse_chunks_stop)
    next
      case chunk
      with "1.prems" Cons obtain c k where
        k: "parse_update_file_chunk lines (ln + n) (cs = []) = Inr (c, k)" and
        rec: "parse_chunks ln (drop k lines) (n + k) (cs @ [c]) = Inr (cs', m)"
        by (auto simp: parse_chunks_chunk split: sum.splits)
      from parse_update_file_chunk_consumes [OF k] have "k \<le> length lines" by simp
      with "1.IH"(2) [OF Cons chunk k refl rec] show ?thesis by simp
    qed
  qed
qed

lemma parse_one_hunk_consumes:
  assumes "parse_one_hunk l ls ln = Inr (h, m)"
  shows "0 < m \<and> m \<le> Suc (length ls)"
  using assms
  by (auto simp: parse_one_hunk_def Let_def
      split: option.splits prod.splits if_splits sum.splits list.splits
      dest!: parse_chunks_consumes)
     (use add_lines_bound [of ls] in simp)

subsection \<open>The whole patch\<close>

definition msg_first_line :: string where
  "msg_first_line =
     ''The first line of the patch must be '' @ [CHR 0x27] @ ''*** Begin Patch'' @ [CHR 0x27]"

definition msg_last_line :: string where
  "msg_last_line =
     ''The last line of the patch must be '' @ [CHR 0x27] @ ''*** End Patch'' @ [CHR 0x27]"

definition check_start_and_end_lines_strict ::
  "string option \<Rightarrow> string option \<Rightarrow> (parse_error, unit) result"
where
  "check_start_and_end_lines_strict first_line last_line =
     (case (map_option str_trim first_line, map_option str_trim last_line) of
        (Some first, lst) \<Rightarrow>
          if first = BEGIN_PATCH_MARKER \<and> lst = Some END_PATCH_MARKER then Inr ()
          else if first \<noteq> BEGIN_PATCH_MARKER then Inl (InvalidPatchError msg_first_line)
          else Inl (InvalidPatchError msg_last_line)
      | (None, _) \<Rightarrow> Inl (InvalidPatchError msg_last_line))"

definition check_patch_boundaries_strict :: "string list \<Rightarrow> (parse_error, unit) result" where
  "check_patch_boundaries_strict lines =
     (case lines of
        [] \<Rightarrow> check_start_and_end_lines_strict None None
      | first # _ \<Rightarrow> check_start_and_end_lines_strict (Some first) (Some (last lines)))"

definition heredoc_openers :: "string list" where
  "heredoc_openers =
     [''<<EOF'', ''<<'' @ [CHR 0x27] @ ''EOF'' @ [CHR 0x27], ''<<'' @ [CHR 0x22] @ ''EOF'' @ [CHR 0x22]]"

definition check_patch_boundaries_lenient ::
  "string list \<Rightarrow> parse_error \<Rightarrow> (parse_error, string list) result"
where
  "check_patch_boundaries_lenient original_lines original_parse_error =
     (if length original_lines \<ge> 2 then
        (if hd original_lines \<in> set heredoc_openers \<and> suffix ''EOF'' (last original_lines)
            \<and> length original_lines \<ge> 4 then
           (let inner_lines = butlast (tl original_lines) in
            case check_patch_boundaries_strict inner_lines of
              Inr _ \<Rightarrow> Inr inner_lines
            | Inl e \<Rightarrow> Inl e)
         else Inl original_parse_error)
      else Inl original_parse_error)"

function parse_hunks :: "string list \<Rightarrow> nat \<Rightarrow> hunk list \<Rightarrow> (parse_error, hunk list) result" where
  "parse_hunks remaining ln hs =
     (case remaining of
        [] \<Rightarrow> Inr hs
      | l # ls \<Rightarrow>
          (case parse_one_hunk l ls ln of
             Inl e \<Rightarrow> Inl e
           | Inr (h, n) \<Rightarrow> parse_hunks (drop n remaining) (ln + n) (hs @ [h])))"
  by pat_completeness auto
termination
  by (relation "measure (\<lambda>(lines, ln, hs). length lines)")
     (auto dest!: parse_one_hunk_consumes)

declare parse_hunks.simps [simp del]

definition parse_patch_text :: "string \<Rightarrow> parse_mode \<Rightarrow> (parse_error, apply_patch_args) result" where
  "parse_patch_text text mode =
     (let lines0 = str_lines (str_trim text) in
      case (case check_patch_boundaries_strict lines0 of
              Inr _ \<Rightarrow> Inr lines0
            | Inl e \<Rightarrow> (case mode of
                         Strict \<Rightarrow> Inl e
                       | Lenient \<Rightarrow> check_patch_boundaries_lenient lines0 e)) of
        Inl e \<Rightarrow> Inl e
      | Inr lines \<Rightarrow>
          (case parse_hunks (take (length lines - 1 - 1) (drop 1 lines)) 2 [] of
             Inl e \<Rightarrow> Inl e
           | Inr hs \<Rightarrow> Inr \<lparr>patch = join_str [nl] lines, hunks = hs, workdir = None\<rparr>))"

definition parse_patch :: "string \<Rightarrow> (parse_error, apply_patch_args) result" where
  "parse_patch text = parse_patch_text text (if PARSE_IN_STRICT_MODE then Strict else Lenient)"

end
