(* ===== verification/Patch_Grammar.thy ===== *)
theory Patch_Grammar
  imports Patch_Parser
begin

section \<open>The patch grammar and the parser\<close>

text \<open>
  The Lark grammar in the head comment of \<^verbatim>\<open>parser.rs\<close> as an abstract syntax, its
  rendering to text and its denotation as hunks, and which of its patches the parser takes.
  An update is written as chunks: a context line, lines that change, and an end-of-file mark.
  The change of the comment's grammar is any sequence of context lines and changing lines
  (\<open>change_item\<close>), and \<open>update_is_spelled_in_chunks\<close> says that each is a list of chunks.

  Two conditions are kept apart.  A patch is \<^emph>\<open>spelled\<close> if the line-based format can express it:
  no text has a line feed, no path ends in white space, only the first chunk goes without a context
  line, and it does not open with a blank line (which the parser skips as a separator).  It is
  \<^emph>\<open>complete\<close> if each update has a chunk and each chunk a changing line.  The comment allows updates that
  are not complete (a move alone, two context lines in a row, a context line at the end); the parser
  does not.
\<close>

subsection \<open>Abstract syntax, rendering, denotation\<close>

datatype change_line = ContextLine string | AddedLine string | RemovedLine string

datatype chunk_head = NoHeader | EmptyHeader | Header string

record chunk_src =
  head_of :: chunk_head
  body_of :: "change_line list"
  at_eof :: bool

datatype hunk_src =
    AddSrc string "string list"
  | DeleteSrc string
  | UpdateSrc string "string option" "chunk_src list"

fun render_line :: "change_line \<Rightarrow> string" where
  "render_line (ContextLine s) = CHR '' '' # s"
| "render_line (AddedLine s) = CHR ''+'' # s"
| "render_line (RemovedLine s) = CHR ''-'' # s"

fun render_head :: "chunk_head \<Rightarrow> string list" where
  "render_head NoHeader = []"
| "render_head EmptyHeader = [EMPTY_CHANGE_CONTEXT_MARKER]"
| "render_head (Header s) = [CHANGE_CONTEXT_MARKER @ s]"

definition render_chunk :: "chunk_src \<Rightarrow> string list" where
  "render_chunk c =
     render_head (head_of c) @ map render_line (body_of c) @ (if at_eof c then [EOF_MARKER] else [])"

fun render_hunk :: "hunk_src \<Rightarrow> string list" where
  "render_hunk (AddSrc p ls) = (ADD_FILE_MARKER @ p) # map ((#) (CHR ''+'')) ls"
| "render_hunk (DeleteSrc p) = [DELETE_FILE_MARKER @ p]"
| "render_hunk (UpdateSrc p mv cs) =
     (UPDATE_FILE_MARKER @ p) # (case mv of None \<Rightarrow> [] | Some m \<Rightarrow> [MOVE_TO_MARKER @ m]) @
     concat (map render_chunk cs)"

definition render_patch :: "hunk_src list \<Rightarrow> string list" where
  "render_patch hs = BEGIN_PATCH_MARKER # concat (map render_hunk hs) @ [END_PATCH_MARKER]"

definition patch_text :: "hunk_src list \<Rightarrow> string" where
  "patch_text hs = join_str [nl] (render_patch hs)"

fun old_of :: "change_line list \<Rightarrow> string list" where
  "old_of [] = []"
| "old_of (ContextLine s # ls) = s # old_of ls"
| "old_of (AddedLine s # ls) = old_of ls"
| "old_of (RemovedLine s # ls) = s # old_of ls"

fun new_of :: "change_line list \<Rightarrow> string list" where
  "new_of [] = []"
| "new_of (ContextLine s # ls) = s # new_of ls"
| "new_of (AddedLine s # ls) = s # new_of ls"
| "new_of (RemovedLine s # ls) = new_of ls"

fun context_of :: "chunk_head \<Rightarrow> string option" where
  "context_of (Header s) = Some s"
| "context_of _ = None"

definition denote_chunk :: "chunk_src \<Rightarrow> update_file_chunk" where
  "denote_chunk c =
     \<lparr>change_context = context_of (head_of c), old_lines = old_of (body_of c),
      new_lines = new_of (body_of c), is_end_of_file = at_eof c\<rparr>"

fun denote_hunk :: "hunk_src \<Rightarrow> hunk" where
  "denote_hunk (AddSrc p ls) = AddFile p (concat (map (\<lambda>l. l @ [nl]) ls))"
| "denote_hunk (DeleteSrc p) = DeleteFile p"
| "denote_hunk (UpdateSrc p mv cs) = UpdateFile p mv (map denote_chunk cs)"

subsection \<open>Well-formed sources\<close>

definition wf_path :: "string \<Rightarrow> bool" where
  "wf_path p = (clean_line p \<and> p \<noteq> [] \<and> trim_end p = p)"

text \<open>What the lines of a patch can say.\<close>

definition spelled_chunk :: "bool \<Rightarrow> chunk_src \<Rightarrow> bool" where
  "spelled_chunk is_first c =
     (list_all clean_line (render_chunk c) \<and>
      (head_of c = NoHeader \<longrightarrow>
         is_first \<and> body_of c \<noteq> [] \<and> str_trim (render_line (hd (body_of c))) \<noteq> []))"

fun spelled_chunks :: "bool \<Rightarrow> chunk_src list \<Rightarrow> bool" where
  "spelled_chunks is_first [] = True"
| "spelled_chunks is_first (c # cs) = (spelled_chunk is_first c \<and> spelled_chunks False cs)"

fun spelled_hunk :: "hunk_src \<Rightarrow> bool" where
  "spelled_hunk (AddSrc p ls) = (wf_path p \<and> list_all clean_line (map ((#) (CHR ''+'')) ls))"
| "spelled_hunk (DeleteSrc p) = wf_path p"
| "spelled_hunk (UpdateSrc p mv cs) =
     (wf_path p \<and> (case mv of None \<Rightarrow> True | Some m \<Rightarrow> clean_line (MOVE_TO_MARKER @ m)) \<and>
      spelled_chunks True cs)"

text \<open>What the parser asks for beyond the grammar of the comment.\<close>

definition complete_chunk :: "chunk_src \<Rightarrow> bool" where
  "complete_chunk c = (body_of c \<noteq> [])"

fun complete_hunk :: "hunk_src \<Rightarrow> bool" where
  "complete_hunk (UpdateSrc p mv cs) = (cs \<noteq> [] \<and> list_all complete_chunk cs)"
| "complete_hunk _ = True"

subsection \<open>Changes as the head comment has them\<close>

datatype change_item = ContextItem "string option" | LineItem change_line

fun render_item :: "change_item \<Rightarrow> string" where
  "render_item (ContextItem None) = EMPTY_CHANGE_CONTEXT_MARKER"
| "render_item (ContextItem (Some s)) = CHANGE_CONTEXT_MARKER @ s"
| "render_item (LineItem l) = render_line l"

fun add_item :: "chunk_src list \<Rightarrow> change_item \<Rightarrow> chunk_src list" where
  "add_item cs (ContextItem None) = cs @ [\<lparr>head_of = EmptyHeader, body_of = [], at_eof = False\<rparr>]"
| "add_item cs (ContextItem (Some s)) = cs @ [\<lparr>head_of = Header s, body_of = [], at_eof = False\<rparr>]"
| "add_item cs (LineItem l) =
     (if cs = [] then [\<lparr>head_of = NoHeader, body_of = [l], at_eof = False\<rparr>]
      else butlast cs @ [(last cs)\<lparr>body_of := body_of (last cs) @ [l]\<rparr>])"

definition chunks_of :: "change_item list \<Rightarrow> bool \<Rightarrow> chunk_src list" where
  "chunks_of items eof =
     (let cs = foldl add_item [] items
      in if cs = [] then [] else butlast cs @ [(last cs)\<lparr>at_eof := eof\<rparr>])"

lemma add_item_not_Nil: "add_item cs i \<noteq> []"
  by (cases "(cs, i)" rule: add_item.cases) simp_all

lemma render_add_item:
  assumes "\<not> at_eof (last cs) \<or> cs = []"
  shows "concat (map render_chunk (add_item cs i)) = concat (map render_chunk cs) @ [render_item i] \<and>
    \<not> at_eof (last (add_item cs i))"
  using assms
  by (cases "(cs, i)" rule: add_item.cases; cases cs rule: rev_cases)
    (auto simp: render_chunk_def)

lemma render_items:
  "concat (map render_chunk (foldl add_item [] items)) = map render_item items \<and>
   (items = [] \<longleftrightarrow> foldl add_item [] items = []) \<and>
   (items \<noteq> [] \<longrightarrow> \<not> at_eof (last (foldl add_item [] items)))"
proof (induction items rule: rev_induct)
  case (snoc i items)
  with render_add_item [of "foldl add_item [] items" i] add_item_not_Nil [of "foldl add_item [] items" i]
  show ?case by auto
qed simp

text \<open>Every change that the comment's grammar has is written as chunks.\<close>

lemma update_is_spelled_in_chunks:
  assumes "items \<noteq> []"
  shows "concat (map render_chunk (chunks_of items eof)) =
    map render_item items @ (if eof then [EOF_MARKER] else [])"
proof -
  obtain cs c where cs: "foldl add_item [] items = cs @ [c]"
    using render_items [of items] assms by (metis rev_exhaust)
  with render_items [of items] assms
  show ?thesis by (auto simp: chunks_of_def Let_def render_chunk_def)
qed

subsection \<open>The parser on rendered chunks\<close>

lemma render_line_not_eof [simp]: "render_line l \<noteq> EOF_MARKER"
  by (cases l) (simp_all add: EOF_MARKER_def)

text \<open>The loop over the rendered body of a chunk.\<close>

lemma chunk_loop_body:
  "chunk_loop (map render_line body @ rest) ln chunk n =
   chunk_loop rest ln
     (chunk\<lparr>old_lines := old_lines chunk @ old_of body, new_lines := new_lines chunk @ new_of body\<rparr>)
     (n + length body)"
proof (induction body arbitrary: chunk n)
  case Nil
  then show ?case by simp
next
  case (Cons l body)
  then show ?case by (cases l) (simp_all add: EOF_MARKER_def)
qed

text \<open>What may follow a chunk: nothing, the next chunk's marker, or the next hunk.\<close>

definition stops_chunk :: "string list \<Rightarrow> bool" where
  "stops_chunk rest =
     (case rest of [] \<Rightarrow> True
      | l # _ \<Rightarrow> l \<noteq> EOF_MARKER \<and> (case l of [] \<Rightarrow> False | c # _ \<Rightarrow> c \<in> {CHR ''@'', CHR ''*''}))"

lemma chunk_loop_stop: "stops_chunk rest \<Longrightarrow> 0 < n \<Longrightarrow> chunk_loop rest ln chunk n = Inr (chunk, n)"
  by (cases rest) (auto simp: stops_chunk_def split: list.splits)

lemma chunk_loop_tail:
  assumes "stops_chunk rest" and "0 < n" and "\<not> is_end_of_file chunk"
  shows "chunk_loop ((if e then [EOF_MARKER] else []) @ rest) ln chunk n =
    Inr (chunk\<lparr>is_end_of_file := e\<rparr>, n + (if e then 1 else 0))"
  using assms by (simp add: chunk_loop_stop)

lemma chunk_header_render:
  assumes "spelled_chunk b c"
  shows "chunk_header (hd (render_chunk c)) ln b =
    Inr (context_of (head_of c), length (render_head (head_of c)))"
proof (cases "head_of c")
  case NoHeader
  with assms obtain l ls where body: "body_of c = l # ls" and b
    by (auto simp: spelled_chunk_def neq_Nil_conv)
  then show ?thesis using NoHeader
    by (cases l) (simp_all add: chunk_header_def render_chunk_def strip_prefix_def marker_defs)
qed (simp_all add: chunk_header_def render_chunk_def strip_prefix_def marker_defs)

lemma parse_update_file_chunk_render:
  assumes wf: "spelled_chunk b c" and body: "complete_chunk c" and rest: "stops_chunk rest"
  shows "parse_update_file_chunk (render_chunk c @ rest) ln b =
    Inr (denote_chunk c, length (render_chunk c))"
proof -
  let ?i = "length (render_head (head_of c))"
  from body have body: "body_of c \<noteq> []" by (simp add: complete_chunk_def)
  then have ne: "render_chunk c \<noteq> []" and i: "?i < length (render_chunk c)"
    by (simp_all add: render_chunk_def)
  have dr: "drop ?i (render_chunk c @ rest) =
      map render_line (body_of c) @ (if at_eof c then [EOF_MARKER] else []) @ rest"
    by (simp add: render_chunk_def)
  have run: "chunk_loop (drop ?i (render_chunk c @ rest)) ln (new_chunk (context_of (head_of c))) 0 =
      Inr (denote_chunk c, length (body_of c) + (if at_eof c then 1 else 0))"
    unfolding dr chunk_loop_body using body rest
    by (subst chunk_loop_tail) (simp_all add: new_chunk_def denote_chunk_def)
  from ne have hd: "hd (render_chunk c @ rest) = hd (render_chunk c)" by simp
  have len: "length (render_chunk c) = length (body_of c) + (if at_eof c then 1 else 0) + ?i"
    by (simp add: render_chunk_def)
  show ?thesis
    unfolding len
    by (rule parse_update_file_chunk_intro [OF _ _ _ run])
       (use ne hd i chunk_header_render [OF wf] in auto)
qed

text \<open>A chunk without a changing line is refused.\<close>

lemma parse_update_file_chunk_refused:
  assumes "spelled_chunk b c" and "\<not> complete_chunk c" and "stops_chunk rest"
  shows "\<exists>e. parse_update_file_chunk (render_chunk c @ rest) ln b = Inl e"
proof -
  have no_body: "body_of c = []" and head: "head_of c \<noteq> NoHeader"
    using assms(1,2) by (auto simp: spelled_chunk_def complete_chunk_def)
  then obtain l where l: "render_head (head_of c) = [l]" by (cases "head_of c") simp_all
  have hd: "chunk_header l ln b = Inr (context_of (head_of c), 1)"
    using chunk_header_render [OF assms(1)] l by (simp add: render_chunk_def)
  let ?tail = "(if at_eof c then [EOF_MARKER] else []) @ rest"
  have whole: "render_chunk c @ rest = l # ?tail" using no_body l by (simp add: render_chunk_def)
  have "\<exists>e. chunk_loop ?tail ln (new_chunk (context_of (head_of c))) 0 = Inl e" if "?tail \<noteq> []"
    using assms(3) that by (cases rest) (auto simp: stops_chunk_def split: list.splits if_splits)
  then show ?thesis
    unfolding whole using hd by (cases ?tail) (auto simp: parse_update_file_chunk_def simp del: chunk_loop.simps)
qed

text \<open>The loop over the chunks of an update hunk.\<close>

lemma render_chunk_first:
  assumes "spelled_chunk b c"
  obtains l ls where "render_chunk c = l # ls" and "str_trim l \<noteq> []" and "\<not> prefix ''***'' l"
proof (cases "head_of c")
  case NoHeader
  with assms obtain l ls where "body_of c = l # ls" "str_trim (render_line l) \<noteq> []"
    by (auto simp: spelled_chunk_def neq_Nil_conv)
  moreover have "\<not> prefix ''***'' (render_line l)" by (cases l) simp_all
  ultimately show ?thesis using that NoHeader by (simp add: render_chunk_def)
next
  case EmptyHeader
  have "\<exists>t. str_trim ''@@'' = CHR ''@'' # t" by (rule str_trim_Cons) (simp add: ws_bytes_code)
  with EmptyHeader that show ?thesis
    by (fastforce simp: render_chunk_def marker_defs)
next
  case (Header s)
  have "\<exists>t. str_trim (''@@ '' @ s) = CHR ''@'' # t"
    using str_trim_Cons [of "CHR ''@''" "''@ '' @ s"] by (simp add: ws_bytes_code)
  with Header that show ?thesis
    by (fastforce simp: render_chunk_def marker_defs)
qed

lemma render_chunk_stops:
  "head_of c \<noteq> NoHeader \<Longrightarrow> stops_chunk (render_chunk c @ rest)"
  by (cases "head_of c") (simp_all add: render_chunk_def stops_chunk_def marker_defs)

definition stops_hunk :: "string list \<Rightarrow> bool" where
  "stops_hunk rest =
     (case rest of [] \<Rightarrow> True | l # _ \<Rightarrow> prefix ''***'' l \<and> l \<noteq> EOF_MARKER \<and> \<not> prefix MOVE_TO_MARKER l)"

lemma stops_hunk_chunk: "stops_hunk rest \<Longrightarrow> stops_chunk rest"
  by (auto simp: stops_hunk_def stops_chunk_def split: list.splits)

lemma spelled_chunks_stop:
  assumes "spelled_chunks False cs" and "stops_hunk rest"
  shows "stops_chunk (concat (map render_chunk cs) @ rest)"
proof (cases cs)
  case Nil
  with assms show ?thesis by (simp add: stops_hunk_chunk)
next
  case (Cons c cs')
  with assms have "head_of c \<noteq> NoHeader" by (auto simp: spelled_chunk_def)
  from render_chunk_stops [OF this] Cons show ?thesis by simp
qed

lemma parse_chunks_stop_hunk: "stops_hunk rest \<Longrightarrow> parse_chunks ln rest n acc = Inr (acc, n)"
proof (cases rest)
  case (Cons l ls)
  assume "stops_hunk rest"
  with Cons obtain t where l: "l = CHR ''*'' # t" "prefix ''***'' l"
    by (auto simp: stops_hunk_def prefix_def)
  have "\<exists>t'. str_trim l = CHR ''*'' # t'"
    unfolding l(1) by (rule str_trim_Cons) (simp add: ws_bytes_code)
  with l Cons show ?thesis by (auto simp: parse_chunks_stop)
qed simp

lemma parse_chunks_render:
  assumes "spelled_chunks (acc = []) cs" and "list_all complete_chunk cs" and "stops_hunk rest"
  shows "parse_chunks ln (concat (map render_chunk cs) @ rest) n acc =
    Inr (acc @ map denote_chunk cs, n + length (concat (map render_chunk cs)))"
  using assms(1,2)
proof (induction cs arbitrary: acc n)
  case Nil
  with assms(3) show ?case by (simp add: parse_chunks_stop_hunk)
next
  case (Cons c cs)
  let ?rest = "concat (map render_chunk cs) @ rest"
  from Cons.prems have wf: "spelled_chunk (acc = []) c" and full: "complete_chunk c"
    and wfs: "spelled_chunks False cs" "list_all complete_chunk cs" by simp_all
  from wf obtain l ls where l: "render_chunk c = l # ls" "str_trim l \<noteq> []" "\<not> prefix ''***'' l"
    by (rule render_chunk_first)
  have "parse_chunks ln (render_chunk c @ ?rest) n acc =
      parse_chunks ln ?rest (n + length (render_chunk c)) (acc @ [denote_chunk c])"
    using parse_update_file_chunk_render [OF wf full spelled_chunks_stop [OF wfs(1) assms(3)], of "ln + n"] l
    by (simp add: parse_chunks_chunk)
  also from wfs have "\<dots> = Inr ((acc @ [denote_chunk c]) @ map denote_chunk cs,
      n + length (render_chunk c) + length (concat (map render_chunk cs)))"
    by (subst Cons.IH) simp_all
  finally show ?case by simp
qed

lemma parse_chunks_refused:
  assumes "spelled_chunks (acc = []) cs" and "\<not> list_all complete_chunk cs" and "stops_hunk rest"
  shows "\<exists>e. parse_chunks ln (concat (map render_chunk cs) @ rest) n acc = Inl e"
  using assms(1,2)
proof (induction cs arbitrary: acc n)
  case (Cons c cs)
  let ?rest = "concat (map render_chunk cs) @ rest"
  from Cons.prems have wf: "spelled_chunk (acc = []) c" and wfs: "spelled_chunks False cs" by simp_all
  note stop = spelled_chunks_stop [OF wfs assms(3)]
  from wf obtain l ls where l: "render_chunk c = l # ls" "str_trim l \<noteq> []" "\<not> prefix ''***'' l"
    by (rule render_chunk_first)
  show ?case
  proof (cases "complete_chunk c")
    case True
    have "parse_chunks ln (render_chunk c @ ?rest) n acc =
        parse_chunks ln ?rest (n + length (render_chunk c)) (acc @ [denote_chunk c])"
      using parse_update_file_chunk_render [OF wf True stop, of "ln + n"] l
      by (simp add: parse_chunks_chunk)
    with Cons.IH [of "acc @ [denote_chunk c]"] Cons.prems(2) wfs True show ?thesis by simp
  next
    case False
    from parse_update_file_chunk_refused [OF wf False stop, of "ln + n"] l
    show ?thesis by (auto simp: parse_chunks_chunk)
  qed
qed simp

subsection \<open>The parser on rendered hunks and patches\<close>

lemma str_trim_marker:
  assumes "wf_path p"
  shows "str_trim (ADD_FILE_MARKER @ p) = ADD_FILE_MARKER @ p"
    and "str_trim (DELETE_FILE_MARKER @ p) = DELETE_FILE_MARKER @ p"
    and "str_trim (UPDATE_FILE_MARKER @ p) = UPDATE_FILE_MARKER @ p"
  using assms trim_end_marker [of p "''*** Add File:''"]
    trim_end_marker [of p "''*** Delete File:''"] trim_end_marker [of p "''*** Update File:''"]
  by (simp_all add: wf_path_def str_trim_def marker_defs trim_start_Cons ws_bytes_code)

lemma add_lines_render:
  "stops_hunk rest \<Longrightarrow>
   add_lines (map ((#) (CHR ''+'')) ls @ rest) = (concat (map (\<lambda>l. l @ [nl]) ls), length ls)"
proof (induction ls)
  case Nil
  then show ?case by (auto simp: stops_hunk_def strip_prefix_def prefix_def split: list.splits)
qed (simp add: strip_prefix_def)

text \<open>The arm for updates, over what the loop for its chunks returns.\<close>

lemma parse_one_hunk_update:
  assumes "wf_path p" and "spelled_chunks True cs" and "stops_hunk rest"
  shows "\<exists>l ls. render_hunk (UpdateSrc p mv cs) = l # ls \<and>
    parse_one_hunk l (ls @ rest) ln =
      (let k = 1 + (if mv = None then 0 else 1) in
       case parse_chunks ln (concat (map render_chunk cs) @ rest) k [] of
         Inl e \<Rightarrow> Inl e
       | Inr (parsed, m) \<Rightarrow>
           if parsed = [] then
             Inl (InvalidHunkError (''Update file hunk for path '' @ [CHR 0x27] @ p @ [CHR 0x27] @ '' is empty'') ln)
           else Inr (UpdateFile p mv parsed, m))"
proof -
  have no_move: "strip_prefix MOVE_TO_MARKER l = None"
    if "concat (map render_chunk cs) @ rest = l # ls" for l ls
  proof (cases cs)
    case Nil
    with that assms(3) show ?thesis by (simp add: stops_hunk_def strip_prefix_def)
  next
    case (Cons c cs')
    with assms(2) obtain l' ls' where "render_chunk c = l' # ls'" "\<not> prefix ''***'' l'"
      by (metis render_chunk_first spelled_chunks.simps(2))
    with Cons that show ?thesis by (auto simp: strip_prefix_def MOVE_TO_MARKER_def prefix_def)
  qed
  have "strip_prefix ADD_FILE_MARKER (UPDATE_FILE_MARKER @ p) = None"
    and "strip_prefix DELETE_FILE_MARKER (UPDATE_FILE_MARKER @ p) = None"
    and "strip_prefix UPDATE_FILE_MARKER (UPDATE_FILE_MARKER @ p) = Some p"
    and "\<And>m. strip_prefix MOVE_TO_MARKER (MOVE_TO_MARKER @ m) = Some m"
    by (simp_all add: strip_prefix_def marker_defs)
  note prefixes = this
  show ?thesis
  proof (cases mv)
    case None
    have move: "(case concat (map render_chunk cs) @ rest of [] \<Rightarrow> None | x # _ \<Rightarrow> strip_prefix MOVE_TO_MARKER x) = None"
      using no_move by (auto split: list.split)
    show ?thesis
      unfolding None by (simp add: parse_one_hunk_def str_trim_marker assms(1) prefixes move Let_def)
  next
    case (Some m)
    show ?thesis
      unfolding Some
      by (simp add: parse_one_hunk_def str_trim_marker assms(1) prefixes Let_def numeral_2_eq_2)
  qed
qed

lemma parse_one_hunk_render:
  assumes wf: "spelled_hunk h" and full: "complete_hunk h" and rest: "stops_hunk rest"
  obtains l ls where "render_hunk h = l # ls"
    and "parse_one_hunk l (ls @ rest) ln = Inr (denote_hunk h, length (render_hunk h))"
proof (cases h)
  case (AddSrc p ls)
  with wf rest that show ?thesis
    by (simp add: parse_one_hunk_def str_trim_marker strip_prefix_def add_lines_render)
next
  case (DeleteSrc p)
  with wf that show ?thesis
    by (simp add: parse_one_hunk_def str_trim_marker) (simp add: strip_prefix_def marker_defs)
next
  case (UpdateSrc p mv cs)
  with wf full have p: "wf_path p" and cs: "cs \<noteq> []" "spelled_chunks True cs" "list_all complete_chunk cs"
    by simp_all
  have run: "parse_chunks ln (concat (map render_chunk cs) @ rest) n [] =
      Inr (map denote_chunk cs, n + length (concat (map render_chunk cs)))" for n
    using parse_chunks_render [of "[]" cs rest ln n] cs rest by simp
  from parse_one_hunk_update [OF p cs(2) rest, of mv ln] UpdateSrc cs(1) run that show ?thesis
    by (cases mv) (auto simp: Let_def)
qed

lemma parse_one_hunk_refused:
  assumes wf: "spelled_hunk h" and "\<not> complete_hunk h" and rest: "stops_hunk rest"
  obtains l ls e where "render_hunk h = l # ls" and "parse_one_hunk l (ls @ rest) ln = Inl e"
proof (cases h)
  case (UpdateSrc p mv cs)
  with wf have p: "wf_path p" and cs: "spelled_chunks True cs" by simp_all
  have "(\<exists>e. parse_chunks ln (concat (map render_chunk cs) @ rest) n [] = Inl e) \<or>
      parse_chunks ln (concat (map render_chunk cs) @ rest) n [] = Inr ([], n)" for n
    using parse_chunks_refused [of "[]" cs rest ln n] cs rest assms(2) UpdateSrc
    by (cases cs) (simp_all add: parse_chunks_stop_hunk)
  from parse_one_hunk_update [OF p cs rest, of mv ln] this [of "1 + (if mv = None then 0 else 1)"]
    UpdateSrc that show ?thesis by (auto simp: Let_def)
qed (use assms(2) in simp_all)

lemma render_hunk_stops:
  assumes "render_hunk h = l # ls"
  shows "stops_hunk (l # xs)"
  using assms by (cases h) (auto simp: stops_hunk_def marker_defs split: option.splits)

lemma concat_render_stops: "stops_hunk (concat (map render_hunk hs))"
proof (cases hs)
  case (Cons h hs')
  obtain l ls where "render_hunk h = l # ls" by (cases h) auto
  with Cons render_hunk_stops show ?thesis by fastforce
qed (simp add: stops_hunk_def)

lemma parse_hunks_render:
  assumes "list_all spelled_hunk hs" and "list_all complete_hunk hs"
  shows "parse_hunks (concat (map render_hunk hs)) ln acc = Inr (acc @ map denote_hunk hs)"
  using assms
proof (induction hs arbitrary: ln acc)
  case Nil
  then show ?case by (simp add: parse_hunks.simps)
next
  case (Cons h hs)
  let ?rest = "concat (map render_hunk hs)"
  from Cons.prems have "spelled_hunk h" "complete_hunk h" by simp_all
  from parse_one_hunk_render [OF this concat_render_stops] obtain l ls where
    l: "render_hunk h = l # ls"
    "parse_one_hunk l (ls @ ?rest) ln = Inr (denote_hunk h, length (render_hunk h))" .
  then have "parse_hunks (render_hunk h @ ?rest) ln acc =
      parse_hunks ?rest (ln + length (render_hunk h)) (acc @ [denote_hunk h])"
    by (simp add: parse_hunks.simps [of "l # ls @ ?rest"])
  with Cons show ?case by simp
qed

lemma parse_hunks_refused:
  assumes "list_all spelled_hunk hs" and "\<not> list_all complete_hunk hs"
  shows "\<exists>e. parse_hunks (concat (map render_hunk hs)) ln acc = Inl e"
  using assms
proof (induction hs arbitrary: ln acc)
  case (Cons h hs)
  let ?rest = "concat (map render_hunk hs)"
  from Cons.prems have wf: "spelled_hunk h" by simp
  show ?case
  proof (cases "complete_hunk h")
    case True
    from parse_one_hunk_render [OF wf True concat_render_stops] obtain l ls where
      "render_hunk h = l # ls"
      "parse_one_hunk l (ls @ ?rest) ln = Inr (denote_hunk h, length (render_hunk h))" .
    with Cons True show ?thesis by (simp add: parse_hunks.simps [of "l # ls @ ?rest"])
  next
    case False
    from parse_one_hunk_refused [OF wf False concat_render_stops] obtain l ls e where
      "render_hunk h = l # ls" "parse_one_hunk l (ls @ ?rest) ln = Inl e" .
    then show ?thesis by (simp add: parse_hunks.simps [of "l # ls @ ?rest"])
  qed
qed simp

lemma clean_line_append: "clean_line p \<Longrightarrow> p \<noteq> [] \<Longrightarrow> nl \<notin> set m \<Longrightarrow> clean_line (m @ p)"
  by (simp add: clean_line_def)

lemma nl_markers:
  "nl \<notin> set ADD_FILE_MARKER" "nl \<notin> set DELETE_FILE_MARKER" "nl \<notin> set UPDATE_FILE_MARKER"
  by (simp_all add: marker_defs nl_def)

lemma render_hunk_clean: "spelled_hunk h \<Longrightarrow> list_all clean_line (render_hunk h)"
proof (induction h)
  case (UpdateSrc p mv cs)
  have "spelled_chunks b cs \<Longrightarrow> list_all (list_all clean_line) (map render_chunk cs)" for b
    by (induction b cs rule: spelled_chunks.induct) (auto simp: spelled_chunk_def)
  with UpdateSrc show ?case
    by (auto simp: wf_path_def clean_line_append nl_markers list_all_iff split: option.splits)
qed (auto simp: wf_path_def clean_line_append nl_markers)

lemma render_patch_clean:
  assumes "list_all spelled_hunk hs"
  shows "\<forall>l \<in> set (render_patch hs). clean_line l"
  using assms render_hunk_clean
  by (auto simp: render_patch_def list_all_iff clean_line_def marker_defs nl_def)

lemma marker_cons: "BEGIN_PATCH_MARKER = CHR ''*'' # ''** Begin Patch''"
    "END_PATCH_MARKER = ''*** End Patc'' @ [CHR ''h'']"
  by (simp_all add: marker_defs)

lemma patch_text_trim: "str_trim (patch_text hs) = patch_text hs"
proof -
  let ?xs = "BEGIN_PATCH_MARKER # concat (map render_hunk hs)"
  obtain t where "join_str [nl] ?xs = CHR ''*'' # t"
    by (cases "concat (map render_hunk hs)") (simp_all add: marker_cons)
  moreover have "patch_text hs = join_str [nl] ?xs @ [nl] @ END_PATCH_MARKER"
    using join_str_snoc [of ?xs "[nl]" END_PATCH_MARKER] by (simp add: patch_text_def render_patch_def)
  ultimately have "patch_text hs = CHR ''*'' # (t @ [nl] @ ''*** End Patc'') @ [CHR ''h'']"
    by (simp add: marker_cons)
  then show ?thesis
    by (simp only:) (rule str_trim_visible_ends, simp_all add: ws_bytes_code)
qed

lemma str_trim_patch_markers:
  "str_trim BEGIN_PATCH_MARKER = BEGIN_PATCH_MARKER" "str_trim END_PATCH_MARKER = END_PATCH_MARKER"
  using str_trim_visible_ends [of "CHR ''*''" "CHR ''h''" "''** Begin Patc''"]
    str_trim_visible_ends [of "CHR ''*''" "CHR ''h''" "''** End Patc''"]
  by (simp_all add: marker_defs ws_bytes_code)

lemma render_patch_boundaries: "check_patch_boundaries_strict (render_patch hs) = Inr ()"
  by (simp add: check_patch_boundaries_strict_def check_start_and_end_lines_strict_def
      render_patch_def str_trim_patch_markers)

lemma render_patch_body:
  "take (length (render_patch hs) - 1 - 1) (drop 1 (render_patch hs)) = concat (map render_hunk hs)"
  by (simp add: render_patch_def)

lemma parse_patch_of_text:
  assumes "list_all spelled_hunk hs"
  shows "parse_patch (patch_text hs) =
    (case parse_hunks (concat (map render_hunk hs)) 2 [] of
       Inl e \<Rightarrow> Inl e
     | Inr parsed \<Rightarrow> Inr \<lparr>patch = patch_text hs, hunks = parsed, workdir = None\<rparr>)"
proof -
  have "str_lines (patch_text hs) = render_patch hs"
    unfolding patch_text_def
    by (rule str_lines_join [OF render_patch_clean [OF assms]])
       (simp_all add: render_patch_def marker_defs)
  then show ?thesis
    unfolding parse_patch_def parse_patch_text_def patch_text_trim Let_def
    by (simp only: render_patch_boundaries sum.case render_patch_body patch_text_def)
qed

lemma parse_patch_text_of:
  assumes "list_all spelled_hunk hs" and "list_all complete_hunk hs"
  shows "parse_patch (patch_text hs) =
    Inr \<lparr>patch = patch_text hs, hunks = map denote_hunk hs, workdir = None\<rparr>"
  using parse_patch_of_text [OF assms(1)] parse_hunks_render [OF assms] by simp

text \<open>C1: The parser takes exactly the complete patches, and as what they denote.  Any number of adds,
  deletions and updates, with moves, context lines and end-of-file marks, that the lines of a patch can
  spell: if every update has a chunk and every chunk has a line that is kept, added or removed, the
  result is the list of hunks that the patch denotes; if not, as with a move alone or with
  two context lines in a row, which the grammar of the comment allows, the whole patch is refused.\<close>

theorem parse_patch_render:
  assumes "list_all spelled_hunk hs"
  shows "if list_all complete_hunk hs
    then parse_patch (patch_text hs) =
      Inr \<lparr>patch = patch_text hs, hunks = map denote_hunk hs, workdir = None\<rparr>
    else \<exists>e. parse_patch (patch_text hs) = Inl e"
  using parse_patch_of_text [OF assms] parse_hunks_refused [OF assms, of 2 "[]"]
    parse_patch_text_of [OF assms] by auto

definition sample_patch :: "hunk_src list" where
  "sample_patch =
     [AddSrc ''a.txt'' [''hello'', []],
      DeleteSrc ''b.txt'',
      UpdateSrc ''c.txt'' (Some ''d.txt'')
        [\<lparr>head_of = NoHeader, body_of = [RemovedLine ''x'', AddedLine ''y''], at_eof = False\<rparr>,
         \<lparr>head_of = Header ''fn f'', body_of = [ContextLine ''k'', AddedLine ''z''], at_eof = True\<rparr>]]"

theorem parse_patch_render_witness:
  "(parse_patch (patch_text sample_patch) =
      Inr \<lparr>patch = patch_text sample_patch, hunks = map denote_hunk sample_patch, workdir = None\<rparr>) \<and>
   (\<exists>e. parse_patch (patch_text [UpdateSrc ''c'' (Some ''d'') []]) = Inl e)"
proof -
  have 1: "list_all spelled_hunk sample_patch" "list_all complete_hunk sample_patch" by code_simp+
  have 2: "list_all spelled_hunk [UpdateSrc ''c'' (Some ''d'') []]"
    "\<not> list_all complete_hunk [UpdateSrc ''c'' (Some ''d'') []]" by code_simp+
  from parse_patch_render [OF 1(1)] parse_patch_render [OF 2(1)] 1(2) 2(2)
  show ?thesis by (simp only: if_True if_False simp_thms)
qed

end
