(* ===== verification/Seek_Sequence.thy ===== *)
theory Seek_Sequence
  imports Rust_Base
begin

section \<open>Locating a block of lines\<close>

text \<open>
  A model of \<^verbatim>\<open>codex-rs/apply-patch/src/seek_sequence.rs\<close>: four passes over the same
  range of start positions, each comparing the candidate slice with the pattern under
  a weaker normalisation of the lines.  The theorems say what is returned (bounds, the
  relation between slice and pattern, precedence of the exact pass) and when nothing is.
\<close>

subsection \<open>The four comparisons\<close>

text \<open>The typographic code points that \<open>normalise\<close> maps to ASCII.\<close>

definition dash_chars :: "string list" where
  "dash_chars =
     map (\<lambda>b. [CHR 0xE2, CHR 0x80, b])
       [CHR 0x90, CHR 0x91, CHR 0x92, CHR 0x93, CHR 0x94, CHR 0x95] @
     [[CHR 0xE2, CHR 0x88, CHR 0x92]]"

definition single_quote_chars :: "string list" where
  "single_quote_chars =
     map (\<lambda>b. [CHR 0xE2, CHR 0x80, b]) [CHR 0x98, CHR 0x99, CHR 0x9A, CHR 0x9B]"

definition double_quote_chars :: "string list" where
  "double_quote_chars =
     map (\<lambda>b. [CHR 0xE2, CHR 0x80, b]) [CHR 0x9C, CHR 0x9D, CHR 0x9E, CHR 0x9F]"

definition odd_space_chars :: "string list" where
  "odd_space_chars =
     [CHR 0xC2, CHR 0xA0] #
     map (\<lambda>b. [CHR 0xE2, CHR 0x80, b])
       [CHR 0x82, CHR 0x83, CHR 0x84, CHR 0x85, CHR 0x86, CHR 0x87, CHR 0x88, CHR 0x89,
        CHR 0x8A, CHR 0xAF] @
     [[CHR 0xE2, CHR 0x81, CHR 0x9F], [CHR 0xE3, CHR 0x80, CHR 0x80]]"

definition normalise_char :: "string \<Rightarrow> string" where
  "normalise_char c =
     (if c \<in> set dash_chars then ''-''
      else if c \<in> set single_quote_chars then [CHR 0x27]
      else if c \<in> set double_quote_chars then [CHR 0x22]
      else if c \<in> set odd_space_chars then '' ''
      else c)"

definition normalise :: "string \<Rightarrow> string" where
  "normalise s = concat (map normalise_char (str_chars (str_trim s)))"

text \<open>One comparison: the slice at \<open>i\<close> and the pattern agree line by line under \<open>f\<close>.\<close>

definition seek_match :: "(string \<Rightarrow> string) \<Rightarrow> string list \<Rightarrow> string list \<Rightarrow> nat \<Rightarrow> bool" where
  "seek_match f lines pat i = (map f (take (length pat) (drop i lines)) = map f pat)"

definition seek_pass ::
  "(string \<Rightarrow> string) \<Rightarrow> string list \<Rightarrow> string list \<Rightarrow> nat \<Rightarrow> nat option"
where
  "seek_pass f lines pat search_start =
     List.find (seek_match f lines pat) [search_start..<Suc (length lines - length pat)]"

definition seek_sequence ::
  "string list \<Rightarrow> string list \<Rightarrow> nat \<Rightarrow> bool \<Rightarrow> nat option"
where
  "seek_sequence lines pat start eof =
     (if pat = [] then Some start
      else if length pat > length lines then None
      else
        (let search_start =
           (if eof \<and> length lines \<ge> length pat then length lines - length pat else start)
         in (case seek_pass (\<lambda>l. l) lines pat search_start of
               Some i \<Rightarrow> Some i
             | None \<Rightarrow>
             (case seek_pass trim_end lines pat search_start of
               Some i \<Rightarrow> Some i
             | None \<Rightarrow>
             (case seek_pass str_trim lines pat search_start of
               Some i \<Rightarrow> Some i
             | None \<Rightarrow> seek_pass normalise lines pat search_start)))))"

subsection \<open>Each comparison implies the weaker ones\<close>

lemma seek_match_mono:
  assumes "seek_match f lines pat i" and "\<And>s t. f s = f t \<Longrightarrow> g s = g t"
  shows "seek_match g lines pat i"
proof -
  from assms(1) have "list_all2 (\<lambda>s t. f s = f t) (take (length pat) (drop i lines)) pat"
    by (simp add: seek_match_def list_all2_map1 list_all2_map2 list.rel_eq [symmetric])
  then have "list_all2 (\<lambda>s t. g s = g t) (take (length pat) (drop i lines)) pat"
    by (rule list_all2_mono) (rule assms(2))
  then show ?thesis
    by (simp add: seek_match_def list_all2_map1 list_all2_map2 list.rel_eq [symmetric])
qed

lemma seek_match_trim: "seek_match trim_end lines pat i \<Longrightarrow> seek_match str_trim lines pat i"
  by (erule seek_match_mono) (simp add: str_trim_def)

lemma seek_match_normalise: "seek_match str_trim lines pat i \<Longrightarrow> seek_match normalise lines pat i"
  by (erule seek_match_mono) (simp add: normalise_def)

lemma seek_match_exact: "seek_match (\<lambda>l. l) lines pat i \<Longrightarrow> seek_match g lines pat i"
  by (erule seek_match_mono) simp

lemma seek_match_exact_iff: "seek_match (\<lambda>l. l) lines pat i \<longleftrightarrow> take (length pat) (drop i lines) = pat"
  by (simp add: seek_match_def)

subsection \<open>What a pass returns\<close>

lemma seek_pass_Some_iff:
  "seek_pass f lines pat k = Some i \<longleftrightarrow>
     k \<le> i \<and> i \<le> length lines - length pat \<and> seek_match f lines pat i \<and>
     (\<forall>j. k \<le> j \<and> j < i \<longrightarrow> \<not> seek_match f lines pat j)"
  unfolding seek_pass_def find_upt_Some_iff less_Suc_eq_le ..

lemma seek_pass_None_iff:
  "seek_pass f lines pat k = None \<longleftrightarrow>
     (\<forall>i. k \<le> i \<and> i \<le> length lines - length pat \<longrightarrow> \<not> seek_match f lines pat i)"
  unfolding seek_pass_def find_upt_None_iff less_Suc_eq_le ..

subsection \<open>What the search returns\<close>

definition seek_start :: "string list \<Rightarrow> string list \<Rightarrow> nat \<Rightarrow> bool \<Rightarrow> nat" where
  "seek_start lines pat start eof = (if eof then length lines - length pat else start)"

lemma seek_sequence_cases:
  assumes "seek_sequence lines pat start eof = Some i" and "pat \<noteq> []"
  obtains f where "f \<in> {\<lambda>l. l, trim_end, str_trim, normalise}" and "length pat \<le> length lines"
    and "seek_pass f lines pat (seek_start lines pat start eof) = Some i"
  using assms
  by (auto simp: seek_sequence_def seek_start_def Let_def split: if_splits option.splits)

lemma seek_sequence_bounds:
  assumes "seek_sequence lines pat start eof = Some i" and "pat \<noteq> []"
  shows "i + length pat \<le> length lines" and "seek_start lines pat start eof \<le> i"
    and "seek_match normalise lines pat i"
proof -
  from assms obtain f where f: "f \<in> {\<lambda>l. l, trim_end, str_trim, normalise}"
      and le: "length pat \<le> length lines"
      and pass: "seek_pass f lines pat (seek_start lines pat start eof) = Some i"
    by (rule seek_sequence_cases)
  from pass have "i \<le> length lines - length pat" by (simp add: seek_pass_Some_iff)
  with le show "i + length pat \<le> length lines" by linarith
  from pass show "seek_start lines pat start eof \<le> i" by (simp add: seek_pass_Some_iff)
  from pass have "seek_match f lines pat i" by (simp add: seek_pass_Some_iff)
  with f show "seek_match normalise lines pat i"
    by (auto intro: seek_match_exact seek_match_trim seek_match_normalise)
qed

text \<open>The block search is sound and complete for its most lenient comparison.  It
  returns nothing exactly when no admissible position matches after trimming and
  punctuation normalisation; the admissible positions are those from the start index
  on, or, for an end-of-file pattern, the last one only.\<close>

lemma seek_sequence_None_iff:
  assumes "pat \<noteq> []"
  shows "seek_sequence lines pat start eof = None \<longleftrightarrow>
    (\<forall>i. i + length pat \<le> length lines \<and> (if eof then i + length pat = length lines else start \<le> i)
      \<longrightarrow> \<not> seek_match normalise lines pat i)"
proof (cases "length pat \<le> length lines")
  case False
  with assms show ?thesis by (auto simp: seek_sequence_def)
next
  case True
  have "seek_sequence lines pat start eof = None \<longleftrightarrow>
      seek_pass normalise lines pat (seek_start lines pat start eof) = None"
  proof
    assume "seek_sequence lines pat start eof = None"
    with assms True show "seek_pass normalise lines pat (seek_start lines pat start eof) = None"
      by (auto simp: seek_sequence_def seek_start_def Let_def split: if_splits option.splits)
  next
    assume none: "seek_pass normalise lines pat (seek_start lines pat start eof) = None"
    show "seek_sequence lines pat start eof = None"
    proof (rule ccontr)
      assume "seek_sequence lines pat start eof \<noteq> None"
      then obtain i where "seek_sequence lines pat start eof = Some i" by auto
      from seek_sequence_bounds [OF this assms] none show False
        by (simp add: seek_pass_None_iff)
    qed
  qed
  also have "\<dots> \<longleftrightarrow> (\<forall>i. i + length pat \<le> length lines \<and>
      (if eof then i + length pat = length lines else start \<le> i)
      \<longrightarrow> \<not> seek_match normalise lines pat i)"
  proof (cases eof)
    case eof: True
    have "i + length pat \<le> length lines \<and> i + length pat = length lines \<longleftrightarrow>
        length lines - length pat \<le> i \<and> i \<le> length lines - length pat" for i
      using True by linarith
    with eof show ?thesis by (simp only: seek_pass_None_iff seek_start_def if_True)
  next
    case False
    have "i + length pat \<le> length lines \<longleftrightarrow> i \<le> length lines - length pat" for i
      using True by linarith
    with False show ?thesis by (simp add: seek_pass_None_iff seek_start_def conj_commute)
  qed
  finally show ?thesis .
qed

text \<open>An exact occurrence wins.  When the pattern occurs verbatim at or after the
  start index, the first verbatim occurrence is returned, whatever the lenient passes
  would find before it.\<close>

lemma seek_sequence_exact_first:
  assumes "pat \<noteq> []" and "take (length pat) (drop i lines) = pat" and "start \<le> i"
    and "i + length pat \<le> length lines"
    and "\<forall>j. start \<le> j \<and> j < i \<longrightarrow> take (length pat) (drop j lines) \<noteq> pat"
  shows "seek_sequence lines pat start False = Some i"
proof -
  have "seek_pass (\<lambda>l. l) lines pat start = Some i"
    using assms by (auto simp: seek_pass_Some_iff seek_match_exact_iff)
  with assms show ?thesis by (simp add: seek_sequence_def)
qed

text \<open>With the end-of-file flag the only position ever tried is the end of the file:
  a match elsewhere is not found, even though the source comment announces a fall-back
  to a search from \<open>start\<close>.\<close>

lemma seek_sequence_eof_only_end:
  assumes "seek_sequence lines pat start True = Some i" and "pat \<noteq> []"
  shows "i + length pat = length lines"
  using seek_sequence_bounds [OF assms] by (simp add: seek_start_def)

end
