(* ===== verification/Patch_Apply.thy ===== *)
theory Patch_Apply
  imports Patch_Parser Seek_Sequence
begin

section \<open>Applying parsed hunks\<close>

text \<open>
  A model of \<^verbatim>\<open>codex-rs/apply-patch/src/lib.rs\<close>: where the chunks of an update hunk
  go in a file, the splice itself, and the loop that applies hunks to the file system.

  The file system is a map from path keys to contents, with a predicate for the
  operations the system refuses (permissions, directories in the way, contents that are
  not UTF-8); a refused operation changes nothing.  A path key is the sequence of
  components of a path, which is what \<open>PathBuf\<close> equality compares.
\<close>

subsection \<open>Errors\<close>

datatype apply_patch_error =
    ParseError parse_error
  | IoError (io_context: string) (io_source: string)
  | ComputeReplacements string
  | ImplicitInvocation

type_synonym replacement = "nat \<times> nat \<times> string list"

subsection \<open>Placing the chunks\<close>

definition last_is_empty :: "string list \<Rightarrow> bool" where
  "last_is_empty ls = (ls \<noteq> [] \<and> last ls = [])"

definition msg_no_context :: "string \<Rightarrow> string \<Rightarrow> string" where
  "msg_no_context ctx p =
     ''Failed to find context '' @ [CHR 0x27] @ ctx @ [CHR 0x27] @ '' in '' @ p"

definition msg_no_lines_in :: "string \<Rightarrow> string list \<Rightarrow> string" where
  "msg_no_lines_in p ls = ''Failed to find expected lines in '' @ p @ '':'' @ [nl] @ join_str [nl] ls"

text \<open>The optional context line moves the search position past it.\<close>

definition seek_context ::
  "string list \<Rightarrow> string \<Rightarrow> update_file_chunk \<Rightarrow> nat \<Rightarrow> (apply_patch_error, nat) result"
where
  "seek_context original_lines p chunk line_index =
     (case change_context chunk of
        None \<Rightarrow> Inr line_index
      | Some ctx_line \<Rightarrow>
          (case seek_sequence original_lines [ctx_line] line_index False of
             Some idx \<Rightarrow> Inr (idx + 1)
           | None \<Rightarrow> Inl (ComputeReplacements (msg_no_context ctx_line p))))"

text \<open>Locating \<open>old_lines\<close>, with the retry that drops a trailing empty line: the
  position, the pattern that was found and the lines to insert.\<close>

definition seek_old_lines ::
  "string list \<Rightarrow> update_file_chunk \<Rightarrow> nat \<Rightarrow> (nat \<times> string list \<times> string list) option"
where
  "seek_old_lines original_lines chunk line_index =
     (case seek_sequence original_lines (old_lines chunk) line_index (is_end_of_file chunk) of
        Some i \<Rightarrow> Some (i, old_lines chunk, new_lines chunk)
      | None \<Rightarrow>
          if last_is_empty (old_lines chunk) then
            (let pat = butlast (old_lines chunk);
                 new_slice = (if last_is_empty (new_lines chunk) then butlast (new_lines chunk)
                              else new_lines chunk)
             in (case seek_sequence original_lines pat line_index (is_end_of_file chunk) of
                   Some i \<Rightarrow> Some (i, pat, new_slice)
                 | None \<Rightarrow> None))
          else None)"

fun compute_loop ::
  "string list \<Rightarrow> string \<Rightarrow> update_file_chunk list \<Rightarrow> nat \<Rightarrow> (apply_patch_error, replacement list) result"
where
  "compute_loop original_lines p [] line_index = Inr []"
| "compute_loop original_lines p (chunk # chunks) line_index =
     (case seek_context original_lines p chunk line_index of
        Inl e \<Rightarrow> Inl e
      | Inr line_index1 \<Rightarrow>
          (if old_lines chunk = [] then
             (let insertion_idx =
                (if last_is_empty original_lines then length original_lines - 1
                 else length original_lines)
              in (case compute_loop original_lines p chunks line_index1 of
                    Inl e \<Rightarrow> Inl e
                  | Inr rs \<Rightarrow> Inr ((insertion_idx, 0, new_lines chunk) # rs)))
           else
             (case seek_old_lines original_lines chunk line_index1 of
                None \<Rightarrow> Inl (ComputeReplacements (msg_no_lines_in p (old_lines chunk)))
              | Some (start_idx, pat, new_slice) \<Rightarrow>
                  (case compute_loop original_lines p chunks (start_idx + length pat) of
                     Inl e \<Rightarrow> Inl e
                   | Inr rs \<Rightarrow> Inr ((start_idx, length pat, new_slice) # rs)))))"

definition compute_replacements ::
  "string list \<Rightarrow> string \<Rightarrow> update_file_chunk list \<Rightarrow> (apply_patch_error, replacement list) result"
where
  "compute_replacements original_lines p chunks =
     (case compute_loop original_lines p chunks 0 of
        Inl e \<Rightarrow> Inl e
      | Inr rs \<Rightarrow> Inr (sort_key fst rs))"

subsection \<open>The splice\<close>

text \<open>\<open>Vec::remove\<close> in the guarded loop, and \<open>Vec::insert\<close>, which panics (\<open>None\<close>) past the
  end of the vector.\<close>

fun remove_lines :: "nat \<Rightarrow> nat \<Rightarrow> string list \<Rightarrow> string list" where
  "remove_lines start_idx 0 lines = lines"
| "remove_lines start_idx (Suc n) lines =
     remove_lines start_idx n
       (if start_idx < length lines then take start_idx lines @ drop (Suc start_idx) lines else lines)"

definition vec_insert :: "nat \<Rightarrow> 'a \<Rightarrow> 'a list \<Rightarrow> 'a list option" where
  "vec_insert i x xs = (if i \<le> length xs then Some (take i xs @ x # drop i xs) else None)"

fun insert_lines :: "nat \<Rightarrow> string list \<Rightarrow> string list \<Rightarrow> string list option" where
  "insert_lines pos [] lines = Some lines"
| "insert_lines pos (l # ls) lines =
     (case vec_insert pos l lines of None \<Rightarrow> None | Some lines' \<Rightarrow> insert_lines (Suc pos) ls lines')"

definition apply_replacement :: "replacement \<Rightarrow> string list \<Rightarrow> string list option" where
  "apply_replacement r lines =
     (case r of (start_idx, old_len, new_segment) \<Rightarrow>
        insert_lines start_idx new_segment (remove_lines start_idx old_len lines))"

fun apply_descending :: "replacement list \<Rightarrow> string list \<Rightarrow> string list option" where
  "apply_descending [] lines = Some lines"
| "apply_descending (r # rs) lines =
     (case apply_replacement r lines of None \<Rightarrow> None | Some lines' \<Rightarrow> apply_descending rs lines')"

definition apply_replacements :: "string list \<Rightarrow> replacement list \<Rightarrow> string list option" where
  "apply_replacements lines replacements = apply_descending (rev replacements) lines"

subsection \<open>New contents of a file\<close>

record applied_patch =
  original_contents :: string
  new_contents :: string

definition original_lines_of :: "string \<Rightarrow> string list" where
  "original_lines_of c =
     (let ls = split_char nl c in if last_is_empty ls then butlast ls else ls)"

definition join_new_lines :: "string list \<Rightarrow> string" where
  "join_new_lines ls = join_str [nl] (if last_is_empty ls then ls else ls @ [[]])"

text \<open>The panic of the splice (\<open>None\<close>) is kept apart from the error values; the theorems
  below show it does not happen.\<close>

definition new_contents_of ::
  "string \<Rightarrow> string \<Rightarrow> update_file_chunk list \<Rightarrow> (apply_patch_error, applied_patch) result option"
where
  "new_contents_of c p chunks =
     (case compute_replacements (original_lines_of c) p chunks of
        Inl e \<Rightarrow> Some (Inl e)
      | Inr rs \<Rightarrow>
          (case apply_replacements (original_lines_of c) rs of
             None \<Rightarrow> None
           | Some ls \<Rightarrow>
               Some (Inr \<lparr>original_contents = c, new_contents = join_new_lines ls\<rparr>)))"

subsection \<open>The splice is a simultaneous replacement\<close>

lemma remove_lines_eq: "i \<le> length xs \<Longrightarrow> remove_lines i n xs = take i xs @ drop (i + n) xs"
proof (induction i n xs rule: remove_lines.induct)
  case (2 i n xs)
  then show ?case by (cases "i < length xs") (simp_all add: min_def add.commute)
qed simp

lemma insert_lines_eq: "i \<le> length xs \<Longrightarrow> insert_lines i ls xs = Some (take i xs @ ls @ drop i xs)"
proof (induction i ls xs rule: insert_lines.induct)
  case (2 i l ls xs)
  then have "insert_lines (Suc i) ls (take i xs @ l # drop i xs) =
      Some (take (Suc i) (take i xs @ l # drop i xs) @ ls @ drop (Suc i) (take i xs @ l # drop i xs))"
    by (intro "2.IH") (simp_all add: vec_insert_def min_def)
  with "2.prems" show ?case by (simp add: vec_insert_def min_def)
qed simp

lemma apply_replacement_eq:
  "i \<le> length xs \<Longrightarrow> apply_replacement (i, n, seg) xs = Some (take i xs @ seg @ drop (i + n) xs)"
  by (simp add: apply_replacement_def remove_lines_eq insert_lines_eq min_def)

text \<open>Replacements in ascending order, each inside the file and after the one before; and
  the file they describe, read left to right from position \<open>pos\<close>.\<close>

fun disjoint_from :: "nat \<Rightarrow> nat \<Rightarrow> replacement list \<Rightarrow> bool" where
  "disjoint_from pos len [] = (pos \<le> len)"
| "disjoint_from pos len ((i, n, seg) # rs) = (pos \<le> i \<and> disjoint_from (i + n) len rs)"

fun splice_from :: "nat \<Rightarrow> string list \<Rightarrow> replacement list \<Rightarrow> string list" where
  "splice_from pos lines [] = drop pos lines"
| "splice_from pos lines ((i, n, seg) # rs) =
     take (i - pos) (drop pos lines) @ seg @ splice_from (i + n) lines rs"

lemma disjoint_from_le: "disjoint_from pos len rs \<Longrightarrow> pos \<le> len"
  by (induction pos len rs rule: disjoint_from.induct) auto

lemma apply_descending_append:
  "apply_descending (rs @ rs') lines =
     (case apply_descending rs lines of None \<Rightarrow> None | Some l \<Rightarrow> apply_descending rs' l)"
  by (induction rs arbitrary: lines) (auto split: option.splits)

lemma apply_replacements_splice:
  assumes "disjoint_from pos (length lines) rs"
  shows "apply_replacements lines rs = Some (take pos lines @ splice_from pos lines rs)"
  using assms
proof (induction pos lines rs rule: splice_from.induct)
  case (1 pos lines)
  then show ?case by (simp add: apply_replacements_def)
next
  case (2 pos lines i n seg rs)
  then have d: "pos \<le> i" "disjoint_from (i + n) (length lines) rs" by simp_all
  from disjoint_from_le [OF d(2)] have len: "i + n \<le> length lines" .
  let ?tail = "splice_from (i + n) lines rs"
  from "2.IH" [OF d(2)]
  have "apply_replacements lines ((i, n, seg) # rs) =
      apply_replacement (i, n, seg) (take (i + n) lines @ ?tail)"
    by (simp add: apply_replacements_def apply_descending_append split: option.splits)
  also have "\<dots> = Some (take i lines @ seg @ ?tail)"
    using len by (simp add: apply_replacement_eq min_def)
  also have "take i lines = take pos lines @ take (i - pos) (drop pos lines)"
    using d(1) by (metis le_add_diff_inverse take_add)
  finally show ?case by simp
qed

text \<open>Even overlapping replacements never make \<open>Vec::insert\<close> panic: applied from the
  highest start down, a replacement keeps every line before its own start.\<close>

lemma apply_descending_total:
  assumes "sorted_wrt (\<lambda>a b. fst b \<le> fst a) rs" and "\<forall>r \<in> set rs. fst r \<le> length lines"
  shows "\<exists>ls. apply_descending rs lines = Some ls"
  using assms
proof (induction rs arbitrary: lines)
  case (Cons r rs)
  obtain i n seg where r: "r = (i, n, seg)" by (cases r)
  with Cons.prems have i: "i \<le> length lines" and below: "\<forall>q \<in> set rs. fst q \<le> i"
    by auto
  have "\<forall>q \<in> set rs. fst q \<le> length (take i lines @ seg @ drop (i + n) lines)"
    using below i by fastforce
  with Cons obtain ls where "apply_descending rs (take i lines @ seg @ drop (i + n) lines) = Some ls"
    by fastforce
  with r i show ?case by (simp add: apply_replacement_eq)
qed simp

subsection \<open>The computed replacements\<close>

lemma seek_context_mono:
  "seek_context lines p chunk k = Inr k' \<Longrightarrow> k \<le> length lines \<Longrightarrow> k \<le> k' \<and> k' \<le> length lines"
  using seek_sequence_bounds [of lines "[the (change_context chunk)]" k False]
  by (auto simp: seek_context_def seek_start_def split: option.splits)

lemma seek_sequence_in_range:
  "seek_sequence lines pat k e = Some i \<Longrightarrow> k \<le> length lines \<Longrightarrow> i + length pat \<le> length lines"
  using seek_sequence_bounds(1) [of lines pat k e i] by (cases "pat = []") (auto simp: seek_sequence_def)

lemma seek_sequence_after:
  "seek_sequence lines pat k False = Some i \<Longrightarrow> k \<le> i"
  using seek_sequence_bounds(2) [of lines pat k False i]
  by (cases "pat = []") (auto simp: seek_sequence_def seek_start_def)

lemma seek_old_lines_in_range:
  "seek_old_lines lines chunk k = Some (i, pat, seg) \<Longrightarrow> k \<le> length lines \<Longrightarrow>
   i + length pat \<le> length lines"
  by (auto simp: seek_old_lines_def Let_def split: option.splits if_splits
      dest: seek_sequence_in_range)

lemma seek_old_lines_after:
  "seek_old_lines lines chunk k = Some (i, pat, seg) \<Longrightarrow> \<not> is_end_of_file chunk \<Longrightarrow> k \<le> i"
  by (auto simp: seek_old_lines_def Let_def split: option.splits if_splits
      dest: seek_sequence_after)

lemma compute_loop_in_range:
  "compute_loop lines p chunks k = Inr rs \<Longrightarrow> k \<le> length lines \<Longrightarrow>
   \<forall>(i, n, seg) \<in> set rs. i + n \<le> length lines"
proof (induction lines p chunks k arbitrary: rs rule: compute_loop.induct)
  case (2 lines p chunk chunks k)
  then show ?case
    by (fastforce split: sum.splits if_splits option.splits
        dest: seek_context_mono seek_old_lines_in_range simp: Let_def)
qed simp

text \<open>Without end-of-file chunks and pure additions the computed replacements are already
  in file order and do not overlap.\<close>

lemma compute_loop_disjoint:
  assumes "compute_loop lines p chunks k = Inr rs" and "k \<le> length lines"
    and "\<forall>c \<in> set chunks. old_lines c \<noteq> [] \<and> \<not> is_end_of_file c"
  shows "disjoint_from k (length lines) rs"
  using assms
proof (induction lines p chunks k arbitrary: rs rule: compute_loop.induct)
  case (2 lines p chunk chunks k)
  from "2.prems" obtain k1 i pat seg rs' where
    ctx: "seek_context lines p chunk k = Inr k1" and
    old: "seek_old_lines lines chunk k1 = Some (i, pat, seg)" and
    rec: "compute_loop lines p chunks (i + length pat) = Inr rs'" and
    rs: "rs = (i, length pat, seg) # rs'"
    by (auto split: sum.splits option.splits)
  from seek_context_mono [OF ctx] "2.prems" have k1: "k \<le> k1" "k1 \<le> length lines" by simp_all
  from seek_old_lines_after [OF old] seek_old_lines_in_range [OF old k1(2)] "2.prems" k1
  have "k \<le> i" and "i + length pat \<le> length lines" by auto
  with "2.IH"(2) [OF ctx _ old _ _ rec] "2.prems" rs show ?case by simp
qed simp

lemma disjoint_from_sorted:
  "disjoint_from pos len rs \<Longrightarrow> sorted (map fst rs) \<and> (\<forall>r \<in> set rs. pos \<le> fst r)"
proof (induction pos len rs rule: disjoint_from.induct)
  case (2 pos len i n seg rs)
  then have "sorted (map fst rs) \<and> (\<forall>r \<in> set rs. i + n \<le> fst r)" and "pos \<le> i" by auto
  then show ?case by fastforce
qed simp

lemma sort_key_id: "sorted (map f xs) \<Longrightarrow> sort_key f xs = xs"
  by (induction xs) (auto simp: insort_is_Cons)

subsection \<open>The file system and the hunk loop\<close>

type_synonym path_key = "bool \<times> string list"

text \<open>The components of a path: whether it is absolute, and its names without empty and
  \<open>.\<close> components.  They are what the source's paths are compared and hashed by: \<open>..\<close> is a
  name like another one.  The files of the model are a map from them, which knows neither \<open>..\<close> nor
  symbolic links: \<open>a/../b\<close> and \<open>b\<close> are two files here, where the system's file system has one.
  So a theorem that speaks of different files is about different components.\<close>

definition path_key :: "string \<Rightarrow> path_key" where
  "path_key p = (prefix ''/'' p, filter (\<lambda>c. c \<noteq> [] \<and> c \<noteq> ''.'') (split_char (CHR ''/'') p))"

definition parent_key :: "path_key \<Rightarrow> path_key option" where
  "parent_key k = (if snd k = [] then None else Some (fst k, butlast (snd k)))"

type_synonym files = "path_key \<rightharpoonup> string"

datatype io_op = ReadOp | WriteOp | RemoveOp | MkdirOp

text \<open>The operating system's refusals: \<open>os op k\<close> is the error text when it refuses
  operation \<open>op\<close> on \<open>k\<close>.\<close>

type_synonym os_refusal = "io_op \<Rightarrow> path_key \<Rightarrow> string option"

definition msg_not_found :: string where
  "msg_not_found = ''No such file or directory (os error 2)''"

definition read_to_string :: "os_refusal \<Rightarrow> files \<Rightarrow> path_key \<Rightarrow> (string, string) result" where
  "read_to_string os fs k =
     (case os ReadOp k of Some m \<Rightarrow> Inl m
      | None \<Rightarrow> (case fs k of None \<Rightarrow> Inl msg_not_found | Some c \<Rightarrow> Inr c))"

definition fs_write :: "os_refusal \<Rightarrow> files \<Rightarrow> path_key \<Rightarrow> string \<Rightarrow> (string, files) result" where
  "fs_write os fs k c =
     (case os WriteOp k of Some m \<Rightarrow> Inl m | None \<Rightarrow> Inr (fs(k \<mapsto> c)))"

definition remove_file :: "os_refusal \<Rightarrow> files \<Rightarrow> path_key \<Rightarrow> (string, files) result" where
  "remove_file os fs k =
     (case os RemoveOp k of Some m \<Rightarrow> Inl m
      | None \<Rightarrow> (case fs k of None \<Rightarrow> Inl msg_not_found | Some _ \<Rightarrow> Inr (fs(k := None))))"

text \<open>\<open>create_dir_all\<close> on the parent, where there is a non-empty one; directories are not
  part of the file map.\<close>

definition create_parent_dirs :: "os_refusal \<Rightarrow> path_key \<Rightarrow> (string, unit) result" where
  "create_parent_dirs os k =
     (case parent_key k of
        None \<Rightarrow> Inr ()
      | Some d \<Rightarrow> if d = (False, []) then Inr ()
                  else (case os MkdirOp d of Some m \<Rightarrow> Inl m | None \<Rightarrow> Inr ()))"

definition derive_new_contents_from_chunks ::
  "os_refusal \<Rightarrow> files \<Rightarrow> string \<Rightarrow> update_file_chunk list \<Rightarrow>
   (apply_patch_error, applied_patch) result option"
where
  "derive_new_contents_from_chunks os fs p chunks =
     (case read_to_string os fs (path_key p) of
        Inl err \<Rightarrow> Some (Inl (IoError (''Failed to read file to update '' @ p) err))
      | Inr c \<Rightarrow> new_contents_of c p chunks)"

text \<open>The \<open>anyhow\<close> error of the loop: an I/O error with its context, a \<open>bail!\<close>, an
  \<open>ApplyPatchError\<close> passed on by \<open>?\<close>, or a panic of the splice.\<close>

datatype hunk_error =
    WithContext string string
  | Bail string
  | Derive apply_patch_error
  | Panicked

record affected_paths =
  added :: "string list"
  modified :: "string list"
  deleted :: "string list"

text \<open>One iteration; the file system is returned on errors too, since what was written
  before the error stays written.\<close>

fun apply_hunk ::
  "os_refusal \<Rightarrow> hunk \<Rightarrow> files \<Rightarrow> affected_paths \<Rightarrow> files \<times> (hunk_error, affected_paths) result"
where
  "apply_hunk os (AddFile p c) fs aff =
     (case create_parent_dirs os (path_key p) of
        Inl e \<Rightarrow> (fs, Inl (WithContext (''Failed to create parent directories for '' @ p) e))
      | Inr _ \<Rightarrow>
          (case fs_write os fs (path_key p) c of
             Inl e \<Rightarrow> (fs, Inl (WithContext (''Failed to write file '' @ p) e))
           | Inr fs' \<Rightarrow> (fs', Inr (aff\<lparr>added := added aff @ [p]\<rparr>))))"
| "apply_hunk os (DeleteFile p) fs aff =
     (case remove_file os fs (path_key p) of
        Inl e \<Rightarrow> (fs, Inl (WithContext (''Failed to delete file '' @ p) e))
      | Inr fs' \<Rightarrow> (fs', Inr (aff\<lparr>deleted := deleted aff @ [p]\<rparr>)))"
| "apply_hunk os (UpdateFile p move_path chunks') fs aff =
     (case derive_new_contents_from_chunks os fs p chunks' of
        None \<Rightarrow> (fs, Inl Panicked)
      | Some (Inl e) \<Rightarrow> (fs, Inl (Derive e))
      | Some (Inr ap) \<Rightarrow>
          (case move_path of
             Some dest \<Rightarrow>
               (case create_parent_dirs os (path_key dest) of
                  Inl e \<Rightarrow> (fs, Inl (WithContext (''Failed to create parent directories for '' @ dest) e))
                | Inr _ \<Rightarrow>
                    (case fs_write os fs (path_key dest) (new_contents ap) of
                       Inl e \<Rightarrow> (fs, Inl (WithContext (''Failed to write file '' @ dest) e))
                     | Inr fs1 \<Rightarrow>
                         (case remove_file os fs1 (path_key p) of
                            Inl e \<Rightarrow> (fs1, Inl (WithContext (''Failed to remove original '' @ p) e))
                          | Inr fs2 \<Rightarrow> (fs2, Inr (aff\<lparr>modified := modified aff @ [dest]\<rparr>)))))
           | None \<Rightarrow>
               (case fs_write os fs (path_key p) (new_contents ap) of
                  Inl e \<Rightarrow> (fs, Inl (WithContext (''Failed to write file '' @ p) e))
                | Inr fs' \<Rightarrow> (fs', Inr (aff\<lparr>modified := modified aff @ [p]\<rparr>)))))"

fun apply_hunk_loop ::
  "os_refusal \<Rightarrow> hunk list \<Rightarrow> files \<Rightarrow> affected_paths \<Rightarrow>
   files \<times> (hunk_error, affected_paths) result"
where
  "apply_hunk_loop os [] fs aff = (fs, Inr aff)"
| "apply_hunk_loop os (h # hs) fs aff =
     (case apply_hunk os h fs aff of
        (fs', Inl e) \<Rightarrow> (fs', Inl e)
      | (fs', Inr aff') \<Rightarrow> apply_hunk_loop os hs fs' aff')"

definition no_affected :: affected_paths where
  "no_affected = \<lparr>added = [], modified = [], deleted = []\<rparr>"

definition apply_hunks_to_files ::
  "os_refusal \<Rightarrow> hunk list \<Rightarrow> files \<Rightarrow> files \<times> (hunk_error, affected_paths) result"
where
  "apply_hunks_to_files os hs fs =
     (if hs = [] then (fs, Inl (Bail ''No files were modified.''))
      else apply_hunk_loop os hs fs no_affected)"

subsection \<open>The tool's entry points\<close>

definition writeln :: "string \<Rightarrow> string" where
  "writeln s = s @ [nl]"

definition print_summary :: "affected_paths \<Rightarrow> string" where
  "print_summary aff =
     writeln ''Success. Updated the following files:'' @
     concat (map (\<lambda>p. writeln (''A '' @ p)) (added aff)) @
     concat (map (\<lambda>p. writeln (''M '' @ p)) (modified aff)) @
     concat (map (\<lambda>p. writeln (''D '' @ p)) (deleted aff))"


text \<open>The \<open>Display\<close> impls derived by \<open>thiserror\<close>.\<close>

fun show_parse_error :: "parse_error \<Rightarrow> string" where
  "show_parse_error (InvalidPatchError m) = ''invalid patch: '' @ m"
| "show_parse_error (InvalidHunkError m ln) =
     ''invalid hunk at line '' @ nat_digits ln @ '', '' @ m"

fun show_apply_patch_error :: "apply_patch_error \<Rightarrow> string" where
  "show_apply_patch_error (ParseError e) = show_parse_error e"
| "show_apply_patch_error (IoError c s) = c @ '': '' @ s"
| "show_apply_patch_error (ComputeReplacements m) = m"
| "show_apply_patch_error ImplicitInvocation =
     ''patch detected without explicit call to apply_patch. Rerun as ['' @
     [CHR 0x22] @ ''apply_patch'' @ [CHR 0x22] @ '', '' @ [CHR 0x22] @ ''<patch>'' @ [CHR 0x22] @ '']''"

text \<open>The outcome of a run: what was written to standard output and error, and the
  result; \<open>None\<close> is the panic.\<close>

record run_output =
  stdout :: string
  stderr :: string
  outcome :: "(apply_patch_error, unit) result option"

fun report_hunk_error :: "hunk_error \<Rightarrow> run_output" where
  "report_hunk_error (WithContext c e) =
     \<lparr>stdout = [], stderr = writeln c, outcome = Some (Inl (IoError ''I/O error'' e))\<rparr>"
| "report_hunk_error (Bail m) =
     \<lparr>stdout = [], stderr = writeln m, outcome = Some (Inl (IoError m m))\<rparr>"
| "report_hunk_error (Derive e) =
     \<lparr>stdout = [], stderr = writeln (show_apply_patch_error e),
      outcome = Some (Inl (IoError (show_apply_patch_error e) (show_apply_patch_error e)))\<rparr>"
| "report_hunk_error Panicked = \<lparr>stdout = [], stderr = [], outcome = None\<rparr>"

definition apply_hunks :: "os_refusal \<Rightarrow> hunk list \<Rightarrow> files \<Rightarrow> files \<times> run_output" where
  "apply_hunks os hs fs =
     (case apply_hunks_to_files os hs fs of
        (fs', Inr aff) \<Rightarrow> (fs', \<lparr>stdout = print_summary aff, stderr = [], outcome = Some (Inr ())\<rparr>)
      | (fs', Inl e) \<Rightarrow> (fs', report_hunk_error e))"

fun report_parse_error :: "parse_error \<Rightarrow> string" where
  "report_parse_error (InvalidPatchError m) = writeln (''Invalid patch: '' @ m)"
| "report_parse_error (InvalidHunkError m ln) =
     writeln (''Invalid patch hunk on line '' @ nat_digits ln @ '': '' @ m)"

definition apply_patch :: "os_refusal \<Rightarrow> string \<Rightarrow> files \<Rightarrow> files \<times> run_output" where
  "apply_patch os text fs =
     (case parse_patch text of
        Inl e \<Rightarrow> (fs, \<lparr>stdout = [], stderr = report_parse_error e,
                      outcome = Some (Inl (ParseError e))\<rparr>)
      | Inr args \<Rightarrow> apply_hunks os (hunks args) fs)"

subsection \<open>Correctness of the placement\<close>

text \<open>A replacement that was made for a chunk: it covers lines that agree with the chunk's
  old lines up to trimming and punctuation, and inserts its new lines; the trailing
  empty line of both may have been dropped.\<close>

definition placed_for :: "string list \<Rightarrow> replacement \<Rightarrow> update_file_chunk \<Rightarrow> bool" where
  "placed_for lines r c =
     (case r of (i, n, seg) \<Rightarrow>
        (n = length (old_lines c) \<and> seg = new_lines c \<and>
           map normalise (take n (drop i lines)) = map normalise (old_lines c)) \<or>
        (last_is_empty (old_lines c) \<and> n = length (butlast (old_lines c)) \<and>
           seg = (if last_is_empty (new_lines c) then butlast (new_lines c) else new_lines c) \<and>
           map normalise (take n (drop i lines)) = map normalise (butlast (old_lines c))))"

lemma seek_sequence_normalised:
  "seek_sequence lines pat k e = Some i \<Longrightarrow>
   map normalise (take (length pat) (drop i lines)) = map normalise pat"
  using seek_sequence_bounds(3) [of lines pat k e i] by (cases "pat = []") (auto simp: seek_match_def)

lemma seek_old_lines_placed:
  assumes "seek_old_lines lines c k = Some (i, pat, seg)"
  shows "placed_for lines (i, length pat, seg) c"
  using assms
  by (auto simp: seek_old_lines_def placed_for_def Let_def split: option.splits if_splits
      dest!: seek_sequence_normalised)

lemma compute_loop_placed:
  assumes "compute_loop lines p chunks k = Inr rs" and "\<forall>c \<in> set chunks. old_lines c \<noteq> []"
  shows "list_all2 (placed_for lines) rs chunks"
  using assms
proof (induction lines p chunks k arbitrary: rs rule: compute_loop.induct)
  case (2 lines p chunk chunks k)
  then obtain k1 i pat seg rs' where
    ctx: "seek_context lines p chunk k = Inr k1" and
    old: "seek_old_lines lines chunk k1 = Some (i, pat, seg)" and
    rec: "compute_loop lines p chunks (i + length pat) = Inr rs'" and
    rs: "rs = (i, length pat, seg) # rs'"
    by (auto split: sum.splits option.splits)
  with "2.IH"(2) [OF ctx _ old _ _ rec] "2.prems" show ?case
    by (simp add: seek_old_lines_placed)
qed simp

text \<open>An update hunk whose chunks all have old lines and no end-of-file mark is applied
  as one simultaneous replacement: the computed regions are in file order and disjoint,
  region \<open>k\<close> covers lines that agree with the old lines of chunk \<open>k\<close>, and the descending
  in-place edits yield exactly the file with every region replaced by its new lines.\<close>

lemma compute_replacements_splice:
  assumes "compute_replacements lines p chunks = Inr rs"
    and "\<forall>c \<in> set chunks. old_lines c \<noteq> [] \<and> \<not> is_end_of_file c"
  shows "disjoint_from 0 (length lines) rs \<and> list_all2 (placed_for lines) rs chunks \<and>
    apply_replacements lines rs = Some (splice_from 0 lines rs)"
proof -
  from assms(1) obtain rs0 where loop: "compute_loop lines p chunks 0 = Inr rs0"
    and rs: "rs = sort_key fst rs0"
    by (auto simp: compute_replacements_def split: sum.splits)
  have dis: "disjoint_from 0 (length lines) rs0"
    using compute_loop_disjoint [OF loop] assms(2) by simp
  then have "rs = rs0" using rs disjoint_from_sorted sort_key_id by blast
  with dis compute_loop_placed [OF loop] assms(2) apply_replacements_splice [of 0 lines rs0]
  show ?thesis by simp
qed

text \<open>Updating a file never panics.  Whatever the file and the chunks (overlapping
  end-of-file chunks and additions included), every index the splice uses is in range,
  so the result is new contents or an error value.\<close>

lemma new_contents_never_panics: "new_contents_of c p chunks \<noteq> None"
proof (cases "compute_replacements (original_lines_of c) p chunks")
  case (Inl e)
  then show ?thesis by (simp add: new_contents_of_def)
next
  case (Inr rs)
  let ?ls = "original_lines_of c"
  from Inr obtain rs0 where loop: "compute_loop ?ls p chunks 0 = Inr rs0"
    and rs: "rs = sort_key fst rs0"
    by (auto simp: compute_replacements_def split: sum.splits)
  from compute_loop_in_range [OF loop] rs have "\<forall>r \<in> set (rev rs). fst r \<le> length ?ls" by fastforce
  moreover have "sorted_wrt (\<lambda>a b. fst b \<le> fst a) (rev rs)"
    using sorted_sort_key [of fst rs0] rs by (simp add: sorted_wrt_rev sorted_wrt_map)
  ultimately show ?thesis
    using apply_descending_total Inr by (fastforce simp: new_contents_of_def apply_replacements_def)
qed

subsection \<open>Properties of the hunk loop\<close>

fun touched_by :: "hunk \<Rightarrow> path_key set" where
  "touched_by (AddFile p _) = {path_key p}"
| "touched_by (DeleteFile p) = {path_key p}"
| "touched_by (UpdateFile p mv _) =
     {path_key p} \<union> (case mv of None \<Rightarrow> {} | Some d \<Rightarrow> {path_key d})"

lemmas fs_defs = create_parent_dirs_def fs_write_def remove_file_def read_to_string_def

lemma apply_hunk_frame:
  "apply_hunk os h fs aff = (fs', r) \<Longrightarrow> k \<notin> touched_by h \<Longrightarrow> fs' k = fs k"
  by (induction os h fs aff rule: apply_hunk.induct)
     (auto simp: fs_defs split: sum.splits option.splits if_splits unit.splits)

text \<open>Applying a patch changes no file the patch does not name.  On success and on every
  error path, a path that is neither a hunk's path nor a move destination keeps its
  contents.\<close>

lemma apply_hunks_to_files_frame:
  assumes "\<forall>h \<in> set hs. k \<notin> touched_by h"
  shows "fst (apply_hunks_to_files os hs fs) k = fs k"
proof -
  have "fst (apply_hunk_loop os hs fs aff) k = fs k" for aff
    using assms
  proof (induction hs arbitrary: fs aff)
    case (Cons h hs)
    obtain fs1 r where h: "apply_hunk os h fs aff = (fs1, r)" by fastforce
    from apply_hunk_frame [OF h] Cons.prems have "fs1 k = fs k" by simp
    moreover from Cons.prems have "\<forall>h \<in> set hs. k \<notin> touched_by h" by simp
    ultimately show ?case using h Cons.IH by (cases r) simp_all
  qed simp
  then show ?thesis by (simp add: apply_hunks_to_files_def)
qed

lemma apply_hunks_frame:
  assumes "\<forall>h \<in> set hs. k \<notin> touched_by h"
  shows "fst (apply_hunks os hs fs) k = fs k"
  using apply_hunks_to_files_frame [OF assms, of os fs]
  by (auto simp: apply_hunks_def split: prod.splits sum.splits)

text \<open>What the loop reports is what it did.\<close>

fun added_of :: "hunk \<Rightarrow> string list" where
  "added_of (AddFile p _) = [p]"
| "added_of _ = []"

fun modified_of :: "hunk \<Rightarrow> string list" where
  "modified_of (UpdateFile p mv _) = [case mv of None \<Rightarrow> p | Some d \<Rightarrow> d]"
| "modified_of _ = []"

fun deleted_of :: "hunk \<Rightarrow> string list" where
  "deleted_of (DeleteFile p) = [p]"
| "deleted_of _ = []"

lemma apply_hunk_reports:
  "apply_hunk os h fs aff = (fs', Inr aff') \<Longrightarrow>
   aff' = \<lparr>added = added aff @ added_of h, modified = modified aff @ modified_of h,
           deleted = deleted aff @ deleted_of h\<rparr>"
  by (induction os h fs aff rule: apply_hunk.induct)
     (auto split: sum.splits option.splits if_splits unit.splits)

lemma apply_hunk_loop_reports:
  "apply_hunk_loop os hs fs aff = (fs', Inr aff') \<Longrightarrow>
   aff' = \<lparr>added = added aff @ concat (map added_of hs),
           modified = modified aff @ concat (map modified_of hs),
           deleted = deleted aff @ concat (map deleted_of hs)\<rparr>"
proof (induction hs arbitrary: fs aff)
  case (Cons h hs)
  then obtain fs1 aff1 where h: "apply_hunk os h fs aff = (fs1, Inr aff1)"
    and rest: "apply_hunk_loop os hs fs1 aff1 = (fs', Inr aff')"
    by (auto split: prod.splits sum.splits)
  from Cons.IH [OF rest] apply_hunk_reports [OF h] show ?case by simp
qed simp

lemma report_hunk_error_fails: "outcome (report_hunk_error e) \<noteq> Some (Inr ())"
  by (cases e) simp_all

text \<open>A successful run prints one line per hunk, grouped as added, modified (under the
  move destination where there is one) and deleted, each group in patch order, and
  nothing else; success is only reported when every hunk was applied.\<close>

lemma apply_hunks_summary:
  assumes "outcome (snd (apply_hunks os hs fs)) = Some (Inr ())"
  shows "snd (apply_hunks os hs fs) =
    \<lparr>stdout = print_summary \<lparr>added = concat (map added_of hs),
        modified = concat (map modified_of hs), deleted = concat (map deleted_of hs)\<rparr>,
     stderr = [], outcome = Some (Inr ())\<rparr> \<and> hs \<noteq> []"
proof -
  obtain fs' r where run: "apply_hunks_to_files os hs fs = (fs', r)" by fastforce
  with assms obtain aff where r: "r = Inr aff"
    by (cases r) (simp_all add: apply_hunks_def report_hunk_error_fails)
  with run have "hs \<noteq> []" and loop: "apply_hunk_loop os hs fs no_affected = (fs', Inr aff)"
    by (auto simp: apply_hunks_to_files_def split: if_splits)
  moreover from apply_hunk_loop_reports [OF loop]
  have "aff = \<lparr>added = concat (map added_of hs), modified = concat (map modified_of hs),
      deleted = concat (map deleted_of hs)\<rparr>"
    by (simp add: no_affected_def)
  ultimately show ?thesis using run r by (simp add: apply_hunks_def)
qed

subsection \<open>Contents and lines\<close>

text \<open>The text of a list of lines, each ended by a line feed.\<close>

definition text_of :: "string list \<Rightarrow> string" where
  "text_of ls = concat (map (\<lambda>l. l @ [nl]) ls)"

lemma split_char_line: "c \<notin> set l \<Longrightarrow> split_char c (l @ c # s) = l # split_char c s"
  by (induction l) auto

lemma split_char_text_of:
  "\<forall>l \<in> set ls. nl \<notin> set l \<Longrightarrow> split_char nl (text_of ls) = ls @ [[]]"
  by (induction ls) (simp_all add: text_of_def split_char_line)

lemma original_lines_of_text:
  "\<forall>l \<in> set ls. nl \<notin> set l \<Longrightarrow> original_lines_of (text_of ls) = ls"
  by (simp add: original_lines_of_def split_char_text_of last_is_empty_def)

lemma join_str_empty_last: "join_str [nl] (ls @ [[]]) = text_of ls"
proof (induction ls)
  case (Cons l ls)
  then show ?case by (cases ls) (simp_all add: text_of_def)
qed (simp add: text_of_def)

lemma join_new_lines_eq:
  "join_new_lines ls = text_of (if last_is_empty ls then butlast ls else ls)"
proof (cases "last_is_empty ls")
  case True
  then have "ls = butlast ls @ [[]]" by (metis append_butlast_last_id last_is_empty_def)
  with True show ?thesis by (metis join_new_lines_def join_str_empty_last)
qed (simp add: join_new_lines_def join_str_empty_last)

text \<open>An exact, first occurrence of the old lines is replaced by the new ones.\<close>

lemma exact_chunk_replacement:
  assumes "change_context c = None" and "\<not> is_end_of_file c" and "old_lines c \<noteq> []"
    and first: "\<forall>j < length pre. take (length (old_lines c)) (drop j (pre @ old_lines c @ post)) \<noteq> old_lines c"
    and nonl: "\<forall>l \<in> set (pre @ old_lines c @ post). nl \<notin> set l"
  shows "new_contents_of (text_of (pre @ old_lines c @ post)) p [c] =
    Some (Inr \<lparr>original_contents = text_of (pre @ old_lines c @ post),
               new_contents = join_new_lines (pre @ new_lines c @ post)\<rparr>)"
proof -
  let ?ls = "pre @ old_lines c @ post"
  have "seek_sequence ?ls (old_lines c) 0 False = Some (length pre)"
  proof -
    have "seek_pass (\<lambda>l. l) ?ls (old_lines c) 0 = Some (length pre)"
      using first by (auto simp: seek_pass_Some_iff seek_match_exact_iff)
    with assms(3) show ?thesis by (simp add: seek_sequence_def)
  qed
  then have "compute_replacements ?ls p [c] =
      Inr [(length pre, length (old_lines c), new_lines c)]"
    using assms(1-3) by (simp add: compute_replacements_def seek_context_def seek_old_lines_def)
  moreover have "apply_replacements ?ls [(length pre, length (old_lines c), new_lines c)] =
      Some (pre @ new_lines c @ post)"
    by (simp add: apply_replacements_def apply_replacement_eq)
  ultimately show ?thesis
    by (simp add: new_contents_of_def original_lines_of_text [OF nonl])
qed

text \<open>A file that ends in a blank line loses it.  When the last line of the updated
  file is empty, no final line feed is added after it, so the text written is that of
  the lines without their last one, although the chunk never touched it.\<close>

lemma update_drops_trailing_blank_line:
  assumes "change_context c = None" and "\<not> is_end_of_file c" and "old_lines c \<noteq> []"
    and "\<forall>j < length pre.
      take (length (old_lines c)) (drop j (pre @ old_lines c @ post @ [[]])) \<noteq> old_lines c"
    and "\<forall>l \<in> set (pre @ old_lines c @ post). nl \<notin> set l"
  shows "new_contents_of (text_of (pre @ old_lines c @ post @ [[]])) p [c] =
    Some (Inr \<lparr>original_contents = text_of (pre @ old_lines c @ post @ [[]]),
               new_contents = text_of (pre @ new_lines c @ post)\<rparr>)"
proof -
  have nonl: "\<forall>l \<in> set (pre @ old_lines c @ (post @ [[]])). nl \<notin> set l"
    using assms(5) by auto
  have "join_new_lines (pre @ new_lines c @ post @ [[]]) = text_of (pre @ new_lines c @ post)"
    by (simp add: join_new_lines_eq last_is_empty_def butlast_append)
  with exact_chunk_replacement [OF assms(1-3) _ nonl] assms(4) show ?thesis by simp
qed

lemma create_parent_dirs_permissive: "create_parent_dirs (\<lambda>_ _. None) k = Inr ()"
  by (simp add: create_parent_dirs_def split: option.splits)

text \<open>A move onto the same file deletes it.  The destination is written and then the
  original is removed without comparing the two, so an update whose destination names
  the file itself (possibly spelled differently) reports success and leaves no file.\<close>

lemma move_onto_itself_deletes:
  assumes "path_key d = path_key p" and "fs (path_key p) = Some c"
    and "new_contents_of c p chunks' = Some (Inr ap)"
  shows "apply_hunk (\<lambda>_ _. None) (UpdateFile p (Some d) chunks') fs aff =
    (fs(path_key p := None), Inr (aff\<lparr>modified := modified aff @ [d]\<rparr>))"
  using assms
  by (simp add: derive_new_contents_from_chunks_def create_parent_dirs_permissive
      fs_write_def remove_file_def read_to_string_def)

end
