(* ===== verification/Rust_Text.thy ===== *)
theory Rust_Text
  imports Rust_Base
begin

section \<open>Characters of a string\<close>

text \<open>
  The second part of the prelude: strings as sequences of code points (a leading byte and
  its continuation bytes), ASCII case and digits, and splitting at a character.
\<close>

subsection \<open>Code points\<close>

text \<open>A \<open>&str\<close> never starts inside a code point.\<close>

definition str_start :: "string \<Rightarrow> bool" where
  "str_start s = (s = [] \<or> \<not> is_cont_byte (hd s))"

lemma str_start_append: "str_start a \<Longrightarrow> str_start b \<Longrightarrow> str_start (a @ b)"
  by (cases a) (auto simp: str_start_def)

lemma str_start_Nil [simp]: "str_start []"
  by (simp add: str_start_def)

lemma str_start_concat: "list_all str_start cs \<Longrightarrow> str_start (concat cs)"
  by (induction cs) (simp_all add: str_start_append)

text \<open>The characters of a text: a leading byte and its continuation bytes.\<close>

definition char_ok :: "string \<Rightarrow> bool" where
  "char_ok c = (c \<noteq> [] \<and> \<not> is_cont_byte (hd c) \<and> list_all is_cont_byte (tl c))"

lemma char_ok_start: "char_ok c \<Longrightarrow> str_start c"
  by (simp add: char_ok_def str_start_def)

lemma chars_ok_start: "list_all char_ok cs \<Longrightarrow> str_start (concat cs)"
  by (rule str_start_concat) (simp add: char_ok_start list_all_iff)

lemma takeWhile_append_start:
  "str_start b \<Longrightarrow> takeWhile is_cont_byte (a @ b) = takeWhile is_cont_byte a"
  "str_start b \<Longrightarrow> dropWhile is_cont_byte (a @ b) = dropWhile is_cont_byte a @ b"
  by (induction a) (auto simp: str_start_def takeWhile_eq_Nil_iff dropWhile_eq_self_iff)

lemma str_chars_append: "str_start b \<Longrightarrow> str_chars (a @ b) = str_chars a @ str_chars b"
  by (induction a rule: str_chars.induct) (simp_all add: takeWhile_append_start)

lemma concat_str_chars [simp]: "concat (str_chars s) = s"
  by (induction s rule: str_chars.induct) simp_all

lemma str_chars_ok: "str_start s \<Longrightarrow> list_all char_ok (str_chars s)"
proof (induction s rule: str_chars.induct)
  case (2 b bs)
  have "str_start (dropWhile is_cont_byte bs)"
    unfolding str_start_def using hd_dropWhile [of is_cont_byte bs] by blast
  then have "list_all char_ok (str_chars (dropWhile is_cont_byte bs))" by (rule "2.IH")
  moreover have "list_all is_cont_byte (takeWhile is_cont_byte bs)"
    unfolding list_all_iff using set_takeWhileD by fast
  moreover have "\<not> is_cont_byte b" using "2.prems" unfolding str_start_def by simp
  ultimately show ?case by (simp add: char_ok_def [of "_ # _"])
qed simp

subsection \<open>ASCII\<close>

definition is_ascii_byte :: "char \<Rightarrow> bool" where
  "is_ascii_byte c = ((of_char c :: nat) < 0x80)"

lemma ascii_not_cont: "is_ascii_byte c \<Longrightarrow> \<not> is_cont_byte c"
  by (simp add: is_ascii_byte_def is_cont_byte_def Let_def)

definition is_ascii_digit :: "char \<Rightarrow> bool" where
  "is_ascii_digit c = (let n = (of_char c :: nat) in 0x30 \<le> n \<and> n \<le> 0x39)"

definition ascii_lower :: "char \<Rightarrow> char" where
  "ascii_lower c =
     (let n = (of_char c :: nat) in if 0x41 \<le> n \<and> n \<le> 0x5A then char_of (n + 0x20) else c)"

definition to_ascii_lowercase :: "string \<Rightarrow> string" where
  "to_ascii_lowercase s = map ascii_lower s"

lemma ascii_lower_idem [simp]: "ascii_lower (ascii_lower c) = ascii_lower c"
  by (auto simp: ascii_lower_def Let_def)

lemma to_ascii_lowercase_idem [simp]: "to_ascii_lowercase (to_ascii_lowercase s) = to_ascii_lowercase s"
  by (simp add: to_ascii_lowercase_def comp_def)

lemma ascii_lower_fixed:
  assumes "\<not> (0x41 \<le> (of_char d :: nat) \<and> (of_char d :: nat) \<le> 0x5A)"
    and "\<not> (0x61 \<le> (of_char d :: nat) \<and> (of_char d :: nat) \<le> 0x7A)"
  shows "ascii_lower c = d \<longleftrightarrow> c = d"
proof
  assume d: "ascii_lower c = d"
  show "c = d"
  proof (cases "0x41 \<le> (of_char c :: nat) \<and> (of_char c :: nat) \<le> 0x5A")
    case True
    with d have "d = char_of ((of_char c :: nat) + 0x20)" by (simp add: ascii_lower_def Let_def)
    with True have "(of_char d :: nat) = of_char c + 0x20" by simp
    with True assms(2) show ?thesis by simp
  next
    case False
    with d show ?thesis by (simp add: ascii_lower_def Let_def)
  qed
next
  assume "c = d"
  with assms(1) show "ascii_lower c = d" by (auto simp: ascii_lower_def Let_def)
qed

definition eq_ignore_ascii_case :: "string \<Rightarrow> string \<Rightarrow> bool" where
  "eq_ignore_ascii_case a b = (to_ascii_lowercase a = to_ascii_lowercase b)"

subsection \<open>Slices at character boundaries\<close>

definition is_char_boundary :: "string \<Rightarrow> nat \<Rightarrow> bool" where
  "is_char_boundary s i = (i = 0 \<or> i = length s \<or> (i < length s \<and> \<not> is_cont_byte (s ! i)))"

text \<open>\<open>get(..n)\<close> and \<open>get(n..)\<close>.\<close>

definition str_get_to :: "string \<Rightarrow> nat \<Rightarrow> string option" where
  "str_get_to s n = (if is_char_boundary s n then Some (take n s) else None)"

definition str_get_from :: "string \<Rightarrow> nat \<Rightarrow> string option" where
  "str_get_from s n = (if is_char_boundary s n then Some (drop n s) else None)"

subsection \<open>Splitting once\<close>

definition split_once :: "char \<Rightarrow> string \<Rightarrow> (string \<times> string) option" where
  "split_once c s =
     (if c \<in> set s then Some (takeWhile (\<lambda>x. x \<noteq> c) s, tl (dropWhile (\<lambda>x. x \<noteq> c) s)) else None)"

definition rsplit_once :: "char \<Rightarrow> string \<Rightarrow> (string \<times> string) option" where
  "rsplit_once c s = map_option (\<lambda>(a, b). (rev b, rev a)) (split_once c (rev s))"

definition trim_end_char :: "char \<Rightarrow> string \<Rightarrow> string" where
  "trim_end_char c s = rev (dropWhile (\<lambda>x. x = c) (rev s))"

subsection \<open>White space\<close>

definition has_whitespace :: "string \<Rightarrow> bool" where
  "has_whitespace s = list_ex (\<lambda>u. u \<in> set ws_units) (str_chars s)"

subsection \<open>Characters of a trimmed text\<close>

lemma in_lowercase:
  assumes "d \<in> {CHR ''/'', CHR ''?'', CHR ''#'', CHR ''*'', CHR ''.'', CHR '':'', CHR ''[''}"
  shows "d \<in> set (to_ascii_lowercase s) \<longleftrightarrow> d \<in> set s"
proof -
  have "ascii_lower c = d \<longleftrightarrow> c = d" for c
    by (rule ascii_lower_fixed) (use assms in auto)
  then show ?thesis by (auto simp: to_ascii_lowercase_def image_iff eq_commute [of d])
qed

lemma str_trim_subset: "set (str_trim s) \<subseteq> set s"
  using set_mono_suffix [OF trim_start_suffix [of "trim_end s"]] set_mono_prefix [OF trim_end_prefix [of s]]
  by (auto simp: str_trim_def)

lemma split_once_subset: "split_once c s = Some (a, b) \<Longrightarrow> set a \<subseteq> set s \<and> set b \<subseteq> set s"
proof -
  assume sp: "split_once c s = Some (a, b)"
  then have "a = takeWhile (\<lambda>x. x \<noteq> c) s" "b = drop 1 (dropWhile (\<lambda>x. x \<noteq> c) s)"
    by (auto simp: split_once_def drop_Suc split: if_splits)
  then show ?thesis by (auto dest: set_takeWhileD set_dropWhileD in_set_dropD)
qed

lemma trim_end_char_subset: "set (trim_end_char c s) \<subseteq> set s"
  by (auto simp: trim_end_char_def dest: set_dropWhileD)

lemma trim_end_char_prefix: "prefix (trim_end_char c s) s"
  using suffix_dropWhile [of "\<lambda>x. x = c" "rev s"] by (simp add: trim_end_char_def suffix_to_prefix)

lemma trim_end_char_snoc: "trim_end_char c (s @ [x]) = (if x = c then trim_end_char c s else s @ [x])"
  by (simp add: trim_end_char_def)

lemma trim_end_char_id: "trim_end_char c s = s \<longleftrightarrow> s = [] \<or> last s \<noteq> c"
proof (cases s rule: rev_cases)
  case (snoc s' x)
  have "trim_end_char c s' \<noteq> s' @ [x]"
    using prefix_length_le [OF trim_end_char_prefix [of c s']] by auto
  with snoc show ?thesis by (auto simp: trim_end_char_snoc)
qed (simp add: trim_end_char_def)

lemma str_trim_idem: "str_trim (str_trim s) = str_trim s"
proof -
  have "trim_end (trim_start (trim_end s)) = trim_start (trim_end s)"
  proof -
    have "\<forall>u \<in> set ws_units. u = [] \<or> \<not> suffix u (trim_end s)" using trim_end_id_iff [of "trim_end s"] by simp
    with trim_start_suffix [of "trim_end s"] show ?thesis
      unfolding trim_end_id_iff by (meson suffix_order.trans)
  qed
  then show ?thesis by (simp add: str_trim_def trim_start_def)
qed

end
