(* ===== verification/Stream_Text.thy ===== *)
theory Stream_Text
  imports Rust_Text
begin

section \<open>Streamed text: the parser interface\<close>

text \<open>
  A model of \<^verbatim>\<open>codex-rs/utils/stream-parser/src/stream_text.rs\<close>: the result of one push
  (text that may be shown, payloads that were extracted) and the trait
  \<open>StreamTextParser\<close>.  The contract every parser of the crate is meant to satisfy is
  the locale below: what a parser has still to output is a function of the text that
  has not been processed, so the outputs do not depend on how the text was cut into
  chunks.  The parsers of the crate are its interpretations.
\<close>

record 'x stream_text_chunk =
  visible_text :: string
  extracted :: "'x list"

definition empty_chunk :: "'x stream_text_chunk" where
  "empty_chunk = \<lparr>visible_text = [], extracted = []\<rparr>"

definition chunk_is_empty :: "'x stream_text_chunk \<Rightarrow> bool" where
  "chunk_is_empty c = (visible_text c = [] \<and> extracted c = [])"

text \<open>Two outputs one after the other.\<close>

definition chunk_append ::
  "'x stream_text_chunk \<Rightarrow> 'x stream_text_chunk \<Rightarrow> 'x stream_text_chunk"
where
  "chunk_append a b =
     \<lparr>visible_text = visible_text a @ visible_text b, extracted = extracted a @ extracted b\<rparr>"

lemma chunk_append_assoc: "chunk_append (chunk_append a b) c = chunk_append a (chunk_append b c)"
  by (simp add: chunk_append_def)

lemma chunk_append_empty [simp]: "chunk_append empty_chunk c = c" "chunk_append c empty_chunk = c"
  by (simp_all add: chunk_append_def empty_chunk_def)

subsection \<open>Running a parser over chunks\<close>

text \<open>Push every chunk, then flush; \<open>None\<close> if an operation does not return.\<close>

fun run_parser ::
  "('s \<Rightarrow> string \<Rightarrow> ('s \<times> 'c) option) \<Rightarrow> ('s \<Rightarrow> 's \<times> 'c) \<Rightarrow> 's \<Rightarrow> string list \<Rightarrow> 'c list option"
where
  "run_parser push fin s [] = Some [snd (fin s)]"
| "run_parser push fin s (c # cs) =
     (case push s c of
        None \<Rightarrow> None
      | Some (s', out) \<Rightarrow>
          (case run_parser push fin s' cs of None \<Rightarrow> None | Some outs \<Rightarrow> Some (out # outs)))"

text \<open>The contract.  \<open>rest s t\<close> is what a parser in state \<open>s\<close> outputs for the remaining text
  \<open>t\<close> up to the end of the stream; \<open>obs\<close> adds one output in front; \<open>text_ok\<close> is what the
  parser needs of a chunk to be a piece of text.\<close>

locale stream_text_parser =
  fixes push_str :: "'s \<Rightarrow> string \<Rightarrow> ('s \<times> 'c) option"
    and finish :: "'s \<Rightarrow> 's \<times> 'c"
    and text_ok :: "string \<Rightarrow> bool"
    and inv :: "'s \<Rightarrow> bool"
    and rest :: "'s \<Rightarrow> string \<Rightarrow> 'o"
    and obs :: "'c \<Rightarrow> 'o \<Rightarrow> 'o"
    and nothing :: 'o
  assumes text_ok_Nil: "text_ok []"
    and text_ok_append: "text_ok a \<Longrightarrow> text_ok b \<Longrightarrow> text_ok (a @ b)"
    and push_total: "inv s \<Longrightarrow> text_ok a \<Longrightarrow> push_str s a \<noteq> None"
    and push_inv: "inv s \<Longrightarrow> text_ok a \<Longrightarrow> push_str s a = Some (s', c) \<Longrightarrow> inv s'"
    and push_rest: "inv s \<Longrightarrow> text_ok a \<Longrightarrow> push_str s a = Some (s', c) \<Longrightarrow> text_ok b \<Longrightarrow>
      rest s (a @ b) = obs c (rest s' b)"
    and finish_rest: "inv s \<Longrightarrow> rest s [] = obs (snd (finish s)) nothing"
begin

lemma text_ok_concat: "list_all text_ok cs \<Longrightarrow> text_ok (concat cs)"
  by (induction cs) (simp_all add: text_ok_append text_ok_Nil)

lemma run_rest:
  assumes "inv s" and "list_all text_ok cs"
  shows "\<exists>outs. run_parser push_str finish s cs = Some outs \<and>
    foldr obs outs nothing = rest s (concat cs)"
  using assms
proof (induction cs arbitrary: s)
  case Nil
  then show ?case by (simp add: finish_rest)
next
  case (Cons c cs)
  then have c: "text_ok c" and cs: "text_ok (concat cs)"
    by (auto intro: text_ok_concat)
  then obtain s' out where push: "push_str s c = Some (s', out)"
    using push_total [OF Cons.prems(1) c] by (cases "push_str s c") auto
  from push_inv [OF Cons.prems(1) c push] Cons obtain outs where
    "run_parser push_str finish s' cs = Some outs" "foldr obs outs nothing = rest s' (concat cs)"
    by auto
  with push push_rest [OF Cons.prems(1) c push cs] show ?case by simp
qed

text \<open>One chunk for the whole text.\<close>

lemma run_whole:
  assumes "inv s" and "text_ok t"
  shows "\<exists>s' out. push_str s t = Some (s', out) \<and> inv s' \<and>
    obs out (obs (snd (finish s')) nothing) = rest s t"
proof -
  from push_total [OF assms] obtain s' out where push: "push_str s t = Some (s', out)" by fast
  from push_inv [OF assms push] push_rest [OF assms push text_ok_Nil] finish_rest [of s'] push
  show ?thesis by simp
qed

text \<open>The observed output depends on the text only.\<close>

lemma chunking_irrelevant:
  assumes "inv s" and "list_all text_ok cs" and "list_all text_ok ds"
    and "concat cs = concat ds"
    and "run_parser push_str finish s cs = Some outs" and "run_parser push_str finish s ds = Some outs'"
  shows "foldr obs outs nothing = foldr obs outs' nothing"
  using run_rest [OF assms(1,2)] run_rest [OF assms(1,3)] assms(4-6) by auto

end

end
