(* ===== verification/Inline_Hidden_Tag.thy ===== *)
theory Inline_Hidden_Tag
  imports Stream_Text
begin

section \<open>Hidden inline tags\<close>

text \<open>
  A model of \<^verbatim>\<open>codex-rs/utils/stream-parser/src/inline_hidden_tag.rs\<close> and of its user
  \<^verbatim>\<open>citation.rs\<close>: a streaming parser that removes delimited spans from the visible text
  and returns their contents.  The loop of \<open>push_str\<close> is modelled with fuel; one more
  than the length of the buffered text is enough, since every iteration that continues
  removes a non-empty delimiter (\<open>inline_loop_total\<close>).

  The specification \<open>strip_tags\<close> reads the whole text at once.  The parser satisfies the
  contract of a stream parser for it provided no opening delimiter occurs inside
  another one, which holds for the single delimiter pair the citation parser uses.
\<close>

subsection \<open>Data\<close>

record 'g extracted_inline_tag =
  ext_tag :: 'g
  ext_content :: string

record 'g inline_tag_spec =
  spec_tag :: 'g
  spec_open :: string
  spec_close :: string

record 'g active_tag =
  act_tag :: 'g
  act_close :: string
  act_content :: string

record 'g inline_hidden_tag_parser =
  specs :: "'g inline_tag_spec list"
  pending :: string
  active :: "'g active_tag option"

type_synonym 'g inline_chunk = "'g extracted_inline_tag stream_text_chunk"

text \<open>\<open>new\<close>, with its three assertions as the error value.\<close>

definition new_inline_parser :: "'g inline_tag_spec list \<Rightarrow> 'g inline_hidden_tag_parser option" where
  "new_inline_parser sps =
     (if sps \<noteq> [] \<and> list_all (\<lambda>sp. spec_open sp \<noteq> [] \<and> spec_close sp \<noteq> []) sps
      then Some \<lparr>specs = sps, pending = [], active = None\<rparr> else None)"

subsection \<open>Searching for delimiters\<close>

text \<open>\<open>Iterator::min_by\<close>: the first element no later one is smaller than.\<close>

fun min_by :: "('a \<Rightarrow> 'a \<Rightarrow> bool) \<Rightarrow> 'a list \<Rightarrow> 'a option" where
  "min_by lt [] = None"
| "min_by lt (x # xs) = Some (fold (\<lambda>y acc. if lt y acc then y else acc) xs x)"

text \<open>Candidates (position, delimiter length, spec index), in the order of the specs.\<close>

definition open_candidates :: "'g inline_tag_spec list \<Rightarrow> string \<Rightarrow> (nat \<times> nat \<times> nat) list" where
  "open_candidates sps s =
     List.map_filter (\<lambda>(idx, sp).
       map_option (\<lambda>pos. (pos, length (spec_open sp), idx)) (find_str (spec_open sp) s))
     (List.enumerate 0 sps)"

fun candidate_less :: "nat \<times> nat \<times> nat \<Rightarrow> nat \<times> nat \<times> nat \<Rightarrow> bool" where
  "candidate_less (pos_a, len_a, idx_a) (pos_b, len_b, idx_b) =
     (pos_a < pos_b \<or> (pos_a = pos_b \<and> (len_b < len_a \<or> (len_a = len_b \<and> idx_a < idx_b))))"

definition find_next_open :: "'g inline_tag_spec list \<Rightarrow> string \<Rightarrow> (nat \<times> nat) option" where
  "find_next_open sps s =
     map_option (\<lambda>(pos, _, idx). (pos, idx)) (min_by candidate_less (open_candidates sps s))"

definition longest_suffix_prefix_len :: "string \<Rightarrow> string \<Rightarrow> nat" where
  "longest_suffix_prefix_len s needle =
     (case List.find (\<lambda>k. is_char_boundary needle k \<and> suffix (take k needle) s)
             (rev [1..<Suc (min (length s) (length needle - 1))]) of
        Some k \<Rightarrow> k
      | None \<Rightarrow> 0)"

definition max_open_prefix_suffix_len :: "'g inline_tag_spec list \<Rightarrow> string \<Rightarrow> nat" where
  "max_open_prefix_suffix_len sps s =
     fold max (map (\<lambda>sp. longest_suffix_prefix_len s (spec_open sp)) sps) 0"

subsection \<open>Pushing text\<close>

definition push_visible :: "string \<Rightarrow> 'g inline_chunk \<Rightarrow> 'g inline_chunk" where
  "push_visible t out = out\<lparr>visible_text := visible_text out @ t\<rparr>"

definition push_extracted :: "'g \<Rightarrow> string \<Rightarrow> 'g inline_chunk \<Rightarrow> 'g inline_chunk" where
  "push_extracted g c out =
     out\<lparr>extracted := extracted out @ [\<lparr>ext_tag = g, ext_content = c\<rparr>]\<rparr>"

text \<open>One iteration of the loop: \<open>Inl\<close> continues, \<open>Inr\<close> breaks.\<close>

type_synonym 'g inline_state = "'g active_tag option \<times> string \<times> 'g inline_chunk"

fun inline_step :: "'g inline_tag_spec list \<Rightarrow> 'g inline_state \<Rightarrow> 'g inline_state + 'g inline_state" where
  "inline_step sps (Some act, pend, out) =
     (case find_str (act_close act) pend of
        Some close_idx \<Rightarrow>
          Inl (None, drop (close_idx + length (act_close act)) pend,
               push_extracted (act_tag act) (act_content act @ take close_idx pend) out)
      | None \<Rightarrow>
          (let keep = longest_suffix_prefix_len pend (act_close act);
               tk = length pend - keep
           in Inr (Some (act\<lparr>act_content := act_content act @ take tk pend\<rparr>), drop tk pend, out)))"
| "inline_step sps (None, pend, out) =
     (case find_next_open sps pend of
        Some (open_idx, spec_idx) \<Rightarrow>
          (let sp = sps ! spec_idx in
           Inl (Some \<lparr>act_tag = spec_tag sp, act_close = spec_close sp, act_content = []\<rparr>,
                drop (open_idx + length (spec_open sp)) pend,
                push_visible (take open_idx pend) out))
      | None \<Rightarrow>
          (let keep = max_open_prefix_suffix_len sps pend;
               tk = length pend - keep
           in Inr (None, drop tk pend, push_visible (take tk pend) out)))"

fun inline_loop :: "nat \<Rightarrow> 'g inline_tag_spec list \<Rightarrow> 'g inline_state \<Rightarrow> 'g inline_state option" where
  "inline_loop 0 sps st = None"
| "inline_loop (Suc fuel) sps st =
     (case inline_step sps st of Inl st' \<Rightarrow> inline_loop fuel sps st' | Inr st' \<Rightarrow> Some st')"

definition inline_push_str ::
  "'g inline_hidden_tag_parser \<Rightarrow> string \<Rightarrow> ('g inline_hidden_tag_parser \<times> 'g inline_chunk) option"
where
  "inline_push_str p chunk =
     (let pend = pending p @ chunk in
      case inline_loop (Suc (length pend)) (specs p) (active p, pend, empty_chunk) of
        None \<Rightarrow> None
      | Some (act, pend', out) \<Rightarrow> Some (p\<lparr>pending := pend', active := act\<rparr>, out))"

definition inline_finish ::
  "'g inline_hidden_tag_parser \<Rightarrow> 'g inline_hidden_tag_parser \<times> 'g inline_chunk"
where
  "inline_finish p =
     (case active p of
        Some act \<Rightarrow>
          (p\<lparr>pending := [], active := None\<rparr>,
           push_extracted (act_tag act) (act_content act @ pending p) empty_chunk)
      | None \<Rightarrow> (p\<lparr>pending := []\<rparr>, push_visible (pending p) empty_chunk))"

subsection \<open>The specification\<close>

text \<open>The whole text at once: outside a tag, skip to the next opening delimiter; inside
  one, the content runs to the next closing delimiter or to the end.\<close>

definition open_tag :: "'g inline_tag_spec \<Rightarrow> 'g active_tag" where
  "open_tag sp = \<lparr>act_tag = spec_tag sp, act_close = spec_close sp, act_content = []\<rparr>"

definition visible_chunk :: "string \<Rightarrow> 'g inline_chunk" where
  "visible_chunk t = \<lparr>visible_text = t, extracted = []\<rparr>"

definition extracted_chunk :: "'g active_tag \<Rightarrow> string \<Rightarrow> 'g inline_chunk" where
  "extracted_chunk act t =
     \<lparr>visible_text = [], extracted = [\<lparr>ext_tag = act_tag act, ext_content = act_content act @ t\<rparr>]\<rparr>"

function strip_tags :: "'g inline_tag_spec list \<Rightarrow> 'g active_tag option \<Rightarrow> string \<Rightarrow> 'g inline_chunk" where
  "strip_tags sps None s =
     (case find_next_open sps s of
        None \<Rightarrow> visible_chunk s
      | Some (i, k) \<Rightarrow>
          if s = [] \<or> spec_open (sps ! k) = [] then visible_chunk s
          else chunk_append (visible_chunk (take i s))
            (strip_tags sps (Some (open_tag (sps ! k))) (drop (i + length (spec_open (sps ! k))) s)))"
| "strip_tags sps (Some act) s =
     (case find_str (act_close act) s of
        None \<Rightarrow> extracted_chunk act s
      | Some i \<Rightarrow>
          if s = [] \<or> act_close act = [] then extracted_chunk act s
          else chunk_append (extracted_chunk act (take i s))
            (strip_tags sps None (drop (i + length (act_close act)) s)))"
  by pat_completeness auto
termination
  by (relation "measure (\<lambda>(sps, act, s). length s)") auto

declare strip_tags.simps [simp del]

subsection \<open>The next opening delimiter\<close>

lemma candidate_less_irrefl [simp]: "\<not> candidate_less a a"
  by (cases a) auto

lemma candidate_not_less_trans:
  "\<not> candidate_less a b \<Longrightarrow> \<not> candidate_less b c \<Longrightarrow> \<not> candidate_less a c"
  by (cases a; cases b; cases c) auto

lemma candidate_less_total: "a \<noteq> b \<Longrightarrow> candidate_less a b \<or> candidate_less b a"
  by (cases a; cases b) auto

lemma candidate_less_asym: "candidate_less a b \<Longrightarrow> \<not> candidate_less b a"
  by (cases a; cases b) auto

lemma fold_min_best:
  "fold (\<lambda>y acc. if candidate_less y acc then y else acc) xs x \<in> set (x # xs) \<and>
   (\<forall>y \<in> set (x # xs).
      \<not> candidate_less y (fold (\<lambda>y acc. if candidate_less y acc then y else acc) xs x))"
proof (induction xs arbitrary: x)
  case (Cons z xs)
  let ?f = "fold (\<lambda>y acc. if candidate_less y acc then y else acc) xs"
  let ?m = "if candidate_less z x then z else x"
  from Cons [of ?m] have in_xs: "?f ?m \<in> set (?m # xs)"
    and best: "\<forall>y \<in> set (?m # xs). \<not> candidate_less y (?f ?m)" by blast+
  have m: "\<not> candidate_less z ?m" "\<not> candidate_less x ?m"
    by (simp_all add: candidate_less_asym)
  from best have "\<not> candidate_less ?m (?f ?m)" by simp
  with m have "\<not> candidate_less z (?f ?m)" and "\<not> candidate_less x (?f ?m)"
    using candidate_not_less_trans by blast+
  with in_xs best show ?case by auto
qed simp

lemma min_by_best:
  "min_by candidate_less cs = Some b \<longleftrightarrow> b \<in> set cs \<and> (\<forall>c \<in> set cs. \<not> candidate_less c b)"
proof (cases cs)
  case (Cons x xs)
  let ?m = "fold (\<lambda>y acc. if candidate_less y acc then y else acc) xs x"
  have m: "?m \<in> set cs" "\<forall>y \<in> set cs. \<not> candidate_less y ?m"
    using fold_min_best [of xs x] Cons by blast+
  have "?m = b \<longleftrightarrow> b \<in> set cs \<and> (\<forall>c \<in> set cs. \<not> candidate_less c b)"
    using m candidate_less_total [of ?m b] by blast
  with Cons show ?thesis by simp
qed simp

lemma min_by_None: "min_by f cs = None \<longleftrightarrow> cs = []"
  by (cases cs) simp_all

lemma open_candidates_iff:
  "(pos, len, k) \<in> set (open_candidates sps s) \<longleftrightarrow>
     k < length sps \<and> find_str (spec_open (sps ! k)) s = Some pos \<and> len = length (spec_open (sps ! k))"
  by (auto simp: open_candidates_def List.map_filter_def in_set_enumerate_eq image_iff
      split: option.splits)

lemma open_candidates_Nil: "open_candidates sps s = [] \<longleftrightarrow> (\<forall>sp \<in> set sps. find_str (spec_open sp) s = None)"
proof -
  have "open_candidates sps s = [] \<longleftrightarrow> (\<forall>k pos len. (pos, len, k) \<notin> set (open_candidates sps s))"
    by (metis empty_iff list.set(1) list.set_intros(1) neq_Nil_conv prod_cases3)
  also have "\<dots> \<longleftrightarrow> (\<forall>k < length sps. find_str (spec_open (sps ! k)) s = None)"
    unfolding open_candidates_iff by (metis not_None_eq)
  finally show ?thesis by (simp add: all_set_conv_all_nth)
qed

lemma find_next_open_None:
  "find_next_open sps s = None \<longleftrightarrow> (\<forall>sp \<in> set sps. find_str (spec_open sp) s = None)"
  by (simp add: find_next_open_def min_by_None open_candidates_Nil)

text \<open>The chosen delimiter: found at its position, and no other one is found earlier, or
  longer or listed earlier at the same position.\<close>

lemma find_next_open_Some:
  "find_next_open sps s = Some (i, k) \<longleftrightarrow>
     k < length sps \<and> find_str (spec_open (sps ! k)) s = Some i \<and>
     (\<forall>k' < length sps. \<forall>j. find_str (spec_open (sps ! k')) s = Some j \<longrightarrow>
        \<not> candidate_less (j, length (spec_open (sps ! k')), k') (i, length (spec_open (sps ! k)), k))"
proof -
  have "find_next_open sps s = Some (i, k) \<longleftrightarrow>
      (\<exists>len. min_by candidate_less (open_candidates sps s) = Some (i, len, k))"
    by (auto simp: find_next_open_def)
  also have "\<dots> \<longleftrightarrow> k < length sps \<and> find_str (spec_open (sps ! k)) s = Some i \<and>
     (\<forall>k' < length sps. \<forall>j. find_str (spec_open (sps ! k')) s = Some j \<longrightarrow>
        \<not> candidate_less (j, length (spec_open (sps ! k')), k') (i, length (spec_open (sps ! k)), k))"
    unfolding min_by_best Ball_def split_paired_All open_candidates_iff by blast
  finally show ?thesis .
qed

subsection \<open>Skipping text that cannot hold a delimiter\<close>

lemma find_rev_upto_ge:
  "P k \<Longrightarrow> 1 \<le> k \<Longrightarrow> k \<le> m \<Longrightarrow> \<exists>k'. List.find P (rev [1..<Suc m]) = Some k' \<and> k \<le> k'"
proof (induction m)
  case (Suc m)
  then show ?case by (cases "k = Suc m") auto
qed simp

lemma longest_suffix_prefix_len_ge:
  assumes "1 \<le> k" and "k \<le> length s" and "k < length needle"
    and "is_char_boundary needle k" and "suffix (take k needle) s"
  shows "k \<le> longest_suffix_prefix_len s needle"
proof -
  have "k \<le> min (length s) (length needle - 1)" using assms(2,3) by simp
  from find_rev_upto_ge [OF _ assms(1) this,
      of "\<lambda>k. is_char_boundary needle k \<and> suffix (take k needle) s"] assms(4,5)
  show ?thesis by (auto simp: longest_suffix_prefix_len_def simp del: upt_Suc)
qed

text \<open>An occurrence that the buffered text does not contain, but that starts in it, starts
  in the part the parser keeps.\<close>

lemma occurrence_in_kept_suffix:
  assumes none: "find_str pat p = None" and j: "j < length p"
    and occ: "prefix pat (drop j (p @ t))" and t: "str_start t"
  shows "length p - j \<le> longest_suffix_prefix_len p pat"
proof -
  let ?k = "length p - j"
  have pat: "take (length pat) (drop j p @ t) = pat" using prefix_take [OF occ] j by simp
  have long: "?k < length pat"
  proof (rule ccontr)
    assume "\<not> ?k < length pat"
    with pat have "take (length pat) (drop j p) = pat" by simp
    then have "prefix pat (drop j p)" by (metis take_is_prefix)
    with none j show False by (auto simp: find_str_None_iff)
  qed
  have "take ?k pat = drop j p"
    using arg_cong [OF pat, of "take ?k"] long by simp
  then have suf: "suffix (take ?k pat) p" by (simp add: suffix_drop)
  have "t \<noteq> []"
  proof
    assume "t = []"
    with pat long show False by (metis append_Nil2 length_drop length_take min.strict_order_iff not_less_iff_gr_or_eq)
  qed
  moreover have "pat ! ?k = (drop j p @ t) ! ?k"
    using long by (metis pat nth_take)
  then have "pat ! ?k = t ! 0" by (simp add: nth_append)
  ultimately have "\<not> is_cont_byte (pat ! ?k)" using t by (simp add: str_start_def hd_conv_nth)
  then have "is_char_boundary pat ?k" using long by (simp add: is_char_boundary_def)
  with longest_suffix_prefix_len_ge [of ?k p pat] suf long j show ?thesis by simp
qed

lemma find_str_drop_None: "find_str pat p = None \<Longrightarrow> find_str pat (drop d p) = None"
  by (cases "d \<le> length p") (auto simp: find_str_None_iff add.commute le_diff_conv2)

lemma find_str_skip_kept:
  assumes none: "find_str pat p = None" and t: "str_start t"
    and d: "d + longest_suffix_prefix_len p pat \<le> length p"
  shows "find_str pat (p @ t) = map_option ((+) d) (find_str pat (drop d p @ t))"
proof -
  have "\<not> prefix pat (drop j (p @ t))" if "j < d" for j
    using occurrence_in_kept_suffix [OF none _ _ t, of j] that d by auto
  with find_str_skip [of d "p @ t" pat] d show ?thesis by simp
qed

lemma find_in_set: "List.find P xs = Some x \<Longrightarrow> x \<in> set xs"
  by (auto simp: find_Some_iff)

lemma longest_suffix_prefix_len_le: "longest_suffix_prefix_len s needle \<le> length s"
  by (auto simp: longest_suffix_prefix_len_def simp del: upt_Suc
      split: option.splits dest!: find_in_set)

lemma fold_max_ge: "(a::nat) \<le> fold max xs a" "x \<in> set xs \<Longrightarrow> x \<le> fold max xs a"
proof -
  have "a \<le> fold max xs a \<and> (\<forall>x \<in> set xs. x \<le> fold max xs a)"
  proof (induction xs arbitrary: a)
    case (Cons y xs)
    from Cons [of "max y a"] show ?case by auto
  qed simp
  then show "a \<le> fold max xs a" "x \<in> set xs \<Longrightarrow> x \<le> fold max xs a" by blast+
qed

lemma fold_max_le: "\<forall>x \<in> set xs. (x::nat) \<le> b \<Longrightarrow> a \<le> b \<Longrightarrow> fold max xs a \<le> b"
  by (induction xs arbitrary: a) simp_all

lemma max_open_ge:
  "sp \<in> set sps \<Longrightarrow> longest_suffix_prefix_len s (spec_open sp) \<le> max_open_prefix_suffix_len sps s"
  by (auto simp: max_open_prefix_suffix_len_def intro!: fold_max_ge(2))

lemma max_open_le: "max_open_prefix_suffix_len sps s \<le> length s"
  by (auto simp: max_open_prefix_suffix_len_def longest_suffix_prefix_len_le intro!: fold_max_le)

subsection \<open>More text does not change what was found\<close>

definition wf_specs :: "'g inline_tag_spec list \<Rightarrow> bool" where
  "wf_specs sps = (\<forall>sp \<in> set sps. spec_open sp \<noteq> [] \<and> spec_close sp \<noteq> [])"

text \<open>No opening delimiter occurs inside another one.\<close>

definition infix_free :: "'g inline_tag_spec list \<Rightarrow> bool" where
  "infix_free sps =
     (\<forall>k < length sps. \<forall>k' < length sps. k \<noteq> k' \<longrightarrow>
        \<not> sublist (spec_open (sps ! k)) (spec_open (sps ! k')))"

lemma sublist_of_window:
  assumes "prefix q (drop j s)" and "prefix pat (drop i s)" and "j \<le> i"
    and "i + length pat \<le> j + length q"
  shows "sublist pat q"
proof -
  have "drop (i - j) (take (length q) (drop j s)) = drop (i - j) q"
    using prefix_take [OF assms(1)] by simp
  moreover have "drop (i - j) (take (length q) (drop j s)) = take (length q - (i - j)) (drop i s)"
    using assms(3) by (simp add: drop_take)
  ultimately have "drop (i - j) q = take (length q - (i - j)) (drop i s)" by simp
  moreover have "length pat \<le> length q - (i - j)" using assms(3,4) by simp
  ultimately have "take (length pat) (drop (i - j) q) = take (length pat) (drop i s)"
    by (simp add: min.absorb1)
  also have "\<dots> = pat" by (rule prefix_take [OF assms(2)])
  finally have "prefix pat (drop (i - j) q)" by (metis take_is_prefix)
  then show ?thesis by (metis sublist_def prefix_def append_take_drop_id)
qed

lemma find_next_open_append:
  assumes free: "infix_free sps" and found: "find_next_open sps p = Some (i, k)"
  shows "find_next_open sps (p @ t) = Some (i, k)"
  unfolding find_next_open_Some
proof (intro conjI allI impI)
  from found show k: "k < length sps" and "find_str (spec_open (sps ! k)) (p @ t) = Some i"
    by (auto simp: find_next_open_Some find_str_append)
  have i: "find_str (spec_open (sps ! k)) p = Some i" using found by (simp add: find_next_open_Some)
  fix k' j
  assume k': "k' < length sps" and j: "find_str (spec_open (sps ! k')) (p @ t) = Some j"
  show "\<not> candidate_less (j, length (spec_open (sps ! k')), k') (i, length (spec_open (sps ! k)), k)"
  proof (cases "find_str (spec_open (sps ! k')) p")
    case (Some j')
    with find_str_append [OF Some, of t] j have "j' = j" by simp
    with Some found k' show ?thesis by (simp add: find_next_open_Some)
  next
    case None
    with i have neq: "k \<noteq> k'" by auto
    have "i < j"
    proof (rule ccontr)
      assume "\<not> i < j"
      have "\<not> j + length (spec_open (sps ! k')) \<le> length p"
      proof
        assume "j + length (spec_open (sps ! k')) \<le> length p"
        with j have "prefix (spec_open (sps ! k')) (drop j p)"
          by (auto simp: find_str_Some_iff dest!: prefix_take)
             (metis take_is_prefix append_take_drop_id)
        with None \<open>j + _ \<le> _\<close> show False by (auto simp: find_str_None_iff)
      qed
      with find_str_bound [OF i] have "i + length (spec_open (sps ! k)) \<le> j + length (spec_open (sps ! k'))"
        by simp
      moreover from find_str_append [OF i, of t] j have
        "prefix (spec_open (sps ! k)) (drop i (p @ t))" "prefix (spec_open (sps ! k')) (drop j (p @ t))"
        by (simp_all add: find_str_Some_iff)
      ultimately have "sublist (spec_open (sps ! k)) (spec_open (sps ! k'))"
        using sublist_of_window \<open>\<not> i < j\<close> by (metis not_less)
      with free k k' neq show False by (auto simp: infix_free_def)
    qed
    then show ?thesis by simp
  qed
qed

lemma find_next_open_skip:
  assumes none: "find_next_open sps p = None" and t: "str_start t"
    and d: "d = length p - max_open_prefix_suffix_len sps p"
  shows "find_next_open sps (p @ t) =
    map_option (\<lambda>(i, k). (d + i, k)) (find_next_open sps (drop d p @ t))"
proof -
  have skip: "find_str (spec_open sp) (p @ t) =
      map_option ((+) d) (find_str (spec_open sp) (drop d p @ t))" if "sp \<in> set sps" for sp
  proof (rule find_str_skip_kept [OF _ t])
    show "find_str (spec_open sp) p = None" using none that by (simp add: find_next_open_None)
    show "d + longest_suffix_prefix_len p (spec_open sp) \<le> length p"
      using max_open_ge [OF that, of p] max_open_le [of sps p] d by simp
  qed
  show ?thesis
  proof (cases "find_next_open sps (drop d p @ t)")
    case None
    then have "find_next_open sps (p @ t) = None" using skip by (simp add: find_next_open_None)
    with None show ?thesis by simp
  next
    case (Some ik)
    obtain i k where ik: "ik = (i, k)" by (cases ik)
    from Some ik have found: "k < length sps" "find_str (spec_open (sps ! k)) (drop d p @ t) = Some i"
      and best: "\<And>k' j. k' < length sps \<Longrightarrow> find_str (spec_open (sps ! k')) (drop d p @ t) = Some j \<Longrightarrow>
        \<not> candidate_less (j, length (spec_open (sps ! k')), k') (i, length (spec_open (sps ! k)), k)"
      by (simp_all add: find_next_open_Some del: candidate_less.simps)
    have "find_next_open sps (p @ t) = Some (d + i, k)"
      unfolding find_next_open_Some
    proof (intro conjI allI impI)
      show "k < length sps" by (rule found)
      show "find_str (spec_open (sps ! k)) (p @ t) = Some (d + i)"
        using skip [OF nth_mem [OF found(1)]] found(2) by simp
      fix k' j
      assume k': "k' < length sps" and "find_str (spec_open (sps ! k')) (p @ t) = Some j"
      with skip [OF nth_mem [OF k']] obtain j0
        where "j = d + j0" "find_str (spec_open (sps ! k')) (drop d p @ t) = Some j0"
        by (cases "find_str (spec_open (sps ! k')) (drop d p @ t)") auto
      with best [OF k'] show
        "\<not> candidate_less (j, length (spec_open (sps ! k')), k') (d + i, length (spec_open (sps ! k)), k)"
        by simp
    qed
    with Some ik show ?thesis by simp
  qed
qed

subsection \<open>The loop computes the specification\<close>

lemma chunk_simps:
  "push_visible t out = chunk_append out (visible_chunk t)"
  "push_extracted (act_tag act) (act_content act @ t) out = chunk_append out (extracted_chunk act t)"
  "chunk_append (visible_chunk s) (visible_chunk t) = visible_chunk (s @ t)"
  "extracted_chunk (act\<lparr>act_content := act_content act @ s\<rparr>) t = extracted_chunk act (s @ t)"
  by (simp_all add: push_visible_def push_extracted_def chunk_append_def visible_chunk_def
      extracted_chunk_def)

lemma visible_chunk_append:
  "chunk_append (visible_chunk s) (chunk_append (visible_chunk t) c) = chunk_append (visible_chunk (s @ t)) c"
  by (simp add: chunk_append_assoc [symmetric] chunk_simps)

lemma find_next_open_bound:
  "find_next_open sps s = Some (i, k) \<Longrightarrow>
     k < length sps \<and> i + length (spec_open (sps ! k)) \<le> length s"
  by (auto simp: find_next_open_Some dest: find_str_bound)

lemma strip_tags_open:
  assumes "wf_specs sps" and "find_next_open sps s = Some (i, k)"
  shows "strip_tags sps None s = chunk_append (visible_chunk (take i s))
    (strip_tags sps (Some (open_tag (sps ! k))) (drop (i + length (spec_open (sps ! k))) s))"
proof -
  from find_next_open_bound [OF assms(2)] have k: "sps ! k \<in> set sps"
    and "i + length (spec_open (sps ! k)) \<le> length s" by auto
  moreover from k assms(1) have "spec_open (sps ! k) \<noteq> []" by (auto simp: wf_specs_def)
  ultimately show ?thesis using assms(2) by (auto simp: strip_tags.simps)
qed

lemma strip_tags_close:
  assumes "act_close act \<noteq> []" and "find_str (act_close act) s = Some i"
  shows "strip_tags sps (Some act) s = chunk_append (extracted_chunk act (take i s))
    (strip_tags sps None (drop (i + length (act_close act)) s))"
  using assms find_str_bound [OF assms(2)] by (auto simp: strip_tags.simps)

lemma skip_split:
  assumes "d \<le> length p"
  shows "take (d + i) (p @ t) = take d p @ take i (drop d p @ t)"
    and "drop (d + i + n) (p @ t) = drop (i + n) (drop d p @ t)"
    and "take d p @ drop d p @ t = p @ t"
proof -
  have eq: "p @ t = take d p @ (drop d p @ t)" and len: "length (take d p) = d" using assms by simp_all
  show "take (d + i) (p @ t) = take d p @ take i (drop d p @ t)"
    by (subst eq) (simp only: take_append len, simp)
  show "drop (d + i + n) (p @ t) = drop (i + n) (drop d p @ t)"
    by (subst eq) (simp only: drop_append len, simp)
qed simp

lemma strip_tags_skip_visible:
  assumes wf: "wf_specs sps" and none: "find_next_open sps p = None" and t: "str_start t"
    and d: "d = length p - max_open_prefix_suffix_len sps p"
  shows "strip_tags sps None (p @ t) =
    chunk_append (visible_chunk (take d p)) (strip_tags sps None (drop d p @ t))"
proof (cases "find_next_open sps (drop d p @ t)")
  case None
  with find_next_open_skip [OF none t d] have "find_next_open sps (p @ t) = None" by simp
  with None show ?thesis using d by (simp add: strip_tags.simps chunk_simps skip_split)
next
  case (Some ik)
  obtain i k where ik: "ik = (i, k)" by (cases ik)
  with Some find_next_open_skip [OF none t d]
  have found: "find_next_open sps (p @ t) = Some (d + i, k)" by simp
  have "d \<le> length p" using d by simp
  note split = skip_split(1,2) [OF this]
  show ?thesis
    using strip_tags_open [OF wf found] strip_tags_open [OF wf, of "drop d p @ t" i k] Some ik
    by (simp add: split visible_chunk_append del: drop_append take_append)
qed

lemma strip_tags_skip_content:
  assumes none: "find_str (act_close act) p = None" and t: "str_start t" and ne: "act_close act \<noteq> []"
    and d: "d = length p - longest_suffix_prefix_len p (act_close act)"
  shows "strip_tags sps (Some act) (p @ t) =
    strip_tags sps (Some (act\<lparr>act_content := act_content act @ take d p\<rparr>)) (drop d p @ t)"
    (is "_ = strip_tags sps (Some ?act) _")
proof -
  have skip: "find_str (act_close act) (p @ t) =
      map_option ((+) d) (find_str (act_close act) (drop d p @ t))"
    using find_str_skip_kept [OF none t] longest_suffix_prefix_len_le [of p "act_close act"] d by simp
  have "d \<le> length p" using d by simp
  note split = skip_split [OF this]
  show ?thesis
  proof (cases "find_str (act_close act) (drop d p @ t)")
    case None
    with skip show ?thesis by (simp add: strip_tags.simps chunk_simps split(3))
  next
    case (Some i)
    with skip have "find_str (act_close act) (p @ t) = Some (d + i)" by simp
    from strip_tags_close [OF ne this] strip_tags_close [of ?act "drop d p @ t" i] Some ne
    show ?thesis by (simp add: split(1,2) chunk_simps del: drop_append take_append)
  qed
qed

definition active_ok :: "'g active_tag option \<Rightarrow> bool" where
  "active_ok a = (case a of None \<Rightarrow> True | Some act \<Rightarrow> act_close act \<noteq> [])"

text \<open>No complete delimiter is left in the buffer.\<close>

definition settled :: "'g inline_tag_spec list \<Rightarrow> 'g active_tag option \<Rightarrow> string \<Rightarrow> bool" where
  "settled sps a pend =
     (case a of
        None \<Rightarrow> find_next_open sps pend = None
      | Some act \<Rightarrow> find_str (act_close act) pend = None)"

fun remaining :: "'g inline_tag_spec list \<Rightarrow> 'g inline_state \<Rightarrow> string \<Rightarrow> 'g inline_chunk" where
  "remaining sps (act, pend, out) t = chunk_append out (strip_tags sps act (pend @ t))"

lemma inline_step_continue:
  assumes wf: "wf_specs sps" "infix_free sps" and ok: "active_ok act"
    and step: "inline_step sps (act, pend, out) = Inl (act', pend', out')"
  shows "active_ok act' \<and> length pend' < length pend \<and>
    remaining sps (act', pend', out') t = remaining sps (act, pend, out) t"
proof (cases act)
  case (Some a)
  with step obtain i where i: "find_str (act_close a) pend = Some i"
    and st: "act' = None" "pend' = drop (i + length (act_close a)) pend"
      "out' = push_extracted (act_tag a) (act_content a @ take i pend) out"
    by (auto split: option.splits simp: Let_def)
  from ok Some have ne: "act_close a \<noteq> []" by (simp add: active_ok_def)
  from find_str_bound [OF i] have "length pend' < length pend" using st ne by (cases "act_close a") auto
  with strip_tags_close [OF ne find_str_append [OF i], of sps t] st Some find_str_bound [OF i]
  show ?thesis by (simp add: chunk_simps chunk_append_assoc active_ok_def)
next
  case None
  with step obtain i k where ik: "find_next_open sps pend = Some (i, k)"
    and st: "act' = Some (open_tag (sps ! k))" "pend' = drop (i + length (spec_open (sps ! k))) pend"
      "out' = push_visible (take i pend) out"
    by (auto split: option.splits simp: Let_def open_tag_def)
  from find_next_open_bound [OF ik] have k: "sps ! k \<in> set sps"
    and le: "i + length (spec_open (sps ! k)) \<le> length pend" by auto
  from k wf(1) have ne: "spec_open (sps ! k) \<noteq> []" "spec_close (sps ! k) \<noteq> []"
    by (auto simp: wf_specs_def)
  then have "length pend' < length pend" using st le by (cases "spec_open (sps ! k)") auto
  with strip_tags_open [OF wf(1) find_next_open_append [OF wf(2) ik], of t] st None le ne
  show ?thesis by (simp add: chunk_simps chunk_append_assoc active_ok_def open_tag_def)
qed

lemma inline_step_break:
  assumes wf: "wf_specs sps" and ok: "active_ok act" and t: "str_start t"
    and step: "inline_step sps (act, pend, out) = Inr (act', pend', out')"
  shows "active_ok act' \<and> settled sps act' pend' \<and>
    remaining sps (act', pend', out') t = remaining sps (act, pend, out) t"
proof (cases act)
  case (Some a)
  with step have none: "find_str (act_close a) pend = None"
    by (auto split: option.splits)
  from ok Some have ne: "act_close a \<noteq> []" by (simp add: active_ok_def)
  with strip_tags_skip_content [OF none t ne refl] step Some none show ?thesis
    by (auto simp: Let_def active_ok_def settled_def find_str_drop_None)
next
  case None
  with step have none: "find_next_open sps pend = None"
    by (auto split: option.splits simp: Let_def)
  with strip_tags_skip_visible [OF wf none t refl] step None show ?thesis
    by (auto simp: Let_def active_ok_def settled_def find_next_open_None find_str_drop_None
        chunk_simps chunk_append_assoc)
qed

text \<open>Enough fuel: more than the length of the buffer.\<close>

lemma inline_loop_total:
  assumes "wf_specs sps" "infix_free sps" and "active_ok act" and "length pend < fuel"
  shows "\<exists>act' pend' out'. inline_loop fuel sps (act, pend, out) = Some (act', pend', out') \<and>
    active_ok act' \<and> settled sps act' pend' \<and>
    (\<forall>t. str_start t \<longrightarrow> remaining sps (act', pend', out') t = remaining sps (act, pend, out) t)"
  using assms(3,4)
proof (induction fuel arbitrary: act pend out)
  case (Suc fuel)
  show ?case
  proof (cases "inline_step sps (act, pend, out)")
    case (Inl st)
    obtain a p c where st: "st = (a, p, c)" by (cases st)
    note step = inline_step_continue [OF assms(1,2) Suc.prems(1) Inl [unfolded st]]
    from step have "active_ok a" "length p < length pend" by blast+
    with Suc.prems(2) have "active_ok a" "length p < fuel" by simp_all
    from Suc.IH [OF this, of c] step Inl st show ?thesis by simp
  next
    case (Inr st)
    obtain a p c where st: "st = (a, p, c)" by (cases st)
    note step = inline_step_break [OF assms(1) Suc.prems(1) _ Inr [unfolded st]]
    from step [OF str_start_Nil] have "active_ok a" "settled sps a p" by simp_all
    with step Inr st show ?thesis by simp
  qed
qed simp

subsection \<open>The parser is a stream parser\<close>

definition inline_inv :: "'g inline_hidden_tag_parser \<Rightarrow> bool" where
  "inline_inv p = (wf_specs (specs p) \<and> infix_free (specs p) \<and> active_ok (active p) \<and>
     settled (specs p) (active p) (pending p))"

definition inline_rest :: "'g inline_hidden_tag_parser \<Rightarrow> string \<Rightarrow> 'g inline_chunk" where
  "inline_rest p t = strip_tags (specs p) (active p) (pending p @ t)"

lemma inline_push_str_correct:
  assumes "inline_inv p" and "str_start c"
  shows "\<exists>p' out. inline_push_str p c = Some (p', out) \<and> inline_inv p' \<and> specs p' = specs p \<and>
    (\<forall>t. str_start t \<longrightarrow> inline_rest p (c @ t) = chunk_append out (inline_rest p' t))"
proof -
  from inline_loop_total [of "specs p" "active p" "pending p @ c" "Suc (length (pending p @ c))" empty_chunk]
    assms(1)
  obtain act' pend' out' where
    "inline_loop (Suc (length (pending p @ c))) (specs p) (active p, pending p @ c, empty_chunk) =
       Some (act', pend', out')" "active_ok act'" "settled (specs p) act' pend'"
    "\<And>t. str_start t \<Longrightarrow> remaining (specs p) (act', pend', out') t =
       remaining (specs p) (active p, pending p @ c, empty_chunk) t"
    by (auto simp: inline_inv_def)
  with assms(1) show ?thesis
    by (simp add: inline_push_str_def inline_inv_def inline_rest_def Let_def del: inline_loop.simps)
qed

lemma inline_finish_rest:
  assumes "inline_inv p"
  shows "inline_rest p [] = snd (inline_finish p)"
proof (cases "active p")
  case None
  with assms show ?thesis
    by (simp add: inline_inv_def inline_rest_def inline_finish_def settled_def strip_tags.simps(1) chunk_simps)
next
  case (Some act)
  with assms show ?thesis
    by (simp add: inline_inv_def inline_rest_def inline_finish_def settled_def strip_tags.simps(2) chunk_simps)
qed

interpretation hidden_tags: stream_text_parser inline_push_str inline_finish str_start inline_inv inline_rest
  chunk_append empty_chunk
proof (unfold_locales, rule str_start_Nil, erule (1) str_start_append)
  fix s :: "'g inline_hidden_tag_parser" and a s' c b
  assume inv: "inline_inv s"
  show "inline_rest s [] = chunk_append (snd (inline_finish s)) empty_chunk"
    using inline_finish_rest [OF inv] by simp
  assume a: "str_start a"
  from inline_push_str_correct [OF inv a] show "inline_push_str s a \<noteq> None" by auto
  assume push: "inline_push_str s a = Some (s', c)"
  from inline_push_str_correct [OF inv a] push show "inline_inv s'" by auto
  assume "str_start b"
  with inline_push_str_correct [OF inv a] push
  show "inline_rest s (a @ b) = chunk_append c (inline_rest s' b)" by auto
qed

lemma new_inline_parser_inv:
  assumes "new_inline_parser sps = Some p" and "infix_free sps"
  shows "inline_inv p" and "specs p = sps" and "active p = None" and "pending p = []"
proof -
  from assms(1) have wf: "wf_specs sps" and p: "p = \<lparr>specs = sps, pending = [], active = None\<rparr>"
    by (auto simp: new_inline_parser_def wf_specs_def list_all_iff split: if_splits)
  then have "find_next_open sps [] = None" by (auto simp: find_next_open_None wf_specs_def)
  with assms(2) wf p show "inline_inv p" and "specs p = sps" and "active p = None" and "pending p = []"
    by (simp_all add: inline_inv_def active_ok_def settled_def)
qed

text \<open>C21: Streaming equals parsing at once: a parser for any set of delimiter pairs none of
  whose opening delimiters occurs inside another returns for every chunk, and the
  outputs together are the specification on the whole text, however it was cut.\<close>

theorem inline_chunks_strip_tags:
  assumes "new_inline_parser sps = Some p" and "infix_free sps" and "list_all str_start cs"
  shows "\<exists>outs. run_parser inline_push_str inline_finish p cs = Some outs \<and>
    foldr chunk_append outs empty_chunk = strip_tags sps None (concat cs)"
  using hidden_tags.run_rest [OF new_inline_parser_inv(1) [OF assms(1,2)] assms(3)]
    new_inline_parser_inv [OF assms(1,2)]
  by (simp add: inline_rest_def)

definition ab_specs :: "nat inline_tag_spec list" where
  "ab_specs = [\<lparr>spec_tag = 0, spec_open = ''<a>'', spec_close = ''</a>''\<rparr>,
               \<lparr>spec_tag = 1, spec_open = ''<b>'', spec_close = ''</b>''\<rparr>]"

definition ab_parser :: "nat inline_hidden_tag_parser" where
  "ab_parser = \<lparr>specs = ab_specs, pending = [], active = None\<rparr>"

theorem inline_chunks_strip_tags_witness:
  "new_inline_parser ab_specs = Some ab_parser \<and> infix_free ab_specs \<and>
   (\<exists>outs. run_parser inline_push_str inline_finish ab_parser [''1<'', ''a>x<b>y</'', ''a>2<b'', ''>z''] = Some outs \<and>
    foldr chunk_append outs empty_chunk = strip_tags ab_specs None ''1<a>x<b>y</a>2<b>z'')"
proof -
  have new: "new_inline_parser ab_specs = Some ab_parser"
    by (simp add: new_inline_parser_def ab_specs_def ab_parser_def)
  have free: "infix_free ab_specs"
    by (auto simp: infix_free_def ab_specs_def numeral_2_eq_2 less_Suc_eq sublist_code)
  show ?thesis
    using inline_chunks_strip_tags [OF new free, of "[''1<'', ''a>x<b>y</'', ''a>2<b'', ''>z'']"] new free
    by (simp add: str_start_def is_cont_byte_def)
qed

text \<open>The condition on the delimiters is needed: with one opening delimiter a prefix of
  another, what is found depends on where a chunk ends.\<close>

lemma nested_openers_depend_on_chunks:
  defines "sps \<equiv> [\<lparr>spec_tag = 0 :: nat, spec_open = ''<a'', spec_close = ''>''\<rparr>,
                  \<lparr>spec_tag = 1, spec_open = ''<ab'', spec_close = ''>''\<rparr>]"
  shows "run_parser inline_push_str inline_finish \<lparr>specs = sps, pending = [], active = None\<rparr> [''<ab>'']
      = Some [\<lparr>visible_text = [], extracted = [\<lparr>ext_tag = 1, ext_content = []\<rparr>]\<rparr>, empty_chunk]"
    and "run_parser inline_push_str inline_finish \<lparr>specs = sps, pending = [], active = None\<rparr> [''<a'', ''b>'']
      = Some [empty_chunk, \<lparr>visible_text = [], extracted = [\<lparr>ext_tag = 0, ext_content = ''b''\<rparr>]\<rparr>, empty_chunk]"
  unfolding sps_def by code_simp+

end
