(* ===== verification/Citation.thy ===== *)
theory Citation
  imports Inline_Hidden_Tag
begin

section \<open>Citations\<close>

text \<open>
  A model of \<^verbatim>\<open>codex-rs/utils/stream-parser/src/citation.rs\<close>: the hidden tag parser with one
  delimiter pair, returning the bodies as strings.  The theorems: the outputs do not
  depend on the chunks and are those of \<open>strip_citations\<close>, and \<open>strip_citations\<close> inverts
  writing citations between pieces of text.
\<close>

datatype citation_tag = Citation

definition CITATION_OPEN :: string where
  "CITATION_OPEN = ''<oai-mem-citation>''"

definition CITATION_CLOSE :: string where
  "CITATION_CLOSE = ''</oai-mem-citation>''"

type_synonym citation_stream_parser = "citation_tag inline_hidden_tag_parser"

definition citation_specs :: "citation_tag inline_tag_spec list" where
  "citation_specs = [\<lparr>spec_tag = Citation, spec_open = CITATION_OPEN, spec_close = CITATION_CLOSE\<rparr>]"

definition new_citation_parser :: "citation_stream_parser option" where
  "new_citation_parser = new_inline_parser citation_specs"

definition citation_chunk :: "'g inline_chunk \<Rightarrow> string stream_text_chunk" where
  "citation_chunk c = \<lparr>visible_text = visible_text c, extracted = map ext_content (extracted c)\<rparr>"

definition citation_push_str ::
  "citation_stream_parser \<Rightarrow> string \<Rightarrow> (citation_stream_parser \<times> string stream_text_chunk) option"
where
  "citation_push_str p chunk =
     map_option (\<lambda>(p', c). (p', citation_chunk c)) (inline_push_str p chunk)"

definition citation_finish :: "citation_stream_parser \<Rightarrow> citation_stream_parser \<times> string stream_text_chunk" where
  "citation_finish p = (let (p', c) = inline_finish p in (p', citation_chunk c))"

definition strip_citations :: "string \<Rightarrow> (string \<times> string list) option" where
  "strip_citations t =
     (case new_citation_parser of
        None \<Rightarrow> None
      | Some p \<Rightarrow>
          (case citation_push_str p t of
             None \<Rightarrow> None
           | Some (p', out) \<Rightarrow>
               (let tail = snd (citation_finish p') in
                Some (visible_text out @ visible_text tail, extracted out @ extracted tail))))"

subsection \<open>The contract\<close>

definition citation_rest :: "citation_stream_parser \<Rightarrow> string \<Rightarrow> string stream_text_chunk" where
  "citation_rest p t = citation_chunk (inline_rest p t)"

lemma citation_chunk_append:
  "citation_chunk (chunk_append a b) = chunk_append (citation_chunk a) (citation_chunk b)"
  by (simp add: citation_chunk_def chunk_append_def)

interpretation citations: stream_text_parser citation_push_str citation_finish str_start inline_inv citation_rest
  chunk_append empty_chunk
proof (unfold_locales, rule str_start_Nil, erule (1) str_start_append)
  fix s :: citation_stream_parser and a s' c b
  assume inv: "inline_inv s"
  show "citation_rest s [] = chunk_append (snd (citation_finish s)) empty_chunk"
    using inline_finish_rest [OF inv] by (simp add: citation_rest_def citation_finish_def split: prod.split)
  assume a: "str_start a"
  then show "citation_push_str s a \<noteq> None"
    using hidden_tags.push_total [OF inv] by (simp add: citation_push_str_def)
  assume "citation_push_str s a = Some (s', c)"
  then obtain c' where push: "inline_push_str s a = Some (s', c')" "c = citation_chunk c'"
    by (auto simp: citation_push_str_def)
  show "inline_inv s'" by (rule hidden_tags.push_inv [OF inv a push(1)])
  assume "str_start b"
  then show "citation_rest s (a @ b) = chunk_append c (citation_rest s' b)"
    using hidden_tags.push_rest [OF inv a push(1)] push(2)
    by (simp add: citation_rest_def citation_chunk_append)
qed

definition citation_parser :: citation_stream_parser where
  "citation_parser = \<lparr>specs = citation_specs, pending = [], active = None\<rparr>"

lemma new_citation_parser_eq: "new_citation_parser = Some citation_parser"
  by (simp add: new_citation_parser_def new_inline_parser_def citation_specs_def citation_parser_def
      CITATION_OPEN_def CITATION_CLOSE_def)

lemma citation_parser_inv: "inline_inv citation_parser"
  by (rule new_inline_parser_inv(1) [of citation_specs])
    (simp_all add: new_citation_parser_eq [unfolded new_citation_parser_def],
      simp add: infix_free_def citation_specs_def)

lemma strip_citations_spec:
  assumes "str_start t"
  shows "strip_citations t =
    (let c = citation_chunk (strip_tags citation_specs None t) in Some (visible_text c, extracted c))"
proof -
  obtain p out where push: "citation_push_str citation_parser t = Some (p, out)"
    and parts: "citation_rest citation_parser t = chunk_append out (snd (citation_finish p))"
    using citations.run_whole [OF citation_parser_inv assms] by fastforce
  have "citation_rest citation_parser t = citation_chunk (strip_tags citation_specs None t)"
    by (simp add: citation_rest_def inline_rest_def citation_parser_def)
  with parts push show ?thesis
    by (simp add: strip_citations_def new_citation_parser_eq Let_def chunk_append_def)
qed

text \<open>However a text is cut into chunks, the citation parser returns for every chunk and
  its outputs together are what \<open>strip_citations\<close> returns for the whole text.\<close>

lemma citation_chunks_strip_citations:
  assumes "list_all str_start cs"
  shows "\<exists>p outs. new_citation_parser = Some p \<and>
    run_parser citation_push_str citation_finish p cs = Some outs \<and>
    strip_citations (concat cs) = Some (concat (map visible_text outs), concat (map extracted outs))"
proof -
  from citations.run_rest [OF citation_parser_inv assms] obtain outs where
    run: "run_parser citation_push_str citation_finish citation_parser cs = Some outs"
    and all: "foldr chunk_append outs empty_chunk = citation_rest citation_parser (concat cs)" by auto
  have "foldr chunk_append outs empty_chunk =
      \<lparr>visible_text = concat (map visible_text outs), extracted = concat (map extracted outs)\<rparr>"
    for outs :: "string stream_text_chunk list"
    by (induction outs) (simp_all add: empty_chunk_def chunk_append_def)
  then have "citation_chunk (strip_tags citation_specs None (concat cs)) =
      \<lparr>visible_text = concat (map visible_text outs), extracted = concat (map extracted outs)\<rparr>"
    using all by (simp add: citation_rest_def inline_rest_def citation_parser_def)
  with run strip_citations_spec [OF str_start_concat [OF assms]] show ?thesis
    by (simp add: new_citation_parser_eq)
qed

subsection \<open>Writing citations and stripping them\<close>

text \<open>Text with citations: each pair is a piece of text and the citation after it.\<close>

definition write_citations :: "(string \<times> string) list \<Rightarrow> string \<Rightarrow> string" where
  "write_citations xs final =
     concat (map (\<lambda>(v, c). v @ CITATION_OPEN @ c @ CITATION_CLOSE) xs) @ final"

text \<open>A delimiter whose first character does not recur in it is found where it was written.\<close>

lemma find_str_written:
  assumes none: "find_str (x # ps) v = None" and x: "x \<notin> set ps"
  shows "find_str (x # ps) (v @ (x # ps) @ t) = Some (length v)"
  unfolding find_str_Some_iff
proof (intro conjI allI impI notI)
  fix j
  assume j: "j < length v" and "prefix (x # ps) (drop j (v @ (x # ps) @ t))"
  then have occ: "take (length (x # ps)) (drop j v @ (x # ps) @ t) = x # ps"
    using prefix_take by fastforce
  let ?k = "length v - j"
  show False
  proof (cases "?k < length (x # ps)")
    case True
    then have "(x # ps) ! ?k = take (length (x # ps)) (drop j v @ (x # ps) @ t) ! ?k" by (simp only: occ)
    also have "\<dots> = x" using True by (simp add: nth_append)
    finally have "ps ! (?k - 1) = x" using j by (simp add: nth_Cons')
    moreover have "?k - 1 < length ps" using True j by auto
    ultimately show False using x nth_mem by metis
  next
    case False
    then have "prefix (x # ps) (drop j v)" using occ by (metis append_eq_conv_conj length_drop
          linorder_not_less take_append take_is_prefix diff_is_0_eq take0 append_Nil2)
    with none j show False by (auto simp: find_str_None_iff)
  qed
qed simp_all

lemma citation_delimiters:
  "find_str CITATION_OPEN v = None \<Longrightarrow> find_str CITATION_OPEN (v @ CITATION_OPEN @ t) = Some (length v)"
  "find_str CITATION_CLOSE c = None \<Longrightarrow> find_str CITATION_CLOSE (c @ CITATION_CLOSE @ t) = Some (length c)"
  by (simp_all only: CITATION_OPEN_def CITATION_CLOSE_def) (rule find_str_written; simp)+

lemma find_next_citation:
  "find_next_open citation_specs s = map_option (\<lambda>i. (i, 0)) (find_str CITATION_OPEN s)"
  by (cases "find_str CITATION_OPEN s")
    (simp_all add: find_next_open_def open_candidates_def citation_specs_def List.map_filter_def)

lemma strip_tags_written:
  assumes "find_str CITATION_OPEN v = None" and "find_str CITATION_CLOSE c = None"
  shows "strip_tags citation_specs None (v @ CITATION_OPEN @ c @ CITATION_CLOSE @ t) =
    chunk_append \<lparr>visible_text = v, extracted = [\<lparr>ext_tag = Citation, ext_content = c\<rparr>]\<rparr>
      (strip_tags citation_specs None t)"
proof -
  have wf: "wf_specs citation_specs" using citation_parser_inv by (simp add: inline_inv_def citation_parser_def)
  let ?act = "open_tag (citation_specs ! 0)"
  have act: "act_close ?act = CITATION_CLOSE" "CITATION_CLOSE \<noteq> []"
    by (simp_all add: open_tag_def citation_specs_def CITATION_CLOSE_def)
  have "strip_tags citation_specs (Some ?act) (c @ CITATION_CLOSE @ t) =
      chunk_append (extracted_chunk ?act c) (strip_tags citation_specs None t)"
    using strip_tags_close [of ?act "c @ CITATION_CLOSE @ t" "length c"] act
      citation_delimiters(2) [OF assms(2), of t] by simp
  moreover have "find_next_open citation_specs (v @ CITATION_OPEN @ c @ CITATION_CLOSE @ t) = Some (length v, 0)"
    using citation_delimiters(1) [OF assms(1)] by (simp add: find_next_citation)
  from strip_tags_open [OF wf this]
  have "strip_tags citation_specs None (v @ CITATION_OPEN @ c @ CITATION_CLOSE @ t) =
      chunk_append (visible_chunk v) (strip_tags citation_specs (Some ?act) (c @ CITATION_CLOSE @ t))"
    by (simp add: citation_specs_def)
  ultimately show ?thesis
    by (simp add: chunk_append_def visible_chunk_def extracted_chunk_def open_tag_def citation_specs_def)
qed

lemma strip_tags_write_citations:
  assumes "\<forall>(v, c) \<in> set xs. \<not> contains_str v CITATION_OPEN \<and> \<not> contains_str c CITATION_CLOSE"
    and "\<not> contains_str final CITATION_OPEN"
  shows "citation_chunk (strip_tags citation_specs None (write_citations xs final)) =
    \<lparr>visible_text = concat (map fst xs) @ final, extracted = map snd xs\<rparr>"
  using assms(1)
proof (induction xs)
  case Nil
  show ?case using assms(2)
    by (simp add: write_citations_def strip_tags.simps find_next_citation contains_str_def
        citation_chunk_def visible_chunk_def)
next
  case (Cons x xs)
  obtain v c where x: "x = (v, c)" by (cases x)
  with Cons.prems have "find_str CITATION_OPEN v = None" "find_str CITATION_CLOSE c = None"
    by (auto simp: contains_str_def)
  from strip_tags_written [OF this, of "write_citations xs final"] Cons x show ?case
    by (simp add: write_citations_def citation_chunk_append citation_chunk_def chunk_append_def)
qed

text \<open>Writing citations into a text and stripping them again returns the text and the
  citations in order, when no piece of text contains the opening delimiter and no
  citation the closing one.\<close>

lemma strip_citations_write_citations:
  assumes "\<forall>(v, c) \<in> set xs. \<not> contains_str v CITATION_OPEN \<and> \<not> contains_str c CITATION_CLOSE"
    and "\<not> contains_str final CITATION_OPEN" and "str_start (write_citations xs final)"
  shows "strip_citations (write_citations xs final) = Some (concat (map fst xs) @ final, map snd xs)"
  using strip_tags_write_citations [OF assms(1,2)] strip_citations_spec [OF assms(3)] by simp

end
