(* ===== verification/Tagged_Line.thy ===== *)
theory Tagged_Line
  imports Stream_Text
begin

section \<open>Tag blocks on lines of their own\<close>

text \<open>
  A model of \<^verbatim>\<open>codex-rs/utils/stream-parser/src/tagged_line_parser.rs\<close>: text is split into normal
  text and tag blocks, where a tag stands alone on its line.  A line is buffered only
  until it can no longer be a tag.  The specification buffers every line to its end
  (\<open>whole_lines\<close>); the theorem is that giving up early changes nothing but how the text
  is cut into segments, so segments are compared by their atoms, one per byte of text.
\<close>

subsection \<open>Data\<close>

record 'g tag_spec =
  ts_open :: string
  ts_close :: string
  ts_tag :: 'g

datatype 'g tagged_line_segment =
    Normal string
  | TagStart 'g
  | TagDelta 'g string
  | TagEnd 'g

record 'g tagged_line_parser =
  tl_specs :: "'g tag_spec list"
  active_tag :: "'g option"
  detect_tag :: bool
  line_buffer :: string

definition new_tagged_line :: "'g tag_spec list \<Rightarrow> 'g tagged_line_parser" where
  "new_tagged_line sps = \<lparr>tl_specs = sps, active_tag = None, detect_tag = True, line_buffer = []\<rparr>"

subsection \<open>Operations\<close>

text \<open>\<open>push_segment\<close>: empty text is dropped, text of the same kind is merged.\<close>

fun push_segment :: "'g tagged_line_segment list \<Rightarrow> 'g tagged_line_segment \<Rightarrow> 'g tagged_line_segment list" where
  "push_segment segs (Normal delta) =
     (if delta = [] then segs
      else (case rev segs of
              Normal existing # before \<Rightarrow> rev before @ [Normal (existing @ delta)]
            | _ \<Rightarrow> segs @ [Normal delta]))"
| "push_segment segs (TagDelta tag delta) =
     (if delta = [] then segs
      else (case rev segs of
              TagDelta existing_tag existing # before \<Rightarrow>
                if existing_tag = tag then rev before @ [TagDelta existing_tag (existing @ delta)]
                else segs @ [TagDelta tag delta]
            | _ \<Rightarrow> segs @ [TagDelta tag delta]))"
| "push_segment segs seg = segs @ [seg]"

definition push_text ::
  "'g tagged_line_parser \<Rightarrow> string \<Rightarrow> 'g tagged_line_segment list \<Rightarrow> 'g tagged_line_segment list"
where
  "push_text p t segs =
     (case active_tag p of
        Some tag \<Rightarrow> push_segment segs (TagDelta tag t)
      | None \<Rightarrow> push_segment segs (Normal t))"

definition is_tag_prefix :: "'g tag_spec list \<Rightarrow> string \<Rightarrow> bool" where
  "is_tag_prefix sps slug0 =
     (let slug = trim_end slug0
      in list_ex (\<lambda>sp. prefix slug (ts_open sp) \<or> prefix slug (ts_close sp)) sps)"

definition match_open :: "'g tag_spec list \<Rightarrow> string \<Rightarrow> 'g option" where
  "match_open sps slug = map_option ts_tag (List.find (\<lambda>sp. ts_open sp = slug) sps)"

definition match_close :: "'g tag_spec list \<Rightarrow> string \<Rightarrow> 'g option" where
  "match_close sps slug = map_option ts_tag (List.find (\<lambda>sp. ts_close sp = slug) sps)"

text \<open>The two guarded matches \<open>finish_line\<close> and \<open>finish\<close> share: the tag segment of a line.\<close>

definition line_marker :: "'g tag_spec list \<Rightarrow> 'g option \<Rightarrow> string \<Rightarrow> 'g tagged_line_segment option" where
  "line_marker sps act slug =
     (case match_open sps slug of
        Some tag \<Rightarrow>
          if act = None then Some (TagStart tag)
          else (case match_close sps slug of
                  Some tag' \<Rightarrow> if act = Some tag' then Some (TagEnd tag') else None
                | None \<Rightarrow> None)
      | None \<Rightarrow>
          (case match_close sps slug of
             Some tag' \<Rightarrow> if act = Some tag' then Some (TagEnd tag') else None
           | None \<Rightarrow> None))"

fun marked_tag :: "'g tagged_line_segment \<Rightarrow> 'g option" where
  "marked_tag (TagStart tag) = Some tag"
| "marked_tag _ = None"

definition line_slug :: "string \<Rightarrow> string" where
  "line_slug line =
     trim_end (trim_start (case strip_suffix [nl] line of Some l \<Rightarrow> l | None \<Rightarrow> line))"

definition finish_line ::
  "'g tagged_line_parser \<Rightarrow> 'g tagged_line_segment list \<Rightarrow> 'g tagged_line_parser \<times> 'g tagged_line_segment list"
where
  "finish_line p segs =
     (let line = line_buffer p; p' = p\<lparr>line_buffer := [], detect_tag := True\<rparr> in
      case line_marker (tl_specs p) (active_tag p) (line_slug line) of
        Some seg \<Rightarrow> (p'\<lparr>active_tag := marked_tag seg\<rparr>, push_segment segs seg)
      | None \<Rightarrow> (p', push_text p' line segs))"

text \<open>One character of \<open>parse\<close>, with the text of the current run.\<close>

type_synonym 'g parse_state =
  "'g tagged_line_parser \<times> string \<times> 'g tagged_line_segment list"

fun parse_char :: "string \<Rightarrow> 'g parse_state \<Rightarrow> 'g parse_state" where
  "parse_char ch (p, text_run, segs) =
     (if detect_tag p then
        (let segs = (if text_run \<noteq> [] then push_text p text_run segs else segs);
             p = p\<lparr>line_buffer := line_buffer p @ ch\<rparr>
         in if ch = [nl] then (let (p', segs') = finish_line p segs in (p', [], segs'))
            else (let slug = trim_start (line_buffer p) in
                  if slug = [] \<or> is_tag_prefix (tl_specs p) slug then (p, [], segs)
                  else (p\<lparr>line_buffer := [], detect_tag := False\<rparr>, [],
                        push_text p (line_buffer p) segs)))
      else
        (let text_run = text_run @ ch
         in if ch = [nl] then (p\<lparr>detect_tag := True\<rparr>, [], push_text p text_run segs)
            else (p, text_run, segs)))"

definition tl_parse :: "'g tagged_line_parser \<Rightarrow> string \<Rightarrow> 'g tagged_line_parser \<times> 'g tagged_line_segment list" where
  "tl_parse p delta =
     (let (p', text_run, segs) = fold parse_char (str_chars delta) (p, [], [])
      in (p', if text_run \<noteq> [] then push_text p' text_run segs else segs))"

definition tl_finish :: "'g tagged_line_parser \<Rightarrow> 'g tagged_line_parser \<times> 'g tagged_line_segment list" where
  "tl_finish p =
     (let (act, segs) =
        (if line_buffer p \<noteq> [] then
           (case line_marker (tl_specs p) (active_tag p) (line_slug (line_buffer p)) of
              Some seg \<Rightarrow> (marked_tag seg, push_segment [] seg)
            | None \<Rightarrow> (active_tag p, push_text p (line_buffer p) []))
         else (active_tag p, []));
        segs' = (case act of Some tag \<Rightarrow> push_segment segs (TagEnd tag) | None \<Rightarrow> segs)
      in (p\<lparr>line_buffer := [], active_tag := None, detect_tag := True\<rparr>, segs'))"

subsection \<open>Atoms and the specification\<close>

datatype 'g atom = ANormal char | AStart 'g | ADelta 'g char | AEnd 'g

fun seg_atoms :: "'g tagged_line_segment \<Rightarrow> 'g atom list" where
  "seg_atoms (Normal t) = map ANormal t"
| "seg_atoms (TagStart g) = [AStart g]"
| "seg_atoms (TagDelta g t) = map (ADelta g) t"
| "seg_atoms (TagEnd g) = [AEnd g]"

definition atoms :: "'g tagged_line_segment list \<Rightarrow> 'g atom list" where
  "atoms segs = concat (map seg_atoms segs)"

definition text_atoms :: "'g option \<Rightarrow> string \<Rightarrow> 'g atom list" where
  "text_atoms act t = (case act of None \<Rightarrow> map ANormal t | Some g \<Rightarrow> map (ADelta g) t)"

definition end_atoms :: "'g option \<Rightarrow> 'g atom list" where
  "end_atoms act = (case act of None \<Rightarrow> [] | Some g \<Rightarrow> [AEnd g])"

text \<open>A complete line: the tag it is, or its text.\<close>

definition line_atoms :: "'g tag_spec list \<Rightarrow> 'g option \<Rightarrow> string \<Rightarrow> 'g atom list \<times> 'g option" where
  "line_atoms sps act line =
     (case line_marker sps act (line_slug line) of
        Some seg \<Rightarrow> (seg_atoms seg, marked_tag seg)
      | None \<Rightarrow> (text_atoms act line, act))"

text \<open>Every line is buffered to its end and then classified.\<close>

fun whole_lines :: "'g tag_spec list \<Rightarrow> 'g option \<Rightarrow> string \<Rightarrow> string list \<Rightarrow> 'g atom list" where
  "whole_lines sps act line [] =
     (if line = [] then end_atoms act
      else (let (as, act') = line_atoms sps act line in as @ end_atoms act'))"
| "whole_lines sps act line (c # cs) =
     (if c = [nl] then (let (as, act') = line_atoms sps act (line @ c) in as @ whole_lines sps act' [] cs)
      else whole_lines sps act (line @ c) cs)"

text \<open>The rest of a line that is known to be text.\<close>

fun after_text :: "'g tag_spec list \<Rightarrow> 'g option \<Rightarrow> string list \<Rightarrow> 'g atom list" where
  "after_text sps act [] = end_atoms act"
| "after_text sps act (c # cs) =
     text_atoms act c @ (if c = [nl] then whole_lines sps act [] cs else after_text sps act cs)"

subsection \<open>Segments and atoms\<close>

lemma atoms_simps [simp]: "atoms [] = []" "atoms (a @ b) = atoms a @ atoms b" "atoms (s # a) = seg_atoms s @ atoms a"
  by (simp_all add: atoms_def)

lemma atoms_push_segment [simp]: "atoms (push_segment segs s) = atoms segs @ seg_atoms s"
proof -
  have rev: "rev segs = x # xs \<longleftrightarrow> segs = rev xs @ [x]" for x xs by (metis rev_rev_ident rev.simps(2))
  show ?thesis
    by (cases s) (auto simp: rev split: list.splits tagged_line_segment.splits)
qed

lemma atoms_push_text [simp]: "atoms (push_text p t segs) = atoms segs @ text_atoms (active_tag p) t"
  by (simp add: push_text_def text_atoms_def del: push_segment.simps split: option.split)

lemma text_atoms_append: "text_atoms act (s @ t) = text_atoms act s @ text_atoms act t"
  by (simp add: text_atoms_def split: option.split)

lemma text_atoms_Nil [simp]: "text_atoms act [] = []"
  by (simp add: text_atoms_def split: option.split)

subsection \<open>Trimming text that grows at its end\<close>

lemma ws_unit_tail: "u \<in> set ws_units \<Longrightarrow> list_all is_cont_byte (tl u)"
  by (auto simp: ws_units_def is_cont_byte_def)

lemma ws_unit_prefix_append:
  assumes u: "u \<in> set ws_units" and a: "a \<noteq> []" and b: "str_start b" and pre: "prefix u (a @ b)"
  shows "prefix u a"
proof (rule ccontr)
  assume "\<not> prefix u a"
  with pre obtain v where v: "u = a @ v" "v \<noteq> []" "prefix v b"
    by (metis append_Nil2 prefix_append prefix_order.refl)
  with a have "hd v \<in> set (tl u)" by (cases a) auto
  with ws_unit_tail [OF u] have "is_cont_byte (hd v)" by (auto simp: list_all_iff)
  moreover from v have "hd v = hd b" "b \<noteq> []" by (auto simp: prefix_def)
  ultimately show False using b by (simp add: str_start_def)
qed

lemma ws_unit_suffix_append:
  assumes u: "u \<in> set ws_units" and b: "b \<noteq> []" "str_start b" and suf: "suffix u (a @ b)"
  shows "suffix u b"
proof (rule ccontr)
  assume "\<not> suffix u b"
  with suffix_append_cases [OF suf] obtain v where v: "v \<noteq> []" "u = v @ b" by auto
  with b have "hd b \<in> set (tl u)" by (cases v) auto
  with ws_unit_tail [OF u] b show False by (auto simp: list_all_iff str_start_def)
qed

lemma trim_start_append:
  assumes "str_start b" and "trim_start a \<noteq> []"
  shows "trim_start (a @ b) = trim_start a @ b"
  using assms(2)
proof (induction a rule: length_induct)
  case (1 a)
  then have a: "a \<noteq> []" by auto
  show ?case
  proof (cases "unit_at ws_units a")
    case None
    then have "unit_at ws_units (a @ b) = None"
      using ws_unit_prefix_append [OF _ a assms(1)] by (auto simp: unit_at_None_iff)
    with None show ?thesis by (simp add: trim_start_def strip_units_None)
  next
    case (Some u)
    from unit_at_SomeD [OF Some] have u: "u \<noteq> []" "prefix u a" by auto
    have "unit_at ws_units (a @ b) = Some u"
    proof -
      have "(v \<noteq> [] \<and> prefix v (a @ b)) = (v \<noteq> [] \<and> prefix v a)" if "v \<in> set ws_units" for v
        using ws_unit_prefix_append [OF that a assms(1)] by (auto simp: prefix_def)
      with Some show ?thesis unfolding unit_at_def by (auto cong: find_cong)
    qed
    moreover have "drop (length u) (a @ b) = drop (length u) a @ b"
      using prefix_length_le [OF u(2)] by simp
    moreover have "length (drop (length u) a) < length a" using a u by (cases u) auto
    ultimately show ?thesis
      using 1 Some by (simp add: trim_start_def strip_units_Some)
  qed
qed

text \<open>What trimming the end leaves of a text survives when the text grows.\<close>

lemma trim_end_append_prefix:
  assumes "str_start b"
  shows "prefix (trim_end a) (trim_end (a @ b))"
  using assms
proof (induction b rule: length_induct)
  case (1 b)
  show ?case
  proof (cases "b = [] \<or> unit_at (map rev ws_units) (rev (a @ b)) = None")
    case True
    then show ?thesis
    proof
      assume "unit_at (map rev ws_units) (rev (a @ b)) = None"
      then have "trim_end (a @ b) = a @ b" by (simp add: trim_end_def strip_units_None)
      then show ?thesis using trim_end_prefix by (simp add: prefix_order.trans)
    qed simp
  next
    case False
    then obtain ru where ru: "unit_at (map rev ws_units) (rev (a @ b)) = Some ru" and b: "b \<noteq> []" by auto
    from unit_at_SomeD [OF ru] obtain u where u: "u \<in> set ws_units" "ru = rev u" "suffix u (a @ b)" "u \<noteq> []"
      by (auto simp: suffix_to_prefix)
    from ws_unit_suffix_append [OF u(1) b "1.prems" u(3)] obtain b' where b': "b = b' @ u"
      by (auto simp: suffix_def)
    have "str_start b'" using "1.prems" b' by (cases b') (auto simp: str_start_def)
    moreover have "length b' < length b" using b' u(4) by simp
    ultimately have "prefix (trim_end a) (trim_end (a @ b'))" using "1.IH" by blast
    moreover have "trim_end (a @ b) = trim_end (a @ b')"
      using ru u(2) b' by (simp add: trim_end_def strip_units_Some)
    ultimately show ?thesis by simp
  qed
qed

subsection \<open>A line that cannot be a tag\<close>

definition not_a_tag :: "'g tag_spec list \<Rightarrow> string \<Rightarrow> bool" where
  "not_a_tag sps line = (trim_start line \<noteq> [] \<and> \<not> is_tag_prefix sps (trim_start line))"

lemma not_a_tag_append:
  assumes "not_a_tag sps line" and "str_start t"
  shows "not_a_tag sps (line @ t)"
proof -
  have slug: "trim_start (line @ t) = trim_start line @ t"
    using trim_start_append [OF assms(2)] assms(1) by (simp add: not_a_tag_def)
  have "prefix (trim_end (trim_start line)) (trim_end (trim_start line @ t))"
    by (rule trim_end_append_prefix [OF assms(2)])
  then have "is_tag_prefix sps (trim_start line @ t) \<longrightarrow> is_tag_prefix sps (trim_start line)"
    by (auto simp: is_tag_prefix_def list_ex_iff Let_def intro: prefix_order.trans)
  with assms(1) slug show ?thesis by (simp add: not_a_tag_def)
qed

definition line_end_ok :: "string \<Rightarrow> bool" where
  "line_end_ok line = (line = [] \<or> last line \<noteq> nl)"

lemma nl_not_cont [simp]: "\<not> is_cont_byte nl"
  by (simp add: is_cont_byte_def nl_def)

lemma line_end_ok_char: "char_ok c \<Longrightarrow> c \<noteq> [nl] \<Longrightarrow> line_end_ok (line @ c)"
proof -
  assume c: "char_ok c" "c \<noteq> [nl]"
  then obtain b bs where bs: "c = b # bs" by (cases c) (auto simp: char_ok_def)
  show ?thesis
  proof (cases bs rule: rev_cases)
    case Nil
    with c bs show ?thesis by (simp add: line_end_ok_def)
  next
    case (snoc ys y)
    with c bs have "is_cont_byte y" by (simp add: char_ok_def)
    with snoc bs show ?thesis by (auto simp: line_end_ok_def)
  qed
qed

lemma line_slug_open: "line_end_ok line \<Longrightarrow> line_slug line = trim_end (trim_start line)"
  by (auto simp: line_slug_def strip_suffix_def line_end_ok_def suffix_def split: option.split)

lemma line_slug_nl: "line_slug (line @ [nl]) = trim_end (trim_start line)"
  by (simp add: line_slug_def strip_suffix_def)

lemma not_a_tag_marker:
  assumes "not_a_tag sps line"
  shows "line_marker sps act (trim_end (trim_start line)) = None"
proof -
  let ?slug = "trim_end (trim_start line)"
  have "\<forall>sp \<in> set sps. ts_open sp \<noteq> ?slug \<and> ts_close sp \<noteq> ?slug"
    using assms by (auto simp: not_a_tag_def is_tag_prefix_def list_ex_iff Let_def)
  then have "match_open sps ?slug = None" "match_close sps ?slug = None"
    by (auto simp: match_open_def match_close_def find_None_iff)
  then show ?thesis by (simp add: line_marker_def)
qed

lemma whole_lines_not_a_tag:
  assumes "not_a_tag sps line" and "line_end_ok line" and "list_all char_ok cs"
  shows "whole_lines sps act line cs = text_atoms act line @ after_text sps act cs"
  using assms
proof (induction cs arbitrary: line)
  case Nil
  then show ?case
    by (simp add: line_atoms_def line_slug_open not_a_tag_marker)
next
  case (Cons c cs)
  show ?case
  proof (cases "c = [nl]")
    case True
    with Cons.prems show ?thesis
      by (simp add: line_atoms_def line_slug_nl not_a_tag_marker text_atoms_append)
  next
    case False
    with Cons.prems have "not_a_tag sps (line @ c)" "line_end_ok (line @ c)"
      by (simp_all add: not_a_tag_append char_ok_start line_end_ok_char)
    with Cons False show ?thesis by (simp add: text_atoms_append)
  qed
qed

subsection \<open>The parser computes the specification\<close>

definition tl_inv :: "'g tagged_line_parser \<Rightarrow> bool" where
  "tl_inv p = (line_end_ok (line_buffer p) \<and> (\<not> detect_tag p \<longrightarrow> line_buffer p = []))"

definition tl_rest :: "'g tagged_line_parser \<Rightarrow> string list \<Rightarrow> 'g atom list" where
  "tl_rest p cs =
     (if detect_tag p then whole_lines (tl_specs p) (active_tag p) (line_buffer p) cs
      else after_text (tl_specs p) (active_tag p) cs)"

fun state_rest :: "'g parse_state \<Rightarrow> string list \<Rightarrow> 'g atom list" where
  "state_rest (p, text_run, segs) cs = atoms segs @ text_atoms (active_tag p) text_run @ tl_rest p cs"

fun state_inv :: "'g parse_state \<Rightarrow> bool" where
  "state_inv (p, text_run, segs) = (tl_inv p \<and> (text_run \<noteq> [] \<longrightarrow> \<not> detect_tag p))"

lemma finish_line_rest:
  assumes "finish_line p segs = (p', segs')" and "suffix [nl] (line_buffer p)"
  shows "tl_inv p'" and "detect_tag p'" and "tl_specs p' = tl_specs p"
    and "atoms segs' @ tl_rest p' cs = atoms segs @
      (let (as, act') = line_atoms (tl_specs p) (active_tag p) (line_buffer p)
       in as @ whole_lines (tl_specs p) act' [] cs)"
  using assms
  by (auto simp: finish_line_def Let_def tl_inv_def line_end_ok_def tl_rest_def line_atoms_def
      simp del: push_segment.simps split: option.splits)

lemma parse_char_inv:
  assumes "state_inv st" and "char_ok c"
  shows "state_inv (parse_char c st)"
proof -
  obtain p r segs where st: "st = (p, r, segs)" by (cases st)
  show ?thesis
  proof (cases "detect_tag p \<and> c = [nl]")
    case True
    obtain p' segs' where fin: "finish_line (p\<lparr>line_buffer := line_buffer p @ c\<rparr>) segs = (p', segs')"
      by fastforce
    with finish_line_rest(1,2) [OF fin] True assms st show ?thesis by (simp add: Let_def)
  next
    case False
    with assms st line_end_ok_char [OF assms(2)] show ?thesis
      by (auto simp: Let_def tl_inv_def line_end_ok_def [of "[]"])
  qed
qed

lemma parse_char_rest:
  assumes "state_inv st" and "list_all char_ok (c # cs)"
  shows "state_rest (parse_char c st) cs = state_rest st (c # cs)"
proof -
  obtain p r segs where st: "st = (p, r, segs)" by (cases st)
  consider (newline) "detect_tag p" "c = [nl]" | (tag) "detect_tag p" "c \<noteq> [nl]" | (inside) "\<not> detect_tag p"
    by blast
  then show ?thesis
  proof cases
    case newline
    obtain p' segs' where fin: "finish_line (p\<lparr>line_buffer := line_buffer p @ c\<rparr>) segs = (p', segs')"
      by fastforce
    with finish_line_rest(4) [OF fin, of cs] newline assms st show ?thesis
      by (simp add: Let_def suffix_def tl_rest_def)
  next
    case tag
    let ?line = "line_buffer p @ c"
    have ok: "line_end_ok ?line" using tag assms by (simp add: line_end_ok_char)
    show ?thesis
    proof (cases "not_a_tag (tl_specs p) ?line")
      case True
      with whole_lines_not_a_tag [OF True ok] assms tag st show ?thesis
        by (simp add: Let_def tl_rest_def not_a_tag_def)
    next
      case False
      with assms tag st show ?thesis by (auto simp: Let_def tl_rest_def not_a_tag_def)
    qed
  next
    case inside
    with assms st show ?thesis by (simp add: Let_def tl_rest_def tl_inv_def text_atoms_append line_end_ok_def)
  qed
qed

lemma parse_chars_rest:
  assumes "state_inv st" and "list_all char_ok cs" and "list_all char_ok ds"
  shows "state_inv (fold parse_char cs st) \<and>
    state_rest (fold parse_char cs st) ds = state_rest st (cs @ ds)"
  using assms
proof (induction cs arbitrary: st)
  case (Cons c cs)
  then have "state_rest (parse_char c st) (cs @ ds) = state_rest st (c # cs @ ds)"
    by (intro parse_char_rest) auto
  with Cons parse_char_inv [of st c] show ?case by simp
qed simp

lemma tl_parse_correct:
  assumes "tl_inv p" and "str_start delta" and "tl_parse p delta = (p', segs)"
  shows "tl_inv p'"
    and "str_start t \<Longrightarrow> tl_rest p (str_chars (delta @ t)) = atoms segs @ tl_rest p' (str_chars t)"
proof -
  obtain q r sg where fold: "fold parse_char (str_chars delta) (p, [], []) = (q, r, sg)"
    by (metis prod_cases3)
  with assms(3) have p': "p' = q" and segs: "atoms segs = atoms sg @ text_atoms (active_tag q) r"
    by (auto simp: tl_parse_def)
  have inv: "state_inv (p, [], [])" using assms(1) by simp
  note rest = parse_chars_rest [OF inv str_chars_ok [OF assms(2)]]
  from rest [of "[]"] fold p' show "tl_inv p'" by simp
  assume "str_start t"
  with rest [OF str_chars_ok, of t] fold p' segs
  show "tl_rest p (str_chars (delta @ t)) = atoms segs @ tl_rest p' (str_chars t)"
    by (simp add: str_chars_append)
qed

lemma tl_finish_rest:
  assumes "tl_inv p"
  shows "tl_rest p [] = atoms (snd (tl_finish p))"
  using assms
  by (cases "detect_tag p"; cases "active_tag p")
    (auto simp: tl_rest_def tl_finish_def tl_inv_def line_atoms_def end_atoms_def Let_def
      split: option.splits)

lemma new_tagged_line_inv: "tl_inv (new_tagged_line sps)"
  by (simp add: tl_inv_def new_tagged_line_def line_end_ok_def)

text \<open>The parser of lines as a stream parser observed by atoms.\<close>

interpretation tagged_lines: stream_text_parser "\<lambda>p t. Some (tl_parse p t)" tl_finish str_start tl_inv
  "\<lambda>p t. tl_rest p (str_chars t)" "\<lambda>segs as. atoms segs @ as" "[]"
proof (unfold_locales, rule str_start_Nil, erule (1) str_start_append)
  fix s :: "'g tagged_line_parser" and a s' c b
  assume inv: "tl_inv s"
  show "tl_rest s (str_chars []) = atoms (snd (tl_finish s)) @ []"
    using tl_finish_rest [OF inv] by simp
  assume a: "str_start a"
  show "Some (tl_parse s a) \<noteq> None" by simp
  assume "Some (tl_parse s a) = Some (s', c)"
  then have push: "tl_parse s a = (s', c)" by simp
  from tl_parse_correct(1) [OF inv a push] show "tl_inv s'" .
  assume "str_start b"
  from tl_parse_correct(2) [OF inv a push this]
  show "tl_rest s (str_chars (a @ b)) = atoms c @ tl_rest s' (str_chars b)" .
qed

end
