(* ===== verification/Proposed_Plan.thy ===== *)
theory Proposed_Plan
  imports Tagged_Line
begin

section \<open>Proposed plans\<close>

text \<open>
  A model of \<^verbatim>\<open>codex-rs/utils/stream-parser/src/proposed_plan.rs\<close>: the tagged line parser with the
  plan tag, and the two functions on whole texts.  The theorems: the visible text and the
  plan text do not depend on the chunks, and a text with a plan block gives back the
  lines around it and the lines inside it.
\<close>

definition OPEN_TAG :: string where
  "OPEN_TAG = ''<proposed_plan>''"

definition CLOSE_TAG :: string where
  "CLOSE_TAG = ''</proposed_plan>''"

datatype plan_tag = ProposedPlan

datatype proposed_plan_segment =
    PlanNormal string
  | ProposedPlanStart
  | ProposedPlanDelta string
  | ProposedPlanEnd

type_synonym proposed_plan_parser = "plan_tag tagged_line_parser"

definition plan_specs :: "plan_tag tag_spec list" where
  "plan_specs = [\<lparr>ts_open = OPEN_TAG, ts_close = CLOSE_TAG, ts_tag = ProposedPlan\<rparr>]"

definition new_plan_parser :: proposed_plan_parser where
  "new_plan_parser = new_tagged_line plan_specs"

fun map_segment :: "plan_tag tagged_line_segment \<Rightarrow> proposed_plan_segment" where
  "map_segment (Normal t) = PlanNormal t"
| "map_segment (TagStart ProposedPlan) = ProposedPlanStart"
| "map_segment (TagDelta ProposedPlan t) = ProposedPlanDelta t"
| "map_segment (TagEnd ProposedPlan) = ProposedPlanEnd"

definition map_segments :: "plan_tag tagged_line_segment list \<Rightarrow> proposed_plan_segment stream_text_chunk" where
  "map_segments segs =
     fold (\<lambda>seg out. let mapped = map_segment seg;
            out = (case mapped of
                     PlanNormal t \<Rightarrow> out\<lparr>visible_text := visible_text out @ t\<rparr>
                   | _ \<Rightarrow> out)
          in out\<lparr>extracted := extracted out @ [mapped]\<rparr>) segs empty_chunk"

definition plan_push_str ::
  "proposed_plan_parser \<Rightarrow> string \<Rightarrow> proposed_plan_parser \<times> proposed_plan_segment stream_text_chunk"
where
  "plan_push_str p chunk = (let (p', segs) = tl_parse p chunk in (p', map_segments segs))"

definition plan_finish ::
  "proposed_plan_parser \<Rightarrow> proposed_plan_parser \<times> proposed_plan_segment stream_text_chunk"
where
  "plan_finish p = (let (p', segs) = tl_finish p in (p', map_segments segs))"

definition strip_proposed_plan_blocks :: "string \<Rightarrow> string" where
  "strip_proposed_plan_blocks t =
     (let (p, out) = plan_push_str new_plan_parser t
      in visible_text out @ visible_text (snd (plan_finish p)))"

text \<open>The loop of \<open>extract_proposed_plan_text\<close>: the text of the last plan block.\<close>

fun plan_text_step :: "proposed_plan_segment \<Rightarrow> bool \<times> string \<Rightarrow> bool \<times> string" where
  "plan_text_step ProposedPlanStart (saw, plan) = (True, [])"
| "plan_text_step (ProposedPlanDelta delta) (saw, plan) = (saw, plan @ delta)"
| "plan_text_step ProposedPlanEnd st = st"
| "plan_text_step (PlanNormal _) st = st"

definition plan_text_of :: "proposed_plan_segment list \<Rightarrow> string option" where
  "plan_text_of segs =
     (let (saw, plan) = fold plan_text_step segs (False, []) in if saw then Some plan else None)"

definition extract_proposed_plan_text :: "string \<Rightarrow> string option" where
  "extract_proposed_plan_text t =
     (let (p, out) = plan_push_str new_plan_parser t
      in plan_text_of (extracted out @ extracted (snd (plan_finish p))))"

subsection \<open>Plan segments by their atoms\<close>

fun plan_seg_atoms :: "proposed_plan_segment \<Rightarrow> plan_tag atom list" where
  "plan_seg_atoms (PlanNormal t) = map ANormal t"
| "plan_seg_atoms ProposedPlanStart = [AStart ProposedPlan]"
| "plan_seg_atoms (ProposedPlanDelta t) = map (ADelta ProposedPlan) t"
| "plan_seg_atoms ProposedPlanEnd = [AEnd ProposedPlan]"

definition plan_atoms :: "proposed_plan_segment list \<Rightarrow> plan_tag atom list" where
  "plan_atoms segs = concat (map plan_seg_atoms segs)"

definition normal_text :: "'g atom list \<Rightarrow> string" where
  "normal_text as = concat (map (\<lambda>a. case a of ANormal b \<Rightarrow> [b] | _ \<Rightarrow> []) as)"

fun plan_atom_step :: "plan_tag atom \<Rightarrow> bool \<times> string \<Rightarrow> bool \<times> string" where
  "plan_atom_step (AStart _) (saw, plan) = (True, [])"
| "plan_atom_step (ADelta _ b) (saw, plan) = (saw, plan @ [b])"
| "plan_atom_step _ st = st"

definition plan_of_atoms :: "plan_tag atom list \<Rightarrow> string option" where
  "plan_of_atoms as =
     (let (saw, plan) = fold plan_atom_step as (False, []) in if saw then Some plan else None)"

lemma normal_text_append [simp]: "normal_text (a @ b) = normal_text a @ normal_text b"
  by (simp add: normal_text_def)

lemma normal_text_simps [simp]:
  "normal_text [] = []" "normal_text (map ANormal t) = t" "normal_text (map (ADelta g) t) = []"
  "normal_text (AStart g # as) = normal_text as" "normal_text (AEnd g # as) = normal_text as"
  by (induction t) (simp_all add: normal_text_def)

lemma map_segments_eq:
  "map_segments segs = \<lparr>visible_text = normal_text (atoms segs), extracted = map map_segment segs\<rparr>"
proof -
  have "fold (\<lambda>seg out. let mapped = map_segment seg;
            out = (case mapped of
                     PlanNormal t \<Rightarrow> out\<lparr>visible_text := visible_text out @ t\<rparr>
                   | _ \<Rightarrow> out)
          in out\<lparr>extracted := extracted out @ [mapped]\<rparr>) segs c =
      c\<lparr>visible_text := visible_text c @ normal_text (atoms segs),
        extracted := extracted c @ map map_segment segs\<rparr>"
    for c :: "proposed_plan_segment stream_text_chunk"
  proof (induction segs arbitrary: c)
    case (Cons s segs)
    then show ?case by (cases s rule: map_segment.cases) (simp_all add: Let_def)
  qed simp
  then show ?thesis by (simp add: map_segments_def empty_chunk_def)
qed

lemma plan_atoms_map: "plan_atoms (map map_segment segs) = atoms segs"
proof (induction segs)
  case (Cons s segs)
  then show ?case by (cases s rule: map_segment.cases) (simp_all add: plan_atoms_def)
qed (simp add: plan_atoms_def)

lemma plan_atoms_Nil: "plan_atoms [] = []"
  by (simp add: plan_atoms_def)

lemma plan_atoms_append: "plan_atoms (a @ b) = plan_atoms a @ plan_atoms b"
  by (simp add: plan_atoms_def)

lemma plan_text_of_atoms: "plan_text_of segs = plan_of_atoms (plan_atoms segs)"
proof -
  have "fold plan_atom_step (map ANormal t) st = st"
    and delta: "fold plan_atom_step (map (ADelta g) t) (saw, p) = (saw, p @ t)" for t st g saw p
    by (induction t arbitrary: p) simp_all
  then have "fold plan_text_step segs st = fold plan_atom_step (plan_atoms segs) st" for st
  proof (induction segs arbitrary: st)
    case (Cons s segs)
    then show ?case by (cases s; cases st) (simp_all add: plan_atoms_def)
  qed (simp add: plan_atoms_def)
  then show ?thesis by (simp add: plan_text_of_def plan_of_atoms_def)
qed

subsection \<open>The contract\<close>

definition plan_rest :: "proposed_plan_parser \<Rightarrow> string \<Rightarrow> plan_tag atom list" where
  "plan_rest p t = tl_rest p (str_chars t)"

definition plan_obs :: "proposed_plan_segment stream_text_chunk \<Rightarrow> plan_tag atom list \<Rightarrow> plan_tag atom list" where
  "plan_obs c as = plan_atoms (extracted c) @ as"

lemma plan_push_str_iff:
  "plan_push_str p t = (p', c) \<longleftrightarrow> (\<exists>segs. tl_parse p t = (p', segs) \<and> c = map_segments segs)"
  by (auto simp: plan_push_str_def split: prod.split)

interpretation plans: stream_text_parser "\<lambda>p t. Some (plan_push_str p t)" plan_finish str_start tl_inv
  plan_rest plan_obs "[]"
proof (unfold_locales, rule str_start_Nil, erule (1) str_start_append)
  fix s :: proposed_plan_parser and a s' c b
  assume inv: "tl_inv s"
  show "plan_rest s [] = plan_obs (snd (plan_finish s)) []"
    using tl_finish_rest [OF inv]
    by (simp add: plan_rest_def plan_obs_def plan_finish_def map_segments_eq plan_atoms_map split: prod.split)
  assume a: "str_start a"
  show "Some (plan_push_str s a) \<noteq> None" by simp
  assume "Some (plan_push_str s a) = Some (s', c)"
  then obtain segs where push: "tl_parse s a = (s', segs)" "c = map_segments segs"
    by (auto simp: plan_push_str_iff)
  from tl_parse_correct(1) [OF inv a push(1)] show "tl_inv s'" .
  assume "str_start b"
  from tl_parse_correct(2) [OF inv a push(1) this] push(2)
  show "plan_rest s (a @ b) = plan_obs c (plan_rest s' b)"
    by (simp add: plan_rest_def plan_obs_def map_segments_eq plan_atoms_map)
qed

lemma new_plan_parser_inv: "tl_inv new_plan_parser"
  by (simp add: new_plan_parser_def new_tagged_line_inv)

text \<open>Every chunk shows the normal text of its segments.\<close>

definition chunk_consistent :: "proposed_plan_segment stream_text_chunk \<Rightarrow> bool" where
  "chunk_consistent c = (visible_text c = normal_text (plan_atoms (extracted c)))"

lemma plan_chunks_consistent:
  "chunk_consistent (snd (plan_push_str p t))" "chunk_consistent (snd (plan_finish p))"
  by (simp_all add: chunk_consistent_def plan_push_str_def plan_finish_def map_segments_eq plan_atoms_map
      split: prod.split)

lemma run_plan_consistent:
  "run_parser (\<lambda>p t. Some (plan_push_str p t)) plan_finish p cs = Some outs \<Longrightarrow> list_all chunk_consistent outs"
proof (induction cs arbitrary: p outs)
  case (Cons c cs)
  then show ?case using plan_chunks_consistent(1) [of p c] by (auto split: option.splits prod.splits)
qed (auto simp: plan_chunks_consistent)

lemma consistent_visible:
  "list_all chunk_consistent outs \<Longrightarrow>
     concat (map visible_text outs) = normal_text (plan_atoms (concat (map extracted outs)))"
  by (induction outs) (simp_all add: chunk_consistent_def plan_atoms_append, simp add: plan_atoms_def)

lemma foldr_plan_obs: "foldr plan_obs outs [] = plan_atoms (concat (map extracted outs))"
  by (induction outs) (simp_all add: plan_obs_def plan_atoms_append, simp add: plan_atoms_def)

lemma whole_plan_text:
  assumes "str_start t"
  shows "strip_proposed_plan_blocks t = normal_text (plan_rest new_plan_parser t)"
    and "extract_proposed_plan_text t = plan_of_atoms (plan_rest new_plan_parser t)"
proof -
  obtain p out where push: "plan_push_str new_plan_parser t = (p, out)"
    and all: "plan_obs out (plan_obs (snd (plan_finish p)) []) = plan_rest new_plan_parser t"
    using plans.run_whole [OF new_plan_parser_inv assms] by fastforce
  have "chunk_consistent out" "chunk_consistent (snd (plan_finish p))"
    using plan_chunks_consistent(1) [of new_plan_parser t] plan_chunks_consistent(2) [of p] push by simp_all
  with push show "strip_proposed_plan_blocks t = normal_text (plan_rest new_plan_parser t)"
    by (simp add: strip_proposed_plan_blocks_def plan_obs_def chunk_consistent_def flip: all)
  from all push show "extract_proposed_plan_text t = plan_of_atoms (plan_rest new_plan_parser t)"
    by (simp add: extract_proposed_plan_text_def plan_obs_def plan_text_of_atoms plan_atoms_append)
qed

text \<open>However a text is cut into chunks, the visible text the plan parser outputs is what
  \<open>strip_proposed_plan_blocks\<close> returns for the whole text, and the plan read off its
  segments is what \<open>extract_proposed_plan_text\<close> returns.\<close>

lemma plan_chunks_whole_text:
  assumes "list_all str_start cs"
    and "run_parser (\<lambda>p t. Some (plan_push_str p t)) plan_finish new_plan_parser cs = Some outs"
  shows "concat (map visible_text outs) = strip_proposed_plan_blocks (concat cs) \<and>
    plan_text_of (concat (map extracted outs)) = extract_proposed_plan_text (concat cs)"
proof -
  have "plan_atoms (concat (map extracted outs)) = plan_rest new_plan_parser (concat cs)"
    using plans.run_rest [OF new_plan_parser_inv assms(1)] assms(2) by (simp add: foldr_plan_obs)
  with whole_plan_text [OF str_start_concat [OF assms(1)]]
    consistent_visible [OF run_plan_consistent [OF assms(2)]]
  show ?thesis by (simp add: plan_text_of_atoms)
qed

subsection \<open>A plan block between lines\<close>

definition text_lines :: "string list \<Rightarrow> string" where
  "text_lines ls = concat (map (\<lambda>l. l @ [nl]) ls)"

definition line_ok :: "string \<Rightarrow> bool" where
  "line_ok l = (str_start l \<and> nl \<notin> set l)"

lemma text_lines_simps [simp]:
  "text_lines [] = []" "text_lines (l # ls) = l @ [nl] @ text_lines ls"
  "text_lines (ls @ ms) = text_lines ls @ text_lines ms"
  by (simp_all add: text_lines_def)

lemma text_lines_start: "list_all line_ok ls \<Longrightarrow> str_start (text_lines ls)"
  by (induction ls) (auto simp: line_ok_def intro!: str_start_append, simp add: str_start_def)

lemma whole_lines_line:
  assumes "[nl] \<notin> set cs"
  shows "whole_lines sps act line (cs @ [nl] # ds) =
    (let (as, act') = line_atoms sps act (line @ concat cs @ [nl]) in as @ whole_lines sps act' [] ds)"
  using assms by (induction cs arbitrary: line) auto

lemma whole_lines_text_line:
  assumes "line_ok l" and "str_start t"
  shows "whole_lines sps act [] (str_chars (l @ [nl] @ t)) =
    (let (as, act') = line_atoms sps act (l @ [nl]) in as @ whole_lines sps act' [] (str_chars t))"
proof -
  have "nl \<in> set (concat (str_chars l))" if "[nl] \<in> set (str_chars l)"
    using that by (metis UN_I list.set_intros(1) set_concat)
  then have "[nl] \<notin> set (str_chars l)" using assms(1) by (auto simp: line_ok_def)
  moreover have "str_chars ([nl] @ t) = [nl] # str_chars t"
    using str_chars_append [OF assms(2), of "[nl]"] by simp
  moreover have "str_start ([nl] @ t)" by (simp add: str_start_def)
  ultimately show ?thesis by (simp add: str_chars_append whole_lines_line)
qed

text \<open>Lines none of which is the tag looked for are text.\<close>

definition plan_slug :: "string \<Rightarrow> string" where
  "plan_slug l = trim_end (trim_start l)"

lemma plan_line_atoms:
  "line_atoms plan_specs None (l @ [nl]) =
     (if plan_slug l = OPEN_TAG then ([AStart ProposedPlan], Some ProposedPlan)
      else (text_atoms None (l @ [nl]), None))"
  "line_atoms plan_specs (Some ProposedPlan) (l @ [nl]) =
     (if plan_slug l = CLOSE_TAG then ([AEnd ProposedPlan], None)
      else (text_atoms (Some ProposedPlan) (l @ [nl]), Some ProposedPlan))"
  by (auto simp: line_atoms_def line_slug_nl plan_slug_def line_marker_def match_open_def match_close_def
      plan_specs_def OPEN_TAG_def CLOSE_TAG_def)

lemma whole_lines_outside:
  assumes "list_all line_ok ls" and "\<forall>l \<in> set ls. plan_slug l \<noteq> OPEN_TAG" and "str_start t"
  shows "whole_lines plan_specs None [] (str_chars (text_lines ls @ t)) =
    map ANormal (text_lines ls) @ whole_lines plan_specs None [] (str_chars t)"
  using assms
proof (induction ls)
  case (Cons l ls)
  then have "str_start (text_lines ls @ t)" by (simp add: str_start_append text_lines_start)
  with whole_lines_text_line [of l "text_lines ls @ t" plan_specs None] Cons show ?case
    by (simp add: plan_line_atoms text_atoms_def)
qed simp

lemma whole_lines_inside:
  assumes "list_all line_ok ls" and "\<forall>l \<in> set ls. plan_slug l \<noteq> CLOSE_TAG" and "str_start t"
  shows "whole_lines plan_specs (Some ProposedPlan) [] (str_chars (text_lines ls @ t)) =
    map (ADelta ProposedPlan) (text_lines ls) @ whole_lines plan_specs (Some ProposedPlan) [] (str_chars t)"
  using assms
proof (induction ls)
  case (Cons l ls)
  then have "str_start (text_lines ls @ t)" by (simp add: str_start_append text_lines_start)
  with whole_lines_text_line [of l "text_lines ls @ t" plan_specs "Some ProposedPlan"] Cons show ?case
    by (simp add: plan_line_atoms text_atoms_def)
qed simp

lemma plan_block_atoms:
  assumes "list_all line_ok (pre @ ol # body @ cl # post)"
    and "\<forall>l \<in> set pre \<union> set post. plan_slug l \<noteq> OPEN_TAG" and "\<forall>l \<in> set body. plan_slug l \<noteq> CLOSE_TAG"
    and "plan_slug ol = OPEN_TAG" and "plan_slug cl = CLOSE_TAG"
  shows "plan_rest new_plan_parser (text_lines (pre @ ol # body @ cl # post)) =
    map ANormal (text_lines pre) @ [AStart ProposedPlan] @ map (ADelta ProposedPlan) (text_lines body) @
    [AEnd ProposedPlan] @ map ANormal (text_lines post)"
proof -
  note starts = text_lines_start [of "ol # body @ cl # post"] text_lines_start [of "body @ cl # post"]
    text_lines_start [of "cl # post"] text_lines_start [of post]
  have "whole_lines plan_specs None [] (str_chars (text_lines post)) = map ANormal (text_lines post)"
    using whole_lines_outside [of post "[]"] assms by (simp add: end_atoms_def)
  with whole_lines_text_line [of cl "text_lines post" plan_specs "Some ProposedPlan"] starts(4) assms
  have "whole_lines plan_specs (Some ProposedPlan) [] (str_chars (text_lines (cl # post))) =
      AEnd ProposedPlan # map ANormal (text_lines post)" by (simp add: plan_line_atoms)
  with whole_lines_inside [of body "text_lines (cl # post)"] starts(3) assms
  have "whole_lines plan_specs (Some ProposedPlan) [] (str_chars (text_lines (body @ cl # post))) =
      map (ADelta ProposedPlan) (text_lines body) @ AEnd ProposedPlan # map ANormal (text_lines post)" by simp
  with whole_lines_text_line [of ol "text_lines (body @ cl # post)" plan_specs None] starts(2) assms
  have "whole_lines plan_specs None [] (str_chars (text_lines (ol # body @ cl # post))) =
      AStart ProposedPlan # map (ADelta ProposedPlan) (text_lines body) @
      AEnd ProposedPlan # map ANormal (text_lines post)" by (simp add: plan_line_atoms)
  with whole_lines_outside [of pre "text_lines (ol # body @ cl # post)"] starts(1) assms
  show ?thesis by (simp add: plan_rest_def tl_rest_def new_plan_parser_def new_tagged_line_def)
qed

lemma plan_of_block:
  "plan_of_atoms (map ANormal a @ [AStart ProposedPlan] @ map (ADelta ProposedPlan) b @ [AEnd ProposedPlan] @
     map ANormal c) = Some b"
proof -
  have "fold plan_atom_step (map ANormal t) st = st"
    and "fold plan_atom_step (map (ADelta g) t) (saw, p) = (saw, p @ t)" for t st g saw p
    by (induction t arbitrary: p) simp_all
  then show ?thesis by (simp add: plan_of_atoms_def)
qed

text \<open>For a text of lines with one plan block, \<open>strip_proposed_plan_blocks\<close> returns the
  lines before and after the block and \<open>extract_proposed_plan_text\<close> the lines inside it.
  White space around the tags on their lines does not matter; a closing tag outside the
  block and an opening one inside it are text.\<close>

lemma plan_block_between_lines:
  assumes "list_all line_ok (pre @ ol # body @ cl # post)"
    and "\<forall>l \<in> set pre \<union> set post. plan_slug l \<noteq> OPEN_TAG" and "\<forall>l \<in> set body. plan_slug l \<noteq> CLOSE_TAG"
    and "plan_slug ol = OPEN_TAG" and "plan_slug cl = CLOSE_TAG"
  shows "strip_proposed_plan_blocks (text_lines (pre @ ol # body @ cl # post)) = text_lines (pre @ post) \<and>
    extract_proposed_plan_text (text_lines (pre @ ol # body @ cl # post)) = Some (text_lines body)"
  unfolding whole_plan_text [OF text_lines_start [OF assms(1)]] plan_block_atoms [OF assms]
  by (simp add: plan_of_block [simplified])

end
