(* ===== verification/Assistant_Text.thy ===== *)
theory Assistant_Text
  imports Citation Proposed_Plan
begin

section \<open>Assistant text\<close>

text \<open>
  A model of \<^verbatim>\<open>codex-rs/utils/stream-parser/src/assistant_text.rs\<close>: the citation parser, and in plan
  mode the plan parser on the text the citation parser shows.  The theorem is that the
  two streaming parsers one after the other compute what the two functions on whole
  texts compute.
\<close>

record assistant_text_chunk =
  at_visible_text :: string
  at_citations :: "string list"
  plan_segments :: "proposed_plan_segment list"

definition assistant_chunk_is_empty :: "assistant_text_chunk \<Rightarrow> bool" where
  "assistant_chunk_is_empty c = (at_visible_text c = [] \<and> at_citations c = [] \<and> plan_segments c = [])"

record assistant_text_stream_parser =
  plan_mode :: bool
  citation_part :: citation_stream_parser
  plan_part :: proposed_plan_parser

definition new_assistant_parser :: "bool \<Rightarrow> assistant_text_stream_parser option" where
  "new_assistant_parser mode =
     map_option (\<lambda>c. \<lparr>plan_mode = mode, citation_part = c, plan_part = new_plan_parser\<rparr>) new_citation_parser"

definition parse_visible_text ::
  "assistant_text_stream_parser \<Rightarrow> string \<Rightarrow> assistant_text_stream_parser \<times> assistant_text_chunk"
where
  "parse_visible_text p v =
     (if \<not> plan_mode p then (p, \<lparr>at_visible_text = v, at_citations = [], plan_segments = []\<rparr>)
      else (let (plan', c) = plan_push_str (plan_part p) v
            in (p\<lparr>plan_part := plan'\<rparr>,
                \<lparr>at_visible_text = visible_text c, at_citations = [], plan_segments = extracted c\<rparr>)))"

definition assistant_push_str ::
  "assistant_text_stream_parser \<Rightarrow> string \<Rightarrow> (assistant_text_stream_parser \<times> assistant_text_chunk) option"
where
  "assistant_push_str p chunk =
     (case citation_push_str (citation_part p) chunk of
        None \<Rightarrow> None
      | Some (cit', c) \<Rightarrow>
          (let (p', out) = parse_visible_text (p\<lparr>citation_part := cit'\<rparr>) (visible_text c)
           in Some (p', out\<lparr>at_citations := extracted c\<rparr>)))"

definition assistant_finish ::
  "assistant_text_stream_parser \<Rightarrow> assistant_text_stream_parser \<times> assistant_text_chunk"
where
  "assistant_finish p =
     (let (cit', c) = citation_finish (citation_part p);
          (p', out) = parse_visible_text (p\<lparr>citation_part := cit'\<rparr>) (visible_text c);
          (p'', out') =
            (if plan_mode p' then
               (let (plan', tail) = plan_finish (plan_part p')
                in (p'\<lparr>plan_part := plan'\<rparr>,
                    if \<not> chunk_is_empty tail
                    then out\<lparr>at_visible_text := at_visible_text out @ visible_text tail,
                             plan_segments := plan_segments out @ extracted tail\<rparr>
                    else out))
             else (p', out))
      in (p'', out'\<lparr>at_citations := extracted c\<rparr>))"

subsection \<open>The citation parser cuts text at character boundaries\<close>

text \<open>In UTF-8 text a continuation byte follows a byte that is not ASCII.\<close>

definition str_ok :: "string \<Rightarrow> bool" where
  "str_ok s = (\<forall>i < length s. is_cont_byte (s ! i) \<longrightarrow> 0 < i \<and> \<not> is_ascii_byte (s ! (i - 1)))"

lemma str_ok_Nil [simp]: "str_ok []"
  by (simp add: str_ok_def)

lemma str_ok_start: "str_ok s \<Longrightarrow> str_start s"
  by (cases s) (auto simp: str_ok_def str_start_def)

lemma str_ok_ascii: "list_all is_ascii_byte s \<Longrightarrow> str_ok s"
  by (auto simp: str_ok_def list_all_length dest: ascii_not_cont)

lemma str_ok_append:
  assumes "str_ok a" and "str_ok b"
  shows "str_ok (a @ b)"
  unfolding str_ok_def
proof (intro allI impI)
  fix i
  assume i: "i < length (a @ b)" "is_cont_byte ((a @ b) ! i)"
  show "0 < i \<and> \<not> is_ascii_byte ((a @ b) ! (i - 1))"
  proof (cases "i < length a")
    case True
    with assms(1) i show ?thesis by (auto simp: str_ok_def nth_append)
  next
    case False
    with i have "i - length a < length b" "is_cont_byte (b ! (i - length a))" by (auto simp: nth_append)
    with assms(2) have "0 < i - length a \<and> \<not> is_ascii_byte (b ! (i - length a - 1))"
      unfolding str_ok_def by blast
    with False show ?thesis by (auto simp: nth_append diff_right_commute)
  qed
qed

lemma str_ok_take: "str_ok s \<Longrightarrow> str_ok (take k s)"
  by (auto simp: str_ok_def)

lemma str_ok_drop:
  assumes "str_ok s" and "0 < k" and "k \<le> length s" and "is_ascii_byte (s ! (k - 1))"
  shows "str_ok (drop k s)"
  unfolding str_ok_def
proof (intro allI impI)
  fix i
  assume i: "i < length (drop k s)" "is_cont_byte (drop k s ! i)"
  with assms(1,3) have "0 < k + i \<and> \<not> is_ascii_byte (s ! (k + i - 1))" by (auto simp: str_ok_def)
  with assms(4,3) show "0 < i \<and> \<not> is_ascii_byte (drop k s ! (i - 1))" by (cases i) auto
qed

lemma longest_suffix_kept:
  "drop (length s - longest_suffix_prefix_len s needle) s = take (longest_suffix_prefix_len s needle) needle"
proof -
  have "drop (length s - k) s = take k needle"
    if "List.find (\<lambda>k. is_char_boundary needle k \<and> suffix (take k needle) s)
      (rev [1..<Suc (min (length s) (length needle - 1))]) = Some k" for k
  proof -
    from find_in_set [OF that] have "k \<le> length needle" by (auto simp del: upt_Suc)
    moreover from that have "suffix (take k needle) s" by (auto simp: find_Some_iff)
    ultimately have "suffix (take k needle) s" "k \<le> length needle" by simp_all
    then show ?thesis by (auto simp: suffix_def)
  qed
  then show ?thesis by (auto simp: longest_suffix_prefix_len_def simp del: upt_Suc split: option.split)
qed

lemma fold_max_in: "fold max xs (a::nat) \<in> insert a (set xs)"
proof (induction xs arbitrary: a)
  case (Cons x xs)
  from Cons [of "max x a"] show ?case by (auto simp: max_def split: if_splits)
qed simp

definition ascii_specs :: "'g inline_tag_spec list \<Rightarrow> bool" where
  "ascii_specs sps =
     list_all (\<lambda>sp. list_all is_ascii_byte (spec_open sp) \<and> list_all is_ascii_byte (spec_close sp)) sps"

lemma kept_open_ok:
  assumes "ascii_specs sps"
  shows "str_ok (drop (length s - max_open_prefix_suffix_len sps s) s)"
proof -
  have "max_open_prefix_suffix_len sps s \<in> insert 0 ((\<lambda>sp. longest_suffix_prefix_len s (spec_open sp)) ` set sps)"
    unfolding max_open_prefix_suffix_len_def using fold_max_in by fastforce
  then consider "max_open_prefix_suffix_len sps s = 0"
    | sp where "sp \<in> set sps" "max_open_prefix_suffix_len sps s = longest_suffix_prefix_len s (spec_open sp)"
    by auto
  then show ?thesis
  proof cases
    case 2
    with assms have "list_all is_ascii_byte (spec_open sp)" by (simp add: ascii_specs_def list_all_iff)
    with 2 longest_suffix_kept [of s "spec_open sp"] show ?thesis
      by (simp add: str_ok_take str_ok_ascii)
  qed simp
qed

lemma after_delimiter_ok:
  assumes "str_ok s" and "find_str pat s = Some i" and "pat \<noteq> []" and "list_all is_ascii_byte pat"
  shows "str_ok (drop (i + length pat) s)"
proof (rule str_ok_drop [OF assms(1)])
  show "0 < i + length pat" "i + length pat \<le> length s" using assms(3) find_str_bound [OF assms(2)] by auto
  have "prefix pat (drop i s)" using assms(2) by (simp add: find_str_Some_iff)
  then have "drop i s ! (length pat - 1) = last pat" using assms(3)
    by (auto simp: prefix_def nth_append last_conv_nth)
  moreover have "drop i s ! (length pat - 1) = s ! (i + length pat - 1)"
    using find_str_bound [OF assms(2)] assms(3) by (cases pat) auto
  moreover have "is_ascii_byte (last pat)" using assms(3,4) by (simp add: list_all_iff)
  ultimately show "is_ascii_byte (s ! (i + length pat - 1))" by simp
qed

definition active_ascii :: "'g active_tag option \<Rightarrow> bool" where
  "active_ascii a = (case a of None \<Rightarrow> True | Some act \<Rightarrow> act_close act \<noteq> [] \<and> list_all is_ascii_byte (act_close act))"

fun cut_ok :: "'g inline_state \<Rightarrow> bool" where
  "cut_ok (act, pend, out) = (active_ascii act \<and> str_ok pend \<and> str_ok (visible_text out))"

lemma inline_step_cut_ok:
  assumes "wf_specs sps" and "ascii_specs sps" and "cut_ok (act, pend, out)"
  shows "case inline_step sps (act, pend, out) of Inl st \<Rightarrow> cut_ok st | Inr st \<Rightarrow> cut_ok st"
proof (cases act)
  case (Some a)
  with assms(3) have a: "act_close a \<noteq> []" "list_all is_ascii_byte (act_close a)"
    and ok: "str_ok pend" "str_ok (visible_text out)" by (simp_all add: active_ascii_def)
  then have "str_ok (drop (length pend - longest_suffix_prefix_len pend (act_close a)) pend)"
    unfolding longest_suffix_kept by (simp add: str_ok_take str_ok_ascii)
  with Some a ok after_delimiter_ok [of pend "act_close a"] show ?thesis
    by (auto simp: active_ascii_def push_extracted_def Let_def split: option.split)
next
  case None
  with assms(3) have ok: "str_ok pend" "str_ok (visible_text out)" by simp_all
  show ?thesis
  proof (cases "find_next_open sps pend")
    case None
    with \<open>act = None\<close> ok kept_open_ok [OF assms(2), of pend] show ?thesis
      by (simp add: active_ascii_def push_visible_def str_ok_append str_ok_take Let_def)
  next
    case (Some ik)
    obtain i k where ik: "ik = (i, k)" by (cases ik)
    with Some have k: "k < length sps" and i: "find_str (spec_open (sps ! k)) pend = Some i"
      by (simp_all add: find_next_open_Some)
    from nth_mem [OF k] assms(1,2) have "spec_open (sps ! k) \<noteq> []" "list_all is_ascii_byte (spec_open (sps ! k))"
      "spec_close (sps ! k) \<noteq> []" "list_all is_ascii_byte (spec_close (sps ! k))"
      unfolding wf_specs_def ascii_specs_def list_all_iff by blast+
    with Some ik \<open>act = None\<close> ok after_delimiter_ok [OF ok(1) i] show ?thesis
      by (simp add: active_ascii_def push_visible_def str_ok_append str_ok_take Let_def)
  qed
qed

lemma inline_loop_cut_ok:
  "wf_specs sps \<Longrightarrow> ascii_specs sps \<Longrightarrow> cut_ok st \<Longrightarrow> inline_loop fuel sps st = Some st' \<Longrightarrow> cut_ok st'"
proof (induction fuel arbitrary: st)
  case (Suc fuel)
  obtain a p c where "st = (a, p, c)" by (cases st)
  with Suc inline_step_cut_ok [of sps a p c] show ?case by (auto split: sum.splits)
qed simp

definition citation_inv :: "citation_stream_parser \<Rightarrow> bool" where
  "citation_inv p = (inline_inv p \<and> ascii_specs (specs p) \<and> active_ascii (active p) \<and> str_ok (pending p))"

lemma citation_push_cut_ok:
  assumes "citation_inv p" and "str_ok a" and "citation_push_str p a = Some (p', c)"
  shows "citation_inv p'" and "str_ok (visible_text c)"
proof -
  from assms(3) obtain c' where push: "inline_push_str p a = Some (p', c')" and c: "c = citation_chunk c'"
    by (auto simp: citation_push_str_def)
  then obtain act pend where
    loop: "inline_loop (Suc (length (pending p @ a))) (specs p) (active p, pending p @ a, empty_chunk) =
      Some (act, pend, c')" and p': "p' = p\<lparr>pending := pend, active := act\<rparr>"
    by (auto simp: inline_push_str_def Let_def simp del: inline_loop.simps split: option.splits)
  from assms(1,2) have "cut_ok (active p, pending p @ a, empty_chunk)"
    by (simp add: citation_inv_def str_ok_append empty_chunk_def)
  from inline_loop_cut_ok [OF _ _ this loop] assms(1)
  have "cut_ok (act, pend, c')" by (simp add: citation_inv_def inline_inv_def)
  moreover have "inline_inv p'"
    using hidden_tags.push_inv [OF _ str_ok_start [OF assms(2)] push] assms(1) by (simp add: citation_inv_def)
  ultimately show "citation_inv p'" and "str_ok (visible_text c)"
    using assms(1) p' c by (simp_all add: citation_inv_def citation_chunk_def)
qed

lemma citation_finish_cut_ok:
  assumes "citation_inv p"
  shows "str_ok (visible_text (snd (citation_finish p)))"
  using assms by (auto simp: citation_inv_def citation_finish_def inline_finish_def citation_chunk_def
      push_extracted_def push_visible_def empty_chunk_def split: option.split)

lemma citation_rest_cut_ok:
  assumes "citation_inv p" and "str_ok t"
  shows "str_ok (visible_text (citation_rest p t))"
proof -
  from assms(1) have "inline_inv p" by (simp add: citation_inv_def)
  from citations.run_whole [OF this str_ok_start [OF assms(2)]] obtain p' out
    where push: "citation_push_str p t = Some (p', out)"
      and rest: "chunk_append out (chunk_append (snd (citation_finish p')) empty_chunk) = citation_rest p t" by auto
  note cut = citation_push_cut_ok [OF assms push]
  from str_ok_append [OF cut(2) citation_finish_cut_ok [OF cut(1)]] show ?thesis
    unfolding rest [symmetric] by (simp add: chunk_append_def empty_chunk_def)
qed

subsection \<open>The contract\<close>

type_synonym assistant_obs = "string \<times> plan_tag atom list \<times> string list"

definition assistant_inv :: "assistant_text_stream_parser \<Rightarrow> bool" where
  "assistant_inv p = (citation_inv (citation_part p) \<and> tl_inv (plan_part p))"

definition assistant_rest :: "assistant_text_stream_parser \<Rightarrow> string \<Rightarrow> assistant_obs" where
  "assistant_rest p t =
     (let c = citation_rest (citation_part p) t in
      if plan_mode p then
        (let as = plan_rest (plan_part p) (visible_text c) in (normal_text as, as, extracted c))
      else (visible_text c, [], extracted c))"

fun assistant_obs :: "assistant_text_chunk \<Rightarrow> assistant_obs \<Rightarrow> assistant_obs" where
  "assistant_obs c (v, as, cs) =
     (at_visible_text c @ v, plan_atoms (plan_segments c) @ as, at_citations c @ cs)"

lemma plan_push_rest:
  assumes "tl_inv p" and "str_start a" and "plan_push_str p a = (p', c)"
  shows "tl_inv p'" and "visible_text c = normal_text (plan_atoms (extracted c))"
    and "str_start b \<Longrightarrow> plan_rest p (a @ b) = plan_atoms (extracted c) @ plan_rest p' b"
  using plans.push_inv [OF assms(1,2)] plans.push_rest [OF assms(1,2), of p' c b]
    plan_chunks_consistent(1) [of p a] assms(3)
  by (simp_all add: plan_obs_def chunk_consistent_def)

lemma assistant_push_correct:
  assumes "assistant_inv p" and "str_ok a"
  shows "\<exists>p' c. assistant_push_str p a = Some (p', c) \<and> assistant_inv p' \<and>
    (\<forall>b. str_ok b \<longrightarrow> assistant_rest p (a @ b) = assistant_obs c (assistant_rest p' b))"
proof -
  from assms(1) have cit: "citation_inv (citation_part p)" and plan: "tl_inv (plan_part p)"
    and inl: "inline_inv (citation_part p)" by (simp_all add: assistant_inv_def citation_inv_def)
  from citations.push_total [OF inl str_ok_start [OF assms(2)]] obtain cit' c
    where push: "citation_push_str (citation_part p) a = Some (cit', c)" by fast
  note cut = citation_push_cut_ok [OF cit assms(2) push]
  have rest: "citation_rest (citation_part p) (a @ b) = chunk_append c (citation_rest cit' b)"
    and b: "str_start (visible_text (citation_rest cit' b))" if "str_ok b" for b
    using citations.push_rest [OF inl str_ok_start [OF assms(2)] push str_ok_start [OF that]]
      citation_rest_cut_ok [OF cut(1) that] by (simp_all add: str_ok_start)
  obtain plan' pc where pp: "plan_push_str (plan_part p) (visible_text c) = (plan', pc)" by fastforce
  note plan_step = plan_push_rest [OF plan str_ok_start [OF cut(2)] pp]
  show ?thesis
  proof (cases "plan_mode p")
    case True
    with push pp plan_step(1) cut(1) rest plan_step(2,3) b show ?thesis
      by (auto simp: assistant_push_str_def parse_visible_text_def assistant_inv_def assistant_rest_def
          Let_def chunk_append_def)
  next
    case False
    with push cut(1) rest plan show ?thesis
      by (auto simp: assistant_push_str_def parse_visible_text_def assistant_inv_def assistant_rest_def
          Let_def chunk_append_def plan_atoms_def)
  qed
qed

lemma assistant_finish_rest:
  assumes "assistant_inv p"
  shows "assistant_rest p [] = assistant_obs (snd (assistant_finish p)) ([], [], [])"
proof -
  from assms have cit: "citation_inv (citation_part p)" and plan: "tl_inv (plan_part p)"
    and inl: "inline_inv (citation_part p)" by (simp_all add: assistant_inv_def citation_inv_def)
  obtain cit' c where fin: "citation_finish (citation_part p) = (cit', c)" by fastforce
  have rest: "citation_rest (citation_part p) [] = c" using citations.finish_rest [OF inl] fin by simp
  have c: "str_start (visible_text c)"
    using str_ok_start [OF citation_finish_cut_ok [OF cit]] fin by simp
  obtain plan' pc where pp: "plan_push_str (plan_part p) (visible_text c) = (plan', pc)" by fastforce
  note plan_step = plan_push_rest [OF plan c pp]
  have tail: "plan_rest plan' [] = plan_atoms (extracted (snd (plan_finish plan')))"
    "visible_text (snd (plan_finish plan')) = normal_text (plan_atoms (extracted (snd (plan_finish plan'))))"
    using plans.finish_rest [OF plan_step(1)] plan_chunks_consistent(2) [of plan']
    by (simp_all add: plan_obs_def chunk_consistent_def)
  show ?thesis
  proof (cases "plan_mode p")
    case True
    with fin rest pp plan_step(2) plan_step(3) [of "[]"] tail show ?thesis
      by (auto simp: assistant_finish_def parse_visible_text_def assistant_rest_def Let_def
          plan_atoms_append chunk_is_empty_def plan_atoms_Nil split: prod.split)
  next
    case False
    with fin rest show ?thesis
      by (simp add: assistant_finish_def parse_visible_text_def assistant_rest_def plan_atoms_def)
  qed
qed

interpretation assistant: stream_text_parser assistant_push_str assistant_finish str_ok assistant_inv
  assistant_rest assistant_obs "([], [], [])"
proof (unfold_locales, rule str_ok_Nil, erule (1) str_ok_append)
  fix s a s' c b
  assume inv: "assistant_inv s"
  show "assistant_rest s [] = assistant_obs (snd (assistant_finish s)) ([], [], [])"
    by (rule assistant_finish_rest [OF inv])
  assume a: "str_ok a"
  from assistant_push_correct [OF inv a] show "assistant_push_str s a \<noteq> None" by auto
  assume push: "assistant_push_str s a = Some (s', c)"
  with assistant_push_correct [OF inv a] show "assistant_inv s'" by auto
  assume "str_ok b"
  with assistant_push_correct [OF inv a] push
  show "assistant_rest s (a @ b) = assistant_obs c (assistant_rest s' b)" by auto
qed

lemma new_assistant_parser_inv:
  "new_assistant_parser mode =
     Some \<lparr>plan_mode = mode, citation_part = citation_parser, plan_part = new_plan_parser\<rparr>"
  "assistant_inv \<lparr>plan_mode = mode, citation_part = citation_parser, plan_part = new_plan_parser\<rparr>"
proof -
  have "ascii_specs citation_specs"
    by (simp add: ascii_specs_def citation_specs_def CITATION_OPEN_def CITATION_CLOSE_def is_ascii_byte_def)
  then show "new_assistant_parser mode =
      Some \<lparr>plan_mode = mode, citation_part = citation_parser, plan_part = new_plan_parser\<rparr>"
    "assistant_inv \<lparr>plan_mode = mode, citation_part = citation_parser, plan_part = new_plan_parser\<rparr>"
    using citation_parser_inv new_plan_parser_inv
    by (simp_all add: new_assistant_parser_def new_citation_parser_eq assistant_inv_def citation_inv_def)
      (simp_all add: citation_parser_def active_ascii_def)
qed

lemma foldr_assistant_obs:
  "foldr assistant_obs outs ([], [], []) =
     (concat (map at_visible_text outs), plan_atoms (concat (map plan_segments outs)),
      concat (map at_citations outs))"
  by (induction outs) (simp_all add: plan_atoms_append, simp add: plan_atoms_def)

text \<open>C22: The streaming parser of assistant text computes, however the text is cut into chunks,
  what the two functions on whole texts compute one after the other: the citations and
  the visible text of \<open>strip_citations\<close>, and in plan mode that text without its plan
  blocks and the plan in it.\<close>

theorem assistant_chunks_whole_text:
  assumes "list_all str_ok cs"
  shows "\<exists>p outs v cits. new_assistant_parser mode = Some p \<and>
    run_parser assistant_push_str assistant_finish p cs = Some outs \<and>
    strip_citations (concat cs) = Some (v, cits) \<and>
    concat (map at_citations outs) = cits \<and>
    concat (map at_visible_text outs) = (if mode then strip_proposed_plan_blocks v else v) \<and>
    plan_text_of (concat (map plan_segments outs)) =
      (if mode then extract_proposed_plan_text v else None)"
proof -
  let ?p = "\<lparr>plan_mode = mode, citation_part = citation_parser, plan_part = new_plan_parser\<rparr>"
  note new = new_assistant_parser_inv [of mode]
  from assistant.run_rest [OF new(2) assms] obtain outs where
    run: "run_parser assistant_push_str assistant_finish ?p cs = Some outs"
    and all: "foldr assistant_obs outs ([], [], []) = assistant_rest ?p (concat cs)" by auto
  have whole_ok: "str_ok (concat cs)" by (rule assistant.text_ok_concat [OF assms])
  define c where "c = citation_rest citation_parser (concat cs)"
  have strip: "strip_citations (concat cs) = Some (visible_text c, extracted c)"
    using strip_citations_spec [OF str_ok_start [OF whole_ok]]
    by (simp add: c_def citation_rest_def inline_rest_def citation_parser_def Let_def)
  have "str_start (visible_text c)"
    using citation_rest_cut_ok [OF _ whole_ok, of citation_parser] new(2)
    by (simp add: c_def assistant_inv_def str_ok_start)
  note whole = whole_plan_text [OF this]
  have none: "plan_of_atoms [] = None" by (simp add: plan_of_atoms_def)
  have "concat (map at_citations outs) = extracted c \<and>
      concat (map at_visible_text outs) = (if mode then strip_proposed_plan_blocks (visible_text c) else visible_text c) \<and>
      plan_text_of (concat (map plan_segments outs)) =
        (if mode then extract_proposed_plan_text (visible_text c) else None)"
    using all whole none
    by (auto simp: foldr_assistant_obs assistant_rest_def Let_def plan_text_of_atoms c_def)
  with new(1) run strip show ?thesis by blast
qed

theorem assistant_chunks_whole_text_witness:
  "\<exists>p outs v cits. new_assistant_parser True = Some p \<and>
    run_parser assistant_push_str assistant_finish p
      [''Intro<oai-mem-cita'', ''tion>doc</oai-mem-citation>'' @ [nl], ''<proposed_plan>'' @ [nl] @ ''x''] = Some outs \<and>
    strip_citations (concat [''Intro<oai-mem-cita'', ''tion>doc</oai-mem-citation>'' @ [nl], ''<proposed_plan>'' @ [nl] @ ''x'']) =
      Some (v, cits) \<and>
    concat (map at_citations outs) = cits \<and>
    concat (map at_visible_text outs) = strip_proposed_plan_blocks v \<and>
    plan_text_of (concat (map plan_segments outs)) = extract_proposed_plan_text v"
proof -
  have "list_all str_ok [''Intro<oai-mem-cita'', ''tion>doc</oai-mem-citation>'' @ [nl], ''<proposed_plan>'' @ [nl] @ ''x'']"
    by (auto intro!: str_ok_ascii simp: is_ascii_byte_def nl_def)
  from assistant_chunks_whole_text [OF this, of True] show ?thesis by (simp only: if_True)
qed

end
