(* ===== verification/Utf8_Stream.thy ===== *)
theory Utf8_Stream
  imports Citation
begin

section \<open>Streamed bytes\<close>

text \<open>
  A model of \<^verbatim>\<open>codex-rs/utils/stream-parser/src/utf8_stream.rs\<close>: a wrapper that feeds a text parser
  with the complete code points of a stream of bytes.  \<open>from_utf8\<close> is the standard
  library's validation, with the offset and the length it reports for an error.

  The wrapped parser is a parameter of the definitions; the locale \<open>utf8_inner\<close> is what
  the wrapper needs of it, and the citation parser is an instance.
\<close>

subsection \<open>UTF-8 validation\<close>

datatype utf8_step = Code_Point nat | Bad_Sequence nat | Truncated

abbreviation byte :: "char \<Rightarrow> nat" where
  "byte c \<equiv> of_char c"

definition byte_in :: "char \<Rightarrow> nat \<Rightarrow> nat \<Rightarrow> bool" where
  "byte_in c lo hi = (lo \<le> byte c \<and> byte c \<le> hi)"

definition second_of_three :: "char \<Rightarrow> char \<Rightarrow> bool" where
  "second_of_three b0 b1 =
     ((byte b0 = 0xE0 \<and> byte_in b1 0xA0 0xBF) \<or> (byte_in b0 0xE1 0xEC \<and> byte_in b1 0x80 0xBF) \<or>
      (byte b0 = 0xED \<and> byte_in b1 0x80 0x9F) \<or> (byte_in b0 0xEE 0xEF \<and> byte_in b1 0x80 0xBF))"

definition second_of_four :: "char \<Rightarrow> char \<Rightarrow> bool" where
  "second_of_four b0 b1 =
     ((byte b0 = 0xF0 \<and> byte_in b1 0x90 0xBF) \<or> (byte_in b0 0xF1 0xF3 \<and> byte_in b1 0x80 0xBF) \<or>
      (byte b0 = 0xF4 \<and> byte_in b1 0x80 0x8F))"

fun utf8_next :: "string \<Rightarrow> utf8_step" where
  "utf8_next [] = Truncated"
| "utf8_next (b0 # r) =
     (if byte b0 < 0x80 then Code_Point 1
      else if byte_in b0 0xC2 0xDF then
        (case r of
           [] \<Rightarrow> Truncated
         | b1 # _ \<Rightarrow> if is_cont_byte b1 then Code_Point 2 else Bad_Sequence 1)
      else if byte_in b0 0xE0 0xEF then
        (case r of
           [] \<Rightarrow> Truncated
         | b1 # r1 \<Rightarrow>
             if \<not> second_of_three b0 b1 then Bad_Sequence 1
             else (case r1 of
                     [] \<Rightarrow> Truncated
                   | b2 # _ \<Rightarrow> if is_cont_byte b2 then Code_Point 3 else Bad_Sequence 2))
      else if byte_in b0 0xF0 0xF4 then
        (case r of
           [] \<Rightarrow> Truncated
         | b1 # r1 \<Rightarrow>
             if \<not> second_of_four b0 b1 then Bad_Sequence 1
             else (case r1 of
                     [] \<Rightarrow> Truncated
                   | b2 # r2 \<Rightarrow>
                       if \<not> is_cont_byte b2 then Bad_Sequence 2
                       else (case r2 of
                               [] \<Rightarrow> Truncated
                             | b3 # _ \<Rightarrow> if is_cont_byte b3 then Code_Point 4 else Bad_Sequence 3)))
      else Bad_Sequence 1)"

lemma utf8_next_bound: "utf8_next s = Code_Point n \<Longrightarrow> 0 < n \<and> n \<le> length s"
  by (cases s) (auto split: if_splits list.splits)

lemma utf8_next_append:
  "utf8_next s = Code_Point n \<Longrightarrow> utf8_next (s @ t) = Code_Point n"
  "utf8_next s = Bad_Sequence n \<Longrightarrow> utf8_next (s @ t) = Bad_Sequence n"
  by (cases s; auto split: if_splits list.splits)+

lemma utf8_next_take: "utf8_next s = Code_Point n \<Longrightarrow> utf8_next (take n s) = Code_Point n"
  by (cases s) (auto simp: numeral_eq_Suc split: if_splits list.splits)

text \<open>\<open>Ok\<close>, or \<open>valid_up_to\<close> and \<open>error_len\<close>.\<close>

record utf8_error =
  err_valid_up_to :: nat
  err_error_len :: "nat option"

function utf8_check :: "nat \<Rightarrow> string \<Rightarrow> utf8_error option" where
  "utf8_check off s =
     (if s = [] then None
      else (case utf8_next s of
              Code_Point n \<Rightarrow> if n = 0 then None else utf8_check (off + n) (drop n s)
            | Bad_Sequence n \<Rightarrow> Some \<lparr>err_valid_up_to = off, err_error_len = Some n\<rparr>
            | Truncated \<Rightarrow> Some \<lparr>err_valid_up_to = off, err_error_len = None\<rparr>))"
  by pat_completeness auto
termination
  by (relation "measure (\<lambda>(off, s). length s)") auto

declare utf8_check.simps [simp del]

definition from_utf8 :: "string \<Rightarrow> utf8_error option" where
  "from_utf8 s = utf8_check 0 s"

definition valid_utf8 :: "string \<Rightarrow> bool" where
  "valid_utf8 s = (from_utf8 s = None)"

subsection \<open>The wrapper\<close>

datatype utf8_stream_parser_error =
    InvalidUtf8 nat nat
  | IncompleteUtf8AtEof

record 's utf8_stream_parser =
  inner :: 's
  pending_utf8 :: string

definition new_utf8_parser :: "'s \<Rightarrow> 's utf8_stream_parser" where
  "new_utf8_parser p = \<lparr>inner = p, pending_utf8 = []\<rparr>"

type_synonym ('s, 'x) utf8_result =
  "('s utf8_stream_parser \<times> (utf8_stream_parser_error + 'x stream_text_chunk)) option"

definition push_bytes ::
  "('s \<Rightarrow> string \<Rightarrow> ('s \<times> 'x stream_text_chunk) option) \<Rightarrow> 's utf8_stream_parser \<Rightarrow> string \<Rightarrow> ('s, 'x) utf8_result"
where
  "push_bytes push p chunk =
     (let buf = pending_utf8 p @ chunk in
      case from_utf8 buf of
        None \<Rightarrow> map_option (\<lambda>(s, out). (\<lparr>inner = s, pending_utf8 = []\<rparr>, Inr out)) (push (inner p) buf)
      | Some err \<Rightarrow>
          (case err_error_len err of
             Some error_len \<Rightarrow>
               Some (p\<lparr>pending_utf8 := take (length (pending_utf8 p)) buf\<rparr>,
                     Inl (InvalidUtf8 (err_valid_up_to err) error_len))
           | None \<Rightarrow>
               (let valid_up_to = err_valid_up_to err in
                if valid_up_to = 0 then Some (p\<lparr>pending_utf8 := buf\<rparr>, Inr empty_chunk)
                else (case from_utf8 (take valid_up_to buf) of
                        Some prefix_err \<Rightarrow>
                          Some (p\<lparr>pending_utf8 := take (length (pending_utf8 p)) buf\<rparr>,
                                Inl (InvalidUtf8 (err_valid_up_to prefix_err)
                                  (case err_error_len prefix_err of Some n \<Rightarrow> n | None \<Rightarrow> 0)))
                      | None \<Rightarrow>
                          map_option (\<lambda>(s, out). (\<lparr>inner = s, pending_utf8 = drop valid_up_to buf\<rparr>, Inr out))
                            (push (inner p) (take valid_up_to buf))))))"

definition utf8_finish ::
  "('s \<Rightarrow> string \<Rightarrow> ('s \<times> 'x stream_text_chunk) option) \<Rightarrow> ('s \<Rightarrow> 's \<times> 'x stream_text_chunk) \<Rightarrow>
   's utf8_stream_parser \<Rightarrow> ('s, 'x) utf8_result"
where
  "utf8_finish push fin p =
     (if pending_utf8 p = [] then
        (let (s, tail) = fin (inner p)
         in Some (p\<lparr>inner := s\<rparr>, Inr (chunk_append empty_chunk tail)))
      else (case from_utf8 (pending_utf8 p) of
              Some err \<Rightarrow>
                Some (p, Inl (case err_error_len err of
                                Some error_len \<Rightarrow> InvalidUtf8 (err_valid_up_to err) error_len
                              | None \<Rightarrow> IncompleteUtf8AtEof))
            | None \<Rightarrow>
                (case push (inner p) (pending_utf8 p) of
                   None \<Rightarrow> None
                 | Some (s, out) \<Rightarrow>
                     (let (s', tail) = fin s
                      in Some (\<lparr>inner = s', pending_utf8 = []\<rparr>, Inr (chunk_append out tail))))))"

definition into_inner :: "'s utf8_stream_parser \<Rightarrow> utf8_stream_parser_error + 's" where
  "into_inner p =
     (if pending_utf8 p = [] then Inr (inner p)
      else (case from_utf8 (pending_utf8 p) of
              None \<Rightarrow> Inr (inner p)
            | Some err \<Rightarrow>
                Inl (case err_error_len err of
                       Some error_len \<Rightarrow> InvalidUtf8 (err_valid_up_to err) error_len
                     | None \<Rightarrow> IncompleteUtf8AtEof)))"

definition into_inner_lossy :: "'s utf8_stream_parser \<Rightarrow> 's" where
  "into_inner_lossy p = inner p"

text \<open>Push every chunk of bytes, then flush.\<close>

fun run_bytes ::
  "('s \<Rightarrow> string \<Rightarrow> ('s \<times> 'x stream_text_chunk) option) \<Rightarrow> ('s \<Rightarrow> 's \<times> 'x stream_text_chunk) \<Rightarrow>
   's utf8_stream_parser \<Rightarrow> string list \<Rightarrow> (utf8_stream_parser_error + 'x stream_text_chunk list) option"
where
  "run_bytes push fin p [] =
     (case utf8_finish push fin p of
        None \<Rightarrow> None | Some (_, Inl e) \<Rightarrow> Some (Inl e) | Some (_, Inr out) \<Rightarrow> Some (Inr [out]))"
| "run_bytes push fin p (b # bs) =
     (case push_bytes push p b of
        None \<Rightarrow> None
      | Some (_, Inl e) \<Rightarrow> Some (Inl e)
      | Some (p', Inr out) \<Rightarrow>
          (case run_bytes push fin p' bs of
             None \<Rightarrow> None | Some (Inl e) \<Rightarrow> Some (Inl e) | Some (Inr outs) \<Rightarrow> Some (Inr (out # outs))))"

subsection \<open>Validation of text that grows\<close>

lemma utf8_check_shift:
  "utf8_check off s = map_option (\<lambda>e. e\<lparr>err_valid_up_to := off + err_valid_up_to e\<rparr>) (utf8_check 0 s)"
proof (induction s arbitrary: off rule: length_induct)
  case (1 s)
  show ?case
  proof (cases "utf8_next s")
    case (Code_Point n)
    note n = utf8_next_bound [OF this]
    then have "length (drop n s) < length s" by auto
    with 1 have "utf8_check m (drop n s) =
        map_option (\<lambda>e. e\<lparr>err_valid_up_to := m + err_valid_up_to e\<rparr>) (utf8_check 0 (drop n s))" for m by blast
    from this [of "off + n"] this [of n] Code_Point n show ?thesis
      by (subst utf8_check.simps, subst utf8_check.simps [of 0 s])
        (auto simp: option.map_comp comp_def add.assoc)
  qed (simp_all add: utf8_check.simps [of _ s])
qed

lemma from_utf8_Code_Point:
  "utf8_next s = Code_Point n \<Longrightarrow>
     from_utf8 s = map_option (\<lambda>e. e\<lparr>err_valid_up_to := n + err_valid_up_to e\<rparr>) (from_utf8 (drop n s))"
  using utf8_next_bound [of s n] utf8_check_shift [of n "drop n s"]
  by (auto simp: from_utf8_def utf8_check.simps [of 0 s])

lemma valid_utf8_Nil [simp]: "valid_utf8 []"
  by (simp add: valid_utf8_def from_utf8_def utf8_check.simps)

lemma valid_utf8_Code_Point:
  "utf8_next s = Code_Point n \<Longrightarrow> valid_utf8 s \<longleftrightarrow> valid_utf8 (drop n s)"
  by (simp add: valid_utf8_def from_utf8_Code_Point)

lemma valid_utf8_next: "valid_utf8 s \<Longrightarrow> s \<noteq> [] \<Longrightarrow> \<exists>n. utf8_next s = Code_Point n"
  by (cases "utf8_next s") (simp_all add: valid_utf8_def from_utf8_def utf8_check.simps [of 0 s])

lemma valid_utf8_append: "valid_utf8 s \<Longrightarrow> valid_utf8 (s @ t) \<longleftrightarrow> valid_utf8 t"
proof (induction s rule: length_induct)
  case (1 s)
  show ?case
  proof (cases "s = []")
    case False
    with valid_utf8_next "1.prems" obtain n where n: "utf8_next s = Code_Point n" by blast
    note bound = utf8_next_bound [OF n]
    from n "1.prems" have "valid_utf8 (drop n s)" by (simp add: valid_utf8_Code_Point)
    moreover have "length (drop n s) < length s" using bound by auto
    ultimately have "valid_utf8 (drop n s @ t) = valid_utf8 t" using "1.IH" by blast
    with valid_utf8_Code_Point [OF utf8_next_append(1) [OF n]] bound show ?thesis by simp
  qed simp
qed

text \<open>An error: the part before it is valid, and a reported length means that no more
  bytes make the text valid.\<close>

lemma from_utf8_error:
  assumes "from_utf8 s = Some e"
  shows "err_valid_up_to e \<le> length s" and "valid_utf8 (take (err_valid_up_to e) s)"
    and "err_error_len e = Some m \<Longrightarrow> \<not> valid_utf8 (s @ t)"
proof -
  have "err_valid_up_to e \<le> length s \<and> valid_utf8 (take (err_valid_up_to e) s) \<and>
      (\<forall>m. err_error_len e = Some m \<longrightarrow> \<not> valid_utf8 (s @ t))"
    using assms
  proof (induction s arbitrary: e rule: length_induct)
    case (1 s)
    then have s: "s \<noteq> []" by (auto simp: from_utf8_def utf8_check.simps)
    show ?case
    proof (cases "utf8_next s")
      case (Code_Point n)
      note bound = utf8_next_bound [OF Code_Point]
      from "1.prems" from_utf8_Code_Point [OF Code_Point] obtain e' where
        e': "from_utf8 (drop n s) = Some e'" "e = e'\<lparr>err_valid_up_to := n + err_valid_up_to e'\<rparr>" by auto
      have "length (drop n s) < length s" using bound by auto
      with "1.IH" e'(1) have IH: "err_valid_up_to e' \<le> length (drop n s)"
        "valid_utf8 (take (err_valid_up_to e') (drop n s))"
        "\<forall>m. err_error_len e' = Some m \<longrightarrow> \<not> valid_utf8 (drop n s @ t)" by blast+
      have "valid_utf8 (take n s)"
        using valid_utf8_Code_Point [OF utf8_next_take [OF Code_Point]] by simp
      with IH(2) have "valid_utf8 (take (n + err_valid_up_to e') s)" by (simp add: take_add valid_utf8_append)
      moreover have "valid_utf8 (s @ t) \<longleftrightarrow> valid_utf8 (drop n s @ t)"
        using valid_utf8_Code_Point [OF utf8_next_append(1) [OF Code_Point]] bound by simp
      ultimately show ?thesis using IH e'(2) bound by auto
    next
      case (Bad_Sequence m)
      with utf8_next_append(2) [OF this, of t] s "1.prems" show ?thesis
        by (auto simp: from_utf8_def valid_utf8_def utf8_check.simps [of 0 "s @ t"] utf8_check.simps [of 0 s] utf8_check.simps [of 0 "[]"])
    next
      case Truncated
      with s "1.prems" show ?thesis
        by (auto simp: from_utf8_def valid_utf8_def utf8_check.simps [of 0 s] utf8_check.simps [of 0 "[]"])
    qed
  qed
  then show "err_valid_up_to e \<le> length s" and "valid_utf8 (take (err_valid_up_to e) s)"
    and "err_error_len e = Some m \<Longrightarrow> \<not> valid_utf8 (s @ t)" by blast+
qed

lemma cont_byte_not_first: "utf8_next (b # s) = Code_Point n \<Longrightarrow> \<not> is_cont_byte b"
  by (auto simp: is_cont_byte_def Let_def byte_in_def split: if_splits)

lemma valid_utf8_start: "valid_utf8 s \<Longrightarrow> str_start s"
proof (cases s)
  case (Cons b r)
  assume "valid_utf8 s"
  with Cons valid_utf8_next obtain n where "utf8_next (b # r) = Code_Point n" by blast
  with Cons cont_byte_not_first show ?thesis by (auto simp: str_start_def)
qed simp

subsection \<open>The wrapper on a stream parser\<close>

locale utf8_inner =
  stream_text_parser push_str finish text_ok inv rest obs nothing
  for push_str :: "'s \<Rightarrow> string \<Rightarrow> ('s \<times> 'x stream_text_chunk) option"
    and finish :: "'s \<Rightarrow> 's \<times> 'x stream_text_chunk"
    and text_ok :: "string \<Rightarrow> bool"
    and inv :: "'s \<Rightarrow> bool"
    and rest :: "'s \<Rightarrow> string \<Rightarrow> 'o"
    and obs :: "'x stream_text_chunk \<Rightarrow> 'o \<Rightarrow> 'o"
    and nothing :: 'o +
  assumes text_ok_valid: "valid_utf8 t \<Longrightarrow> text_ok t"
    and obs_append: "obs (chunk_append a b) r = obs a (obs b r)"
    and obs_empty: "obs empty_chunk r = r"
begin

text \<open>A push on bytes that can be completed to a valid text: it succeeds, and the bytes
  that are still buffered belong to the text that follows.\<close>

lemma push_bytes_rest:
  assumes "inv (inner p)" and "valid_utf8 (pending_utf8 p @ b @ t)"
  shows "\<exists>p' out. push_bytes push_str p b = Some (p', Inr out) \<and> inv (inner p') \<and>
    valid_utf8 (pending_utf8 p' @ t) \<and>
    rest (inner p) (pending_utf8 p @ b @ t) = obs out (rest (inner p') (pending_utf8 p' @ t))"
proof -
  let ?buf = "pending_utf8 p @ b"
  have push: "\<exists>s out. push_str (inner p) u = Some (s, out) \<and> inv s \<and> valid_utf8 v \<and>
      rest (inner p) (u @ v) = obs out (rest s v)" if "valid_utf8 u" "valid_utf8 (u @ v)" for u v
  proof -
    from that have v: "valid_utf8 v" by (simp add: valid_utf8_append)
    note ok = text_ok_valid [OF that(1)] text_ok_valid [OF v]
    from push_total [OF assms(1) ok(1)] obtain s out where "push_str (inner p) u = Some (s, out)" by fast
    with push_inv [OF assms(1) ok(1) this] push_rest [OF assms(1) ok(1) this ok(2)] v show ?thesis by blast
  qed
  show ?thesis
  proof (cases "from_utf8 ?buf")
    case None
    with push [of ?buf t] assms(2) show ?thesis
      by (auto simp: push_bytes_def valid_utf8_def)
  next
    case (Some e)
    note err = from_utf8_error [OF Some]
    have len: "err_error_len e = None" using err(3) assms(2) by (cases "err_error_len e") auto
    have split: "take (err_valid_up_to e) ?buf @ drop (err_valid_up_to e) ?buf @ t = ?buf @ t"
      by (metis append_assoc append_take_drop_id)
    show ?thesis
    proof (cases "err_valid_up_to e = 0")
      case True
      with Some len assms show ?thesis by (simp add: push_bytes_def obs_empty)
    next
      case False
      have "valid_utf8 (take (err_valid_up_to e) ?buf @ (drop (err_valid_up_to e) ?buf @ t))"
        unfolding split using assms(2) by simp
      from push [OF err(2) this] obtain s out where
        "push_str (inner p) (take (err_valid_up_to e) ?buf) = Some (s, out)" "inv s"
        "valid_utf8 (drop (err_valid_up_to e) ?buf @ t)"
        "rest (inner p) (?buf @ t) = obs out (rest s (drop (err_valid_up_to e) ?buf @ t))"
        unfolding split by blast
      with Some len False err(2) show ?thesis
        by (simp add: push_bytes_def valid_utf8_def Let_def del: take_append drop_append)
    qed
  qed
qed

lemma finish_bytes_rest:
  assumes "inv (inner p)" and "valid_utf8 (pending_utf8 p)"
  shows "\<exists>p' out. utf8_finish push_str finish p = Some (p', Inr out) \<and>
    rest (inner p) (pending_utf8 p) = obs out nothing"
proof (cases "pending_utf8 p = []")
  case True
  with finish_rest [OF assms(1)] show ?thesis
    by (simp add: utf8_finish_def split: prod.split)
next
  case False
  from run_whole [OF assms(1) text_ok_valid [OF assms(2)]] False assms(2) show ?thesis
    by (auto simp: utf8_finish_def valid_utf8_def obs_append split: prod.split)
qed

lemma run_bytes_rest:
  assumes "inv (inner p)" and "valid_utf8 (pending_utf8 p @ concat bs)"
  shows "\<exists>outs. run_bytes push_str finish p bs = Some (Inr outs) \<and>
    foldr obs outs nothing = rest (inner p) (pending_utf8 p @ concat bs)"
  using assms
proof (induction bs arbitrary: p)
  case Nil
  then show ?case using finish_bytes_rest [of p] by auto
next
  case (Cons b bs)
  from push_bytes_rest [of p b "concat bs"] Cons.prems obtain p' out where
    "push_bytes push_str p b = Some (p', Inr out)" "inv (inner p')" "valid_utf8 (pending_utf8 p' @ concat bs)"
    "rest (inner p) (pending_utf8 p @ b @ concat bs) = obs out (rest (inner p') (pending_utf8 p' @ concat bs))"
    by auto
  with Cons.IH [of p'] show ?case by auto
qed

end

interpretation citation_bytes: utf8_inner citation_push_str citation_finish str_start inline_inv citation_rest
  chunk_append empty_chunk
  by unfold_locales (simp_all add: valid_utf8_start chunk_append_assoc)

lemma concat_chunks:
  "foldr chunk_append outs empty_chunk =
     \<lparr>visible_text = concat (map visible_text outs), extracted = concat (map extracted outs)\<rparr>"
  by (induction outs) (simp_all add: empty_chunk_def chunk_append_def)

text \<open>Bytes of a valid UTF-8 text may be cut anywhere, also inside code points: the wrapper
  around the citation parser accepts every piece and the outputs together are what
  \<open>strip_citations\<close> returns for the text.\<close>

lemma citation_bytes_strip_citations:
  assumes "valid_utf8 (concat bs)"
  shows "\<exists>p outs. new_citation_parser = Some p \<and>
    run_bytes citation_push_str citation_finish (new_utf8_parser p) bs = Some (Inr outs) \<and>
    strip_citations (concat bs) = Some (concat (map visible_text outs), concat (map extracted outs))"
proof -
  from citation_bytes.run_bytes_rest [of "new_utf8_parser citation_parser" bs] citation_parser_inv assms
  obtain outs where run: "run_bytes citation_push_str citation_finish (new_utf8_parser citation_parser) bs = Some (Inr outs)"
    and all: "foldr chunk_append outs empty_chunk = citation_rest citation_parser (concat bs)"
    by (auto simp: new_utf8_parser_def)
  have "citation_chunk (strip_tags citation_specs None (concat bs)) =
      \<lparr>visible_text = concat (map visible_text outs), extracted = concat (map extracted outs)\<rparr>"
    using all by (simp add: concat_chunks citation_rest_def inline_rest_def citation_parser_def)
  with run strip_citations_spec [OF valid_utf8_start [OF assms]] show ?thesis
    by (simp add: new_citation_parser_eq)
qed

text \<open>A push that reports invalid UTF-8 leaves the parser as it was, and no further bytes
  could have made the stream valid.\<close>

lemma push_bytes_error_rolls_back:
  assumes "push_bytes push p b = Some (p', Inl e)"
  shows "p' = p \<and> (\<forall>t. \<not> valid_utf8 (pending_utf8 p @ b @ t)) \<and> (\<exists>off n. e = InvalidUtf8 off n)"
proof -
  let ?buf = "pending_utf8 p @ b"
  from assms obtain err where err: "from_utf8 ?buf = Some err"
    by (auto simp: push_bytes_def Let_def split: option.splits)
  from from_utf8_error(2) [OF this] have ok: "from_utf8 (take (err_valid_up_to err) ?buf) = None"
    by (simp add: valid_utf8_def)
  with assms err obtain n where n: "err_error_len err = Some n"
    by (auto simp: push_bytes_def Let_def simp del: take_append split: option.splits if_splits)
  from from_utf8_error(3) [OF err n] have "\<forall>t. \<not> valid_utf8 (pending_utf8 p @ b @ t)" by simp
  with assms err n show ?thesis by (auto simp: push_bytes_def Let_def)
qed

end
