(* ===== verification/Head_Tail_Buffer.thy ===== *)
theory Head_Tail_Buffer
  imports Rust_Base
begin

section \<open>The buffer of command output\<close>

text \<open>
  A model of \<^verbatim>\<open>codex-rs/core/src/unified_exec/head_tail_buffer.rs\<close>: a buffer of bounded size that
  keeps the beginning and the end of what was pushed.  The abstract specification is a
  function of everything pushed since the last drain (\<open>kept\<close>); the chunks, counters and
  the trimming loop of the code refine it.
\<close>

subsection \<open>State and operations\<close>

record head_tail_buffer =
  max_bytes :: nat
  head_budget :: nat
  tail_budget :: nat
  head :: "string list"
  tail :: "string list"
  head_bytes :: nat
  tail_bytes :: nat
  omitted_bytes :: nat

definition new_buffer :: "nat \<Rightarrow> head_tail_buffer" where
  "new_buffer n =
     (let hb = n div 2; tb = saturating_sub n hb in
      \<lparr>max_bytes = n, head_budget = hb, tail_budget = tb, head = [], tail = [],
       head_bytes = 0, tail_bytes = 0, omitted_bytes = 0\<rparr>)"

definition retained_bytes :: "head_tail_buffer \<Rightarrow> nat" where
  "retained_bytes b = saturating_add (head_bytes b) (tail_bytes b)"

text \<open>The loop of \<open>trim_tail_to_budget\<close>, on the tail, its byte count and the omitted bytes.\<close>

fun trim_loop :: "nat \<Rightarrow> string list \<Rightarrow> nat \<Rightarrow> nat \<Rightarrow> string list \<times> nat \<times> nat" where
  "trim_loop excess [] tb om = ([], tb, om)"
| "trim_loop excess (front # rest) tb om =
     (if excess = 0 then (front # rest, tb, om)
      else if excess \<ge> length front then
        trim_loop (excess - length front) rest (saturating_sub tb (length front))
          (saturating_add om (length front))
      else (drop excess front # rest, saturating_sub tb excess, saturating_add om excess))"

definition trim_tail_to_budget :: "head_tail_buffer \<Rightarrow> head_tail_buffer" where
  "trim_tail_to_budget b =
     (let (t, tb, om) = trim_loop (saturating_sub (tail_bytes b) (tail_budget b)) (tail b)
                          (tail_bytes b) (omitted_bytes b)
      in b\<lparr>tail := t, tail_bytes := tb, omitted_bytes := om\<rparr>)"

definition push_to_tail :: "string \<Rightarrow> head_tail_buffer \<Rightarrow> head_tail_buffer" where
  "push_to_tail chunk b =
     (if tail_budget b = 0 then
        b\<lparr>omitted_bytes := saturating_add (omitted_bytes b) (length chunk)\<rparr>
      else if length chunk \<ge> tail_budget b then
        (let kept = drop (saturating_sub (length chunk) (tail_budget b)) chunk;
             dropped = saturating_sub (length chunk) (length kept)
         in b\<lparr>omitted_bytes := saturating_add (saturating_add (omitted_bytes b) (tail_bytes b)) dropped,
              tail := [kept], tail_bytes := length kept\<rparr>)
      else
        trim_tail_to_budget
          (b\<lparr>tail_bytes := saturating_add (tail_bytes b) (length chunk), tail := tail b @ [chunk]\<rparr>))"

definition push_chunk :: "string \<Rightarrow> head_tail_buffer \<Rightarrow> head_tail_buffer" where
  "push_chunk chunk b =
     (if max_bytes b = 0 then
        b\<lparr>omitted_bytes := saturating_add (omitted_bytes b) (length chunk)\<rparr>
      else if head_bytes b < head_budget b then
        (let remaining_head = saturating_sub (head_budget b) (head_bytes b) in
         if length chunk \<le> remaining_head then
           b\<lparr>head_bytes := saturating_add (head_bytes b) (length chunk), head := head b @ [chunk]\<rparr>
         else
           (let head_part = take remaining_head chunk; tail_part = drop remaining_head chunk;
                b' = (if head_part \<noteq> [] then
                        b\<lparr>head_bytes := saturating_add (head_bytes b) (length head_part),
                          head := head b @ [head_part]\<rparr>
                      else b)
            in push_to_tail tail_part b'))
      else push_to_tail chunk b)"

definition snapshot_chunks :: "head_tail_buffer \<Rightarrow> string list" where
  "snapshot_chunks b = head b @ tail b"

definition to_bytes :: "head_tail_buffer \<Rightarrow> string" where
  "to_bytes b = concat (head b) @ concat (tail b)"

definition drain_chunks :: "head_tail_buffer \<Rightarrow> head_tail_buffer \<times> string list" where
  "drain_chunks b =
     (b\<lparr>head := [], tail := [], head_bytes := 0, tail_bytes := 0, omitted_bytes := 0\<rparr>,
      head b @ tail b)"

subsection \<open>The abstract buffer\<close>

definition last_bytes :: "nat \<Rightarrow> 'a list \<Rightarrow> 'a list" where
  "last_bytes n xs = drop (length xs - n) xs"

text \<open>What a buffer keeps of a history: up to \<open>hb\<close> bytes of its start, then up to \<open>tb\<close> of its
  end.\<close>

definition kept :: "nat \<Rightarrow> nat \<Rightarrow> string \<Rightarrow> string" where
  "kept hb tb h = take hb h @ last_bytes tb (drop hb h)"

lemma length_last_bytes [simp]: "length (last_bytes n xs) = min n (length xs)"
  by (simp add: last_bytes_def min_def)

lemma length_kept: "length (kept hb tb h) = min (hb + tb) (length h)"
  unfolding kept_def length_append length_last_bytes length_take length_drop by arith

definition budgets_ok :: "head_tail_buffer \<Rightarrow> bool" where
  "budgets_ok b = (head_budget b + tail_budget b = max_bytes b \<and> max_bytes b \<le> usize_max \<and>
     2 * tail_budget b \<le> Suc usize_max)"

text \<open>The buffer holds the history \<open>h\<close>.\<close>

definition holds :: "head_tail_buffer \<Rightarrow> string \<Rightarrow> bool" where
  "holds b h =
     (budgets_ok b \<and>
      concat (head b) = take (head_budget b) h \<and>
      concat (tail b) = last_bytes (tail_budget b) (drop (head_budget b) h) \<and>
      head_bytes b = length (concat (head b)) \<and> tail_bytes b = length (concat (tail b)) \<and>
      omitted_bytes b = min usize_max (length h - max_bytes b))"

lemma holds_new: "n \<le> usize_max \<Longrightarrow> holds (new_buffer n) []"
proof -
  assume n: "n \<le> usize_max"
  have "2 * (n - n div 2) \<le> Suc n" by presburger
  with n show ?thesis by (simp add: holds_def budgets_ok_def new_buffer_def Let_def last_bytes_def)
qed

lemma last_bytes_append:
  "last_bytes n (xs @ ys) = (if length ys \<ge> n then last_bytes n ys else last_bytes n (last_bytes n xs @ ys))"
proof (cases "n \<le> length ys")
  case False
  have "length xs + length ys - n = length xs + length ys - (length xs - n + n) + (length xs - n)"
    using False by arith
  with False show ?thesis by (simp add: last_bytes_def)
qed (simp add: last_bytes_def)

lemma saturating_min: "saturating_add (min usize_max a) b = min usize_max (a + b)"
  by (simp add: saturating_add_def min_def)

lemma trim_loop_spec:
  assumes "excess \<le> length (concat t)" and "excess \<le> tb"
  shows "\<exists>t'. trim_loop excess t tb (min usize_max om) = (t', tb - excess, min usize_max (om + excess)) \<and>
    concat t' = drop excess (concat t)"
  using assms
proof (induction t arbitrary: excess tb om)
  case (Cons front rest)
  show ?case
  proof (cases "excess = 0 \<or> excess < length front")
    case True
    then show ?thesis by (auto simp: saturating_sub_def saturating_min)
  next
    case False
    with Cons.prems have "excess - length front \<le> length (concat rest)"
      "excess - length front \<le> tb - length front" by auto
    from Cons.IH [OF this, of "om + length front"] False show ?thesis
      by (auto simp: saturating_sub_def saturating_min)
  qed
qed simp

subsection \<open>Refinement\<close>

lemma push_to_tail_spec:
  assumes tail: "concat (tail b) = last_bytes (tail_budget b) r" "tail_bytes b = length (concat (tail b))"
    and om: "omitted_bytes b = min usize_max om" and ok: "budgets_ok b"
  shows "\<exists>t. push_to_tail chunk b = b\<lparr>tail := t, tail_bytes := length (concat t),
      omitted_bytes := min usize_max (om + (length (concat (tail b)) + length chunk - length (concat t)))\<rparr> \<and>
    concat t = last_bytes (tail_budget b) (r @ chunk)"
proof -
  consider "tail_budget b = 0" | "0 < tail_budget b" "tail_budget b \<le> length chunk"
    | "length chunk < tail_budget b" by linarith
  then show ?thesis
  proof cases
    case 1
    with tail have empty: "concat (tail b) = []" "tail_bytes b = 0" by (simp_all add: last_bytes_def)
    have "push_to_tail chunk b = b\<lparr>omitted_bytes := min usize_max (om + length chunk)\<rparr>"
      using 1 om by (simp add: push_to_tail_def saturating_min)
    moreover have "b\<lparr>tail_bytes := 0\<rparr> = b" using empty by simp
    ultimately show ?thesis using 1 empty
      by (intro exI [of _ "tail b"]) (simp add: last_bytes_def)
  next
    case 2
    let ?k = "last_bytes (tail_budget b) chunk"
    have k: "drop (length chunk - tail_budget b) chunk = ?k" by (simp add: last_bytes_def)
    have arith: "x + y + (z - w) = x + (y + z - w)" if "w \<le> z" for x y z w :: nat using that by simp
    have "length ?k \<le> length chunk" by simp
    note dropped = arith [OF this, of om "length (concat (tail b))"]
    have "push_to_tail chunk b = b\<lparr>omitted_bytes := saturating_add (saturating_add (min usize_max om)
        (length (concat (tail b)))) (length chunk - length ?k), tail := [?k], tail_bytes := length ?k\<rparr>"
      unfolding push_to_tail_def om tail(2) saturating_sub_eq k Let_def using 2 by simp
    also have "\<dots> = b\<lparr>tail := [?k], tail_bytes := length ?k,
        omitted_bytes := min usize_max (om + (length (concat (tail b)) + length chunk - length ?k))\<rparr>"
      unfolding saturating_min dropped by simp
    finally have "push_to_tail chunk b = b\<lparr>tail := [?k], tail_bytes := length (concat [?k]),
        omitted_bytes := min usize_max (om + (length (concat (tail b)) + length chunk - length (concat [?k])))\<rparr>"
      by (simp only: concat.simps append_Nil2)
    moreover have "concat [?k] = last_bytes (tail_budget b) (r @ chunk)"
      using 2 by (simp add: last_bytes_append)
    ultimately show ?thesis by blast
  next
    case 3
    let ?t = "tail b @ [chunk]"
    have "tail_bytes b \<le> tail_budget b" unfolding tail by simp
    with 3 ok have "tail_bytes b + length chunk \<le> usize_max" unfolding budgets_ok_def by linarith
    with tail(2) have bytes: "saturating_add (tail_bytes b) (length chunk) = length (concat ?t)"
      by (simp add: saturating_add_exact)
    define ex where "ex = length (concat ?t) - tail_budget b"
    have ex: "ex \<le> length (concat ?t)" by (simp add: ex_def)
    from trim_loop_spec [OF ex ex, of om] obtain t' where
      t': "trim_loop ex ?t (length (concat ?t)) (min usize_max om) =
        (t', length (concat ?t) - ex, min usize_max (om + ex))" "concat t' = drop ex (concat ?t)" by blast
    have "concat t' = last_bytes (tail_budget b) (last_bytes (tail_budget b) r @ chunk)"
    proof -
      have X: "concat ?t = last_bytes (tail_budget b) r @ chunk" using tail(1) by simp
      show ?thesis unfolding t'(2) ex_def X by (rule last_bytes_def [symmetric])
    qed
    moreover have "\<not> tail_budget b \<le> length chunk" using 3 by simp
    ultimately have concat: "concat t' = last_bytes (tail_budget b) (r @ chunk)"
      by (simp only: last_bytes_append [of _ r] if_False)
    have len: "length (concat ?t) - ex = length (concat t')" by (simp only: t'(2) length_drop)
    have "length (concat ?t) = length (concat (tail b)) + length chunk" by simp
    with len ex have dropped: "ex = length (concat (tail b)) + length chunk - length (concat t')" by linarith
    have "push_to_tail chunk b = trim_tail_to_budget (b\<lparr>tail_bytes := length (concat ?t), tail := ?t\<rparr>)"
      unfolding push_to_tail_def bytes using 3 by simp
    also have "\<dots> = b\<lparr>tail := t', tail_bytes := length (concat t'), omitted_bytes := min usize_max (om + ex)\<rparr>"
      unfolding trim_tail_to_budget_def using t'(1) om len ex_def [symmetric]
      by (simp del: length_concat concat_append)
    finally show ?thesis unfolding dropped using concat by blast
  qed
qed

lemma dropped_bytes:
  assumes "budgets_ok b" and "head_budget b \<le> length (h @ c)" and "length h \<le> head_budget b \<or> c = d"
    and "drop (head_budget b) (h @ c) = drop (head_budget b) h @ d"
  shows "(length h - max_bytes b) +
    (length (last_bytes (tail_budget b) (drop (head_budget b) h)) + length d -
     length (last_bytes (tail_budget b) (drop (head_budget b) h @ d))) = length (h @ c) - max_bytes b"
proof -
  have "length (drop (head_budget b) (h @ c)) = length (drop (head_budget b) h @ d)"
    by (simp only: assms(4))
  then show ?thesis using assms(1-3) by (auto simp: budgets_ok_def min_def)
qed

text \<open>Pushing a chunk is appending it to the history.\<close>

lemma holds_push_chunk:
  assumes "holds b h"
  shows "holds (push_chunk chunk b) (h @ chunk)"
proof -
  let ?hb = "head_budget b"
  have ok: "budgets_ok b"
    and head: "concat (head b) = take ?hb h" "head_bytes b = length (concat (head b))"
    and tail: "concat (tail b) = last_bytes (tail_budget b) (drop ?hb h)" "tail_bytes b = length (concat (tail b))"
    and om: "omitted_bytes b = min usize_max (length h - max_bytes b)"
    using assms by (simp_all add: holds_def)
  consider "max_bytes b = 0" | "0 < max_bytes b" "length h < ?hb" "length chunk \<le> ?hb - length h"
    | "0 < max_bytes b" "length h < ?hb" "?hb - length h < length chunk" | "0 < max_bytes b" "?hb \<le> length h"
    by linarith
  then show ?thesis
  proof cases
    case 1
    with ok have "?hb = 0" "tail_budget b = 0" by (simp_all add: budgets_ok_def)
    with 1 ok head tail om show ?thesis
      by (simp add: push_chunk_def holds_def saturating_min last_bytes_def budgets_ok_def)
  next
    case 2
    have "saturating_add (length h) (length chunk) = length h + length chunk"
      using 2 ok unfolding budgets_ok_def by (intro saturating_add_exact) linarith
    moreover have "length h + length chunk \<le> max_bytes b" using 2 ok unfolding budgets_ok_def by linarith
    ultimately show ?thesis using 2 ok head tail om
      by (simp add: push_chunk_def holds_def last_bytes_def budgets_ok_def)
  next
    case 3
    let ?k = "?hb - length h"
    let ?b = "b\<lparr>head_bytes := head_bytes b + ?k, head := head b @ [take ?k chunk]\<rparr>"
    have part: "take ?k chunk \<noteq> []" "length (take ?k chunk) = ?k" using 3 by auto
    have hlen: "head_bytes b = length h" using 3 head by simp
    have "saturating_add (head_bytes b) ?k = head_bytes b + ?k"
      using 3 hlen ok by (intro saturating_add_exact) (simp add: budgets_ok_def)
    with 3 hlen part have push: "push_chunk chunk b = push_to_tail (drop ?k chunk) ?b"
      by (simp add: push_chunk_def Let_def)
    have sel: "tail ?b = tail b" "tail_budget ?b = tail_budget b" "tail_bytes ?b = tail_bytes b"
      "omitted_bytes ?b = omitted_bytes b" "budgets_ok ?b = budgets_ok b" by (simp_all add: budgets_ok_def)
    from push_to_tail_spec [of ?b "drop ?hb h" "length h - max_bytes b" "drop ?k chunk", unfolded sel, OF tail om ok]
    obtain t where t: "push_to_tail (drop ?k chunk) ?b = ?b\<lparr>tail := t, tail_bytes := length (concat t),
        omitted_bytes := min usize_max ((length h - max_bytes b) +
          (length (concat (tail b)) + length (drop ?k chunk) - length (concat t)))\<rparr>"
      "concat t = last_bytes (tail_budget b) (drop ?hb h @ drop ?k chunk)" by blast
    have split: "drop ?hb (h @ chunk) = drop ?hb h @ drop ?k chunk" "take ?hb (h @ chunk) = h @ take ?k chunk"
      using 3 by simp_all
    have "(length h - max_bytes b) + (length (concat (tail b)) + length (drop ?k chunk) - length (concat t)) =
        length (h @ chunk) - max_bytes b"
      unfolding t(2) tail(1) by (rule dropped_bytes [OF ok _ _ split(1)]) (use 3 in auto)
    with 3 t head ok split part hlen show ?thesis
      unfolding push holds_def by (simp add: budgets_ok_def)
  next
    case 4
    with head have full: "\<not> head_bytes b < ?hb" by simp
    from push_to_tail_spec [OF tail om ok, of chunk] obtain t where
      t: "push_to_tail chunk b = b\<lparr>tail := t, tail_bytes := length (concat t),
        omitted_bytes := min usize_max ((length h - max_bytes b) +
          (length (concat (tail b)) + length chunk - length (concat t)))\<rparr>"
      "concat t = last_bytes (tail_budget b) (drop ?hb h @ chunk)" by blast
    have "(length h - max_bytes b) + (length (concat (tail b)) + length chunk - length (concat t)) =
        length (h @ chunk) - max_bytes b"
      unfolding t(2) tail(1) by (rule dropped_bytes [OF ok]) (use 4 in auto)
    with 4 full t head ok show ?thesis
      by (simp add: push_chunk_def holds_def budgets_ok_def)
  qed
qed

lemma holds_pushes: "holds b h \<Longrightarrow> holds (fold push_chunk cs b) (h @ concat cs)"
proof (induction cs arbitrary: b h)
  case (Cons c cs)
  from Cons.IH [OF holds_push_chunk [OF Cons.prems, of c]] show ?case by simp
qed simp

lemma fold_push_budgets:
  "max_bytes (fold push_chunk cs b) = max_bytes b"
  "head_budget (fold push_chunk cs b) = head_budget b"
  "tail_budget (fold push_chunk cs b) = tail_budget b"
proof -
  have "max_bytes (push_chunk c b) = max_bytes b \<and> head_budget (push_chunk c b) = head_budget b \<and>
      tail_budget (push_chunk c b) = tail_budget b" for c b
    by (simp add: push_chunk_def push_to_tail_def trim_tail_to_budget_def Let_def split: prod.split)
  then have "max_bytes (fold push_chunk cs b) = max_bytes b \<and> head_budget (fold push_chunk cs b) = head_budget b \<and>
      tail_budget (fold push_chunk cs b) = tail_budget b"
    by (induction cs arbitrary: b) simp_all
  then show "max_bytes (fold push_chunk cs b) = max_bytes b"
    "head_budget (fold push_chunk cs b) = head_budget b"
    "tail_budget (fold push_chunk cs b) = tail_budget b" by simp_all
qed

lemma holds_to_bytes: "holds b h \<Longrightarrow> to_bytes b = kept (head_budget b) (tail_budget b) h"
  by (simp add: holds_def to_bytes_def kept_def)

text \<open>C28: A buffer of \<open>n\<close> bytes into which chunks were pushed returns the first \<open>n div 2\<close> bytes
  of everything pushed and the last ones of the rest, up to \<open>n\<close> in all, whatever the
  chunks were; the retained bytes are counted exactly, and so are the omitted ones up to
  the largest number.\<close>

theorem buffer_keeps_head_and_tail:
  fixes n :: nat and cs :: "string list"
  assumes "n \<le> usize_max"
  defines "b \<equiv> fold push_chunk cs (new_buffer n)" and "h \<equiv> concat cs"
  shows "to_bytes b = take (n div 2) h @ last_bytes (n - n div 2) (drop (n div 2) h) \<and>
    retained_bytes b = length (to_bytes b) \<and> length (to_bytes b) = min n (length h) \<and>
    omitted_bytes b = min usize_max (length h - length (to_bytes b)) \<and>
    concat (snapshot_chunks b) = to_bytes b"
proof -
  have b: "holds b h" using holds_pushes [OF holds_new [OF assms(1)]] by (simp add: b_def h_def)
  have "max_bytes b = n" by (simp add: b_def fold_push_budgets new_buffer_def Let_def)
  moreover have "head_budget b = n div 2 \<and> tail_budget b = n - n div 2"
    by (simp add: b_def fold_push_budgets new_buffer_def Let_def)
  ultimately have to: "to_bytes b = kept (n div 2) (n - n div 2) h" and max: "max_bytes b = n"
    using holds_to_bytes [OF b] by simp_all
  then have len: "length (to_bytes b) = min n (length h)" by (simp add: length_kept)
  moreover have "retained_bytes b = length (to_bytes b)"
    using b len assms(1) saturating_add_exact [of "head_bytes b" "tail_bytes b"]
    by (auto simp: retained_bytes_def holds_def to_bytes_def)
  moreover have "omitted_bytes b = min usize_max (length h - length (to_bytes b))"
    using b max len by (simp add: holds_def min_def)
  moreover have "concat (snapshot_chunks b) = to_bytes b" by (simp add: snapshot_chunks_def to_bytes_def)
  ultimately show ?thesis unfolding to [unfolded kept_def, symmetric] by blast
qed

theorem buffer_keeps_head_and_tail_witness:
  "to_bytes (fold push_chunk [''ab'', ''cdef'', ''g'', ''hij''] (new_buffer 5)) = ''abhij'' \<and>
   omitted_bytes (fold push_chunk [''ab'', ''cdef'', ''g'', ''hij''] (new_buffer 5)) = 5"
  using buffer_keeps_head_and_tail [of 5 "[''ab'', ''cdef'', ''g'', ''hij'']"]
  by (simp add: usize_max_def last_bytes_def)

text \<open>Draining returns what \<open>to_bytes\<close> shows and leaves the buffer as new, for the bytes
  that are pushed after it.\<close>

lemma drain_resets:
  fixes n :: nat and cs :: "string list"
  defines "b \<equiv> fold push_chunk cs (new_buffer n)"
  shows "concat (snd (drain_chunks b)) = to_bytes b \<and> fst (drain_chunks b) = new_buffer n"
proof -
  show ?thesis
    by (simp add: b_def drain_chunks_def to_bytes_def new_buffer_def Let_def fold_push_budgets)
qed

end
