(* ===== verification/Readiness.thy ===== *)
theory Readiness
  imports Rust_Base "HOL-Library.Word"
begin

section \<open>The readiness flag\<close>

text \<open>
  A model of \<^verbatim>\<open>codex-rs/utils/readiness/src/lib.rs\<close>: a flag that becomes ready once, by a
  subscriber's token or when nobody has subscribed.  Critical sections are operations on
  the flag; the threads that run them, and the points between them, are a step relation.
  The lock's timeout and the outcome of \<open>try_lock\<close> are inputs of the operations.

  The watch channel is tokio's, so its operations are a parameter (\<open>watch_api\<close>).  Tokens are
  32-bit words: \<open>fetch_add\<close> wraps around.  The loop that looks for a free token is modelled
  with fuel, and two more than the number of tokens is enough (\<open>alloc_token_fresh\<close>).
\<close>

subsection \<open>State and operations\<close>

type_synonym token = "32 word"

datatype readiness_error = TokenLockFailed | FlagAlreadyReady

record readiness_flag =
  ready :: bool
  next_id :: token
  tokens :: "token set"

definition new_flag :: readiness_flag where
  "new_flag = \<lparr>ready = False, next_id = 1, tokens = {}\<rparr>"

text \<open>The loop of \<open>subscribe\<close>.\<close>

fun alloc_token :: "nat \<Rightarrow> readiness_flag \<Rightarrow> (readiness_flag \<times> token) option" where
  "alloc_token 0 f = None"
| "alloc_token (Suc fuel) f =
     (let tok = next_id f; f' = f\<lparr>next_id := next_id f + 1\<rparr> in
      if tok \<noteq> 0 \<and> tok \<notin> tokens f then Some (f'\<lparr>tokens := insert tok (tokens f)\<rparr>, tok)
      else alloc_token fuel f')"

text \<open>\<open>subscribe\<close>; \<open>seen_ready\<close> is the answer of the load before the lock is taken, which
  may be older than the state the lock shows.\<close>

definition subscribe ::
  "nat \<Rightarrow> bool \<Rightarrow> bool \<Rightarrow> readiness_flag \<Rightarrow> (readiness_flag \<times> (readiness_error, token) result) option"
where
  "subscribe fuel seen_ready lock_ok f =
     (if seen_ready then Some (f, Inl FlagAlreadyReady)
      else if \<not> lock_ok then Some (f, Inl TokenLockFailed)
      else if ready f then Some (f, Inl FlagAlreadyReady)
      else map_option (\<lambda>(f', tok). (f', Inr tok)) (alloc_token fuel f))"

text \<open>The critical section of \<open>mark_ready\<close>.\<close>

definition mark_ready ::
  "token \<Rightarrow> bool \<Rightarrow> bool \<Rightarrow> readiness_flag \<Rightarrow> readiness_flag \<times> (readiness_error, bool) result"
where
  "mark_ready tok seen_ready lock_ok f =
     (if seen_ready then (f, Inr False)
      else if tok = 0 then (f, Inr False)
      else if \<not> lock_ok then (f, Inl TokenLockFailed)
      else if tok \<notin> tokens f then (f, Inr False)
      else (f\<lparr>ready := True, tokens := {}\<rparr>, Inr True))"

text \<open>\<open>is_ready\<close>: the new flag, the answer, and whether this call flipped the flag and so
  broadcasts.\<close>

definition is_ready :: "bool \<Rightarrow> readiness_flag \<Rightarrow> readiness_flag \<times> bool \<times> bool" where
  "is_ready lock_free f =
     (if ready f then (f, True, False)
      else if lock_free \<and> tokens f = {} then (f\<lparr>ready := True\<rparr>, True, \<not> ready f)
      else (f, ready f, False))"

subsection \<open>Threads\<close>

record ('w, 'r) watch_api =
  watch_send :: "bool \<Rightarrow> 'w \<Rightarrow> 'w"
  watch_subscribe :: "'w \<Rightarrow> 'w \<times> 'r"
  watch_borrow :: "'w \<Rightarrow> 'r \<Rightarrow> bool"
  watch_changed :: "'w \<Rightarrow> 'r \<Rightarrow> 'r option"

text \<open>Where a call of \<open>wait_ready\<close> is.\<close>

datatype 'r waiter = W_Check_Flag | W_Subscribe | W_Check_Value 'r | W_Await 'r | W_Done

record ('w, 'r) readiness_sys =
  flag :: readiness_flag
  chan :: 'w
  sends :: nat
  waiter :: "'r waiter"

datatype readiness_event =
    Subscribed token
  | Subscribe_Failed
  | Marked token bool
  | Mark_Failed
  | Asked bool
  | Sent
  | Waited

definition new_sys :: "'w \<Rightarrow> ('w, 'r) readiness_sys" where
  "new_sys w = \<lparr>flag = new_flag, chan = w, sends = 0, waiter = W_Check_Flag\<rparr>"

text \<open>One call of \<open>wait_ready\<close> is followed; any number of threads subscribe, mark and ask.  A
  load before a lock may be out of date only in one direction: a flag seen ready is ready.\<close>

inductive readiness_step ::
  "('w, 'r) watch_api \<Rightarrow> readiness_event \<Rightarrow> ('w, 'r) readiness_sys \<Rightarrow> ('w, 'r) readiness_sys \<Rightarrow> bool"
  for api
where
  Step_Subscribe:
    "subscribe fuel seen lock_ok (flag s) = Some (f, Inr tok) \<Longrightarrow> (seen \<longrightarrow> ready (flag s)) \<Longrightarrow>
       readiness_step api (Subscribed tok) s (s\<lparr>flag := f\<rparr>)"
| Step_Subscribe_Failed:
    "subscribe fuel seen lock_ok (flag s) = Some (f, Inl e) \<Longrightarrow> (seen \<longrightarrow> ready (flag s)) \<Longrightarrow>
       readiness_step api Subscribe_Failed s (s\<lparr>flag := f\<rparr>)"
| Step_Mark:
    "mark_ready tok seen lock_ok (flag s) = (f, Inr b) \<Longrightarrow> (seen \<longrightarrow> ready (flag s)) \<Longrightarrow>
       readiness_step api (Marked tok b) s (s\<lparr>flag := f, sends := sends s + (if b then 1 else 0)\<rparr>)"
| Step_Mark_Failed:
    "mark_ready tok seen lock_ok (flag s) = (f, Inl e) \<Longrightarrow> (seen \<longrightarrow> ready (flag s)) \<Longrightarrow>
       readiness_step api Mark_Failed s (s\<lparr>flag := f\<rparr>)"
| Step_Ask:
    "is_ready lock_free (flag s) = (f, b, flipped) \<Longrightarrow>
       readiness_step api (Asked b) s (s\<lparr>flag := f, sends := sends s + (if flipped then 1 else 0)\<rparr>)"
| Step_Send:
    "sends s > 0 \<Longrightarrow>
       readiness_step api Sent s (s\<lparr>chan := watch_send api True (chan s), sends := sends s - 1\<rparr>)"
| Step_Wait_Flag:
    "waiter s = W_Check_Flag \<Longrightarrow> is_ready lock_free (flag s) = (f, b, flipped) \<Longrightarrow>
       readiness_step api Waited s
         (s\<lparr>flag := f, sends := sends s + (if flipped then 1 else 0),
            waiter := (if b then W_Done else W_Subscribe)\<rparr>)"
| Step_Wait_Subscribe:
    "waiter s = W_Subscribe \<Longrightarrow> watch_subscribe api (chan s) = (w, r) \<Longrightarrow>
       readiness_step api Waited s (s\<lparr>chan := w, waiter := W_Check_Value r\<rparr>)"
| Step_Wait_Value:
    "waiter s = W_Check_Value r \<Longrightarrow>
       readiness_step api Waited s (s\<lparr>waiter := (if watch_borrow api (chan s) r then W_Done else W_Await r)\<rparr>)"
| Step_Wait_Changed:
    "waiter s = W_Await r \<Longrightarrow> watch_changed api (chan s) r = Some r' \<Longrightarrow>
       readiness_step api Waited s (s\<lparr>waiter := (if watch_borrow api (chan s) r' then W_Done else W_Await r')\<rparr>)"

inductive readiness_run ::
  "('w, 'r) watch_api \<Rightarrow> readiness_event list \<Rightarrow> ('w, 'r) readiness_sys \<Rightarrow> ('w, 'r) readiness_sys \<Rightarrow> bool"
  for api
where
  Run_Nil: "readiness_run api [] s s"
| Run_Step: "readiness_step api e s s' \<Longrightarrow> readiness_run api es s' s'' \<Longrightarrow> readiness_run api (e # es) s s''"

inductive_simps readiness_run_Cons: "readiness_run api (e # es) s s'"
inductive_simps readiness_run_Nil: "readiness_run api [] s s'"

subsection \<open>Tokens\<close>

text \<open>Once ready there are no tokens, and zero is never one.\<close>

definition flag_ok :: "readiness_flag \<Rightarrow> bool" where
  "flag_ok f = ((ready f \<longrightarrow> tokens f = {}) \<and> 0 \<notin> tokens f)"

lemma alloc_token_Some:
  "alloc_token fuel f = Some (f', tok) \<Longrightarrow>
     tok \<noteq> 0 \<and> tok \<notin> tokens f \<and> tokens f' = insert tok (tokens f) \<and> ready f' = ready f"
proof (induction fuel arbitrary: f)
  case (Suc fuel)
  from Suc.IH [of "f\<lparr>next_id := next_id f + 1\<rparr>"] Suc.prems show ?case
    by (cases "next_id f \<noteq> 0 \<and> next_id f \<notin> tokens f") (auto simp: Let_def)
qed simp

text \<open>If no round of the loop succeeds, the words it has tried are all taken.\<close>

lemma alloc_token_None:
  "alloc_token fuel f = None \<Longrightarrow> i < fuel \<Longrightarrow> next_id f + of_nat i \<in> insert 0 (tokens f)"
proof (induction fuel arbitrary: f i)
  case (Suc fuel)
  then have taken: "next_id f \<in> insert 0 (tokens f)"
    and rest: "alloc_token fuel (f\<lparr>next_id := next_id f + 1\<rparr>) = None"
    by (auto simp: Let_def split: if_splits)
  show ?case
  proof (cases i)
    case 0
    with taken show ?thesis by simp
  next
    case (Suc j)
    with Suc.IH [OF rest, of j] Suc.prems show ?thesis by (simp add: add.assoc)
  qed
qed simp

lemma alloc_token_fresh:
  assumes "finite (tokens f)" and "card (tokens f) + 1 < 2 ^ 32" and "card (tokens f) + 1 < fuel"
  shows "alloc_token fuel f \<noteq> None"
proof
  assume none: "alloc_token fuel f = None"
  let ?n = "card (tokens f) + 2"
  have inj: "inj_on (\<lambda>i. next_id f + (of_nat i :: token)) {..<?n}"
  proof (rule inj_onI)
    fix i j
    assume "i \<in> {..<?n}" "j \<in> {..<?n}" and eq: "next_id f + (of_nat i :: token) = next_id f + of_nat j"
    then have "i < 2 ^ LENGTH(32)" "j < 2 ^ LENGTH(32)" using assms(2) by simp_all
    with eq show "i = j" by (simp add: word_of_nat_eq_iff take_bit_nat_eq_self)
  qed
  have "(\<lambda>i. next_id f + (of_nat i :: token)) ` {..<?n} \<subseteq> insert 0 (tokens f)"
  proof (rule image_subsetI)
    fix i
    assume "i \<in> {..<?n}"
    with assms(3) have "i < fuel" by simp
    then show "next_id f + (of_nat i :: token) \<in> insert 0 (tokens f)" by (rule alloc_token_None [OF none])
  qed
  then have "card ((\<lambda>i. next_id f + (of_nat i :: token)) ` {..<?n}) \<le> card (insert 0 (tokens f))"
    using assms(1) by (intro card_mono) auto
  with inj have "?n \<le> card (insert 0 (tokens f))" by (simp add: card_image)
  also have "\<dots> \<le> card (tokens f) + 1" using card_insert_le_m1 [of "card (tokens f) + 1"] assms(1)
    by (simp add: card_insert_if)
  finally show False by simp
qed

lemma subscribe_ok:
  assumes "subscribe fuel seen lock_ok f = Some (f', r)" and "flag_ok f"
  shows "flag_ok f' \<and> ready f' = ready f \<and>
    (case r of Inl _ \<Rightarrow> f' = f
     | Inr tok \<Rightarrow> \<not> ready f \<and> tok \<noteq> 0 \<and> tok \<notin> tokens f \<and> tokens f' = insert tok (tokens f))"
  using assms alloc_token_Some
  by (auto simp: subscribe_def flag_ok_def split: if_splits)

lemma mark_ready_ok:
  assumes "mark_ready tok seen lock_ok f = (f', r)" and "flag_ok f"
  shows "flag_ok f' \<and> (ready f \<longrightarrow> ready f') \<and> tokens f' \<subseteq> tokens f \<and>
    (r = Inr True \<longrightarrow> tok \<in> tokens f \<and> \<not> ready f \<and> ready f') \<and> (r \<noteq> Inr True \<longrightarrow> f' = f)"
  using assms by (auto simp: mark_ready_def flag_ok_def split: if_splits)

lemma is_ready_ok:
  assumes "is_ready lock_free f = (f', b, flipped)" and "flag_ok f"
  shows "flag_ok f' \<and> (ready f \<longrightarrow> ready f') \<and> tokens f' = tokens f \<and> b = ready f' \<and>
    flipped = (ready f' \<and> \<not> ready f)"
  using assms by (auto simp: is_ready_def flag_ok_def split: if_splits)

text \<open>A subscription that gets the lock of a flag that is not ready returns a token, also
  after the 32-bit counter has wrapped around, as long as not all words are in use; the
  token is not zero and no other subscriber has it.\<close>

lemma subscribe_returns_fresh_token:
  assumes "finite (tokens f)" and "card (tokens f) + 1 < 2 ^ 32" and "card (tokens f) + 1 < fuel"
    and "\<not> ready f"
  shows "\<exists>f' tok. subscribe fuel False True f = Some (f', Inr tok) \<and> tok \<noteq> 0 \<and> tok \<notin> tokens f \<and>
    tokens f' = insert tok (tokens f) \<and> \<not> ready f'"
proof -
  obtain f' tok where alloc: "alloc_token fuel f = Some (f', tok)"
    using alloc_token_fresh [OF assms(1-3)] by fast
  with alloc_token_Some [OF alloc] assms(4) show ?thesis by (simp add: subscribe_def)
qed

subsection \<open>Executions\<close>

lemma step_flag:
  assumes "readiness_step api e s s'" and "flag_ok (flag s)"
  shows "flag_ok (flag s') \<and> (ready (flag s) \<longrightarrow> ready (flag s')) \<and>
    tokens (flag s') \<subseteq> tokens (flag s) \<union> (case e of Subscribed tok \<Rightarrow> {tok} | _ \<Rightarrow> {}) \<and>
    (\<forall>tok. e = Marked tok True \<longrightarrow> tok \<in> tokens (flag s) \<and> \<not> ready (flag s) \<and> ready (flag s')) \<and>
    (e = Asked False \<longrightarrow> \<not> ready (flag s')) \<and> (e = Asked True \<longrightarrow> ready (flag s'))"
  using assms
proof (cases rule: readiness_step.cases)
  case (Step_Subscribe fuel seen lock_ok f tok)
  with subscribe_ok [OF Step_Subscribe(3) assms(2)] show ?thesis by auto
next
  case (Step_Subscribe_Failed fuel seen lock_ok f err)
  with subscribe_ok [OF Step_Subscribe_Failed(3) assms(2)] show ?thesis by auto
next
  case (Step_Mark tok seen lock_ok f b)
  with mark_ready_ok [OF Step_Mark(3) assms(2)] show ?thesis by auto
next
  case (Step_Mark_Failed tok seen lock_ok f err)
  with mark_ready_ok [OF Step_Mark_Failed(3) assms(2)] show ?thesis by auto
next
  case (Step_Ask lock_free f b flipped)
  with is_ready_ok [OF Step_Ask(3) assms(2)] show ?thesis by auto
next
  case (Step_Wait_Flag lock_free f b flipped)
  with is_ready_ok [OF Step_Wait_Flag(4) assms(2)] show ?thesis by auto
qed (auto simp: assms(2))

lemma run_flag:
  assumes "readiness_run api es s s'" and "flag_ok (flag s)"
  shows "flag_ok (flag s') \<and> (ready (flag s) \<longrightarrow> ready (flag s')) \<and>
    tokens (flag s') \<subseteq> tokens (flag s) \<union> {tok. Subscribed tok \<in> set es}"
  using assms
proof induction
  case (Run_Step e s s' es s'')
  from step_flag [OF Run_Step(1,4)] Run_Step(3) show ?case
    by (auto split: readiness_event.splits)
qed auto

lemma run_append:
  "readiness_run api (es @ es') s s'' \<longleftrightarrow> (\<exists>s'. readiness_run api es s s' \<and> readiness_run api es' s' s'')"
  by (induction es arbitrary: s) (auto simp: readiness_run_Nil readiness_run_Cons)

lemma run_marked_ready:
  assumes "readiness_run api (es @ Marked tok True # es') s s'" and "flag_ok (flag s)"
  shows "tok \<in> tokens (flag s) \<union> {t. Subscribed t \<in> set es} \<and>
    (\<forall>t. Marked t True \<notin> set es') \<and> \<not> ready (flag s) \<and> ready (flag s')"
proof -
  from assms(1) obtain s1 s2 where runs: "readiness_run api es s s1"
    and step: "readiness_step api (Marked tok True) s1 s2" and rest: "readiness_run api es' s2 s'"
    by (auto simp: run_append readiness_run_Cons)
  note f1 = run_flag [OF runs assms(2)]
  note f2 = step_flag [OF step conjunct1 [OF f1]]
  from f2 have ok2: "flag_ok (flag s2)" "ready (flag s2)" by auto
  have "Marked t True \<notin> set es'" for t
  proof
    assume "Marked t True \<in> set es'"
    then obtain xs ys where "es' = xs @ Marked t True # ys" by (auto simp: in_set_conv_decomp)
    with rest obtain s3 s4 where "readiness_run api xs s2 s3" "readiness_step api (Marked t True) s3 s4"
      by (auto simp: run_append readiness_run_Cons)
    with run_flag [of api xs s2 s3] step_flag [of api "Marked t True" s3 s4] ok2 show False by auto
  qed
  with f1 f2 run_flag [OF rest ok2(1)] ok2 show ?thesis by auto
qed

text \<open>In every execution from a new flag at most one call of \<open>mark_ready\<close> returns true, and
  only with a token that an earlier subscription has returned; from then on the flag is
  ready, for good.\<close>

lemma mark_ready_authorised_once:
  assumes "readiness_run api (es @ Marked tok True # es') (new_sys w) s"
  shows "Subscribed tok \<in> set es \<and> (\<forall>t. Marked t True \<notin> set es \<union> set es') \<and>
    Asked True \<notin> set es \<and> ready (flag s)"
proof -
  have ok: "flag_ok (flag (new_sys w))" by (simp add: flag_ok_def new_sys_def new_flag_def)
  note after = run_marked_ready [OF assms ok]
  from assms obtain s1 s2 where runs: "readiness_run api es (new_sys w) s1"
    and step: "readiness_step api (Marked tok True) s1 s2"
    by (auto simp: run_append readiness_run_Cons)
  from run_flag [OF runs ok] step_flag [OF step] have s1: "\<not> ready (flag s1)" "flag_ok (flag s1)" by auto
  have "Marked t True \<notin> set es \<and> Asked True \<notin> set es" for t
  proof (rule ccontr)
    assume "\<not> (Marked t True \<notin> set es \<and> Asked True \<notin> set es)"
    then obtain e xs ys where e: "es = xs @ e # ys" "e = Marked t True \<or> e = Asked True"
      by (auto simp: in_set_conv_decomp)
    with runs obtain s3 s4 where r: "readiness_run api xs (new_sys w) s3" "readiness_step api e s3 s4"
      "readiness_run api ys s4 s1" by (auto simp: run_append readiness_run_Cons)
    note f3 = run_flag [OF r(1) ok]
    note f4 = step_flag [OF r(2) conjunct1 [OF f3]]
    from e(2) f4 have "ready (flag s4)" "flag_ok (flag s4)" by auto
    with run_flag [OF r(3)] s1(1) show False by blast
  qed
  with after show ?thesis by (auto simp: new_sys_def new_flag_def)
qed

text \<open>A channel as tokio documents it: the value, its version and the number of receivers;
  without receivers \<open>send\<close> fails and changes nothing.\<close>

definition counting_api :: "(bool \<times> nat \<times> nat, nat) watch_api" where
  "counting_api =
     \<lparr>watch_send = (\<lambda>b (v, n, k). if k = 0 then (v, n, k) else (b, n + 1, k)),
      watch_subscribe = (\<lambda>(v, n, k). ((v, n, k + 1), n)),
      watch_borrow = (\<lambda>(v, n, k) r. v),
      watch_changed = (\<lambda>(v, n, k) r. if r = n then None else Some n)\<rparr>"

text \<open>C29: A call of \<open>wait_ready\<close> can wait for ever although the flag has become ready: it looks at
  the flag before it subscribes to the channel, and a broadcast in between, to a channel
  without receivers, is lost.  The hypotheses are what tokio documents of such a channel
  (a send without receivers changes nothing; a new receiver sees the value and no change).\<close>

theorem wait_ready_lost_wakeup:
  assumes "watch_send api True w = w" and "watch_subscribe api w = (w', r)"
    and "\<not> watch_borrow api w' r" and "watch_changed api w' r = None"
  shows "\<exists>es s tok. readiness_run api es (new_sys w) s \<and> Marked tok True \<in> set es \<and> ready (flag s) \<and>
    sends s = 0 \<and> waiter s = W_Await r \<and> (\<forall>s'. \<not> readiness_step api Waited s s')"
proof -
  let ?f1 = "\<lparr>ready = False, next_id = 2, tokens = {1}\<rparr>"
  let ?f2 = "\<lparr>ready = True, next_id = 2, tokens = {}\<rparr>"
  let ?s1 = "\<lparr>flag = ?f1, chan = w, sends = 0, waiter = W_Check_Flag\<rparr>"
  let ?s2 = "\<lparr>flag = ?f1, chan = w, sends = 0, waiter = W_Subscribe\<rparr>"
  let ?s3 = "\<lparr>flag = ?f2, chan = w, sends = 1, waiter = W_Subscribe\<rparr>"
  let ?s4 = "\<lparr>flag = ?f2, chan = w, sends = 0, waiter = W_Subscribe\<rparr>"
  let ?s5 = "\<lparr>flag = ?f2, chan = w', sends = 0, waiter = W_Check_Value r\<rparr>"
  let ?s6 = "\<lparr>flag = ?f2, chan = w', sends = 0, waiter = W_Await r\<rparr>"
  have "readiness_step api (Subscribed 1) (new_sys w) ?s1"
    using Step_Subscribe [where fuel = 1 and seen = False and lock_ok = True and api = api and s = "new_sys w"
        and f = ?f1 and tok = 1] by (simp add: new_sys_def new_flag_def subscribe_def Let_def)
  moreover have "readiness_step api Waited ?s1 ?s2"
    using Step_Wait_Flag [where s = ?s1 and lock_free = True and f = ?f1 and b = False and flipped = False and api = api]
    by (simp add: is_ready_def)
  moreover have "readiness_step api (Marked 1 True) ?s2 ?s3"
    using Step_Mark [where tok = 1 and seen = False and lock_ok = True and api = api and s = ?s2 and f = ?f2 and b = True]
    by (simp add: mark_ready_def)
  moreover have "readiness_step api Sent ?s3 ?s4"
    using Step_Send [where s = ?s3 and api = api] assms(1) by simp
  moreover have "readiness_step api Waited ?s4 ?s5"
    using Step_Wait_Subscribe [where s = ?s4 and api = api, OF _ _] assms(2) by simp
  moreover have "readiness_step api Waited ?s5 ?s6"
    using Step_Wait_Value [where s = ?s5 and api = api and r = r] assms(3) by simp
  ultimately have "readiness_run api [Subscribed 1, Waited, Marked 1 True, Sent, Waited, Waited] (new_sys w) ?s6"
    by (meson Run_Nil Run_Step)
  moreover have "\<not> readiness_step api Waited ?s6 s'" for s'
    using assms(4) by (auto elim: readiness_step.cases)
  ultimately show ?thesis
    by (intro exI [of _ "[Subscribed 1, Waited, Marked 1 True, Sent, Waited, Waited]"] exI [of _ ?s6] exI [of _ 1]) simp
qed

theorem wait_ready_lost_wakeup_witness:
  "\<exists>es s tok. readiness_run counting_api es (new_sys (False, 0, 0)) s \<and> Marked tok True \<in> set es \<and>
    ready (flag s) \<and> sends s = 0 \<and> waiter s = W_Await 0 \<and> (\<forall>s'. \<not> readiness_step counting_api Waited s s')"
  using wait_ready_lost_wakeup [of counting_api "(False, 0, 0)" "(False, 0, 1)" 0]
  by (simp add: counting_api_def)

end
