(* ===== verification/Spawn_Guards.thy ===== *)
theory Spawn_Guards
  imports Rust_Base
begin

section \<open>Limits on spawned agents\<close>

text \<open>
  A model of \<^verbatim>\<open>codex-rs/core/src/agent/guards.rs\<close>: the count of spawned threads against a limit,
  the reservation that gives its slot back when it is dropped, and the nicknames of
  agents.  The operations are functions on the shared state; a step relation over the
  shared state and the live reservations gives their interleavings.  The retry loop
  around \<open>compare_exchange_weak\<close> is modelled over what the exchanges observe.

  The random choice is the \<^verbatim>\<open>rand\<close> crate's, so it is a parameter: it returns an element of
  a non-empty list.  Thread ids are a type variable.
\<close>

subsection \<open>Sessions and depth\<close>

datatype 'tid sub_agent_source =
    Review
  | Compact
  | ThreadSpawn 'tid int "string option" "string option"
  | MemoryConsolidation
  | Other string

datatype 'tid session_source =
    Cli
  | VSCode
  | Exec
  | Mcp
  | SubAgent "'tid sub_agent_source"
  | Unknown

definition i32_max :: int where
  "i32_max = 2 ^ 31 - 1"

fun session_depth :: "'tid session_source \<Rightarrow> int" where
  "session_depth (SubAgent (ThreadSpawn _ depth _ _)) = depth"
| "session_depth (SubAgent _) = 0"
| "session_depth _ = 0"

definition next_thread_spawn_depth :: "'tid session_source \<Rightarrow> int" where
  "next_thread_spawn_depth src = min i32_max (session_depth src + 1)"

definition exceeds_thread_spawn_depth_limit :: "int \<Rightarrow> int \<Rightarrow> bool" where
  "exceeds_thread_spawn_depth_limit depth max_depth = (depth > max_depth)"

subsection \<open>State\<close>

record 'tid active_agents =
  threads_set :: "'tid set"
  thread_agent_nicknames :: "'tid \<rightharpoonup> string"
  used_agent_nicknames :: "string set"
  nickname_reset_count :: nat

record 'tid guards =
  active_agents :: "'tid active_agents"
  total_count :: nat

definition new_guards :: "'tid guards" where
  "new_guards =
     \<lparr>active_agents = \<lparr>threads_set = {}, thread_agent_nicknames = Map.empty,
        used_agent_nicknames = {}, nickname_reset_count = 0\<rparr>, total_count = 0\<rparr>"

record spawn_reservation =
  res_active :: bool
  reserved_agent_nickname :: "string option"

datatype codex_err = AgentLimitReached nat | UnsupportedOperation string

subsection \<open>Operations\<close>

text \<open>The atomic counter wraps around.\<close>

definition fetch_add_1 :: "nat \<Rightarrow> nat" where
  "fetch_add_1 n = (n + 1) mod (usize_max + 1)"

definition fetch_sub_1 :: "nat \<Rightarrow> nat" where
  "fetch_sub_1 n = (n + usize_max) mod (usize_max + 1)"

definition ordinal_suffix :: "nat \<Rightarrow> string" where
  "ordinal_suffix v =
     (if 11 \<le> v mod 100 \<and> v mod 100 \<le> 13 then ''th''
      else if v mod 10 = 1 then ''st''
      else if v mod 10 = 2 then ''nd''
      else if v mod 10 = 3 then ''rd''
      else ''th'')"

definition format_agent_nickname :: "string \<Rightarrow> nat \<Rightarrow> string" where
  "format_agent_nickname name reset_count =
     (if reset_count = 0 then name
      else (let v = reset_count + 1 in name @ '' the '' @ nat_digits v @ ordinal_suffix v))"

text \<open>The loop of \<open>try_increment_spawned\<close> over the exchanges it makes: each finds the counter
  at some value, and may fail although the value is the expected one.  The result and the
  counter after the last exchange; \<open>None\<close> while the exchanges go on.\<close>

fun increment_loop :: "nat \<Rightarrow> nat \<Rightarrow> (nat \<times> bool) list \<Rightarrow> (bool \<times> nat) option" where
  "increment_loop max_threads current [] =
     (if current \<ge> max_threads then Some (False, current) else None)"
| "increment_loop max_threads current ((actual, spurious) # xs) =
     (if current \<ge> max_threads then Some (False, current)
      else if actual = current \<and> \<not> spurious then Some (True, current + 1)
      else increment_loop max_threads actual xs)"

text \<open>What the loop does to the counter, at the moment of the exchange that ends it.\<close>

definition try_increment_spawned :: "nat \<Rightarrow> 'tid guards \<Rightarrow> 'tid guards \<times> bool" where
  "try_increment_spawned max_threads g =
     (if total_count g \<ge> max_threads then (g, False)
      else (g\<lparr>total_count := total_count g + 1\<rparr>, True))"

definition new_reservation :: spawn_reservation where
  "new_reservation = \<lparr>res_active = True, reserved_agent_nickname = None\<rparr>"

definition reserve_spawn_slot ::
  "nat option \<Rightarrow> 'tid guards \<Rightarrow> 'tid guards \<times> (codex_err, spawn_reservation) result"
where
  "reserve_spawn_slot limit g =
     (case limit of
        Some max_threads \<Rightarrow>
          (let (g', ok) = try_increment_spawned max_threads g in
           if \<not> ok then (g', Inl (AgentLimitReached max_threads)) else (g', Inr new_reservation))
      | None \<Rightarrow> (g\<lparr>total_count := fetch_add_1 (total_count g)\<rparr>, Inr new_reservation))"

text \<open>Releasing a thread is two steps that other threads see one after the other: the thread is removed
  under the mutex, and if it was there, the counter is decremented after the mutex is left.\<close>

definition remove_spawned_thread :: "'tid \<Rightarrow> 'tid guards \<Rightarrow> 'tid guards \<times> bool" where
  "remove_spawned_thread t g =
     (let a = active_agents g;
          removed = (t \<in> threads_set a);
          a' = a\<lparr>threads_set := threads_set a - {t},
                 thread_agent_nicknames := (thread_agent_nicknames a)(t := None)\<rparr>
      in (g\<lparr>active_agents := a'\<rparr>, removed))"

definition give_slot_back :: "'tid guards \<Rightarrow> 'tid guards" where
  "give_slot_back g = g\<lparr>total_count := fetch_sub_1 (total_count g)\<rparr>"

definition release_spawned_thread :: "'tid \<Rightarrow> 'tid guards \<Rightarrow> 'tid guards" where
  "release_spawned_thread t g =
     (let (g', removed) = remove_spawned_thread t g in if removed then give_slot_back g' else g')"

text \<open>Whether the thread was registered before does not matter to the source, which ignores what the
  insertion into the set returns.\<close>

definition register_spawned_thread :: "'tid \<Rightarrow> string option \<Rightarrow> 'tid guards \<Rightarrow> 'tid guards" where
  "register_spawned_thread t nickname g =
     (let a = active_agents g; a1 = a\<lparr>threads_set := insert t (threads_set a)\<rparr>;
          a2 = (case nickname of
                  None \<Rightarrow> a1
                | Some n \<Rightarrow> a1\<lparr>used_agent_nicknames := insert n (used_agent_nicknames a1),
                               thread_agent_nicknames := (thread_agent_nicknames a1)(t \<mapsto> n)\<rparr>)
      in g\<lparr>active_agents := a2\<rparr>)"

definition reserve_agent_nickname ::
  "(string list \<Rightarrow> string option) \<Rightarrow> string list \<Rightarrow> string option \<Rightarrow> 'tid guards \<Rightarrow> 'tid guards \<times> string option"
where
  "reserve_agent_nickname pick names preferred g =
     (let a = active_agents g;
          use = (\<lambda>a n. (g\<lparr>active_agents := a\<lparr>used_agent_nicknames := insert n (used_agent_nicknames a)\<rparr>\<rparr>, Some n))
      in case preferred of
           Some n \<Rightarrow> use a n
         | None \<Rightarrow>
             if names = [] then (g, None)
             else (let available = filter (\<lambda>n. n \<notin> used_agent_nicknames a)
                         (map (\<lambda>n. format_agent_nickname n (nickname_reset_count a)) names)
                   in case pick available of
                        Some n \<Rightarrow> use a n
                      | None \<Rightarrow>
                          (let a' = a\<lparr>used_agent_nicknames := {},
                                      nickname_reset_count := nickname_reset_count a + 1\<rparr>
                           in case pick names of
                                None \<Rightarrow> (g\<lparr>active_agents := a'\<rparr>, None)
                              | Some n \<Rightarrow> use a' (format_agent_nickname n (nickname_reset_count a')))))"

definition reserve_agent_nickname_with_preference ::
  "(string list \<Rightarrow> string option) \<Rightarrow> string list \<Rightarrow> string option \<Rightarrow> spawn_reservation \<Rightarrow> 'tid guards \<Rightarrow>
   'tid guards \<times> (codex_err, spawn_reservation \<times> string) result"
where
  "reserve_agent_nickname_with_preference pick names preferred r g =
     (let (g', n) = reserve_agent_nickname pick names preferred g in
      case n of
        None \<Rightarrow> (g', Inl (UnsupportedOperation ''no available agent nicknames''))
      | Some n \<Rightarrow> (g', Inr (r\<lparr>reserved_agent_nickname := Some n\<rparr>, n)))"

definition commit_with_agent_nickname ::
  "'tid \<Rightarrow> string option \<Rightarrow> spawn_reservation \<Rightarrow> 'tid guards \<Rightarrow> 'tid guards \<times> spawn_reservation"
where
  "commit_with_agent_nickname t nickname r g =
     (let n = (case reserved_agent_nickname r of Some n \<Rightarrow> Some n | None \<Rightarrow> nickname)
      in (register_spawned_thread t n g, r\<lparr>reserved_agent_nickname := None, res_active := False\<rparr>))"

definition drop_reservation :: "spawn_reservation \<Rightarrow> 'tid guards \<Rightarrow> 'tid guards" where
  "drop_reservation r g = (if res_active r then give_slot_back g else g)"

definition commit :: "'tid \<Rightarrow> spawn_reservation \<Rightarrow> 'tid guards \<Rightarrow> 'tid guards" where
  "commit t r g = (let (g', r') = commit_with_agent_nickname t None r g in drop_reservation r' g')"

subsection \<open>Interleavings\<close>

text \<open>The system: the shared state, the reservations that are held, and the number of releases that have
  removed their thread and not yet decremented the counter.  The last field is for the accounts only and
  is never read: how many commits were of a thread that was registered already.\<close>

record 'tid guard_sys =
  shared :: "'tid guards"
  live :: "spawn_reservation list"
  releasing :: nat
  recommitted :: nat

definition remove_nth :: "nat \<Rightarrow> 'a list \<Rightarrow> 'a list" where
  "remove_nth i xs = take i xs @ drop (Suc i) xs"

text \<open>One session with its limit: agents reserve slots and nicknames, commit or drop their
  reservations, and release threads, in any order.  A thread that is committed may be new, as
  when an agent is spawned, or registered, as when one is resumed that was never released.\<close>

inductive guard_step ::
  "(string list \<Rightarrow> string option) \<Rightarrow> nat option \<Rightarrow> 'tid guard_sys \<Rightarrow> 'tid guard_sys \<Rightarrow> bool"
  for pick limit
where
  Reserve:
    "reserve_spawn_slot limit (shared s) = (g, Inr r) \<Longrightarrow>
       guard_step pick limit s (s\<lparr>shared := g, live := live s @ [r]\<rparr>)"
| Reserve_Refused:
    "reserve_spawn_slot limit (shared s) = (g, Inl e) \<Longrightarrow> guard_step pick limit s (s\<lparr>shared := g\<rparr>)"
| Nickname:
    "i < length (live s) \<Longrightarrow>
     reserve_agent_nickname_with_preference pick names preferred (live s ! i) (shared s) = (g, Inr (r, n)) \<Longrightarrow>
       guard_step pick limit s (s\<lparr>shared := g, live := (live s)[i := r]\<rparr>)"
| Nickname_Failed:
    "i < length (live s) \<Longrightarrow>
     reserve_agent_nickname_with_preference pick names preferred (live s ! i) (shared s) = (g, Inl e) \<Longrightarrow>
       guard_step pick limit s (s\<lparr>shared := g\<rparr>)"
| Commit:
    "i < length (live s) \<Longrightarrow>
     commit_with_agent_nickname t nickname (live s ! i) (shared s) = (g, r) \<Longrightarrow>
       guard_step pick limit s
         (s\<lparr>shared := drop_reservation r g, live := remove_nth i (live s),
            recommitted := recommitted s + (if t \<in> threads_set (active_agents (shared s)) then 1 else 0)\<rparr>)"
| Drop:
    "i < length (live s) \<Longrightarrow>
       guard_step pick limit s
         (s\<lparr>shared := drop_reservation (live s ! i) (shared s), live := remove_nth i (live s)\<rparr>)"
| Release_Remove:
    "remove_spawned_thread t (shared s) = (g, removed) \<Longrightarrow>
       guard_step pick limit s (s\<lparr>shared := g, releasing := releasing s + (if removed then 1 else 0)\<rparr>)"
| Release_Count:
    "0 < releasing s \<Longrightarrow>
       guard_step pick limit s (s\<lparr>shared := give_slot_back (shared s), releasing := releasing s - 1\<rparr>)"

definition guard_start :: "'tid guard_sys" where
  "guard_start = \<lparr>shared = new_guards, live = [], releasing = 0, recommitted = 0\<rparr>"

inductive guard_reachable ::
  "(string list \<Rightarrow> string option) \<Rightarrow> nat option \<Rightarrow> 'tid guard_sys \<Rightarrow> bool"
  for pick limit
where
  Start: "guard_reachable pick limit guard_start"
| Step: "guard_reachable pick limit s \<Longrightarrow> guard_step pick limit s s' \<Longrightarrow> guard_reachable pick limit s'"

subsection \<open>Accounting of slots\<close>

text \<open>What holds a slot: a registered thread, a reservation, a release under way, and for ever each
  commit of a thread that was registered already, since one release gives back one slot.\<close>

definition slots :: "'tid guard_sys \<Rightarrow> nat" where
  "slots s = card (threads_set (active_agents (shared s))) + length (live s) + releasing s + recommitted s"

definition slots_ok :: "nat option \<Rightarrow> 'tid guard_sys \<Rightarrow> bool" where
  "slots_ok limit s =
     (finite (threads_set (active_agents (shared s))) \<and> list_all res_active (live s) \<and>
      total_count (shared s) mod (usize_max + 1) = slots s mod (usize_max + 1) \<and>
      (case limit of None \<Rightarrow> True | Some m \<Rightarrow> m \<le> usize_max \<longrightarrow> total_count (shared s) = slots s \<and> slots s \<le> m))"

lemma length_remove_nth: "i < length xs \<Longrightarrow> Suc (length (remove_nth i xs)) = length xs"
  by (simp add: remove_nth_def)

lemma list_all_remove_nth: "list_all P xs \<Longrightarrow> list_all P (remove_nth i xs)"
  by (auto simp: remove_nth_def list_all_iff dest: in_set_takeD in_set_dropD)

lemma fetch_sub_Suc: "n \<le> usize_max \<Longrightarrow> 0 < n \<Longrightarrow> fetch_sub_1 n = n - 1"
proof -
  assume n: "n \<le> usize_max" "0 < n"
  then have "n + usize_max = (n - 1) + (usize_max + 1)" by simp
  then have "fetch_sub_1 n = (n - 1) mod (usize_max + 1)" by (simp only: fetch_sub_1_def mod_add_self2)
  with n show ?thesis by simp
qed

lemma fetch_sub_mod:
  assumes "n mod (usize_max + 1) = Suc k mod (usize_max + 1)"
  shows "fetch_sub_1 n mod (usize_max + 1) = k mod (usize_max + 1)"
proof -
  have "fetch_sub_1 n mod (usize_max + 1) = (n mod (usize_max + 1) + usize_max) mod (usize_max + 1)"
    by (simp add: fetch_sub_1_def mod_add_left_eq)
  also have "\<dots> = (Suc k + usize_max) mod (usize_max + 1)" unfolding assms by (rule mod_add_left_eq)
  also have "\<dots> = k mod (usize_max + 1)" using mod_add_self2 [of k "usize_max + 1"] by simp
  finally show ?thesis .
qed

text \<open>Giving a slot back.\<close>

lemma slots_give_back:
  assumes "slots_ok limit s" and "slots s = Suc (slots s')"
    and "total_count (shared s') = fetch_sub_1 (total_count (shared s))"
    and "finite (threads_set (active_agents (shared s')))" and "list_all res_active (live s')"
  shows "slots_ok limit s'"
proof -
  have "total_count (shared s') = slots s' \<and> slots s' \<le> m" if "limit = Some m" "m \<le> usize_max" for m
    using assms(1,2,3) that fetch_sub_Suc [of "Suc (slots s')"] by (simp add: slots_ok_def)
  with assms fetch_sub_mod [of "total_count (shared s)" "slots s'"] show ?thesis
    by (auto simp: slots_ok_def split: option.split)
qed

lemma slots_unchanged:
  assumes "slots_ok limit s" and "slots s' = slots s" and "total_count (shared s') = total_count (shared s)"
    and "finite (threads_set (active_agents (shared s')))" and "list_all res_active (live s')"
  shows "slots_ok limit s'"
  using assms by (auto simp: slots_ok_def split: option.split)

lemma nickname_keeps_slots:
  "reserve_agent_nickname_with_preference pick names preferred r g = (g', x) \<Longrightarrow>
     total_count g' = total_count g \<and> threads_set (active_agents g') = threads_set (active_agents g) \<and>
     (\<forall>r' n. x = Inr (r', n) \<longrightarrow> res_active r' = res_active r)"
  by (auto simp: reserve_agent_nickname_with_preference_def reserve_agent_nickname_def Let_def
      split: option.splits if_splits prod.splits)

lemma slots_ok_step:
  assumes "guard_step pick limit s s'" and "slots_ok limit s"
  shows "slots_ok limit s'"
  using assms
proof (cases rule: guard_step.cases)
  case (Reserve g r)
  show ?thesis
  proof (cases limit)
    case None
    with Reserve assms(2) show ?thesis
      by (auto simp: reserve_spawn_slot_def slots_ok_def slots_def new_reservation_def fetch_add_1_def
          mod_Suc_eq) (metis mod_Suc_eq)
  next
    case (Some m)
    with Reserve assms(2) show ?thesis
      by (auto simp: reserve_spawn_slot_def try_increment_spawned_def slots_ok_def slots_def
          new_reservation_def split: if_splits) (metis mod_Suc_eq)
  qed
next
  case (Reserve_Refused g e)
  then have "g = shared s"
    by (auto simp: reserve_spawn_slot_def try_increment_spawned_def split: option.splits if_splits)
  with Reserve_Refused assms(2) show ?thesis by simp
next
  case (Nickname i names preferred g r n)
  note keep = nickname_keeps_slots [OF Nickname(3)]
  have fin: "finite (threads_set (active_agents (shared s)))" and act: "list_all res_active (live s)"
    using assms(2) by (simp_all add: slots_ok_def)
  have "list_all res_active ((live s)[i := r])"
    using keep act Nickname(2) by (simp add: list_all_length nth_list_update)
  with keep fin Nickname(1) show ?thesis
    by (intro slots_unchanged [OF assms(2)]) (simp_all add: slots_def)
next
  case (Nickname_Failed i names preferred g e)
  with nickname_keeps_slots [OF Nickname_Failed(3)] assms(2) show ?thesis
    by (intro slots_unchanged [OF assms(2)]) (simp_all add: slots_def slots_ok_def)
next
  case (Commit i t nickname g r)
  have fin: "finite (threads_set (active_agents (shared s)))" and act: "list_all res_active (live s)"
    using assms(2) by (simp_all add: slots_ok_def)
  have g: "drop_reservation r g = g" "total_count g = total_count (shared s)"
    "threads_set (active_agents g) = insert t (threads_set (active_agents (shared s)))"
    using Commit(3) by (auto simp: commit_with_agent_nickname_def register_spawned_thread_def
        drop_reservation_def Let_def split: option.splits)
  show ?thesis
  proof (rule slots_unchanged [OF assms(2)])
    show "slots s' = slots s"
      using length_remove_nth [OF Commit(2)] Commit(1) g fin by (simp add: slots_def card_insert_if)
  qed (use Commit(1) g fin list_all_remove_nth [OF act] in simp_all)
next
  case (Drop i)
  have fin: "finite (threads_set (active_agents (shared s)))" and act: "list_all res_active (live s)"
    using assms(2) by (simp_all add: slots_ok_def)
  then have "res_active (live s ! i)" using Drop(2) by (simp add: list_all_length)
  with Drop(1) have s': "shared s' = give_slot_back (shared s)" "live s' = remove_nth i (live s)"
    "releasing s' = releasing s" "recommitted s' = recommitted s" by (simp_all add: drop_reservation_def)
  show ?thesis
  proof (rule slots_give_back [OF assms(2)])
    show "slots s = Suc (slots s')"
      using length_remove_nth [OF Drop(2)] s' by (simp add: slots_def give_slot_back_def)
  qed (use s' fin list_all_remove_nth [OF act] in \<open>simp_all add: give_slot_back_def\<close>)
next
  case (Release_Remove t g removed)
  have fin: "finite (threads_set (active_agents (shared s)))" and act: "list_all res_active (live s)"
    using assms(2) by (simp_all add: slots_ok_def)
  have s': "threads_set (active_agents g) = threads_set (active_agents (shared s)) - {t}"
    "total_count g = total_count (shared s)" "removed = (t \<in> threads_set (active_agents (shared s)))"
    using Release_Remove(2) by (auto simp: remove_spawned_thread_def Let_def)
  show ?thesis
  proof (rule slots_unchanged [OF assms(2)])
    show "slots s' = slots s"
      using card_Suc_Diff1 [OF fin, of t] Release_Remove(1) s' by (simp add: slots_def)
  qed (use Release_Remove(1) s' fin act in simp_all)
next
  case Release_Count
  have fin: "finite (threads_set (active_agents (shared s)))" and act: "list_all res_active (live s)"
    using assms(2) by (simp_all add: slots_ok_def)
  show ?thesis
    by (rule slots_give_back [OF assms(2)])
      (use Release_Count fin act in \<open>simp_all add: slots_def give_slot_back_def\<close>)
qed

lemma reachable_slots_ok: "guard_reachable pick limit s \<Longrightarrow> slots_ok limit s"
proof (induction rule: guard_reachable.induct)
  case Start
  show ?case by (simp add: slots_ok_def slots_def guard_start_def new_guards_def split: option.split)
next
  case (Step s s')
  then show ?case by (simp add: slots_ok_step)
qed

text \<open>C30: With a limit the counter is exactly the number of slots that are held, and never exceeds the
  limit, whichever way reservations, commits, drops and the two steps of releases interleave.
  A slot is held by each registered thread, each reservation, each release that has
  not decremented the counter yet, and by each commit of a thread that was registered already; and a
  reservation is refused exactly when all slots of the limit are held.\<close>

theorem slots_never_exceed_limit:
  assumes "guard_reachable pick (Some m) s" and "m \<le> usize_max"
  shows "total_count (shared s) =
      card (threads_set (active_agents (shared s))) + length (live s) + releasing s + recommitted s \<and>
    total_count (shared s) \<le> m \<and>
    ((\<exists>g r. reserve_spawn_slot (Some m) (shared s) = (g, Inr r)) \<longleftrightarrow>
     card (threads_set (active_agents (shared s))) + length (live s) + releasing s + recommitted s < m)"
  using reachable_slots_ok [OF assms(1)] assms(2)
  by (auto simp: slots_ok_def slots_def reserve_spawn_slot_def try_increment_spawned_def)

definition pick_first :: "string list \<Rightarrow> string option" where
  "pick_first xs = (case xs of [] \<Rightarrow> None | x # _ \<Rightarrow> Some x)"

text \<open>A run with two slots: a thread is committed, committed again, and released.\<close>

definition counted :: "nat set \<Rightarrow> nat \<Rightarrow> nat guards" where
  "counted ts n = \<lparr>active_agents = \<lparr>threads_set = ts, thread_agent_nicknames = Map.empty,
     used_agent_nicknames = {}, nickname_reset_count = 0\<rparr>, total_count = n\<rparr>"

lemma reserve_counted:
  "n < 2 \<Longrightarrow> guard_step pick (Some 2) \<lparr>shared = counted ts n, live = rs, releasing = k, recommitted = l\<rparr>
     \<lparr>shared = counted ts (n + 1), live = rs @ [new_reservation], releasing = k, recommitted = l\<rparr>"
  using Reserve [of "Some 2" "\<lparr>shared = counted ts n, live = rs, releasing = k, recommitted = l\<rparr>"]
  by (simp add: reserve_spawn_slot_def try_increment_spawned_def counted_def)

lemma commit_counted:
  "guard_step pick (Some 2) \<lparr>shared = counted ts n, live = [new_reservation], releasing = k, recommitted = l\<rparr>
     \<lparr>shared = counted (insert t ts) n, live = [], releasing = k, recommitted = l + (if t \<in> ts then 1 else 0)\<rparr>"
  using Commit [of 0 "\<lparr>shared = counted ts n, live = [new_reservation], releasing = k, recommitted = l\<rparr>" t None]
  by (simp add: commit_with_agent_nickname_def register_spawned_thread_def drop_reservation_def new_reservation_def
      counted_def remove_nth_def Let_def)

lemma release_counted:
  "guard_step pick (Some 2) \<lparr>shared = counted {t} n, live = [], releasing = 0, recommitted = l\<rparr>
     \<lparr>shared = counted {} n, live = [], releasing = 1, recommitted = l\<rparr>"
  "1 \<le> n \<Longrightarrow> n \<le> usize_max \<Longrightarrow> guard_step pick (Some 2) \<lparr>shared = counted {} n, live = [], releasing = 1, recommitted = l\<rparr>
     \<lparr>shared = counted {} (n - 1), live = [], releasing = 0, recommitted = l\<rparr>"
proof -
  have no_names: "Map.empty(t := None) = (Map.empty :: nat \<rightharpoonup> string)" by simp
  show "guard_step pick (Some 2) \<lparr>shared = counted {t} n, live = [], releasing = 0, recommitted = l\<rparr>
     \<lparr>shared = counted {} n, live = [], releasing = 1, recommitted = l\<rparr>"
    using Release_Remove [of t "\<lparr>shared = counted {t} n, live = [], releasing = 0, recommitted = l\<rparr>"]
    by (simp add: remove_spawned_thread_def counted_def Let_def)
  show "guard_step pick (Some 2) \<lparr>shared = counted {} n, live = [], releasing = 1, recommitted = l\<rparr>
     \<lparr>shared = counted {} (n - 1), live = [], releasing = 0, recommitted = l\<rparr>" if "1 \<le> n" "n \<le> usize_max"
    using Release_Count [of "\<lparr>shared = counted {} n, live = [], releasing = 1, recommitted = l\<rparr>"] that
    by (simp add: give_slot_back_def counted_def fetch_sub_Suc)
qed

lemma recommitted_run:
  "guard_reachable pick (Some 2) \<lparr>shared = counted {7} 2, live = [], releasing = 0, recommitted = 1\<rparr>"
  "guard_reachable pick (Some 2) \<lparr>shared = counted {} 1, live = [], releasing = 0, recommitted = 1\<rparr>"
proof -
  note next_state = guard_reachable.Step [of pick "Some 2"]
  have "guard_reachable pick (Some 2) \<lparr>shared = counted {} 0, live = [], releasing = 0, recommitted = 0\<rparr>"
    using guard_reachable.Start [of pick "Some 2"] by (simp add: guard_start_def new_guards_def counted_def)
  from next_state [OF this reserve_counted]
  have "guard_reachable pick (Some 2) \<lparr>shared = counted {} 1, live = [new_reservation], releasing = 0, recommitted = 0\<rparr>" by simp
  from next_state [OF this commit_counted [of _ _ _ _ _ 7]]
  have "guard_reachable pick (Some 2) \<lparr>shared = counted {7} 1, live = [], releasing = 0, recommitted = 0\<rparr>" by simp
  from next_state [OF this reserve_counted]
  have "guard_reachable pick (Some 2) \<lparr>shared = counted {7} 2, live = [new_reservation], releasing = 0, recommitted = 0\<rparr>" by (simp add: numeral_2_eq_2)
  from next_state [OF this commit_counted [of _ _ _ _ _ 7]]
  show two: "guard_reachable pick (Some 2) \<lparr>shared = counted {7} 2, live = [], releasing = 0, recommitted = 1\<rparr>" by simp
  from next_state [OF next_state [OF two release_counted(1)] release_counted(2)]
  show "guard_reachable pick (Some 2) \<lparr>shared = counted {} 1, live = [], releasing = 0, recommitted = 1\<rparr>"
    by (simp add: usize_max_def)
qed

theorem slots_never_exceed_limit_witness:
  "\<exists>s :: nat guard_sys. guard_reachable pick_first (Some 2) s \<and>
     card (threads_set (active_agents (shared s))) = 1 \<and> recommitted s = 1 \<and>
     total_count (shared s) \<le> 2 \<and> \<not> (\<exists>g r. reserve_spawn_slot (Some 2) (shared s) = (g, Inr r))"
proof -
  let ?s = "\<lparr>shared = counted {7} 2, live = [], releasing = 0, recommitted = 1\<rparr>"
  have "2 \<le> usize_max" by (simp add: usize_max_def)
  from slots_never_exceed_limit [OF recommitted_run(1) this] recommitted_run(1) show ?thesis
    by (intro exI [of _ ?s]) (simp add: counted_def)
qed

text \<open>A slot that is held by a second commit is lost: no step gives it back, so that from then on the
  session has one agent less, even when no thread is left, as at the end of the run above.\<close>

lemma recommitted_step: "guard_step pick limit s s' \<Longrightarrow> recommitted s \<le> recommitted s'"
  by (cases rule: guard_step.cases) auto

lemma recommitted_slots_are_lost:
  assumes "guard_reachable pick (Some m) s" and "m \<le> usize_max" and "(guard_step pick (Some m))\<^sup>*\<^sup>* s s'"
  shows "card (threads_set (active_agents (shared s'))) + length (live s') + recommitted s \<le> m"
proof -
  from assms(3) have "guard_reachable pick (Some m) s' \<and> recommitted s \<le> recommitted s'"
  proof (induction rule: rtranclp_induct)
    case base
    with assms(1) show ?case by simp
  next
    case (step y z)
    then show ?case using guard_reachable.Step recommitted_step le_trans by blast
  qed
  with reachable_slots_ok [of pick "Some m" s'] assms(2) show ?thesis by (simp add: slots_ok_def slots_def)
qed

text \<open>The loop of exchanges does what the atomic operation does, at the value its last
  exchange finds.\<close>

lemma increment_loop_linearizes:
  "increment_loop m cur xs = Some (ok, c) \<Longrightarrow>
     (if ok then \<exists>v. (v, False) \<in> set xs \<and> v < m \<and> c = v + 1
      else c \<ge> m \<and> c \<in> insert cur (fst ` set xs))"
proof (induction m cur xs rule: increment_loop.induct)
  case (2 m cur actual spurious xs)
  then show ?case
    by (cases "cur \<ge> m"; cases "actual = cur \<and> \<not> spurious") (auto split: if_splits)
qed (auto split: if_splits)

subsection \<open>Nicknames\<close>

definition formatted_names :: "string list \<Rightarrow> nat \<Rightarrow> string set" where
  "formatted_names names k = (\<lambda>n. format_agent_nickname n k) ` set names"

text \<open>A nickname chosen from the pool is one that is not in use, as long as the pool has such
  a name; only when all its names are in use is the pool reset, and then the next number
  of the names is used.  The choice itself is any function that picks an element of a
  non-empty list.\<close>

lemma nickname_is_unused:
  fixes g :: "'tid guards"
  assumes pick: "\<forall>xs. case pick xs of None \<Rightarrow> xs = [] | Some x \<Rightarrow> x \<in> set xs" and "names \<noteq> []"
  defines "a \<equiv> active_agents g"
  defines "pool \<equiv> formatted_names names (nickname_reset_count a)"
  shows "\<exists>g' n. reserve_agent_nickname pick names None g = (g', Some n) \<and>
    (if pool \<subseteq> used_agent_nicknames a
     then n \<in> formatted_names names (nickname_reset_count a + 1) \<and>
       active_agents g' = a\<lparr>used_agent_nicknames := {n}, nickname_reset_count := nickname_reset_count a + 1\<rparr>
     else n \<in> pool - used_agent_nicknames a \<and>
       active_agents g' = a\<lparr>used_agent_nicknames := insert n (used_agent_nicknames a)\<rparr>)"
proof -
  let ?avail = "filter (\<lambda>n. n \<notin> used_agent_nicknames a)
    (map (\<lambda>n. format_agent_nickname n (nickname_reset_count a)) names)"
  have set_avail: "set ?avail = pool - used_agent_nicknames a"
    by (auto simp: pool_def formatted_names_def)
  have pick_None: "xs = []" if "pick xs = None" for xs using pick [rule_format, of xs] that by simp
  have pick_Some: "x \<in> set xs" if "pick xs = Some x" for x xs using pick [rule_format, of xs] that by simp
  show ?thesis
  proof (cases "pick ?avail")
    case None
    with set_avail pick_None [OF None] have sub: "pool \<subseteq> used_agent_nicknames a" by auto
    from pick_None [of names] assms(2) obtain n where n: "pick names = Some n" by fast
    from pick_Some [OF n] have "n \<in> set names" .
    with None n sub assms(2) show ?thesis
      by (auto simp: reserve_agent_nickname_def a_def Let_def formatted_names_def)
  next
    case (Some n)
    with set_avail pick_Some [OF Some] have n: "n \<in> pool - used_agent_nicknames a" by simp
    with Some assms(2) show ?thesis
      by (auto simp: reserve_agent_nickname_def a_def Let_def)
  qed
qed

end
