(* ===== verification/Approval_Policy.thy ===== *)
theory Approval_Policy
  imports Rust_Text
begin

section \<open>Approval policies\<close>

text \<open>
  The types of \<^verbatim>\<open>codex-rs/protocol\<close> that the approval of commands, patches and network access
  share: when the user wants to be asked, what a tool has to ask, and the answers.
\<close>

subsection \<open>Policies and requirements\<close>

record reject_config =
  sandbox_approval :: bool
  rules :: bool
  skill_approval :: bool
  request_permissions :: bool
  mcp_elicitations :: bool

datatype ask_for_approval = UnlessTrusted | OnFailure | OnRequest | Reject reject_config | Never

definition rejects_sandbox_approval :: "reject_config \<Rightarrow> bool" where
  "rejects_sandbox_approval c = sandbox_approval c"

definition rejects_rules_approval :: "reject_config \<Rightarrow> bool" where
  "rejects_rules_approval c = rules c"

datatype sandbox_permissions = UseDefault | RequireEscalated | WithAdditionalPermissions

definition requests_sandbox_override :: "sandbox_permissions \<Rightarrow> bool" where
  "requests_sandbox_override s = (s \<noteq> UseDefault)"

datatype exec_approval_requirement =
    Skip (bypass_sandbox: bool) (skip_amendment: "string list option")
  | NeedsApproval (prompt_reason: "string option") (prompt_amendment: "string list option")
  | ForbiddenApproval (forbidden_reason: string)

subsection \<open>Answers\<close>

datatype network_rule_action = ActionAllow | ActionDeny

record network_policy_amendment =
  amendment_host :: string
  amendment_action :: network_rule_action

datatype review_decision =
    Approved
  | ApprovedExecpolicyAmendment "string list"
  | ApprovedForSession
  | NetworkPolicyAmendment network_policy_amendment
  | Denied
  | Abort

end
