(* ===== verification/Exec_Rule.thy ===== *)
theory Exec_Rule
  imports Rust_Text
begin

section \<open>Rules of the execution policy\<close>

text \<open>
  A model of \<^verbatim>\<open>codex-rs/execpolicy/src/decision.rs\<close>, \<^verbatim>\<open>rule.rs\<close>, \<^verbatim>\<open>executable_name.rs\<close> and of the
  errors in \<^verbatim>\<open>error.rs\<close>: decisions and their order, patterns on the words of a command,
  network rules and the normal form of their hosts.

  Absolute paths (\<^verbatim>\<open>AbsolutePathBuf\<close>, resolved against the file system) are a type variable;
  what the policy asks of them is the record \<open>host_env\<close>.
\<close>

subsection \<open>Decisions\<close>

datatype decision = Allow | Prompt | Forbidden

fun decision_rank :: "decision \<Rightarrow> nat" where
  "decision_rank Allow = 0"
| "decision_rank Prompt = 1"
| "decision_rank Forbidden = 2"

lemma decision_rank_inj: "decision_rank a = decision_rank b \<Longrightarrow> a = b"
  by (cases a; cases b) simp_all

text \<open>The derived order of the constructors.\<close>

instantiation decision :: linorder
begin

definition less_eq_decision :: "decision \<Rightarrow> decision \<Rightarrow> bool" where
  "less_eq_decision a b = (decision_rank a \<le> decision_rank b)"

definition less_decision :: "decision \<Rightarrow> decision \<Rightarrow> bool" where
  "less_decision a b = (decision_rank a < decision_rank b)"

instance
  by intro_classes (auto simp: less_eq_decision_def less_decision_def dest: decision_rank_inj)

end

lemma Allow_least [simp]: "Allow \<le> d"
  by (simp add: less_eq_decision_def)

lemma Forbidden_greatest [simp]: "d \<le> Forbidden"
  by (cases d) (simp_all add: less_eq_decision_def)

record text_range =
  range_start :: "nat \<times> nat"
  range_end :: "nat \<times> nat"

record error_location =
  loc_path :: string
  loc_range :: text_range

datatype policy_error =
    InvalidDecision string
  | InvalidPattern string
  | InvalidExample string
  | InvalidRule string
  | ExampleDidNotMatch "string list" "string list" "error_location option"
  | ExampleDidMatch string string "error_location option"

fun with_location :: "error_location \<Rightarrow> policy_error \<Rightarrow> policy_error" where
  "with_location loc (ExampleDidNotMatch rules examples None) = ExampleDidNotMatch rules examples (Some loc)"
| "with_location loc (ExampleDidMatch rule example None) = ExampleDidMatch rule example (Some loc)"
| "with_location loc e = e"

definition decision_parse :: "string \<Rightarrow> (policy_error, decision) result" where
  "decision_parse raw =
     (if raw = ''allow'' then Inr Allow
      else if raw = ''prompt'' then Inr Prompt
      else if raw = ''forbidden'' then Inr Forbidden
      else Inl (InvalidDecision raw))"

subsection \<open>Names of executables\<close>

record 'p host_env =
  windows :: bool
  path_is_absolute :: "string \<Rightarrow> bool"
  to_absolute :: "string \<Rightarrow> (string, 'p) result"
  path_file_name :: "'p \<Rightarrow> string option"

definition WINDOWS_EXECUTABLE_SUFFIXES :: "string list" where
  "WINDOWS_EXECUTABLE_SUFFIXES = [''.exe'', ''.cmd'', ''.bat'', ''.com'']"

definition executable_lookup_key :: "'p host_env \<Rightarrow> string \<Rightarrow> string" where
  "executable_lookup_key env raw =
     (if windows env then
        (let raw = to_ascii_lowercase raw in
         case List.find (\<lambda>s. suffix s raw) WINDOWS_EXECUTABLE_SUFFIXES of
           Some s \<Rightarrow> take (length raw - length s) raw
         | None \<Rightarrow> raw)
      else raw)"

definition executable_path_lookup_key :: "'p host_env \<Rightarrow> 'p \<Rightarrow> string option" where
  "executable_path_lookup_key env path = map_option (executable_lookup_key env) (path_file_name env path)"

subsection \<open>Patterns\<close>

datatype pattern_token = Single string | Alts "string list"

fun token_matches :: "pattern_token \<Rightarrow> string \<Rightarrow> bool" where
  "token_matches (Single expected) t = (expected = t)"
| "token_matches (Alts alternatives) t = list_ex (\<lambda>a. a = t) alternatives"

fun token_alternatives :: "pattern_token \<Rightarrow> string list" where
  "token_alternatives (Single expected) = [expected]"
| "token_alternatives (Alts alternatives) = alternatives"

record prefix_pattern =
  pat_first :: string
  pat_rest :: "pattern_token list"

definition matches_prefix :: "prefix_pattern \<Rightarrow> string list \<Rightarrow> string list option" where
  "matches_prefix p cmd =
     (let n = length (pat_rest p) + 1 in
      if length cmd < n \<or> cmd ! 0 \<noteq> pat_first p then None
      else if list_ex (\<lambda>(pt, ct). \<not> token_matches pt ct) (zip (pat_rest p) (take (n - 1) (drop 1 cmd))) then None
      else Some (take n cmd))"

datatype 'p rule_match =
    PrefixRuleMatch "string list" decision "'p option" "string option"
  | HeuristicsRuleMatch "string list" decision

fun match_decision :: "'p rule_match \<Rightarrow> decision" where
  "match_decision (PrefixRuleMatch _ d _ _) = d"
| "match_decision (HeuristicsRuleMatch _ d) = d"

fun with_resolved_program :: "'p \<Rightarrow> 'p rule_match \<Rightarrow> 'p rule_match" where
  "with_resolved_program p (PrefixRuleMatch pre d _ j) = PrefixRuleMatch pre d (Some p) j"
| "with_resolved_program p m = m"

record prefix_rule =
  rule_pattern :: prefix_pattern
  rule_decision :: decision
  rule_justification :: "string option"

definition rule_program :: "prefix_rule \<Rightarrow> string" where
  "rule_program r = pat_first (rule_pattern r)"

definition rule_matches :: "prefix_rule \<Rightarrow> string list \<Rightarrow> 'p rule_match option" where
  "rule_matches r cmd =
     map_option (\<lambda>pre. PrefixRuleMatch pre (rule_decision r) None (rule_justification r))
       (matches_prefix (rule_pattern r) cmd)"

subsection \<open>Network rules\<close>

datatype network_rule_protocol = Http | Https | Socks5Tcp | Socks5Udp

definition protocol_parse :: "string \<Rightarrow> (policy_error, network_rule_protocol) result" where
  "protocol_parse raw =
     (if raw = ''http'' then Inr Http
      else if raw \<in> set [''https'', ''https_connect'', ''http-connect''] then Inr Https
      else if raw = ''socks5_tcp'' then Inr Socks5Tcp
      else if raw = ''socks5_udp'' then Inr Socks5Udp
      else Inl (InvalidRule
        (''network_rule protocol must be one of http, https, socks5_tcp, socks5_udp (got '' @ raw @ '')'')))"

fun as_policy_string :: "network_rule_protocol \<Rightarrow> string" where
  "as_policy_string Http = ''http''"
| "as_policy_string Https = ''https''"
| "as_policy_string Socks5Tcp = ''socks5_tcp''"
| "as_policy_string Socks5Udp = ''socks5_udp''"

record network_rule =
  net_host :: string
  net_protocol :: network_rule_protocol
  net_decision :: decision
  net_justification :: "string option"

definition msg_host_empty :: string where
  "msg_host_empty = ''network_rule host cannot be empty''"

text \<open>The host without brackets and port.\<close>

definition host_without_port :: "string \<Rightarrow> string \<Rightarrow> (policy_error, string) result" where
  "host_without_port raw host =
     (case strip_prefix ''['' host of
        Some stripped \<Rightarrow>
          (case split_once (CHR '']'') stripped of
             None \<Rightarrow> Inl (InvalidRule ''network_rule host has an invalid bracketed IPv6 literal'')
           | Some (inside, rest) \<Rightarrow>
               (let port_ok = (case strip_prefix '':'' rest of
                                 Some port \<Rightarrow> port \<noteq> [] \<and> list_all is_ascii_digit port
                               | None \<Rightarrow> False)
                in if rest \<noteq> [] \<and> \<not> port_ok
                   then Inl (InvalidRule (''network_rule host contains an unsupported suffix: '' @ raw))
                   else Inr inside))
      | None \<Rightarrow>
          (case (if count_list host (CHR '':'') = 1 then rsplit_once (CHR '':'') host else None) of
             Some (candidate, port) \<Rightarrow>
               if candidate \<noteq> [] \<and> port \<noteq> [] \<and> list_all is_ascii_digit port then Inr candidate
               else Inr host
           | None \<Rightarrow> Inr host))"

definition normalize_network_rule_host :: "string \<Rightarrow> (policy_error, string) result" where
  "normalize_network_rule_host raw =
     (let host = str_trim raw in
      if host = [] then Inl (InvalidRule msg_host_empty)
      else if contains_str host ''://'' \<or> contains_str host ''/'' \<or> contains_str host ''?'' \<or> contains_str host ''#''
      then Inl (InvalidRule ''network_rule host must be a hostname or IP literal (without scheme or path)'')
      else (case host_without_port raw host of
              Inl e \<Rightarrow> Inl e
            | Inr host \<Rightarrow>
                (let normalized = to_ascii_lowercase (str_trim (trim_end_char (CHR ''.'') host)) in
                 if normalized = [] then Inl (InvalidRule msg_host_empty)
                 else if contains_str normalized ''*'' then
                   Inl (InvalidRule ''network_rule host must be a specific host; wildcards are not allowed'')
                 else if has_whitespace normalized then
                   Inl (InvalidRule ''network_rule host cannot contain whitespace'')
                 else Inr normalized)))"

subsection \<open>What a prefix pattern matches\<close>

lemma matches_prefix_Some:
  "matches_prefix p cmd = Some pre \<longleftrightarrow>
     (\<exists>ts post. cmd = pat_first p # ts @ post \<and> list_all2 token_matches (pat_rest p) ts \<and>
        pre = pat_first p # ts)"
proof
  assume m: "matches_prefix p cmd = Some pre"
  let ?n = "length (pat_rest p)"
  from m have len: "?n < length cmd" and hd: "cmd ! 0 = pat_first p" and pre: "pre = take (?n + 1) cmd"
    and all: "\<forall>(pt, ct) \<in> set (zip (pat_rest p) (take ?n (drop 1 cmd))). token_matches pt ct"
    by (auto simp: matches_prefix_def Let_def list_ex_iff split: if_splits)
  from len obtain c cs where cmd: "cmd = c # cs" by (cases cmd) auto
  with all len have "list_all2 token_matches (pat_rest p) (take ?n cs)"
    by (auto simp: list_all2_iff)
  with cmd hd pre show "\<exists>ts post. cmd = pat_first p # ts @ post \<and> list_all2 token_matches (pat_rest p) ts \<and>
      pre = pat_first p # ts"
    by (intro exI [of _ "take ?n cs"] exI [of _ "drop ?n cs"]) simp
next
  assume "\<exists>ts post. cmd = pat_first p # ts @ post \<and> list_all2 token_matches (pat_rest p) ts \<and>
    pre = pat_first p # ts"
  then obtain ts post where cmd: "cmd = pat_first p # ts @ post" and all: "list_all2 token_matches (pat_rest p) ts"
    and pre: "pre = pat_first p # ts" by blast
  from list_all2_lengthD [OF all] have len: "length (pat_rest p) = length ts" .
  with all have "\<not> list_ex (\<lambda>(pt, ct). \<not> token_matches pt ct) (zip (pat_rest p) ts)"
    by (auto simp: list_all2_iff list_ex_iff)
  with len cmd pre show "matches_prefix p cmd = Some pre" by (simp add: matches_prefix_def Let_def)
qed

lemma rule_matches_Some:
  "rule_matches r cmd = Some m \<longleftrightarrow>
     (\<exists>ts post. cmd = rule_program r # ts @ post \<and> list_all2 token_matches (pat_rest (rule_pattern r)) ts \<and>
        m = PrefixRuleMatch (rule_program r # ts) (rule_decision r) None (rule_justification r))"
  by (auto simp: rule_matches_def matches_prefix_Some rule_program_def)

lemma rule_matches_decision: "rule_matches r cmd = Some m \<Longrightarrow> match_decision m = rule_decision r"
  by (auto simp: rule_matches_def)

text \<open>More words do not undo a match.\<close>

lemma rule_matches_append: "rule_matches r cmd = Some m \<Longrightarrow> rule_matches r (cmd @ rest) = Some m"
  by (auto simp: rule_matches_Some)

subsection \<open>Normal forms of hosts\<close>

lemma contains_char: "contains_str s [c] \<longleftrightarrow> c \<in> set s"
proof -
  have "find_str [c] s = None \<longleftrightarrow> c \<notin> set s" by (induction s) (auto simp: prefix_def)
  then show ?thesis by (auto simp: contains_str_def)
qed

lemma host_without_port_subset: "host_without_port raw host = Inr h \<Longrightarrow> set h \<subseteq> set host"
proof (cases "strip_prefix ''['' host")
  case None
  then show "host_without_port raw host = Inr h \<Longrightarrow> set h \<subseteq> set host"
    by (auto simp: host_without_port_def rsplit_once_def split: option.splits if_splits prod.splits
        dest!: split_once_subset)
next
  case (Some s)
  then have "set s \<subseteq> set host" by (auto simp: strip_prefix_def split: if_splits dest: in_set_dropD)
  with Some show "host_without_port raw host = Inr h \<Longrightarrow> set h \<subseteq> set host"
    by (auto simp: host_without_port_def Let_def split: option.splits if_splits prod.splits
        dest!: split_once_subset)
qed

text \<open>A host that is accepted is a non-empty lower-case word without white space, wildcards
  or the delimiters of a URL, so that equal hosts are equal strings up to their port.\<close>

lemma normalized_host_form:
  assumes "normalize_network_rule_host raw = Inr h"
  shows "h \<noteq> [] \<and> to_ascii_lowercase h = h \<and> \<not> has_whitespace h \<and>
    set h \<inter> {CHR ''*'', CHR ''/'', CHR ''?'', CHR ''#''} = {}"
proof -
  from assms obtain host where host: "host_without_port raw (str_trim raw) = Inr host"
    and h: "h = to_ascii_lowercase (str_trim (trim_end_char (CHR ''.'') host))" "h \<noteq> []"
      "\<not> contains_str h ''*''" "\<not> has_whitespace h"
    and delim: "CHR ''/'' \<notin> set (str_trim raw)" "CHR ''?'' \<notin> set (str_trim raw)" "CHR ''#'' \<notin> set (str_trim raw)"
    by (auto simp: normalize_network_rule_host_def Let_def contains_char split: if_splits sum.splits)
  have "set (str_trim (trim_end_char (CHR ''.'') host)) \<subseteq> set (str_trim raw)"
    using host_without_port_subset [OF host] str_trim_subset trim_end_char_subset by blast
  with delim have "CHR ''/'' \<notin> set h" "CHR ''?'' \<notin> set h" "CHR ''#'' \<notin> set h"
    unfolding h(1) by (auto simp: in_lowercase)
  with h show ?thesis by (simp add: contains_char)
qed

end
