(* ===== verification/Exec_Policy.thy ===== *)
theory Exec_Policy
  imports Exec_Rule "HOL-Library.Char_ord" "HOL-Library.List_Lexorder"
begin

section \<open>The execution policy\<close>

text \<open>
  A model of \<^verbatim>\<open>codex-rs/execpolicy/src/policy.rs\<close> and of the validation of examples in
  \<^verbatim>\<open>rule.rs\<close>.  The multimap from programs to rules is an association list with distinct
  keys, in the arbitrary order in which the hash map is iterated; rules of one program
  keep their order.  The \<open>expect\<close> of \<open>from_matches\<close> is the value \<open>None\<close>.
\<close>

subsection \<open>State\<close>

type_synonym rule_map = "(string \<times> prefix_rule list) list"

definition mm_get :: "string \<Rightarrow> rule_map \<Rightarrow> prefix_rule list" where
  "mm_get k m = (case map_of m k of None \<Rightarrow> [] | Some rs \<Rightarrow> rs)"

fun mm_insert :: "string \<Rightarrow> prefix_rule \<Rightarrow> rule_map \<Rightarrow> rule_map" where
  "mm_insert k r [] = [(k, [r])]"
| "mm_insert k r ((k', rs) # m) = (if k = k' then (k', rs @ [r]) # m else (k', rs) # mm_insert k r m)"

record 'p policy =
  rules_by_program :: rule_map
  network_rules :: "network_rule list"
  host_executables_by_name :: "string \<rightharpoonup> 'p list"

definition policy_empty :: "'p policy" where
  "policy_empty = \<lparr>rules_by_program = [], network_rules = [], host_executables_by_name = Map.empty\<rparr>"

record match_options =
  resolve_host_executables :: bool

definition default_options :: match_options where
  "default_options = \<lparr>resolve_host_executables = False\<rparr>"

type_synonym heuristics = "(string list \<Rightarrow> decision) option"

record 'p evaluation =
  eval_decision :: decision
  matched_rules :: "'p rule_match list"

subsection \<open>Changing a policy\<close>

definition add_prefix_rule :: "string list \<Rightarrow> decision \<Rightarrow> 'p policy \<Rightarrow> (policy_error, 'p policy) result" where
  "add_prefix_rule pre d p =
     (case pre of
        [] \<Rightarrow> Inl (InvalidPattern ''prefix cannot be empty'')
      | first # rest \<Rightarrow>
          Inr (p\<lparr>rules_by_program := mm_insert first
                 \<lparr>rule_pattern = \<lparr>pat_first = first, pat_rest = map Single rest\<rparr>,
                  rule_decision = d, rule_justification = None\<rparr> (rules_by_program p)\<rparr>))"

definition blank_justification :: "string option \<Rightarrow> bool" where
  "blank_justification j = (case j of Some raw \<Rightarrow> str_trim raw = [] | None \<Rightarrow> False)"

definition add_network_rule ::
  "string \<Rightarrow> network_rule_protocol \<Rightarrow> decision \<Rightarrow> string option \<Rightarrow> 'p policy \<Rightarrow> (policy_error, 'p policy) result"
where
  "add_network_rule host proto d j p =
     (case normalize_network_rule_host host of
        Inl e \<Rightarrow> Inl e
      | Inr host \<Rightarrow>
          if blank_justification j then Inl (InvalidRule ''justification cannot be empty'')
          else Inr (p\<lparr>network_rules := network_rules p @
                 [\<lparr>net_host = host, net_protocol = proto, net_decision = d, net_justification = j\<rparr>]\<rparr>))"

definition set_host_executable_paths :: "string \<Rightarrow> 'p list \<Rightarrow> 'p policy \<Rightarrow> 'p policy" where
  "set_host_executable_paths name paths p =
     p\<lparr>host_executables_by_name := (host_executables_by_name p)(name \<mapsto> paths)\<rparr>"

definition merge_overlay :: "'p policy \<Rightarrow> 'p policy \<Rightarrow> 'p policy" where
  "merge_overlay p overlay =
     \<lparr>rules_by_program =
        fold (\<lambda>(program, rules) m. fold (mm_insert program) rules m) (rules_by_program overlay) (rules_by_program p),
      network_rules = network_rules p @ network_rules overlay,
      host_executables_by_name = host_executables_by_name p ++ host_executables_by_name overlay\<rparr>"

subsection \<open>Reading a policy\<close>

fun render_pattern_token :: "pattern_token \<Rightarrow> string" where
  "render_pattern_token (Single v) = v"
| "render_pattern_token (Alts alternatives) = ''['' @ join_str ''|'' alternatives @ '']''"

definition rendered_prefix :: "prefix_rule \<Rightarrow> string list" where
  "rendered_prefix r =
     pat_first (rule_pattern r) # map render_pattern_token (pat_rest (rule_pattern r))"

definition get_allowed_prefixes :: "'p policy \<Rightarrow> string list list" where
  "get_allowed_prefixes p =
     remdups_adj (sort (concat (map (\<lambda>(_, rules).
       map rendered_prefix (filter (\<lambda>r. rule_decision r = Allow) rules)) (rules_by_program p))))"

definition upsert_domain :: "string list \<Rightarrow> string \<Rightarrow> string list" where
  "upsert_domain entries host = filter (\<lambda>e. e \<noteq> host) entries @ [host]"

fun network_domain_step :: "network_rule \<Rightarrow> string list \<times> string list \<Rightarrow> string list \<times> string list" where
  "network_domain_step r (allowed, denied) =
     (case net_decision r of
        Allow \<Rightarrow> (upsert_domain allowed (net_host r), filter (\<lambda>e. e \<noteq> net_host r) denied)
      | Forbidden \<Rightarrow> (filter (\<lambda>e. e \<noteq> net_host r) allowed, upsert_domain denied (net_host r))
      | Prompt \<Rightarrow> (allowed, denied))"

definition compiled_network_domains :: "'p policy \<Rightarrow> string list \<times> string list" where
  "compiled_network_domains p = fold network_domain_step (network_rules p) ([], [])"

subsection \<open>Checking commands\<close>

definition match_exact_rules :: "'p policy \<Rightarrow> string list \<Rightarrow> 'p rule_match list option" where
  "match_exact_rules p cmd =
     (case cmd of
        [] \<Rightarrow> None
      | first # _ \<Rightarrow> Some (List.map_filter (\<lambda>r. rule_matches r cmd) (mm_get first (rules_by_program p))))"

definition match_host_executable_rules ::
  "'p host_env \<Rightarrow> 'p policy \<Rightarrow> string list \<Rightarrow> 'p rule_match list"
where
  "match_host_executable_rules env p cmd =
     (case cmd of
        [] \<Rightarrow> []
      | first # args \<Rightarrow>
          (case to_absolute env first of
             Inl _ \<Rightarrow> []
           | Inr program \<Rightarrow>
               (case executable_path_lookup_key env program of
                  None \<Rightarrow> []
                | Some basename \<Rightarrow>
                    (case map_of (rules_by_program p) basename of
                       None \<Rightarrow> []
                     | Some rules \<Rightarrow>
                         if (case host_executables_by_name p basename of
                               Some paths \<Rightarrow> \<not> list_ex (\<lambda>path. path = program) paths
                             | None \<Rightarrow> False)
                         then []
                         else map (with_resolved_program program)
                           (List.map_filter (\<lambda>r. rule_matches r (basename # args)) rules)))))"

definition matches_for_command_with_options ::
  "'p host_env \<Rightarrow> 'p policy \<Rightarrow> string list \<Rightarrow> heuristics \<Rightarrow> match_options \<Rightarrow> 'p rule_match list"
where
  "matches_for_command_with_options env p cmd h opts =
     (let nonempty = (\<lambda>m. case m of Some (x # xs) \<Rightarrow> Some (x # xs) | _ \<Rightarrow> None);
          found =
            (case nonempty (match_exact_rules p cmd) of
               Some ms \<Rightarrow> ms
             | None \<Rightarrow>
                 (case nonempty (if resolve_host_executables opts
                                 then Some (match_host_executable_rules env p cmd) else None) of
                    Some ms \<Rightarrow> ms
                  | None \<Rightarrow> []))
      in case h of
           Some fallback \<Rightarrow> if found = [] then [HeuristicsRuleMatch cmd (fallback cmd)] else found
         | None \<Rightarrow> found)"

definition matches_for_command :: "'p host_env \<Rightarrow> 'p policy \<Rightarrow> string list \<Rightarrow> heuristics \<Rightarrow> 'p rule_match list" where
  "matches_for_command env p cmd h = matches_for_command_with_options env p cmd h default_options"

definition is_match :: "'p evaluation \<Rightarrow> bool" where
  "is_match e = list_ex (\<lambda>m. case m of HeuristicsRuleMatch _ _ \<Rightarrow> False | _ \<Rightarrow> True) (matched_rules e)"

text \<open>\<open>Iterator::max\<close> over the decisions.\<close>

definition from_matches :: "'p rule_match list \<Rightarrow> 'p evaluation option" where
  "from_matches ms =
     (case map match_decision ms of
        [] \<Rightarrow> None
      | d # ds \<Rightarrow> Some \<lparr>eval_decision = fold max ds d, matched_rules = ms\<rparr>)"

definition check_with_options ::
  "'p host_env \<Rightarrow> 'p policy \<Rightarrow> string list \<Rightarrow> (string list \<Rightarrow> decision) \<Rightarrow> match_options \<Rightarrow> 'p evaluation option"
where
  "check_with_options env p cmd fallback opts =
     from_matches (matches_for_command_with_options env p cmd (Some fallback) opts)"

definition check ::
  "'p host_env \<Rightarrow> 'p policy \<Rightarrow> string list \<Rightarrow> (string list \<Rightarrow> decision) \<Rightarrow> 'p evaluation option"
where
  "check env p cmd fallback = check_with_options env p cmd fallback default_options"

definition check_multiple_with_options ::
  "'p host_env \<Rightarrow> 'p policy \<Rightarrow> string list list \<Rightarrow> (string list \<Rightarrow> decision) \<Rightarrow> match_options \<Rightarrow> 'p evaluation option"
where
  "check_multiple_with_options env p cmds fallback opts =
     from_matches (concat (map (\<lambda>cmd. matches_for_command_with_options env p cmd (Some fallback) opts) cmds))"

definition check_multiple ::
  "'p host_env \<Rightarrow> 'p policy \<Rightarrow> string list list \<Rightarrow> (string list \<Rightarrow> decision) \<Rightarrow> 'p evaluation option"
where
  "check_multiple env p cmds fallback = check_multiple_with_options env p cmds fallback default_options"

text \<open>Validation of the examples of a rule; how rules and commands are printed is a parameter.\<close>

definition example_options :: match_options where
  "example_options = \<lparr>resolve_host_executables = True\<rparr>"

definition validate_match_examples ::
  "(prefix_rule \<Rightarrow> string) \<Rightarrow> (string list \<Rightarrow> string) \<Rightarrow> 'p host_env \<Rightarrow> 'p policy \<Rightarrow> prefix_rule list \<Rightarrow>
   string list list \<Rightarrow> (policy_error, unit) result"
where
  "validate_match_examples show_rule show_cmd env p rules examples =
     (let unmatched = filter (\<lambda>cmd. matches_for_command_with_options env p cmd None example_options = []) examples
      in if unmatched = [] then Inr ()
         else Inl (ExampleDidNotMatch (map show_rule rules) (map show_cmd unmatched) None))"

fun validate_not_match_examples ::
  "('p rule_match \<Rightarrow> string) \<Rightarrow> (string list \<Rightarrow> string) \<Rightarrow> 'p host_env \<Rightarrow> 'p policy \<Rightarrow>
   string list list \<Rightarrow> (policy_error, unit) result"
where
  "validate_not_match_examples show_match show_cmd env p [] = Inr ()"
| "validate_not_match_examples show_match show_cmd env p (cmd # examples) =
     (case matches_for_command_with_options env p cmd None example_options of
        m # _ \<Rightarrow> Inl (ExampleDidMatch (show_match m) (show_cmd cmd) None)
      | [] \<Rightarrow> validate_not_match_examples show_match show_cmd env p examples)"

subsection \<open>Lookup and insertion\<close>

definition wf_rules :: "rule_map \<Rightarrow> bool" where
  "wf_rules m = distinct (map fst m)"

lemma mm_get_Cons: "mm_get k ((k', rs) # m) = (if k = k' then rs else mm_get k m)"
  by (simp add: mm_get_def)

lemma mm_get_insert: "mm_get k (mm_insert k' r m) = (if k = k' then mm_get k m @ [r] else mm_get k m)"
  by (induction k' r m rule: mm_insert.induct) (auto simp: mm_get_Cons, auto simp: mm_get_def)

lemma fst_mm_insert: "set (map fst (mm_insert k r m)) = insert k (set (map fst m))"
  by (induction k r m rule: mm_insert.induct) auto

lemma wf_mm_insert: "wf_rules m \<Longrightarrow> wf_rules (mm_insert k r m)"
  unfolding wf_rules_def
proof (induction k r m rule: mm_insert.induct)
  case (2 k r k' rs m)
  then show ?case using fst_mm_insert [of k r m] by auto
qed simp

lemma mm_get_inserts: "mm_get k (fold (mm_insert k') rs m) = (if k = k' then mm_get k m @ rs else mm_get k m)"
  by (induction rs arbitrary: m) (auto simp: mm_get_insert)

lemma mm_get_merge:
  "wf_rules ov \<Longrightarrow> mm_get k (fold (\<lambda>(program, rules) m. fold (mm_insert program) rules m) ov m) =
     mm_get k m @ mm_get k ov"
proof (induction ov arbitrary: m)
  case (Cons x ov)
  obtain k' rs where x: "x = (k', rs)" by (cases x)
  with Cons.prems have wf: "wf_rules ov" and "k' \<notin> fst ` set ov" by (auto simp: wf_rules_def)
  then have "mm_get k' ov = []" by (simp add: mm_get_def map_of_eq_None_iff [THEN iffD2])
  with Cons.IH [OF wf] x show ?case by (simp add: mm_get_Cons mm_get_inserts)
qed (simp add: mm_get_def)

subsection \<open>The decision is the strictest one\<close>

lemma from_matches_Some:
  "ms \<noteq> [] \<Longrightarrow> from_matches ms = Some \<lparr>eval_decision = Max (match_decision ` set ms), matched_rules = ms\<rparr>"
proof -
  assume "ms \<noteq> []"
  then obtain x xs where ms: "ms = x # xs" by (cases ms) auto
  have "Max (set (map match_decision ms)) = fold max (map match_decision xs) (match_decision x)"
    unfolding ms list.map by (rule Max.set_eq_fold)
  then show ?thesis by (simp add: ms from_matches_def)
qed

lemma from_matches_Nil [simp]: "from_matches [] = None"
  by (simp add: from_matches_def)

lemma from_matches_None: "from_matches ms = None \<longleftrightarrow> ms = []"
  by (cases ms) (simp_all add: from_matches_def)

lemma matches_nonempty: "matches_for_command_with_options env p cmd (Some fb) opts \<noteq> []"
  by (simp add: matches_for_command_with_options_def Let_def)

lemma Max_UN:
  fixes A :: "'i \<Rightarrow> 'a :: linorder set"
  assumes "finite I" and "I \<noteq> {}" and "\<And>i. finite (A i)" and "\<And>i. A i \<noteq> {}"
  shows "Max (\<Union>i \<in> I. A i) = Max ((\<lambda>i. Max (A i)) ` I)"
proof (rule Max_eqI)
  show "finite (\<Union>i \<in> I. A i)" using assms by blast
next
  fix y
  assume "y \<in> (\<Union>i \<in> I. A i)"
  then obtain i where i: "i \<in> I" "y \<in> A i" by blast
  then have "y \<le> Max (A i)" using assms(3) by simp
  also have "\<dots> \<le> Max ((\<lambda>i. Max (A i)) ` I)" using i(1) assms(1) by simp
  finally show "y \<le> Max ((\<lambda>i. Max (A i)) ` I)" .
next
  have "Max ((\<lambda>i. Max (A i)) ` I) \<in> (\<lambda>i. Max (A i)) ` I" using assms(1,2) by simp
  then obtain i where i: "Max ((\<lambda>i. Max (A i)) ` I) = Max (A i)" "i \<in> I" by (rule imageE)
  have "Max (A i) \<in> A i" by (rule Max_in [OF assms(3,4)])
  with i show "Max ((\<lambda>i. Max (A i)) ` I) \<in> (\<Union>i \<in> I. A i)" by (simp only: UN_I)
qed

text \<open>The rules that match a command, in the order of its program's rules.\<close>

definition exact_matches :: "'p policy \<Rightarrow> string list \<Rightarrow> 'p rule_match list" where
  "exact_matches p cmd =
     (case cmd of
        [] \<Rightarrow> []
      | first # _ \<Rightarrow> List.map_filter (\<lambda>r. rule_matches r cmd) (mm_get first (rules_by_program p)))"

lemma matches_default:
  "matches_for_command_with_options env p cmd (Some fb) default_options =
     (if exact_matches p cmd = [] then [HeuristicsRuleMatch cmd (fb cmd)] else exact_matches p cmd)"
  by (cases cmd)
    (auto simp: matches_for_command_with_options_def default_options_def match_exact_rules_def
      exact_matches_def Let_def split: list.splits)

lemma check_default:
  "check env p cmd fb =
     (if exact_matches p cmd = []
      then Some \<lparr>eval_decision = fb cmd, matched_rules = [HeuristicsRuleMatch cmd (fb cmd)]\<rparr>
      else Some \<lparr>eval_decision = Max (match_decision ` set (exact_matches p cmd)),
                 matched_rules = exact_matches p cmd\<rparr>)"
  by (auto simp: check_def check_with_options_def matches_default from_matches_Some)

definition matching_rules :: "'p policy \<Rightarrow> string list \<Rightarrow> prefix_rule list" where
  "matching_rules p cmd =
     filter (\<lambda>r. rule_program r = hd cmd \<and> rule_matches r cmd \<noteq> (None :: unit rule_match option))
       (mm_get (hd cmd) (rules_by_program p))"

lemma rule_matches_None_any: "rule_matches r cmd = (None :: 'a rule_match option) \<longleftrightarrow> matches_prefix (rule_pattern r) cmd = None"
  by (simp add: rule_matches_def)

lemma exact_matches_decisions:
  "cmd \<noteq> [] \<Longrightarrow> match_decision ` set (exact_matches p cmd) = rule_decision ` set (matching_rules p cmd)"
proof -
  assume "cmd \<noteq> []"
  then obtain first args where cmd: "cmd = first # args" by (cases cmd) auto
  have hd: "rule_program r = first" if "matches_prefix (rule_pattern r) cmd \<noteq> None" for r
    using that by (auto simp: matches_prefix_Some cmd rule_program_def)
  have "match_decision ` set (List.map_filter (\<lambda>r. rule_matches r cmd) rs) =
      rule_decision ` {r \<in> set rs. matches_prefix (rule_pattern r) cmd \<noteq> None}" for rs
    by (force simp: List.map_filter_def rule_matches_def image_iff)
  moreover have "set (matching_rules p cmd) =
      {r \<in> set (mm_get first (rules_by_program p)). matches_prefix (rule_pattern r) cmd \<noteq> None}"
    using hd by (auto simp: matching_rules_def cmd rule_matches_None_any)
  ultimately show ?thesis by (simp add: exact_matches_def cmd)
qed

lemma exact_matches_Nil: "exact_matches p cmd = [] \<longleftrightarrow> cmd = [] \<or> matching_rules p cmd = []"
proof (cases "cmd = []")
  case False
  from exact_matches_decisions [OF this, of p] show ?thesis using False
    by (metis image_is_empty set_empty)
qed (simp add: exact_matches_def)

text \<open>C31: A check never panics, and its decision is the strictest of the rules of the command's
  program whose pattern the command starts with; only when there is none is the
  heuristic asked.\<close>

theorem check_is_strictest_rule:
  "\<exists>e. check env p cmd fb = Some e \<and>
     (if cmd = [] \<or> matching_rules p cmd = []
      then e = \<lparr>eval_decision = fb cmd, matched_rules = [HeuristicsRuleMatch cmd (fb cmd)]\<rparr>
      else eval_decision e = Max (rule_decision ` set (matching_rules p cmd)) \<and> is_match e)"
proof (cases "cmd = [] \<or> matching_rules p cmd = []")
  case True
  then show ?thesis by (simp add: check_default exact_matches_Nil)
next
  case False
  then have cmd: "cmd \<noteq> []" and ne: "exact_matches p cmd \<noteq> []" by (simp_all add: exact_matches_Nil)
  obtain m ms where ms: "exact_matches p cmd = m # ms" using ne by (cases "exact_matches p cmd") auto
  have "\<exists>pre d x j. m = PrefixRuleMatch pre d x j"
  proof -
    have "m \<in> set (exact_matches p cmd)" using ms by simp
    then show ?thesis using cmd
      by (cases cmd) (auto simp: exact_matches_def List.map_filter_def rule_matches_def)
  qed
  with ms False exact_matches_decisions [OF cmd, of p] show ?thesis
    by (auto simp: check_default is_match_def)
qed

text \<open>Checking several commands together gives the strictest of their single decisions; with
  no command at all it panics.\<close>

lemma check_multiple_is_strictest_command:
  "case check_multiple env p cmds fb of
     None \<Rightarrow> cmds = []
   | Some e \<Rightarrow> cmds \<noteq> [] \<and>
       eval_decision e = Max ((\<lambda>cmd. eval_decision (the (check env p cmd fb))) ` set cmds)"
proof -
  let ?m = "\<lambda>cmd. matches_for_command_with_options env p cmd (Some fb) default_options"
  have none: "concat (map ?m cmds) = [] \<longleftrightarrow> cmds = []"
    by (cases cmds) (simp_all add: matches_nonempty)
  have one: "eval_decision (the (check env p cmd fb)) = Max (match_decision ` set (?m cmd))" for cmd
    by (simp add: check_def check_with_options_def from_matches_Some matches_nonempty)
  have "Max (match_decision ` set (concat (map ?m cmds))) = Max ((\<lambda>cmd. Max (match_decision ` set (?m cmd))) ` set cmds)"
    if "cmds \<noteq> []"
  proof -
    have fin: "finite (match_decision ` set (?m cmd))" "match_decision ` set (?m cmd) \<noteq> {}" for cmd
      by (simp_all add: matches_nonempty)
    have "match_decision ` set (concat (map ?m cmds)) = (\<Union>cmd \<in> set cmds. match_decision ` set (?m cmd))" by auto
    also have "Max \<dots> = Max ((\<lambda>cmd. Max (match_decision ` set (?m cmd))) ` set cmds)"
      using fin that by (intro Max_UN) simp_all
    finally show ?thesis .
  qed
  note strictest = this
  have "check_multiple env p cmds fb = from_matches (concat (map ?m cmds))"
    by (simp only: check_multiple_def check_multiple_with_options_def)
  with none one strictest from_matches_Some [of "concat (map ?m cmds)"] show ?thesis
    by (cases "cmds = []") (simp_all only: from_matches_None, auto simp del: concat_eq_Nil_conv)
qed

subsection \<open>Adding rules\<close>

lemma matching_rules_merge:
  assumes "wf_rules (rules_by_program ov)"
  shows "matching_rules (merge_overlay p ov) cmd = matching_rules p cmd @ matching_rules ov cmd"
  by (simp add: matching_rules_def merge_overlay_def mm_get_merge [OF assms])

lemma check_decision:
  assumes "cmd \<noteq> []" and "matching_rules p cmd \<noteq> []"
  shows "\<exists>e. check env p cmd fb = Some e \<and> eval_decision e = Max (rule_decision ` set (matching_rules p cmd))"
  using assms exact_matches_decisions [OF assms(1), of p] by (simp add: check_default exact_matches_Nil)

text \<open>An overlay can only tighten what a policy's rules decide: a command that rules of the
  policy or of the overlay match gets the stricter of the two decisions.\<close>

lemma merge_overlay_takes_stricter:
  assumes "wf_rules (rules_by_program ov)" and "cmd \<noteq> []"
    and "matching_rules p cmd \<noteq> []" and "check env p cmd fb = Some e"
    and "check env ov cmd fb = Some e'"
  shows "\<exists>e''. check env (merge_overlay p ov) cmd fb = Some e'' \<and>
    eval_decision e'' = (if matching_rules ov cmd = [] then eval_decision e
                         else max (eval_decision e) (eval_decision e'))"
proof -
  let ?D = "\<lambda>q. rule_decision ` set (matching_rules q cmd)"
  have merged: "?D (merge_overlay p ov) = ?D p \<union> ?D ov"
    by (simp add: matching_rules_merge [OF assms(1)] image_Un)
  have "matching_rules (merge_overlay p ov) cmd \<noteq> []"
    using assms(3) by (simp add: matching_rules_merge [OF assms(1)])
  from check_decision [OF assms(2) this, of env fb] obtain e'' where
    e'': "check env (merge_overlay p ov) cmd fb = Some e''" "eval_decision e'' = Max (?D (merge_overlay p ov))" by auto
  from check_decision [OF assms(2,3), of env fb] assms(4) have e: "eval_decision e = Max (?D p)" by simp
  show ?thesis
  proof (cases "matching_rules ov cmd = []")
    case True
    with e'' e merged show ?thesis by simp
  next
    case False
    from check_decision [OF assms(2) False, of env fb] assms(5) have "eval_decision e' = Max (?D ov)" by simp
    with e'' e merged False assms(3) show ?thesis by (simp add: Max_Un)
  qed
qed

text \<open>A prefix rule that is added decides for the commands that start with the prefix: they get
  at least its decision, and all other commands are decided as before.\<close>

lemma add_prefix_rule_effect:
  assumes "add_prefix_rule pre d p = Inr p'"
  shows "(prefix pre cmd \<longrightarrow> (\<exists>e. check env p' cmd fb = Some e \<and> d \<le> eval_decision e)) \<and>
    (\<not> prefix pre cmd \<longrightarrow> check env p' cmd fb = check env p cmd fb)"
proof -
  from assms obtain first rest where pre: "pre = first # rest"
    and p': "p' = p\<lparr>rules_by_program := mm_insert first
      \<lparr>rule_pattern = \<lparr>pat_first = first, pat_rest = map Single rest\<rparr>,
       rule_decision = d, rule_justification = None\<rparr> (rules_by_program p)\<rparr>"
    by (auto simp: add_prefix_rule_def split: list.splits)
  let ?r = "\<lparr>rule_pattern = \<lparr>pat_first = first, pat_rest = map Single rest\<rparr>,
       rule_decision = d, rule_justification = None\<rparr>"
  have single: "list_all2 token_matches (map Single rest) ts \<longleftrightarrow> ts = rest" for ts
    by (simp add: list_all2_conv_all_nth list_eq_iff_nth_eq) (metis list_eq_iff_nth_eq)
  have iff: "matches_prefix (rule_pattern ?r) c \<noteq> None \<longleftrightarrow> prefix pre c" for c
  proof -
    have "matches_prefix (rule_pattern ?r) c \<noteq> None \<longleftrightarrow> (\<exists>x. matches_prefix (rule_pattern ?r) c = Some x)" by simp
    also have "\<dots> \<longleftrightarrow> prefix pre c" unfolding matches_prefix_Some by (auto simp: single pre prefix_def)
    finally show ?thesis .
  qed
  have rules: "matching_rules p' cmd = matching_rules p cmd @ (if hd cmd = first \<and> prefix pre cmd then [?r] else [])"
    using iff by (simp add: matching_rules_def p' mm_get_insert rule_matches_None_any rule_program_def)
  show ?thesis
  proof (intro conjI impI)
    assume pr: "prefix pre cmd"
    then have cmd: "cmd \<noteq> []" "hd cmd = first" by (auto simp: pre prefix_def)
    with rules pr have ne: "matching_rules p' cmd \<noteq> []" and "d \<in> rule_decision ` set (matching_rules p' cmd)" by auto
    with check_decision [OF cmd(1) ne, of env fb] show "\<exists>e. check env p' cmd fb = Some e \<and> d \<le> eval_decision e"
      by (auto intro: Max_ge)
  next
    assume npr: "\<not> prefix pre cmd"
    show "check env p' cmd fb = check env p cmd fb"
    proof (cases cmd)
      case (Cons c args)
      have "matches_prefix (rule_pattern ?r) cmd = None" using iff [of cmd] npr by simp
      then have "exact_matches p' cmd = exact_matches p cmd"
        using Cons by (auto simp: exact_matches_def p' mm_get_insert List.map_filter_def rule_matches_def)
      then show ?thesis by (simp add: check_default)
    qed (simp add: check_default exact_matches_def)
  qed
qed

subsection \<open>Network domains and allowed prefixes\<close>

definition last_verdict :: "string \<Rightarrow> network_rule list \<Rightarrow> decision option" where
  "last_verdict host rules =
     (case filter (\<lambda>r. net_host r = host \<and> net_decision r \<noteq> Prompt) (rev rules) of
        [] \<Rightarrow> None
      | r # _ \<Rightarrow> Some (net_decision r))"

lemma network_domains_fold:
  "case fold network_domain_step rules ([], []) of (allowed, denied) \<Rightarrow>
     (\<forall>host. (host \<in> set allowed \<longleftrightarrow> last_verdict host rules = Some Allow) \<and>
       (host \<in> set denied \<longleftrightarrow> last_verdict host rules = Some Forbidden)) \<and>
     distinct allowed \<and> distinct denied"
proof (induction rules rule: rev_induct)
  case (snoc r rules)
  obtain a d where fold: "fold network_domain_step rules ([], []) = (a, d)" by fastforce
  have verdict: "last_verdict host (rules @ [r]) =
      (if net_host r = host \<and> net_decision r \<noteq> Prompt then Some (net_decision r) else last_verdict host rules)" for host
    by (simp add: last_verdict_def)
  from snoc fold show ?case
    by (cases "net_decision r") (auto simp: verdict upsert_domain_def)
qed (simp add: last_verdict_def)

text \<open>The compiled domain lists hold each host at most once, never in both lists, and the last
  rule of a host that allows or forbids it decides in which one.\<close>

lemma compiled_domains_last_rule_wins:
  assumes "compiled_network_domains p = (allowed, denied)"
  shows "(host \<in> set allowed \<longleftrightarrow> last_verdict host (network_rules p) = Some Allow) \<and>
    (host \<in> set denied \<longleftrightarrow> last_verdict host (network_rules p) = Some Forbidden) \<and>
    distinct (allowed @ denied)"
  using network_domains_fold [of "network_rules p"] assms
  by (auto simp: compiled_network_domains_def)

text \<open>The allowed prefixes are those of the rules that allow, each once, in order.\<close>

lemma allowed_prefixes_sorted_set:
  "set (get_allowed_prefixes p) =
     {rendered_prefix r | k rs r. (k, rs) \<in> set (rules_by_program p) \<and> r \<in> set rs \<and> rule_decision r = Allow} \<and>
   sorted (get_allowed_prefixes p) \<and> distinct (get_allowed_prefixes p)"
proof -
  have "distinct (remdups_adj xs)" if "sorted xs" for xs :: "string list list"
    using that by (induction xs rule: remdups_adj.induct) (auto simp: less_le_not_le)
  then show ?thesis
    by (auto simp: get_allowed_prefixes_def sorted_remdups_adj)
qed

subsection \<open>Witnesses\<close>

definition git_rule :: "pattern_token list \<Rightarrow> decision \<Rightarrow> prefix_rule" where
  "git_rule rest d =
     \<lparr>rule_pattern = \<lparr>pat_first = ''git'', pat_rest = rest\<rparr>, rule_decision = d, rule_justification = None\<rparr>"

end
