(* ===== verification/Unix_Path.thy ===== *)
theory Unix_Path
  imports Rust_Text
begin

section \<open>Paths of Unix\<close>

text \<open>
  What the code uses of \<^verbatim>\<open>std::path::Path\<close> on Unix: the components of a path, its file name
  and its file stem.  A path is its bytes.
\<close>

datatype path_component = RootDir | CurDir | ParentDir | NormalComponent string

definition path_components :: "string \<Rightarrow> path_component list" where
  "path_components s =
     (let pieces = split_char (CHR ''/'') s;
          part = (\<lambda>p. if p = ''..'' then ParentDir else NormalComponent p);
          rest = (\<lambda>ps. map part (filter (\<lambda>p. p \<noteq> [] \<and> p \<noteq> ''.'') ps))
      in if prefix ''/'' s then RootDir # rest pieces
         else if hd pieces = ''.'' then CurDir # rest pieces
         else rest pieces)"

definition path_name :: "string \<Rightarrow> string option" where
  "path_name s =
     (case rev (path_components s) of NormalComponent n # _ \<Rightarrow> Some n | _ \<Rightarrow> None)"

text \<open>\<open>file_stem\<close>: the file name before its last dot, unless that dot comes first.\<close>

definition name_stem :: "string \<Rightarrow> string" where
  "name_stem n =
     (case rsplit_once (CHR ''.'') n of
        None \<Rightarrow> n
      | Some (before, _) \<Rightarrow> if before = [] then n else before)"

definition path_stem :: "string \<Rightarrow> string option" where
  "path_stem s = map_option name_stem (path_name s)"

subsection \<open>A file name is a part of its path\<close>

lemma split_char_nonempty: "split_char c s \<noteq> []"
  by (induction c s rule: split_char.induct) (auto split: list.split)

lemma split_char_absent: "c \<notin> set s \<Longrightarrow> split_char c s = [s]"
  by (induction s) auto

lemma split_char_pieces: "p \<in> set (split_char c s) \<Longrightarrow> c \<notin> set p \<and> (p = s \<or> length p < length s)"
proof (induction c s arbitrary: p rule: split_char.induct)
  case (2 c x s)
  obtain l ls where l: "split_char c s = l # ls"
    using split_char_nonempty by (cases "split_char c s") auto
  show ?case
  proof (cases "x = c")
    case True
    then show ?thesis using 2 by fastforce
  next
    case False
    with 2(3) l consider "p = x # l" | "p \<in> set ls" by auto
    then show ?thesis
    proof cases
      case 1
      with 2(2) [of l] l False show ?thesis by fastforce
    next
      case 2
      with "2.IH"(2) [of p] l False show ?thesis by fastforce
    qed
  qed
qed simp

lemma NormalComponent_split:
  assumes "NormalComponent n \<in> set (path_components s)"
  shows "n \<in> set (split_char (CHR ''/'') s) \<and> n \<noteq> [] \<and> n \<noteq> ''.'' \<and> n \<noteq> ''..''"
  using assms by (auto simp: path_components_def Let_def split: if_splits)

lemma path_name_piece:
  assumes "path_name s = Some n"
  shows "n \<in> set (split_char (CHR ''/'') s) \<and> n \<noteq> [] \<and> n \<noteq> ''.'' \<and> n \<noteq> ''..''"
proof -
  from assms have "\<exists>xs. rev (path_components s) = NormalComponent n # xs"
    by (auto simp: path_name_def split: list.splits path_component.splits)
  then have "NormalComponent n \<in> set (path_components s)" by (metis list.set_intros(1) set_rev)
  then show ?thesis by (rule NormalComponent_split)
qed

lemma path_components_bare:
  assumes "CHR ''/'' \<notin> set n" and "n \<noteq> []" and "n \<noteq> ''.''" and "n \<noteq> ''..''"
  shows "path_components n = [NormalComponent n]"
  using assms by (cases n) (auto simp: path_components_def Let_def split_char_absent)

lemma path_name_bare:
  assumes "CHR ''/'' \<notin> set n" and "n \<noteq> []" and "n \<noteq> ''.''" and "n \<noteq> ''..''"
  shows "path_name n = Some n"
  using path_components_bare [OF assms] by (simp add: path_name_def)

lemma rsplit_once_length: "rsplit_once c s = Some (a, b) \<Longrightarrow> s = a @ c # b \<and> c \<notin> set b"
proof -
  assume "rsplit_once c s = Some (a, b)"
  then have c: "c \<in> set s" and b: "b = rev (takeWhile (\<lambda>x. x \<noteq> c) (rev s))"
    and a: "a = rev (tl (dropWhile (\<lambda>x. x \<noteq> c) (rev s)))"
    by (auto simp: rsplit_once_def split_once_def split: if_splits)
  from c have "dropWhile (\<lambda>x. x \<noteq> c) (rev s) \<noteq> []" by (simp add: dropWhile_eq_Nil_conv)
  moreover from this have "hd (dropWhile (\<lambda>x. x \<noteq> c) (rev s)) = c" using hd_dropWhile [of "\<lambda>x. x \<noteq> c" "rev s"] by blast
  ultimately have "rev s = takeWhile (\<lambda>x. x \<noteq> c) (rev s) @ c # tl (dropWhile (\<lambda>x. x \<noteq> c) (rev s))"
    by (metis list.collapse takeWhile_dropWhile_id)
  then have "rev (rev s) = rev (takeWhile (\<lambda>x. x \<noteq> c) (rev s) @ c # tl (dropWhile (\<lambda>x. x \<noteq> c) (rev s)))"
    by (rule arg_cong)
  then have "s = a @ c # b" unfolding a b by (simp only: rev_append rev.simps rev_rev_ident append_assoc append.simps)
  moreover have "c \<notin> set b" unfolding b by (auto dest: set_takeWhileD)
  ultimately show ?thesis by blast
qed

lemma name_stem_shorter: "name_stem n = n \<or> length (name_stem n) < length n"
  by (auto simp: name_stem_def dest: rsplit_once_length split: option.splits)

text \<open>A stem is the path itself, or shorter.\<close>

lemma path_stem_shorter: "path_stem s = Some n \<Longrightarrow> n = s \<or> length n < length s"
proof -
  assume "path_stem s = Some n"
  then obtain m where m: "path_name s = Some m" "n = name_stem m" by (auto simp: path_stem_def)
  with path_name_piece [of s m] split_char_pieces [of m "CHR ''/''" s] name_stem_shorter [of m]
  show ?thesis by auto
qed

end
