(* ===== verification/Policy_Builder.thy ===== *)
theory Policy_Builder
  imports Exec_Policy Unix_Path
begin

section \<open>Building and amending policies\<close>

text \<open>
  A model of \<^verbatim>\<open>codex-rs/execpolicy/src/parser.rs\<close> (the functions a policy file calls and the
  validation of their examples) and of \<^verbatim>\<open>amend.rs\<close> (rules appended to a policy file).

  Starlark's evaluator is not modelled: a policy file is the list of calls it makes, in
  order, and a value is what the code inspects of it.  Shell splitting, JSON strings and
  the printed form of rules are parameters.  Path components are those of Unix.
\<close>

subsection \<open>Values and patterns\<close>

datatype star_value = Star_String string | Star_List "star_value list" | Star_Other string

fun unpack_str :: "star_value \<Rightarrow> string option" where
  "unpack_str (Star_String s) = Some s"
| "unpack_str _ = None"

fun get_type :: "star_value \<Rightarrow> string" where
  "get_type (Star_String _) = ''string''"
| "get_type (Star_List _) = ''list''"
| "get_type (Star_Other t) = t"

text \<open>\<open>collect\<close> into a \<open>Result\<close>: the first error wins.\<close>

fun collect_results :: "('a \<Rightarrow> ('e, 'b) result) \<Rightarrow> 'a list \<Rightarrow> ('e, 'b list) result" where
  "collect_results f [] = Inr []"
| "collect_results f (x # xs) =
     (case f x of
        Inl e \<Rightarrow> Inl e
      | Inr y \<Rightarrow> (case collect_results f xs of Inl e \<Rightarrow> Inl e | Inr ys \<Rightarrow> Inr (y # ys)))"

definition str_or :: "(string \<Rightarrow> policy_error) \<Rightarrow> string \<Rightarrow> star_value \<Rightarrow> (policy_error, string) result" where
  "str_or err msg v =
     (case unpack_str v of Some s \<Rightarrow> Inr s | None \<Rightarrow> Inl (err (msg @ '' (got '' @ get_type v @ '')'')))"

definition parse_pattern_token :: "star_value \<Rightarrow> (policy_error, pattern_token) result" where
  "parse_pattern_token v =
     (case v of
        Star_String s \<Rightarrow> Inr (Single s)
      | Star_List vs \<Rightarrow>
          (case collect_results (str_or InvalidPattern ''pattern alternative must be a string'') vs of
             Inl e \<Rightarrow> Inl e
           | Inr [] \<Rightarrow> Inl (InvalidPattern ''pattern alternatives cannot be empty'')
           | Inr [single] \<Rightarrow> Inr (Single single)
           | Inr toks \<Rightarrow> Inr (Alts toks))
      | Star_Other t \<Rightarrow>
          Inl (InvalidPattern (''pattern element must be a string or list of strings (got '' @ t @ '')'')))"

definition parse_pattern :: "star_value list \<Rightarrow> (policy_error, pattern_token list) result" where
  "parse_pattern vs =
     (case collect_results parse_pattern_token vs of
        Inl e \<Rightarrow> Inl e
      | Inr [] \<Rightarrow> Inl (InvalidPattern ''pattern cannot be empty'')
      | Inr toks \<Rightarrow> Inr toks)"

definition parse_string_example ::
  "(string \<Rightarrow> string list option) \<Rightarrow> string \<Rightarrow> (policy_error, string list) result"
where
  "parse_string_example shell_split raw =
     (case shell_split raw of
        None \<Rightarrow> Inl (InvalidExample ''example string has invalid shell syntax'')
      | Some [] \<Rightarrow> Inl (InvalidExample ''example cannot be an empty string'')
      | Some toks \<Rightarrow> Inr toks)"

definition parse_list_example :: "star_value list \<Rightarrow> (policy_error, string list) result" where
  "parse_list_example vs =
     (case collect_results (str_or InvalidExample ''example tokens must be strings'') vs of
        Inl e \<Rightarrow> Inl e
      | Inr [] \<Rightarrow> Inl (InvalidExample ''example cannot be an empty list'')
      | Inr toks \<Rightarrow> Inr toks)"

definition parse_example ::
  "(string \<Rightarrow> string list option) \<Rightarrow> star_value \<Rightarrow> (policy_error, string list) result"
where
  "parse_example shell_split v =
     (case v of
        Star_String raw \<Rightarrow> parse_string_example shell_split raw
      | Star_List vs \<Rightarrow> parse_list_example vs
      | Star_Other t \<Rightarrow>
          Inl (InvalidExample (''example must be a string or list of strings (got '' @ t @ '')'')))"

definition parse_examples ::
  "(string \<Rightarrow> string list option) \<Rightarrow> star_value list option \<Rightarrow> (policy_error, string list list) result"
where
  "parse_examples shell_split vs =
     (case vs of None \<Rightarrow> Inr [] | Some vs \<Rightarrow> collect_results (parse_example shell_split) vs)"

definition parse_network_rule_decision :: "string \<Rightarrow> (policy_error, decision) result" where
  "parse_network_rule_decision raw = (if raw = ''deny'' then Inr Forbidden else decision_parse raw)"

subsection \<open>Paths\<close>

definition validate_host_executable_name :: "string \<Rightarrow> (policy_error, unit) result" where
  "validate_host_executable_name name =
     (if name = [] then Inl (InvalidRule ''host_executable name cannot be empty'')
      else if length (path_components name) \<noteq> 1 \<or> path_name name \<noteq> Some name
      then Inl (InvalidRule (''host_executable name must be a bare executable name (got '' @ name @ '')''))
      else Inr ())"

definition parse_literal_absolute_path :: "'p host_env \<Rightarrow> string \<Rightarrow> (policy_error, 'p) result" where
  "parse_literal_absolute_path env raw =
     (if \<not> path_is_absolute env raw
      then Inl (InvalidRule (''host_executable paths must be absolute (got '' @ raw @ '')''))
      else (case to_absolute env raw of
              Inl err \<Rightarrow> Inl (InvalidRule (''invalid absolute path `'' @ raw @ ''`: '' @ err))
            | Inr p \<Rightarrow> Inr p))"

subsection \<open>The builder\<close>

record pending_example_validation =
  val_rules :: "prefix_rule list"
  val_matches :: "string list list"
  val_not_matches :: "string list list"
  val_location :: "error_location option"

record 'p policy_builder =
  pb_rules :: rule_map
  pb_network_rules :: "network_rule list"
  pb_host_executables :: "string \<rightharpoonup> 'p list"
  pending_example_validations :: "pending_example_validation list"

definition new_builder :: "'p policy_builder" where
  "new_builder =
     \<lparr>pb_rules = [], pb_network_rules = [], pb_host_executables = Map.empty, pending_example_validations = []\<rparr>"

definition add_rule :: "prefix_rule \<Rightarrow> 'p policy_builder \<Rightarrow> 'p policy_builder" where
  "add_rule r b = b\<lparr>pb_rules := mm_insert (rule_program r) r (pb_rules b)\<rparr>"

definition build :: "'p policy_builder \<Rightarrow> 'p policy" where
  "build b = \<lparr>rules_by_program = pb_rules b, network_rules = pb_network_rules b,
     host_executables_by_name = pb_host_executables b\<rparr>"

text \<open>The three functions a policy file can call, with their arguments.\<close>

datatype policy_call =
    Call_Prefix_Rule "star_value list" "string option" "star_value list option" "star_value list option"
      "string option" "error_location option"
  | Call_Network_Rule string string string "string option"
  | Call_Host_Executable string "star_value list"

definition head_rules :: "pattern_token list \<Rightarrow> decision \<Rightarrow> string option \<Rightarrow> prefix_rule list" where
  "head_rules toks d j =
     map (\<lambda>head. \<lparr>rule_pattern = \<lparr>pat_first = head, pat_rest = tl toks\<rparr>, rule_decision = d, rule_justification = j\<rparr>)
       (token_alternatives (hd toks))"

definition prefix_rule_call ::
  "(string \<Rightarrow> string list option) \<Rightarrow> star_value list \<Rightarrow> string option \<Rightarrow> star_value list option \<Rightarrow>
   star_value list option \<Rightarrow> string option \<Rightarrow> error_location option \<Rightarrow> 'p policy_builder \<Rightarrow>
   (policy_error, 'p policy_builder) result"
where
  "prefix_rule_call shell_split pattern dec ms nms j loc b =
     (case (case dec of Some raw \<Rightarrow> decision_parse raw | None \<Rightarrow> Inr Allow) of
        Inl e \<Rightarrow> Inl e
      | Inr d \<Rightarrow>
          if blank_justification j then Inl (InvalidRule ''justification cannot be empty'')
          else (case parse_pattern pattern of
                  Inl e \<Rightarrow> Inl e
                | Inr toks \<Rightarrow>
                    (case parse_examples shell_split ms of
                       Inl e \<Rightarrow> Inl e
                     | Inr matches \<Rightarrow>
                         (case parse_examples shell_split nms of
                            Inl e \<Rightarrow> Inl e
                          | Inr not_matches \<Rightarrow>
                              (let rules = head_rules toks d j;
                                   v = \<lparr>val_rules = rules, val_matches = matches,
                                        val_not_matches = not_matches, val_location = loc\<rparr>
                               in Inr (fold add_rule rules
                                    (b\<lparr>pending_example_validations := pending_example_validations b @ [v]\<rparr>)))))))"

definition network_rule_call ::
  "string \<Rightarrow> string \<Rightarrow> string \<Rightarrow> string option \<Rightarrow> 'p policy_builder \<Rightarrow> (policy_error, 'p policy_builder) result"
where
  "network_rule_call host proto dec j b =
     (case protocol_parse proto of
        Inl e \<Rightarrow> Inl e
      | Inr proto \<Rightarrow>
          (case parse_network_rule_decision dec of
             Inl e \<Rightarrow> Inl e
           | Inr d \<Rightarrow>
               if blank_justification j then Inl (InvalidRule ''justification cannot be empty'')
               else (case normalize_network_rule_host host of
                       Inl e \<Rightarrow> Inl e
                     | Inr h \<Rightarrow>
                         Inr (b\<lparr>pb_network_rules := pb_network_rules b @
                           [\<lparr>net_host = h, net_protocol = proto, net_decision = d, net_justification = j\<rparr>]\<rparr>))))"

fun host_paths_loop ::
  "'p host_env \<Rightarrow> string \<Rightarrow> star_value list \<Rightarrow> 'p list \<Rightarrow> (policy_error, 'p list) result"
where
  "host_paths_loop env name [] parsed = Inr parsed"
| "host_paths_loop env name (v # vs) parsed =
     (case str_or InvalidRule ''host_executable paths must be strings'' v of
        Inl e \<Rightarrow> Inl e
      | Inr raw \<Rightarrow>
          (case parse_literal_absolute_path env raw of
             Inl e \<Rightarrow> Inl e
           | Inr path \<Rightarrow>
               if executable_path_lookup_key env path \<noteq> Some (executable_lookup_key env name)
               then Inl (InvalidRule (''host_executable path `'' @ raw @ ''` must have basename `'' @ name @ ''`''))
               else host_paths_loop env name vs
                      (if list_ex (\<lambda>existing. existing = path) parsed then parsed else parsed @ [path])))"

definition host_executable_call ::
  "'p host_env \<Rightarrow> string \<Rightarrow> star_value list \<Rightarrow> 'p policy_builder \<Rightarrow> (policy_error, 'p policy_builder) result"
where
  "host_executable_call env name paths b =
     (case validate_host_executable_name name of
        Inl e \<Rightarrow> Inl e
      | Inr _ \<Rightarrow>
          (case host_paths_loop env name paths [] of
             Inl e \<Rightarrow> Inl e
           | Inr parsed \<Rightarrow>
               Inr (b\<lparr>pb_host_executables := (pb_host_executables b)(executable_lookup_key env name \<mapsto> parsed)\<rparr>)))"

fun run_call ::
  "(string \<Rightarrow> string list option) \<Rightarrow> 'p host_env \<Rightarrow> policy_call \<Rightarrow> 'p policy_builder \<Rightarrow>
   (policy_error, 'p policy_builder) result"
where
  "run_call sh env (Call_Prefix_Rule pat d ms nms j loc) b = prefix_rule_call sh pat d ms nms j loc b"
| "run_call sh env (Call_Network_Rule h pr d j) b = network_rule_call h pr d j b"
| "run_call sh env (Call_Host_Executable n ps) b = host_executable_call env n ps b"

text \<open>Evaluation stops at the first error; what was added before stays in the builder.\<close>

fun run_calls ::
  "(string \<Rightarrow> string list option) \<Rightarrow> 'p host_env \<Rightarrow> policy_call list \<Rightarrow> 'p policy_builder \<Rightarrow>
   'p policy_builder \<times> (policy_error, unit) result"
where
  "run_calls sh env [] b = (b, Inr ())"
| "run_calls sh env (c # cs) b =
     (case run_call sh env c b of Inl e \<Rightarrow> (b, Inl e) | Inr b' \<Rightarrow> run_calls sh env cs b')"

definition validation_policy :: "'p policy_builder \<Rightarrow> pending_example_validation \<Rightarrow> 'p policy" where
  "validation_policy b v =
     \<lparr>rules_by_program = fold (\<lambda>r. mm_insert (rule_program r) r) (val_rules v) [], network_rules = [],
      host_executables_by_name = pb_host_executables b\<rparr>"

definition attach_validation_location :: "error_location option \<Rightarrow> policy_error \<Rightarrow> policy_error" where
  "attach_validation_location loc e = (case loc of Some l \<Rightarrow> with_location l e | None \<Rightarrow> e)"

text \<open>How a rule, a match and a command are printed.\<close>

record 'p printers =
  show_rule :: "prefix_rule \<Rightarrow> string"
  show_match :: "'p rule_match \<Rightarrow> string"
  show_cmd :: "string list \<Rightarrow> string"

fun validate_pending ::
  "'p printers \<Rightarrow> 'p host_env \<Rightarrow> 'p policy_builder \<Rightarrow> pending_example_validation list \<Rightarrow> (policy_error, unit) result"
where
  "validate_pending pr env b [] = Inr ()"
| "validate_pending pr env b (v # vs) =
     (case validate_not_match_examples (show_match pr) (show_cmd pr) env (validation_policy b v) (val_not_matches v) of
        Inl e \<Rightarrow> Inl (attach_validation_location (val_location v) e)
      | Inr _ \<Rightarrow>
          (case validate_match_examples (show_rule pr) (show_cmd pr) env (validation_policy b v)
                  (val_rules v) (val_matches v) of
             Inl e \<Rightarrow> Inl (attach_validation_location (val_location v) e)
           | Inr _ \<Rightarrow> validate_pending pr env b vs))"

definition parse_policy ::
  "(string \<Rightarrow> string list option) \<Rightarrow> 'p printers \<Rightarrow> 'p host_env \<Rightarrow> policy_call list \<Rightarrow> 'p policy_builder \<Rightarrow>
   'p policy_builder \<times> (policy_error, unit) result"
where
  "parse_policy sh pr env calls b =
     (let pending_count = length (pending_example_validations b) in
      case run_calls sh env calls b of
        (b', Inl e) \<Rightarrow> (b', Inl e)
      | (b', Inr _) \<Rightarrow> (b', validate_pending pr env b' (drop pending_count (pending_example_validations b'))))"

subsection \<open>A rule with alternatives\<close>

text \<open>The commands a list of pattern tokens stands for.\<close>

definition pattern_covers :: "pattern_token list \<Rightarrow> string list \<Rightarrow> bool" where
  "pattern_covers toks cmd =
     (length toks \<le> length cmd \<and> list_all2 token_matches toks (take (length toks) cmd))"

lemma token_matches_alternatives: "token_matches t s \<longleftrightarrow> s \<in> set (token_alternatives t)"
  by (cases t) (auto simp: list_ex_iff)

lemma matches_prefix_covers:
  "matches_prefix \<lparr>pat_first = head, pat_rest = toks\<rparr> cmd \<noteq> None \<longleftrightarrow>
     (\<exists>args. cmd = head # args \<and> pattern_covers toks args)"
proof -
  have "(\<exists>ts post. args = ts @ post \<and> list_all2 token_matches toks ts) \<longleftrightarrow> pattern_covers toks args" for args
  proof
    assume "\<exists>ts post. args = ts @ post \<and> list_all2 token_matches toks ts"
    then obtain ts post where "args = ts @ post" "list_all2 token_matches toks ts" by blast
    moreover from this have "length toks = length ts" by (simp add: list_all2_lengthD)
    ultimately show "pattern_covers toks args" by (simp add: pattern_covers_def)
  next
    assume "pattern_covers toks args"
    then show "\<exists>ts post. args = ts @ post \<and> list_all2 token_matches toks ts"
      by (intro exI [of _ "take (length toks) args"] exI [of _ "drop (length toks) args"])
        (simp add: pattern_covers_def)
  qed
  note covers = this
  have "matches_prefix \<lparr>pat_first = head, pat_rest = toks\<rparr> cmd \<noteq> None \<longleftrightarrow>
      (\<exists>x. matches_prefix \<lparr>pat_first = head, pat_rest = toks\<rparr> cmd = Some x)" by simp
  also have "\<dots> \<longleftrightarrow> (\<exists>ts post. cmd = head # ts @ post \<and> list_all2 token_matches toks ts)"
    unfolding matches_prefix_Some by auto
  also have "\<dots> \<longleftrightarrow> (\<exists>args. cmd = head # args \<and> pattern_covers toks args)"
    unfolding covers [symmetric] by auto
  finally show ?thesis .
qed

lemma pb_rules_fold_add:
  "pb_rules (fold add_rule rs b) = fold (\<lambda>r. mm_insert (rule_program r) r) rs (pb_rules b)"
  by (induction rs arbitrary: b) (simp_all add: add_rule_def)

lemma mm_get_fold_rules:
  "mm_get k (fold (\<lambda>r. mm_insert (rule_program r) r) rs m) = mm_get k m @ filter (\<lambda>r. rule_program r = k) rs"
  by (induction rs arbitrary: m) (auto simp: mm_get_insert)

lemma parse_pattern_nonempty: "parse_pattern vs = Inr toks \<Longrightarrow> toks \<noteq> []"
  by (auto simp: parse_pattern_def split: sum.splits list.splits)

text \<open>A \<open>prefix_rule\<close> in a policy file decides exactly the commands its pattern covers, with
  alternatives in any place, the first included: those get its decision beside those of
  the rules before it, and no other command is affected.\<close>

lemma prefix_rule_call_covers:
  assumes "prefix_rule_call sh pattern dec ms nms j loc b = Inr b'"
    and "parse_pattern pattern = Inr toks" and "cmd \<noteq> []"
  shows "\<exists>d. (case dec of Some raw \<Rightarrow> decision_parse raw | None \<Rightarrow> Inr Allow) = Inr d \<and>
    rule_decision ` set (matching_rules (build b') cmd) =
    rule_decision ` set (matching_rules (build b) cmd) \<union> (if pattern_covers toks cmd then {d} else {})"
proof -
  from assms(1,2) obtain d where d: "(case dec of Some raw \<Rightarrow> decision_parse raw | None \<Rightarrow> Inr Allow) = Inr d"
    and rules: "pb_rules b' = fold (\<lambda>r. mm_insert (rule_program r) r) (head_rules toks d j) (pb_rules b)"
    by (auto simp: prefix_rule_call_def Let_def pb_rules_fold_add split: sum.splits if_splits)
  obtain t ts where toks: "toks = t # ts" using parse_pattern_nonempty [OF assms(2)] by (cases toks) auto
  obtain c args where cmd: "cmd = c # args" using assms(3) by (cases cmd) auto
  have new: "filter (\<lambda>r. rule_program r = c \<and> matches_prefix (rule_pattern r) cmd \<noteq> None) (head_rules toks d j) =
      (if pattern_covers ts args then filter (\<lambda>r. rule_program r = c) (head_rules toks d j) else [])"
    using matches_prefix_covers [of _ ts cmd]
    by (auto simp: head_rules_def toks cmd rule_program_def filter_map comp_def
        intro!: filter_cong arg_cong [where f = "map _"])
  have dec: "rule_decision ` set (filter (\<lambda>r. rule_program r = c) (head_rules toks d j)) =
      (if token_matches t c then {d} else {})"
  proof -
    have "set (filter (\<lambda>r. rule_program r = c) (head_rules toks d j)) =
        (\<lambda>head. \<lparr>rule_pattern = \<lparr>pat_first = head, pat_rest = ts\<rparr>, rule_decision = d, rule_justification = j\<rparr>) `
        {h \<in> set (token_alternatives t). h = c}"
      by (auto simp: head_rules_def toks rule_program_def)
    also have "{h \<in> set (token_alternatives t). h = c} = (if token_matches t c then {c} else {})"
      by (auto simp: token_matches_alternatives)
    finally show ?thesis by simp
  qed
  have covers: "pattern_covers toks cmd \<longleftrightarrow> token_matches t c \<and> pattern_covers ts args"
    by (auto simp: pattern_covers_def toks cmd)
  have "matching_rules (build b') cmd = matching_rules (build b) cmd @
      filter (\<lambda>r. rule_program r = c \<and> matches_prefix (rule_pattern r) cmd \<noteq> None) (head_rules toks d j)"
    by (simp add: matching_rules_def build_def rules mm_get_fold_rules cmd rule_matches_None_any conj_commute)
  with d new dec covers show ?thesis by (auto simp: image_Un)
qed

subsection \<open>Examples\<close>

lemma validate_not_match_ok:
  "validate_not_match_examples sm sc env p examples = Inr () \<longleftrightarrow>
     (\<forall>cmd \<in> set examples. matches_for_command_with_options env p cmd None example_options = [])"
  by (induction examples) (auto split: list.split)

lemma validate_match_ok:
  "validate_match_examples sr sc env p rules examples = Inr () \<longleftrightarrow>
     (\<forall>cmd \<in> set examples. matches_for_command_with_options env p cmd None example_options \<noteq> [])"
  by (auto simp: validate_match_examples_def Let_def filter_empty_conv)

lemma validate_pending_ok:
  "validate_pending pr env b vs = Inr () \<longleftrightarrow>
     (\<forall>v \<in> set vs.
        (\<forall>cmd \<in> set (val_matches v).
           matches_for_command_with_options env (validation_policy b v) cmd None example_options \<noteq> []) \<and>
        (\<forall>cmd \<in> set (val_not_matches v).
           matches_for_command_with_options env (validation_policy b v) cmd None example_options = []))"
proof (induction vs)
  case (Cons v vs)
  let ?n = "validate_not_match_examples (show_match pr) (show_cmd pr) env (validation_policy b v) (val_not_matches v)"
  let ?m = "validate_match_examples (show_rule pr) (show_cmd pr) env (validation_policy b v) (val_rules v) (val_matches v)"
  have "validate_pending pr env b (v # vs) = Inr () \<longleftrightarrow>
      ?n = Inr () \<and> ?m = Inr () \<and> validate_pending pr env b vs = Inr ()"
    by (auto split: sum.splits)
  then show ?case unfolding Cons.IH validate_not_match_ok validate_match_ok by (simp, blast)
qed simp

text \<open>A policy file that is accepted keeps the promises of its examples: each command listed
  under \<open>match\<close> is matched by a rule of its own call, and none listed under \<open>not_match\<close> is.\<close>

lemma accepted_policy_examples_hold:
  assumes "parse_policy sh pr env calls b = (b', Inr ())"
    and "v \<in> set (drop (length (pending_example_validations b)) (pending_example_validations b'))"
  shows "(\<forall>cmd \<in> set (val_matches v).
        matches_for_command_with_options env (validation_policy b' v) cmd None example_options \<noteq> []) \<and>
    (\<forall>cmd \<in> set (val_not_matches v).
        matches_for_command_with_options env (validation_policy b' v) cmd None example_options = [])"
proof -
  from assms(1) have "validate_pending pr env b'
      (drop (length (pending_example_validations b)) (pending_example_validations b')) = Inr ()"
    by (auto simp: parse_policy_def Let_def split: prod.splits sum.splits)
  with assms(2) show ?thesis by (simp add: validate_pending_ok)
qed

subsection \<open>Amending a policy file\<close>

datatype amend_error =
    EmptyPrefix
  | InvalidNetworkRule string
  | MissingParent
  | CreatePolicyDir string
  | SerializePrefix string
  | SerializeNetworkRule string
  | OpenPolicyFile string
  | LockPolicyFile string
  | SeekPolicyFile string
  | ReadPolicyFile string
  | WritePolicyFile string

text \<open>Which operating system calls fail, and how: creating the directory (unless it exists),
  opening, locking, seeking, reading, and the first and the second write.\<close>

record amend_os =
  parent_missing :: bool
  fail_create :: "string option"
  fail_open :: "string option"
  fail_lock :: "string option"
  fail_seek :: "string option"
  fail_read :: "string option"
  fail_write_nl :: "string option"
  fail_write_line :: "string option"

text \<open>The file is a string that may be missing; the result is the file and the outcome.\<close>

definition append_locked_line ::
  "amend_os \<Rightarrow> string \<Rightarrow> string option \<Rightarrow> string option \<times> (amend_error, unit) result"
where
  "append_locked_line os line file =
     (case fail_open os of
        Some e \<Rightarrow> (file, Inl (OpenPolicyFile e))
      | None \<Rightarrow>
          (let contents = (case file of Some c \<Rightarrow> c | None \<Rightarrow> []) in
           case (fail_lock os, fail_seek os, fail_read os) of
             (Some e, _, _) \<Rightarrow> (Some contents, Inl (LockPolicyFile e))
           | (None, Some e, _) \<Rightarrow> (Some contents, Inl (SeekPolicyFile e))
           | (None, None, Some e) \<Rightarrow> (Some contents, Inl (ReadPolicyFile e))
           | (None, None, None) \<Rightarrow>
               if list_ex (\<lambda>existing. existing = line) (str_lines contents) then (Some contents, Inr ())
               else (let need_nl = (contents \<noteq> [] \<and> \<not> suffix [nl] contents) in
                     case (if need_nl then fail_write_nl os else None) of
                       Some e \<Rightarrow> (Some contents, Inl (WritePolicyFile e))
                     | None \<Rightarrow>
                         (let contents' = (if need_nl then contents @ [nl] else contents) in
                          case fail_write_line os of
                            Some e \<Rightarrow> (Some contents', Inl (WritePolicyFile e))
                          | None \<Rightarrow> (Some (contents' @ line @ [nl]), Inr ())))))"

definition append_rule_line ::
  "amend_os \<Rightarrow> string \<Rightarrow> string option \<Rightarrow> string option \<times> (amend_error, unit) result"
where
  "append_rule_line os line file =
     (if parent_missing os then (file, Inl MissingParent)
      else (case fail_create os of
              Some e \<Rightarrow> (file, Inl (CreatePolicyDir e))
            | None \<Rightarrow> append_locked_line os line file))"

definition quote_str :: string where
  "quote_str = [CHR 0x22]"

definition blocking_append_allow_prefix_rule ::
  "(string \<Rightarrow> (string, string) result) \<Rightarrow> amend_os \<Rightarrow> string list \<Rightarrow> string option \<Rightarrow>
   string option \<times> (amend_error, unit) result"
where
  "blocking_append_allow_prefix_rule json os pre file =
     (if pre = [] then (file, Inl EmptyPrefix)
      else (case collect_results json pre of
              Inl e \<Rightarrow> (file, Inl (SerializePrefix e))
            | Inr toks \<Rightarrow>
                append_rule_line os
                  (''prefix_rule(pattern=['' @ join_str '', '' toks @ ''], decision='' @
                   quote_str @ ''allow'' @ quote_str @ '')'') file))"

fun decision_word :: "decision \<Rightarrow> string" where
  "decision_word Allow = ''allow''"
| "decision_word Prompt = ''prompt''"
| "decision_word Forbidden = ''deny''"

text \<open>The \<open>Display\<close> text of an error; the errors of examples do not occur here.\<close>

fun error_text :: "policy_error \<Rightarrow> string" where
  "error_text (InvalidDecision m) = ''invalid decision: '' @ m"
| "error_text (InvalidPattern m) = ''invalid pattern element: '' @ m"
| "error_text (InvalidExample m) = ''invalid example: '' @ m"
| "error_text (InvalidRule m) = ''invalid rule: '' @ m"
| "error_text _ = []"

definition blocking_append_network_rule ::
  "(string \<Rightarrow> (string, string) result) \<Rightarrow> amend_os \<Rightarrow> string \<Rightarrow> network_rule_protocol \<Rightarrow> decision \<Rightarrow>
   string option \<Rightarrow> string option \<Rightarrow> string option \<times> (amend_error, unit) result"
where
  "blocking_append_network_rule json os host proto d j file =
     (case normalize_network_rule_host host of
        Inl e \<Rightarrow> (file, Inl (InvalidNetworkRule (error_text e)))
      | Inr host \<Rightarrow>
          if blank_justification j then (file, Inl (InvalidNetworkRule ''justification cannot be empty''))
          else (case collect_results json
                  ([host, as_policy_string proto, decision_word d] @ (case j of None \<Rightarrow> [] | Some j \<Rightarrow> [j])) of
                  Inl e \<Rightarrow> (file, Inl (SerializeNetworkRule e))
                | Inr vals \<Rightarrow>
                    append_rule_line os
                      (''network_rule('' @
                       join_str '', '' (map (\<lambda>(k, v). k @ ''='' @ v)
                         (zip [''host'', ''protocol'', ''decision'', ''justification''] vals)) @ '')'')
                      file))"

lemma str_lines_terminated:
  "nl \<notin> set l \<Longrightarrow> str_lines (l @ nl # r) = strip_cr l # str_lines r"
  by (subst str_lines.simps) (simp add: takeWhile_append dropWhile_append)

lemma str_lines_append_nl:
  assumes "c \<noteq> []" and "last c \<noteq> CHR 0x0D" and "last c \<noteq> nl"
  shows "str_lines (c @ nl # r) = str_lines c @ str_lines r"
  using assms
proof (induction c rule: str_lines.induct)
  case (1 c)
  let ?l = "takeWhile (\<lambda>x. x \<noteq> nl) c"
  have l: "nl \<notin> set ?l" by (auto dest: set_takeWhileD)
  show ?case
  proof (cases "dropWhile (\<lambda>x. x \<noteq> nl) c")
    case Nil
    then have "nl \<notin> set c" by (auto simp: dropWhile_eq_Nil_conv)
    moreover have "strip_cr c = c" using 1 by (simp add: strip_cr_def)
    moreover have "str_lines c = [c]" using 1(2) by (subst str_lines.simps) (simp only: Nil list.case if_False)
    ultimately show ?thesis by (simp add: str_lines_terminated)
  next
    case (Cons x c')
    then have x: "x = nl" by (metis (mono_tags, lifting) hd_dropWhile list.sel(1) list.distinct(1))
    have c: "c = ?l @ nl # c'" using Cons x by (metis takeWhile_dropWhile_id)
    have c': "c' \<noteq> []" using 1(4) c by (metis last_snoc)
    then have last: "last c' = last c" using c by (metis last_ConsR last_appendR list.distinct(1))
    have IH: "str_lines (c' @ nl # r) = str_lines c' @ str_lines r"
      using "1.IH" [OF _ Cons] 1(2-4) c' last by simp
    have "str_lines (c @ nl # r) = strip_cr ?l # str_lines (c' @ nl # r)"
      by (subst c) (simp add: str_lines_terminated [OF l])
    also have "\<dots> = str_lines c @ str_lines r"
      by (subst (2) c) (simp add: str_lines_terminated [OF l] IH)
    finally show ?thesis .
  qed
qed

lemma str_lines_append_after_nl:
  "str_lines ((c @ [nl]) @ r) = str_lines (c @ [nl]) @ str_lines r"
proof (induction c rule: str_lines.induct)
  case (1 c)
  show ?case
  proof (cases "dropWhile (\<lambda>x. x \<noteq> nl) c")
    case Nil
    then have "nl \<notin> set c" by (auto simp: dropWhile_eq_Nil_conv)
    then show ?thesis using str_lines_terminated [of c r] str_lines_terminated [of c "[]"]
      by (simp add: str_lines.simps [of "[]"])
  next
    case (Cons x c')
    let ?l = "takeWhile (\<lambda>x. x \<noteq> nl) c"
    have l: "nl \<notin> set ?l" by (auto dest: set_takeWhileD)
    from Cons have x: "x = nl" by (metis (mono_tags, lifting) hd_dropWhile list.sel(1) list.distinct(1))
    have c: "c = ?l @ nl # c'" using Cons x by (metis takeWhile_dropWhile_id)
    then have "c \<noteq> []" by auto
    then have IH: "str_lines ((c' @ [nl]) @ r) = str_lines (c' @ [nl]) @ str_lines r"
      using "1.IH" [OF _ Cons] by blast
    have "str_lines ((c @ [nl]) @ t) = strip_cr ?l # str_lines ((c' @ [nl]) @ t)" for t
      by (subst c) (simp add: str_lines_terminated [OF l])
    from this [of r] this [of "[]"] IH show ?thesis by simp
  qed
qed

text \<open>A rule is a line if it has no line feed and no carriage return at its end.\<close>

definition rule_line_ok :: "string \<Rightarrow> bool" where
  "rule_line_ok l = (nl \<notin> set l \<and> strip_cr l = l)"

lemma append_locked_line_lines:
  assumes "rule_line_ok line" and "c = [] \<or> last c \<noteq> CHR 0x0D"
    and "append_locked_line os line (Some c) = (Some c', Inr ())"
  shows "str_lines c' = (if line \<in> set (str_lines c) then str_lines c else str_lines c @ [line])"
proof (cases "line \<in> set (str_lines c)")
  case True
  with assms(3) show ?thesis
    by (auto simp: append_locked_line_def Let_def list_ex_iff split: option.splits if_splits)
next
  case False
  with assms(3) have c': "c' = (if c \<noteq> [] \<and> \<not> suffix [nl] c then c @ [nl] else c) @ line @ [nl]"
    by (auto simp: append_locked_line_def Let_def list_ex_iff split: option.splits if_splits)
  have line: "str_lines (line @ [nl]) = [line]"
    using assms(1) str_lines_terminated [of line "[]"] by (simp add: rule_line_ok_def str_lines.simps [of "[]"])
  consider "c = []" | d where "c = d @ [nl]" | "c \<noteq> []" "last c \<noteq> nl"
    by (metis append_butlast_last_id)
  then have "str_lines c' = str_lines c @ [line]"
  proof cases
    case 1
    with c' line show ?thesis by (simp add: str_lines.simps [of "[]"])
  next
    case (2 d)
    with c' line str_lines_append_after_nl [of d "line @ [nl]"] show ?thesis by (simp add: suffix_def)
  next
    case 3
    then have "\<not> suffix [nl] c" by (auto simp: suffix_def)
    with c' line 3 str_lines_append_nl [of c "line @ [nl]"] assms(2) show ?thesis by simp
  qed
  with False show ?thesis by simp
qed

text \<open>Appending a rule to a policy file keeps its lines and adds the rule as the last line,
  once: a rule that is already there, and so a second append, leaves the file alone.\<close>

lemma append_rule_line_once:
  assumes "rule_line_ok line" and "c = [] \<or> last c \<noteq> CHR 0x0D"
    and "append_rule_line os line (Some c) = (Some c', Inr ())"
  shows "str_lines c' = (if line \<in> set (str_lines c) then str_lines c else str_lines c @ [line]) \<and>
    append_rule_line os line (Some c') = (Some c', Inr ())"
proof -
  from assms(3) have os: "\<not> parent_missing os" "fail_create os = None" and
    locked: "append_locked_line os line (Some c) = (Some c', Inr ())"
    by (auto simp: append_rule_line_def split: if_splits option.splits)
  note lines = append_locked_line_lines [OF assms(1,2) locked]
  then have "line \<in> set (str_lines c')" by (auto split: if_splits)
  moreover from locked have "fail_open os = None" "fail_lock os = None" "fail_seek os = None" "fail_read os = None"
    by (auto simp: append_locked_line_def Let_def split: option.splits)
  ultimately have "append_locked_line os line (Some c') = (Some c', Inr ())"
    by (auto simp: append_locked_line_def list_ex_iff)
  with lines os show ?thesis by (simp add: append_rule_line_def)
qed

end
