(* ===== verification/Shell_Script.thy ===== *)
theory Shell_Script
  imports Unix_Path "HOL-Library.Multiset"
begin

section \<open>Shell invocations and their scripts\<close>

text \<open>
  A model of \<^verbatim>\<open>codex-rs/shell-command/src/shell_detect.rs\<close> and \<^verbatim>\<open>bash.rs\<close>: which shell an
  executable is, the script of a \<^verbatim>\<open>bash -lc\<close> invocation, and the words of the plain commands
  of the script.

  The parser (\<^verbatim>\<open>tree-sitter-bash\<close>) is a parameter, a function from scripts to syntax trees.
  Of a node the code reads its kind, whether it is named, where it starts, the piece of the
  script it stands for (\<open>utf8_text\<close>) and its children; a \<open>ts_node\<close> is these answers.
\<close>

subsection \<open>Kinds of shells\<close>

datatype shell_type = Zsh | Bash | PowerShell | Sh | Cmd

function detect_shell_type :: "string \<Rightarrow> shell_type option" where
  "detect_shell_type shell_path =
     (if shell_path = ''zsh'' then Some Zsh
      else if shell_path = ''sh'' then Some Sh
      else if shell_path = ''cmd'' then Some Cmd
      else if shell_path = ''bash'' then Some Bash
      else if shell_path = ''pwsh'' then Some PowerShell
      else if shell_path = ''powershell'' then Some PowerShell
      else (case path_stem shell_path of
              Some shell_name \<Rightarrow>
                if path_components shell_name \<noteq> path_components shell_path
                then detect_shell_type shell_name
                else None
            | None \<Rightarrow> None))"
  by pat_completeness auto
termination
  by (relation "measure length") (auto dest: path_stem_shorter)

declare detect_shell_type.simps [simp del]

subsection \<open>Syntax trees\<close>

datatype ts_node =
  Node (node_kind: string) (is_named: bool) (start_byte: nat) (utf8_text: "string option")
    (node_children: "ts_node list")

record ts_tree =
  root_node :: ts_node
  has_error :: bool

type_synonym shell_parser = "string \<Rightarrow> ts_tree option"

definition named_children :: "ts_node \<Rightarrow> ts_node list" where
  "named_children n = filter is_named (node_children n)"

definition ALLOWED_KINDS :: "string list" where
  "ALLOWED_KINDS =
     [''program'', ''list'', ''pipeline'', ''command'', ''command_name'', ''word'', ''string'',
      ''string_content'', ''raw_string'', ''number'', ''concatenation'']"

definition ALLOWED_PUNCT_TOKENS :: "string list" where
  "ALLOWED_PUNCT_TOKENS = [''&&'', ''||'', '';'', ''|'', ''\"'', [CHR 0x27]]"

text \<open>The checks that the walk makes of one node.\<close>

definition node_allowed :: "ts_node \<Rightarrow> bool" where
  "node_allowed n =
     (let kind = node_kind n in
      if is_named n then kind \<in> set ALLOWED_KINDS
      else \<not> (list_ex (\<lambda>c. c \<in> set ''&;|'') kind \<and> kind \<notin> set ALLOWED_PUNCT_TOKENS) \<and>
           (kind \<in> set ALLOWED_PUNCT_TOKENS \<or> str_trim kind = []))"

text \<open>The walk: a stack of nodes, whose top is the head of the list.\<close>

fun node_count :: "ts_node \<Rightarrow> nat" where
  "node_count (Node _ _ _ _ ns) = Suc (sum_list (map node_count ns))"

lemma node_count_children: "node_count n = Suc (sum_list (map node_count (node_children n)))"
  by (cases n) simp

function walk_nodes :: "ts_node list \<Rightarrow> ts_node list \<Rightarrow> ts_node list option" where
  "walk_nodes [] command_nodes = Some command_nodes"
| "walk_nodes (n # stack) command_nodes =
     (if node_allowed n then
        walk_nodes (rev (node_children n) @ stack)
          (if is_named n \<and> node_kind n = ''command'' then command_nodes @ [n] else command_nodes)
      else None)"
  by pat_completeness auto
termination
  by (relation "measure (\<lambda>(stack, _). sum_list (map node_count stack))")
    (simp_all add: node_count_children rev_map [symmetric])

subsection \<open>The words of a command\<close>

definition parse_double_quoted_string :: "ts_node \<Rightarrow> string option" where
  "parse_double_quoted_string n =
     (if node_kind n \<noteq> ''string'' then None
      else if list_ex (\<lambda>part. node_kind part \<noteq> ''string_content'') (named_children n) then None
      else Option.bind (utf8_text n) (\<lambda>raw.
           Option.bind (strip_prefix ''\"'' raw) (strip_suffix ''\"'')))"

definition parse_raw_string :: "ts_node \<Rightarrow> string option" where
  "parse_raw_string n =
     (if node_kind n \<noteq> ''raw_string'' then None
      else Option.bind (utf8_text n) (\<lambda>raw.
           Option.bind (strip_prefix [CHR 0x27] raw) (strip_suffix [CHR 0x27])))"

fun concat_parts :: "ts_node list \<Rightarrow> string \<Rightarrow> string option" where
  "concat_parts [] concatenated = Some concatenated"
| "concat_parts (part # parts) concatenated =
     (if node_kind part = ''word'' \<or> node_kind part = ''number'' then
        (case utf8_text part of None \<Rightarrow> None | Some t \<Rightarrow> concat_parts parts (concatenated @ t))
      else if node_kind part = ''string'' then
        (case parse_double_quoted_string part of None \<Rightarrow> None | Some t \<Rightarrow> concat_parts parts (concatenated @ t))
      else if node_kind part = ''raw_string'' then
        (case parse_raw_string part of None \<Rightarrow> None | Some t \<Rightarrow> concat_parts parts (concatenated @ t))
      else None)"

definition plain_word :: "ts_node \<Rightarrow> string option" where
  "plain_word child =
     (let kind = node_kind child in
      if kind = ''command_name'' then
        (case named_children child of
           [] \<Rightarrow> None
         | word_node # _ \<Rightarrow> if node_kind word_node \<noteq> ''word'' then None else utf8_text word_node)
      else if kind = ''word'' \<or> kind = ''number'' then utf8_text child
      else if kind = ''string'' then parse_double_quoted_string child
      else if kind = ''raw_string'' then parse_raw_string child
      else if kind = ''concatenation'' then
        (case concat_parts (named_children child) [] of
           None \<Rightarrow> None
         | Some concatenated \<Rightarrow> if concatenated = [] then None else Some concatenated)
      else None)"

text \<open>A loop that pushes the value of each step, and returns at the first step that fails.\<close>

fun collect_options :: "('a \<Rightarrow> 'b option) \<Rightarrow> 'a list \<Rightarrow> 'b list option" where
  "collect_options f [] = Some []"
| "collect_options f (x # xs) =
     (case f x of
        None \<Rightarrow> None
      | Some y \<Rightarrow> (case collect_options f xs of None \<Rightarrow> None | Some ys \<Rightarrow> Some (y # ys)))"

definition parse_plain_command_from_node :: "ts_node \<Rightarrow> string list option" where
  "parse_plain_command_from_node cmd =
     (if node_kind cmd \<noteq> ''command'' then None else collect_options plain_word (named_children cmd))"

definition try_parse_word_only_commands_sequence :: "ts_tree \<Rightarrow> string list list option" where
  "try_parse_word_only_commands_sequence tree =
     (if has_error tree then None
      else (case walk_nodes [root_node tree] [] of
              None \<Rightarrow> None
            | Some command_nodes \<Rightarrow>
                collect_options parse_plain_command_from_node (sort_key start_byte command_nodes)))"

subsection \<open>Invocations\<close>

definition extract_bash_command :: "string list \<Rightarrow> (string \<times> string) option" where
  "extract_bash_command cmd =
     (case cmd of
        [shell, flag, script] \<Rightarrow>
          if flag \<notin> {''-lc'', ''-c''} \<or> detect_shell_type shell \<notin> {Some Zsh, Some Bash, Some Sh}
          then None else Some (shell, script)
      | _ \<Rightarrow> None)"

definition parse_shell_lc_plain_commands :: "shell_parser \<Rightarrow> string list \<Rightarrow> string list list option" where
  "parse_shell_lc_plain_commands parse cmd =
     Option.bind (extract_bash_command cmd) (\<lambda>(_, script).
     Option.bind (parse script) try_parse_word_only_commands_sequence)"

subsection \<open>The prefix of a command with a here-document\<close>

function has_named_descendant_loop :: "string \<Rightarrow> ts_node list \<Rightarrow> bool" where
  "has_named_descendant_loop kind [] = False"
| "has_named_descendant_loop kind (current # stack) =
     (if node_kind current = kind then True
      else has_named_descendant_loop kind (rev (named_children current) @ stack))"
  by pat_completeness auto
termination
proof (relation "measure (\<lambda>(_, stack). sum_list (map node_count stack))", goal_cases)
  case (2 kind current stack)
  have "sum_list (map node_count (named_children current)) \<le> sum_list (map node_count (node_children current))"
    unfolding named_children_def by (rule sum_list_filter_le_nat)
  then show ?case by (simp add: node_count_children rev_map [symmetric])
qed simp

definition has_named_descendant_kind :: "ts_node \<Rightarrow> string \<Rightarrow> bool" where
  "has_named_descendant_kind n kind = has_named_descendant_loop kind [n]"

function find_single_loop :: "ts_node list \<Rightarrow> ts_node option \<Rightarrow> ts_node option" where
  "find_single_loop [] single_command = single_command"
| "find_single_loop (n # stack) single_command =
     (if node_kind n = ''command'' \<and> single_command \<noteq> None then None
      else find_single_loop (rev (named_children n) @ stack)
             (if node_kind n = ''command'' then Some n else single_command))"
  by pat_completeness auto
termination
proof (relation "measure (\<lambda>(stack, _). sum_list (map node_count stack))", goal_cases)
  case (2 n stack single_command)
  have "sum_list (map node_count (named_children n)) \<le> sum_list (map node_count (node_children n))"
    unfolding named_children_def by (rule sum_list_filter_le_nat)
  then show ?case by (simp add: node_count_children rev_map [symmetric])
qed simp

definition find_single_command_node :: "ts_node \<Rightarrow> ts_node option" where
  "find_single_command_node root = find_single_loop [root] None"

definition is_literal_word_or_number :: "ts_node \<Rightarrow> bool" where
  "is_literal_word_or_number n =
     ((node_kind n = ''word'' \<or> node_kind n = ''number'') \<and> named_children n = [])"

definition is_allowed_heredoc_attachment_kind :: "string \<Rightarrow> bool" where
  "is_allowed_heredoc_attachment_kind kind =
     (kind \<in> {''heredoc_body'', ''simple_heredoc_body'', ''heredoc_redirect'', ''herestring_redirect'',
              ''file_redirect'', ''redirected_statement''})"

text \<open>A child adds a word, adds nothing, or ends the parse.\<close>

definition heredoc_word :: "ts_node \<Rightarrow> string list option" where
  "heredoc_word child =
     (let kind = node_kind child; one = (\<lambda>t. [t]) in
      if kind = ''command_name'' then
        (case named_children child of
           [] \<Rightarrow> None
         | word_node # _ \<Rightarrow>
             if node_kind word_node \<notin> {''word'', ''number''} \<or> \<not> is_literal_word_or_number word_node
             then None else map_option one (utf8_text word_node))
      else if kind = ''word'' \<or> kind = ''number'' then
        (if \<not> is_literal_word_or_number child then None else map_option one (utf8_text child))
      else if kind = ''variable_assignment'' \<or> kind = ''comment'' then Some []
      else if is_allowed_heredoc_attachment_kind kind then Some []
      else None)"

definition parse_heredoc_command_words :: "ts_node \<Rightarrow> string list option" where
  "parse_heredoc_command_words cmd =
     (if node_kind cmd \<noteq> ''command'' then None
      else (case collect_options heredoc_word (named_children cmd) of
              None \<Rightarrow> None
            | Some wss \<Rightarrow> if concat wss = [] then None else Some (concat wss)))"

definition parse_shell_lc_single_command_prefix :: "shell_parser \<Rightarrow> string list \<Rightarrow> string list option" where
  "parse_shell_lc_single_command_prefix parse cmd =
     Option.bind (extract_bash_command cmd) (\<lambda>(_, script).
     Option.bind (parse script) (\<lambda>tree.
       if has_error tree then None
       else if \<not> has_named_descendant_kind (root_node tree) ''heredoc_redirect'' then None
       else Option.bind (find_single_command_node (root_node tree)) parse_heredoc_command_words))"

subsection \<open>The walk visits every node\<close>

text \<open>The nodes of a tree in source order, and those reached through named children.\<close>

fun preorder :: "ts_node \<Rightarrow> ts_node list" where
  "preorder (Node k nm st t ns) = Node k nm st t ns # concat (map preorder ns)"

fun visit_order :: "ts_node \<Rightarrow> ts_node list" where
  "visit_order (Node k nm st t ns) = Node k nm st t ns # concat (map visit_order (rev ns))"

definition is_command :: "ts_node \<Rightarrow> bool" where
  "is_command n = (is_named n \<and> node_kind n = ''command'')"

definition script_commands :: "ts_node \<Rightarrow> ts_node list" where
  "script_commands n = filter is_command (preorder n)"

lemma visit_order_children: "visit_order n = n # concat (map visit_order (rev (node_children n)))"
  by (cases n) simp

lemma mset_concat_rev: "mset (concat (rev xss)) = mset (concat xss)"
  by (induction xss) (simp_all add: union_commute)

lemma mset_visit_order: "mset (visit_order n) = mset (preorder n)"
proof (induction n)
  case (Node k nm st t ns)
  have "mset (concat (map visit_order ns)) = mset (concat (map preorder ns))"
    using Node.IH by (induction ns) auto
  then show ?case by (simp add: mset_concat_rev flip: rev_map)
qed

lemma walk_nodes_visits:
  "walk_nodes stack acc =
     (if list_all node_allowed (concat (map visit_order stack))
      then Some (acc @ filter is_command (concat (map visit_order stack))) else None)"
proof (induction stack acc rule: walk_nodes.induct)
  case (2 n stack command_nodes)
  then show ?case
    by (simp add: visit_order_children [of n] is_command_def [of n])
qed simp

lemma walk_root:
  "walk_nodes [root] [] =
     (if list_all node_allowed (preorder root) then Some (filter is_command (visit_order root)) else None)"
proof -
  have "set (visit_order root) = set (preorder root)"
    using mset_visit_order [of root] by (metis set_mset_mset)
  then show ?thesis by (simp add: walk_nodes_visits list_all_iff)
qed

lemma strictly_sorted_distinct_keys:
  "sorted_wrt (<) (map (f :: 'a \<Rightarrow> nat) xs) \<Longrightarrow> sorted (map f xs) \<and> inj_on f (set xs)"
  by (induction xs) (auto simp: less_imp_le)

lemma sort_commands:
  assumes "sorted_wrt (<) (map start_byte (script_commands root))"
  shows "sort_key start_byte (filter is_command (visit_order root)) = script_commands root"
proof (rule sort_key_inj_key_eq)
  show m: "mset (filter is_command (visit_order root)) = mset (script_commands root)"
    by (simp add: script_commands_def mset_visit_order)
  have "set (filter is_command (visit_order root)) = set (script_commands root)"
    using m by (metis set_mset_mset)
  then show "inj_on start_byte (set (filter is_command (visit_order root)))"
    using strictly_sorted_distinct_keys [OF assms] by simp
  show "sorted (map start_byte (script_commands root))"
    using strictly_sorted_distinct_keys [OF assms] by simp
qed

lemma script_commands_in_source_order_aux:
  assumes "sorted_wrt (<) (map start_byte (script_commands (root_node tree)))"
  shows "try_parse_word_only_commands_sequence tree =
    (if has_error tree \<or> \<not> list_all node_allowed (preorder (root_node tree)) then None
     else collect_options parse_plain_command_from_node (script_commands (root_node tree)))"
  by (simp add: try_parse_word_only_commands_sequence_def walk_root sort_commands [OF assms]
      del: walk_nodes.simps)

lemma collect_options_Some:
  "collect_options f xs = Some ys \<longleftrightarrow> list_all2 (\<lambda>x y. f x = Some y) xs ys"
proof (induction xs arbitrary: ys)
  case (Cons x xs)
  show ?case
    by (cases "f x"; cases "collect_options f xs"; cases ys) (auto simp: Cons.IH [symmetric])
qed auto

subsection \<open>The single command of a script\<close>

fun named_preorder :: "ts_node \<Rightarrow> ts_node list" where
  "named_preorder (Node k nm st t ns) = Node k nm st t ns # concat (map named_preorder (filter is_named ns))"

fun named_visit :: "ts_node \<Rightarrow> ts_node list" where
  "named_visit (Node k nm st t ns) = Node k nm st t ns # concat (map named_visit (rev (filter is_named ns)))"

lemma named_visit_children: "named_visit n = n # concat (map named_visit (rev (named_children n)))"
  by (cases n) (simp add: named_children_def)

lemma mset_named_visit: "mset (named_visit n) = mset (named_preorder n)"
proof (induction n)
  case (Node k nm st t ns)
  have "mset (concat (map named_visit (filter is_named ns))) = mset (concat (map named_preorder (filter is_named ns)))"
    using Node.IH by (induction ns) auto
  then show ?case by (simp add: mset_concat_rev flip: rev_map)
qed

lemma has_named_descendant_loop_iff:
  "has_named_descendant_loop kind stack \<longleftrightarrow> (\<exists>n \<in> set (concat (map named_visit stack)). node_kind n = kind)"
proof (induction kind stack rule: has_named_descendant_loop.induct)
  case (2 kind current stack)
  then show ?case by (auto simp: named_visit_children [of current])
qed simp

lemma has_named_descendant_iff:
  "has_named_descendant_kind root kind \<longleftrightarrow> (\<exists>n \<in> set (named_preorder root). node_kind n = kind)"
  using mset_named_visit [of root]
  by (metis has_named_descendant_kind_def has_named_descendant_loop_iff set_mset_mset
      concat.simps list.simps(8,9) append_Nil2)

lemma find_single_loop_eq:
  "find_single_loop stack found =
     (case (found, filter (\<lambda>n. node_kind n = ''command'') (concat (map named_visit stack))) of
        (None, [n]) \<Rightarrow> Some n | (Some n, []) \<Rightarrow> Some n | _ \<Rightarrow> None)"
proof (induction stack found rule: find_single_loop.induct)
  case (2 n stack found)
  have "concat (map named_visit (n # stack)) =
      n # concat (map named_visit (rev (named_children n) @ stack))"
    by (simp add: named_visit_children [of n])
  then show ?case
    using 2 by (cases "node_kind n = ''command''"; cases found) (auto split: list.splits)
qed (simp split: option.split)

lemma find_single_command_iff:
  "find_single_command_node root = Some n \<longleftrightarrow>
     filter (\<lambda>n. node_kind n = ''command'') (named_preorder root) = [n]"
proof -
  let ?P = "\<lambda>n. node_kind n = ''command''"
  have "mset (filter ?P (named_visit root)) = mset (filter ?P (named_preorder root))"
    by (simp add: mset_named_visit)
  then have "filter ?P (named_visit root) = [n] \<longleftrightarrow> filter ?P (named_preorder root) = [n]"
    by (metis mset_single_iff_right)
  moreover have "find_single_command_node root = Some n \<longleftrightarrow> filter ?P (named_visit root) = [n]"
    by (auto simp: find_single_command_node_def find_single_loop_eq split: list.splits)
  ultimately show ?thesis by simp
qed

text \<open>The plain commands of a script.  The tree is walked with a stack that visits the nodes in
  another order than the script has; yet, when its commands start at increasing positions, the
  parse is what a walk in source order gives: nothing if the tree has an error or any node that
  is not allowed, and otherwise the words of its commands, in the order of the script.\<close>

lemma plain_commands_in_source_order:
  assumes "sorted_wrt (<) (map start_byte (script_commands (root_node tree)))"
  shows "try_parse_word_only_commands_sequence tree =
    (if has_error tree \<or> \<not> list_all node_allowed (preorder (root_node tree)) then None
     else collect_options parse_plain_command_from_node (script_commands (root_node tree)))"
  by (rule script_commands_in_source_order_aux [OF assms])

text \<open>The tree of \<open>ls -1 && pwd\<close>.\<close>

definition word_node :: "nat \<Rightarrow> string \<Rightarrow> ts_node" where
  "word_node i w = Node ''word'' True i (Some w) []"

definition simple_command :: "nat \<Rightarrow> string \<Rightarrow> ts_node list \<Rightarrow> ts_node" where
  "simple_command i w args = Node ''command'' True i None (Node ''command_name'' True i (Some w) [word_node i w] # args)"

text \<open>The command a here-document is attached to: there is one exactly when a walk through the
  named nodes, in source order, meets one command.\<close>

lemma single_command_is_the_only_one:
  "find_single_command_node root = Some n \<longleftrightarrow>
     filter (\<lambda>n. node_kind n = ''command'') (named_preorder root) = [n]"
  by (rule find_single_command_iff)

end
