(* ===== verification/Powershell.thy ===== *)
theory Powershell
  imports Shell_Script
begin

section \<open>PowerShell invocations\<close>

text \<open>
  A model of \<^verbatim>\<open>codex-rs/shell-command/src/powershell.rs\<close> and of
  \<^verbatim>\<open>command_safety/windows_safe_commands.rs\<close>: the script of an invocation, the prefix that asks
  for UTF-8 output, and the PowerShell commands that are known to be safe.

  A script is parsed by running PowerShell itself; what it answers to an executable and a script,
  as the JSON the code reads, is a parameter, with \<open>None\<close> for a process that fails or an answer
  that is no such JSON.
\<close>

subsection \<open>The script of an invocation\<close>

definition POWERSHELL_FLAGS :: "string list" where
  "POWERSHELL_FLAGS = [''-nologo'', ''-noprofile'', ''-command'', ''-c'']"

definition UTF8_OUTPUT_PREFIX :: string where
  "UTF8_OUTPUT_PREFIX = ''[Console]::OutputEncoding=[System.Text.Encoding]::UTF8;'' @ [nl]"

text \<open>The loop looks at a flag as long as something follows it.\<close>

fun powershell_flag_loop :: "string list \<Rightarrow> string option" where
  "powershell_flag_loop (flag # script # rest) =
     (if to_ascii_lowercase flag \<notin> set POWERSHELL_FLAGS then None
      else if eq_ignore_ascii_case flag ''-Command'' \<or> eq_ignore_ascii_case flag ''-c'' then Some script
      else powershell_flag_loop (script # rest))"
| "powershell_flag_loop _ = None"

definition extract_powershell_command :: "string list \<Rightarrow> (string \<times> string) option" where
  "extract_powershell_command cmd =
     (if length cmd < 3 then None
      else if detect_shell_type (cmd ! 0) \<noteq> Some PowerShell then None
      else map_option (Pair (cmd ! 0)) (powershell_flag_loop (drop 1 cmd)))"

definition prefix_powershell_script_with_utf8 :: "string list \<Rightarrow> string list" where
  "prefix_powershell_script_with_utf8 cmd =
     (case extract_powershell_command cmd of
        None \<Rightarrow> cmd
      | Some (_, script) \<Rightarrow>
          (let trimmed = trim_start script;
               script = (if prefix UTF8_OUTPUT_PREFIX trimmed then script else UTF8_OUTPUT_PREFIX @ script)
           in take (length cmd - 1) cmd @ [script]))"

subsection \<open>What PowerShell says of a script\<close>

record powershell_parser_output =
  status :: string
  commands :: "string list list option"

datatype powershell_parse_outcome = Commands "string list list" | Unsupported | Failed

definition into_outcome :: "powershell_parser_output \<Rightarrow> powershell_parse_outcome" where
  "into_outcome out =
     (if status out = ''ok'' then
        (case commands out of
           Some cmds \<Rightarrow>
             if cmds \<noteq> [] \<and> list_all (\<lambda>cmd. cmd \<noteq> [] \<and> list_all (\<lambda>word. word \<noteq> []) cmd) cmds
             then Commands cmds else Unsupported
         | None \<Rightarrow> Unsupported)
      else if status out = ''unsupported'' then Unsupported
      else Failed)"

type_synonym run_powershell = "string \<Rightarrow> string \<Rightarrow> powershell_parser_output option"

definition parse_with_powershell_ast :: "run_powershell \<Rightarrow> string \<Rightarrow> string \<Rightarrow> powershell_parse_outcome" where
  "parse_with_powershell_ast run executable script =
     (case run executable script of Some result \<Rightarrow> into_outcome result | None \<Rightarrow> Failed)"

definition parse_powershell_script :: "run_powershell \<Rightarrow> string \<Rightarrow> string \<Rightarrow> string list list option" where
  "parse_powershell_script run executable script =
     (case parse_with_powershell_ast run executable script of Commands cmds \<Rightarrow> Some cmds | _ \<Rightarrow> None)"

definition quote_argument :: "string \<Rightarrow> string" where
  "quote_argument arg =
     (if arg = [] then [CHR 0x27, CHR 0x27]
      else if \<not> has_whitespace arg then arg
      else CHR 0x27 # concat (map (\<lambda>c. if c = CHR 0x27 then [CHR 0x27, CHR 0x27] else [c]) arg) @ [CHR 0x27])"

definition join_arguments_as_script :: "string list \<Rightarrow> string" where
  "join_arguments_as_script args =
     (case args of [] \<Rightarrow> [] | first # rest \<Rightarrow> join_str '' '' (first # map quote_argument rest))"

fun invocation_loop :: "run_powershell \<Rightarrow> string \<Rightarrow> string list \<Rightarrow> string list list option" where
  "invocation_loop run executable [] = None"
| "invocation_loop run executable (arg # rest) =
     (let lower = to_ascii_lowercase arg in
      if lower \<in> {''-command'', ''/command'', ''-c''} then
        (case rest of [script] \<Rightarrow> parse_powershell_script run executable script | _ \<Rightarrow> None)
      else if prefix ''-command:'' lower \<or> prefix ''/command:'' lower then
        (if rest \<noteq> [] then None
         else Option.bind (split_once (CHR '':'') arg) (\<lambda>(_, script). parse_powershell_script run executable script))
      else if lower \<in> {''-nologo'', ''-noprofile'', ''-noninteractive'', ''-mta'', ''-sta''} then
        invocation_loop run executable rest
      else if lower \<in> {''-encodedcommand'', ''-ec'', ''-file'', ''/file'', ''-windowstyle'', ''-executionpolicy'',
                       ''-workingdirectory''} then None
      else if prefix ''-'' lower then None
      else parse_powershell_script run executable (join_arguments_as_script (arg # rest)))"

definition parse_powershell_invocation :: "run_powershell \<Rightarrow> string \<Rightarrow> string list \<Rightarrow> string list list option" where
  "parse_powershell_invocation run executable args =
     (if args = [] then None else invocation_loop run executable args)"

definition is_powershell_executable :: "string \<Rightarrow> bool" where
  "is_powershell_executable exe =
     (to_ascii_lowercase (case path_name exe of Some n \<Rightarrow> n | None \<Rightarrow> exe)
        \<in> {''powershell'', ''powershell.exe'', ''pwsh'', ''pwsh.exe''})"

definition try_parse_powershell_command_sequence :: "run_powershell \<Rightarrow> string list \<Rightarrow> string list list option" where
  "try_parse_powershell_command_sequence run cmd =
     (case cmd of
        [] \<Rightarrow> None
      | exe # rest \<Rightarrow> if is_powershell_executable exe then parse_powershell_invocation run exe rest else None)"

subsection \<open>Safe PowerShell commands\<close>

definition side_effecting_cmdlets :: "string list" where
  "side_effecting_cmdlets =
     [''set-content'', ''add-content'', ''out-file'', ''new-item'', ''remove-item'', ''move-item'',
      ''copy-item'', ''rename-item'', ''start-process'', ''stop-process'']"

definition is_paren :: "char \<Rightarrow> bool" where
  "is_paren c = (c = CHR ''('' \<or> c = CHR '')'')"

definition inner_word :: "string \<Rightarrow> string" where
  "inner_word w =
     to_ascii_lowercase
       (dropWhile (\<lambda>c. c = CHR ''-'') (rev (dropWhile is_paren (rev (dropWhile is_paren w)))))"

definition is_safe_ripgrep :: "string list \<Rightarrow> bool" where
  "is_safe_ripgrep ws =
     (\<not> list_ex (\<lambda>arg.
        let arg_lc = to_ascii_lowercase arg in
        arg_lc \<in> set [''--search-zip'', ''-z''] \<or>
        list_ex (\<lambda>opt. arg_lc = opt \<or> prefix (opt @ ''='') arg_lc) [''--pre'', ''--hostname-bin'']) (drop 1 ws))"

fun safe_git_loop :: "string list \<Rightarrow> bool" where
  "safe_git_loop [] = False"
| "safe_git_loop (arg # rest) =
     (let arg_lc = to_ascii_lowercase arg in
      if prefix ''-'' arg then
        (if eq_ignore_ascii_case arg ''-c'' \<or> eq_ignore_ascii_case arg ''--config'' then
           (case rest of [] \<Rightarrow> False | _ # rest' \<Rightarrow> safe_git_loop rest')
         else if prefix ''-c='' arg_lc \<or> prefix ''--config='' arg_lc \<or> prefix ''--git-dir='' arg_lc \<or>
                 prefix ''--work-tree='' arg_lc then
           safe_git_loop rest
         else if eq_ignore_ascii_case arg ''--git-dir'' \<or> eq_ignore_ascii_case arg ''--work-tree'' then
           (case rest of [] \<Rightarrow> False | _ # rest' \<Rightarrow> safe_git_loop rest')
         else safe_git_loop rest)
      else arg_lc \<in> {''status'', ''log'', ''show'', ''diff'', ''cat-file''})"

definition is_safe_git_command :: "string list \<Rightarrow> bool" where
  "is_safe_git_command ws = safe_git_loop (drop 1 ws)"

definition safe_cmdlets :: "string list" where
  "safe_cmdlets =
     [''echo'', ''write-output'', ''write-host'',
      ''dir'', ''ls'', ''get-childitem'', ''gci'',
      ''cat'', ''type'', ''gc'', ''get-content'',
      ''select-string'', ''sls'', ''findstr'',
      ''measure-object'', ''measure'',
      ''get-location'', ''gl'', ''pwd'',
      ''test-path'', ''tp'',
      ''resolve-path'', ''rvpa'',
      ''select-object'', ''select'',
      ''get-item'']"

definition is_safe_powershell_command :: "string list \<Rightarrow> bool" where
  "is_safe_powershell_command ws =
     (case ws of
        [] \<Rightarrow> False
      | w # _ \<Rightarrow>
          if list_ex (\<lambda>w. inner_word w \<in> set side_effecting_cmdlets) ws then False
          else (let cmd = inner_word w in
                if cmd \<in> set safe_cmdlets then True
                else if cmd = ''git'' then is_safe_git_command ws
                else if cmd = ''rg'' then is_safe_ripgrep ws
                else False))"

definition is_safe_command_windows :: "run_powershell \<Rightarrow> string list \<Rightarrow> bool" where
  "is_safe_command_windows run cmd =
     (case try_parse_powershell_command_sequence run cmd of
        Some cmds \<Rightarrow> list_all is_safe_powershell_command cmds
      | None \<Rightarrow> False)"

subsection \<open>The prefix is added once\<close>



lemma trim_start_utf8_prefix: "trim_start (UTF8_OUTPUT_PREFIX @ s) = UTF8_OUTPUT_PREFIX @ s"
proof -
  have "CHR ''['' \<notin> set ws_bytes" by code_simp
  then have "\<forall>u \<in> set ws_units. u = [] \<or> \<not> prefix u (UTF8_OUTPUT_PREFIX @ s)"
    using ws_unit_bytes by (fastforce simp: UTF8_OUTPUT_PREFIX_def neq_Nil_conv)
  then show ?thesis by (simp only: trim_start_id_iff)
qed

text \<open>The flags before the script, with the flag that introduces it.\<close>

lemma powershell_flag_loop_Some:
  "powershell_flag_loop ws = Some script \<Longrightarrow>
   \<exists>flags rest. ws = flags @ script # rest \<and> flags \<noteq> [] \<and>
     (\<forall>script' rest'. powershell_flag_loop (flags @ script' # rest') = Some script')"
proof (induction ws rule: powershell_flag_loop.induct)
  case (1 flag s rest)
  show ?case
  proof (cases "eq_ignore_ascii_case flag ''-Command'' \<or> eq_ignore_ascii_case flag ''-c''")
    case True
    with "1.prems" have "s = script" "to_ascii_lowercase flag \<in> set POWERSHELL_FLAGS" by (auto split: if_splits)
    with True show ?thesis by (intro exI [of _ "[flag]"] exI [of _ rest]) auto
  next
    case False
    with "1.prems" have known: "to_ascii_lowercase flag \<in> set POWERSHELL_FLAGS"
      and "powershell_flag_loop (s # rest) = Some script" by (auto split: if_splits)
    with "1.IH" False obtain flags rest' where f: "s # rest = flags @ script # rest'" "flags \<noteq> []"
      "\<forall>script' rest'. powershell_flag_loop (flags @ script' # rest') = Some script'" by blast
    have "powershell_flag_loop ((flag # flags) @ script' # rest') = Some script'" for script' rest'
      using f(2,3) False known by (cases flags) auto
    with f(1) show ?thesis by (intro exI [of _ "flag # flags"] exI [of _ rest']) auto
  qed
qed auto

lemma prefix_script_eq:
  assumes "extract_powershell_command cmd = Some (shell, script)"
  shows "\<exists>flags rest. cmd = shell # flags @ script # rest \<and> flags \<noteq> [] \<and>
    detect_shell_type shell = Some PowerShell \<and>
    (\<forall>script' rest'. powershell_flag_loop (flags @ script' # rest') = Some script')"
proof -
  from assms obtain ws where cmd: "cmd = shell # ws" "powershell_flag_loop ws = Some script"
    "detect_shell_type shell = Some PowerShell"
    by (cases cmd) (auto simp: extract_powershell_command_def split: if_splits)
  from powershell_flag_loop_Some [OF cmd(2)] cmd(3) show ?thesis unfolding cmd(1) by blast
qed

lemma extract_of_flags:
  assumes "detect_shell_type shell = Some PowerShell" and "flags \<noteq> []"
    and "\<forall>script' rest'. powershell_flag_loop (flags @ script' # rest') = Some script'"
  shows "extract_powershell_command (shell # flags @ script # rest) = Some (shell, script)"
proof -
  have "2 \<le> length (flags @ script # rest)" using assms(2) by (cases flags) auto
  then show ?thesis using assms by (simp add: extract_powershell_command_def)
qed

definition utf8_script :: "string \<Rightarrow> string" where
  "utf8_script script =
     (if prefix UTF8_OUTPUT_PREFIX (trim_start script) then script else UTF8_OUTPUT_PREFIX @ script)"

lemma utf8_script_idem: "utf8_script (utf8_script s) = utf8_script s"
  by (simp add: utf8_script_def trim_start_utf8_prefix)

lemma prefix_with_utf8_eq:
  "extract_powershell_command cmd = Some (shell, script) \<Longrightarrow>
   prefix_powershell_script_with_utf8 cmd = butlast cmd @ [utf8_script script]"
  by (simp add: prefix_powershell_script_with_utf8_def utf8_script_def butlast_conv_take)

text \<open>Asking PowerShell for UTF-8 output is done once: prefixing the script of an invocation a
  second time changes nothing.\<close>

lemma utf8_prefix_is_added_once:
  "prefix_powershell_script_with_utf8 (prefix_powershell_script_with_utf8 cmd) =
   prefix_powershell_script_with_utf8 cmd"
proof (cases "extract_powershell_command cmd")
  case None
  then show ?thesis by (simp add: prefix_powershell_script_with_utf8_def)
next
  case (Some p)
  then obtain shell script where ex: "extract_powershell_command cmd = Some (shell, script)" by (cases p) auto
  from prefix_script_eq [OF ex] obtain flags rest where cmd: "cmd = shell # flags @ script # rest" "flags \<noteq> []"
    and sh: "detect_shell_type shell = Some PowerShell"
    and loop: "\<forall>script' rest'. powershell_flag_loop (flags @ script' # rest') = Some script'" by blast
  note ext = extract_of_flags [OF sh cmd(2) loop]
  show ?thesis
  proof (cases "rest = []")
    case True
    have "prefix_powershell_script_with_utf8 (shell # flags @ s # []) = shell # flags @ [utf8_script s]" for s
      using ext [of s "[]"] by (simp add: prefix_with_utf8_eq butlast_append)
    with True show ?thesis by (simp add: cmd(1) utf8_script_idem)
  next
    case False
    then have eq: "prefix_powershell_script_with_utf8 cmd = shell # flags @ script # butlast rest @ [utf8_script script]"
      unfolding prefix_with_utf8_eq [OF ex] by (simp add: cmd(1) butlast_append)
    have "prefix_powershell_script_with_utf8 (shell # flags @ script # butlast rest @ [utf8_script script]) =
        shell # flags @ script # butlast rest @ [utf8_script script]"
      unfolding prefix_with_utf8_eq [OF ext] by (simp add: butlast_append)
    then show ?thesis unfolding eq .
  qed
qed

text \<open>The prefixed script takes the place of the last word, which is not the script when words follow it.\<close>

lemma prefix_replaces_last_word:
  "prefix_powershell_script_with_utf8 [''pwsh'', ''-c'', ''ls'', w] =
     [''pwsh'', ''-c'', ''ls'', UTF8_OUTPUT_PREFIX @ ''ls'']"
proof -
  have "detect_shell_type ''pwsh'' = Some PowerShell" by (subst detect_shell_type.simps) simp
  then have "extract_powershell_command [''pwsh'', ''-c'', ''ls'', w] = Some (''pwsh'', ''ls'')"
    by (simp add: extract_powershell_command_def POWERSHELL_FLAGS_def eq_ignore_ascii_case_def
        to_ascii_lowercase_def ascii_lower_def)
  moreover have "utf8_script ''ls'' = UTF8_OUTPUT_PREFIX @ ''ls''"
  proof -
    have "trim_start ''ls'' = ''ls''" by code_simp
    then show ?thesis by (simp add: utf8_script_def UTF8_OUTPUT_PREFIX_def)
  qed
  ultimately show ?thesis by (simp add: prefix_with_utf8_eq)
qed

subsection \<open>Safe PowerShell commands read\<close>

lemma safe_powershell_command_reads:
  "is_safe_powershell_command ws \<Longrightarrow>
   ws \<noteq> [] \<and> inner_word (hd ws) \<in> set (safe_cmdlets @ [''git'', ''rg'']) \<and>
   (\<forall>w \<in> set ws. inner_word w \<notin> set side_effecting_cmdlets)"
  by (cases ws) (auto simp: is_safe_powershell_command_def list_ex_iff Let_def split: if_splits)

lemma parse_powershell_script_Some:
  "parse_powershell_script run exe script = Some cmds \<Longrightarrow>
   run exe script = Some \<lparr>status = ''ok'', commands = Some cmds\<rparr> \<and> cmds \<noteq> []"
  by (auto simp: parse_powershell_script_def parse_with_powershell_ast_def into_outcome_def
      split: option.splits powershell_parse_outcome.splits if_splits)

lemma invocation_loop_script:
  "invocation_loop run exe args = Some cmds \<Longrightarrow> \<exists>script. parse_powershell_script run exe script = Some cmds"
proof (induction args)
  case (Cons arg rest)
  show ?case
  proof (cases "\<exists>script. parse_powershell_script run exe script = Some cmds")
    case False
    then have no: "parse_powershell_script run exe script \<noteq> Some cmds" for script by blast
    have "Option.bind (split_once (CHR '':'') arg) (\<lambda>(_, script). parse_powershell_script run exe script) \<noteq> Some cmds"
      using no by (simp add: bind_eq_Some_conv)
    moreover have "(case rest of [script] \<Rightarrow> parse_powershell_script run exe script | _ \<Rightarrow> None) \<noteq> Some cmds"
      using no by (simp split: list.split)
    ultimately have "invocation_loop run exe rest = Some cmds"
      using Cons.prems no unfolding invocation_loop.simps Let_def by (auto split: if_splits)
    then show ?thesis by (rule Cons.IH)
  qed
qed simp

text \<open>What is safe to run in PowerShell is a script that PowerShell itself parsed, whose commands
  are all cmdlets that read, \<open>git\<close> or \<open>rg\<close>, and none of whose words, parentheses and dashes
  aside, names a cmdlet that writes, moves, or starts and stops processes.\<close>

lemma safe_powershell_only_reads:
  assumes "is_safe_command_windows run cmd"
  shows "\<exists>script cmds. is_powershell_executable (hd cmd) \<and>
    run (hd cmd) script = Some \<lparr>status = ''ok'', commands = Some cmds\<rparr> \<and> cmds \<noteq> [] \<and>
    list_all (\<lambda>ws. ws \<noteq> [] \<and> inner_word (hd ws) \<in> set (safe_cmdlets @ [''git'', ''rg'']) \<and>
      list_all (\<lambda>w. inner_word w \<notin> set side_effecting_cmdlets) ws) cmds"
proof -
  from assms obtain cmds where cmds: "try_parse_powershell_command_sequence run cmd = Some cmds"
    and safe: "list_all is_safe_powershell_command cmds"
    by (auto simp: is_safe_command_windows_def split: option.splits)
  from cmds obtain exe args where cmd: "cmd = exe # args" "is_powershell_executable exe"
    "invocation_loop run exe args = Some cmds"
    by (auto simp: try_parse_powershell_command_sequence_def parse_powershell_invocation_def
        split: list.splits if_splits)
  from invocation_loop_script [OF cmd(3)] obtain script where
    "parse_powershell_script run exe script = Some cmds" by blast
  from parse_powershell_script_Some [OF this] have "run exe script = Some \<lparr>status = ''ok'', commands = Some cmds\<rparr>"
    "cmds \<noteq> []" by simp_all
  moreover from safe have "list_all (\<lambda>ws. ws \<noteq> [] \<and> inner_word (hd ws) \<in> set (safe_cmdlets @ [''git'', ''rg'']) \<and>
      list_all (\<lambda>w. inner_word w \<notin> set side_effecting_cmdlets) ws) cmds"
    using safe_powershell_command_reads unfolding list_all_iff by blast
  ultimately show ?thesis using cmd(1,2) by auto
qed

text \<open>The commands of a script are git's, with any configuration.\<close>

lemma powershell_git_configuration_is_free: "is_safe_powershell_command [''git'', ''-c'', config, ''log'']"
  if "inner_word config \<notin> set side_effecting_cmdlets"
proof -
  have w: "inner_word ''git'' = ''git''" "inner_word ''-c'' = ''c''" "inner_word ''log'' = ''log''" by code_simp+
  have git: "''git'' \<notin> set safe_cmdlets" "''git'' \<notin> set side_effecting_cmdlets"
    "''c'' \<notin> set side_effecting_cmdlets" "''log'' \<notin> set side_effecting_cmdlets"
    by (simp_all add: safe_cmdlets_def side_effecting_cmdlets_def)
  have "is_safe_git_command [''git'', ''-c'', config, ''log'']"
    by (simp add: is_safe_git_command_def Let_def eq_ignore_ascii_case_def to_ascii_lowercase_def ascii_lower_def)
  with that git show ?thesis by (simp add: is_safe_powershell_command_def w Let_def)
qed

end
