(* ===== verification/Command_Safety.thy ===== *)
theory Command_Safety
  imports Powershell
begin

section \<open>Safe and dangerous commands\<close>

text \<open>
  A model of \<^verbatim>\<open>codex-rs/shell-command/src/command_safety/is_safe_command.rs\<close> and
  \<^verbatim>\<open>is_dangerous_command.rs\<close>, for a target that is not Windows: which commands run without
  asking, and which always ask.  A command is its list of words.
\<close>

text \<open>What the checks ask of the outside: the parser of shell scripts, PowerShell, and whether the
  target is Linux.\<close>

record safety_env =
  shell_parse :: shell_parser
  powershell_run :: run_powershell
  target_linux :: bool

definition executable_name_lookup_key :: "string \<Rightarrow> string option" where
  "executable_name_lookup_key raw = path_name raw"

subsection \<open>Git command lines\<close>

definition is_git_global_option_with_value :: "string \<Rightarrow> bool" where
  "is_git_global_option_with_value arg =
     (arg \<in> set [''-C'', ''-c'', ''--config-env'', ''--exec-path'', ''--git-dir'', ''--namespace'',
                 ''--super-prefix'', ''--work-tree''])"

definition is_git_global_option_with_inline_value :: "string \<Rightarrow> bool" where
  "is_git_global_option_with_inline_value arg =
     (list_ex (\<lambda>p. prefix p arg)
        [''--config-env='', ''--exec-path='', ''--git-dir='', ''--namespace='', ''--super-prefix='', ''--work-tree='']
      \<or> ((prefix ''-C'' arg \<or> prefix ''-c'' arg) \<and> length arg > 2))"

text \<open>The loop over the words after the first, with their index.\<close>

fun git_subcommand_loop :: "string list \<Rightarrow> nat \<Rightarrow> bool \<Rightarrow> string list \<Rightarrow> (nat \<times> string) option" where
  "git_subcommand_loop subcommands idx skip_next [] = None"
| "git_subcommand_loop subcommands idx skip_next (arg # rest) =
     (if skip_next then git_subcommand_loop subcommands (idx + 1) False rest
      else if is_git_global_option_with_inline_value arg then
        git_subcommand_loop subcommands (idx + 1) False rest
      else if is_git_global_option_with_value arg then
        git_subcommand_loop subcommands (idx + 1) True rest
      else if arg = ''--'' \<or> prefix ''-'' arg then
        git_subcommand_loop subcommands (idx + 1) False rest
      else if arg \<in> set subcommands then Some (idx, arg)
      else None)"

definition find_git_subcommand :: "string list \<Rightarrow> string list \<Rightarrow> (nat \<times> string) option" where
  "find_git_subcommand cmd subcommands =
     (case cmd of
        [] \<Rightarrow> None
      | cmd0 # rest \<Rightarrow>
          if executable_name_lookup_key cmd0 \<noteq> Some ''git'' then None
          else git_subcommand_loop subcommands 1 False rest)"

definition git_has_config_override_global_option :: "string list \<Rightarrow> bool" where
  "git_has_config_override_global_option cmd =
     list_ex (\<lambda>arg. arg \<in> set [''-c'', ''--config-env''] \<or> (prefix ''-c'' arg \<and> length arg > 2) \<or>
                    prefix ''--config-env='' arg) cmd"

definition UNSAFE_GIT_FLAGS :: "string list" where
  "UNSAFE_GIT_FLAGS = [''--output'', ''--ext-diff'', ''--textconv'', ''--exec'', ''--paginate'']"

definition git_subcommand_args_are_read_only :: "string list \<Rightarrow> bool" where
  "git_subcommand_args_are_read_only args =
     (\<not> list_ex (\<lambda>arg. arg \<in> set UNSAFE_GIT_FLAGS \<or> prefix ''--output='' arg \<or> prefix ''--exec='' arg) args)"

definition git_branch_flags :: "string list" where
  "git_branch_flags =
     [''--list'', ''-l'', ''--show-current'', ''-a'', ''--all'', ''-r'', ''--remotes'', ''-v'', ''-vv'', ''--verbose'']"

fun git_branch_loop :: "bool \<Rightarrow> string list \<Rightarrow> bool" where
  "git_branch_loop saw_read_only_flag [] = saw_read_only_flag"
| "git_branch_loop saw_read_only_flag (arg # rest) =
     (if arg \<in> set git_branch_flags then git_branch_loop True rest
      else if prefix ''--format='' arg then git_branch_loop True rest
      else False)"

definition git_branch_is_read_only :: "string list \<Rightarrow> bool" where
  "git_branch_is_read_only branch_args =
     (if branch_args = [] then True else git_branch_loop False branch_args)"

subsection \<open>Safe commands\<close>

text \<open>The pattern is \<^verbatim>\<open>(\d+,)?\d+p\<close>.\<close>

definition is_valid_sed_n_arg :: "string option \<Rightarrow> bool" where
  "is_valid_sed_n_arg arg =
     (case arg of
        None \<Rightarrow> False
      | Some s \<Rightarrow>
          (case strip_suffix ''p'' s of
             None \<Rightarrow> False
           | Some core \<Rightarrow>
               (case split_char (CHR '','') core of
                  [num] \<Rightarrow> num \<noteq> [] \<and> list_all is_ascii_digit num
                | [a, b] \<Rightarrow> a \<noteq> [] \<and> b \<noteq> [] \<and> list_all is_ascii_digit a \<and> list_all is_ascii_digit b
                | _ \<Rightarrow> False)))"

definition always_safe_programs :: "string list" where
  "always_safe_programs =
     [''cat'', ''cd'', ''cut'', ''echo'', ''expr'', ''false'', ''grep'', ''head'', ''id'', ''ls'', ''nl'',
      ''paste'', ''pwd'', ''rev'', ''seq'', ''stat'', ''tail'', ''tr'', ''true'', ''uname'', ''uniq'',
      ''wc'', ''which'', ''whoami'']"

definition UNSAFE_FIND_OPTIONS :: "string list" where
  "UNSAFE_FIND_OPTIONS =
     [''-exec'', ''-execdir'', ''-ok'', ''-okdir'', ''-delete'', ''-fls'', ''-fprint'', ''-fprint0'', ''-fprintf'']"

text \<open>The element of an optional index: \<open>get(i)\<close>.\<close>

definition get_word :: "nat \<Rightarrow> string list \<Rightarrow> string option" where
  "get_word i ws = (if i < length ws then Some (ws ! i) else None)"

definition is_safe_to_call_with_exec :: "bool \<Rightarrow> string list \<Rightarrow> bool" where
  "is_safe_to_call_with_exec linux cmd =
     (case cmd of
        [] \<Rightarrow> False
      | cmd0 # args \<Rightarrow>
          (case executable_name_lookup_key cmd0 of
             None \<Rightarrow> False
           | Some key \<Rightarrow>
               if linux \<and> key \<in> set [''numfmt'', ''tac''] then True
               else if key \<in> set always_safe_programs then True
               else if key = ''base64'' then
                 \<not> list_ex (\<lambda>arg. arg \<in> set [''-o'', ''--output''] \<or> prefix ''--output='' arg \<or>
                                  (prefix ''-o'' arg \<and> arg \<noteq> ''-o'')) args
               else if key = ''find'' then \<not> list_ex (\<lambda>arg. arg \<in> set UNSAFE_FIND_OPTIONS) cmd
               else if key = ''rg'' then
                 \<not> list_ex (\<lambda>arg. arg \<in> set [''--search-zip'', ''-z''] \<or>
                     list_ex (\<lambda>opt. arg = opt \<or> prefix (opt @ ''='') arg) [''--pre'', ''--hostname-bin'']) cmd
               else if key = ''git'' then
                 (if git_has_config_override_global_option cmd then False
                  else (case find_git_subcommand cmd [''status'', ''log'', ''diff'', ''show'', ''branch''] of
                          None \<Rightarrow> False
                        | Some (subcommand_idx, subcommand) \<Rightarrow>
                            (let subcommand_args = drop (subcommand_idx + 1) cmd in
                             if subcommand \<in> set [''status'', ''log'', ''diff'', ''show''] then
                               git_subcommand_args_are_read_only subcommand_args
                             else if subcommand = ''branch'' then
                               git_subcommand_args_are_read_only subcommand_args \<and>
                               git_branch_is_read_only subcommand_args
                             else False)))
               else if key = ''sed'' \<and> length cmd \<le> 4 \<and> get_word 1 cmd = Some ''-n'' \<and>
                       is_valid_sed_n_arg (get_word 2 cmd) then True
               else False))"

definition is_known_safe_command :: "safety_env \<Rightarrow> string list \<Rightarrow> bool" where
  "is_known_safe_command env cmd =
     (let cmd = map (\<lambda>s. if s = ''zsh'' then ''bash'' else s) cmd in
      if is_safe_command_windows (powershell_run env) cmd then True
      else if is_safe_to_call_with_exec (target_linux env) cmd then True
      else (case parse_shell_lc_plain_commands (shell_parse env) cmd of
              Some all_commands \<Rightarrow>
                all_commands \<noteq> [] \<and> list_all (is_safe_to_call_with_exec (target_linux env)) all_commands
            | None \<Rightarrow> False))"

subsection \<open>Dangerous commands\<close>

fun is_dangerous_to_call_with_exec :: "string list \<Rightarrow> bool" where
  "is_dangerous_to_call_with_exec [] = False"
| "is_dangerous_to_call_with_exec (cmd0 # args) =
     (if cmd0 = ''rm'' then get_word 1 (cmd0 # args) \<in> {Some ''-f'', Some ''-rf''}
      else if cmd0 = ''sudo'' then is_dangerous_to_call_with_exec args
      else False)"

definition command_might_be_dangerous :: "safety_env \<Rightarrow> string list \<Rightarrow> bool" where
  "command_might_be_dangerous env cmd =
     (if is_dangerous_to_call_with_exec cmd then True
      else (case parse_shell_lc_plain_commands (shell_parse env) cmd of
              Some all_commands \<Rightarrow> list_ex is_dangerous_to_call_with_exec all_commands
            | None \<Rightarrow> False))"

subsection \<open>The subcommand of git is its first word that is no option\<close>

text \<open>The words between \<open>git\<close> and its subcommand: options, some followed by their value.\<close>

fun global_options :: "string list \<Rightarrow> bool" where
  "global_options [] = True"
| "global_options (arg # rest) =
     (if is_git_global_option_with_inline_value arg then global_options rest
      else if is_git_global_option_with_value arg then
        (case rest of [] \<Rightarrow> False | _ # rest' \<Rightarrow> global_options rest')
      else prefix ''-'' arg \<and> global_options rest)"

lemma git_options_dash:
  "is_git_global_option_with_inline_value arg \<Longrightarrow> prefix ''-'' arg"
  "is_git_global_option_with_value arg \<Longrightarrow> prefix ''-'' arg"
  by (auto simp: is_git_global_option_with_inline_value_def is_git_global_option_with_value_def prefix_def)

lemma git_subcommand_loop_skip:
  "git_subcommand_loop subs idx True ws = (case ws of [] \<Rightarrow> None | _ # ws' \<Rightarrow> git_subcommand_loop subs (idx + 1) False ws')"
  by (cases ws) simp_all

definition git_words :: "string list \<Rightarrow> nat \<Rightarrow> string list \<Rightarrow> nat \<Rightarrow> string \<Rightarrow> bool" where
  "git_words subs idx ws i w =
     (\<exists>opts args. ws = opts @ w # args \<and> i = idx + length opts \<and> global_options opts \<and>
        \<not> prefix ''-'' w \<and> w \<in> set subs)"

lemma git_words_Nil: "\<not> git_words subs idx [] i w"
  by (simp add: git_words_def)

text \<open>An option, an option and its value, and a word in front of the words.\<close>

lemma git_words_option:
  assumes "\<And>opts. global_options (arg # opts) = global_options opts" and "prefix ''-'' arg"
  shows "git_words subs idx (arg # rest) i w \<longleftrightarrow> git_words subs (idx + 1) rest i w"
proof
  assume "git_words subs idx (arg # rest) i w"
  then show "git_words subs (idx + 1) rest i w"
    using assms by (auto simp: git_words_def Cons_eq_append_conv)
next
  assume "git_words subs (idx + 1) rest i w"
  then obtain opts args where "rest = opts @ w # args" "i = idx + 1 + length opts" "global_options opts"
    "\<not> prefix ''-'' w" "w \<in> set subs"
    by (auto simp: git_words_def)
  then show "git_words subs idx (arg # rest) i w"
    unfolding git_words_def using assms(1) by (intro exI [of _ "arg # opts"] exI [of _ args]) simp
qed

lemma git_words_option_value:
  assumes "is_git_global_option_with_value arg" and "\<not> is_git_global_option_with_inline_value arg"
  shows "git_words subs idx (arg # v # rest) i w \<longleftrightarrow> git_words subs (idx + 2) rest i w"
proof
  assume "git_words subs idx (arg # v # rest) i w"
  then show "git_words subs (idx + 2) rest i w"
    using assms git_options_dash(2) [OF assms(1)] by (auto simp: git_words_def Cons_eq_append_conv)
next
  assume "git_words subs (idx + 2) rest i w"
  then obtain opts args where "rest = opts @ w # args" "i = idx + 2 + length opts" "global_options opts"
    "\<not> prefix ''-'' w" "w \<in> set subs"
    by (auto simp: git_words_def)
  then show "git_words subs idx (arg # v # rest) i w"
    unfolding git_words_def using assms by (intro exI [of _ "arg # v # opts"] exI [of _ args]) simp
qed

lemma git_words_word:
  assumes "\<not> prefix ''-'' arg"
  shows "git_words subs idx (arg # rest) i w \<longleftrightarrow> i = idx \<and> w = arg \<and> arg \<in> set subs"
proof -
  have "\<not> is_git_global_option_with_inline_value arg" "\<not> is_git_global_option_with_value arg"
    using assms git_options_dash [of arg] by blast+
  with assms show ?thesis by (auto simp: git_words_def Cons_eq_append_conv)
qed

lemma git_subcommand_loop_words:
  "git_subcommand_loop subs idx False ws = Some (i, w) \<longleftrightarrow> git_words subs idx ws i w"
proof (induction ws arbitrary: idx rule: global_options.induct)
  case (2 arg rest)
  show ?case
  proof (cases "is_git_global_option_with_inline_value arg")
    case True
    then have "git_words subs idx (arg # rest) i w \<longleftrightarrow> git_words subs (idx + 1) rest i w"
      by (intro git_words_option) (simp_all add: git_options_dash(1))
    with "2.IH"(1) [OF True, of "idx + 1"] True show ?thesis by simp
  next
    case inline: False
    show ?thesis
    proof (cases "is_git_global_option_with_value arg")
      case True
      show ?thesis
      proof (cases rest)
        case Nil
        then show ?thesis
          using inline True git_options_dash(2) [OF True] by (auto simp: git_words_def Cons_eq_append_conv)
      next
        case (Cons v rest')
        then show ?thesis
          using "2.IH"(2) [OF inline True Cons, of "idx + 2"] inline True
          by (simp add: git_subcommand_loop_skip git_words_option_value)
      qed
    next
      case no_value: False
      show ?thesis
      proof (cases "prefix ''-'' arg")
        case True
        then have "git_words subs idx (arg # rest) i w \<longleftrightarrow> git_words subs (idx + 1) rest i w"
          using inline no_value by (intro git_words_option) simp_all
        with "2.IH"(3) [OF inline no_value, of "idx + 1"] inline no_value True show ?thesis by simp
      next
        case False
        then have "arg \<noteq> ''--''" by auto
        with False inline no_value git_words_word [OF False, of subs idx rest i w]
        show ?thesis by auto
      qed
    qed
  qed
qed (simp add: git_words_Nil)

lemma find_git_subcommand_iff:
  "find_git_subcommand cmd subs = Some (i, w) \<longleftrightarrow>
     (\<exists>cmd0 opts args. cmd = cmd0 # opts @ w # args \<and> executable_name_lookup_key cmd0 = Some ''git'' \<and>
        i = 1 + length opts \<and> global_options opts \<and> \<not> prefix ''-'' w \<and> w \<in> set subs)"
  by (cases cmd) (auto simp: find_git_subcommand_def git_subcommand_loop_words git_words_def)

subsection \<open>What makes a git command safe\<close>

lemma git_branch_loop_iff:
  "git_branch_loop saw args \<longleftrightarrow>
     list_all (\<lambda>arg. arg \<in> set git_branch_flags \<or> prefix ''--format='' arg) args \<and> (saw \<or> args \<noteq> [])"
  by (induction saw args rule: git_branch_loop.induct) auto

lemma git_branch_is_read_only_iff:
  "git_branch_is_read_only args \<longleftrightarrow>
     list_all (\<lambda>arg. arg \<in> set git_branch_flags \<or> prefix ''--format='' arg) args"
  by (cases args) (auto simp: git_branch_is_read_only_def git_branch_loop_iff)

definition read_only_git :: "string \<Rightarrow> string list \<Rightarrow> bool" where
  "read_only_git subcommand args =
     (git_subcommand_args_are_read_only args \<and>
      (subcommand \<in> set [''status'', ''log'', ''diff'', ''show''] \<or>
       subcommand = ''branch'' \<and>
       list_all (\<lambda>arg. arg \<in> set git_branch_flags \<or> prefix ''--format='' arg) args))"

definition git_subcommands :: "string list" where
  "git_subcommands = [''status'', ''log'', ''diff'', ''show'', ''branch'']"

lemma read_only_git_cases:
  "(if w \<in> set [''status'', ''log'', ''diff'', ''show''] then git_subcommand_args_are_read_only args
    else if w = ''branch'' then git_subcommand_args_are_read_only args \<and> git_branch_is_read_only args
    else False) \<longleftrightarrow> read_only_git w args"
proof (cases "w \<in> set [''status'', ''log'', ''diff'', ''show'']")
  case False
  then show ?thesis unfolding read_only_git_def git_branch_is_read_only_iff by argo
next
  case True
  then show ?thesis unfolding read_only_git_def by argo
qed

lemma git_key:
  assumes "executable_name_lookup_key cmd0 = Some ''git''"
  shows "is_safe_to_call_with_exec linux (cmd0 # ws) \<longleftrightarrow>
     \<not> git_has_config_override_global_option (cmd0 # ws) \<and>
     (case find_git_subcommand (cmd0 # ws) git_subcommands of
        None \<Rightarrow> False | Some (i, w) \<Rightarrow> read_only_git w (drop (i + 1) (cmd0 # ws)))"
proof -
  have other: "''git'' \<notin> set [''numfmt'', ''tac'']" "''git'' \<notin> set always_safe_programs"
    "''git'' \<noteq> ''base64''" "''git'' \<noteq> ''find''" "''git'' \<noteq> ''rg''"
    by (simp_all add: always_safe_programs_def)
  show ?thesis
    unfolding is_safe_to_call_with_exec_def list.case assms option.case Let_def read_only_git_cases
      git_subcommands_def [symmetric]
    using other by (auto split: if_splits)
qed

lemma read_only_git_subcommand: "read_only_git w args \<Longrightarrow> w \<in> set git_subcommands"
  by (auto simp: read_only_git_def git_subcommands_def)

lemma safe_git_iff:
  assumes "executable_name_lookup_key cmd0 = Some ''git''"
  shows "is_safe_to_call_with_exec linux (cmd0 # ws) \<longleftrightarrow>
    \<not> git_has_config_override_global_option (cmd0 # ws) \<and>
    (\<exists>opts w args. ws = opts @ w # args \<and> global_options opts \<and> \<not> prefix ''-'' w \<and> read_only_git w args)"
proof -
  have "(case find_git_subcommand (cmd0 # ws) git_subcommands of
        None \<Rightarrow> False | Some (i, w) \<Rightarrow> read_only_git w (drop (i + 1) (cmd0 # ws))) \<longleftrightarrow>
      (\<exists>i w. find_git_subcommand (cmd0 # ws) git_subcommands = Some (i, w) \<and>
             read_only_git w (drop (i + 1) (cmd0 # ws)))"
    by (auto split: option.split)
  also have "\<dots> \<longleftrightarrow> (\<exists>opts w args. ws = opts @ w # args \<and> global_options opts \<and> \<not> prefix ''-'' w \<and>
      read_only_git w args)"
    unfolding find_git_subcommand_iff using assms read_only_git_subcommand by fastforce
  finally show ?thesis unfolding git_key [OF assms] by blast
qed

text \<open>A git command runs without asking exactly when it overrides no configuration and reads:
  after global options, some followed by their value, comes one of five subcommands, whose
  arguments have none of the flags that write or run a program, and which for \<open>branch\<close> are all
  flags of a listing.\<close>

lemma safe_git_commands_only_read:
  "is_safe_to_call_with_exec linux (''git'' # ws) \<longleftrightarrow>
    \<not> git_has_config_override_global_option (''git'' # ws) \<and>
    (\<exists>opts w args. ws = opts @ w # args \<and> global_options opts \<and> \<not> prefix ''-'' w \<and> read_only_git w args)"
proof (rule safe_git_iff)
  show "executable_name_lookup_key ''git'' = Some ''git''"
    unfolding executable_name_lookup_key_def by (rule path_name_bare) simp_all
qed

subsection \<open>The argument of sed\<close>

lemma split_char_one: "split_char c s = [x] \<longleftrightarrow> c \<notin> set s \<and> x = s"
proof -
  have "length (split_char c s) = Suc (count_list s c)"
    by (induction c s rule: split_char.induct) (auto split: list.splits)
  then show ?thesis
    by (metis split_char_absent count_list_0_iff length_Cons list.inject list.size(3) nat.inject)
qed

lemma split_char_two:
  "split_char c s = [a, b] \<longleftrightarrow> s = a @ c # b \<and> c \<notin> set a \<and> c \<notin> set b"
proof (induction s arbitrary: a)
  case (Cons y s)
  show ?case
  proof (cases "y = c")
    case True
    then show ?thesis by (cases a) (auto simp: split_char_one)
  next
    case False
    obtain l ls where l: "split_char c s = l # ls"
      using split_char_nonempty [of c s] by (cases "split_char c s") auto
    show ?thesis
    proof (cases a)
      case Nil
      then show ?thesis using False l by auto
    next
      case (Cons x a')
      have "split_char c (y # s) = [a, b] \<longleftrightarrow> x = y \<and> split_char c s = [a', b]"
        using False l Cons by auto
      also have "\<dots> \<longleftrightarrow> y # s = a @ c # b \<and> c \<notin> set a \<and> c \<notin> set b"
        unfolding Cons.IH using False Cons by auto
      finally show ?thesis .
    qed
  qed
qed auto

definition digits :: "string \<Rightarrow> bool" where
  "digits s = (s \<noteq> [] \<and> list_all is_ascii_digit s)"

lemma digits_no_comma: "digits s \<Longrightarrow> CHR '','' \<notin> set s"
  by (auto simp: digits_def list_all_iff is_ascii_digit_def)

text \<open>The arguments of \<open>sed -n\<close> that are let through are the printing of a line, or of a range of
  lines, by their numbers, and nothing else.\<close>

lemma sed_argument_grammar:
  "is_valid_sed_n_arg (Some s) \<longleftrightarrow>
     (\<exists>n. digits n \<and> s = n @ ''p'') \<or> (\<exists>a b. digits a \<and> digits b \<and> s = a @ '','' @ b @ ''p'')"
proof (cases "suffix ''p'' s")
  case True
  then obtain core where s: "s = core @ ''p''" by (auto simp: suffix_def)
  have "is_valid_sed_n_arg (Some s) \<longleftrightarrow>
      (\<exists>n. split_char (CHR '','') core = [n] \<and> digits n) \<or>
      (\<exists>a b. split_char (CHR '','') core = [a, b] \<and> digits a \<and> digits b)"
    by (auto simp: is_valid_sed_n_arg_def strip_suffix_def s digits_def suffix_def split: list.splits)
  also have "\<dots> \<longleftrightarrow> (\<exists>n. digits n \<and> core = n) \<or> (\<exists>a b. digits a \<and> digits b \<and> core = a @ '','' @ b)"
    using digits_no_comma by (auto simp: split_char_one split_char_two)
  finally show ?thesis by (simp add: s)
next
  case False
  then show ?thesis by (auto simp: is_valid_sed_n_arg_def strip_suffix_def suffix_def split: option.split)
qed

subsection \<open>A safe command is not dangerous\<close>

lemma safe_not_rm_sudo:
  assumes "is_safe_to_call_with_exec linux (cmd0 # args)"
  shows "cmd0 \<noteq> ''rm'' \<and> cmd0 \<noteq> ''sudo''"
proof -
  have key: "executable_name_lookup_key n = Some n" if "n \<in> {''rm'', ''sudo''}" for n
    unfolding executable_name_lookup_key_def using that by (intro path_name_bare) auto
  have no: "\<not> is_safe_to_call_with_exec linux (n # args)" if n: "n \<in> {''rm'', ''sudo''}" for n
  proof -
    have "n \<notin> set [''numfmt'', ''tac'']" "n \<notin> set always_safe_programs"
      "n \<noteq> ''base64''" "n \<noteq> ''find''" "n \<noteq> ''rg''" "n \<noteq> ''git''" "n \<noteq> ''sed''"
      using n by (auto simp: always_safe_programs_def)
    then show ?thesis by (simp only: is_safe_to_call_with_exec_def list.case key [OF n] option.case if_False simp_thms)
  qed
  from no [of cmd0] assms show ?thesis by auto
qed

lemma safe_exec_not_dangerous:
  "is_safe_to_call_with_exec linux cmd \<Longrightarrow> \<not> is_dangerous_to_call_with_exec cmd"
  by (cases cmd) (auto dest: safe_not_rm_sudo)

lemma stem_prefix: "prefix (name_stem n) n"
  by (auto simp: name_stem_def prefix_def dest: rsplit_once_length split: option.splits)

text \<open>The name of a shell that reads a script starts with \<open>bash\<close>, \<open>sh\<close> or \<open>zsh\<close>.\<close>

definition shell_like :: "string \<Rightarrow> bool" where
  "shell_like n = list_ex (\<lambda>p. prefix p n) [''bash'', ''sh'', ''zsh'']"

lemma detect_shell_names:
  "detect_shell_type ''cmd'' = Some Cmd" "detect_shell_type ''pwsh'' = Some PowerShell"
  "detect_shell_type ''powershell'' = Some PowerShell"
  by (subst detect_shell_type.simps, simp)+

lemma bash_like_name:
  "detect_shell_type s \<in> {Some Zsh, Some Bash, Some Sh} \<Longrightarrow>
   \<exists>n. path_name s = Some n \<and> shell_like n"
proof (induction s rule: detect_shell_type.induct)
  case (1 s)
  show ?case
  proof (cases "s \<in> {''zsh'', ''sh'', ''cmd'', ''bash'', ''pwsh'', ''powershell''}")
    case True
    with "1.prems" have "s \<in> {''zsh'', ''sh'', ''bash''}"
      using detect_shell_names by (elim insertE) simp_all
    moreover from this have "path_name s = Some s" by (intro path_name_bare) auto
    ultimately show ?thesis by (auto simp: shell_like_def)
  next
    case False
    then have nots: "s \<noteq> ''zsh''" "s \<noteq> ''sh''" "s \<noteq> ''cmd''" "s \<noteq> ''bash''" "s \<noteq> ''pwsh''" "s \<noteq> ''powershell''"
      by simp_all
    have "detect_shell_type s = (case path_stem s of
        Some m \<Rightarrow> if path_components m \<noteq> path_components s then detect_shell_type m else None | None \<Rightarrow> None)"
      by (subst detect_shell_type.simps) (simp only: nots if_False)
    with "1.prems" obtain m where m: "path_stem s = Some m" "path_components m \<noteq> path_components s"
      "detect_shell_type m \<in> {Some Zsh, Some Bash, Some Sh}"
      by (cases "path_stem s") (auto split: if_splits)
    obtain k where k: "path_name m = Some k" "shell_like k"
      using "1.IH" [OF nots m] by blast
    from m(1) obtain n where n: "path_name s = Some n" "m = name_stem n" by (auto simp: path_stem_def)
    have "prefix m n" unfolding n(2) by (rule stem_prefix)
    moreover have "CHR ''/'' \<notin> set n" using path_name_piece [OF n(1)] split_char_pieces by blast
    ultimately have slash: "CHR ''/'' \<notin> set m" by (auto dest: set_mono_prefix)
    have "k \<in> set (split_char (CHR ''/'') m)" using path_name_piece [OF k(1)] by blast
    with slash have "k = m" by (simp add: split_char_absent)
    with \<open>prefix m n\<close> k(2) have "shell_like n" by (auto simp: shell_like_def intro: prefix_order.trans)
    with n(1) show ?thesis by blast
  qed
qed

lemma powershell_not_bash:
  assumes "is_powershell_executable exe"
  shows "detect_shell_type exe \<notin> {Some Zsh, Some Bash, Some Sh}"
proof
  assume "detect_shell_type exe \<in> {Some Zsh, Some Bash, Some Sh}"
  then obtain n where n: "path_name exe = Some n" "shell_like n"
    using bash_like_name by blast
  from assms n(1) have "to_ascii_lowercase n \<in> {''powershell'', ''powershell.exe'', ''pwsh'', ''pwsh.exe''}"
    by (simp add: is_powershell_executable_def)
  then have "hd (to_ascii_lowercase n) = CHR ''p''" by auto
  moreover from n(2) obtain c n' where "n = c # n'" "c \<in> {CHR ''b'', CHR ''s'', CHR ''z''}"
    by (auto simp: shell_like_def prefix_def)
  ultimately show False by (auto simp: to_ascii_lowercase_def ascii_lower_def)
qed

lemma shell_not_safe_exec:
  assumes "detect_shell_type shell \<in> {Some Zsh, Some Bash, Some Sh}"
  shows "\<not> is_safe_to_call_with_exec linux (shell # args)"
proof -
  obtain n where n: "path_name shell = Some n" "shell_like n" using bash_like_name [OF assms] by blast
  have key: "executable_name_lookup_key shell = Some n" by (simp add: executable_name_lookup_key_def n)
  have "n \<notin> set [''numfmt'', ''tac'']" "n \<notin> set always_safe_programs"
    "n \<noteq> ''base64''" "n \<noteq> ''find''" "n \<noteq> ''rg''" "n \<noteq> ''git''" "n \<noteq> ''sed''"
    using n(2) by (auto simp: always_safe_programs_def shell_like_def)
  then show ?thesis by (simp only: is_safe_to_call_with_exec_def list.case key option.case if_False simp_thms)
qed

lemma zsh_as_bash_script:
  assumes "extract_bash_command cmd = Some (shell, script)" and "script \<noteq> ''zsh''"
  shows "\<exists>shell'. extract_bash_command (map (\<lambda>s. if s = ''zsh'' then ''bash'' else s) cmd) = Some (shell', script)"
proof -
  from assms(1) obtain flag where cmd: "cmd = [shell, flag, script]" and flag: "flag \<in> {''-lc'', ''-c''}"
    and sh: "detect_shell_type shell \<in> {Some Zsh, Some Bash, Some Sh}"
    by (auto simp: extract_bash_command_def split: list.splits if_splits)
  have "detect_shell_type ''bash'' = Some Bash" by (subst detect_shell_type.simps) simp
  with sh have "detect_shell_type (if shell = ''zsh'' then ''bash'' else shell) \<in> {Some Zsh, Some Bash, Some Sh}" by simp
  moreover have "(if flag = ''zsh'' then ''bash'' else flag) = flag" using flag by auto
  ultimately show ?thesis using flag assms(2) by (simp add: cmd extract_bash_command_def)
qed

lemma dangerous_first_word: "is_dangerous_to_call_with_exec cmd \<Longrightarrow> \<exists>args. cmd = ''rm'' # args \<or> cmd = ''sudo'' # args"
  by (cases cmd) (auto split: if_splits)

lemma rm_sudo_not_shell:
  assumes "n \<in> {''rm'', ''sudo''}"
  shows "\<not> is_powershell_executable n" and "detect_shell_type n \<notin> {Some Zsh, Some Bash, Some Sh}"
proof -
  have name: "path_name n = Some n" using assms by (intro path_name_bare) auto
  then show "\<not> is_powershell_executable n"
    using assms by (auto simp: is_powershell_executable_def to_ascii_lowercase_def ascii_lower_def)
  have "path_stem n = Some n"
    using assms name by (auto simp: path_stem_def name_stem_def rsplit_once_def split_once_def)
  moreover have "n \<noteq> ''zsh''" "n \<noteq> ''sh''" "n \<noteq> ''cmd''" "n \<noteq> ''bash''" "n \<noteq> ''pwsh''" "n \<noteq> ''powershell''"
    using assms by auto
  ultimately show "detect_shell_type n \<notin> {Some Zsh, Some Bash, Some Sh}"
    by (subst detect_shell_type.simps) simp
qed

lemma safe_not_dangerous_aux:
  assumes safe: "is_known_safe_command env cmd" and zsh: "\<forall>shell. extract_bash_command cmd \<noteq> Some (shell, ''zsh'')"
  shows "\<not> command_might_be_dangerous env cmd"
proof -
  let ?cmd = "map (\<lambda>s. if s = ''zsh'' then ''bash'' else s) cmd"
  have direct: "\<not> is_dangerous_to_call_with_exec cmd"
  proof
    assume "is_dangerous_to_call_with_exec cmd"
    then obtain n args where n: "cmd = n # args" "n \<in> {''rm'', ''sudo''}" using dangerous_first_word by blast
    then have c: "?cmd = n # map (\<lambda>s. if s = ''zsh'' then ''bash'' else s) args" by auto
    have "\<not> is_safe_command_windows (powershell_run env) ?cmd"
      unfolding c using rm_sudo_not_shell(1) [OF n(2)]
      by (simp add: is_safe_command_windows_def try_parse_powershell_command_sequence_def)
    moreover have "\<not> is_safe_to_call_with_exec (target_linux env) ?cmd"
      unfolding c using safe_not_rm_sudo n(2) by blast
    moreover have "extract_bash_command ?cmd = None"
      unfolding c using rm_sudo_not_shell(2) [OF n(2)]
      by (auto simp: extract_bash_command_def split: list.splits)
    then have "parse_shell_lc_plain_commands (shell_parse env) ?cmd = None"
      by (simp add: parse_shell_lc_plain_commands_def)
    ultimately show False using safe by (simp add: is_known_safe_command_def Let_def)
  qed
  have script: "list_all (\<lambda>c. \<not> is_dangerous_to_call_with_exec c) cmds"
    if parsed: "parse_shell_lc_plain_commands (shell_parse env) cmd = Some cmds" for cmds
  proof -
    from parsed obtain shell script where ex: "extract_bash_command cmd = Some (shell, script)"
      by (auto simp: parse_shell_lc_plain_commands_def bind_eq_Some_conv)
    with zsh have "script \<noteq> ''zsh''" by auto
    from zsh_as_bash_script [OF ex this] obtain shell' where
      ex': "extract_bash_command ?cmd = Some (shell', script)" by blast
    with parsed ex have parsed': "parse_shell_lc_plain_commands (shell_parse env) ?cmd = Some cmds"
      by (simp add: parse_shell_lc_plain_commands_def)
    from ex' obtain flag where c: "?cmd = [shell', flag, script]"
      and sh': "detect_shell_type shell' \<in> {Some Zsh, Some Bash, Some Sh}"
      by (auto simp: extract_bash_command_def split: list.splits if_splits)
    have "\<not> is_powershell_executable shell'" using powershell_not_bash sh' by blast
    then have "\<not> is_safe_command_windows (powershell_run env) ?cmd"
      by (simp add: c is_safe_command_windows_def try_parse_powershell_command_sequence_def)
    moreover have "\<not> is_safe_to_call_with_exec (target_linux env) ?cmd"
      unfolding c by (rule shell_not_safe_exec [OF sh'])
    ultimately have "list_all (is_safe_to_call_with_exec (target_linux env)) cmds"
      using safe parsed' by (simp add: is_known_safe_command_def Let_def)
    then show ?thesis by (auto simp: list_all_iff dest: safe_exec_not_dangerous)
  qed
  show ?thesis
    using direct script
    by (auto simp: command_might_be_dangerous_def list_all_iff list_ex_iff split: option.split)
qed

text \<open>What is known to be safe is never what might be dangerous: no command, and no script of
  plain commands, both runs without asking and is one that always asks.  (The safe check reads
  the word \<open>zsh\<close> as \<open>bash\<close>; a script that is this word is left out, since the parser is free to
  answer differently to the two.)\<close>

lemma safe_commands_are_not_dangerous:
  assumes "is_known_safe_command env cmd"
    and "\<forall>shell. extract_bash_command cmd \<noteq> Some (shell, ''zsh'')"
  shows "\<not> command_might_be_dangerous env cmd"
  using assms by (rule safe_not_dangerous_aux)

lemma detect_bash: "detect_shell_type ''bash'' = Some Bash"
  by (subst detect_shell_type.simps) simp

subsection \<open>What the checks let through\<close>

text \<open>The flag that pages the output of git, and so runs a pager, is refused after the subcommand, where
  git does not accept it; before the subcommand, where it belongs, it is skipped.\<close>

lemma paginate_only_refused_after_subcommand:
  "is_safe_to_call_with_exec linux [''git'', ''--paginate'', ''log''] \<and>
   \<not> is_safe_to_call_with_exec linux [''git'', ''log'', ''--paginate'']"
proof -
  have "list_all (\<lambda>linux. is_safe_to_call_with_exec linux [''git'', ''--paginate'', ''log''] \<and>
      \<not> is_safe_to_call_with_exec linux [''git'', ''log'', ''--paginate'']) [True, False]"
    by code_simp
  then show ?thesis by (cases linux) auto
qed

text \<open>The fourth word of a \<open>sed\<close> command is not looked at; it may be another script (\<open>-e\<close>).\<close>

lemma sed_fourth_word_is_free:
  "is_safe_to_call_with_exec linux [''sed'', ''-n'', ''1p'', w]"
proof -
  have key: "executable_name_lookup_key ''sed'' = Some ''sed''"
    unfolding executable_name_lookup_key_def by (rule path_name_bare) simp_all
  have arg: "is_valid_sed_n_arg (Some ''1p'')" by code_simp
  have "''sed'' \<notin> set [''numfmt'', ''tac'']" "''sed'' \<notin> set always_safe_programs"
    "''sed'' \<noteq> ''base64''" "''sed'' \<noteq> ''find''" "''sed'' \<noteq> ''rg''" "''sed'' \<noteq> ''git''"
    by (simp_all add: always_safe_programs_def)
  then show ?thesis
    by (simp add: is_safe_to_call_with_exec_def key get_word_def arg)
qed

end
