(* ===== verification/Absolute_Path.thy ===== *)
theory Absolute_Path
  imports Unix_Path Rust_Base
begin

section \<open>Absolute paths\<close>

text \<open>
  A model of \<^verbatim>\<open>codex-rs/utils/absolute-path/src/lib.rs\<close> on Unix.  A path is the list of its
  components: what \<^verbatim>\<open>Path\<close> compares, and what \<open>push\<close>, \<open>pop\<close>, \<open>join\<close>, \<open>parent\<close> and \<open>starts_with\<close>
  work on.  The home directory and the directory of the process are parameters.
\<close>

type_synonym path = "path_component list"

definition is_absolute :: "path \<Rightarrow> bool" where
  "is_absolute p = (case p of RootDir # _ \<Rightarrow> True | _ \<Rightarrow> False)"

definition path_parent :: "path \<Rightarrow> path option" where
  "path_parent p = (if p = [] \<or> last p = RootDir then None else Some (butlast p))"

definition path_join :: "path \<Rightarrow> path \<Rightarrow> path" where
  "path_join base p =
     (if is_absolute p then p else if base = [] then p else base @ filter (\<lambda>c. c \<noteq> CurDir) p)"

definition starts_with :: "path \<Rightarrow> path \<Rightarrow> bool" where
  "starts_with p base = prefix base p"

datatype path_error = BasePathNotAbsolute | EscapesRoot | NotAbsolute | NoCurrentDir

record path_env =
  home_dir :: "path option"
  process_dir :: "path option"

definition maybe_expand_home_directory :: "path_env \<Rightarrow> path \<Rightarrow> path" where
  "maybe_expand_home_directory env p =
     (case home_dir env of
        None \<Rightarrow> p
      | Some home \<Rightarrow>
          (case p of
             NormalComponent n # rest \<Rightarrow> if n = ''~'' then path_join home rest else p
           | _ \<Rightarrow> p))"

fun normalize_loop :: "path \<Rightarrow> path \<Rightarrow> (path_error, path) result" where
  "normalize_loop [] normalized = Inr normalized"
| "normalize_loop (component # rest) normalized =
     (case component of
        RootDir \<Rightarrow> normalize_loop rest [RootDir]
      | CurDir \<Rightarrow> normalize_loop rest normalized
      | ParentDir \<Rightarrow>
          (case path_parent normalized of
             None \<Rightarrow> Inl EscapesRoot
           | Some popped \<Rightarrow> normalize_loop rest popped)
      | NormalComponent segment \<Rightarrow> normalize_loop rest (normalized @ [NormalComponent segment]))"

definition normalize_path :: "path_env \<Rightarrow> path \<Rightarrow> path option \<Rightarrow> (path_error, path) result" where
  "normalize_path env p base_path =
     (case (if is_absolute p then Inr []
            else (case base_path of
                    Some base \<Rightarrow> if \<not> is_absolute base then Inl BasePathNotAbsolute else Inr base
                  | None \<Rightarrow> (case process_dir env of None \<Rightarrow> Inl NoCurrentDir | Some d \<Rightarrow> Inr d))) of
        Inl e \<Rightarrow> Inl e
      | Inr start \<Rightarrow>
          (case normalize_loop p start of
             Inl e \<Rightarrow> Inl e
           | Inr normalized \<Rightarrow> if is_absolute normalized then Inr normalized else Inl NotAbsolute))"

definition resolve_path_against_base :: "path_env \<Rightarrow> path \<Rightarrow> path \<Rightarrow> (path_error, path) result" where
  "resolve_path_against_base env p base =
     normalize_path env (maybe_expand_home_directory env p) (Some base)"

definition from_absolute_path :: "path_env \<Rightarrow> path \<Rightarrow> (path_error, path) result" where
  "from_absolute_path env p = normalize_path env (maybe_expand_home_directory env p) None"

text \<open>Reading a path, with the base that the guard has set for the thread.\<close>

definition deserialize_path :: "path_env \<Rightarrow> path option \<Rightarrow> path \<Rightarrow> (path_error option, path) result" where
  "deserialize_path env guard p =
     (let custom = (\<lambda>r. case r of Inl e \<Rightarrow> Inl (Some e) | Inr q \<Rightarrow> Inr q) in
      case guard of
        Some base \<Rightarrow> custom (resolve_path_against_base env p base)
      | None \<Rightarrow> if is_absolute p then custom (from_absolute_path env p) else Inl None)"

subsection \<open>Normalised paths\<close>

text \<open>What the type promises: an absolute path without \<open>.\<close> and \<open>..\<close>.\<close>

definition normalised :: "path \<Rightarrow> bool" where
  "normalised p = (\<exists>names. p = RootDir # map NormalComponent names)"

lemma normalised_code [code]:
  "normalised p = (case p of
     [] \<Rightarrow> False
   | c # cs \<Rightarrow> c = RootDir \<and> list_all (\<lambda>c. case c of NormalComponent _ \<Rightarrow> True | _ \<Rightarrow> False) cs)"
proof (cases p)
  case (Cons c cs)
  have "(\<exists>names. cs = map NormalComponent names) \<longleftrightarrow>
      list_all (\<lambda>c. case c of NormalComponent _ \<Rightarrow> True | _ \<Rightarrow> False) cs"
  proof (induction cs)
    case (Cons c cs)
    then show ?case by (cases c) (auto simp: Cons_eq_map_conv)
  qed simp
  then show ?thesis by (auto simp: normalised_def Cons)
qed (simp add: normalised_def)

lemma normalised_absolute: "normalised p \<Longrightarrow> is_absolute p"
  by (auto simp: normalised_def is_absolute_def)

lemma normalised_push: "normalised p \<Longrightarrow> normalised (p @ [NormalComponent n])"
proof -
  assume "normalised p"
  then obtain names where "p = RootDir # map NormalComponent names" by (auto simp: normalised_def)
  then have "p @ [NormalComponent n] = RootDir # map NormalComponent (names @ [n])" by simp
  then show ?thesis unfolding normalised_def by blast
qed

lemma normalised_pop: "normalised p \<Longrightarrow> path_parent p = Some q \<Longrightarrow> normalised q"
proof -
  assume "normalised p" and q: "path_parent p = Some q"
  then obtain names where p: "p = RootDir # map NormalComponent names" by (auto simp: normalised_def)
  show ?thesis
  proof (cases "names = []")
    case False
    with p q have "q = RootDir # map NormalComponent (butlast names)"
      by (auto simp: path_parent_def map_butlast split: if_splits)
    then show ?thesis unfolding normalised_def by blast
  qed (use p q in \<open>simp add: path_parent_def\<close>)
qed

lemma normalize_loop_normalised:
  "normalize_loop p acc = Inr q \<Longrightarrow> normalised acc \<Longrightarrow> normalised q"
proof (induction p acc rule: normalize_loop.induct)
  case (2 c rest acc)
  show ?case
  proof (cases c)
    case RootDir
    have "normalised [RootDir]" by (simp add: normalised_def)
    with 2 RootDir show ?thesis by simp
  qed (use 2 normalised_push normalised_pop in \<open>auto split: option.splits\<close>)
qed simp

lemma normalize_absolute_loop:
  "is_absolute p \<Longrightarrow> normalize_loop p [] = normalize_loop (tl p) [RootDir]"
  by (cases p) (auto simp: is_absolute_def split: path_component.splits)

lemma normalize_path_normalised:
  assumes "normalize_path env p base = Inr q"
    and "is_absolute p \<or> (case base of Some b \<Rightarrow> normalised b | None \<Rightarrow> \<exists>d. process_dir env = Some d \<and> normalised d)"
  shows "normalised q"
proof (cases "is_absolute p")
  case True
  then have "normalize_loop (tl p) [RootDir] = Inr q"
    using assms(1) by (auto simp: normalize_path_def normalize_absolute_loop split: sum.splits if_splits)
  then show ?thesis by (rule normalize_loop_normalised) (simp add: normalised_def)
next
  case False
  with assms obtain start where "normalised start" "normalize_loop p start = Inr q"
    by (auto simp: normalize_path_def split: sum.splits if_splits option.splits)
  then show ?thesis by (blast intro: normalize_loop_normalised)
qed

lemma normalize_loop_names:
  "normalize_loop (map NormalComponent names @ rest) acc = normalize_loop rest (acc @ map NormalComponent names)"
  by (induction names arbitrary: acc) simp_all

lemma normalize_loop_base: "normalised base \<Longrightarrow> normalize_loop (base @ p) acc = normalize_loop p base"
  by (auto simp: normalised_def normalize_loop_names)

lemma normalize_loop_curdir: "normalize_loop (filter (\<lambda>c. c \<noteq> CurDir) p) acc = normalize_loop p acc"
  by (induction p acc rule: normalize_loop.induct) (auto split: path_component.splits option.splits)

text \<open>A home directory expands a path that starts with \<^verbatim>\<open>~\<close>; other paths stand for themselves.\<close>

definition no_home :: "path \<Rightarrow> bool" where
  "no_home p = (case p of NormalComponent n # _ \<Rightarrow> n \<noteq> ''~'' | _ \<Rightarrow> True)"

lemma expand_home_id: "no_home p \<Longrightarrow> maybe_expand_home_directory env p = p"
  by (auto simp: maybe_expand_home_directory_def no_home_def split: option.splits list.splits path_component.splits)

lemma absolute_no_home: "is_absolute p \<Longrightarrow> no_home p"
  by (auto simp: is_absolute_def no_home_def split: list.splits path_component.splits)

lemma from_absolute_normalised:
  assumes "normalised p"
  shows "from_absolute_path env p = Inr p"
  using assms normalised_absolute [OF assms] absolute_no_home [of p] normalize_loop_base [OF assms, of "[]" "[]"]
  by (simp add: from_absolute_path_def expand_home_id normalize_path_def)

lemma join_child: "normalised base \<Longrightarrow> n \<noteq> ''~'' \<Longrightarrow>
   resolve_path_against_base env [NormalComponent n] base = Inr (base @ [NormalComponent n])"
  using normalised_absolute [of base] normalised_push [of base n] normalised_absolute
  by (simp add: resolve_path_against_base_def expand_home_id no_home_def normalize_path_def is_absolute_def
      [of "[NormalComponent n]"])

text \<open>Against a normalised base paths are absolute and normalised: resolving any path against it,
  or reading an absolute one below it, gives a path from the root without \<open>.\<close> and \<open>..\<close>, if it gives one; the
  base itself is read as it is.\<close>

lemma absolute_paths_are_normalised:
  assumes "normalised base"
  shows "(case resolve_path_against_base env p base of Inr q \<Rightarrow> normalised q | Inl _ \<Rightarrow> True) \<and>
    (case from_absolute_path env (path_join base p) of Inr q \<Rightarrow> normalised q | Inl _ \<Rightarrow> True) \<and>
    from_absolute_path env base = Inr base"
proof (intro conjI)
  show "case resolve_path_against_base env p base of Inr q \<Rightarrow> normalised q | Inl _ \<Rightarrow> True"
    using normalize_path_normalised [of env "maybe_expand_home_directory env p" "Some base"] assms
    by (auto simp: resolve_path_against_base_def split: sum.splits)
  have abs: "is_absolute (path_join base p)"
    using normalised_absolute [OF assms] by (auto simp: path_join_def is_absolute_def split: list.splits path_component.splits)
  show "case from_absolute_path env (path_join base p) of Inr q \<Rightarrow> normalised q | Inl _ \<Rightarrow> True"
    using normalize_path_normalised [of env "path_join base p" None] abs absolute_no_home [OF abs]
    by (auto simp: from_absolute_path_def expand_home_id split: sum.splits)
  show "from_absolute_path env base = Inr base" by (rule from_absolute_normalised [OF assms])
qed

text \<open>Resolving against a normalised base is joining and normalising.\<close>

lemma resolve_is_join:
  assumes "normalised base" and "no_home p"
  shows "resolve_path_against_base env p base = from_absolute_path env (path_join base p)"
proof -
  have abs: "is_absolute (path_join base p)"
    using normalised_absolute [OF assms(1)] by (auto simp: path_join_def is_absolute_def split: list.splits path_component.splits)
  have ne: "base \<noteq> []" using assms(1) by (auto simp: normalised_def)
  have "normalize_loop (path_join base p) [] = normalize_loop p (if is_absolute p then [] else base)"
    using ne normalize_loop_base [OF assms(1)] normalize_loop_curdir by (simp add: path_join_def)
  then show ?thesis
    using abs absolute_no_home [OF abs] assms normalised_absolute [OF assms(1)]
    by (simp add: resolve_path_against_base_def from_absolute_path_def expand_home_id normalize_path_def)
qed

text \<open>A base that is absolute but not normalised is kept as it is.\<close>

lemma unnormalised_base_is_kept:
  "resolve_path_against_base \<lparr>home_dir = None, process_dir = None\<rparr> [NormalComponent ''x'']
     [RootDir, NormalComponent ''a'', ParentDir] = Inr [RootDir, NormalComponent ''a'', ParentDir, NormalComponent ''x'']"
  by code_simp

end
