(* ===== verification/Sandbox_Policy.thy ===== *)
theory Sandbox_Policy
  imports Absolute_Path
begin

section \<open>Sandbox policies\<close>

text \<open>
  A model of the sandbox policies of \<^verbatim>\<open>codex-rs/protocol/src/protocol.rs\<close>: what a policy lets be
  read and written, with the roots resolved against the working directory, and the parts of a
  writable root that stay read-only.  The environment and the file system are parameters.
\<close>

record fs_env =
  path_env :: path_env
  tmpdir_var :: "path option"
  is_dir :: "path \<Rightarrow> bool"
  is_file :: "path \<Rightarrow> bool"
  path_exists :: "path \<Rightarrow> bool"
  read_text :: "path \<Rightarrow> string option"

datatype network_access = RestrictedNetwork | EnabledNetwork

definition network_access_is_enabled :: "network_access \<Rightarrow> bool" where
  "network_access_is_enabled a = (a = EnabledNetwork)"

datatype read_only_access =
    RestrictedReads (includes_platform_defaults: bool) (explicit_roots: "path list")
  | FullAccess

datatype sandbox_policy =
    DangerFullAccess
  | ReadOnly read_only_access bool
  | ExternalSandboxPolicy network_access
  | WorkspaceWrite (ws_writable_roots: "path list") (ws_read_only_access: read_only_access)
      (ws_network_access: bool) (ws_exclude_tmpdir_env_var: bool) (ws_exclude_slash_tmp: bool)

record writable_root =
  root :: path
  read_only_subpaths :: "path list"

definition is_path_writable :: "writable_root \<Rightarrow> path \<Rightarrow> bool" where
  "is_path_writable r p =
     (if \<not> starts_with p (root r) then False
      else \<not> list_ex (\<lambda>subpath. starts_with p subpath) (read_only_subpaths r))"

text \<open>Keeping the first occurrences.\<close>

fun dedup_loop :: "path set \<Rightarrow> path list \<Rightarrow> path list" where
  "dedup_loop seen [] = []"
| "dedup_loop seen (p # ps) =
     (if p \<notin> seen then p # dedup_loop (insert p seen) ps else dedup_loop (insert p seen) ps)"

definition dedup_absolute_paths :: "path list \<Rightarrow> path list" where
  "dedup_absolute_paths ps = dedup_loop {} ps"

subsection \<open>The read-only parts of a writable root\<close>

definition path_file_name_is :: "path \<Rightarrow> string \<Rightarrow> bool" where
  "path_file_name_is p n = (p \<noteq> [] \<and> last p = NormalComponent n)"

definition is_git_pointer_file :: "fs_env \<Rightarrow> path \<Rightarrow> bool" where
  "is_git_pointer_file fs p = (is_file fs p \<and> path_file_name_is p ''.git'')"

definition resolve_gitdir_from_file :: "fs_env \<Rightarrow> path \<Rightarrow> path option" where
  "resolve_gitdir_from_file fs dot_git =
     (case read_text fs dot_git of
        None \<Rightarrow> None
      | Some contents \<Rightarrow>
          (case split_once (CHR '':'') (str_trim contents) of
             None \<Rightarrow> None
           | Some (_, gitdir_raw) \<Rightarrow>
               (let gitdir_raw = str_trim gitdir_raw in
                if gitdir_raw = [] then None
                else (case path_parent dot_git of
                        None \<Rightarrow> None
                      | Some base \<Rightarrow>
                          (case resolve_path_against_base (path_env fs) (path_components gitdir_raw) base of
                             Inl _ \<Rightarrow> None
                           | Inr gitdir_path \<Rightarrow>
                               if \<not> path_exists fs gitdir_path then None else Some gitdir_path)))))"

text \<open>Joining a name to an absolute path; \<open>expect\<close> does not panic.\<close>

definition join_name :: "path \<Rightarrow> string \<Rightarrow> path" where
  "join_name p n = p @ [NormalComponent n]"

definition default_read_only_subpaths_for_writable_root :: "fs_env \<Rightarrow> path \<Rightarrow> path list" where
  "default_read_only_subpaths_for_writable_root fs writable_root =
     (let top_level_git = join_name writable_root ''.git'';
          top_level_git_is_file = is_file fs top_level_git;
          top_level_git_is_dir = is_dir fs top_level_git;
          git =
            (if top_level_git_is_dir \<or> top_level_git_is_file then
               (if top_level_git_is_file \<and> is_git_pointer_file fs top_level_git
                then (case resolve_gitdir_from_file fs top_level_git of Some gitdir \<Rightarrow> [gitdir] | None \<Rightarrow> [])
                else []) @ [top_level_git]
             else []);
          dirs = filter (is_dir fs) (map (join_name writable_root) [''.agents'', ''.codex''])
      in dedup_absolute_paths (git @ dirs))"

subsection \<open>What a policy allows\<close>

definition readonly_full_disk_read :: "read_only_access \<Rightarrow> bool" where
  "readonly_full_disk_read a = (a = FullAccess)"

definition readonly_platform_defaults :: "read_only_access \<Rightarrow> bool" where
  "readonly_platform_defaults a = (case a of RestrictedReads b _ \<Rightarrow> b | FullAccess \<Rightarrow> False)"

definition readonly_roots :: "fs_env \<Rightarrow> read_only_access \<Rightarrow> path \<Rightarrow> path list" where
  "readonly_roots fs a cwd =
     (case a of
        FullAccess \<Rightarrow> []
      | RestrictedReads _ readable_roots \<Rightarrow>
          dedup_absolute_paths
            (readable_roots @ (case from_absolute_path (path_env fs) cwd of Inr cwd_root \<Rightarrow> [cwd_root] | Inl _ \<Rightarrow> [])))"

definition new_read_only_policy :: sandbox_policy where
  "new_read_only_policy = ReadOnly FullAccess False"

definition new_workspace_write_policy :: sandbox_policy where
  "new_workspace_write_policy = WorkspaceWrite [] FullAccess False False False"

fun policy_full_disk_read :: "sandbox_policy \<Rightarrow> bool" where
  "policy_full_disk_read DangerFullAccess = True"
| "policy_full_disk_read (ExternalSandboxPolicy _) = True"
| "policy_full_disk_read (ReadOnly access _) = readonly_full_disk_read access"
| "policy_full_disk_read (WorkspaceWrite _ access _ _ _) = readonly_full_disk_read access"

fun policy_full_disk_write :: "sandbox_policy \<Rightarrow> bool" where
  "policy_full_disk_write DangerFullAccess = True"
| "policy_full_disk_write (ExternalSandboxPolicy _) = True"
| "policy_full_disk_write (ReadOnly _ _) = False"
| "policy_full_disk_write (WorkspaceWrite _ _ _ _ _) = False"

fun policy_full_network :: "sandbox_policy \<Rightarrow> bool" where
  "policy_full_network DangerFullAccess = True"
| "policy_full_network (ExternalSandboxPolicy access) = network_access_is_enabled access"
| "policy_full_network (ReadOnly _ access) = access"
| "policy_full_network (WorkspaceWrite _ _ access _ _) = access"

definition policy_platform_defaults :: "sandbox_policy \<Rightarrow> bool" where
  "policy_platform_defaults p =
     (if policy_full_disk_read p then False
      else (case p of
              ReadOnly access _ \<Rightarrow> readonly_platform_defaults access
            | WorkspaceWrite _ access _ _ _ \<Rightarrow> readonly_platform_defaults access
            | _ \<Rightarrow> False))"

definition slash_tmp :: path where
  "slash_tmp = [RootDir, NormalComponent ''tmp'']"

fun policy_writable_roots :: "fs_env \<Rightarrow> sandbox_policy \<Rightarrow> path \<Rightarrow> writable_root list" where
  "policy_writable_roots fs (WorkspaceWrite writable_roots _ _ exclude_tmpdir exclude_slash_tmp) cwd =
     (let cwd_root = (case from_absolute_path (path_env fs) cwd of Inr cwd \<Rightarrow> [cwd] | Inl _ \<Rightarrow> []);
          tmp_root = (if \<not> exclude_slash_tmp \<and> is_dir fs slash_tmp then [slash_tmp] else []);
          tmpdir_root =
            (if exclude_tmpdir then []
             else (case tmpdir_var fs of
                     None \<Rightarrow> []
                   | Some tmpdir \<Rightarrow>
                       if tmpdir = [] then []
                       else (case from_absolute_path (path_env fs) tmpdir of
                               Inr tmpdir_path \<Rightarrow> [tmpdir_path] | Inl _ \<Rightarrow> [])))
      in map (\<lambda>r. \<lparr>root = r, read_only_subpaths = default_read_only_subpaths_for_writable_root fs r\<rparr>)
           (writable_roots @ cwd_root @ tmp_root @ tmpdir_root))"
| "policy_writable_roots fs _ cwd = []"

fun policy_readable_roots :: "fs_env \<Rightarrow> sandbox_policy \<Rightarrow> path \<Rightarrow> path list" where
  "policy_readable_roots fs DangerFullAccess cwd = dedup_absolute_paths []"
| "policy_readable_roots fs (ExternalSandboxPolicy _) cwd = dedup_absolute_paths []"
| "policy_readable_roots fs (ReadOnly access _) cwd = dedup_absolute_paths (readonly_roots fs access cwd)"
| "policy_readable_roots fs (WorkspaceWrite ws access net t s) cwd =
     dedup_absolute_paths
       (readonly_roots fs access cwd @ map root (policy_writable_roots fs (WorkspaceWrite ws access net t s) cwd))"

subsection \<open>Duplicates\<close>

lemma set_dedup_loop: "set (dedup_loop seen ps) = set ps - seen"
  by (induction seen ps rule: dedup_loop.induct) auto

lemma set_dedup [simp]: "set (dedup_absolute_paths ps) = set ps"
  by (simp add: dedup_absolute_paths_def set_dedup_loop)

lemma distinct_dedup_loop: "distinct (dedup_loop seen ps)"
  by (induction seen ps rule: dedup_loop.induct) (auto simp: set_dedup_loop)

lemma distinct_dedup [simp]: "distinct (dedup_absolute_paths ps)"
  by (simp add: dedup_absolute_paths_def distinct_dedup_loop)

lemma dedup_loop_distinct: "distinct ps \<Longrightarrow> set ps \<inter> seen = {} \<Longrightarrow> dedup_loop seen ps = ps"
  by (induction seen ps rule: dedup_loop.induct) auto

lemma dedup_distinct: "distinct ps \<Longrightarrow> dedup_absolute_paths ps = ps"
  by (simp add: dedup_absolute_paths_def dedup_loop_distinct)

end
