(* ===== verification/File_System_Policy.thy ===== *)
theory File_System_Policy
  imports Sandbox_Policy "HOL-Library.Product_Lexorder"
begin

section \<open>File-system permissions\<close>

text \<open>
  A model of \<^verbatim>\<open>codex-rs/protocol/src/permissions.rs\<close>: policies that give paths an access mode,
  the access of a path, the roots handed to a sandbox, and the conversion from and to the older
  sandbox policies.
\<close>

subsection \<open>Entries\<close>

datatype network_sandbox_policy = NetworkRestricted | NetworkEnabled

definition network_is_enabled :: "network_sandbox_policy \<Rightarrow> bool" where
  "network_is_enabled n = (n = NetworkEnabled)"

text \<open>The order is that of precedence: \<open>none\<close> beats \<open>write\<close>, and \<open>write\<close> beats \<open>read\<close>.\<close>

datatype file_system_access_mode = AccessRead | AccessWrite | AccessNone

fun access_rank :: "file_system_access_mode \<Rightarrow> nat" where
  "access_rank AccessRead = 0"
| "access_rank AccessWrite = 1"
| "access_rank AccessNone = 2"

instantiation file_system_access_mode :: linorder
begin

definition less_eq_file_system_access_mode :: "file_system_access_mode \<Rightarrow> file_system_access_mode \<Rightarrow> bool" where
  "less_eq_file_system_access_mode a b = (access_rank a \<le> access_rank b)"

definition less_file_system_access_mode :: "file_system_access_mode \<Rightarrow> file_system_access_mode \<Rightarrow> bool" where
  "less_file_system_access_mode a b = (access_rank a < access_rank b)"

instance
proof
  fix x y :: file_system_access_mode
  assume "x \<le> y" "y \<le> x"
  then show "x = y"
    by (cases x; cases y) (simp_all add: less_eq_file_system_access_mode_def)
qed (auto simp: less_eq_file_system_access_mode_def less_file_system_access_mode_def)

end

definition can_read :: "file_system_access_mode \<Rightarrow> bool" where
  "can_read a = (a \<noteq> AccessNone)"

definition can_write :: "file_system_access_mode \<Rightarrow> bool" where
  "can_write a = (a = AccessWrite)"

datatype file_system_special_path =
    Special_Root
  | Special_Minimal
  | Special_CurrentWorkingDirectory
  | Special_ProjectRoots "path option"
  | Special_Tmpdir
  | Special_SlashTmp
  | Special_Unknown string "path option"

datatype file_system_path = Path path | Special file_system_special_path

record file_system_sandbox_entry =
  entry_path :: file_system_path
  entry_access :: file_system_access_mode

datatype file_system_sandbox_kind = Restricted | Unrestricted | ExternalSandbox

record file_system_sandbox_policy =
  policy_kind :: file_system_sandbox_kind
  policy_entries :: "file_system_sandbox_entry list"

record resolved_file_system_entry =
  resolved_path :: path
  resolved_access :: file_system_access_mode

definition mk_entry :: "file_system_path \<Rightarrow> file_system_access_mode \<Rightarrow> file_system_sandbox_entry" where
  "mk_entry p a = \<lparr>entry_path = p, entry_access = a\<rparr>"

definition default_policy :: file_system_sandbox_policy where
  "default_policy = \<lparr>policy_kind = Restricted, policy_entries = [mk_entry (Special Special_Root) AccessRead]\<rparr>"

definition unrestricted :: file_system_sandbox_policy where
  "unrestricted = \<lparr>policy_kind = Unrestricted, policy_entries = []\<rparr>"

definition external_sandbox :: file_system_sandbox_policy where
  "external_sandbox = \<lparr>policy_kind = ExternalSandbox, policy_entries = []\<rparr>"

definition restricted :: "file_system_sandbox_entry list \<Rightarrow> file_system_sandbox_policy" where
  "restricted entries = \<lparr>policy_kind = Restricted, policy_entries = entries\<rparr>"

subsection \<open>Entries with the same target\<close>

fun special_paths_share_target :: "file_system_special_path \<Rightarrow> file_system_special_path \<Rightarrow> bool" where
  "special_paths_share_target Special_Root Special_Root = True"
| "special_paths_share_target Special_Minimal Special_Minimal = True"
| "special_paths_share_target Special_CurrentWorkingDirectory Special_CurrentWorkingDirectory = True"
| "special_paths_share_target Special_Tmpdir Special_Tmpdir = True"
| "special_paths_share_target Special_SlashTmp Special_SlashTmp = True"
| "special_paths_share_target Special_CurrentWorkingDirectory (Special_ProjectRoots None) = True"
| "special_paths_share_target (Special_ProjectRoots None) Special_CurrentWorkingDirectory = True"
| "special_paths_share_target (Special_ProjectRoots l) (Special_ProjectRoots r) = (l = r)"
| "special_paths_share_target (Special_Unknown l ls) (Special_Unknown r rs) = (l = r \<and> ls = rs)"
| "special_paths_share_target _ _ = False"

fun special_path_matches_absolute_path :: "file_system_special_path \<Rightarrow> path \<Rightarrow> bool" where
  "special_path_matches_absolute_path Special_Root p = (path_parent p = None)"
| "special_path_matches_absolute_path Special_SlashTmp p = (p = slash_tmp)"
| "special_path_matches_absolute_path _ p = False"

fun file_system_paths_share_target :: "file_system_path \<Rightarrow> file_system_path \<Rightarrow> bool" where
  "file_system_paths_share_target (Path l) (Path r) = (l = r)"
| "file_system_paths_share_target (Special l) (Special r) = special_paths_share_target l r"
| "file_system_paths_share_target (Path p) (Special v) = special_path_matches_absolute_path v p"
| "file_system_paths_share_target (Special v) (Path p) = special_path_matches_absolute_path v p"

subsection \<open>Full access\<close>

definition has_root_access :: "file_system_sandbox_policy \<Rightarrow> (file_system_access_mode \<Rightarrow> bool) \<Rightarrow> bool" where
  "has_root_access p predicate =
     (policy_kind p = Restricted \<and>
      list_ex (\<lambda>e. entry_path e = Special Special_Root \<and> predicate (entry_access e)) (policy_entries p))"

definition has_explicit_deny_entries :: "file_system_sandbox_policy \<Rightarrow> bool" where
  "has_explicit_deny_entries p =
     (policy_kind p = Restricted \<and> list_ex (\<lambda>e. entry_access e = AccessNone) (policy_entries p))"

definition has_same_target_write_override ::
  "file_system_sandbox_policy \<Rightarrow> file_system_sandbox_entry \<Rightarrow> bool"
where
  "has_same_target_write_override p e =
     list_ex (\<lambda>candidate. can_write (entry_access candidate) \<and> entry_access candidate > entry_access e \<and>
        file_system_paths_share_target (entry_path candidate) (entry_path e)) (policy_entries p)"

definition narrows_write :: "file_system_sandbox_policy \<Rightarrow> file_system_sandbox_entry \<Rightarrow> bool" where
  "narrows_write p e =
     (if can_write (entry_access e) then False
      else (case entry_path e of
              Path _ \<Rightarrow> \<not> has_same_target_write_override p e
            | Special v \<Rightarrow>
                (case v of
                   Special_Root \<Rightarrow> entry_access e = AccessNone
                 | Special_Minimal \<Rightarrow> False
                 | Special_Unknown _ _ \<Rightarrow> False
                 | _ \<Rightarrow> \<not> has_same_target_write_override p e)))"

definition has_write_narrowing_entries :: "file_system_sandbox_policy \<Rightarrow> bool" where
  "has_write_narrowing_entries p =
     (policy_kind p = Restricted \<and> list_ex (narrows_write p) (policy_entries p))"

definition has_full_disk_read_access :: "file_system_sandbox_policy \<Rightarrow> bool" where
  "has_full_disk_read_access p =
     (case policy_kind p of
        Restricted \<Rightarrow> has_root_access p can_read \<and> \<not> has_explicit_deny_entries p
      | _ \<Rightarrow> True)"

definition has_full_disk_write_access :: "file_system_sandbox_policy \<Rightarrow> bool" where
  "has_full_disk_write_access p =
     (case policy_kind p of
        Restricted \<Rightarrow> has_root_access p can_write \<and> \<not> has_write_narrowing_entries p
      | _ \<Rightarrow> True)"

definition include_platform_defaults :: "file_system_sandbox_policy \<Rightarrow> bool" where
  "include_platform_defaults p =
     (\<not> has_full_disk_read_access p \<and> policy_kind p = Restricted \<and>
      list_ex (\<lambda>e. entry_path e = Special Special_Minimal \<and> can_read (entry_access e)) (policy_entries p))"

subsection \<open>Resolving entries\<close>

fun resolve_file_system_special_path ::
  "fs_env \<Rightarrow> file_system_special_path \<Rightarrow> path option \<Rightarrow> path option"
where
  "resolve_file_system_special_path fs Special_Root cwd = None"
| "resolve_file_system_special_path fs Special_Minimal cwd = None"
| "resolve_file_system_special_path fs (Special_Unknown _ _) cwd = None"
| "resolve_file_system_special_path fs Special_CurrentWorkingDirectory cwd = cwd"
| "resolve_file_system_special_path fs (Special_ProjectRoots subpath) cwd =
     (case cwd of
        None \<Rightarrow> None
      | Some cwd \<Rightarrow>
          (case subpath of
             Some subpath \<Rightarrow>
               (case resolve_path_against_base (path_env fs) subpath cwd of Inr q \<Rightarrow> Some q | Inl _ \<Rightarrow> None)
           | None \<Rightarrow> Some cwd))"
| "resolve_file_system_special_path fs Special_Tmpdir cwd =
     (case tmpdir_var fs of
        None \<Rightarrow> None
      | Some tmpdir \<Rightarrow>
          if tmpdir = [] then None
          else (case from_absolute_path (path_env fs) tmpdir of Inr q \<Rightarrow> Some q | Inl _ \<Rightarrow> None))"
| "resolve_file_system_special_path fs Special_SlashTmp cwd =
     (if \<not> is_dir fs slash_tmp then None else Some slash_tmp)"

fun resolve_file_system_path :: "fs_env \<Rightarrow> file_system_path \<Rightarrow> path option \<Rightarrow> path option" where
  "resolve_file_system_path fs (Path p) cwd = Some p"
| "resolve_file_system_path fs (Special v) cwd = resolve_file_system_special_path fs v cwd"

text \<open>The last ancestor of an absolute path is its first component.\<close>

definition absolute_root_path_for_cwd :: "path \<Rightarrow> path" where
  "absolute_root_path_for_cwd cwd = take 1 cwd"

definition resolve_entry_path :: "fs_env \<Rightarrow> file_system_path \<Rightarrow> path option \<Rightarrow> path option" where
  "resolve_entry_path fs p cwd =
     (if p = Special Special_Root then map_option absolute_root_path_for_cwd cwd
      else resolve_file_system_path fs p cwd)"

definition absolute_cwd :: "fs_env \<Rightarrow> path \<Rightarrow> path option" where
  "absolute_cwd fs cwd = (case from_absolute_path (path_env fs) cwd of Inr q \<Rightarrow> Some q | Inl _ \<Rightarrow> None)"

definition resolved_entries_with_cwd ::
  "fs_env \<Rightarrow> file_system_sandbox_policy \<Rightarrow> path \<Rightarrow> resolved_file_system_entry list"
where
  "resolved_entries_with_cwd fs p cwd =
     List.map_filter
       (\<lambda>e. map_option (\<lambda>q. \<lparr>resolved_path = q, resolved_access = entry_access e\<rparr>)
              (resolve_entry_path fs (entry_path e) (absolute_cwd fs cwd)))
       (policy_entries p)"

definition resolve_candidate_path :: "fs_env \<Rightarrow> path \<Rightarrow> path \<Rightarrow> path option" where
  "resolve_candidate_path fs p cwd =
     (case (if is_absolute p then from_absolute_path (path_env fs) p
            else resolve_path_against_base (path_env fs) p cwd) of
        Inr q \<Rightarrow> Some q
      | Inl _ \<Rightarrow> None)"

definition resolved_entry_precedence :: "resolved_file_system_entry \<Rightarrow> nat \<times> file_system_access_mode" where
  "resolved_entry_precedence e = (length (resolved_path e), resolved_access e)"

definition resolve_access_with_cwd ::
  "fs_env \<Rightarrow> file_system_sandbox_policy \<Rightarrow> path \<Rightarrow> path \<Rightarrow> file_system_access_mode"
where
  "resolve_access_with_cwd fs p file cwd =
     (if policy_kind p \<noteq> Restricted then AccessWrite
      else (case resolve_candidate_path fs file cwd of
              None \<Rightarrow> AccessNone
            | Some file \<Rightarrow>
                (case max_by_key resolved_entry_precedence
                        (filter (\<lambda>e. starts_with file (resolved_path e)) (resolved_entries_with_cwd fs p cwd)) of
                   Some e \<Rightarrow> resolved_access e
                 | None \<Rightarrow> AccessNone)))"

definition can_read_path_with_cwd :: "fs_env \<Rightarrow> file_system_sandbox_policy \<Rightarrow> path \<Rightarrow> path \<Rightarrow> bool" where
  "can_read_path_with_cwd fs p file cwd = can_read (resolve_access_with_cwd fs p file cwd)"

definition can_write_path_with_cwd :: "fs_env \<Rightarrow> file_system_sandbox_policy \<Rightarrow> path \<Rightarrow> path \<Rightarrow> bool" where
  "can_write_path_with_cwd fs p file cwd = can_write (resolve_access_with_cwd fs p file cwd)"

subsection \<open>Roots\<close>

definition get_readable_roots_with_cwd :: "fs_env \<Rightarrow> file_system_sandbox_policy \<Rightarrow> path \<Rightarrow> path list" where
  "get_readable_roots_with_cwd fs p cwd =
     (if has_full_disk_read_access p then []
      else dedup_absolute_paths (map resolved_path
             (filter (\<lambda>e. can_read_path_with_cwd fs p (resolved_path e) cwd)
               (filter (\<lambda>e. can_read (resolved_access e)) (resolved_entries_with_cwd fs p cwd)))))"

definition read_only_roots :: "fs_env \<Rightarrow> file_system_sandbox_policy \<Rightarrow> path \<Rightarrow> path list" where
  "read_only_roots fs p cwd =
     dedup_absolute_paths (map resolved_path
       (filter (\<lambda>e. \<not> can_write_path_with_cwd fs p (resolved_path e) cwd)
         (filter (\<lambda>e. \<not> can_write (resolved_access e)) (resolved_entries_with_cwd fs p cwd))))"

definition get_writable_roots_with_cwd :: "fs_env \<Rightarrow> file_system_sandbox_policy \<Rightarrow> path \<Rightarrow> writable_root list" where
  "get_writable_roots_with_cwd fs p cwd =
     (if has_full_disk_write_access p then []
      else map (\<lambda>r. \<lparr>root = r, read_only_subpaths =
                 dedup_absolute_paths
                   (default_read_only_subpaths_for_writable_root fs r @
                    filter (\<lambda>q. starts_with q r) (filter (\<lambda>q. q \<noteq> r) (read_only_roots fs p cwd)))\<rparr>)
             (dedup_absolute_paths (map resolved_path
               (filter (\<lambda>e. can_write_path_with_cwd fs p (resolved_path e) cwd)
                 (filter (\<lambda>e. can_write (resolved_access e)) (resolved_entries_with_cwd fs p cwd))))))"

definition get_unreadable_roots_with_cwd :: "fs_env \<Rightarrow> file_system_sandbox_policy \<Rightarrow> path \<Rightarrow> path list" where
  "get_unreadable_roots_with_cwd fs p cwd =
     (if policy_kind p \<noteq> Restricted then []
      else (let r = map_option absolute_root_path_for_cwd (absolute_cwd fs cwd) in
            dedup_absolute_paths (map resolved_path
              (filter (\<lambda>e. r \<noteq> Some (resolved_path e))
                (filter (\<lambda>e. \<not> can_read_path_with_cwd fs p (resolved_path e) cwd)
                  (filter (\<lambda>e. resolved_access e = AccessNone) (resolved_entries_with_cwd fs p cwd)))))))"

subsection \<open>The older policies\<close>

definition network_of_policy :: "sandbox_policy \<Rightarrow> network_sandbox_policy" where
  "network_of_policy p = (if policy_full_network p then NetworkEnabled else NetworkRestricted)"

fun from_sandbox_policy :: "sandbox_policy \<Rightarrow> file_system_sandbox_policy" where
  "from_sandbox_policy DangerFullAccess = unrestricted"
| "from_sandbox_policy (ExternalSandboxPolicy _) = external_sandbox"
| "from_sandbox_policy (ReadOnly access _) =
     restricted
       (case access of
          FullAccess \<Rightarrow> [mk_entry (Special Special_Root) AccessRead]
        | RestrictedReads platform_defaults readable_roots \<Rightarrow>
            mk_entry (Special Special_CurrentWorkingDirectory) AccessRead #
            (if platform_defaults then [mk_entry (Special Special_Minimal) AccessRead] else []) @
            map (\<lambda>p. mk_entry (Path p) AccessRead) readable_roots)"
| "from_sandbox_policy (WorkspaceWrite writable_roots access _ exclude_tmpdir exclude_slash_tmp) =
     restricted
       ((case access of
           FullAccess \<Rightarrow> [mk_entry (Special Special_Root) AccessRead]
         | RestrictedReads platform_defaults readable_roots \<Rightarrow>
             (if platform_defaults then [mk_entry (Special Special_Minimal) AccessRead] else []) @
             map (\<lambda>p. mk_entry (Path p) AccessRead) readable_roots) @
        mk_entry (Special Special_CurrentWorkingDirectory) AccessWrite #
        (if exclude_slash_tmp then [] else [mk_entry (Special Special_SlashTmp) AccessWrite]) @
        (if exclude_tmpdir then [] else [mk_entry (Special Special_Tmpdir) AccessWrite]) @
        map (\<lambda>p. mk_entry (Path p) AccessWrite) writable_roots)"

definition from_legacy_sandbox_policy :: "fs_env \<Rightarrow> sandbox_policy \<Rightarrow> path \<Rightarrow> file_system_sandbox_policy" where
  "from_legacy_sandbox_policy fs sp cwd =
     (let p = from_sandbox_policy sp in
      case sp of
        WorkspaceWrite _ _ _ _ _ \<Rightarrow>
          (let legacy_writable_roots = policy_writable_roots fs sp cwd in
           p\<lparr>policy_entries := filter
             (\<lambda>e. if entry_access e \<noteq> AccessRead then True
                  else (case entry_path e of
                          Path q \<Rightarrow> \<not> list_ex (\<lambda>r. is_path_writable r q) legacy_writable_roots
                        | Special _ \<Rightarrow> True)) (policy_entries p)\<rparr>)
      | _ \<Rightarrow> p)"

text \<open>What the loop over the entries collects.\<close>

record legacy_state =
  ls_platform_defaults :: bool
  ls_full_read :: bool
  ls_full_write :: bool
  ls_workspace_writable :: bool
  ls_writable_roots :: "path list"
  ls_readable_roots :: "path list"
  ls_tmpdir_writable :: bool
  ls_slash_tmp_writable :: bool

definition legacy_start :: legacy_state where
  "legacy_start = \<lparr>ls_platform_defaults = False, ls_full_read = False, ls_full_write = False,
     ls_workspace_writable = False, ls_writable_roots = [], ls_readable_roots = [],
     ls_tmpdir_writable = False, ls_slash_tmp_writable = False\<rparr>"

definition push_readable :: "path \<Rightarrow> legacy_state \<Rightarrow> legacy_state" where
  "push_readable q st = st\<lparr>ls_readable_roots := ls_readable_roots st @ [q]\<rparr>"

definition push_writable :: "path \<Rightarrow> legacy_state \<Rightarrow> legacy_state" where
  "push_writable q st = st\<lparr>ls_writable_roots := ls_writable_roots st @ [q]\<rparr>"

definition push_readable_special ::
  "fs_env \<Rightarrow> path option \<Rightarrow> file_system_special_path \<Rightarrow> file_system_access_mode \<Rightarrow> legacy_state \<Rightarrow> legacy_state"
where
  "push_readable_special fs cwd v access st =
     (if can_read access
      then (case resolve_file_system_special_path fs v cwd of Some q \<Rightarrow> push_readable q st | None \<Rightarrow> st)
      else st)"

definition legacy_step :: "fs_env \<Rightarrow> path option \<Rightarrow> file_system_sandbox_entry \<Rightarrow> legacy_state \<Rightarrow> legacy_state" where
  "legacy_step fs cwd e st =
     (let access = entry_access e in
      case entry_path e of
        Path q \<Rightarrow>
          if can_write access then
            (if cwd = Some q then st\<lparr>ls_workspace_writable := True\<rparr> else push_writable q st)
          else if can_read access then push_readable q st
          else st
      | Special v \<Rightarrow>
          (case v of
             Special_Root \<Rightarrow>
               (case access of
                  AccessNone \<Rightarrow> st
                | AccessRead \<Rightarrow> st\<lparr>ls_full_read := True\<rparr>
                | AccessWrite \<Rightarrow> st\<lparr>ls_full_read := True, ls_full_write := True\<rparr>)
           | Special_Minimal \<Rightarrow> if can_read access then st\<lparr>ls_platform_defaults := True\<rparr> else st
           | Special_CurrentWorkingDirectory \<Rightarrow>
               if can_write access then st\<lparr>ls_workspace_writable := True\<rparr>
               else push_readable_special fs cwd v access st
           | Special_ProjectRoots subpath \<Rightarrow>
               if subpath = None \<and> can_write access then st\<lparr>ls_workspace_writable := True\<rparr>
               else (case resolve_file_system_special_path fs v cwd of
                       Some q \<Rightarrow>
                         if can_write access then push_writable q st
                         else if can_read access then push_readable q st
                         else st
                     | None \<Rightarrow> st)
           | Special_Tmpdir \<Rightarrow>
               if can_write access then st\<lparr>ls_tmpdir_writable := True\<rparr>
               else push_readable_special fs cwd v access st
           | Special_SlashTmp \<Rightarrow>
               if can_write access then st\<lparr>ls_slash_tmp_writable := True\<rparr>
               else push_readable_special fs cwd v access st
           | Special_Unknown _ _ \<Rightarrow> st))"

text \<open>The error is that of writes outside the working directory.\<close>

definition no_filesystem_policy :: "network_sandbox_policy \<Rightarrow> sandbox_policy" where
  "no_filesystem_policy net =
     (if network_is_enabled net then DangerFullAccess else ExternalSandboxPolicy RestrictedNetwork)"

definition to_legacy_sandbox_policy ::
  "fs_env \<Rightarrow> file_system_sandbox_policy \<Rightarrow> network_sandbox_policy \<Rightarrow> path \<Rightarrow> (unit, sandbox_policy) result"
where
  "to_legacy_sandbox_policy fs p net cwd =
     (case policy_kind p of
        ExternalSandbox \<Rightarrow>
          Inr (ExternalSandboxPolicy (if network_is_enabled net then EnabledNetwork else RestrictedNetwork))
      | Unrestricted \<Rightarrow> Inr (no_filesystem_policy net)
      | Restricted \<Rightarrow>
          (let st = fold (legacy_step fs (absolute_cwd fs cwd)) (policy_entries p) legacy_start in
           if ls_full_write st then Inr (no_filesystem_policy net)
           else
             (let reads =
                    (if ls_full_read st then FullAccess
                     else RestrictedReads (ls_platform_defaults st) (dedup_absolute_paths (ls_readable_roots st)))
              in if ls_workspace_writable st then
                   Inr (WorkspaceWrite (dedup_absolute_paths (ls_writable_roots st)) reads (network_is_enabled net)
                          (\<not> ls_tmpdir_writable st) (\<not> ls_slash_tmp_writable st))
                 else if ls_writable_roots st \<noteq> [] \<or> ls_tmpdir_writable st \<or> ls_slash_tmp_writable st then Inl ()
                 else Inr (ReadOnly reads (network_is_enabled net)))))"

record file_system_semantic_signature =
  sig_full_read :: bool
  sig_full_write :: bool
  sig_platform_defaults :: bool
  sig_readable_roots :: "path list"
  sig_writable_roots :: "writable_root list"
  sig_unreadable_roots :: "path list"

definition semantic_signature :: "fs_env \<Rightarrow> file_system_sandbox_policy \<Rightarrow> path \<Rightarrow> file_system_semantic_signature" where
  "semantic_signature fs p cwd =
     \<lparr>sig_full_read = has_full_disk_read_access p,
      sig_full_write = has_full_disk_write_access p,
      sig_platform_defaults = include_platform_defaults p,
      sig_readable_roots = get_readable_roots_with_cwd fs p cwd,
      sig_writable_roots = get_writable_roots_with_cwd fs p cwd,
      sig_unreadable_roots = get_unreadable_roots_with_cwd fs p cwd\<rparr>"

definition needs_direct_runtime_enforcement ::
  "fs_env \<Rightarrow> file_system_sandbox_policy \<Rightarrow> network_sandbox_policy \<Rightarrow> path \<Rightarrow> bool"
where
  "needs_direct_runtime_enforcement fs p net cwd =
     (if policy_kind p \<noteq> Restricted then False
      else (case to_legacy_sandbox_policy fs p net cwd of
              Inl _ \<Rightarrow> True
            | Inr legacy_policy \<Rightarrow>
                semantic_signature fs p cwd \<noteq>
                semantic_signature fs (from_legacy_sandbox_policy fs legacy_policy cwd) cwd))"

subsection \<open>The most specific entry decides\<close>

text \<open>The entries that cover a path, and the one among them that decides: no other is more
  specific, and none as specific takes precedence over it.\<close>

definition covers :: "path \<Rightarrow> resolved_file_system_entry \<Rightarrow> bool" where
  "covers file e = starts_with file (resolved_path e)"

definition decides :: "path \<Rightarrow> resolved_file_system_entry list \<Rightarrow> resolved_file_system_entry \<Rightarrow> bool" where
  "decides file es e =
     (e \<in> set es \<and> covers file e \<and>
      (\<forall>e' \<in> set es. covers file e' \<longrightarrow> resolved_entry_precedence e' \<le> resolved_entry_precedence e))"

lemma decides_access_unique:
  "decides file es a \<Longrightarrow> decides file es b \<Longrightarrow> resolved_access a = resolved_access b \<and> resolved_path a = resolved_path b"
proof -
  assume a: "decides file es a" and b: "decides file es b"
  then have "resolved_entry_precedence a = resolved_entry_precedence b"
    unfolding decides_def by (blast intro: order.antisym)
  then have "length (resolved_path a) = length (resolved_path b)" "resolved_access a = resolved_access b"
    by (simp_all add: resolved_entry_precedence_def)
  moreover have "prefix (resolved_path a) file" "prefix (resolved_path b) file"
    using a b by (auto simp: decides_def covers_def starts_with_def)
  ultimately show ?thesis by (metis prefix_take)
qed

lemma decides_iff_max:
  assumes "max_by_key resolved_entry_precedence (filter (\<lambda>e. starts_with file (resolved_path e)) es) = Some e"
  shows "decides file es e"
  using max_by_key_Some [OF assms] by (auto simp: decides_def covers_def)

lemma access_of_file:
  assumes "policy_kind p = Restricted" and "resolve_candidate_path fs file cwd = Some q"
  shows "resolve_access_with_cwd fs p file cwd =
    (case max_by_key resolved_entry_precedence
       (filter (\<lambda>e. starts_with q (resolved_path e)) (resolved_entries_with_cwd fs p cwd)) of
       Some e \<Rightarrow> resolved_access e | None \<Rightarrow> AccessNone)"
  by (simp add: resolve_access_with_cwd_def assms)

lemma access_decided:
  assumes "policy_kind p = Restricted" and "resolve_candidate_path fs file cwd = Some q"
    and "decides q (resolved_entries_with_cwd fs p cwd) e"
  shows "resolve_access_with_cwd fs p file cwd = resolved_access e"
proof -
  let ?es = "filter (\<lambda>e. starts_with q (resolved_path e)) (resolved_entries_with_cwd fs p cwd)"
  have "e \<in> set ?es" using assms(3) by (simp add: decides_def covers_def)
  then have "?es \<noteq> []" by (metis list.distinct(1) list.set_cases)
  then obtain m where m: "max_by_key resolved_entry_precedence ?es = Some m" using max_by_key_exists by blast
  with decides_access_unique [OF decides_iff_max [OF m] assms(3)] show ?thesis
    by (simp add: access_of_file [OF assms(1,2)])
qed

lemma access_uncovered:
  assumes "policy_kind p = Restricted" and "resolve_candidate_path fs file cwd = Some q"
    and "\<forall>e \<in> set (resolved_entries_with_cwd fs p cwd). \<not> covers q e"
  shows "resolve_access_with_cwd fs p file cwd = AccessNone"
proof -
  have "filter (\<lambda>e. starts_with q (resolved_path e)) (resolved_entries_with_cwd fs p cwd) = []"
    using assms(3) by (auto simp: covers_def filter_empty_conv)
  then show ?thesis by (simp add: access_of_file [OF assms(1,2)] split: option.split)
qed

lemma decider_exists:
  assumes "e \<in> set es" and "covers q e"
  shows "\<exists>m. decides q es m"
proof -
  let ?es = "filter (\<lambda>e. starts_with q (resolved_path e)) es"
  have "?es \<noteq> []" using assms by (auto simp: covers_def filter_empty_conv)
  then obtain m where "max_by_key resolved_entry_precedence ?es = Some m" using max_by_key_exists by blast
  then show ?thesis using decides_iff_max by blast
qed

subsection \<open>Well-formed policies and environments\<close>

text \<open>The paths of entries are absolute and normalised, as their type promises; so are the working
  directory and the directory of the process.\<close>

definition wf_policy :: "file_system_sandbox_policy \<Rightarrow> bool" where
  "wf_policy p = list_all (\<lambda>e. case entry_path e of Path q \<Rightarrow> normalised q | Special _ \<Rightarrow> True) (policy_entries p)"

definition wf_env :: "fs_env \<Rightarrow> bool" where
  "wf_env fs = (case process_dir (path_env fs) of None \<Rightarrow> True | Some d \<Rightarrow> normalised d)"

lemma from_absolute_wf:
  assumes "wf_env fs" and "from_absolute_path (path_env fs) p = Inr q"
  shows "normalised q"
proof -
  from assms(2) have n: "normalize_path (path_env fs) (maybe_expand_home_directory (path_env fs) p) None = Inr q"
    by (simp add: from_absolute_path_def)
  moreover have "is_absolute (maybe_expand_home_directory (path_env fs) p) \<or>
      (\<exists>d. process_dir (path_env fs) = Some d \<and> normalised d)"
    using n assms(1) by (cases "process_dir (path_env fs)") (auto simp: normalize_path_def wf_env_def split: if_splits)
  ultimately show ?thesis using normalize_path_normalised by fastforce
qed

lemma resolve_against_wf:
  "normalised base \<Longrightarrow> resolve_path_against_base env p base = Inr q \<Longrightarrow> normalised q"
  using normalize_path_normalised [of env "maybe_expand_home_directory env p" "Some base" q]
  by (auto simp: resolve_path_against_base_def)

lemma absolute_cwd_normalised: "normalised cwd \<Longrightarrow> absolute_cwd fs cwd = Some cwd"
  by (simp add: absolute_cwd_def from_absolute_normalised)

lemma candidate_normalised: "normalised q \<Longrightarrow> resolve_candidate_path fs q cwd = Some q"
  by (simp add: resolve_candidate_path_def normalised_absolute from_absolute_normalised)

lemma root_normalised: "normalised [RootDir]"
  by (simp add: normalised_def)

lemma slash_tmp_normalised: "normalised slash_tmp"
  unfolding normalised_def slash_tmp_def by (intro exI [of _ "[''tmp'']"]) simp

lemma take_root: "normalised cwd \<Longrightarrow> absolute_root_path_for_cwd cwd = [RootDir]"
  by (auto simp: absolute_root_path_for_cwd_def normalised_def)

lemma resolve_special_wf:
  assumes "wf_env fs" and "normalised cwd" and "resolve_file_system_special_path fs v (Some cwd) = Some q"
  shows "normalised q"
proof (cases v)
  case (Special_ProjectRoots subpath)
  with assms show ?thesis
    by (cases subpath) (auto split: sum.splits intro: resolve_against_wf)
next
  case Special_Tmpdir
  with assms show ?thesis by (auto split: sum.splits option.splits if_splits intro: from_absolute_wf)
next
  case Special_SlashTmp
  with assms slash_tmp_normalised show ?thesis by (auto split: if_splits)
qed (use assms in auto)

lemma resolve_entry_wf:
  assumes "wf_env fs" and "normalised cwd" and "resolve_entry_path fs fp (Some cwd) = Some q"
    and "case fp of Path q \<Rightarrow> normalised q | Special _ \<Rightarrow> True"
  shows "normalised q"
  using assms resolve_special_wf [OF assms(1,2)] take_root [OF assms(2)] root_normalised
  by (cases fp) (auto simp: resolve_entry_path_def split: if_splits)

lemma resolved_entries_member:
  "r \<in> set (resolved_entries_with_cwd fs p cwd) \<longleftrightarrow>
     (\<exists>e \<in> set (policy_entries p). \<exists>q. resolve_entry_path fs (entry_path e) (absolute_cwd fs cwd) = Some q \<and>
        r = \<lparr>resolved_path = q, resolved_access = entry_access e\<rparr>)"
  by (force simp: resolved_entries_with_cwd_def List.map_filter_def)

lemma resolved_paths_normalised:
  assumes "wf_env fs" and "wf_policy p" and "normalised cwd" and "r \<in> set (resolved_entries_with_cwd fs p cwd)"
  shows "normalised (resolved_path r)"
proof -
  from assms(4) obtain e q where e: "e \<in> set (policy_entries p)"
    "resolve_entry_path fs (entry_path e) (Some cwd) = Some q" "r = \<lparr>resolved_path = q, resolved_access = entry_access e\<rparr>"
    by (auto simp: resolved_entries_member absolute_cwd_normalised [OF assms(3)])
  with assms(2) have "case entry_path e of Path q \<Rightarrow> normalised q | Special _ \<Rightarrow> True"
    by (auto simp: wf_policy_def list_all_iff)
  with resolve_entry_wf [OF assms(1,3) e(2)] e(3) show ?thesis by simp
qed

text \<open>In a restricted policy the most specific entry that covers a path decides its access; among
  entries for the same directory \<open>none\<close> beats \<open>write\<close>, and \<open>write\<close> beats \<open>read\<close>.  A path that no
  entry covers is out of reach.\<close>

lemma most_specific_entry_decides:
  assumes "policy_kind p = Restricted" and "normalised file"
  shows "(\<exists>e. decides file (resolved_entries_with_cwd fs p cwd) e \<and>
      resolve_access_with_cwd fs p file cwd = resolved_access e) \<or>
    list_all (\<lambda>e. \<not> covers file e) (resolved_entries_with_cwd fs p cwd) \<and>
      resolve_access_with_cwd fs p file cwd = AccessNone"
proof (cases "list_all (\<lambda>e. \<not> covers file e) (resolved_entries_with_cwd fs p cwd)")
  case True
  with access_uncovered [OF assms(1) candidate_normalised [OF assms(2)]] show ?thesis
    by (simp add: list_all_iff)
next
  case False
  then obtain e where "e \<in> set (resolved_entries_with_cwd fs p cwd)" "covers file e" by (auto simp: list_all_iff)
  from decider_exists [OF this] access_decided [OF assms(1) candidate_normalised [OF assms(2)]]
  show ?thesis by blast
qed


definition workspace_env :: fs_env where
  "workspace_env = \<lparr>path_env = \<lparr>home_dir = None, process_dir = None\<rparr>, tmpdir_var = None,
     is_dir = (\<lambda>p. True), is_file = (\<lambda>p. False), path_exists = (\<lambda>p. True), read_text = (\<lambda>p. None)\<rparr>"

definition sample_dir :: "string \<Rightarrow> path" where
  "sample_dir n = [RootDir, NormalComponent n]"

definition workspace_policy :: file_system_sandbox_policy where
  "workspace_policy = restricted [mk_entry (Special Special_Root) AccessRead,
     mk_entry (Special Special_CurrentWorkingDirectory) AccessWrite,
     mk_entry (Path (sample_dir ''w'' @ [NormalComponent ''secret''])) AccessNone]"

lemma sample_facts:
  "policy_kind workspace_policy = Restricted" "wf_env workspace_env" "wf_policy workspace_policy"
  "normalised (sample_dir ''w'')" "is_dir workspace_env slash_tmp" "\<not> has_full_disk_write_access workspace_policy"
  by code_simp+

subsection \<open>Full access is access to every path\<close>

lemma share_target_resolves:
  assumes "normalised cwd" and "is_dir fs slash_tmp" and "file_system_paths_share_target a b"
    and "case a of Path q \<Rightarrow> normalised q | Special _ \<Rightarrow> True"
    and "case b of Path q \<Rightarrow> normalised q | Special _ \<Rightarrow> True"
  shows "resolve_entry_path fs a (Some cwd) = resolve_entry_path fs b (Some cwd)"
proof -
  have root: "q = [RootDir]" if "normalised q" "path_parent q = None" for q
    using that by (auto simp: normalised_def path_parent_def last_map split: if_splits)
  show ?thesis
  proof (cases a)
    case a: (Path p)
    show ?thesis
    proof (cases b)
      case (Special v)
      then show ?thesis using a assms root take_root [OF assms(1)]
        by (cases v) (auto simp: resolve_entry_path_def)
    qed (use a assms(3) in auto)
  next
    case a: (Special v)
    show ?thesis
    proof (cases b)
      case (Path p)
      then show ?thesis using a assms root take_root [OF assms(1)]
        by (cases v) (auto simp: resolve_entry_path_def)
    next
      case (Special w)
      with a assms(3) show ?thesis
        by (cases "(v, w)" rule: special_paths_share_target.cases) (auto simp: resolve_entry_path_def)
    qed
  qed
qed

lemma root_covers: "normalised q \<Longrightarrow> starts_with q [RootDir]"
  by (auto simp: normalised_def starts_with_def)

lemma write_beats_read: "AccessRead < AccessWrite"
  by (simp add: less_eq_file_system_access_mode_def less_file_system_access_mode_def)

lemma overridden_not_decider:
  assumes "c \<in> set es" and "resolved_path c = resolved_path m" and "resolved_access m < resolved_access c"
  shows "\<not> decides q es m"
proof
  assume m: "decides q es m"
  then have "covers q c" using assms(2) by (simp add: decides_def covers_def)
  with m assms(1) have "resolved_entry_precedence c \<le> resolved_entry_precedence m" by (simp add: decides_def)
  with assms(2,3) show False by (simp add: resolved_entry_precedence_def)
qed

text \<open>The entry of the policy behind a resolved one.\<close>

lemma resolved_entry_source:
  assumes "normalised cwd" and "m \<in> set (resolved_entries_with_cwd fs p cwd)"
  obtains e where "e \<in> set (policy_entries p)" and "resolve_entry_path fs (entry_path e) (Some cwd) = Some (resolved_path m)"
    and "resolved_access m = entry_access e"
  using assms by (auto simp: resolved_entries_member absolute_cwd_normalised)

lemma resolved_entry_of:
  assumes "normalised cwd" and "e \<in> set (policy_entries p)"
    and "resolve_entry_path fs (entry_path e) (Some cwd) = Some q"
  shows "\<lparr>resolved_path = q, resolved_access = entry_access e\<rparr> \<in> set (resolved_entries_with_cwd fs p cwd)"
  using assms by (auto simp: resolved_entries_member absolute_cwd_normalised)

lemma wf_policy_entry: "wf_policy p \<Longrightarrow> e \<in> set (policy_entries p) \<Longrightarrow>
    (case entry_path e of Path q \<Rightarrow> normalised q | Special _ \<Rightarrow> True)"
  by (simp add: wf_policy_def list_all_iff)

lemma override_beats:
  assumes "normalised cwd" and "is_dir fs slash_tmp" and "wf_policy p"
    and "e \<in> set (policy_entries p)" and "resolve_entry_path fs (entry_path e) (Some cwd) = Some (resolved_path m)"
    and "resolved_access m = entry_access e" and "has_same_target_write_override p e"
  shows "\<not> decides q (resolved_entries_with_cwd fs p cwd) m"
proof -
  from assms(7) obtain c where c: "c \<in> set (policy_entries p)" "entry_access e < entry_access c"
    "file_system_paths_share_target (entry_path c) (entry_path e)"
    by (auto simp: has_same_target_write_override_def list_ex_iff)
  have res: "resolve_entry_path fs (entry_path c) (Some cwd) = Some (resolved_path m)"
    using share_target_resolves [OF assms(1,2) c(3)] wf_policy_entry [OF assms(3)] c(1) assms(4,5) by simp
  show ?thesis
    by (rule overridden_not_decider [OF resolved_entry_of [OF assms(1) c(1) res]])
      (use c(2) assms(6) in simp_all)
qed

lemma narrowing_or_not_decider:
  assumes "normalised cwd" and "is_dir fs slash_tmp" and "wf_policy p"
    and root: "e0 \<in> set (policy_entries p)" "entry_path e0 = Special Special_Root" "can_write (entry_access e0)"
    and e: "e \<in> set (policy_entries p)" "resolve_entry_path fs (entry_path e) (Some cwd) = Some (resolved_path m)"
      "resolved_access m = entry_access e"
    and dec: "decides q (resolved_entries_with_cwd fs p cwd) m" and "\<not> can_write (resolved_access m)"
  shows "narrows_write p e"
proof (rule ccontr)
  assume not: "\<not> narrows_write p e"
  have no_override: "\<not> has_same_target_write_override p e" using override_beats [OF assms(1-3) e] dec by blast
  with not assms(11) e(3) have cases: "(entry_path e = Special Special_Root \<and> entry_access e \<noteq> AccessNone) \<or>
      entry_path e = Special Special_Minimal \<or> (\<exists>u s. entry_path e = Special (Special_Unknown u s))"
    by (auto simp: narrows_write_def split: file_system_path.splits file_system_special_path.splits if_splits)
  then show False
  proof (elim disjE)
    assume r: "entry_path e = Special Special_Root \<and> entry_access e \<noteq> AccessNone"
    then have path: "resolved_path m = [RootDir]" using e(2) take_root [OF assms(1)] by (simp add: resolve_entry_path_def)
    have "resolve_entry_path fs (entry_path e0) (Some cwd) = Some [RootDir]"
      using root(2) take_root [OF assms(1)] by (simp add: resolve_entry_path_def)
    note r0 = resolved_entry_of [OF assms(1) root(1) this]
    have "entry_access e = AccessRead" using r assms(11) e(3) by (cases "entry_access e") (auto simp: can_write_def)
    moreover have "entry_access e0 = AccessWrite" using root(3) by (simp add: can_write_def)
    ultimately have "resolved_access m < entry_access e0" using e(3) write_beats_read by simp
    with overridden_not_decider [OF r0, of m q] path dec show False by simp
  qed (use e(2) in \<open>auto simp: resolve_entry_path_def\<close>)
qed

lemma full_write_reaches:
  assumes "has_full_disk_write_access p" and "wf_policy p" and "normalised cwd" and "is_dir fs slash_tmp"
    and "normalised q"
  shows "can_write_path_with_cwd fs p q cwd"
proof (cases "policy_kind p = Restricted")
  case False
  then show ?thesis by (simp add: can_write_path_with_cwd_def resolve_access_with_cwd_def can_write_def)
next
  case True
  let ?es = "resolved_entries_with_cwd fs p cwd"
  from assms(1) True obtain e0 where e0: "e0 \<in> set (policy_entries p)" "entry_path e0 = Special Special_Root"
    "can_write (entry_access e0)" and no_narrow: "\<forall>e \<in> set (policy_entries p). \<not> narrows_write p e"
    by (auto simp: has_full_disk_write_access_def has_root_access_def has_write_narrowing_entries_def list_ex_iff)
  have "resolve_entry_path fs (entry_path e0) (Some cwd) = Some [RootDir]"
    using e0(2) take_root [OF assms(3)] by (simp add: resolve_entry_path_def)
  from resolved_entry_of [OF assms(3) e0(1) this] obtain m where m: "decides q ?es m"
    using decider_exists [of "\<lparr>resolved_path = [RootDir], resolved_access = entry_access e0\<rparr>" ?es q]
      root_covers [OF assms(5)] by (auto simp: covers_def)
  then have "m \<in> set ?es" by (simp add: decides_def)
  then obtain e where e: "e \<in> set (policy_entries p)"
    "resolve_entry_path fs (entry_path e) (Some cwd) = Some (resolved_path m)" "resolved_access m = entry_access e"
    by (rule resolved_entry_source [OF assms(3)])
  have "can_write (resolved_access m)"
    using narrowing_or_not_decider [OF assms(3,4,2) e0 e m] no_narrow e(1) by blast
  then show ?thesis
    by (simp add: can_write_path_with_cwd_def access_decided [OF True candidate_normalised [OF assms(5)] m])
qed

lemma full_read_reaches:
  assumes "has_full_disk_read_access p" and "normalised cwd" and "normalised q"
  shows "can_read_path_with_cwd fs p q cwd"
proof (cases "policy_kind p = Restricted")
  case False
  then show ?thesis by (simp add: can_read_path_with_cwd_def resolve_access_with_cwd_def can_read_def)
next
  case True
  let ?es = "resolved_entries_with_cwd fs p cwd"
  from assms(1) True obtain e0 where e0: "e0 \<in> set (policy_entries p)" "entry_path e0 = Special Special_Root"
    and no_deny: "\<forall>e \<in> set (policy_entries p). entry_access e \<noteq> AccessNone"
    by (auto simp: has_full_disk_read_access_def has_root_access_def has_explicit_deny_entries_def list_ex_iff)
  have "resolve_entry_path fs (entry_path e0) (Some cwd) = Some [RootDir]"
    using e0(2) take_root [OF assms(2)] by (simp add: resolve_entry_path_def)
  from resolved_entry_of [OF assms(2) e0(1) this] obtain m where m: "decides q ?es m"
    using decider_exists [of "\<lparr>resolved_path = [RootDir], resolved_access = entry_access e0\<rparr>" ?es q]
      root_covers [OF assms(3)] by (auto simp: covers_def)
  then have "m \<in> set ?es" by (simp add: decides_def)
  then obtain e where "e \<in> set (policy_entries p)" "resolved_access m = entry_access e"
    by (rule resolved_entry_source [OF assms(2)])
  with no_deny have "can_read (resolved_access m)" by (simp add: can_read_def)
  then show ?thesis
    by (simp add: can_read_path_with_cwd_def access_decided [OF True candidate_normalised [OF assms(3)] m])
qed

text \<open>A policy that claims full read or write access gives it: every path can be read, or written,
  whatever the other entries say.  (The directory \<^verbatim>\<open>/tmp\<close> has to exist; an entry for it only
  resolves when it does.)\<close>

lemma full_access_reaches_every_path:
  assumes "wf_policy p" and "normalised cwd" and "normalised file" and "is_dir fs slash_tmp"
  shows "(if has_full_disk_write_access p then can_write_path_with_cwd fs p file cwd else True) \<and>
    (if has_full_disk_read_access p then can_read_path_with_cwd fs p file cwd else True)"
  using full_write_reaches [OF _ assms(1,2,4,3)] full_read_reaches [OF _ assms(2,3)] by simp


subsection \<open>The writable roots are the writable paths\<close>

lemma decider_decides_itself:
  assumes "decides q es m"
  shows "decides (resolved_path m) es m"
  using assms unfolding decides_def covers_def starts_with_def
  by (auto intro: prefix_order.trans)

lemma access_of_decider:
  assumes "policy_kind p = Restricted" and "wf_env fs" and "wf_policy p" and "normalised cwd"
    and "decides q (resolved_entries_with_cwd fs p cwd) m"
  shows "resolve_access_with_cwd fs p (resolved_path m) cwd = resolved_access m"
proof -
  have "m \<in> set (resolved_entries_with_cwd fs p cwd)" using assms(5) by (simp add: decides_def)
  from resolved_paths_normalised [OF assms(2-4) this] candidate_normalised
  show ?thesis by (blast intro: access_decided [OF assms(1)] decider_decides_itself [OF assms(5)])
qed

lemma read_only_roots_member:
  "s \<in> set (read_only_roots fs p cwd) \<longleftrightarrow>
     (\<exists>e \<in> set (resolved_entries_with_cwd fs p cwd). resolved_path e = s \<and> \<not> can_write (resolved_access e) \<and>
        \<not> can_write_path_with_cwd fs p s cwd)"
  by (auto simp: read_only_roots_def)

lemma writable_roots_member:
  "\<not> has_full_disk_write_access p \<Longrightarrow>
   r \<in> set (get_writable_roots_with_cwd fs p cwd) \<longleftrightarrow>
     (\<exists>e \<in> set (resolved_entries_with_cwd fs p cwd). resolved_path e = root r \<and> can_write (resolved_access e)) \<and>
     can_write_path_with_cwd fs p (root r) cwd \<and>
     read_only_subpaths r = dedup_absolute_paths
       (default_read_only_subpaths_for_writable_root fs (root r) @
        filter (\<lambda>q. starts_with q (root r)) (filter (\<lambda>q. q \<noteq> root r) (read_only_roots fs p cwd)))"
  by (cases r) (auto simp: get_writable_roots_with_cwd_def image_iff)

lemma writable_root_sound:
  assumes "policy_kind p = Restricted" and "wf_env fs" and "wf_policy p" and "normalised cwd"
    and "\<not> has_full_disk_write_access p" and "normalised file"
    and "r \<in> set (get_writable_roots_with_cwd fs p cwd)" and "is_path_writable r file"
  shows "can_write_path_with_cwd fs p file cwd"
proof -
  let ?es = "resolved_entries_with_cwd fs p cwd"
  from assms(7) obtain e where e: "e \<in> set ?es" "resolved_path e = root r" "can_write (resolved_access e)"
    and root_ok: "can_write_path_with_cwd fs p (root r) cwd"
    and subs: "set (read_only_subpaths r) = set (default_read_only_subpaths_for_writable_root fs (root r)) \<union>
      {q \<in> set (read_only_roots fs p cwd). q \<noteq> root r \<and> starts_with q (root r)}"
    by (auto simp: writable_roots_member [OF assms(5)])
  from assms(8) have under: "starts_with file (root r)"
    and not_sub: "\<forall>s \<in> set (read_only_subpaths r). \<not> starts_with file s"
    by (auto simp: is_path_writable_def list_ex_iff split: if_splits)
  have "covers file e" using under e(2) by (simp add: covers_def)
  from decider_exists [OF e(1) this] obtain m where m: "decides file ?es m" by blast
  then have m_in: "m \<in> set ?es" and m_covers: "prefix (resolved_path m) file"
    by (simp_all add: decides_def covers_def starts_with_def)
  have "can_write (resolved_access m)"
  proof (rule ccontr)
    assume no: "\<not> can_write (resolved_access m)"
    have m_access: "resolve_access_with_cwd fs p (resolved_path m) cwd = resolved_access m"
      by (rule access_of_decider [OF assms(1-4) m])
    with no have m_no: "\<not> can_write_path_with_cwd fs p (resolved_path m) cwd"
      by (simp add: can_write_path_with_cwd_def)
    with root_ok have neq: "resolved_path m \<noteq> root r" by auto
    have "resolved_entry_precedence e \<le> resolved_entry_precedence m"
      using m e(1) \<open>covers file e\<close> by (simp add: decides_def)
    then have "length (root r) \<le> length (resolved_path m)"
      using e(2) by (auto simp: resolved_entry_precedence_def)
    with under m_covers have "starts_with (resolved_path m) (root r)"
      unfolding starts_with_def by (metis prefix_length_prefix)
    then have "resolved_path m \<in> set (read_only_subpaths r)"
      using subs neq m_in no m_no by (auto simp: read_only_roots_member)
    with not_sub m_covers show False by (simp add: starts_with_def)
  qed
  then show ?thesis
    by (simp add: can_write_path_with_cwd_def access_decided [OF assms(1) candidate_normalised [OF assms(6)] m])
qed

lemma writable_root_complete:
  assumes "policy_kind p = Restricted" and "wf_env fs" and "wf_policy p" and "normalised cwd"
    and "\<not> has_full_disk_write_access p" and "normalised file" and "can_write_path_with_cwd fs p file cwd"
  shows "\<exists>r \<in> set (get_writable_roots_with_cwd fs p cwd). starts_with file (root r) \<and>
    (\<forall>s \<in> set (read_only_subpaths r). starts_with file s \<longrightarrow>
       s \<in> set (default_read_only_subpaths_for_writable_root fs (root r)))"
proof -
  let ?es = "resolved_entries_with_cwd fs p cwd"
  have "\<exists>m. decides file ?es m"
  proof (rule ccontr)
    assume "\<not> (\<exists>m. decides file ?es m)"
    then have "\<forall>e \<in> set ?es. \<not> covers file e" using decider_exists by blast
    with access_uncovered [OF assms(1) candidate_normalised [OF assms(6)]] assms(7) show False
      by (simp add: can_write_path_with_cwd_def can_write_def)
  qed
  then obtain m where m: "decides file ?es m" ..
  then have m_in: "m \<in> set ?es" and m_covers: "prefix (resolved_path m) file"
    by (simp_all add: decides_def covers_def starts_with_def)
  have m_write: "can_write (resolved_access m)"
    using assms(7) access_decided [OF assms(1) candidate_normalised [OF assms(6)] m]
    by (simp add: can_write_path_with_cwd_def)
  then have "can_write_path_with_cwd fs p (resolved_path m) cwd"
    using access_of_decider [OF assms(1-4) m] by (simp add: can_write_path_with_cwd_def)
  define r where "r = \<lparr>root = resolved_path m, read_only_subpaths = dedup_absolute_paths
       (default_read_only_subpaths_for_writable_root fs (resolved_path m) @
        filter (\<lambda>q. starts_with q (resolved_path m)) (filter (\<lambda>q. q \<noteq> resolved_path m) (read_only_roots fs p cwd)))\<rparr>"
  have "r \<in> set (get_writable_roots_with_cwd fs p cwd)"
    using m_in m_write \<open>can_write_path_with_cwd fs p (resolved_path m) cwd\<close>
    by (auto simp: writable_roots_member [OF assms(5)] r_def)
  moreover have "s \<in> set (default_read_only_subpaths_for_writable_root fs (resolved_path m))"
    if s: "s \<in> set (read_only_subpaths r)" "starts_with file s" for s
  proof (rule ccontr)
    assume "s \<notin> set (default_read_only_subpaths_for_writable_root fs (resolved_path m))"
    with s(1) have "s \<in> set (read_only_roots fs p cwd)" "s \<noteq> resolved_path m" "prefix (resolved_path m) s"
      by (auto simp: r_def starts_with_def)
    then obtain e where e: "e \<in> set ?es" "resolved_path e = s" by (auto simp: read_only_roots_member)
    have "length (resolved_path m) < length s"
      using \<open>s \<noteq> resolved_path m\<close> \<open>prefix (resolved_path m) s\<close> by (auto simp: prefix_def)
    moreover have "resolved_entry_precedence e \<le> resolved_entry_precedence m"
      using m e s(2) by (simp add: decides_def covers_def)
    ultimately show False using e(2) by (auto simp: resolved_entry_precedence_def)
  qed
  moreover have "root r = resolved_path m" by (simp add: r_def)
  ultimately show ?thesis using m_covers by (intro bexI [of _ r]) (auto simp: starts_with_def)
qed

text \<open>C35: The writable roots that a sandbox is given agree with the access modes: a path that is writable
  under a root, outside its read-only parts, may be written; and a path that may be written is
  under a root and outside its read-only parts, but for those that every root has by default
  (the repository's \<^verbatim>\<open>.git\<close> and the like).\<close>

theorem writable_roots_agree_with_access:
  assumes "policy_kind p = Restricted" and "wf_env fs" and "wf_policy p" and "normalised cwd"
    and "\<not> has_full_disk_write_access p" and "normalised file"
  shows "(if list_ex (\<lambda>r. is_path_writable r file) (get_writable_roots_with_cwd fs p cwd)
      then can_write_path_with_cwd fs p file cwd else True) \<and>
    (if can_write_path_with_cwd fs p file cwd
     then list_ex (\<lambda>r. starts_with file (root r) \<and>
        list_all (\<lambda>s. \<not> starts_with file s \<or> s \<in> set (default_read_only_subpaths_for_writable_root fs (root r)))
          (read_only_subpaths r)) (get_writable_roots_with_cwd fs p cwd)
     else True)"
proof (intro conjI)
  show "if list_ex (\<lambda>r. is_path_writable r file) (get_writable_roots_with_cwd fs p cwd)
      then can_write_path_with_cwd fs p file cwd else True"
    using writable_root_sound [OF assms] by (auto simp: list_ex_iff)
  show "if can_write_path_with_cwd fs p file cwd
     then list_ex (\<lambda>r. starts_with file (root r) \<and>
        list_all (\<lambda>s. \<not> starts_with file s \<or> s \<in> set (default_read_only_subpaths_for_writable_root fs (root r)))
          (read_only_subpaths r)) (get_writable_roots_with_cwd fs p cwd)
     else True"
    using writable_root_complete [OF assms] by (fastforce simp: list_ex_iff list_all_iff)
qed


theorem writable_roots_agree_with_access_witness:
  "(if list_ex (\<lambda>r. is_path_writable r (sample_dir ''w''))
        (get_writable_roots_with_cwd workspace_env workspace_policy (sample_dir ''w''))
      then can_write_path_with_cwd workspace_env workspace_policy (sample_dir ''w'') (sample_dir ''w'') else True) \<and>
    (if can_write_path_with_cwd workspace_env workspace_policy (sample_dir ''w'') (sample_dir ''w'')
     then list_ex (\<lambda>r. starts_with (sample_dir ''w'') (root r) \<and>
        list_all (\<lambda>s. \<not> starts_with (sample_dir ''w'') s \<or>
            s \<in> set (default_read_only_subpaths_for_writable_root workspace_env (root r)))
          (read_only_subpaths r)) (get_writable_roots_with_cwd workspace_env workspace_policy (sample_dir ''w''))
     else True)"
  by (rule writable_roots_agree_with_access [OF sample_facts(1,2,3,4,6,4)])

subsection \<open>Older policies survive the conversion\<close>

text \<open>A policy after the conversion and back: lists of roots lose their duplicates, the working
  directory is no separate root, and a read-only policy with explicit roots names it among them.\<close>

definition canonical_reads :: "read_only_access \<Rightarrow> read_only_access" where
  "canonical_reads a =
     (case a of FullAccess \<Rightarrow> FullAccess | RestrictedReads b rs \<Rightarrow> RestrictedReads b (dedup_absolute_paths rs))"

fun canonical_policy :: "path \<Rightarrow> sandbox_policy \<Rightarrow> sandbox_policy" where
  "canonical_policy cwd (ReadOnly (RestrictedReads b rs) net) =
     ReadOnly (RestrictedReads b (dedup_absolute_paths (cwd # rs))) net"
| "canonical_policy cwd (WorkspaceWrite ws reads net t s) =
     WorkspaceWrite (dedup_absolute_paths (filter (\<lambda>q. q \<noteq> cwd) ws)) (canonical_reads reads) net t s"
| "canonical_policy cwd p = p"

lemma legacy_fold_read_paths:
  "fold (legacy_step fs cwd) (map (\<lambda>q. mk_entry (Path q) AccessRead) rs) st =
     st\<lparr>ls_readable_roots := ls_readable_roots st @ rs\<rparr>"
  by (induction rs arbitrary: st)
    (auto simp: legacy_step_def mk_entry_def can_write_def can_read_def push_readable_def)

lemma legacy_fold_write_paths:
  "fold (legacy_step fs (Some cwd)) (map (\<lambda>q. mk_entry (Path q) AccessWrite) ws) st =
     st\<lparr>ls_workspace_writable := ls_workspace_writable st \<or> cwd \<in> set ws,
        ls_writable_roots := ls_writable_roots st @ filter (\<lambda>q. q \<noteq> cwd) ws\<rparr>"
  by (induction ws arbitrary: st)
    (auto simp: legacy_step_def mk_entry_def can_write_def can_read_def push_writable_def)

lemma legacy_steps:
  "legacy_step fs (Some cwd) (mk_entry (Special Special_CurrentWorkingDirectory) AccessWrite) st =
     st\<lparr>ls_workspace_writable := True\<rparr>"
  "legacy_step fs (Some cwd) (mk_entry (Special Special_CurrentWorkingDirectory) AccessRead) st =
     push_readable cwd st"
  "legacy_step fs (Some cwd) (mk_entry (Special Special_Root) AccessRead) st = st\<lparr>ls_full_read := True\<rparr>"
  "legacy_step fs (Some cwd) (mk_entry (Special Special_Minimal) AccessRead) st = st\<lparr>ls_platform_defaults := True\<rparr>"
  "legacy_step fs (Some cwd) (mk_entry (Special Special_SlashTmp) AccessWrite) st = st\<lparr>ls_slash_tmp_writable := True\<rparr>"
  "legacy_step fs (Some cwd) (mk_entry (Special Special_Tmpdir) AccessWrite) st = st\<lparr>ls_tmpdir_writable := True\<rparr>"
  by (simp_all add: legacy_step_def mk_entry_def can_write_def can_read_def push_readable_special_def)

text \<open>C36: An older policy that is turned into file-system permissions, and back with its own network
  setting, is the policy it was, up to duplicate roots and the working directory among the roots.\<close>

theorem older_policies_survive_the_conversion:
  assumes "normalised cwd"
  shows "to_legacy_sandbox_policy fs (from_sandbox_policy p) (network_of_policy p) cwd = Inr (canonical_policy cwd p)"
proof -
  note defs = to_legacy_sandbox_policy_def absolute_cwd_normalised [OF assms] network_of_policy_def
    network_is_enabled_def Let_def restricted_def legacy_start_def legacy_fold_read_paths
    legacy_fold_write_paths legacy_steps push_readable_def
  show ?thesis
  proof (cases p)
    case DangerFullAccess
    then show ?thesis by (simp add: defs unrestricted_def no_filesystem_policy_def)
  next
    case (ExternalSandboxPolicy a)
    then show ?thesis by (cases a) (simp_all add: defs external_sandbox_def network_access_is_enabled_def)
  next
    case (ReadOnly a net)
    then show ?thesis by (cases a) (simp_all add: defs)
  next
    case (WorkspaceWrite ws a net t s)
    then show ?thesis by (cases a) (simp_all add: defs canonical_reads_def)
  qed
qed


theorem older_policies_survive_the_conversion_witness:
  "to_legacy_sandbox_policy workspace_env (from_sandbox_policy new_workspace_write_policy)
     (network_of_policy new_workspace_write_policy) (sample_dir ''w'') =
   Inr (canonical_policy (sample_dir ''w'') new_workspace_write_policy)"
  by (rule older_policies_survive_the_conversion [OF sample_facts(4)])

end
