(* ===== verification/Exec_Approval.thy ===== *)
theory Exec_Approval
  imports Approval_Policy Policy_Builder Command_Safety File_System_Policy
begin

section \<open>Approval of commands\<close>

text \<open>
  A model of \<^verbatim>\<open>codex-rs/core/src/exec_policy.rs\<close>, for a target that is not Windows: whether a
  command runs, asks, or is refused, given the execution policy, the user's approval policy, and
  the sandbox; and the amendments of the policy that are proposed and applied.

  The policy that the manager holds is an argument, and what an update returns.  Of the sandbox
  policies the code reads here only the kind.  The quoting of commands (\<^verbatim>\<open>shlex\<close>), the shell
  parser, PowerShell, and paths are parameters.
\<close>

subsection \<open>Prompts that the user has ruled out\<close>

definition PROMPT_CONFLICT_REASON :: string where
  "PROMPT_CONFLICT_REASON = ''approval required by policy, but AskForApproval is set to Never''"

definition REJECT_SANDBOX_APPROVAL_REASON :: string where
  "REJECT_SANDBOX_APPROVAL_REASON =
     ''approval required by policy, but AskForApproval::Reject.sandbox_approval is set''"

definition REJECT_RULES_APPROVAL_REASON :: string where
  "REJECT_RULES_APPROVAL_REASON =
     ''approval required by policy rule, but AskForApproval::Reject.rules is set''"

definition prompt_is_rejected_by_policy :: "ask_for_approval \<Rightarrow> bool \<Rightarrow> string option" where
  "prompt_is_rejected_by_policy approval prompt_is_rule =
     (case approval of
        Never \<Rightarrow> Some PROMPT_CONFLICT_REASON
      | OnFailure \<Rightarrow> None
      | OnRequest \<Rightarrow> None
      | UnlessTrusted \<Rightarrow> None
      | Reject c \<Rightarrow>
          if prompt_is_rule then
            (if rejects_rules_approval c then Some REJECT_RULES_APPROVAL_REASON else None)
          else if rejects_sandbox_approval c then Some REJECT_SANDBOX_APPROVAL_REASON
          else None)"

subsection \<open>Commands that no rule matches\<close>

definition render_decision_for_unmatched_command ::
  "safety_env \<Rightarrow> ask_for_approval \<Rightarrow> file_system_sandbox_kind \<Rightarrow> string list \<Rightarrow> sandbox_permissions \<Rightarrow> bool \<Rightarrow>
   decision"
where
  "render_decision_for_unmatched_command env approval kind cmd perms used_complex_parsing =
     (if is_known_safe_command env cmd \<and> \<not> used_complex_parsing then Allow
      else if command_might_be_dangerous env cmd then
        (case approval of Never \<Rightarrow> Forbidden | _ \<Rightarrow> Prompt)
      else
        (case approval of
           Never \<Rightarrow> Allow
         | OnFailure \<Rightarrow> Allow
         | UnlessTrusted \<Rightarrow> Prompt
         | OnRequest \<Rightarrow>
             (case kind of
                Unrestricted \<Rightarrow> Allow
              | ExternalSandbox \<Rightarrow> Allow
              | Restricted \<Rightarrow> if requests_sandbox_override perms then Prompt else Allow)
         | Reject _ \<Rightarrow>
             (case kind of
                Unrestricted \<Rightarrow> Allow
              | ExternalSandbox \<Rightarrow> Allow
              | Restricted \<Rightarrow> if requests_sandbox_override perms then Prompt else Allow)))"

definition commands_for_exec_policy :: "shell_parser \<Rightarrow> string list \<Rightarrow> string list list \<times> bool" where
  "commands_for_exec_policy parse cmd =
     (case parse_shell_lc_plain_commands parse cmd of
        Some (c # cs) \<Rightarrow> (c # cs, False)
      | _ \<Rightarrow>
          (case parse_shell_lc_single_command_prefix parse cmd of
             Some single_command \<Rightarrow> ([single_command], True)
           | None \<Rightarrow> ([cmd], False)))"

subsection \<open>Amendments\<close>

fun is_policy_match :: "'p rule_match \<Rightarrow> bool" where
  "is_policy_match (PrefixRuleMatch _ _ _ _) = True"
| "is_policy_match (HeuristicsRuleMatch _ _) = False"

text \<open>\<open>find_map\<close>.\<close>

fun find_map :: "('a \<Rightarrow> 'b option) \<Rightarrow> 'a list \<Rightarrow> 'b option" where
  "find_map f [] = None"
| "find_map f (x # xs) = (case f x of Some y \<Rightarrow> Some y | None \<Rightarrow> find_map f xs)"

fun heuristics_command :: "decision \<Rightarrow> 'p rule_match \<Rightarrow> string list option" where
  "heuristics_command d (HeuristicsRuleMatch cmd d') = (if d' = d then Some cmd else None)"
| "heuristics_command d (PrefixRuleMatch _ _ _ _) = None"

definition try_derive_execpolicy_amendment_for_prompt_rules :: "'p rule_match list \<Rightarrow> string list option" where
  "try_derive_execpolicy_amendment_for_prompt_rules ms =
     (if list_ex (\<lambda>m. is_policy_match m \<and> match_decision m = Prompt) ms then None
      else find_map (heuristics_command Prompt) ms)"

definition try_derive_execpolicy_amendment_for_allow_rules :: "'p rule_match list \<Rightarrow> string list option" where
  "try_derive_execpolicy_amendment_for_allow_rules ms =
     (if list_ex is_policy_match ms then None else find_map (heuristics_command Allow) ms)"

definition BANNED_PREFIX_SUGGESTIONS :: "string list list" where
  "BANNED_PREFIX_SUGGESTIONS =
     [[''python3''], [''python3'', ''-''], [''python3'', ''-c''],
      [''python''], [''python'', ''-''], [''python'', ''-c''],
      [''py''], [''py'', ''-3''], [''pythonw''], [''pyw''], [''pypy''], [''pypy3''],
      [''git''],
      [''bash''], [''bash'', ''-lc''],
      [''sh''], [''sh'', ''-c''], [''sh'', ''-lc''],
      [''zsh''], [''zsh'', ''-lc''],
      [''/bin/zsh''], [''/bin/zsh'', ''-lc''],
      [''/bin/bash''], [''/bin/bash'', ''-lc''],
      [''pwsh''], [''pwsh'', ''-Command''], [''pwsh'', ''-c''],
      [''powershell''], [''powershell'', ''-Command''], [''powershell'', ''-c''],
      [''powershell.exe''], [''powershell.exe'', ''-Command''], [''powershell.exe'', ''-c''],
      [''env''], [''sudo''],
      [''node''], [''node'', ''-e''],
      [''perl''], [''perl'', ''-e''],
      [''ruby''], [''ruby'', ''-e''],
      [''php''], [''php'', ''-r''],
      [''lua''], [''lua'', ''-e''],
      [''osascript'']]"

text \<open>The check of one command panics if there is no match; there always is one.\<close>

definition prefix_rule_would_approve_all_commands ::
  "'p host_env \<Rightarrow> 'p policy \<Rightarrow> string list \<Rightarrow> string list list \<Rightarrow> (string list \<Rightarrow> decision) \<Rightarrow> match_options \<Rightarrow> bool"
where
  "prefix_rule_would_approve_all_commands env p pre cmds fallback opts =
     (case add_prefix_rule pre Allow p of
        Inl _ \<Rightarrow> False
      | Inr p' \<Rightarrow>
          list_all (\<lambda>cmd. map_option eval_decision (check_with_options env p' cmd fallback opts) = Some Allow) cmds)"

definition derive_requested_execpolicy_amendment_from_prefix_rule ::
  "'p host_env \<Rightarrow> string list option \<Rightarrow> 'p rule_match list \<Rightarrow> 'p policy \<Rightarrow> string list list \<Rightarrow>
   (string list \<Rightarrow> decision) \<Rightarrow> match_options \<Rightarrow> string list option"
where
  "derive_requested_execpolicy_amendment_from_prefix_rule env requested ms p cmds fallback opts =
     (case requested of
        None \<Rightarrow> None
      | Some pre \<Rightarrow>
          if pre = [] then None
          else if list_ex (\<lambda>banned. pre = banned) BANNED_PREFIX_SUGGESTIONS then None
          else if list_ex is_policy_match ms then None
          else if prefix_rule_would_approve_all_commands env p pre cmds fallback opts then Some pre
          else None)"

subsection \<open>Reasons\<close>

type_synonym shlex_join = "string list \<Rightarrow> string option"

definition render_shlex_command :: "shlex_join \<Rightarrow> string list \<Rightarrow> string" where
  "render_shlex_command try_join args =
     (case try_join args of Some s \<Rightarrow> s | None \<Rightarrow> join_str '' '' args)"

fun prefix_justification :: "decision \<Rightarrow> 'p rule_match \<Rightarrow> (string list \<times> string option) option" where
  "prefix_justification d (PrefixRuleMatch matched_prefix d' _ justification) =
     (if d' = d then Some (matched_prefix, justification) else None)"
| "prefix_justification d (HeuristicsRuleMatch _ _) = None"

definition derive_prompt_reason :: "shlex_join \<Rightarrow> string list \<Rightarrow> 'p evaluation \<Rightarrow> string option" where
  "derive_prompt_reason try_join args e =
     (let cmd = render_shlex_command try_join args in
      case max_by_key (length \<circ> fst) (List.map_filter (prefix_justification Prompt) (matched_rules e)) of
        Some (_, Some justification) \<Rightarrow> Some (''`'' @ cmd @ ''` requires approval: '' @ justification)
      | Some (_, None) \<Rightarrow> Some (''`'' @ cmd @ ''` requires approval by policy'')
      | None \<Rightarrow> None)"

definition derive_forbidden_reason :: "shlex_join \<Rightarrow> string list \<Rightarrow> 'p evaluation \<Rightarrow> string" where
  "derive_forbidden_reason try_join args e =
     (let cmd = render_shlex_command try_join args in
      case max_by_key (length \<circ> fst) (List.map_filter (prefix_justification Forbidden) (matched_rules e)) of
        Some (_, Some justification) \<Rightarrow> ''`'' @ cmd @ ''` rejected: '' @ justification
      | Some (matched_prefix, None) \<Rightarrow>
          ''`'' @ cmd @ ''` rejected: policy forbids commands starting with `'' @
          render_shlex_command try_join matched_prefix @ ''`''
      | None \<Rightarrow> ''`'' @ cmd @ ''` rejected: blocked by policy'')"

subsection \<open>The approval of a command\<close>

record 'p approval_env =
  safety :: safety_env
  host :: "'p host_env"
  try_join :: shlex_join

record exec_approval_request =
  req_command :: "string list"
  req_approval_policy :: ask_for_approval
  req_sandbox_kind :: file_system_sandbox_kind
  req_sandbox_permissions :: sandbox_permissions
  req_prefix_rule :: "string list option"

definition approval_options :: match_options where
  "approval_options = \<lparr>resolve_host_executables = True\<rparr>"

definition exec_policy_fallback :: "'p approval_env \<Rightarrow> exec_approval_request \<Rightarrow> string list \<Rightarrow> decision" where
  "exec_policy_fallback env req cmd =
     render_decision_for_unmatched_command (safety env) (req_approval_policy req) (req_sandbox_kind req) cmd
       (req_sandbox_permissions req) (snd (commands_for_exec_policy (shell_parse (safety env)) (req_command req)))"

text \<open>\<open>None\<close> is the panic of an evaluation without matches.\<close>

definition create_exec_approval_requirement_for_command ::
  "'p approval_env \<Rightarrow> 'p policy \<Rightarrow> exec_approval_request \<Rightarrow> exec_approval_requirement option"
where
  "create_exec_approval_requirement_for_command env exec_policy req =
     (let (cmds, used_complex_parsing) = commands_for_exec_policy (shell_parse (safety env)) (req_command req);
          auto_amendment_allowed = \<not> used_complex_parsing;
          fallback = exec_policy_fallback env req
      in case check_multiple_with_options (host env) exec_policy cmds fallback approval_options of
           None \<Rightarrow> None
         | Some e \<Rightarrow>
             (let requested_amendment =
                    derive_requested_execpolicy_amendment_from_prefix_rule (host env) (req_prefix_rule req)
                      (matched_rules e) exec_policy cmds fallback approval_options
              in Some (case eval_decision e of
                   Forbidden \<Rightarrow> ForbiddenApproval (derive_forbidden_reason (try_join env) (req_command req) e)
                 | Prompt \<Rightarrow>
                     (let prompt_is_rule =
                            list_ex (\<lambda>m. is_policy_match m \<and> match_decision m = Prompt) (matched_rules e)
                      in case prompt_is_rejected_by_policy (req_approval_policy req) prompt_is_rule of
                           Some reason \<Rightarrow> ForbiddenApproval reason
                         | None \<Rightarrow>
                             NeedsApproval (derive_prompt_reason (try_join env) (req_command req) e)
                               (case requested_amendment of
                                  Some pre \<Rightarrow> Some pre
                                | None \<Rightarrow>
                                    if auto_amendment_allowed
                                    then try_derive_execpolicy_amendment_for_prompt_rules (matched_rules e)
                                    else None))
                 | Allow \<Rightarrow>
                     Skip (list_ex (\<lambda>m. is_policy_match m \<and> match_decision m = Allow) (matched_rules e))
                       (if auto_amendment_allowed
                        then try_derive_execpolicy_amendment_for_allow_rules (matched_rules e)
                        else None))))"

subsection \<open>Updates of the policy and its file\<close>

datatype exec_policy_update_error =
    AppendRule amend_error
  | JoinBlockingTask string
  | AddRule policy_error

text \<open>The state is the policy in memory and the contents of \<^verbatim>\<open>rules/default.rules\<close>, which may be
  missing.  A blocking task that cannot be joined did not run.\<close>

type_synonym 'p policy_state = "'p policy \<times> string option"

record update_os =
  json_string :: "string \<Rightarrow> (string, string) result"
  amend_calls :: amend_os
  fail_join :: "string option"

definition append_amendment_and_update ::
  "update_os \<Rightarrow> string list \<Rightarrow> 'p policy_state \<Rightarrow> 'p policy_state \<times> (exec_policy_update_error, unit) result"
where
  "append_amendment_and_update os pre st =
     (case st of (p, file) \<Rightarrow>
        (case fail_join os of
           Some e \<Rightarrow> ((p, file), Inl (JoinBlockingTask e))
         | None \<Rightarrow>
             (case blocking_append_allow_prefix_rule (json_string os) (amend_calls os) pre file of
                (file, Inl e) \<Rightarrow> ((p, file), Inl (AppendRule e))
              | (file, Inr _) \<Rightarrow>
                  (case add_prefix_rule pre Allow p of
                     Inl e \<Rightarrow> ((p, file), Inl (AddRule e))
                   | Inr p' \<Rightarrow> ((p', file), Inr ())))))"

definition append_network_rule_and_update ::
  "update_os \<Rightarrow> string \<Rightarrow> network_rule_protocol \<Rightarrow> decision \<Rightarrow> string option \<Rightarrow> 'p policy_state \<Rightarrow>
   'p policy_state \<times> (exec_policy_update_error, unit) result"
where
  "append_network_rule_and_update os nhost proto d justification st =
     (case st of (p, file) \<Rightarrow>
        (case fail_join os of
           Some e \<Rightarrow> ((p, file), Inl (JoinBlockingTask e))
         | None \<Rightarrow>
             (case blocking_append_network_rule (json_string os) (amend_calls os) nhost proto d justification file of
                (file, Inl e) \<Rightarrow> ((p, file), Inl (AppendRule e))
              | (file, Inr _) \<Rightarrow>
                  (case add_network_rule nhost proto d justification p of
                     Inl e \<Rightarrow> ((p, file), Inl (AddRule e))
                   | Inr p' \<Rightarrow> ((p', file), Inr ())))))"

subsection \<open>The commands and their matches\<close>

lemma commands_nonempty: "fst (commands_for_exec_policy parse cmd) \<noteq> []"
  by (simp add: commands_for_exec_policy_def split: option.split list.split)

text \<open>The rules that match a command, and what is evaluated when there are none.\<close>

definition policy_matches :: "'p host_env \<Rightarrow> 'p policy \<Rightarrow> string list \<Rightarrow> 'p rule_match list" where
  "policy_matches env p cmd = matches_for_command_with_options env p cmd None approval_options"

lemma matches_with_fallback:
  "matches_for_command_with_options env p cmd (Some fb) approval_options =
     (if policy_matches env p cmd = [] then [HeuristicsRuleMatch cmd (fb cmd)] else policy_matches env p cmd)"
  by (simp add: policy_matches_def matches_for_command_with_options_def Let_def)

lemma rule_matches_policy: "rule_matches r cmd = Some m \<Longrightarrow> is_policy_match m"
  by (auto simp: rule_matches_def)

lemma with_resolved_policy: "is_policy_match (with_resolved_program x m) = is_policy_match m"
  by (cases m) simp_all

lemma with_resolved_decision [simp]: "match_decision (with_resolved_program x m) = match_decision m"
  by (cases m) simp_all

lemma map_filter_members: "x \<in> set (List.map_filter f xs) \<longleftrightarrow> (\<exists>y \<in> set xs. f y = Some x)"
  by (force simp: List.map_filter_def)

lemma filtered_matches_policy: "m \<in> set (List.map_filter (\<lambda>r. rule_matches r cmd) rs) \<Longrightarrow> is_policy_match m"
  by (auto simp: map_filter_members dest: rule_matches_policy)

lemma exact_rules_policy: "match_exact_rules p cmd = Some ms \<Longrightarrow> m \<in> set ms \<Longrightarrow> is_policy_match m"
  by (auto simp: match_exact_rules_def split: list.splits dest: filtered_matches_policy)

lemma host_rules_policy: "m \<in> set (match_host_executable_rules env p cmd) \<Longrightarrow> is_policy_match m"
proof -
  assume "m \<in> set (match_host_executable_rules env p cmd)"
  then obtain x program c rs where "m = with_resolved_program program x"
    and "x \<in> set (List.map_filter (\<lambda>r. rule_matches r c) rs)"
    by (auto simp: match_host_executable_rules_def split: list.splits option.splits sum.splits if_splits)
  then show "is_policy_match m" by (simp add: with_resolved_policy filtered_matches_policy)
qed

lemma policy_matches_are_rules: "m \<in> set (policy_matches env p cmd) \<Longrightarrow> is_policy_match m"
  unfolding policy_matches_def matches_for_command_with_options_def Let_def
  using exact_rules_policy [of p cmd _ m] host_rules_policy [of m env p cmd]
  by (auto split: option.splits list.splits if_splits)

text \<open>All matches of a request.\<close>

definition request_matches :: "'p approval_env \<Rightarrow> 'p policy \<Rightarrow> exec_approval_request \<Rightarrow> 'p rule_match list" where
  "request_matches env p req =
     concat (map (\<lambda>cmd. if policy_matches (host env) p cmd = []
                        then [HeuristicsRuleMatch cmd (exec_policy_fallback env req cmd)]
                        else policy_matches (host env) p cmd)
       (fst (commands_for_exec_policy (shell_parse (safety env)) (req_command req))))"

lemma request_matches_nonempty: "request_matches env p req \<noteq> []"
proof -
  obtain c cs where "fst (commands_for_exec_policy (shell_parse (safety env)) (req_command req)) = c # cs"
    using commands_nonempty by (cases "fst (commands_for_exec_policy (shell_parse (safety env)) (req_command req))") auto
  then show ?thesis by (simp add: request_matches_def)
qed

lemma check_request:
  "check_multiple_with_options (host env) p
     (fst (commands_for_exec_policy (shell_parse (safety env)) (req_command req)))
     (exec_policy_fallback env req) approval_options =
   Some \<lparr>eval_decision = Max (match_decision ` set (request_matches env p req)),
         matched_rules = request_matches env p req\<rparr>"
  unfolding check_multiple_with_options_def matches_with_fallback request_matches_def [symmetric]
  by (rule from_matches_Some [OF request_matches_nonempty])

lemma Max_decisions:
  fixes D :: "decision set"
  assumes "finite D" and "D \<noteq> {}"
  shows "Max D = (if Forbidden \<in> D then Forbidden else if Prompt \<in> D then Prompt else Allow)"
proof (rule Max_eqI [OF assms(1)])
  fix d assume "d \<in> D"
  then show "d \<le> (if Forbidden \<in> D then Forbidden else if Prompt \<in> D then Prompt else Allow)"
    by (cases d) (auto simp: less_eq_decision_def)
next
  from assms(2) obtain d where "d \<in> D" by blast
  then show "(if Forbidden \<in> D then Forbidden else if Prompt \<in> D then Prompt else Allow) \<in> D"
    by (cases d) auto
qed

text \<open>What the decision of a request is.\<close>

definition request_decision :: "'p approval_env \<Rightarrow> 'p policy \<Rightarrow> exec_approval_request \<Rightarrow> decision" where
  "request_decision env p req =
     (let D = match_decision ` set (request_matches env p req) in
      if Forbidden \<in> D then Forbidden else if Prompt \<in> D then Prompt else Allow)"

lemma create_requirement_eq:
  "create_exec_approval_requirement_for_command env p req =
     (let cmds = fst (commands_for_exec_policy (shell_parse (safety env)) (req_command req));
          auto = \<not> snd (commands_for_exec_policy (shell_parse (safety env)) (req_command req));
          ms = request_matches env p req;
          e = \<lparr>eval_decision = request_decision env p req, matched_rules = ms\<rparr>;
          requested = derive_requested_execpolicy_amendment_from_prefix_rule (host env) (req_prefix_rule req) ms p
            cmds (exec_policy_fallback env req) approval_options
      in Some (case request_decision env p req of
           Forbidden \<Rightarrow> ForbiddenApproval (derive_forbidden_reason (try_join env) (req_command req) e)
         | Prompt \<Rightarrow>
             (case prompt_is_rejected_by_policy (req_approval_policy req)
                     (list_ex (\<lambda>m. is_policy_match m \<and> match_decision m = Prompt) ms) of
                Some reason \<Rightarrow> ForbiddenApproval reason
              | None \<Rightarrow>
                  NeedsApproval (derive_prompt_reason (try_join env) (req_command req) e)
                    (case requested of
                       Some pre \<Rightarrow> Some pre
                     | None \<Rightarrow> if auto then try_derive_execpolicy_amendment_for_prompt_rules ms else None))
         | Allow \<Rightarrow>
             Skip (list_ex (\<lambda>m. is_policy_match m \<and> match_decision m = Allow) ms)
               (if auto then try_derive_execpolicy_amendment_for_allow_rules ms else None)))"
proof -
  have max: "Max (match_decision ` set (request_matches env p req)) = request_decision env p req"
    unfolding request_decision_def Let_def
    by (rule Max_decisions) (simp_all add: request_matches_nonempty)
  obtain cmds complex where c: "commands_for_exec_policy (shell_parse (safety env)) (req_command req) = (cmds, complex)"
    by (cases "commands_for_exec_policy (shell_parse (safety env)) (req_command req)")
  from check_request [of env p req] have
    check: "check_multiple_with_options (host env) p cmds (exec_policy_fallback env req) approval_options =
      Some \<lparr>eval_decision = request_decision env p req, matched_rules = request_matches env p req\<rparr>"
    unfolding max c fst_conv .
  show ?thesis
    unfolding create_exec_approval_requirement_for_command_def c prod.case Let_def check option.case
      evaluation.select_convs fst_conv snd_conv by (rule refl)
qed

lemma strictest_of_set:
  fixes D :: "decision set"
  assumes "D \<noteq> {}"
  shows "(if Forbidden \<in> D then Forbidden else if Prompt \<in> D then Prompt else Allow) = Forbidden \<longleftrightarrow> Forbidden \<in> D"
    and "(if Forbidden \<in> D then Forbidden else if Prompt \<in> D then Prompt else Allow) = Allow \<longleftrightarrow> D = {Allow}"
proof -
  have "D = {Allow}" if no: "Forbidden \<notin> D" "Prompt \<notin> D"
  proof -
    have "d = Allow" if "d \<in> D" for d using that no by (cases d) auto
    with assms show ?thesis by blast
  qed
  then show "(if Forbidden \<in> D then Forbidden else if Prompt \<in> D then Prompt else Allow) = Forbidden \<longleftrightarrow> Forbidden \<in> D"
    and "(if Forbidden \<in> D then Forbidden else if Prompt \<in> D then Prompt else Allow) = Allow \<longleftrightarrow> D = {Allow}"
    by auto
qed

lemma request_decision_cases:
  "request_decision env p req = Forbidden \<longleftrightarrow> Forbidden \<in> match_decision ` set (request_matches env p req)"
  "request_decision env p req = Allow \<longleftrightarrow> match_decision ` set (request_matches env p req) = {Allow}"
proof -
  have ne: "match_decision ` set (request_matches env p req) \<noteq> {}" using request_matches_nonempty by simp
  show "request_decision env p req = Forbidden \<longleftrightarrow> Forbidden \<in> match_decision ` set (request_matches env p req)"
    "request_decision env p req = Allow \<longleftrightarrow> match_decision ` set (request_matches env p req) = {Allow}"
    unfolding request_decision_def Let_def by (rule strictest_of_set [OF ne])+
qed

text \<open>The outcome, by the decision.\<close>

definition prompt_rejection :: "'p approval_env \<Rightarrow> 'p policy \<Rightarrow> exec_approval_request \<Rightarrow> string option" where
  "prompt_rejection env p req =
     prompt_is_rejected_by_policy (req_approval_policy req)
       (list_ex (\<lambda>m. is_policy_match m \<and> match_decision m = Prompt) (request_matches env p req))"

lemma create_Allow:
  "request_decision env p req = Allow \<Longrightarrow>
   \<exists>a. create_exec_approval_requirement_for_command env p req =
     Some (Skip (list_ex (\<lambda>m. is_policy_match m \<and> match_decision m = Allow) (request_matches env p req)) a)"
  unfolding create_requirement_eq Let_def by simp

lemma create_Forbidden:
  "request_decision env p req = Forbidden \<Longrightarrow>
   \<exists>x. create_exec_approval_requirement_for_command env p req = Some (ForbiddenApproval x)"
  unfolding create_requirement_eq Let_def by simp

lemma create_Prompt:
  "request_decision env p req = Prompt \<Longrightarrow> prompt_rejection env p req = None \<Longrightarrow>
   \<exists>a b. create_exec_approval_requirement_for_command env p req = Some (NeedsApproval a b)"
  "request_decision env p req = Prompt \<Longrightarrow> prompt_rejection env p req = Some x \<Longrightarrow>
   create_exec_approval_requirement_for_command env p req = Some (ForbiddenApproval x)"
  unfolding create_requirement_eq Let_def prompt_rejection_def by simp_all

lemma requirement_of_decision:
  assumes "create_exec_approval_requirement_for_command env p req = Some r"
  shows "(case r of
      Skip b _ \<Rightarrow> request_decision env p req = Allow \<and>
        b = list_ex (\<lambda>m. is_policy_match m \<and> match_decision m = Allow) (request_matches env p req)
    | NeedsApproval _ _ \<Rightarrow> request_decision env p req = Prompt \<and> prompt_rejection env p req = None
    | ForbiddenApproval _ \<Rightarrow> request_decision env p req = Forbidden \<or>
        request_decision env p req = Prompt \<and> prompt_rejection env p req \<noteq> None)"
proof (cases "request_decision env p req")
  case Allow
  with create_Allow [OF this] assms show ?thesis by auto
next
  case Prompt
  with create_Prompt [OF this] assms show ?thesis by (cases "prompt_rejection env p req") auto
next
  case Forbidden
  with create_Forbidden [OF this] assms show ?thesis by auto
qed

lemma requirement_total: "\<exists>r. create_exec_approval_requirement_for_command env p req = Some r"
  unfolding create_requirement_eq Let_def by simp

lemma skip_iff_allow:
  "(\<exists>b a. create_exec_approval_requirement_for_command env p req = Some (Skip b a)) \<longleftrightarrow>
   request_decision env p req = Allow"
proof -
  obtain r where r: "create_exec_approval_requirement_for_command env p req = Some r"
    using requirement_total by blast
  with requirement_of_decision [OF r] create_Allow [of env p req] show ?thesis by (cases r) auto
qed

definition request_commands :: "'p approval_env \<Rightarrow> exec_approval_request \<Rightarrow> string list list" where
  "request_commands env req = fst (commands_for_exec_policy (shell_parse (safety env)) (req_command req))"

lemma request_matches_of_command:
  assumes "cmd \<in> set (request_commands env req)"
  shows "set (if policy_matches (host env) p cmd = []
              then [HeuristicsRuleMatch cmd (exec_policy_fallback env req cmd)]
              else policy_matches (host env) p cmd) \<subseteq> set (request_matches env p req)"
  using assms unfolding request_matches_def request_commands_def set_concat set_map by blast

lemma request_matches_cases:
  assumes "m \<in> set (request_matches env p req)"
  obtains cmd where "cmd \<in> set (request_commands env req)" and "m \<in> set (policy_matches (host env) p cmd)"
  | cmd where "cmd \<in> set (request_commands env req)" and "policy_matches (host env) p cmd = []"
      and "m = HeuristicsRuleMatch cmd (exec_policy_fallback env req cmd)"
  using assms by (auto simp: request_matches_def request_commands_def split: if_splits)

subsection \<open>What is refused, asked, and run\<close>

lemma dangerous_exec_not_safe:
  "is_dangerous_to_call_with_exec cmd \<Longrightarrow> \<not> is_known_safe_command env cmd"
proof
  assume d: "is_dangerous_to_call_with_exec cmd" and s: "is_known_safe_command env cmd"
  from d obtain args where "cmd = ''rm'' # args \<or> cmd = ''sudo'' # args" using dangerous_first_word by blast
  then have "hd cmd \<in> {''rm'', ''sudo''}" by auto
  then have "detect_shell_type (hd cmd) \<notin> {Some Zsh, Some Bash, Some Sh}" by (rule rm_sudo_not_shell(2))
  then have "extract_bash_command cmd = None"
    by (auto simp: extract_bash_command_def split: list.splits)
  with s have "\<not> command_might_be_dangerous env cmd" by (intro safe_not_dangerous_aux) auto
  with d show False by (simp add: command_might_be_dangerous_def)
qed

lemma dangerous_fallback:
  assumes "is_dangerous_to_call_with_exec cmd"
  shows "exec_policy_fallback env req cmd = (case req_approval_policy req of Never \<Rightarrow> Forbidden | _ \<Rightarrow> Prompt)"
  using dangerous_exec_not_safe [OF assms] assms
  by (simp add: exec_policy_fallback_def render_decision_for_unmatched_command_def command_might_be_dangerous_def)

lemma never_rejects: "prompt_is_rejected_by_policy Never b = Some PROMPT_CONFLICT_REASON"
  by (simp add: prompt_is_rejected_by_policy_def)

lemma policy_decision_member:
  assumes "cmd \<in> set (request_commands env req)" and "m \<in> set (policy_matches (host env) p cmd)"
  shows "match_decision m \<in> match_decision ` set (request_matches env p req)"
proof -
  have "policy_matches (host env) p cmd \<noteq> []" using assms(2) by auto
  with request_matches_of_command [OF assms(1), of p] assms(2) show ?thesis by auto
qed

lemma fallback_decision_member:
  assumes "cmd \<in> set (request_commands env req)" and "policy_matches (host env) p cmd = []"
  shows "exec_policy_fallback env req cmd \<in> match_decision ` set (request_matches env p req)"
proof -
  have "HeuristicsRuleMatch cmd (exec_policy_fallback env req cmd) \<in> set (request_matches env p req)"
    using request_matches_of_command [OF assms(1), of p] assms(2) by simp
  then show ?thesis by force
qed

text \<open>C32: A command of a script that a rule forbids, or a dangerous one that no rule mentions, is never
  run unasked, whatever the rest of the script: the forbidden one refuses the whole script, the
  dangerous one makes it ask, or refuses it when the user is never to be asked.\<close>

theorem dangerous_commands_are_not_skipped:
  assumes "create_exec_approval_requirement_for_command env p req = Some r"
    and "cmd \<in> set (request_commands env req)"
    and "(\<exists>m \<in> set (policy_matches (host env) p cmd). match_decision m = Forbidden) \<or>
      policy_matches (host env) p cmd = [] \<and> is_dangerous_to_call_with_exec cmd"
  shows "case r of
      Skip _ _ \<Rightarrow> False
    | NeedsApproval _ _ \<Rightarrow> policy_matches (host env) p cmd = [] \<and> req_approval_policy req \<noteq> Never
    | ForbiddenApproval _ \<Rightarrow> True"
  using assms(3)
proof
  assume "\<exists>m \<in> set (policy_matches (host env) p cmd). match_decision m = Forbidden"
  then have "request_decision env p req = Forbidden"
    using policy_decision_member [OF assms(2)] by (metis request_decision_cases(1))
  with requirement_of_decision [OF assms(1)] show ?thesis by (cases r) auto
next
  assume d: "policy_matches (host env) p cmd = [] \<and> is_dangerous_to_call_with_exec cmd"
  then have mem: "(case req_approval_policy req of Never \<Rightarrow> Forbidden | _ \<Rightarrow> Prompt)
      \<in> match_decision ` set (request_matches env p req)"
    using fallback_decision_member [OF assms(2)] dangerous_fallback by (metis (no_types))
  have "request_decision env p req \<noteq> Allow"
  proof
    assume "request_decision env p req = Allow"
    with mem have "(case req_approval_policy req of Never \<Rightarrow> Forbidden | _ \<Rightarrow> Prompt) = Allow"
      by (simp add: request_decision_cases(2))
    then show False by (simp split: ask_for_approval.splits)
  qed
  moreover have "request_decision env p req = Forbidden" if "req_approval_policy req = Never"
    using mem that by (simp add: request_decision_cases(1))
  ultimately show ?thesis using requirement_of_decision [OF assms(1)] d by (cases r) auto
qed

text \<open>The user is asked only when the approval policy lets the prompt through: never under
  \<open>Never\<close>, and under \<open>Reject\<close> only if prompts of that kind, of rules or of the sandbox, are not
  rejected.  Every request gets an answer.\<close>

lemma approval_policy_is_respected:
  "\<exists>r. create_exec_approval_requirement_for_command env p req = Some r \<and>
    (case r of
       NeedsApproval _ _ \<Rightarrow>
         (case req_approval_policy req of
            Never \<Rightarrow> False
          | Reject c \<Rightarrow>
              (if list_ex (\<lambda>m. is_policy_match m \<and> match_decision m = Prompt) (request_matches env p req)
               then \<not> rules c else \<not> sandbox_approval c)
          | _ \<Rightarrow> True)
     | _ \<Rightarrow> True)"
proof -
  obtain r where r: "create_exec_approval_requirement_for_command env p req = Some r"
    using requirement_total by blast
  with requirement_of_decision [OF r] show ?thesis
    by (cases r; cases "req_approval_policy req")
      (auto simp: prompt_rejection_def prompt_is_rejected_by_policy_def rejects_rules_approval_def rejects_sandbox_approval_def
        split: if_splits)
qed

text \<open>The sandbox is bypassed only when every command of the script is allowed, and a rule of the
  policy allows one of them.\<close>

lemma bypass_needs_an_allow_rule:
  assumes "create_exec_approval_requirement_for_command env p req = Some (Skip True a)"
  shows "list_all (\<lambda>cmd.
      list_all (\<lambda>m. match_decision m = Allow) (policy_matches (host env) p cmd) \<and>
      (if policy_matches (host env) p cmd = [] then exec_policy_fallback env req cmd = Allow else True))
      (request_commands env req) \<and>
    list_ex (\<lambda>cmd. list_ex (\<lambda>m. match_decision m = Allow) (policy_matches (host env) p cmd))
      (request_commands env req)"
proof -
  from requirement_of_decision [OF assms] have allow: "match_decision ` set (request_matches env p req) = {Allow}"
    and ex: "list_ex (\<lambda>m. is_policy_match m \<and> match_decision m = Allow) (request_matches env p req)"
    by (simp_all add: request_decision_cases(2))
  have "\<exists>cmd \<in> set (request_commands env req).
      \<exists>m \<in> set (policy_matches (host env) p cmd). match_decision m = Allow"
  proof -
    from ex obtain m where m: "m \<in> set (request_matches env p req)" "is_policy_match m" "match_decision m = Allow"
      by (auto simp: list_ex_iff)
    from m(1) show ?thesis
    proof (cases rule: request_matches_cases)
      case (1 cmd)
      with m(3) show ?thesis by blast
    qed (use m(2) in simp)
  qed
  moreover have "match_decision m = Allow"
    if "cmd \<in> set (request_commands env req)" "m \<in> set (policy_matches (host env) p cmd)" for cmd m
    using policy_decision_member [OF that] allow by auto
  moreover have "exec_policy_fallback env req cmd = Allow"
    if "cmd \<in> set (request_commands env req)" "policy_matches (host env) p cmd = []" for cmd
    using fallback_decision_member [OF that] allow by auto
  ultimately show ?thesis unfolding list_all_iff list_ex_iff by simp
qed

subsection \<open>Accepted amendments\<close>

lemma policy_matches_exact:
  "policy_matches env p cmd =
     (if exact_matches p cmd = [] then match_host_executable_rules env p cmd else exact_matches p cmd)"
  by (cases cmd)
    (auto simp: policy_matches_def matches_for_command_with_options_def Let_def match_exact_rules_def
      exact_matches_def approval_options_def match_host_executable_rules_def split: list.splits)

lemma add_rule_exact:
  assumes "add_prefix_rule cmd d p = Inr p'"
  shows "exact_matches p' cmd = exact_matches p cmd @ [PrefixRuleMatch cmd d None None]"
proof -
  from assms obtain first rest where cmd: "cmd = first # rest"
    and p': "p' = p\<lparr>rules_by_program := mm_insert first
      \<lparr>rule_pattern = \<lparr>pat_first = first, pat_rest = map Single rest\<rparr>,
       rule_decision = d, rule_justification = None\<rparr> (rules_by_program p)\<rparr>"
    by (auto simp: add_prefix_rule_def split: list.splits)
  have single: "list_all2 token_matches (map Single rest) rest"
    by (simp add: list_all2_conv_all_nth)
  have "matches_prefix \<lparr>pat_first = first, pat_rest = map Single rest\<rparr> cmd = Some cmd"
    unfolding matches_prefix_Some using single by (auto simp: cmd)
  then show ?thesis
    by (simp add: exact_matches_def cmd p' mm_get_insert List.map_filter_def rule_matches_def)
qed

lemma check_request_matches:
  assumes "prefix_rule_would_approve_all_commands (host env) p pre (request_commands env req)
      (exec_policy_fallback env req) approval_options"
    and "add_prefix_rule pre Allow p = Inr p'"
  shows "request_decision env p' req = Allow"
proof -
  have allow: "match_decision m = Allow" if m: "m \<in> set (request_matches env p' req)" for m
  proof -
    from m obtain cmd where cmd: "cmd \<in> set (request_commands env req)"
      "m \<in> set (matches_for_command_with_options (host env) p' cmd (Some (exec_policy_fallback env req)) approval_options)"
      unfolding request_matches_def matches_with_fallback [symmetric] request_commands_def by auto
    with assms have "map_option eval_decision
        (check_with_options (host env) p' cmd (exec_policy_fallback env req) approval_options) = Some Allow"
      by (simp add: prefix_rule_would_approve_all_commands_def list_all_iff)
    then have "Max (match_decision ` set (matches_for_command_with_options (host env) p' cmd
        (Some (exec_policy_fallback env req)) approval_options)) = Allow"
      by (simp add: check_with_options_def from_matches_Some [OF matches_nonempty])
    moreover have "match_decision m \<le> Max (match_decision ` set (matches_for_command_with_options (host env) p' cmd
        (Some (exec_policy_fallback env req)) approval_options))"
      using cmd(2) by (intro Max_ge) auto
    ultimately show ?thesis using Allow_least [of "match_decision m"] by (simp add: order.antisym)
  qed
  have "match_decision ` set (request_matches env p' req) = {Allow}"
    using allow request_matches_nonempty [of env p' req] by (cases "request_matches env p' req") auto
  then show ?thesis by (simp add: request_decision_cases(2))
qed

definition requested_amendment :: "'p approval_env \<Rightarrow> 'p policy \<Rightarrow> exec_approval_request \<Rightarrow> string list option" where
  "requested_amendment env p req =
     derive_requested_execpolicy_amendment_from_prefix_rule (host env) (req_prefix_rule req)
       (request_matches env p req) p (request_commands env req) (exec_policy_fallback env req) approval_options"

lemma requested_amendment_Some:
  assumes "requested_amendment env p req = Some pre"
  shows "pre \<noteq> [] \<and> (\<forall>m \<in> set (request_matches env p req). \<not> is_policy_match m) \<and>
    prefix_rule_would_approve_all_commands (host env) p pre (request_commands env req)
      (exec_policy_fallback env req) approval_options"
  using assms
  by (auto simp: requested_amendment_def derive_requested_execpolicy_amendment_from_prefix_rule_def list_ex_iff
      split: option.splits if_splits)

lemma needs_approval_amendment:
  assumes "create_exec_approval_requirement_for_command env p req = Some (NeedsApproval r (Some pre))"
  shows "request_decision env p req = Prompt \<and>
    (requested_amendment env p req = Some pre \<or>
     try_derive_execpolicy_amendment_for_prompt_rules (request_matches env p req) = Some pre)"
proof -
  from requirement_of_decision [OF assms] have prompt: "request_decision env p req = Prompt"
    "prompt_rejection env p req = None" by simp_all
  with assms show ?thesis
    unfolding create_requirement_eq Let_def prompt(1) decision.case prompt(2) [unfolded prompt_rejection_def] option.case
    by (auto simp: requested_amendment_def request_commands_def split: option.splits if_splits)
qed

lemma find_map_SomeD: "find_map f xs = Some y \<Longrightarrow> \<exists>x \<in> set xs. f x = Some y"
  by (induction xs) (auto split: option.splits)

lemma heuristics_command_SomeD: "heuristics_command d m = Some cmd \<Longrightarrow> m = HeuristicsRuleMatch cmd d"
  by (cases m) (auto split: if_splits)

lemma heuristics_request_match:
  assumes "HeuristicsRuleMatch cmd d \<in> set (request_matches env p req)"
  shows "cmd \<in> set (request_commands env req) \<and> policy_matches (host env) p cmd = []"
  using assms
proof (cases rule: request_matches_cases)
  case (1 c)
  with policy_matches_are_rules [OF 1(2)] show ?thesis by simp
qed auto

lemma update_adds_rule:
  "append_amendment_and_update os pre (p, file) = ((p', file'), Inr ()) \<Longrightarrow> add_prefix_rule pre Allow p = Inr p'"
  by (auto simp: append_amendment_and_update_def split: option.splits prod.splits sum.splits)

lemma skip_bypass:
  assumes "request_decision env p req = Allow"
    and "m \<in> set (request_matches env p req)" and "is_policy_match m"
  shows "\<exists>a. create_exec_approval_requirement_for_command env p req = Some (Skip True a)"
proof -
  have "match_decision m = Allow" using assms(1,2) by (auto simp: request_decision_cases(2))
  with assms have "list_ex (\<lambda>m. is_policy_match m \<and> match_decision m = Allow) (request_matches env p req)"
    by (auto simp: list_ex_iff)
  with create_Allow [OF assms(1)] show ?thesis by simp
qed

lemma all_heuristics_eq:
  assumes "\<forall>m \<in> set (request_matches env p req). \<not> is_policy_match m"
  shows "request_matches env p req =
    map (\<lambda>cmd. HeuristicsRuleMatch cmd (exec_policy_fallback env req cmd)) (request_commands env req)"
proof -
  have none: "policy_matches (host env) p cmd = []" if "cmd \<in> set (request_commands env req)" for cmd
  proof (rule ccontr)
    assume ne: "policy_matches (host env) p cmd \<noteq> []"
    then obtain m where m: "m \<in> set (policy_matches (host env) p cmd)" by (cases "policy_matches (host env) p cmd") auto
    with request_matches_of_command [OF that, of p] ne have "m \<in> set (request_matches env p req)" by auto
    with assms policy_matches_are_rules [OF m] show False by blast
  qed
  have "request_matches env p req =
      concat (map (\<lambda>cmd. [HeuristicsRuleMatch cmd (exec_policy_fallback env req cmd)]) (request_commands env req))"
    unfolding request_matches_def request_commands_def [symmetric]
    by (rule arg_cong [where f = concat], rule map_cong) (simp_all add: none)
  then show ?thesis by (simp add: concat_map_singleton)
qed

lemma requested_amendment_skips:
  assumes "requested_amendment env p req = Some pre" and "add_prefix_rule pre Allow p = Inr p'"
    and "request_decision env p req = Prompt"
  shows "\<exists>a. create_exec_approval_requirement_for_command env p' req = Some (Skip True a)"
proof -
  note req = requested_amendment_Some [OF assms(1)]
  from req assms(2) have allow: "request_decision env p' req = Allow" by (blast intro: check_request_matches)
  have "\<exists>m \<in> set (request_matches env p' req). is_policy_match m"
  proof (rule ccontr)
    assume "\<not> (\<exists>m \<in> set (request_matches env p' req). is_policy_match m)"
    then have "request_matches env p' req = request_matches env p req"
      using all_heuristics_eq [of env p' req] all_heuristics_eq [of env p req] req by simp
    then have "request_decision env p' req = request_decision env p req" by (simp add: request_decision_def)
    with allow assms(3) show False by simp
  qed
  with skip_bypass [OF allow] show ?thesis by blast
qed

lemma automatic_amendment_skips:
  assumes "try_derive_execpolicy_amendment_for_prompt_rules (request_matches env p req) = Some pre"
    and "request_commands env req = [cmd]" and "add_prefix_rule pre Allow p = Inr p'"
  shows "\<exists>a. create_exec_approval_requirement_for_command env p' req = Some (Skip True a)"
proof -
  from assms(1) have "HeuristicsRuleMatch pre Prompt \<in> set (request_matches env p req)"
    by (auto simp: try_derive_execpolicy_amendment_for_prompt_rules_def split: if_splits
        dest!: find_map_SomeD heuristics_command_SomeD)
  from heuristics_request_match [OF this] assms(2) have pre: "pre = cmd" "policy_matches (host env) p cmd = []" by auto
  then have "exact_matches p cmd = []" by (auto simp: policy_matches_exact split: if_splits)
  with add_rule_exact [of cmd Allow p p'] assms(3) pre(1)
  have new: "policy_matches (host env) p' cmd = [PrefixRuleMatch cmd Allow None None]"
    by (simp add: policy_matches_exact)
  then have ms: "request_matches env p' req = [PrefixRuleMatch cmd Allow None None]"
    using assms(2) by (simp add: request_matches_def request_commands_def)
  then have "request_decision env p' req = Allow" by (simp add: request_decision_cases(2))
  with skip_bypass [OF this, of "PrefixRuleMatch cmd Allow None None"] ms show ?thesis by simp
qed

text \<open>An amendment that is proposed with a prompt, and then accepted, does what it promises: once the
  policy is updated the same request runs without a prompt and outside the sandbox.  For a script
  of several commands this holds of the amendment that was requested; one that is derived covers
  its own command only.\<close>

lemma accepted_amendment_ends_the_prompt:
  assumes "create_exec_approval_requirement_for_command env p req = Some (NeedsApproval r (Some pre))"
    and "requested_amendment env p req = Some pre \<or> length (request_commands env req) = 1"
    and "append_amendment_and_update os pre (p, file) = ((p', file'), Inr ())"
  shows "\<exists>a. create_exec_approval_requirement_for_command env p' req = Some (Skip True a)"
proof -
  note add = update_adds_rule [OF assms(3)]
  note prompt = needs_approval_amendment [OF assms(1)]
  show ?thesis
  proof (cases "requested_amendment env p req = Some pre")
    case True
    with requested_amendment_skips [OF True add] prompt show ?thesis by blast
  next
    case False
    with assms(2) prompt obtain cmd where "request_commands env req = [cmd]"
      "try_derive_execpolicy_amendment_for_prompt_rules (request_matches env p req) = Some pre"
      by (auto simp: length_Suc_conv)
    with automatic_amendment_skips add show ?thesis by blast
  qed
qed

text \<open>How an update may end, given how the append to the file and the change of the policy end.\<close>

definition file_first ::
  "'p policy \<Rightarrow> string option \<Rightarrow> string option \<times> (amend_error, unit) result \<Rightarrow>
   (policy_error, 'p policy) result \<Rightarrow> 'p policy_state \<times> (exec_policy_update_error, unit) result \<Rightarrow> bool"
where
  "file_first p file written changed outcome =
     (case outcome of
        ((p', file'), Inr _) \<Rightarrow> written = (file', Inr ()) \<and> changed = Inr p'
      | ((p', file'), Inl (AppendRule e)) \<Rightarrow> written = (file', Inl e) \<and> p' = p
      | ((p', file'), Inl (JoinBlockingTask _)) \<Rightarrow> file' = file \<and> p' = p
      | (_, Inl (AddRule _)) \<Rightarrow> False)"

lemma append_prefix_ok:
  "blocking_append_allow_prefix_rule json os pre file = (file', Inr ()) \<Longrightarrow> \<exists>p'. add_prefix_rule pre Allow p = Inr p'"
  by (cases pre) (auto simp: blocking_append_allow_prefix_rule_def add_prefix_rule_def)

lemma append_network_ok:
  "blocking_append_network_rule json os h proto d j file = (file', Inr ()) \<Longrightarrow>
   \<exists>p'. add_network_rule h proto d j p = Inr p'"
  by (auto simp: blocking_append_network_rule_def add_network_rule_def split: sum.splits if_splits)

text \<open>The policy in memory changes only after the rule is in the file: an update whose task is lost
  changes neither, one whose append fails leaves the policy as it was, and once the file is
  written the change of the policy does not fail.\<close>

lemma policy_updates_write_the_file_first:
  "file_first p file (blocking_append_allow_prefix_rule (json_string os) (amend_calls os) pre file)
     (add_prefix_rule pre Allow p) (append_amendment_and_update os pre (p, file)) \<and>
   file_first p file (blocking_append_network_rule (json_string os) (amend_calls os) h proto d j file)
     (add_network_rule h proto d j p) (append_network_rule_and_update os h proto d j (p, file))"
proof
  obtain f r where w: "blocking_append_allow_prefix_rule (json_string os) (amend_calls os) pre file = (f, r)"
    by (cases "blocking_append_allow_prefix_rule (json_string os) (amend_calls os) pre file")
  show "file_first p file (blocking_append_allow_prefix_rule (json_string os) (amend_calls os) pre file)
     (add_prefix_rule pre Allow p) (append_amendment_and_update os pre (p, file))"
  proof (cases r)
    case (Inr u)
    with w obtain p' where "add_prefix_rule pre Allow p = Inr p'" using append_prefix_ok by (cases u) blast
    with Inr w show ?thesis
      by (simp add: file_first_def append_amendment_and_update_def split: option.split)
  qed (use w in \<open>simp add: file_first_def append_amendment_and_update_def split: option.split\<close>)
next
  obtain f r where w: "blocking_append_network_rule (json_string os) (amend_calls os) h proto d j file = (f, r)"
    by (cases "blocking_append_network_rule (json_string os) (amend_calls os) h proto d j file")
  show "file_first p file (blocking_append_network_rule (json_string os) (amend_calls os) h proto d j file)
     (add_network_rule h proto d j p) (append_network_rule_and_update os h proto d j (p, file))"
  proof (cases r)
    case (Inr u)
    with w obtain p' where "add_network_rule h proto d j p = Inr p'" using append_network_ok by (cases u) blast
    with Inr w show ?thesis
      by (simp add: file_first_def append_network_rule_and_update_def split: option.split)
  qed (use w in \<open>simp add: file_first_def append_network_rule_and_update_def split: option.split\<close>)
qed

subsection \<open>Commands that leave the sandbox\<close>

lemma unmatched_command_bypasses:
  assumes "request_commands env req = [allowed, unmatched]"
    and "policy_matches (host env) p allowed = [PrefixRuleMatch pre Allow resolved j]"
    and "policy_matches (host env) p unmatched = []"
    and "\<not> command_might_be_dangerous (safety env) unmatched"
    and "req_approval_policy req = OnRequest" and "req_sandbox_kind req = Restricted"
    and "req_sandbox_permissions req = UseDefault"
  shows "\<exists>a. create_exec_approval_requirement_for_command env p req = Some (Skip True a)"
proof -
  have "exec_policy_fallback env req unmatched = Allow"
    using assms(4-7)
    by (simp add: exec_policy_fallback_def render_decision_for_unmatched_command_def requests_sandbox_override_def)
  then have ms: "request_matches env p req = [PrefixRuleMatch pre Allow resolved j, HeuristicsRuleMatch unmatched Allow]"
    using assms(1-3) by (simp add: request_matches_def request_commands_def [symmetric])
  then have "request_decision env p req = Allow" by (simp add: request_decision_cases(2))
  with skip_bypass [OF this, of "PrefixRuleMatch pre Allow resolved j"] ms show ?thesis by simp
qed

text \<open>C33: One allowed command takes the others of its script out of the sandbox: a script of a command
  that a rule allows, and one that no rule mentions and that is let through only because the
  sandbox restricts it, is run without a prompt and with the sandbox bypassed.\<close>

theorem unmatched_commands_leave_the_sandbox:
  assumes "request_commands env req = [allowed, unmatched]"
    and "policy_matches (host env) p allowed = [PrefixRuleMatch pre Allow resolved j]"
    and "policy_matches (host env) p unmatched = []"
    and "\<not> command_might_be_dangerous (safety env) unmatched"
    and "req_approval_policy req = OnRequest" and "req_sandbox_kind req = Restricted"
    and "req_sandbox_permissions req = UseDefault"
  shows "\<exists>a. create_exec_approval_requirement_for_command env p req = Some (Skip True a)"
  using assms by (rule unmatched_command_bypasses)

subsection \<open>Witnesses\<close>

definition make_tree :: ts_tree where
  "make_tree = \<lparr>root_node = Node ''program'' True 0 None
     [Node ''list'' True 0 None
       [simple_command 0 ''git'' [word_node 4 ''status''], Node ''&&'' False 11 (Some ''&&'') [],
        simple_command 14 ''make'' []]],
     has_error = False\<rparr>"

definition sample_approval_env :: "string approval_env" where
  "sample_approval_env =
     \<lparr>safety = \<lparr>shell_parse = (\<lambda>script. if script = ''git status && make'' then Some make_tree else None),
                powershell_run = (\<lambda>_ _. None), target_linux = True\<rparr>,
      host = \<lparr>windows = False, path_is_absolute = (\<lambda>s. prefix ''/'' s),
              to_absolute = (\<lambda>s. if prefix ''/'' s then Inr s else Inl ''relative''), path_file_name = path_name\<rparr>,
      try_join = (\<lambda>ws. Some (join_str '' '' ws))\<rparr>"

definition git_policy :: "string policy" where
  "git_policy = \<lparr>rules_by_program = [(''git'', [\<lparr>rule_pattern = \<lparr>pat_first = ''git'', pat_rest = []\<rparr>,
      rule_decision = Allow, rule_justification = None\<rparr>])], network_rules = [], host_executables_by_name = Map.empty\<rparr>"

definition sample_request :: "string list \<Rightarrow> ask_for_approval \<Rightarrow> exec_approval_request" where
  "sample_request cmd approval =
     \<lparr>req_command = cmd, req_approval_policy = approval, req_sandbox_kind = Restricted,
      req_sandbox_permissions = UseDefault, req_prefix_rule = None\<rparr>"

definition script_request :: exec_approval_request where
  "script_request = sample_request [''bash'', ''-lc'', ''git status && make''] OnRequest"

lemma script_request_facts:
  "request_commands sample_approval_env script_request = [[''git'', ''status''], [''make'']]"
  "policy_matches (host sample_approval_env) git_policy [''git'', ''status''] =
     [PrefixRuleMatch [''git''] Allow None None]"
  "policy_matches (host sample_approval_env) git_policy [''make''] = []"
  "\<not> command_might_be_dangerous (safety sample_approval_env) [''make'']"
  by code_simp+

theorem unmatched_commands_leave_the_sandbox_witness:
  "\<exists>a. create_exec_approval_requirement_for_command sample_approval_env git_policy script_request =
     Some (Skip True a)"
  by (rule unmatched_commands_leave_the_sandbox [OF script_request_facts])
    (simp_all add: script_request_def sample_request_def)

theorem dangerous_commands_are_not_skipped_witness:
  "\<exists>r. create_exec_approval_requirement_for_command sample_approval_env policy_empty
        (sample_request [''rm'', ''-rf'', ''/''] OnRequest) = Some r \<and>
    (case r of
       Skip _ _ \<Rightarrow> False
     | NeedsApproval _ _ \<Rightarrow>
         policy_matches (host sample_approval_env) policy_empty [''rm'', ''-rf'', ''/''] = [] \<and>
         req_approval_policy (sample_request [''rm'', ''-rf'', ''/''] OnRequest) \<noteq> Never
     | ForbiddenApproval _ \<Rightarrow> True)"
proof -
  obtain r where r: "create_exec_approval_requirement_for_command sample_approval_env policy_empty
      (sample_request [''rm'', ''-rf'', ''/''] OnRequest) = Some r"
    using requirement_total by blast
  moreover have "[''rm'', ''-rf'', ''/''] \<in>
      set (request_commands sample_approval_env (sample_request [''rm'', ''-rf'', ''/''] OnRequest))"
    by code_simp
  moreover have "policy_matches (host sample_approval_env) policy_empty [''rm'', ''-rf'', ''/''] = []"
    "is_dangerous_to_call_with_exec [''rm'', ''-rf'', ''/'']"
    by code_simp+
  ultimately show ?thesis
    using dangerous_commands_are_not_skipped [OF r] by blast
qed

end
