(* ===== verification/Patch_Invocation.thy ===== *)
theory Patch_Invocation
  imports Patch_Apply Unix_Path "HOL-Library.AList"
begin

section \<open>Invocations of the patch tool\<close>

text \<open>
  A model of \<^verbatim>\<open>codex-rs/apply-patch/src/invocation.rs\<close>: how a command line is recognised as a
  patch, and the changes to files that the patch announces.  The query that finds a here-document
  in a shell script is tree-sitter's: what it captures is a parameter.  So is the text of a
  unified diff, which a library computes.
\<close>

subsection \<open>Shells\<close>

definition APPLY_PATCH_COMMANDS :: "string list" where
  "APPLY_PATCH_COMMANDS = [''apply_patch'', ''applypatch'']"

datatype apply_patch_shell = UnixShell | PowerShellShell | CmdShell

definition classify_shell_name :: "string \<Rightarrow> string option" where
  "classify_shell_name shell = map_option to_ascii_lowercase (path_stem shell)"

definition classify_shell :: "string \<Rightarrow> string \<Rightarrow> apply_patch_shell option" where
  "classify_shell shell flag =
     (case classify_shell_name shell of
        None \<Rightarrow> None
      | Some name \<Rightarrow>
          if name \<in> {''bash'', ''zsh'', ''sh''} \<and> flag \<in> {''-lc'', ''-c''} then Some UnixShell
          else if name \<in> {''pwsh'', ''powershell''} \<and> eq_ignore_ascii_case flag ''-command'' then Some PowerShellShell
          else if name = ''cmd'' \<and> eq_ignore_ascii_case flag ''/c'' then Some CmdShell
          else None)"

definition can_skip_flag :: "string \<Rightarrow> string \<Rightarrow> bool" where
  "can_skip_flag shell flag =
     (case classify_shell_name shell of
        None \<Rightarrow> False
      | Some name \<Rightarrow> name \<in> {''pwsh'', ''powershell''} \<and> eq_ignore_ascii_case flag ''-noprofile'')"

fun parse_shell_script :: "string list \<Rightarrow> (apply_patch_shell \<times> string) option" where
  "parse_shell_script [shell, flag, script] = map_option (\<lambda>t. (t, script)) (classify_shell shell flag)"
| "parse_shell_script [shell, skip_flag, flag, script] =
     (if can_skip_flag shell skip_flag then map_option (\<lambda>t. (t, script)) (classify_shell shell flag) else None)"
| "parse_shell_script _ = None"

subsection \<open>The here-document of a script\<close>

datatype extract_heredoc_error =
    CommandDidNotStartWithApplyPatch
  | FailedToLoadBashGrammar
  | HeredocNotUtf8
  | FailedToParsePatchIntoAst
  | FailedToFindHeredocBody

text \<open>A match of the query is a list of captures: the name of a capture, and the text of its node
  if that is UTF-8.\<close>

type_synonym query_match = "(string \<times> string option) list"
type_synonym bash_query = "string \<Rightarrow> (extract_heredoc_error, query_match list) result"

definition trim_end_newlines :: "string \<Rightarrow> string" where
  "trim_end_newlines s = rev (dropWhile (\<lambda>c. c = nl) (rev s))"

definition unquote_raw_string :: "string \<Rightarrow> string" where
  "unquote_raw_string raw =
     (case strip_prefix [CHR 39] raw of
        None \<Rightarrow> raw
      | Some s \<Rightarrow> (case strip_suffix [CHR 39] s of None \<Rightarrow> raw | Some t \<Rightarrow> t))"

fun capture_loop ::
  "query_match \<Rightarrow> string option \<Rightarrow> string option \<Rightarrow> (extract_heredoc_error, string option \<times> string option) result"
where
  "capture_loop [] heredoc_text cd_path = Inr (heredoc_text, cd_path)"
| "capture_loop ((name, text) # caps) heredoc_text cd_path =
     (if name = ''heredoc'' then
        (case text of None \<Rightarrow> Inl HeredocNotUtf8
         | Some t \<Rightarrow> capture_loop caps (Some (trim_end_newlines t)) cd_path)
      else if name = ''cd_path'' then
        (case text of None \<Rightarrow> Inl HeredocNotUtf8 | Some t \<Rightarrow> capture_loop caps heredoc_text (Some t))
      else if name = ''cd_raw_string'' then
        (case text of None \<Rightarrow> Inl HeredocNotUtf8
         | Some t \<Rightarrow> capture_loop caps heredoc_text (Some (unquote_raw_string t)))
      else capture_loop caps heredoc_text cd_path)"

fun match_loop :: "query_match list \<Rightarrow> (extract_heredoc_error, string \<times> string option) result" where
  "match_loop [] = Inl CommandDidNotStartWithApplyPatch"
| "match_loop (m # ms) =
     (case capture_loop m None None of
        Inl e \<Rightarrow> Inl e
      | Inr (Some heredoc, cd_path) \<Rightarrow> Inr (heredoc, cd_path)
      | Inr (None, _) \<Rightarrow> match_loop ms)"

definition extract_apply_patch_from_bash ::
  "bash_query \<Rightarrow> string \<Rightarrow> (extract_heredoc_error, string \<times> string option) result"
where
  "extract_apply_patch_from_bash query src = (case query src of Inl e \<Rightarrow> Inl e | Inr ms \<Rightarrow> match_loop ms)"

definition extract_apply_patch_from_shell ::
  "bash_query \<Rightarrow> apply_patch_shell \<Rightarrow> string \<Rightarrow> (extract_heredoc_error, string \<times> string option) result"
where
  "extract_apply_patch_from_shell query shell script = extract_apply_patch_from_bash query script"

datatype maybe_apply_patch =
    PatchBody apply_patch_args
  | ShellParseError extract_heredoc_error
  | PatchParseError parse_error
  | NotApplyPatch

definition parse_body :: "string \<Rightarrow> string option \<Rightarrow> maybe_apply_patch" where
  "parse_body text dir =
     (case parse_patch text of Inr source \<Rightarrow> PatchBody (source\<lparr>workdir := dir\<rparr>) | Inl e \<Rightarrow> PatchParseError e)"

definition maybe_parse_shell_patch :: "bash_query \<Rightarrow> string list \<Rightarrow> maybe_apply_patch" where
  "maybe_parse_shell_patch query argv =
     (case parse_shell_script argv of
        None \<Rightarrow> NotApplyPatch
      | Some (shell, script) \<Rightarrow>
          (case extract_apply_patch_from_shell query shell script of
             Inr (text, dir) \<Rightarrow> parse_body text dir
           | Inl CommandDidNotStartWithApplyPatch \<Rightarrow> NotApplyPatch
           | Inl e \<Rightarrow> ShellParseError e))"

definition maybe_parse_apply_patch :: "bash_query \<Rightarrow> string list \<Rightarrow> maybe_apply_patch" where
  "maybe_parse_apply_patch query argv =
     (case argv of
        [cmd, text] \<Rightarrow>
          if cmd \<in> set APPLY_PATCH_COMMANDS then
            (case parse_patch text of Inr source \<Rightarrow> PatchBody source | Inl e \<Rightarrow> PatchParseError e)
          else maybe_parse_shell_patch query argv
      | _ \<Rightarrow> maybe_parse_shell_patch query argv)"

subsection \<open>Announced changes\<close>

definition join_path :: "string \<Rightarrow> string \<Rightarrow> string" where
  "join_path base p =
     (if prefix ''/'' p then p
      else if base = [] \<or> last base = CHR ''/'' then base @ p
      else base @ ''/'' @ p)"

definition resolve_path_in :: "string \<Rightarrow> hunk \<Rightarrow> string" where
  "resolve_path_in cwd h = join_path cwd (hunk_path h)"

datatype file_change =
    AddChange (change_content: string)
  | DeleteChange (change_content: string)
  | UpdateChange (unified_diff: string) (move_path: "string option") (change_content: string)

text \<open>The changes are a hash map from paths, which are equal when their components are; a later
  change of a path replaces an earlier one.  Nothing depends on the order of the list.\<close>

type_synonym changes = "(path_key \<times> file_change) list"

record apply_patch_action =
  action_changes :: changes
  action_patch :: string
  action_cwd :: string

datatype maybe_apply_patch_verified =
    VerifiedBody apply_patch_action
  | VerifiedShellParseError extract_heredoc_error
  | CorrectnessError apply_patch_error
  | VerifiedNotApplyPatch

type_synonym text_diff = "string \<Rightarrow> string \<Rightarrow> string"

definition unified_diff_from_chunks ::
  "text_diff \<Rightarrow> os_refusal \<Rightarrow> files \<Rightarrow> string \<Rightarrow> update_file_chunk list \<Rightarrow>
   (apply_patch_error, string \<times> string) result option"
where
  "unified_diff_from_chunks diff os fs p chunks =
     (case derive_new_contents_from_chunks os fs p chunks of
        None \<Rightarrow> None
      | Some (Inl e) \<Rightarrow> Some (Inl e)
      | Some (Inr ap) \<Rightarrow> Some (Inr (diff (original_contents ap) (new_contents ap), new_contents ap)))"

text \<open>What one hunk announces; the outer option is a panic.\<close>

fun hunk_change ::
  "text_diff \<Rightarrow> os_refusal \<Rightarrow> files \<Rightarrow> string \<Rightarrow> hunk \<Rightarrow> (apply_patch_error, file_change) result option"
where
  "hunk_change diff os fs cwd (AddFile p contents) = Some (Inr (AddChange contents))"
| "hunk_change diff os fs cwd (DeleteFile p) =
     (let p' = join_path cwd p in
      case read_to_string os fs (path_key p') of
        Inr content \<Rightarrow> Some (Inr (DeleteChange content))
      | Inl e \<Rightarrow> Some (Inl (IoError (''Failed to read '' @ p') e)))"
| "hunk_change diff os fs cwd (UpdateFile p mv chunks) =
     (case unified_diff_from_chunks diff os fs (join_path cwd p) chunks of
        None \<Rightarrow> None
      | Some (Inl e) \<Rightarrow> Some (Inl e)
      | Some (Inr (d, contents)) \<Rightarrow> Some (Inr (UpdateChange d (map_option (join_path cwd) mv) contents)))"

fun changes_loop ::
  "text_diff \<Rightarrow> os_refusal \<Rightarrow> files \<Rightarrow> string \<Rightarrow> hunk list \<Rightarrow> changes \<Rightarrow>
   (apply_patch_error, changes) result option"
where
  "changes_loop diff os fs cwd [] acc = Some (Inr acc)"
| "changes_loop diff os fs cwd (h # hs) acc =
     (case hunk_change diff os fs cwd h of
        None \<Rightarrow> None
      | Some (Inl e) \<Rightarrow> Some (Inl e)
      | Some (Inr c) \<Rightarrow> changes_loop diff os fs cwd hs (AList.update (path_key (resolve_path_in cwd h)) c acc))"

definition is_raw_patch :: "string list \<Rightarrow> bool" where
  "is_raw_patch argv =
     ((case argv of [text] \<Rightarrow> \<not> isl (parse_patch text) | _ \<Rightarrow> False) \<or>
      (case parse_shell_script argv of Some (_, script) \<Rightarrow> \<not> isl (parse_patch script) | None \<Rightarrow> False))"

definition effective_cwd :: "string \<Rightarrow> string option \<Rightarrow> string" where
  "effective_cwd cwd dir =
     (case dir of
        Some d \<Rightarrow> if prefix ''/'' d then d else join_path cwd d
      | None \<Rightarrow> cwd)"

definition maybe_parse_apply_patch_verified ::
  "bash_query \<Rightarrow> text_diff \<Rightarrow> os_refusal \<Rightarrow> files \<Rightarrow> string list \<Rightarrow> string \<Rightarrow>
   maybe_apply_patch_verified option"
where
  "maybe_parse_apply_patch_verified query diff os fs argv cwd =
     (if is_raw_patch argv then Some (CorrectnessError ImplicitInvocation)
      else (case maybe_parse_apply_patch query argv of
              PatchBody args \<Rightarrow>
                (let dir = effective_cwd cwd (workdir args) in
                 case changes_loop diff os fs dir (hunks args) [] of
                   None \<Rightarrow> None
                 | Some (Inl e) \<Rightarrow> Some (CorrectnessError e)
                 | Some (Inr cs) \<Rightarrow>
                     Some (VerifiedBody \<lparr>action_changes = cs, action_patch = patch args, action_cwd = dir\<rparr>))
            | ShellParseError e \<Rightarrow> Some (VerifiedShellParseError e)
            | PatchParseError e \<Rightarrow> Some (CorrectnessError (ParseError e))
            | NotApplyPatch \<Rightarrow> Some VerifiedNotApplyPatch))"


subsection \<open>The patch does what it announces\<close>

text \<open>The process that applies a patch runs in the directory of the action, where a relative path
  is the joined one.\<close>

fun resolve_hunk :: "string \<Rightarrow> hunk \<Rightarrow> hunk" where
  "resolve_hunk cwd (AddFile p c) = AddFile (join_path cwd p) c"
| "resolve_hunk cwd (DeleteFile p) = DeleteFile (join_path cwd p)"
| "resolve_hunk cwd (UpdateFile p mv chunks) = UpdateFile (join_path cwd p) (map_option (join_path cwd) mv) chunks"

text \<open>The effect that a change announces, and the paths it is about.\<close>

fun announced :: "path_key \<times> file_change \<Rightarrow> files \<Rightarrow> files" where
  "announced (k, AddChange t) fs = fs(k \<mapsto> t)"
| "announced (k, DeleteChange t) fs = fs(k := None)"
| "announced (k, UpdateChange d None t) fs = fs(k \<mapsto> t)"
| "announced (k, UpdateChange d (Some m) t) fs = fs(path_key m \<mapsto> t, k := None)"

fun change_targets :: "path_key \<times> file_change \<Rightarrow> path_key set" where
  "change_targets (k, UpdateChange d (Some m) t) = {k, path_key m}"
| "change_targets (k, c) = {k}"

definition as_announced :: "changes \<Rightarrow> files \<Rightarrow> files \<Rightarrow> bool" where
  "as_announced cs fs fs' =
     ((\<forall>k c. map_of cs k = Some c \<longrightarrow> (\<forall>x \<in> change_targets (k, c). fs' x = announced (k, c) fs x)) \<and>
      (\<forall>x. (\<forall>k c. map_of cs k = Some c \<longrightarrow> x \<notin> change_targets (k, c)) \<longrightarrow> fs' x = fs x))"

definition independent_hunks :: "hunk list \<Rightarrow> bool" where
  "independent_hunks hs =
     (sorted_wrt (\<lambda>g h. touched_by g \<inter> touched_by h = {}) hs \<and>
      list_all (\<lambda>h. case h of UpdateFile p (Some m) _ \<Rightarrow> path_key p \<noteq> path_key m | _ \<Rightarrow> True) hs)"

lemma touched_by_code [code]:
  "touched_by h = set (case h of
     AddFile p _ \<Rightarrow> [path_key p] | DeleteFile p \<Rightarrow> [path_key p]
   | UpdateFile p mv _ \<Rightarrow> path_key p # (case mv of None \<Rightarrow> [] | Some m \<Rightarrow> [path_key m]))"
  by (cases h) (simp_all split: option.split)

lemma announced_outside: "x \<notin> change_targets kc \<Longrightarrow> announced kc fs x = fs x"
  by (cases "(kc, fs)" rule: announced.cases) auto

lemma announced_inside: "x \<in> change_targets kc \<Longrightarrow> announced kc fs x = announced kc fs2 x"
  by (cases "(kc, fs)" rule: announced.cases) auto

lemma announced_all:
  assumes "sorted_wrt (\<lambda>a b. change_targets a \<inter> change_targets b = {}) kcs"
  shows "(\<forall>kc \<in> set kcs. \<forall>x \<in> change_targets kc. fold announced kcs fs x = announced kc fs x) \<and>
    (\<forall>x. (\<forall>kc \<in> set kcs. x \<notin> change_targets kc) \<longrightarrow> fold announced kcs fs x = fs x)"
  using assms
proof (induction kcs arbitrary: fs)
  case (Cons a kcs)
  from Cons.prems have "sorted_wrt (\<lambda>a b. change_targets a \<inter> change_targets b = {}) kcs" by simp
  note IH = conjunct1 [OF Cons.IH [OF this, of "announced a fs"]] conjunct2 [OF Cons.IH [OF this, of "announced a fs"]]
  show ?case
  proof (intro conjI ballI allI impI)
    fix kc x assume kc: "kc \<in> set (a # kcs)" and x: "x \<in> change_targets kc"
    show "fold announced (a # kcs) fs x = announced kc fs x"
    proof (cases "kc \<in> set kcs")
      case True
      with IH(1) x have "fold announced kcs (announced a fs) x = announced kc (announced a fs) x" by blast
      then show ?thesis using announced_inside [OF x] by simp
    next
      case False
      with kc have "kc = a" by simp
      with Cons.prems x have "\<forall>b \<in> set kcs. x \<notin> change_targets b" by auto
      with IH(2) have "fold announced kcs (announced a fs) x = announced a fs x" by blast
      with \<open>kc = a\<close> show ?thesis by simp
    qed
  next
    fix x assume x: "\<forall>kc \<in> set (a # kcs). x \<notin> change_targets kc"
    then have "\<forall>kc \<in> set kcs. x \<notin> change_targets kc" by simp
    with IH(2) have "fold announced kcs (announced a fs) x = announced a fs x" by blast
    with x show "fold announced (a # kcs) fs x = fs x" by (simp add: announced_outside)
  qed
qed simp

abbreviation no_refusal :: os_refusal where
  "no_refusal \<equiv> \<lambda>_ _. None"

definition hunk_key :: "string \<Rightarrow> hunk \<Rightarrow> path_key" where
  "hunk_key cwd h = path_key (resolve_path_in cwd h)"

lemma hunk_change_targets:
  "hunk_change diff os fs cwd h = Some (Inr c) \<Longrightarrow>
   change_targets (hunk_key cwd h, c) = touched_by (resolve_hunk cwd h)"
  by (cases h) (auto simp: hunk_key_def resolve_path_in_def Let_def split: option.splits sum.splits prod.splits)

lemma hunk_key_touched: "hunk_key cwd h \<in> touched_by (resolve_hunk cwd h)"
  by (cases h) (simp_all add: hunk_key_def resolve_path_in_def)

lemma hunk_applies_as_announced:
  assumes "hunk_change diff no_refusal fs cwd h = Some (Inr c)"
    and "fs2 (hunk_key cwd h) = fs (hunk_key cwd h)"
    and "independent_hunks [resolve_hunk cwd h]"
  shows "\<exists>aff'. apply_hunk no_refusal (resolve_hunk cwd h) fs2 aff = (announced (hunk_key cwd h, c) fs2, Inr aff')"
proof (cases h)
  case (AddFile p t)
  then show ?thesis using assms
    by (auto simp: hunk_key_def resolve_path_in_def fs_defs split: option.splits)
next
  case (DeleteFile p)
  then show ?thesis using assms
    by (auto simp: hunk_key_def resolve_path_in_def fs_defs Let_def split: option.splits)
next
  case (UpdateFile p mv chunks)
  let ?k = "path_key (join_path cwd p)"
  have key: "hunk_key cwd h = ?k" by (simp add: UpdateFile hunk_key_def resolve_path_in_def)
  from assms(1) UpdateFile obtain ap where ap:
    "derive_new_contents_from_chunks no_refusal fs (join_path cwd p) chunks = Some (Inr ap)"
    and c: "c = UpdateChange (diff (original_contents ap) (new_contents ap)) (map_option (join_path cwd) mv) (new_contents ap)"
    by (auto simp: unified_diff_from_chunks_def split: option.splits sum.splits)
  from ap obtain t where "fs ?k = Some t"
    by (auto simp: derive_new_contents_from_chunks_def fs_defs split: option.splits)
  moreover have "derive_new_contents_from_chunks no_refusal fs2 (join_path cwd p) chunks = Some (Inr ap)"
    using ap assms(2) by (simp add: derive_new_contents_from_chunks_def fs_defs key)
  ultimately show ?thesis using assms(2,3) unfolding key
    by (cases mv) (auto simp: UpdateFile c fs_defs independent_hunks_def split: option.splits)
qed


fun announce :: "path_key \<times> file_change \<Rightarrow> changes \<Rightarrow> changes" where
  "announce (k, c) m = AList.update k c m"

definition announces :: "text_diff \<Rightarrow> os_refusal \<Rightarrow> files \<Rightarrow> string \<Rightarrow> hunk \<Rightarrow> path_key \<times> file_change \<Rightarrow> bool" where
  "announces diff os fs cwd h kc = (fst kc = hunk_key cwd h \<and> hunk_change diff os fs cwd h = Some (Inr (snd kc)))"

lemma announces_pair:
  "announces diff os fs cwd h (k, c) \<longleftrightarrow> k = hunk_key cwd h \<and> hunk_change diff os fs cwd h = Some (Inr c)"
  by (simp add: announces_def)

lemma changes_loop_fold:
  assumes "changes_loop diff os fs cwd hs acc = Some (Inr cs)"
  shows "\<exists>kcs. list_all2 (announces diff os fs cwd) hs kcs \<and>
    cs = fold announce kcs acc"
  using assms
proof (induction hs arbitrary: acc)
  case (Cons h hs)
  from Cons.prems obtain c where c: "hunk_change diff os fs cwd h = Some (Inr c)"
    and "changes_loop diff os fs cwd hs (AList.update (hunk_key cwd h) c acc) = Some (Inr cs)"
    by (auto simp: hunk_key_def split: option.splits sum.splits)
  from Cons.IH [OF this(2)] obtain kcs where
    "list_all2 (announces diff os fs cwd) hs kcs"
    "cs = fold announce kcs (AList.update (hunk_key cwd h) c acc)" by blast
  with c show ?case by (intro exI [of _ "(hunk_key cwd h, c) # kcs"]) (simp add: announces_pair)
qed simp

lemma fold_updates_lookup:
  assumes "distinct (map fst kcs)"
  shows "map_of (fold announce kcs m) k = (case map_of kcs k of None \<Rightarrow> map_of m k | Some c \<Rightarrow> Some c)"
  using assms
proof (induction kcs arbitrary: m)
  case (Cons kc kcs)
  obtain k' c where kc: "kc = (k', c)" by fastforce
  from Cons.prems kc have "map_of kcs k' = None" by (simp add: map_of_eq_None_iff)
  with Cons kc show ?case by (cases "map_of kcs k") (auto simp: update_conv)
qed simp

lemma apply_loop_announced:
  assumes "list_all2 (announces diff no_refusal fs cwd) hs kcs"
    and "independent_hunks (map (resolve_hunk cwd) hs)"
    and "\<And>h. h \<in> set hs \<Longrightarrow> fs2 (hunk_key cwd h) = fs (hunk_key cwd h)"
  shows "\<exists>aff'. apply_hunk_loop no_refusal (map (resolve_hunk cwd) hs) fs2 aff = (fold announced kcs fs2, Inr aff')"
  using assms
proof (induction hs arbitrary: kcs fs2 aff)
  case (Cons h hs)
  from Cons.prems(1) obtain c kcs' where kcs: "kcs = (hunk_key cwd h, c) # kcs'"
    and c: "hunk_change diff no_refusal fs cwd h = Some (Inr c)"
    and rest: "list_all2 (announces diff no_refusal fs cwd) hs kcs'"
    by (auto simp: list_all2_Cons1 announces_pair)
  have ind: "independent_hunks [resolve_hunk cwd h]" "independent_hunks (map (resolve_hunk cwd) hs)"
    and apart: "\<forall>g \<in> set hs. touched_by (resolve_hunk cwd h) \<inter> touched_by (resolve_hunk cwd g) = {}"
    using Cons.prems(2) by (auto simp: independent_hunks_def sorted_wrt_map)
  have "fs2 (hunk_key cwd h) = fs (hunk_key cwd h)" using Cons.prems(3) by simp
  from hunk_applies_as_announced [of diff fs cwd h c fs2 aff, OF c this ind(1)] obtain aff' where
    step: "apply_hunk no_refusal (resolve_hunk cwd h) fs2 aff = (announced (hunk_key cwd h, c) fs2, Inr aff')"
    by blast
  have "announced (hunk_key cwd h, c) fs2 (hunk_key cwd g) = fs (hunk_key cwd g)" if g: "g \<in> set hs" for g
  proof -
    have "hunk_key cwd g \<notin> change_targets (hunk_key cwd h, c)"
      using apart g hunk_key_touched [of cwd g] by (auto simp: hunk_change_targets [OF c])
    then show ?thesis using g Cons.prems(3) by (simp add: announced_outside)
  qed
  from Cons.IH [OF rest ind(2) this, of aff'] obtain aff2 where
    "apply_hunk_loop no_refusal (map (resolve_hunk cwd) hs) (announced (hunk_key cwd h, c) fs2) aff' =
      (fold announced kcs' (announced (hunk_key cwd h, c) fs2), Inr aff2)" by blast
  then show ?case by (simp add: step kcs)
qed simp

lemma announced_targets:
  assumes "list_all2 (announces diff os fs cwd) hs kcs"
  shows "map change_targets kcs = map (\<lambda>h. touched_by (resolve_hunk cwd h)) hs"
  using assms
proof (induction rule: list_all2_induct)
  case (Cons h hs kc kcs)
  then show ?case using hunk_change_targets [of diff os fs cwd h "snd kc"] by (cases kc) (simp add: announces_def)
qed simp

lemma distinct_keys:
  assumes "sorted_wrt (\<lambda>a b. change_targets a \<inter> change_targets b = {}) kcs"
  shows "distinct (map fst kcs)"
  using assms
proof (induction kcs)
  case (Cons a kcs)
  have key: "fst kc \<in> change_targets kc" for kc
    by (cases kc rule: change_targets.cases) simp_all
  from Cons.prems have "fst a \<noteq> fst b" if "b \<in> set kcs" for b
    using that key [of a] key [of b] by fastforce
  with Cons show ?case by auto
qed simp

lemma announced_keys: "list_all2 (announces diff os fs cwd) hs kcs \<Longrightarrow> map fst kcs = map (hunk_key cwd) hs"
  by (induction rule: list_all2_induct) (simp_all add: announces_def)

lemma verified_changes_loop:
  assumes "maybe_parse_apply_patch_verified query diff os fs argv cwd = Some (VerifiedBody act)"
    and "maybe_parse_apply_patch query argv = PatchBody args"
  shows "changes_loop diff os fs (action_cwd act) (hunks args) [] = Some (Inr (action_changes act))"
  using assms by (auto simp: maybe_parse_apply_patch_verified_def Let_def split: if_splits option.splits sum.splits)

text \<open>A hunk whose path no later hunk names has its own change.\<close>

lemma change_of_hunk:
  assumes "changes_loop diff os fs cwd hs [] = Some (Inr cs)" and "distinct (map (hunk_key cwd) hs)" and "h \<in> set hs"
  shows "\<exists>c. (hunk_key cwd h, c) \<in> set cs \<and> hunk_change diff os fs cwd h = Some (Inr c)"
proof -
  from changes_loop_fold [OF assms(1)] obtain kcs where kcs: "list_all2 (announces diff os fs cwd) hs kcs"
    and cs: "cs = fold announce kcs []" by blast
  from kcs assms(3) obtain c where c: "(hunk_key cwd h, c) \<in> set kcs" "hunk_change diff os fs cwd h = Some (Inr c)"
    by (auto simp: list_all2_conv_all_nth in_set_conv_nth announces_def) (metis nth_mem prod.collapse)
  moreover from assms(2) announced_keys [OF kcs] have "distinct (map fst kcs)" by simp
  ultimately have "map_of cs (hunk_key cwd h) = Some c" by (simp add: cs fold_updates_lookup)
  with c show ?thesis by (auto dest: map_of_SomeD)
qed

text \<open>C3: A verified patch does what it announces, if its hunks are independent and nothing is refused.
  Independent means that no two hunks write or remove one path, and that no update moves a
  file to its own path (a patch that names a path twice may do more than it announces); the operating system
  refuses nothing, neither when the patch is verified nor when it is applied.  Then applying it to the
  files it was verified with succeeds, and changes them exactly as the announced changes say:
  what is added, deleted, updated and moved, and nothing else.\<close>

theorem verified_patch_does_what_it_announces:
  assumes "maybe_parse_apply_patch_verified query diff no_refusal fs argv cwd = Some (VerifiedBody act)"
    and "maybe_parse_apply_patch query argv = PatchBody args" and "hunks args \<noteq> []"
    and "independent_hunks (map (resolve_hunk (action_cwd act)) (hunks args))"
  shows "case apply_hunks_to_files no_refusal (map (resolve_hunk (action_cwd act)) (hunks args)) fs of
      (fs', r) \<Rightarrow> \<not> isl r \<and> as_announced (action_changes act) fs fs'"
proof -
  let ?dir = "action_cwd act" and ?hs = "map (resolve_hunk (action_cwd act)) (hunks args)"
  note verified_changes_loop [OF assms(1,2)]
  from changes_loop_fold [OF this] obtain kcs where kcs:
    "list_all2 (announces diff no_refusal fs ?dir) (hunks args) kcs"
    and cs: "action_changes act = fold announce kcs []" by blast
  have apart: "sorted_wrt (\<lambda>a b. change_targets a \<inter> change_targets b = {}) kcs"
  proof -
    have "sorted_wrt (\<lambda>A B. A \<inter> B = {}) (map touched_by ?hs)"
      using assms(4) by (simp add: independent_hunks_def sorted_wrt_map)
    then have "sorted_wrt (\<lambda>A B. A \<inter> B = {}) (map change_targets kcs)"
      by (simp only: announced_targets [OF kcs] map_map comp_def)
    then show ?thesis by (simp add: sorted_wrt_map)
  qed
  have lookup: "map_of (action_changes act) k = Some c \<longleftrightarrow> (k, c) \<in> set kcs" for k c
    using distinct_keys [OF apart]
    by (auto simp: cs fold_updates_lookup split: option.splits dest: map_of_SomeD map_of_is_SomeI eq_key_imp_eq_value)
  from apply_loop_announced [OF kcs assms(4)] assms(3) obtain aff where
    "apply_hunks_to_files no_refusal ?hs fs = (fold announced kcs fs, Inr aff)"
    by (auto simp: apply_hunks_to_files_def)
  moreover have "as_announced (action_changes act) fs (fold announced kcs fs)"
    using announced_all [OF apart, of fs] unfolding as_announced_def lookup by fastforce
  ultimately show ?thesis by simp
qed


definition sample_patch_command :: "string list" where
  "sample_patch_command =
     [''apply_patch'', join_str [nl] [''*** Begin Patch'', ''*** Add File: a'', ''+x'', ''*** Delete File: b'', ''*** End Patch'']]"

definition sample_patch_args :: apply_patch_args where
  "sample_patch_args = \<lparr>patch = sample_patch_command ! 1,
     hunks = [AddFile ''a'' (''x'' @ [nl]), DeleteFile ''b''], workdir = None\<rparr>"

lemma sample_patch_facts:
  "\<not> is_raw_patch sample_patch_command"
  "maybe_parse_apply_patch (\<lambda>_. Inr []) sample_patch_command = PatchBody sample_patch_args"
  "independent_hunks (map (resolve_hunk ''/w'') (hunks sample_patch_args))"
  by code_simp+

theorem verified_patch_does_what_it_announces_witness:
  "\<exists>act. maybe_parse_apply_patch_verified (\<lambda>_. Inr []) (\<lambda>_ _. []) no_refusal [path_key ''/w/b'' \<mapsto> ''y'']
      sample_patch_command ''/w'' = Some (VerifiedBody act) \<and>
    (case apply_hunks_to_files no_refusal (map (resolve_hunk (action_cwd act)) (hunks sample_patch_args))
        [path_key ''/w/b'' \<mapsto> ''y''] of
       (fs', r) \<Rightarrow> \<not> isl r \<and> as_announced (action_changes act) [path_key ''/w/b'' \<mapsto> ''y''] fs')"
proof -
  have join: "join_path ''/w'' ''b'' = ''/w/b''" by code_simp
  have "workdir sample_patch_args = None" "hunks sample_patch_args = [AddFile ''a'' (''x'' @ [nl]), DeleteFile ''b'']"
    by (simp_all add: sample_patch_args_def)
  then obtain act where act: "maybe_parse_apply_patch_verified (\<lambda>_. Inr []) (\<lambda>_ _. []) no_refusal
      [path_key ''/w/b'' \<mapsto> ''y''] sample_patch_command ''/w'' = Some (VerifiedBody act)" and dir: "action_cwd act = ''/w''"
    using sample_patch_facts(1,2)
    by (simp add: maybe_parse_apply_patch_verified_def effective_cwd_def Let_def join read_to_string_def)
  moreover have "hunks sample_patch_args \<noteq> []" by (simp add: sample_patch_args_def)
  ultimately show ?thesis
    using verified_patch_does_what_it_announces [OF act sample_patch_facts(2)] sample_patch_facts(3) by simp
qed

end
