(* ===== verification/Platform_Sandbox.thy ===== *)
theory Platform_Sandbox
  imports File_System_Policy
begin

section \<open>Choosing a sandbox\<close>

text \<open>
  The sandbox that the platform has (\<^verbatim>\<open>codex-rs/core/src/safety.rs\<close>), and the one that a tool is
  first run in (\<^verbatim>\<open>codex-rs/core/src/sandboxing/mod.rs\<close>).
\<close>

subsection \<open>The sandbox of the platform\<close>

datatype target_os = MacOS | Linux | Windows | OtherOS

datatype windows_sandbox_level = LevelDisabled | LevelRestrictedToken | LevelElevated

datatype sandbox_type = NoSandbox | MacosSeatbelt | LinuxSeccomp | WindowsRestrictedToken

definition get_platform_sandbox :: "target_os \<Rightarrow> bool \<Rightarrow> sandbox_type option" where
  "get_platform_sandbox os windows_sandbox_enabled =
     (case os of
        MacOS \<Rightarrow> Some MacosSeatbelt
      | Linux \<Rightarrow> Some LinuxSeccomp
      | Windows \<Rightarrow> if windows_sandbox_enabled then Some WindowsRestrictedToken else None
      | OtherOS \<Rightarrow> None)"

subsection \<open>The sandbox of a first attempt\<close>

definition should_require_platform_sandbox ::
  "file_system_sandbox_policy \<Rightarrow> network_sandbox_policy \<Rightarrow> bool \<Rightarrow> bool"
where
  "should_require_platform_sandbox fsp net managed =
     (if managed then True
      else if \<not> network_is_enabled net then policy_kind fsp \<noteq> ExternalSandbox
      else (case policy_kind fsp of Restricted \<Rightarrow> \<not> has_full_disk_write_access fsp | _ \<Rightarrow> False))"

datatype sandboxable_preference = Auto | Require | Forbid

definition platform_sandbox_or_none :: "target_os \<Rightarrow> windows_sandbox_level \<Rightarrow> sandbox_type" where
  "platform_sandbox_or_none os level =
     (case get_platform_sandbox os (level \<noteq> LevelDisabled) of Some s \<Rightarrow> s | None \<Rightarrow> NoSandbox)"

definition select_initial ::
  "target_os \<Rightarrow> file_system_sandbox_policy \<Rightarrow> network_sandbox_policy \<Rightarrow> sandboxable_preference \<Rightarrow>
   windows_sandbox_level \<Rightarrow> bool \<Rightarrow> sandbox_type"
where
  "select_initial os fsp net pref level managed =
     (case pref of
        Forbid \<Rightarrow> NoSandbox
      | Require \<Rightarrow> platform_sandbox_or_none os level
      | Auto \<Rightarrow>
          if should_require_platform_sandbox fsp net managed then platform_sandbox_or_none os level else NoSandbox)"

text \<open>On a platform with a sandbox, a tool goes without one only where it may write everywhere and use
  the network, or where another sandbox surrounds the program.\<close>

lemma no_sandbox_iff:
  assumes "get_platform_sandbox os (level \<noteq> LevelDisabled) \<noteq> None"
  shows "select_initial os fsp net Auto level managed = NoSandbox \<longleftrightarrow>
    \<not> managed \<and> (policy_kind fsp = ExternalSandbox \<or> network_is_enabled net \<and> has_full_disk_write_access fsp)"
  using assms
  by (auto simp: select_initial_def should_require_platform_sandbox_def platform_sandbox_or_none_def
      get_platform_sandbox_def has_full_disk_write_access_def
      split: target_os.splits if_splits file_system_sandbox_kind.splits)

end
