(* ===== verification/Patch_Safety.thy ===== *)
theory Patch_Safety
  imports Patch_Invocation Approval_Policy Platform_Sandbox
begin

section \<open>Safety of patches\<close>

text \<open>
  A model of \<^verbatim>\<open>codex-rs/core/src/safety.rs\<close> and \<^verbatim>\<open>codex-rs/core/src/apply_patch.rs\<close>: whether a
  patch is applied without asking, asks the user, or is rejected.
\<close>

subsection \<open>Writable paths\<close>

text \<open>The components of the path that a key stands for.\<close>

definition key_path :: "path_key \<Rightarrow> path" where
  "key_path k = (if fst k then [RootDir] else []) @ map (\<lambda>n. if n = ''..'' then ParentDir else NormalComponent n) (snd k)"

definition resolve_path :: "path \<Rightarrow> path \<Rightarrow> path" where
  "resolve_path base p = (if is_absolute p then p else path_join base p)"

fun normalize_without_fs :: "path \<Rightarrow> path \<Rightarrow> path" where
  "normalize_without_fs [] out = out"
| "normalize_without_fs (ParentDir # cs) out =
     normalize_without_fs cs (case path_parent out of Some q \<Rightarrow> q | None \<Rightarrow> out)"
| "normalize_without_fs (CurDir # cs) out = normalize_without_fs cs out"
| "normalize_without_fs (RootDir # cs) out = normalize_without_fs cs [RootDir]"
| "normalize_without_fs (NormalComponent n # cs) out = normalize_without_fs cs (out @ [NormalComponent n])"

definition patch_path_is_writable :: "fs_env \<Rightarrow> file_system_sandbox_policy \<Rightarrow> path \<Rightarrow> path \<Rightarrow> bool" where
  "patch_path_is_writable env fsp cwd p =
     can_write_path_with_cwd env fsp (normalize_without_fs (resolve_path cwd p) []) cwd"

fun change_is_writable :: "fs_env \<Rightarrow> file_system_sandbox_policy \<Rightarrow> path \<Rightarrow> path_key \<times> file_change \<Rightarrow> bool" where
  "change_is_writable env fsp cwd (k, AddChange _) = patch_path_is_writable env fsp cwd (key_path k)"
| "change_is_writable env fsp cwd (k, DeleteChange _) = patch_path_is_writable env fsp cwd (key_path k)"
| "change_is_writable env fsp cwd (k, UpdateChange _ mv _) =
     (if \<not> patch_path_is_writable env fsp cwd (key_path k) then False
      else (case mv of
              Some dest \<Rightarrow> patch_path_is_writable env fsp cwd (path_components dest)
            | None \<Rightarrow> True))"

definition is_write_patch_constrained_to_writable_paths ::
  "fs_env \<Rightarrow> apply_patch_action \<Rightarrow> file_system_sandbox_policy \<Rightarrow> path \<Rightarrow> bool"
where
  "is_write_patch_constrained_to_writable_paths env act fsp cwd =
     list_all (change_is_writable env fsp cwd) (action_changes act)"

subsection \<open>The decision\<close>

datatype safety_check =
    AutoApprove (approved_sandbox: sandbox_type) (user_explicitly_approved: bool)
  | AskUser
  | RejectPatch string

definition OUTSIDE_PROJECT_REASON :: string where
  "OUTSIDE_PROJECT_REASON = ''writing outside of the project; rejected by user approval settings''"

definition rejects_patch_prompt :: "ask_for_approval \<Rightarrow> bool" where
  "rejects_patch_prompt policy = (case policy of Never \<Rightarrow> True | Reject c \<Rightarrow> sandbox_approval c | _ \<Rightarrow> False)"

definition assess_patch_safety ::
  "target_os \<Rightarrow> fs_env \<Rightarrow> apply_patch_action \<Rightarrow> ask_for_approval \<Rightarrow> sandbox_policy \<Rightarrow>
   file_system_sandbox_policy \<Rightarrow> path \<Rightarrow> windows_sandbox_level \<Rightarrow> safety_check"
where
  "assess_patch_safety os env act policy sandbox_policy fsp cwd level =
     (if action_changes act = [] then RejectPatch ''empty patch''
      else if policy = UnlessTrusted then AskUser
      else if is_write_patch_constrained_to_writable_paths env act fsp cwd \<or> policy = OnFailure then
        (case sandbox_policy of
           DangerFullAccess \<Rightarrow> AutoApprove NoSandbox False
         | ExternalSandboxPolicy _ \<Rightarrow> AutoApprove NoSandbox False
         | _ \<Rightarrow>
             (case get_platform_sandbox os (level \<noteq> LevelDisabled) of
                Some sandbox \<Rightarrow> AutoApprove sandbox False
              | None \<Rightarrow> if rejects_patch_prompt policy then RejectPatch OUTSIDE_PROJECT_REASON else AskUser))
      else if rejects_patch_prompt policy then RejectPatch OUTSIDE_PROJECT_REASON
      else AskUser)"

record apply_patch_exec =
  exec_action :: apply_patch_action
  auto_approved :: bool
  patch_requirement :: exec_approval_requirement

text \<open>The error is the message to the model.\<close>

definition apply_patch_tool ::
  "target_os \<Rightarrow> fs_env \<Rightarrow> ask_for_approval \<Rightarrow> sandbox_policy \<Rightarrow> path \<Rightarrow> windows_sandbox_level \<Rightarrow>
   file_system_sandbox_policy \<Rightarrow> apply_patch_action \<Rightarrow> (string, apply_patch_exec) result"
where
  "apply_patch_tool os env policy sandbox_policy cwd level fsp act =
     (case assess_patch_safety os env act policy sandbox_policy fsp cwd level of
        AutoApprove _ explicitly \<Rightarrow>
          Inr \<lparr>exec_action = act, auto_approved = (\<not> explicitly), patch_requirement = Skip False None\<rparr>
      | AskUser \<Rightarrow>
          Inr \<lparr>exec_action = act, auto_approved = False, patch_requirement = NeedsApproval None None\<rparr>
      | RejectPatch reason \<Rightarrow> Inl (''patch rejected: '' @ reason))"

datatype protocol_file_change =
    AddedFile string
  | DeletedFile string
  | UpdatedFile string "string option"

fun protocol_change :: "file_change \<Rightarrow> protocol_file_change" where
  "protocol_change (AddChange content) = AddedFile content"
| "protocol_change (DeleteChange content) = DeletedFile content"
| "protocol_change (UpdateChange diff mv _) = UpdatedFile diff mv"

definition convert_apply_patch_to_protocol :: "apply_patch_action \<Rightarrow> (path_key \<times> protocol_file_change) list" where
  "convert_apply_patch_to_protocol act = map (\<lambda>(k, c). (k, protocol_change c)) (action_changes act)"


subsection \<open>What is applied without asking\<close>

lemma key_path_absolute: "prefix ''/'' p \<Longrightarrow> key_path (path_key p) = path_components p"
  by (simp add: key_path_def path_key_def path_components_def Let_def)

lemma join_path_absolute: "prefix ''/'' base \<Longrightarrow> prefix ''/'' (join_path base p)"
  by (auto simp: join_path_def prefix_def)

lemma writable_change_targets:
  assumes "change_is_writable env fsp cwd (k, c)"
    and "case c of UpdateChange _ (Some m) _ \<Rightarrow> prefix ''/'' m | _ \<Rightarrow> True"
  shows "change_targets (k, c) \<subseteq> {x. patch_path_is_writable env fsp cwd (key_path x)}"
  using assms by (cases c) (auto simp: key_path_absolute split: option.splits if_splits)

lemma hunk_change_absolute:
  assumes "hunk_change diff os fs dir h = Some (Inr c)" and "prefix ''/'' dir"
  shows "case c of UpdateChange _ (Some m) _ \<Rightarrow> prefix ''/'' m | _ \<Rightarrow> True"
  using assms by (cases h) (auto simp: join_path_absolute Let_def split: option.splits sum.splits)

lemma auto_approved_constrained:
  assumes "assess_patch_safety os env act policy sp fsp cwd level = AutoApprove sb u" and "policy \<noteq> OnFailure"
  shows "list_all (change_is_writable env fsp cwd) (action_changes act)"
  using assms
  by (auto simp: assess_patch_safety_def is_write_patch_constrained_to_writable_paths_def
      split: if_splits sandbox_policy.splits option.splits)

lemma auto_approved_hunks_are_writable:
  assumes "maybe_parse_apply_patch_verified query diff refusal fs argv dir = Some (VerifiedBody act)"
    and "maybe_parse_apply_patch query argv = PatchBody args"
    and "distinct (map (hunk_key (action_cwd act)) (hunks args))" and "prefix ''/'' (action_cwd act)"
    and "assess_patch_safety os env act policy sp fsp cwd level = AutoApprove sb u" and "policy \<noteq> OnFailure"
    and "h \<in> set (hunks args)"
  shows "touched_by (resolve_hunk (action_cwd act) h) \<subseteq> {k. patch_path_is_writable env fsp cwd (key_path k)}"
proof -
  from change_of_hunk [OF verified_changes_loop [OF assms(1,2)] assms(3,7)] obtain c where
    c: "(hunk_key (action_cwd act) h, c) \<in> set (action_changes act)"
       "hunk_change diff refusal fs (action_cwd act) h = Some (Inr c)" by blast
  from auto_approved_constrained [OF assms(5,6)] c(1)
  have "change_is_writable env fsp cwd (hunk_key (action_cwd act) h, c)" by (auto simp: list_all_iff)
  from writable_change_targets [OF this hunk_change_absolute [OF c(2) assms(4)]] show ?thesis
    by (simp only: hunk_change_targets [OF c(2)])
qed

text \<open>The path that is checked for a file: its own, without the \<open>.\<close> and \<open>..\<close> that it has.\<close>

lemma normalize_without_fs_normalised:
  "normalised out \<Longrightarrow> normalised (normalize_without_fs p out)"
proof (induction p out rule: normalize_without_fs.induct)
  case (2 cs out)
  then show ?case by (cases "path_parent out") (auto intro: normalised_pop)
next
  case (5 n cs out)
  then have "normalised (out @ [NormalComponent n])"
    by (auto simp: normalised_def intro: exI [of _ "names @ [n]" for names])
  with "5.IH" show ?case by simp
qed (simp_all add: normalised_def)

lemma normalize_absolute: "is_absolute p \<Longrightarrow> normalised (normalize_without_fs p [])"
  using normalize_without_fs_normalised [OF root_normalised]
  by (auto simp: is_absolute_def split: list.splits path_component.splits)

lemma key_path_is_absolute: "fst k \<Longrightarrow> is_absolute (key_path k)"
  by (simp add: key_path_def is_absolute_def)

lemma touched_by_absolute: "prefix ''/'' dir \<Longrightarrow> k \<in> touched_by (resolve_hunk dir h) \<Longrightarrow> fst k"
  by (cases h) (auto simp: path_key_def join_path_absolute split: option.splits)

text \<open>C4: A patch that is applied without asking changes only files that the policy gives access to write.
  The approval policy is any but \<open>OnFailure\<close> (under which every patch may be applied, in the
  sandbox), the hunks name different files, the working directory is absolute, and the file-system
  policy restricts writing.  Whatever the files are by the time the patch runs, and
  whatever the operating system refuses: if a file is not what it was before, then of the entries
  of the policy that cover it the most specific one, with the highest precedence, is one to write.\<close>

theorem auto_approved_patches_stay_writable:
  assumes "maybe_parse_apply_patch_verified query diff refusal fs argv dir = Some (VerifiedBody act)"
    and "maybe_parse_apply_patch query argv = PatchBody args"
    and "distinct (map (hunk_key (action_cwd act)) (hunks args))" and "prefix ''/'' (action_cwd act)"
    and "assess_patch_safety os env act policy sp fsp cwd level = AutoApprove sb u" and "policy \<noteq> OnFailure"
    and "policy_kind fsp = Restricted"
    and "fst (apply_hunks_to_files refusal' (map (resolve_hunk (action_cwd act)) (hunks args)) fs') k \<noteq> fs' k"
  shows "\<exists>e. decides (normalize_without_fs (key_path k) []) (resolved_entries_with_cwd env fsp cwd) e \<and>
    resolved_access e = AccessWrite"
proof -
  have "\<exists>h \<in> set (map (resolve_hunk (action_cwd act)) (hunks args)). k \<in> touched_by h"
    using assms(8) apply_hunks_to_files_frame by blast
  then obtain h where h: "h \<in> set (hunks args)" "k \<in> touched_by (resolve_hunk (action_cwd act) h)"
    unfolding set_map by blast
  let ?p = "normalize_without_fs (key_path k) []"
  have abs: "is_absolute (key_path k)" using key_path_is_absolute touched_by_absolute [OF assms(4) h(2)] by blast
  from auto_approved_hunks_are_writable [OF assms(1-6) h(1)] h(2)
  have "resolve_access_with_cwd env fsp ?p cwd = AccessWrite"
    by (auto simp: patch_path_is_writable_def resolve_path_def abs can_write_path_with_cwd_def can_write_def)
  with most_specific_entry_decides [OF assms(7) normalize_absolute [OF abs], of env cwd] show ?thesis
    by (metis file_system_access_mode.distinct(5))
qed

text \<open>Asking is only done where the user lets it.\<close>

lemma patch_prompts_respect_policy:
  "assess_patch_safety os env act policy sp fsp cwd level = AskUser \<Longrightarrow> \<not> rejects_patch_prompt policy"
  by (auto simp: assess_patch_safety_def rejects_patch_prompt_def
      split: if_splits sandbox_policy.splits option.splits)

text \<open>C5: The changes that are checked, and shown to the user, are not all that the patch does when it
  names a path twice: a hunk that moves a file, followed by one that adds it again, is announced
  as the second alone.  Where the file is moved to, which the patch writes, is neither checked
  nor announced.\<close>

theorem overwritten_move_is_not_checked:
  assumes "derive_new_contents_from_chunks no_refusal fs (join_path dir p) chunks = Some (Inr ap)"
    and "path_key (join_path dir p) \<noteq> path_key (join_path dir m)"
    and "hs = [UpdateFile p (Some m) chunks, AddFile p t]"
  shows "\<exists>cs. changes_loop diff no_refusal fs dir hs [] = Some (Inr cs) \<and>
    path_key (join_path dir m) \<notin> \<Union> (change_targets ` set cs) \<and>
    (is_write_patch_constrained_to_writable_paths env
       \<lparr>action_changes = cs, action_patch = pt, action_cwd = dir\<rparr> fsp cwd \<longleftrightarrow>
     patch_path_is_writable env fsp cwd (key_path (path_key (join_path dir p)))) \<and>
    fst (apply_hunks_to_files no_refusal (map (resolve_hunk dir) hs) fs) (path_key (join_path dir m)) =
      Some (new_contents ap)"
proof -
  let ?p = "path_key (join_path dir p)" and ?m = "path_key (join_path dir m)"
  let ?u = "UpdateFile p (Some m) chunks" and ?a = "AddFile p t"
  let ?c = "UpdateChange (diff (original_contents ap) (new_contents ap)) (Some (join_path dir m)) (new_contents ap)"
  have key: "hunk_key dir ?u = ?p" "hunk_key dir ?a = ?p" by (simp_all add: hunk_key_def resolve_path_in_def)
  have c: "hunk_change diff no_refusal fs dir ?u = Some (Inr ?c)"
    using assms(1) by (simp add: unified_diff_from_chunks_def)
  then have cs: "changes_loop diff no_refusal fs dir hs [] = Some (Inr [(?p, AddChange t)])"
    by (simp add: assms(3) resolve_path_in_def del: hunk_change.simps(3))
  have "independent_hunks [resolve_hunk dir ?u]" using assms(2) by (simp add: independent_hunks_def)
  from hunk_applies_as_announced [of diff fs dir ?u ?c fs no_affected, OF c refl this] obtain aff where
    "apply_hunk no_refusal (resolve_hunk dir ?u) fs no_affected = (announced (?p, ?c) fs, Inr aff)"
    by (auto simp: key)
  moreover from hunk_applies_as_announced [of diff "announced (?p, ?c) fs" dir ?a "AddChange t" "announced (?p, ?c) fs" aff]
  obtain aff' where
    "apply_hunk no_refusal (resolve_hunk dir ?a) (announced (?p, ?c) fs) aff =
      (announced (?p, AddChange t) (announced (?p, ?c) fs), Inr aff')"
    by (auto simp: key independent_hunks_def)
  ultimately have "fst (apply_hunks_to_files no_refusal (map (resolve_hunk dir) hs) fs) ?m = Some (new_contents ap)"
    using assms(2) by (simp add: apply_hunks_to_files_def assms(3))
  with cs assms(2) show ?thesis
    by (auto simp: is_write_patch_constrained_to_writable_paths_def)
qed


definition sample_action :: apply_patch_action where
  "sample_action = \<lparr>action_changes = [(path_key ''/w/a'', AddChange (''x'' @ [nl])), (path_key ''/w/b'', DeleteChange ''y'')],
     action_patch = patch sample_patch_args, action_cwd = ''/w''\<rparr>"

lemma sample_action_facts:
  "maybe_parse_apply_patch_verified (\<lambda>_. Inr []) (\<lambda>_ _. []) no_refusal [path_key ''/w/b'' \<mapsto> ''y'']
     sample_patch_command ''/w'' = Some (VerifiedBody sample_action)"
  "distinct (map (hunk_key (action_cwd sample_action)) (hunks sample_patch_args))"
  "prefix ''/'' (action_cwd sample_action)"
  "assess_patch_safety Linux workspace_env sample_action OnRequest new_workspace_write_policy workspace_policy
     (sample_dir ''w'') LevelDisabled = AutoApprove LinuxSeccomp False"
  "AddFile ''a'' (''x'' @ [nl]) \<in> set (hunks sample_patch_args)"
  by code_simp+

theorem auto_approved_patches_stay_writable_witness:
  "fst (apply_hunks_to_files no_refusal (map (resolve_hunk (action_cwd sample_action)) (hunks sample_patch_args))
     [path_key ''/w/b'' \<mapsto> ''y'']) (path_key ''/w/a'') \<noteq> [path_key ''/w/b'' \<mapsto> ''y''] (path_key ''/w/a'') \<and>
   (\<exists>e. decides (sample_dir ''w'' @ [NormalComponent ''a'']) (resolved_entries_with_cwd workspace_env workspace_policy (sample_dir ''w'')) e \<and>
      resolved_access e = AccessWrite)"
proof -
  have 1: "fst (apply_hunks_to_files no_refusal (map (resolve_hunk (action_cwd sample_action)) (hunks sample_patch_args))
     [path_key ''/w/b'' \<mapsto> ''y'']) (path_key ''/w/a'') \<noteq> [path_key ''/w/b'' \<mapsto> ''y''] (path_key ''/w/a'')"
    by code_simp
  have 2: "normalize_without_fs (key_path (path_key ''/w/a'')) [] = sample_dir ''w'' @ [NormalComponent ''a'']"
    by code_simp
  from auto_approved_patches_stay_writable
    [OF sample_action_facts(1) sample_patch_facts(2) sample_action_facts(2,3,4) _ sample_facts(1) 1] 1
  show ?thesis unfolding 2 by simp
qed

definition sample_move_chunks :: "update_file_chunk list" where
  "sample_move_chunks = [\<lparr>change_context = None, old_lines = [''x''], new_lines = [''y''], is_end_of_file = False\<rparr>]"

theorem overwritten_move_is_not_checked_witness:
  "\<exists>cs. changes_loop (\<lambda>_ _. []) no_refusal [path_key ''/w/a'' \<mapsto> ''x'' @ [nl]] ''/w''
      [UpdateFile ''a'' (Some ''/etc/b'') sample_move_chunks, AddFile ''a'' ''z''] [] = Some (Inr cs) \<and>
    path_key (join_path ''/w'' ''/etc/b'') \<notin> \<Union> (change_targets ` set cs) \<and>
    (is_write_patch_constrained_to_writable_paths workspace_env
       \<lparr>action_changes = cs, action_patch = [], action_cwd = ''/w''\<rparr> workspace_policy (sample_dir ''w'') \<longleftrightarrow>
     patch_path_is_writable workspace_env workspace_policy (sample_dir ''w'') (key_path (path_key (join_path ''/w'' ''a'')))) \<and>
    fst (apply_hunks_to_files no_refusal
        (map (resolve_hunk ''/w'') [UpdateFile ''a'' (Some ''/etc/b'') sample_move_chunks, AddFile ''a'' ''z''])
        [path_key ''/w/a'' \<mapsto> ''x'' @ [nl]]) (path_key (join_path ''/w'' ''/etc/b'')) =
      Some (''y'' @ [nl])"
proof -
  have derive: "derive_new_contents_from_chunks no_refusal [path_key ''/w/a'' \<mapsto> ''x'' @ [nl]] (join_path ''/w'' ''a'') sample_move_chunks =
      Some (Inr \<lparr>original_contents = ''x'' @ [nl], new_contents = ''y'' @ [nl]\<rparr>)" by code_simp
  moreover have "path_key (join_path ''/w'' ''a'') \<noteq> path_key (join_path ''/w'' ''/etc/b'')" by code_simp
  ultimately show ?thesis
    using overwritten_move_is_not_checked [OF derive _ refl] by fastforce
qed

end
