(* ===== verification/Network_Decision.thy ===== *)
theory Network_Decision
  imports Rust_Text
begin

section \<open>Requests for network access and decisions on them\<close>

text \<open>
  The types that the network proxy and the approval of network access share:
  \<^verbatim>\<open>codex-rs/network-proxy/src/network_policy.rs\<close>, \<^verbatim>\<open>reasons.rs\<close>, the modes of \<^verbatim>\<open>config.rs\<close> and the
  blocked requests of \<^verbatim>\<open>runtime.rs\<close>.
\<close>

datatype network_mode = Limited | Full

definition allows_method :: "network_mode \<Rightarrow> string \<Rightarrow> bool" where
  "allows_method mode http_method =
     (case mode of Full \<Rightarrow> True | Limited \<Rightarrow> http_method \<in> {''GET'', ''HEAD'', ''OPTIONS''})"

datatype network_protocol = ProtoHttp | ProtoHttpsConnect | ProtoSocks5Tcp | ProtoSocks5Udp

fun as_policy_protocol :: "network_protocol \<Rightarrow> string" where
  "as_policy_protocol ProtoHttp = ''http''"
| "as_policy_protocol ProtoHttpsConnect = ''https_connect''"
| "as_policy_protocol ProtoSocks5Tcp = ''socks5_tcp''"
| "as_policy_protocol ProtoSocks5Udp = ''socks5_udp''"

record network_policy_request =
  request_protocol :: network_protocol
  request_host :: string
  request_port :: nat
  request_client :: "string option"
  request_method :: "string option"
  request_command :: "string option"
  request_hint :: "string option"

datatype network_policy_decision = PolicyDeny | PolicyAsk
datatype network_decision_source = BaselinePolicy | ModeGuard | ProxyState | Decider

datatype network_decision =
    NetworkAllow
  | NetworkDeny string network_decision_source network_policy_decision

fun decision_text :: "network_policy_decision \<Rightarrow> string" where
  "decision_text PolicyDeny = ''deny''"
| "decision_text PolicyAsk = ''ask''"

fun source_text :: "network_decision_source \<Rightarrow> string" where
  "source_text BaselinePolicy = ''baseline_policy''"
| "source_text ModeGuard = ''mode_guard''"
| "source_text ProxyState = ''proxy_state''"
| "source_text Decider = ''decider''"

definition REASON_POLICY_DENIED :: string where
  "REASON_POLICY_DENIED = ''policy_denied''"

definition deny_with_source :: "string \<Rightarrow> network_decision_source \<Rightarrow> network_decision" where
  "deny_with_source reason source = NetworkDeny (if reason = [] then REASON_POLICY_DENIED else reason) source PolicyDeny"

definition ask_with_source :: "string \<Rightarrow> network_decision_source \<Rightarrow> network_decision" where
  "ask_with_source reason source = NetworkDeny (if reason = [] then REASON_POLICY_DENIED else reason) source PolicyAsk"

definition network_deny :: "string \<Rightarrow> network_decision" where
  "network_deny reason = deny_with_source reason Decider"

definition network_ask :: "string \<Rightarrow> network_decision" where
  "network_ask reason = ask_with_source reason Decider"

text \<open>What is remembered of a request that was blocked.\<close>

record blocked_request =
  blocked_host :: string
  blocked_reason :: string
  blocked_client :: "string option"
  blocked_method :: "string option"
  blocked_mode :: "network_mode option"
  blocked_protocol :: string
  blocked_decision :: "string option"
  blocked_source :: "string option"
  blocked_port :: "nat option"
  blocked_timestamp :: int

end
