(* ===== verification/Network_Approval.thy ===== *)
theory Network_Approval
  imports Approval_Policy Network_Decision
begin

section \<open>Approval of network access\<close>

text \<open>
  A model of \<^verbatim>\<open>codex-rs/core/src/tools/network_approval.rs\<close> and of
  \<^verbatim>\<open>codex-rs/core/src/network_policy_decision.rs\<close>: requests for hosts that the proxy does not
  know are put to the user, once for each host however many requests arrive at the same time.
  The requests are tasks that interleave at every lock that the code takes.
\<close>

subsection \<open>Hosts and decisions\<close>

datatype approval_protocol = ApprovalHttp | ApprovalHttps | ApprovalSocks5Tcp | ApprovalSocks5Udp

fun approval_protocol_of :: "network_protocol \<Rightarrow> approval_protocol" where
  "approval_protocol_of ProtoHttp = ApprovalHttp"
| "approval_protocol_of ProtoHttpsConnect = ApprovalHttps"
| "approval_protocol_of ProtoSocks5Tcp = ApprovalSocks5Tcp"
| "approval_protocol_of ProtoSocks5Udp = ApprovalSocks5Udp"

fun protocol_key_label :: "approval_protocol \<Rightarrow> string" where
  "protocol_key_label ApprovalHttp = ''http''"
| "protocol_key_label ApprovalHttps = ''https''"
| "protocol_key_label ApprovalSocks5Tcp = ''socks5-tcp''"
| "protocol_key_label ApprovalSocks5Udp = ''socks5-udp''"

record host_approval_key =
  key_host :: string
  key_protocol :: string
  key_port :: nat

definition key_from_request :: "network_policy_request \<Rightarrow> host_approval_key" where
  "key_from_request r =
     \<lparr>key_host = to_ascii_lowercase (request_host r),
      key_protocol = protocol_key_label (approval_protocol_of (request_protocol r)),
      key_port = request_port r\<rparr>"

datatype pending_approval_decision = AllowOnce | AllowForSession | DenyPending

fun to_network_decision :: "pending_approval_decision \<Rightarrow> network_decision" where
  "to_network_decision DenyPending = network_deny ''not_allowed''"
| "to_network_decision _ = NetworkAllow"

datatype network_approval_outcome = DeniedByUser | DeniedByPolicy string

definition allows_network_approval_flow :: "ask_for_approval \<Rightarrow> bool" where
  "allows_network_approval_flow policy = (policy \<noteq> Never)"

definition GUARDIAN_REJECTION_MESSAGE :: string where
  "GUARDIAN_REJECTION_MESSAGE =
     ''This action was rejected due to unacceptable risk. '' @
     ''The agent must not attempt to achieve the same outcome via workaround, '' @
     ''indirect execution, or policy circumvention. '' @
     ''Proceed only with a materially safer alternative, '' @
     ''or if the user explicitly approves the action after being informed of the risk. '' @
     ''Otherwise, stop and request user input.''"

subsection \<open>Calls of tools that use the network\<close>

text \<open>The state of the service.  Pending approvals are objects that tasks share; an object is its number
  in a list that never shrinks, with the decision once there is one.  The key for which an
  object was made is kept beside it; the code does not look at it.\<close>

record approval_service =
  active_calls :: "string list"
  call_outcomes :: "string \<rightharpoonup> network_approval_outcome"
  pending_host_approvals :: "host_approval_key \<rightharpoonup> nat"
  session_approved_hosts :: "host_approval_key set"
  session_denied_hosts :: "host_approval_key set"
  pending_objects :: "(host_approval_key \<times> pending_approval_decision option) list"

definition new_service :: approval_service where
  "new_service = \<lparr>active_calls = [], call_outcomes = Map.empty, pending_host_approvals = Map.empty,
     session_approved_hosts = {}, session_denied_hosts = {}, pending_objects = []\<rparr>"

definition copy_session_approved_hosts_to :: "approval_service \<Rightarrow> approval_service \<Rightarrow> approval_service" where
  "copy_session_approved_hosts_to s other =
     other\<lparr>session_approved_hosts := session_approved_hosts other \<union> session_approved_hosts s\<rparr>"

definition register_call :: "string \<Rightarrow> approval_service \<Rightarrow> approval_service" where
  "register_call rid s = s\<lparr>active_calls := (if rid \<in> set (active_calls s) then active_calls s else active_calls s @ [rid])\<rparr>"

definition unregister_call :: "string \<Rightarrow> approval_service \<Rightarrow> approval_service" where
  "unregister_call rid s =
     s\<lparr>active_calls := filter (\<lambda>r. r \<noteq> rid) (active_calls s), call_outcomes := (call_outcomes s)(rid := None)\<rparr>"

definition resolve_single_active_call :: "approval_service \<Rightarrow> string option" where
  "resolve_single_active_call s = (case active_calls s of [rid] \<Rightarrow> Some rid | _ \<Rightarrow> None)"

definition record_call_outcome :: "string \<Rightarrow> network_approval_outcome \<Rightarrow> approval_service \<Rightarrow> approval_service" where
  "record_call_outcome rid outcome s =
     (if call_outcomes s rid = Some DeniedByUser then s
      else s\<lparr>call_outcomes := (call_outcomes s)(rid \<mapsto> outcome)\<rparr>)"

definition take_call_outcome ::
  "string \<Rightarrow> approval_service \<Rightarrow> network_approval_outcome option \<times> approval_service"
where
  "take_call_outcome rid s = (call_outcomes s rid, s\<lparr>call_outcomes := (call_outcomes s)(rid := None)\<rparr>)"

definition record_outcome_for_single_active_call :: "network_approval_outcome \<Rightarrow> approval_service \<Rightarrow> approval_service" where
  "record_outcome_for_single_active_call outcome s =
     (case resolve_single_active_call s of None \<Rightarrow> s | Some rid \<Rightarrow> record_call_outcome rid outcome s)"

datatype approval_mode = Immediate | Deferred

text \<open>The specification of a tool: whether it has a proxy, and the mode.\<close>

type_synonym approval_spec = "bool \<times> approval_mode"

record active_network_approval =
  registration_id :: "string option"
  active_mode :: approval_mode

definition begin_network_approval ::
  "string \<Rightarrow> bool \<Rightarrow> approval_spec option \<Rightarrow> approval_service \<Rightarrow> active_network_approval option \<times> approval_service"
where
  "begin_network_approval fresh_id managed spec s =
     (case spec of
        None \<Rightarrow> (None, s)
      | Some (network, mode) \<Rightarrow>
          if \<not> managed \<or> \<not> network then (None, s)
          else (Some \<lparr>registration_id = Some fresh_id, active_mode = mode\<rparr>, register_call fresh_id s))"

definition into_deferred :: "active_network_approval \<Rightarrow> string option" where
  "into_deferred a = (case (active_mode a, registration_id a) of (Deferred, Some rid) \<Rightarrow> Some rid | _ \<Rightarrow> None)"

text \<open>The error is that of a rejected tool.\<close>

definition finish_immediate_network_approval ::
  "active_network_approval \<Rightarrow> approval_service \<Rightarrow> (string, unit) result \<times> approval_service"
where
  "finish_immediate_network_approval a s =
     (case registration_id a of
        None \<Rightarrow> (Inr (), s)
      | Some rid \<Rightarrow>
          (let (outcome, s1) = take_call_outcome rid s;
               s2 = unregister_call rid s1
           in (case outcome of
                 Some DeniedByUser \<Rightarrow> Inl ''rejected by user''
               | Some (DeniedByPolicy m) \<Rightarrow> Inl m
               | None \<Rightarrow> Inr (), s2)))"

definition finish_deferred_network_approval :: "string option \<Rightarrow> approval_service \<Rightarrow> approval_service" where
  "finish_deferred_network_approval d s = (case d of None \<Rightarrow> s | Some rid \<Rightarrow> unregister_call rid s)"

subsection \<open>Messages\<close>

definition parse_network_policy_decision :: "string \<Rightarrow> network_policy_decision option" where
  "parse_network_policy_decision v = (if v = ''deny'' then Some PolicyDeny else if v = ''ask'' then Some PolicyAsk else None)"

record network_decision_payload =
  payload_decision :: network_policy_decision
  payload_source :: network_decision_source
  payload_protocol :: "approval_protocol option"
  payload_host :: "string option"

definition is_ask_from_decider :: "network_decision_payload \<Rightarrow> bool" where
  "is_ask_from_decider p = (payload_decision p = PolicyAsk \<and> payload_source p = Decider)"

record network_approval_context =
  context_host :: string
  context_protocol :: approval_protocol

definition network_approval_context_from_payload :: "network_decision_payload \<Rightarrow> network_approval_context option" where
  "network_approval_context_from_payload p =
     (if \<not> is_ask_from_decider p then None
      else (case payload_protocol p of
              None \<Rightarrow> None
            | Some protocol \<Rightarrow>
                (case payload_host p of
                   None \<Rightarrow> None
                 | Some h \<Rightarrow>
                     if str_trim h = [] then None
                     else Some \<lparr>context_host = str_trim h, context_protocol = protocol\<rparr>)))"

definition blocked_detail :: "string \<Rightarrow> string" where
  "blocked_detail reason =
     (if reason = ''denied'' then ''domain is explicitly denied by policy and cannot be approved from this prompt''
      else if reason = ''not_allowed'' then ''domain is not on the allowlist for the current sandbox mode''
      else if reason = ''not_allowed_local'' then ''local/private network addresses are blocked by policy''
      else if reason = ''method_not_allowed'' then ''request method is blocked by the current network mode''
      else if reason = ''proxy_disabled'' then ''managed network proxy is disabled''
      else ''request is blocked by network policy'')"

definition denied_network_policy_message :: "blocked_request \<Rightarrow> string option" where
  "denied_network_policy_message b =
     (if Option.bind (blocked_decision b) parse_network_policy_decision \<noteq> Some PolicyDeny then None
      else if str_trim (blocked_host b) = [] then Some ''Network access was blocked by policy.''
      else Some (''Network access to '' @ [CHR 34] @ str_trim (blocked_host b) @ [CHR 34] @ '' was blocked: '' @
             blocked_detail (blocked_reason b) @ ''.''))"

definition record_blocked_request :: "blocked_request \<Rightarrow> approval_service \<Rightarrow> approval_service" where
  "record_blocked_request b s =
     (case denied_network_policy_message b of
        None \<Rightarrow> s
      | Some m \<Rightarrow> record_outcome_for_single_active_call (DeniedByPolicy m) s)"

definition format_network_target :: "string \<Rightarrow> string \<Rightarrow> nat \<Rightarrow> string" where
  "format_network_target protocol h port = protocol @ ''://'' @ h @ '':'' @ nat_digits port"

definition policy_denial_message :: "network_policy_request \<Rightarrow> string" where
  "policy_denial_message r =
     ''Network access to '' @ [CHR 34] @
     format_network_target (key_protocol (key_from_request r)) (request_host r) (key_port (key_from_request r)) @
     [CHR 34] @ '' was blocked by policy.''"

subsection \<open>A request as a task\<close>

text \<open>What the owner of a pending approval has left to do once it knows the answer; each of these
  takes one lock.\<close>

datatype settle_action =
    ResolveCall network_approval_outcome
  | RecordCall string network_approval_outcome
  | ForgetDenied
  | AddApproved
  | ForgetApproved
  | AddDenied
  | SetDecision
  | NotifyWaiters
  | RemovePending

text \<open>The plan that follows from the turn (its approval policy, and whether a guardian reviews), if
  there is one, and from the answer.\<close>

definition settle_plan ::
  "(ask_for_approval \<times> bool) option \<Rightarrow> string \<Rightarrow> review_decision \<Rightarrow> pending_approval_decision \<times> settle_action list"
where
  "settle_plan turn denial_message answer =
     (let denied = (DenyPending, [SetDecision, NotifyWaiters, RemovePending, ResolveCall (DeniedByPolicy denial_message)]);
          finish = [SetDecision, NotifyWaiters, RemovePending];
          for_session = (AllowForSession, [ForgetDenied, AddApproved] @ finish)
      in case turn of
           None \<Rightarrow> denied
         | Some (policy, guardian) \<Rightarrow>
             if \<not> allows_network_approval_flow policy then denied
             else (case answer of
                     Approved \<Rightarrow> (AllowOnce, finish)
                   | ApprovedExecpolicyAmendment _ \<Rightarrow> (AllowOnce, finish)
                   | ApprovedForSession \<Rightarrow> for_session
                   | NetworkPolicyAmendment a \<Rightarrow>
                       (case amendment_action a of
                          ActionAllow \<Rightarrow> for_session
                        | ActionDeny \<Rightarrow>
                            (DenyPending, ResolveCall DeniedByUser # [ForgetApproved, AddDenied] @ finish))
                   | _ \<Rightarrow>
                       (DenyPending,
                        ResolveCall (if guardian then DeniedByPolicy GUARDIAN_REJECTION_MESSAGE else DeniedByUser) # finish)))"

datatype task_pc =
    Entering
  | NotDenied
  | NotApproved
  | Checking nat
  | Sleeping nat
  | Asking nat
  | Settling nat pending_approval_decision "settle_action list"
  | Finished network_decision

record request_task =
  task_request :: network_policy_request
  task_pc :: task_pc
  woken :: bool

abbreviation task_key :: "request_task \<Rightarrow> host_approval_key" where
  "task_key t \<equiv> key_from_request (task_request t)"

record network_state =
  net_service :: approval_service
  net_tasks :: "request_task list"
  net_answers :: "(host_approval_key \<times> review_decision) list"

text \<open>A waiter made its notification before it looked at the decision, so it is among those that
  are woken.\<close>

definition wake_up :: "nat \<Rightarrow> request_task \<Rightarrow> request_task" where
  "wake_up n t = (if task_pc t = Checking n \<or> task_pc t = Sleeping n then t\<lparr>woken := True\<rparr> else t)"

definition perform ::
  "host_approval_key \<Rightarrow> nat \<Rightarrow> pending_approval_decision \<Rightarrow> settle_action \<Rightarrow> approval_service \<Rightarrow> approval_service"
where
  "perform key n d a s =
     (case a of
        ResolveCall _ \<Rightarrow> s
      | RecordCall rid outcome \<Rightarrow> record_call_outcome rid outcome s
      | ForgetDenied \<Rightarrow> s\<lparr>session_denied_hosts := session_denied_hosts s - {key}\<rparr>
      | AddApproved \<Rightarrow> s\<lparr>session_approved_hosts := insert key (session_approved_hosts s)\<rparr>
      | ForgetApproved \<Rightarrow> s\<lparr>session_approved_hosts := session_approved_hosts s - {key}\<rparr>
      | AddDenied \<Rightarrow> s\<lparr>session_denied_hosts := insert key (session_denied_hosts s)\<rparr>
      | SetDecision \<Rightarrow> s\<lparr>pending_objects := (pending_objects s)[n := (key, Some d)]\<rparr>
      | NotifyWaiters \<Rightarrow> s
      | RemovePending \<Rightarrow> s\<lparr>pending_host_approvals := (pending_host_approvals s)(key := None)\<rparr>)"

definition left_to_do :: "settle_action \<Rightarrow> settle_action list \<Rightarrow> approval_service \<Rightarrow> settle_action list" where
  "left_to_do a rest s =
     (case a of
        ResolveCall outcome \<Rightarrow>
          (case resolve_single_active_call s of Some rid \<Rightarrow> RecordCall rid outcome # rest | None \<Rightarrow> rest)
      | _ \<Rightarrow> rest)"

definition with_task :: "nat \<Rightarrow> task_pc \<Rightarrow> network_state \<Rightarrow> network_state" where
  "with_task i p st = st\<lparr>net_tasks := (net_tasks st)[i := (net_tasks st ! i)\<lparr>task_pc := p, woken := False\<rparr>]\<rparr>"

text \<open>One step of a task that needs nothing from outside; none if it sleeps or has to be answered.\<close>

definition advance :: "nat \<Rightarrow> network_state \<Rightarrow> network_state option" where
  "advance i st =
     (let t = net_tasks st ! i; key = task_key t; s = net_service st in
      case task_pc t of
        Entering \<Rightarrow>
          Some (with_task i (if key \<in> session_denied_hosts s then Finished (network_deny ''not_allowed'') else NotDenied) st)
      | NotDenied \<Rightarrow>
          Some (with_task i (if key \<in> session_approved_hosts s then Finished NetworkAllow else NotApproved) st)
      | NotApproved \<Rightarrow>
          (case pending_host_approvals s key of
             Some n \<Rightarrow> Some (with_task i (Checking n) st)
           | None \<Rightarrow>
               (let n = length (pending_objects s) in
                Some (with_task i (Asking n)
                  (st\<lparr>net_service := s\<lparr>pending_host_approvals := (pending_host_approvals s)(key \<mapsto> n),
                     pending_objects := pending_objects s @ [(key, None)]\<rparr>\<rparr>))))
      | Checking n \<Rightarrow>
          (case snd (pending_objects s ! n) of
             Some d \<Rightarrow> Some (with_task i (Finished (to_network_decision d)) st)
           | None \<Rightarrow> Some (st\<lparr>net_tasks := (net_tasks st)[i := t\<lparr>task_pc := Sleeping n\<rparr>]\<rparr>))
      | Sleeping n \<Rightarrow> if woken t then Some (with_task i (Checking n) st) else None
      | Asking n \<Rightarrow> None
      | Settling n d [] \<Rightarrow> Some (with_task i (Finished (to_network_decision d)) st)
      | Settling n d (a # rest) \<Rightarrow>
          (let st' = with_task i (Settling n d (left_to_do a rest s)) (st\<lparr>net_service := perform key n d a s\<rparr>) in
           Some (if a = NotifyWaiters then st'\<lparr>net_tasks := map (wake_up n) (net_tasks st')\<rparr> else st'))
      | Finished _ \<Rightarrow> None)"

text \<open>The answer of the user, or of a guardian, to the task that asked.\<close>

definition answer ::
  "(ask_for_approval \<times> bool) option \<Rightarrow> review_decision \<Rightarrow> nat \<Rightarrow> network_state \<Rightarrow> network_state option"
where
  "answer turn d i st =
     (let t = net_tasks st ! i in
      case task_pc t of
        Asking n \<Rightarrow>
          (let (resolved, plan) = settle_plan turn (policy_denial_message (task_request t)) d;
               asked = (case turn of None \<Rightarrow> False | Some (policy, _) \<Rightarrow> allows_network_approval_flow policy)
           in Some (with_task i (Settling n resolved plan)
                (st\<lparr>net_answers := net_answers st @ (if asked then [(task_key t, d)] else [])\<rparr>)))
      | _ \<Rightarrow> None)"

text \<open>The steps of the service: a new request, a step or an answer, and what the calls of tools do.\<close>

inductive network_step :: "network_state \<Rightarrow> network_state \<Rightarrow> bool" where
  spawn: "network_step st (st\<lparr>net_tasks := net_tasks st @ [\<lparr>task_request = r, task_pc = Entering, woken = False\<rparr>]\<rparr>)"
| advances: "i < length (net_tasks st) \<Longrightarrow> advance i st = Some st' \<Longrightarrow> network_step st st'"
| answers: "i < length (net_tasks st) \<Longrightarrow> answer turn d i st = Some st' \<Longrightarrow> network_step st st'"
| registers: "network_step st (st\<lparr>net_service := register_call rid (net_service st)\<rparr>)"
| unregisters: "network_step st (st\<lparr>net_service := unregister_call rid (net_service st)\<rparr>)"
| blocks: "network_step st (st\<lparr>net_service := record_blocked_request b (net_service st)\<rparr>)"
| takes: "network_step st (st\<lparr>net_service := snd (take_call_outcome rid (net_service st))\<rparr>)"

definition initial_network :: network_state where
  "initial_network = \<lparr>net_service = new_service, net_tasks = [], net_answers = []\<rparr>"

abbreviation network_reachable :: "network_state \<Rightarrow> bool" where
  "network_reachable \<equiv> network_step\<^sup>*\<^sup>* initial_network"

subsection \<open>The invariant\<close>

definition approves :: "review_decision \<Rightarrow> bool" where
  "approves d =
     (case d of
        Denied \<Rightarrow> False | Abort \<Rightarrow> False
      | NetworkPolicyAmendment a \<Rightarrow> amendment_action a = ActionAllow
      | _ \<Rightarrow> True)"

definition affirmed :: "(host_approval_key \<times> review_decision) list \<Rightarrow> host_approval_key \<Rightarrow> bool" where
  "affirmed ans k = list_ex (\<lambda>(k', d). k' = k \<and> approves d) ans"

lemma affirmed_snoc [simp]: "affirmed (ans @ [(k', d)]) k \<longleftrightarrow> affirmed ans k \<or> k' = k \<and> approves d"
  by (auto simp: affirmed_def)

text \<open>Apart from what is recorded for calls, what is left to do is the end of one of three plans.\<close>

fun is_call_action :: "settle_action \<Rightarrow> bool" where
  "is_call_action (ResolveCall _) = True"
| "is_call_action (RecordCall _ _) = True"
| "is_call_action _ = False"

definition host_actions :: "settle_action list \<Rightarrow> settle_action list" where
  "host_actions as = filter (\<lambda>a. \<not> is_call_action a) as"

definition last_actions :: "settle_action list" where
  "last_actions = [SetDecision, NotifyWaiters, RemovePending]"

definition wf_actions :: "settle_action list \<Rightarrow> bool" where
  "wf_actions as =
     (host_actions as \<in> set (suffixes ([ForgetDenied, AddApproved] @ last_actions) @
        suffixes ([ForgetApproved, AddDenied] @ last_actions)))"

definition task_ok ::
  "approval_service \<Rightarrow> (host_approval_key \<times> review_decision) list \<Rightarrow> request_task \<Rightarrow> bool"
where
  "task_ok s ans t =
     (let object_of = (\<lambda>n. n < length (pending_objects s) \<and> fst (pending_objects s ! n) = task_key t) in
      case task_pc t of
        Checking n \<Rightarrow> object_of n
      | Sleeping n \<Rightarrow> object_of n
      | Asking n \<Rightarrow> object_of n \<and> snd (pending_objects s ! n) = None \<and> pending_host_approvals s (task_key t) = Some n
      | Settling n d as \<Rightarrow>
          object_of n \<and> wf_actions as \<and>
          snd (pending_objects s ! n) = (if SetDecision \<in> set (host_actions as) then None else Some d) \<and>
          (RemovePending \<in> set (host_actions as) \<longrightarrow> pending_host_approvals s (task_key t) = Some n) \<and>
          (d \<noteq> DenyPending \<or> AddApproved \<in> set (host_actions as) \<longrightarrow> affirmed ans (task_key t)) \<and>
          (AddApproved \<in> set (host_actions as) \<and> ForgetDenied \<notin> set (host_actions as) \<longrightarrow> task_key t \<notin> session_denied_hosts s) \<and>
          (AddDenied \<in> set (host_actions as) \<and> ForgetApproved \<notin> set (host_actions as) \<longrightarrow> task_key t \<notin> session_approved_hosts s)
      | Finished d \<Rightarrow> d = NetworkAllow \<longrightarrow> affirmed ans (task_key t)
      | _ \<Rightarrow> True)"

definition owned_object :: "request_task \<Rightarrow> nat option" where
  "owned_object t = (case task_pc t of Asking n \<Rightarrow> Some n | Settling n _ _ \<Rightarrow> Some n | _ \<Rightarrow> None)"

definition has_to :: "settle_action \<Rightarrow> nat \<Rightarrow> request_task \<Rightarrow> bool" where
  "has_to a n t = (case task_pc t of Asking m \<Rightarrow> m = n | Settling m _ as \<Rightarrow> m = n \<and> a \<in> set (host_actions as) | _ \<Rightarrow> False)"

definition network_inv ::
  "approval_service \<Rightarrow> request_task list \<Rightarrow> (host_approval_key \<times> review_decision) list \<Rightarrow> bool"
where
  "network_inv s ts ans =
     ((\<forall>i < length ts. task_ok s ans (ts ! i)) \<and>
      (\<forall>i < length ts. \<forall>j < length ts. \<forall>n. owned_object (ts ! i) = Some n \<longrightarrow> owned_object (ts ! j) = Some n \<longrightarrow> i = j) \<and>
      (\<forall>k n. pending_host_approvals s k = Some n \<longrightarrow> n < length (pending_objects s) \<and> fst (pending_objects s ! n) = k) \<and>
      (\<forall>n < length (pending_objects s). snd (pending_objects s ! n) = None \<longrightarrow>
         (\<exists>i < length ts. has_to SetDecision n (ts ! i))) \<and>
      (\<forall>n < length (pending_objects s). \<forall>d. snd (pending_objects s ! n) = Some d \<longrightarrow> d \<noteq> DenyPending \<longrightarrow>
         affirmed ans (fst (pending_objects s ! n))) \<and>
      (\<forall>k. k \<in> session_approved_hosts s \<longrightarrow> affirmed ans k) \<and>
      (\<forall>i < length ts. \<forall>n. task_pc (ts ! i) = Sleeping n \<longrightarrow> \<not> woken (ts ! i) \<longrightarrow>
         (\<exists>j < length ts. has_to NotifyWaiters n (ts ! j))) \<and>
      (\<forall>k. k \<in> session_approved_hosts s \<longrightarrow> k \<notin> session_denied_hosts s))"

lemma host_actions_Cons: "host_actions (a # as) = (if is_call_action a then host_actions as else a # host_actions as)"
  by (simp add: host_actions_def)

lemma host_actions_left: "host_actions (left_to_do a rest s) = host_actions rest"
  by (cases a) (simp_all add: left_to_do_def host_actions_Cons split: option.split)

lemma wf_actions_cases:
  assumes "wf_actions as"
  obtains "host_actions as = []" | "host_actions as = [RemovePending]" | "host_actions as = [NotifyWaiters, RemovePending]"
  | "host_actions as = [SetDecision, NotifyWaiters, RemovePending]"
  | "host_actions as = [AddApproved, SetDecision, NotifyWaiters, RemovePending]"
  | "host_actions as = [ForgetDenied, AddApproved, SetDecision, NotifyWaiters, RemovePending]"
  | "host_actions as = [AddDenied, SetDecision, NotifyWaiters, RemovePending]"
  | "host_actions as = [ForgetApproved, AddDenied, SetDecision, NotifyWaiters, RemovePending]"
  using assms by (auto simp: wf_actions_def last_actions_def)

lemma wf_actions_iff:
  "wf_actions as \<longleftrightarrow> host_actions as \<in>
     {[], [RemovePending], [NotifyWaiters, RemovePending], [SetDecision, NotifyWaiters, RemovePending],
      [AddApproved, SetDecision, NotifyWaiters, RemovePending],
      [ForgetDenied, AddApproved, SetDecision, NotifyWaiters, RemovePending],
      [AddDenied, SetDecision, NotifyWaiters, RemovePending],
      [ForgetApproved, AddDenied, SetDecision, NotifyWaiters, RemovePending]}"
  by (auto simp: wf_actions_def last_actions_def)

lemma settle_plan_facts:
  assumes "settle_plan turn msg d = (resolved, plan)"
  shows "host_actions plan \<in> {last_actions, [ForgetDenied, AddApproved] @ last_actions, [ForgetApproved, AddDenied] @ last_actions}"
    and "resolved \<noteq> DenyPending \<or> AddApproved \<in> set (host_actions plan) \<Longrightarrow>
      approves d \<and> (case turn of None \<Rightarrow> False | Some (policy, _) \<Rightarrow> allows_network_approval_flow policy)"
  using assms
  by (auto simp: settle_plan_def Let_def host_actions_Cons host_actions_def last_actions_def approves_def
      split: option.splits if_splits review_decision.splits network_rule_action.splits)

lemma network_invI:
  assumes "\<And>i. i < length ts \<Longrightarrow> task_ok s ans (ts ! i)"
    and "\<And>i j n. i < length ts \<Longrightarrow> j < length ts \<Longrightarrow> owned_object (ts ! i) = Some n \<Longrightarrow> owned_object (ts ! j) = Some n \<Longrightarrow> i = j"
    and "\<And>k n. pending_host_approvals s k = Some n \<Longrightarrow> n < length (pending_objects s) \<and> fst (pending_objects s ! n) = k"
    and "\<And>n. n < length (pending_objects s) \<Longrightarrow> snd (pending_objects s ! n) = None \<Longrightarrow>
      \<exists>i < length ts. has_to SetDecision n (ts ! i)"
    and "\<And>n d. n < length (pending_objects s) \<Longrightarrow> snd (pending_objects s ! n) = Some d \<Longrightarrow> d \<noteq> DenyPending \<Longrightarrow>
      affirmed ans (fst (pending_objects s ! n))"
    and "\<And>k. k \<in> session_approved_hosts s \<Longrightarrow> affirmed ans k"
    and "\<And>i n. i < length ts \<Longrightarrow> task_pc (ts ! i) = Sleeping n \<Longrightarrow> \<not> woken (ts ! i) \<Longrightarrow>
      \<exists>j < length ts. has_to NotifyWaiters n (ts ! j)"
    and "\<And>k. k \<in> session_approved_hosts s \<Longrightarrow> k \<notin> session_denied_hosts s"
  shows "network_inv s ts ans"
  unfolding network_inv_def using assms by (intro conjI allI impI) blast+

lemma network_invD:
  assumes "network_inv s ts ans"
  shows "i < length ts \<Longrightarrow> task_ok s ans (ts ! i)"
    and "i < length ts \<Longrightarrow> j < length ts \<Longrightarrow> owned_object (ts ! i) = Some n \<Longrightarrow> owned_object (ts ! j) = Some n \<Longrightarrow> i = j"
    and "pending_host_approvals s k = Some n \<Longrightarrow> n < length (pending_objects s) \<and> fst (pending_objects s ! n) = k"
    and "n < length (pending_objects s) \<Longrightarrow> snd (pending_objects s ! n) = None \<Longrightarrow>
      \<exists>i < length ts. has_to SetDecision n (ts ! i)"
    and "n < length (pending_objects s) \<Longrightarrow> snd (pending_objects s ! n) = Some d \<Longrightarrow> d \<noteq> DenyPending \<Longrightarrow>
      affirmed ans (fst (pending_objects s ! n))"
    and "k \<in> session_approved_hosts s \<Longrightarrow> affirmed ans k"
    and "i < length ts \<Longrightarrow> task_pc (ts ! i) = Sleeping n \<Longrightarrow> \<not> woken (ts ! i) \<Longrightarrow>
      \<exists>j < length ts. has_to NotifyWaiters n (ts ! j)"
    and "k \<in> session_approved_hosts s \<Longrightarrow> k \<notin> session_denied_hosts s"
  using assms unfolding network_inv_def by blast+

lemma has_to_owned: "has_to a n t \<Longrightarrow> owned_object t = Some n"
  by (auto simp: has_to_def owned_object_def split: task_pc.splits)

text \<open>A task that is not busy with an approval, before and after.\<close>

lemma passive_step:
  assumes "network_inv s ts ans" and "i < length ts" and "\<And>a n. \<not> has_to a n (ts ! i)"
    and "owned_object t = None" and "task_ok s ans t"
    and "\<And>n. task_pc t = Sleeping n \<Longrightarrow> \<not> woken t \<Longrightarrow> \<exists>j < length ts. has_to NotifyWaiters n (ts ! j)"
  shows "network_inv s (ts[i := t]) ans"
proof -
  note inv = network_invD [OF assms(1)]
  have keeps: "\<exists>j < length (ts[i := t]). has_to a n (ts[i := t] ! j)"
    if "\<exists>j < length ts. has_to a n (ts ! j)" for a n
    using that assms(3) by (metis nth_list_update_neq length_list_update)
  show ?thesis
  proof (rule network_invI)
    fix j assume "j < length (ts[i := t])"
    then show "task_ok s ans (ts[i := t] ! j)" using inv(1) assms(5) by (cases "j = i") simp_all
  next
    fix j k n
    assume "j < length (ts[i := t])" "k < length (ts[i := t])"
      "owned_object (ts[i := t] ! j) = Some n" "owned_object (ts[i := t] ! k) = Some n"
    then show "j = k" using inv(2) assms(2,4) by (cases "j = i"; cases "k = i") auto
  next
    fix j n assume "j < length (ts[i := t])" "task_pc (ts[i := t] ! j) = Sleeping n" "\<not> woken (ts[i := t] ! j)"
    then have "\<exists>j < length ts. has_to NotifyWaiters n (ts ! j)"
      using inv(7) assms(2,6) by (cases "j = i") auto
    then show "\<exists>j < length (ts[i := t]). has_to NotifyWaiters n (ts[i := t] ! j)" by (rule keeps)
  qed (use inv(3-6,8) keeps in blast)+
qed

text \<open>Steps that leave the hosts and the pending approvals alone.\<close>

definition same_hosts :: "approval_service \<Rightarrow> approval_service \<Rightarrow> bool" where
  "same_hosts s s' =
     (pending_objects s' = pending_objects s \<and> pending_host_approvals s' = pending_host_approvals s \<and>
      session_approved_hosts s' = session_approved_hosts s \<and> session_denied_hosts s' = session_denied_hosts s)"

lemma same_hosts_inv:
  assumes "same_hosts s s'"
  shows "network_inv s' ts ans = network_inv s ts ans"
proof -
  have "task_ok s' ans t = task_ok s ans t" for t
    using assms unfolding same_hosts_def task_ok_def by (cases "task_pc t") simp_all
  with assms show ?thesis by (simp add: network_inv_def same_hosts_def)
qed

lemma same_hosts_calls:
  "same_hosts s (register_call rid s)" "same_hosts s (unregister_call rid s)"
  "same_hosts s (record_call_outcome rid outcome s)" "same_hosts s (snd (take_call_outcome rid s))"
  "same_hosts s (record_blocked_request b s)"
  by (auto simp: same_hosts_def register_call_def unregister_call_def record_call_outcome_def take_call_outcome_def
      record_blocked_request_def record_outcome_for_single_active_call_def split: option.splits)


lemma spawn_step:
  assumes "network_inv s ts ans" and "task_pc t = Entering"
  shows "network_inv s (ts @ [t]) ans"
proof -
  note inv = network_invD [OF assms(1)]
  have keeps: "\<exists>j < length (ts @ [t]). has_to a n ((ts @ [t]) ! j)" if "\<exists>j < length ts. has_to a n (ts ! j)" for a n
    using that by (auto simp: nth_append intro: exI less_SucI)
  have new: "owned_object t = None" "task_ok s ans t" using assms(2) by (simp_all add: owned_object_def task_ok_def)
  show ?thesis
  proof (rule network_invI)
    fix j assume "j < length (ts @ [t])"
    then show "task_ok s ans ((ts @ [t]) ! j)" using inv(1) new(2) by (auto simp: nth_append)
  next
    fix j k n
    assume "j < length (ts @ [t])" "k < length (ts @ [t])"
      "owned_object ((ts @ [t]) ! j) = Some n" "owned_object ((ts @ [t]) ! k) = Some n"
    then show "j = k" using inv(2) new(1) by (auto simp: nth_append split: if_splits)
  next
    fix j n assume "j < length (ts @ [t])" "task_pc ((ts @ [t]) ! j) = Sleeping n" "\<not> woken ((ts @ [t]) ! j)"
    then have "\<exists>j < length ts. has_to NotifyWaiters n (ts ! j)"
      using inv(7) assms(2) by (auto simp: nth_append split: if_splits)
    then show "\<exists>j < length (ts @ [t]). has_to NotifyWaiters n ((ts @ [t]) ! j)" by (rule keeps)
  qed (use inv(3-6,8) keeps in blast)+
qed

text \<open>A task that owns an approval, before and after: the others are still all right, and it can still
  do what waiters wait for.\<close>

lemma owner_step:
  assumes "network_inv s ts ans" and "i < length ts" and "owned_object t = Some n"
    and "owned_object (ts ! i) = Some n \<or> owned_object (ts ! i) = None \<and> n = length (pending_objects s)"
    and "\<And>j. j < length ts \<Longrightarrow> j \<noteq> i \<Longrightarrow> task_ok s' ans' (ts ! j)" and "task_ok s' ans' t"
    and "\<And>k m. pending_host_approvals s' k = Some m \<Longrightarrow> m < length (pending_objects s') \<and> fst (pending_objects s' ! m) = k"
    and "\<And>m. m < length (pending_objects s') \<Longrightarrow> snd (pending_objects s' ! m) = None \<Longrightarrow>
      if m = n then has_to SetDecision n t else m < length (pending_objects s) \<and> snd (pending_objects s ! m) = None"
    and "\<And>m d. m < length (pending_objects s') \<Longrightarrow> snd (pending_objects s' ! m) = Some d \<Longrightarrow> d \<noteq> DenyPending \<Longrightarrow>
      affirmed ans' (fst (pending_objects s' ! m))"
    and "\<And>k. k \<in> session_approved_hosts s' \<Longrightarrow> affirmed ans' k \<and> k \<notin> session_denied_hosts s'"
    and "has_to NotifyWaiters n (ts ! i) \<Longrightarrow>
      has_to NotifyWaiters n t \<or> (\<forall>j < length ts. task_pc (ts ! j) = Sleeping n \<longrightarrow> woken (ts ! j))"
  shows "network_inv s' (ts[i := t]) ans'"
proof -
  note inv = network_invD [OF assms(1)]
  have below: "m < length (pending_objects s)" if "j < length ts" "owned_object (ts ! j) = Some m" for j m
    using inv(1) [OF that(1)] that(2)
    by (auto simp: task_ok_def owned_object_def Let_def split: task_pc.splits)
  have single: "j = i" if "j < length ts" "owned_object (ts ! j) = Some n" for j
    using inv(2) [OF that(1) assms(2) that(2)] assms(4) below [OF that] by auto
  have others: "\<exists>j < length (ts[i := t]). has_to a m (ts[i := t] ! j)"
    if has: "\<exists>j < length ts. has_to a m (ts ! j)" and m: "m \<noteq> n \<or> has_to a n t" for a m
  proof (cases "m = n")
    case True
    with m assms(2) show ?thesis by (intro exI [of _ i]) simp
  next
    case False
    from has obtain j where j: "j < length ts" "has_to a m (ts ! j)" by blast
    with False assms(4) have "j \<noteq> i" by (auto dest: has_to_owned)
    with j show ?thesis by auto
  qed
  show ?thesis
  proof (rule network_invI)
    fix j assume "j < length (ts[i := t])"
    then show "task_ok s' ans' (ts[i := t] ! j)" using assms(2,5,6) by (cases "j = i") simp_all
  next
    fix j k m
    assume jk: "j < length (ts[i := t])" "k < length (ts[i := t])"
      "owned_object (ts[i := t] ! j) = Some m" "owned_object (ts[i := t] ! k) = Some m"
    show "j = k"
    proof (cases "j = i \<or> k = i")
      case True
      with jk assms(2,3) have "m = n" by auto
      with jk single show ?thesis by (metis length_list_update nth_list_update_neq)
    qed (use jk inv(2) in auto)
  next
    fix m assume "m < length (pending_objects s')" "snd (pending_objects s' ! m) = None"
    note m = assms(8) [OF this]
    show "\<exists>j < length (ts[i := t]). has_to SetDecision m (ts[i := t] ! j)"
    proof (cases "m = n")
      case True
      with m assms(2) show ?thesis by (intro exI [of _ i]) simp
    next
      case False
      with m inv(4) have "\<exists>j < length ts. has_to SetDecision m (ts ! j)" by simp
      with False show ?thesis by (intro others) simp_all
    qed
  next
    fix j m assume jm: "j < length (ts[i := t])" "task_pc (ts[i := t] ! j) = Sleeping m" "\<not> woken (ts[i := t] ! j)"
    have "j \<noteq> i" using jm assms(2,3) by (auto simp: owned_object_def)
    with jm inv(7) have has: "\<exists>j < length ts. has_to NotifyWaiters m (ts ! j)" by auto
    moreover have "has_to NotifyWaiters n t" if "m = n"
    proof -
      from has that obtain j' where "j' < length ts" "has_to NotifyWaiters n (ts ! j')" by blast
      with single assms(11) jm \<open>j \<noteq> i\<close> that show ?thesis by (auto dest: has_to_owned)
    qed
    ultimately show "\<exists>j < length (ts[i := t]). has_to NotifyWaiters m (ts[i := t] ! j)" by (intro others) auto
  qed (use assms(7,9,10) in blast)+
qed


lemma wake_up_inv:
  assumes "network_inv s ts ans"
  shows "network_inv s (map (wake_up n) ts) ans"
proof -
  note inv = network_invD [OF assms]
  have same: "task_ok s ans (wake_up n t) = task_ok s ans t" "owned_object (wake_up n t) = owned_object t"
    "has_to a m (wake_up n t) = has_to a m t" "task_pc (wake_up n t) = task_pc t" for a m t
    by (auto simp: wake_up_def task_ok_def owned_object_def has_to_def)
  show ?thesis
  proof (rule network_invI)
    fix i m assume "i < length (map (wake_up n) ts)" "task_pc (map (wake_up n) ts ! i) = Sleeping m"
      "\<not> woken (map (wake_up n) ts ! i)"
    then have "i < length ts" "task_pc (ts ! i) = Sleeping m" "\<not> woken (ts ! i)"
      by (auto simp: same wake_up_def split: if_splits)
    from inv(7) [OF this] show "\<exists>j < length (map (wake_up n) ts). has_to NotifyWaiters m (map (wake_up n) ts ! j)"
      by (auto simp: same)
  next
    fix m assume "m < length (pending_objects s)" "snd (pending_objects s ! m) = None"
    from inv(4) [OF this] show "\<exists>i < length (map (wake_up n) ts). has_to SetDecision m (map (wake_up n) ts ! i)"
      by (auto simp: same)
  qed (use inv(1,2,3,5,6,8) in \<open>auto simp: same\<close>)
qed

text \<open>Only one task holds the approval of a host.\<close>

lemma single_holder:
  assumes "network_inv s ts ans" and "i < length ts" and "j < length ts" and "task_key (ts ! i) = task_key (ts ! j)"
    and "has_to RemovePending n (ts ! i)" and "has_to RemovePending m (ts ! j)"
  shows "i = j"
proof -
  note inv = network_invD [OF assms(1)]
  have holds: "pending_host_approvals s (task_key t) = Some n" if "task_ok s ans t" "has_to RemovePending n t" for t n
    using that by (auto simp: task_ok_def has_to_def Let_def split: task_pc.splits)
  from holds [OF inv(1) [OF assms(2)] assms(5)] holds [OF inv(1) [OF assms(3)] assms(6)] assms(4) have "n = m" by simp
  with inv(2) [OF assms(2,3)] assms(5,6) show ?thesis by (auto dest: has_to_owned)
qed

lemma busy_has_to_remove:
  assumes "wf_actions as" and "task_pc t = Settling n d as" and "host_actions as \<noteq> []"
  shows "has_to RemovePending n t"
  using assms(1) by (rule wf_actions_cases) (use assms(2,3) in \<open>simp_all add: has_to_def\<close>)

lemma others_stay_ok:
  assumes "network_inv s ts ans" and "i < length ts" and "task_pc (ts ! i) = Settling n d (a # rest)"
    and "j < length ts" and "j \<noteq> i"
  shows "task_ok (perform (task_key (ts ! i)) n d a s) ans (ts ! j)"
proof -
  note inv = network_invD [OF assms(1)]
  let ?k = "task_key (ts ! i)" and ?t = "ts ! j"
  have okj: "task_ok s ans ?t" and oki: "task_ok s ans (ts ! i)" using inv(1) assms(2,4) by simp_all
  have obj: "n < length (pending_objects s)" "fst (pending_objects s ! n) = ?k"
    and wf: "wf_actions (a # rest)" using oki assms(3) by (simp_all add: task_ok_def)
  have apart: "m \<noteq> n" if "owned_object ?t = Some m" for m
    using inv(2) [OF assms(4,2) that] assms(3,5) by (auto simp: owned_object_def)
  have hold: "task_key ?t \<noteq> ?k" if "\<not> is_call_action a" "has_to RemovePending m ?t" for m
    using single_holder [OF assms(1,4,2), of m n] busy_has_to_remove [OF wf assms(3)] that assms(5)
    by (auto simp: host_actions_Cons)
  show ?thesis
  proof (cases "task_pc ?t")
    case (Asking m)
    with apart [of m] hold [of m] okj show ?thesis
      by (cases a) (auto simp: task_ok_def perform_def Let_def record_call_outcome_def has_to_def owned_object_def)
  next
    case (Settling m e as)
    have wfj: "wf_actions as" using okj Settling by (simp add: task_ok_def)
    have "has_to RemovePending m ?t" if "host_actions as \<noteq> []"
      by (rule busy_has_to_remove [OF wfj Settling that])
    with apart [of m] hold [of m] okj Settling show ?thesis
      by (cases a; cases "host_actions as = []")
        (auto simp: task_ok_def perform_def Let_def record_call_outcome_def owned_object_def)
  qed (use okj obj in \<open>cases a; auto simp: task_ok_def perform_def Let_def record_call_outcome_def nth_list_update\<close>)+
qed

lemma own_stays_ok:
  assumes "task_ok s ans t" and "task_pc t = Settling n d (a # rest)"
  shows "task_ok (perform (task_key t) n d a s) ans (t\<lparr>task_pc := Settling n d (left_to_do a rest s), woken := False\<rparr>)"
proof -
  from assms have wf: "wf_actions (a # rest)" by (simp add: task_ok_def)
  show ?thesis
  proof (cases "is_call_action a")
    case True
    with assms show ?thesis
      by (cases a) (auto simp: task_ok_def perform_def record_call_outcome_def wf_actions_def host_actions_left
          host_actions_Cons Let_def)
  next
    case False
    from wf show ?thesis
      by (rule wf_actions_cases)
        (use assms False in \<open>cases a; auto simp: task_ok_def perform_def wf_actions_iff host_actions_left host_actions_Cons Let_def\<close>)+
  qed
qed

lemma act_step:
  assumes "network_inv s ts ans" and "i < length ts" and "task_pc (ts ! i) = Settling n d (a # rest)"
    and "a = NotifyWaiters \<Longrightarrow> (\<forall>j < length ts. task_pc (ts ! j) = Sleeping n \<longrightarrow> woken (ts ! j))"
  shows "network_inv (perform (task_key (ts ! i)) n d a s)
    (ts[i := (ts ! i)\<lparr>task_pc := Settling n d (left_to_do a rest s), woken := False\<rparr>]) ans"
proof -
  note inv = network_invD [OF assms(1)]
  let ?k = "task_key (ts ! i)" and ?s = "perform (task_key (ts ! i)) n d a s"
  let ?t = "(ts ! i)\<lparr>task_pc := Settling n d (left_to_do a rest s), woken := False\<rparr>"
  have ok: "task_ok s ans (ts ! i)" using inv(1) assms(2) by simp
  have obj: "n < length (pending_objects s)" "fst (pending_objects s ! n) = ?k"
    and wf: "wf_actions (a # rest)" and decided: "snd (pending_objects s ! n) = (if SetDecision \<in> set (host_actions (a # rest)) then None else Some d)"
    and aff: "d \<noteq> DenyPending \<or> AddApproved \<in> set (host_actions (a # rest)) \<longrightarrow> affirmed ans ?k"
    and clean: "AddApproved \<in> set (host_actions (a # rest)) \<and> ForgetDenied \<notin> set (host_actions (a # rest)) \<longrightarrow> ?k \<notin> session_denied_hosts s"
      "AddDenied \<in> set (host_actions (a # rest)) \<and> ForgetApproved \<notin> set (host_actions (a # rest)) \<longrightarrow> ?k \<notin> session_approved_hosts s"
    using ok assms(3) by (simp_all add: task_ok_def)
  have objs: "pending_objects ?s = (if a = SetDecision then (pending_objects s)[n := (?k, Some d)] else pending_objects s)"
    by (cases a) (simp_all add: perform_def record_call_outcome_def)
  have no_forget: "ForgetDenied \<notin> set (host_actions (a # rest))" if "a = AddApproved"
    using wf by (rule wf_actions_cases) (use that in \<open>simp_all add: host_actions_Cons\<close>)
  have no_forget': "ForgetApproved \<notin> set (host_actions (a # rest))" if "a = AddDenied"
    using wf by (rule wf_actions_cases) (use that in \<open>simp_all add: host_actions_Cons\<close>)
  show ?thesis
  proof (rule owner_step [OF assms(1,2), of ?t n])
    show "owned_object ?t = Some n" by (simp add: owned_object_def)
    show "owned_object (ts ! i) = Some n \<or> owned_object (ts ! i) = None \<and> n = length (pending_objects s)"
      by (simp add: owned_object_def assms(3))
    show "task_ok ?s ans (ts ! j)" if "j < length ts" "j \<noteq> i" for j
      by (rule others_stay_ok [OF assms(1-3) that])
    show "task_ok ?s ans ?t" by (rule own_stays_ok [OF ok assms(3)])
    show "m < length (pending_objects ?s) \<and> fst (pending_objects ?s ! m) = k" if "pending_host_approvals ?s k = Some m" for k m
    proof -
      have "pending_host_approvals s k = Some m"
        using that by (cases a) (auto simp: perform_def record_call_outcome_def split: if_splits)
      from inv(3) [OF this] obj show ?thesis by (auto simp: objs nth_list_update)
    qed
    show "if m = n then has_to SetDecision n ?t else m < length (pending_objects s) \<and> snd (pending_objects s ! m) = None"
      if "m < length (pending_objects ?s)" "snd (pending_objects ?s ! m) = None" for m
      using that decided obj(1)
      by (auto simp: objs has_to_def host_actions_left host_actions_Cons nth_list_update split: if_splits)
    show "affirmed ans (fst (pending_objects ?s ! m))"
      if "m < length (pending_objects ?s)" "snd (pending_objects ?s ! m) = Some e" "e \<noteq> DenyPending" for m e
      using that inv(5) aff obj(1) by (auto simp: objs nth_list_update split: if_splits)
    show "affirmed ans k \<and> k \<notin> session_denied_hosts ?s" if "k \<in> session_approved_hosts ?s" for k
      using that inv(6,8) aff clean no_forget no_forget'
      by (cases a) (auto simp: perform_def record_call_outcome_def host_actions_Cons split: if_splits)
    show "has_to NotifyWaiters n ?t \<or> (\<forall>j < length ts. task_pc (ts ! j) = Sleeping n \<longrightarrow> woken (ts ! j))"
      if "has_to NotifyWaiters n (ts ! i)"
      using that assms(3,4) by (cases "a = NotifyWaiters") (auto simp: has_to_def host_actions_left host_actions_Cons split: if_splits)
  qed
qed

lemma create_step:
  assumes "network_inv s ts ans" and "i < length ts" and "task_pc (ts ! i) = NotApproved"
    and "pending_host_approvals s (task_key (ts ! i)) = None"
  shows "network_inv
    (s\<lparr>pending_host_approvals := (pending_host_approvals s)(task_key (ts ! i) \<mapsto> length (pending_objects s)),
       pending_objects := pending_objects s @ [(task_key (ts ! i), None)]\<rparr>)
    (ts[i := (ts ! i)\<lparr>task_pc := Asking (length (pending_objects s)), woken := False\<rparr>]) ans"
proof -
  note inv = network_invD [OF assms(1)]
  let ?n = "length (pending_objects s)"
  have stay: "task_ok (s\<lparr>pending_host_approvals := (pending_host_approvals s)(task_key (ts ! i) \<mapsto> ?n),
      pending_objects := pending_objects s @ [(task_key (ts ! i), None)]\<rparr>) ans (ts ! j)" if "j < length ts" for j
    using inv(1) [OF that] assms(4)
    by (cases "task_pc (ts ! j)") (auto simp: task_ok_def nth_append Let_def split: if_splits)
  show ?thesis
    by (rule owner_step [OF assms(1,2), of _ ?n])
      (use inv(3,5,6,8) assms(3) stay in
        \<open>auto simp: owned_object_def task_ok_def has_to_def nth_append less_Suc_eq split: if_splits\<close>)
qed

lemma task_ok_more_answers:
  assumes "task_ok s ans t" and "\<And>k. affirmed ans k \<Longrightarrow> affirmed ans' k"
  shows "task_ok s ans' t"
  using assms by (auto simp: task_ok_def Let_def split: task_pc.splits)

lemma answer_step:
  assumes "network_inv s ts ans" and "i < length ts" and "task_pc (ts ! i) = Asking n"
    and "settle_plan turn msg d = (resolved, plan)"
    and "ans' = ans @ (if (case turn of None \<Rightarrow> False | Some (policy, _) \<Rightarrow> allows_network_approval_flow policy)
      then [(task_key (ts ! i), d)] else [])"
  shows "network_inv s (ts[i := (ts ! i)\<lparr>task_pc := Settling n resolved plan, woken := False\<rparr>]) ans'"
proof -
  note inv = network_invD [OF assms(1)]
  note plan = settle_plan_facts [OF assms(4)]
  let ?t = "(ts ! i)\<lparr>task_pc := Settling n resolved plan, woken := False\<rparr>"
  have more: "affirmed ans' k" if "affirmed ans k" for k using that by (simp add: assms(5))
  have ok: "task_ok s ans (ts ! i)" using inv(1) assms(2) by simp
  have set_decision: "SetDecision \<in> set (host_actions plan)" "NotifyWaiters \<in> set (host_actions plan)"
    and clean: "AddApproved \<in> set (host_actions plan) \<longrightarrow> ForgetDenied \<in> set (host_actions plan)"
      "AddDenied \<in> set (host_actions plan) \<longrightarrow> ForgetApproved \<in> set (host_actions plan)"
    and wf: "wf_actions plan"
    using plan(1) by (auto simp: last_actions_def wf_actions_iff)
  show ?thesis
  proof (rule owner_step [OF assms(1,2), of ?t n])
    show "owned_object ?t = Some n" by (simp add: owned_object_def)
    show "owned_object (ts ! i) = Some n \<or> owned_object (ts ! i) = None \<and> n = length (pending_objects s)"
      by (simp add: owned_object_def assms(3))
    show "task_ok s ans' (ts ! j)" if "j < length ts" "j \<noteq> i" for j
      by (rule task_ok_more_answers [OF inv(1) [OF that(1)] more])
    have "affirmed ans' (task_key (ts ! i))" if "resolved \<noteq> DenyPending \<or> AddApproved \<in> set (host_actions plan)"
      using plan(2) [OF that] by (auto simp: assms(5))
    then show "task_ok s ans' ?t"
      using ok assms(3) wf set_decision clean by (auto simp: task_ok_def)
    show "if m = n then has_to SetDecision n ?t else m < length (pending_objects s) \<and> snd (pending_objects s ! m) = None"
      if "m < length (pending_objects s)" "snd (pending_objects s ! m) = None" for m
      using that set_decision by (simp add: has_to_def)
    show "has_to NotifyWaiters n ?t \<or> (\<forall>j < length ts. task_pc (ts ! j) = Sleeping n \<longrightarrow> woken (ts ! j))"
      using set_decision by (simp add: has_to_def)
  qed (use inv(3,5,6,8) more in blast)+
qed

lemma advance_inv:
  assumes "network_inv (net_service st) (net_tasks st) (net_answers st)" and "i < length (net_tasks st)"
    and "advance i st = Some st'"
  shows "network_inv (net_service st') (net_tasks st') (net_answers st')"
proof -
  let ?s = "net_service st" and ?ts = "net_tasks st" and ?ans = "net_answers st"
  let ?t = "?ts ! i"
  note inv = network_invD [OF assms(1)]
  have ok: "task_ok ?s ?ans ?t" using inv(1) assms(2) by simp
  note idle = passive_step [OF assms(1,2)]
  show ?thesis
  proof (cases "task_pc ?t")
    case Entering
    then show ?thesis using assms(3)
      by (auto simp: advance_def with_task_def Let_def has_to_def owned_object_def task_ok_def network_deny_def deny_with_source_def
          intro!: idle)
  next
    case NotDenied
    then show ?thesis using assms(3) inv(6)
      by (auto simp: advance_def with_task_def Let_def has_to_def owned_object_def task_ok_def intro!: idle)
  next
    case NotApproved
    show ?thesis
    proof (cases "pending_host_approvals ?s (task_key ?t)")
      case None
      from create_step [OF assms(1,2) NotApproved None] show ?thesis
        using assms(3) NotApproved None by (auto simp: advance_def with_task_def Let_def)
    next
      case (Some n)
      with inv(3) [OF Some] show ?thesis using assms(3) NotApproved
        by (auto simp: advance_def with_task_def Let_def has_to_def owned_object_def task_ok_def intro!: idle)
    qed
  next
    case (Checking n)
    show ?thesis
    proof (cases "snd (pending_objects ?s ! n)")
      case None
      have "\<exists>j < length ?ts. has_to SetDecision n (?ts ! j)"
        using inv(4) [OF _ None] ok Checking by (simp add: task_ok_def)
      then obtain j where j: "j < length ?ts" "has_to SetDecision n (?ts ! j)" by blast
      have notify: "has_to NotifyWaiters n (?ts ! j)"
        using inv(1) [OF j(1)] j(2)
        by (auto simp: has_to_def task_ok_def wf_actions_iff Let_def split: task_pc.splits)
      have "network_inv ?s (?ts[i := ?t\<lparr>task_pc := Sleeping n\<rparr>]) ?ans"
      proof (rule idle)
        show "\<not> has_to a m ?t" for a m by (simp add: has_to_def Checking)
        show "\<exists>j < length ?ts. has_to NotifyWaiters m (?ts ! j)" if "task_pc (?t\<lparr>task_pc := Sleeping n\<rparr>) = Sleeping m" for m
          using that j(1) notify by auto
      qed (use ok Checking in \<open>simp_all add: owned_object_def task_ok_def\<close>)
      then show ?thesis using assms(3) Checking None by (auto simp: advance_def Let_def)
    next
      case (Some d)
      with inv(5) [of n d] show ?thesis using assms(3) Checking ok
        by (cases d) (auto simp: advance_def with_task_def Let_def has_to_def owned_object_def task_ok_def network_deny_def
            deny_with_source_def intro!: idle)
    qed
  next
    case (Sleeping n)
    then show ?thesis using assms(3) ok
      by (auto simp: advance_def with_task_def Let_def has_to_def owned_object_def task_ok_def split: if_splits intro!: idle)
  next
    case (Settling n d as)
    show ?thesis
    proof (cases as)
      case Nil
      with Settling ok show ?thesis using assms(3)
        by (cases d) (auto simp: advance_def with_task_def Let_def has_to_def owned_object_def task_ok_def network_deny_def
            deny_with_source_def host_actions_def intro!: idle)
    next
      case (Cons a rest)
      note pc = Settling [unfolded Cons]
      show ?thesis
      proof (cases "a = NotifyWaiters")
        case False
        from act_step [OF assms(1,2) pc] False show ?thesis
          using assms(3) Settling Cons by (auto simp: advance_def with_task_def Let_def)
      next
        case True
        have woken: "network_inv ?s (map (wake_up n) ?ts) ?ans" by (rule wake_up_inv [OF assms(1)])
        have same: "wake_up n ?t = ?t" using pc by (simp add: wake_up_def)
        have "map (wake_up n) ?ts ! i = ?t" using assms(2) same by simp
        then have "network_inv (perform (task_key ?t) n d a ?s)
            ((map (wake_up n) ?ts)[i := ?t\<lparr>task_pc := Settling n d (left_to_do a rest ?s), woken := False\<rparr>]) ?ans"
          using act_step [OF woken _ , of i n d a rest] assms(2) pc by (auto simp: wake_up_def)
        moreover have "wake_up n (?t\<lparr>task_pc := Settling n d (left_to_do a rest ?s), woken := False\<rparr>) =
            ?t\<lparr>task_pc := Settling n d (left_to_do a rest ?s), woken := False\<rparr>" by (simp add: wake_up_def)
        ultimately show ?thesis
          using assms(3) Settling Cons True by (auto simp: advance_def with_task_def Let_def map_update)
      qed
    qed
  qed (use assms(3) in \<open>simp_all add: advance_def Let_def\<close>)
qed

lemma network_reachable_inv:
  assumes "network_reachable st"
  shows "network_inv (net_service st) (net_tasks st) (net_answers st)"
  using assms
proof (induction rule: rtranclp_induct)
  case base
  show ?case by (simp add: network_inv_def initial_network_def new_service_def)
next
  case (step st st')
  from step.hyps(2) step.IH show ?case
  proof (cases rule: network_step.cases)
    case (answers i turn d)
    then obtain n resolved plan where "task_pc (net_tasks st ! i) = Asking n"
      "settle_plan turn (policy_denial_message (task_request (net_tasks st ! i))) d = (resolved, plan)"
      by (auto simp: answer_def Let_def split: task_pc.splits prod.splits)
    from answer_step [OF step.IH answers(1) this refl] show ?thesis
      using answers(2) \<open>task_pc (net_tasks st ! i) = Asking n\<close> \<open>settle_plan turn _ d = _\<close>
      by (auto simp: answer_def with_task_def Let_def)
  qed (simp_all add: advance_inv spawn_step same_hosts_inv [OF same_hosts_calls(1)] same_hosts_inv [OF same_hosts_calls(2)]
      same_hosts_inv [OF same_hosts_calls(4)] same_hosts_inv [OF same_hosts_calls(5)])
qed

subsection \<open>What requests can rely on\<close>

lemma distinct_map_filterI:
  assumes "\<And>i j. i < j \<Longrightarrow> j < length xs \<Longrightarrow> P (xs ! i) \<Longrightarrow> P (xs ! j) \<Longrightarrow> f (xs ! i) \<noteq> f (xs ! j)"
  shows "distinct (map f (filter P xs))"
  using assms
proof (induction xs)
  case (Cons x xs)
  have "distinct (map f (filter P xs))"
    using Cons.prems [of "Suc _" "Suc _"] by (intro Cons.IH) simp
  moreover have "f x \<noteq> f y" if "P x" "y \<in> set xs" "P y" for y
    using that Cons.prems [of 0 "Suc _"] by (fastforce simp: in_set_conv_nth)
  ultimately show ?case by auto
qed simp

definition is_asking :: "request_task \<Rightarrow> bool" where
  "is_asking t = (case task_pc t of Asking _ \<Rightarrow> True | _ \<Rightarrow> False)"

text \<open>C6: However many requests for a host arrive at the same time, the user is asked once: no two
  tasks ask for the same host, protocol and port.\<close>

theorem one_prompt_per_host:
  assumes "network_reachable st"
  shows "distinct (map task_key (filter is_asking (net_tasks st)))"
proof (rule distinct_map_filterI, rule notI)
  fix i j assume ij: "i < j" "j < length (net_tasks st)" "is_asking (net_tasks st ! i)"
    "is_asking (net_tasks st ! j)" "task_key (net_tasks st ! i) = task_key (net_tasks st ! j)"
  then obtain n m where "has_to RemovePending n (net_tasks st ! i)" "has_to RemovePending m (net_tasks st ! j)"
    by (auto simp: has_to_def is_asking_def split: task_pc.splits)
  with ij single_holder [OF network_reachable_inv [OF assms], of i j n m] show False by simp
qed

text \<open>Access is given only where an answer approved it: in every interleaving, a request that ends
  with access was for a host, protocol and port that the user, or the guardian, has approved.\<close>

lemma network_access_needs_approval:
  assumes "network_reachable st" and "i < length (net_tasks st)"
    and "task_pc (net_tasks st ! i) = Finished NetworkAllow"
  shows "affirmed (net_answers st) (task_key (net_tasks st ! i))"
  using network_invD(1) [OF network_reachable_inv [OF assms(1)] assms(2)] assms(3) by (simp add: task_ok_def)

text \<open>C7: No wakeup is lost.  When no task can take a step, each has finished, is asking, or sleeps
  until a task that is asking for the same host has its answer.\<close>

theorem no_request_is_forgotten:
  assumes "network_reachable st" and "i < length (net_tasks st)"
    and "\<forall>j < length (net_tasks st). advance j st = None"
  shows "case task_pc (net_tasks st ! i) of
      Finished _ \<Rightarrow> True
    | Asking _ \<Rightarrow> True
    | Sleeping n \<Rightarrow> list_ex (\<lambda>t. task_pc t = Asking n \<and> task_key t = task_key (net_tasks st ! i)) (net_tasks st)
    | _ \<Rightarrow> False"
proof -
  let ?ts = "net_tasks st" and ?t = "net_tasks st ! i"
  note inv = network_invD [OF network_reachable_inv [OF assms(1)]]
  have stuck: "advance i st = None" using assms(2,3) by simp
  show ?thesis
  proof (cases "task_pc ?t")
    case (Sleeping n)
    with stuck have "\<not> woken ?t" by (auto simp: advance_def Let_def)
    from inv(7) [OF assms(2) Sleeping this] obtain j where j: "j < length ?ts" "has_to NotifyWaiters n (?ts ! j)" by blast
    have "task_pc (?ts ! j) \<noteq> Settling m d as" for m d as
    proof
      assume "task_pc (?ts ! j) = Settling m d as"
      then have "advance j st \<noteq> None" by (cases as) (simp_all add: advance_def Let_def)
      with assms(3) j(1) show False by simp
    qed
    with j(2) have "task_pc (?ts ! j) = Asking n" by (fastforce simp: has_to_def split: task_pc.splits)
    moreover from this have "task_key (?ts ! j) = task_key ?t"
      using inv(1) [OF j(1)] inv(1) [OF assms(2)] Sleeping by (simp add: task_ok_def)
    ultimately show ?thesis using j(1) Sleeping by (auto simp: list_ex_length)
  next
    case (Settling n d as)
    with stuck show ?thesis by (cases as) (simp_all add: advance_def Let_def)
  qed (use stuck in \<open>auto simp: advance_def Let_def split: option.splits\<close>)
qed

text \<open>Hosts are never approved and denied for the session at once.\<close>

lemma session_hosts_disjoint:
  "network_reachable st \<Longrightarrow> session_approved_hosts (net_service st) \<inter> session_denied_hosts (net_service st) = {}"
  using network_invD(8) [OF network_reachable_inv] by blast

subsection \<open>A run of two requests\<close>

definition sample_network_request :: network_policy_request where
  "sample_network_request = \<lparr>request_protocol = ProtoHttp, request_host = ''Example.com'', request_port = 80,
     request_client = None, request_method = None, request_command = None, request_hint = None\<rparr>"

text \<open>Events, and a run of them.\<close>

datatype network_event =
    SpawnEvent network_policy_request
  | AdvanceEvent nat
  | AnswerEvent "(ask_for_approval \<times> bool) option" review_decision nat

fun network_run :: "network_event list \<Rightarrow> network_state \<Rightarrow> network_state option" where
  "network_run [] st = Some st"
| "network_run (SpawnEvent r # es) st =
     network_run es (st\<lparr>net_tasks := net_tasks st @ [\<lparr>task_request = r, task_pc = Entering, woken = False\<rparr>]\<rparr>)"
| "network_run (AdvanceEvent i # es) st =
     (if i < length (net_tasks st) then Option.bind (advance i st) (network_run es) else None)"
| "network_run (AnswerEvent turn d i # es) st =
     (if i < length (net_tasks st) then Option.bind (answer turn d i st) (network_run es) else None)"

lemma network_run_steps: "network_run es st = Some st' \<Longrightarrow> network_step\<^sup>*\<^sup>* st st'"
proof (induction es st rule: network_run.induct)
  case (2 r es st)
  then show ?case by (auto intro: converse_rtranclp_into_rtranclp [of network_step] network_step.spawn)
qed (auto simp: bind_eq_Some_conv split: if_splits
    intro: converse_rtranclp_into_rtranclp [of network_step] network_step.advances network_step.answers)

text \<open>Two requests: the first asks, the second waits for its answer; then both have access.\<close>

definition asking_events :: "network_event list" where
  "asking_events = [SpawnEvent sample_network_request, SpawnEvent sample_network_request, AdvanceEvent 0, AdvanceEvent 0,
     AdvanceEvent 1, AdvanceEvent 1, AdvanceEvent 0, AdvanceEvent 1, AdvanceEvent 1]"

definition granted_events :: "network_event list" where
  "granted_events = asking_events @ [AnswerEvent (Some (OnRequest, False)) ApprovedForSession 0,
     AdvanceEvent 0, AdvanceEvent 0, AdvanceEvent 0, AdvanceEvent 0, AdvanceEvent 0, AdvanceEvent 0,
     AdvanceEvent 1, AdvanceEvent 1]"

definition asking_network :: network_state where
  "asking_network = the (network_run asking_events initial_network)"

definition granted_network :: network_state where
  "granted_network = the (network_run granted_events initial_network)"

lemma run_exists:
  "network_run asking_events initial_network \<noteq> None" "network_run granted_events initial_network \<noteq> None"
  by code_simp+

lemma sample_networks_reachable: "network_reachable asking_network" "network_reachable granted_network"
  using run_exists network_run_steps unfolding asking_network_def granted_network_def by (auto intro: network_run_steps)

lemma sample_networks:
  "map task_pc (net_tasks asking_network) = [Asking 0, Sleeping 0]"
  "map task_pc (net_tasks granted_network) = [Finished NetworkAllow, Finished NetworkAllow]"
  "list_all (\<lambda>j. case advance j asking_network of None \<Rightarrow> True | Some _ \<Rightarrow> False) [0, 1]"
  by code_simp+

lemma granted_tasks:
  "length (net_tasks granted_network) = 2" "task_pc (net_tasks granted_network ! 1) = Finished NetworkAllow"
  "task_request (net_tasks granted_network ! 1) = sample_network_request"
  by code_simp+

theorem one_prompt_per_host_witness:
  "distinct (map task_key (filter is_asking (net_tasks asking_network)))"
  by (rule one_prompt_per_host [OF sample_networks_reachable(1)])

theorem no_request_is_forgotten_witness:
  "list_ex (\<lambda>t. task_pc t = Asking 0 \<and> task_key t = task_key (net_tasks asking_network ! 1)) (net_tasks asking_network)"
proof -
  have two: "length (net_tasks asking_network) = 2"
    using arg_cong [OF sample_networks(1), of length] by simp
  moreover have "task_pc (net_tasks asking_network ! 1) = Sleeping 0"
    using arg_cong [OF sample_networks(1), of "\<lambda>l. l ! 1"] two by simp
  moreover have "\<forall>j < 2. advance j asking_network = None"
    using sample_networks(3) by (auto simp: less_2_cases_iff split: option.splits)
  ultimately show ?thesis using no_request_is_forgotten [OF sample_networks_reachable(1), of 1] by simp
qed

end
