(* ===== verification/Tool_Orchestrator.thy ===== *)
theory Tool_Orchestrator
  imports Network_Approval Platform_Sandbox Powershell
begin

section \<open>Running tools\<close>

text \<open>
  A model of \<^verbatim>\<open>codex-rs/core/src/tools/orchestrator.rs\<close> and \<^verbatim>\<open>codex-rs/core/src/tools/sandboxing.rs\<close>,
  with the runtimes of shell commands, of unified exec and of patches
  (\<^verbatim>\<open>codex-rs/core/src/tools/runtimes\<close>): a tool asks for approval, is run in a sandbox, and is run
  again outside of it when the sandbox stopped it and that is approved.

  The user, the processes and the network proxy are a parameter, the world: what it answers may
  depend on everything that happened before.
\<close>

subsection \<open>Requirements\<close>

definition default_exec_approval_requirement ::
  "ask_for_approval \<Rightarrow> file_system_sandbox_policy \<Rightarrow> exec_approval_requirement"
where
  "default_exec_approval_requirement policy fsp =
     (let needs_approval =
            (case policy of
               Never \<Rightarrow> False
             | OnFailure \<Rightarrow> False
             | OnRequest \<Rightarrow> policy_kind fsp = Restricted
             | Reject _ \<Rightarrow> policy_kind fsp = Restricted
             | UnlessTrusted \<Rightarrow> True)
      in if needs_approval \<and> (case policy of Reject c \<Rightarrow> rejects_sandbox_approval c | _ \<Rightarrow> False)
         then ForbiddenApproval ''approval policy rejected sandbox approval prompt''
         else if needs_approval then NeedsApproval None None
         else Skip False None)"

datatype sandbox_override = NoOverride | BypassSandboxFirstAttempt

definition requires_escalated_permissions :: "sandbox_permissions \<Rightarrow> bool" where
  "requires_escalated_permissions p = (p = RequireEscalated)"

definition sandbox_override_for_first_attempt ::
  "sandbox_permissions \<Rightarrow> exec_approval_requirement \<Rightarrow> sandbox_override"
where
  "sandbox_override_for_first_attempt perms requirement =
     (if requires_escalated_permissions perms \<or> (case requirement of Skip True _ \<Rightarrow> True | _ \<Rightarrow> False)
      then BypassSandboxFirstAttempt else NoOverride)"

subsection \<open>The world and the session\<close>

record approval_prompt =
  retry_reason :: "string option"
  prompt_network :: "network_approval_context option"

datatype tool_event = Prompted approval_prompt | Attempted sandbox_type

datatype tool_error =
    Rejected string
  | SandboxDenied (denied_output: string) (denied_decision: "network_decision_payload option")
  | OtherToolError string

record 'o world =
  reply :: "tool_event list \<Rightarrow> review_decision"
  exec_tool :: "tool_event list \<Rightarrow> (tool_error, 'o) result"
  serve :: "tool_event list \<Rightarrow> approval_service \<Rightarrow> approval_service"
  fresh_id :: "tool_event list \<Rightarrow> string"

record session =
  approval_store :: "string \<rightharpoonup> review_decision"
  session_network :: approval_service
  session_events :: "tool_event list"

definition happens :: "tool_event \<Rightarrow> session \<Rightarrow> session" where
  "happens e s = s\<lparr>session_events := session_events s @ [e]\<rparr>"

definition ask :: "'o world \<Rightarrow> approval_prompt \<Rightarrow> session \<Rightarrow> review_decision \<times> session" where
  "ask w p s = (let s' = happens (Prompted p) s in (reply w (session_events s'), s'))"

subsection \<open>Approvals for the session\<close>

text \<open>Keys are stored as JSON; one that cannot be written as JSON is never found.\<close>

definition store_get :: "string option \<Rightarrow> session \<Rightarrow> review_decision option" where
  "store_get key s = (case key of None \<Rightarrow> None | Some k \<Rightarrow> approval_store s k)"

definition store_put :: "string option \<Rightarrow> review_decision \<Rightarrow> session \<Rightarrow> session" where
  "store_put key d s = (case key of None \<Rightarrow> s | Some k \<Rightarrow> s\<lparr>approval_store := (approval_store s)(k \<mapsto> d)\<rparr>)"

definition with_cached_approval ::
  "string option list \<Rightarrow> (session \<Rightarrow> review_decision \<times> session) \<Rightarrow> session \<Rightarrow> review_decision \<times> session"
where
  "with_cached_approval keys fetch s =
     (if keys = [] then fetch s
      else if list_all (\<lambda>k. store_get k s = Some ApprovedForSession) keys then (ApprovedForSession, s)
      else (let (decision, s') = fetch s in
            (decision,
             if decision = ApprovedForSession then fold (\<lambda>k. store_put k ApprovedForSession) keys s' else s')))"

subsection \<open>Runtimes\<close>

text \<open>What the orchestrator uses of a turn.\<close>

record turn_context =
  turn_os :: target_os
  guardian_enabled :: bool
  turn_policy :: ask_for_approval
  turn_file_system :: file_system_sandbox_policy
  turn_network :: network_sandbox_policy
  turn_windows_level :: windows_sandbox_level
  managed_network :: bool

definition routes_approval_to_guardian :: "turn_context \<Rightarrow> bool" where
  "routes_approval_to_guardian turn = (turn_policy turn = OnRequest \<and> guardian_enabled turn)"

text \<open>The operations of the traits \<^verbatim>\<open>Approvable\<close>, \<^verbatim>\<open>Sandboxable\<close> and \<^verbatim>\<open>ToolRuntime\<close>.\<close>

record ('r, 'o) tool_runtime =
  rt_requirement :: "'r \<Rightarrow> exec_approval_requirement option"
  rt_first_attempt :: "'r \<Rightarrow> sandbox_override"
  rt_bypass_approval :: "ask_for_approval \<Rightarrow> bool \<Rightarrow> bool"
  rt_wants_no_sandbox :: "ask_for_approval \<Rightarrow> bool"
  rt_start_approval :: "'o world \<Rightarrow> turn_context \<Rightarrow> 'r \<Rightarrow> approval_prompt \<Rightarrow> session \<Rightarrow> review_decision \<times> session"
  rt_preference :: sandboxable_preference
  rt_escalate :: bool
  rt_network_spec :: "'r \<Rightarrow> approval_spec option"
  rt_run :: "'o world \<Rightarrow> 'r \<Rightarrow> tool_event list \<Rightarrow> (tool_error, 'o) result"

definition default_bypass_approval :: "ask_for_approval \<Rightarrow> bool \<Rightarrow> bool" where
  "default_bypass_approval policy already_approved = (if already_approved then True else policy = Never)"

definition default_wants_no_sandbox :: "ask_for_approval \<Rightarrow> bool" where
  "default_wants_no_sandbox policy =
     (case policy of
        OnFailure \<Rightarrow> True
      | UnlessTrusted \<Rightarrow> True
      | Never \<Rightarrow> False
      | OnRequest \<Rightarrow> False
      | Reject c \<Rightarrow> \<not> sandbox_approval c)"

subsection \<open>The orchestrator\<close>

definition run_attempt ::
  "'o world \<Rightarrow> turn_context \<Rightarrow> ('r, 'o) tool_runtime \<Rightarrow> 'r \<Rightarrow> sandbox_type \<Rightarrow> session \<Rightarrow>
   ((tool_error, 'o) result \<times> string option) \<times> session"
where
  "run_attempt w turn rt req sandbox s =
     (let (active, net) = begin_network_approval (fresh_id w (session_events s)) (managed_network turn)
            (rt_network_spec rt req) (session_network s);
          s1 = happens (Attempted sandbox) (s\<lparr>session_network := net\<rparr>);
          run_result = rt_run rt w req (session_events s1);
          s2 = s1\<lparr>session_network := serve w (session_events s1) net\<rparr>
      in case active of
           None \<Rightarrow> ((run_result, None), s2)
         | Some a \<Rightarrow>
             (case active_mode a of
                Immediate \<Rightarrow>
                  (let (finalize, net') = finish_immediate_network_approval a (session_network s2);
                       s3 = s2\<lparr>session_network := net'\<rparr>
                   in case finalize of
                        Inl e \<Rightarrow> ((Inl (Rejected e), None), s3)
                      | Inr _ \<Rightarrow> ((run_result, None), s3))
              | Deferred \<Rightarrow>
                  (let deferred = into_deferred a in
                   if isl run_result
                   then ((run_result, None),
                         s2\<lparr>session_network := finish_deferred_network_approval deferred (session_network s2)\<rparr>)
                   else ((run_result, deferred), s2))))"

text \<open>What a decision means for a tool: the reason for which it is rejected, or none.\<close>

definition rejection :: "turn_context \<Rightarrow> review_decision \<Rightarrow> string option" where
  "rejection turn d =
     (let refused = Some (if routes_approval_to_guardian turn then GUARDIAN_REJECTION_MESSAGE else ''rejected by user'') in
      case d of
        Denied \<Rightarrow> refused
      | Abort \<Rightarrow> refused
      | NetworkPolicyAmendment a \<Rightarrow>
          (case amendment_action a of ActionAllow \<Rightarrow> None | ActionDeny \<Rightarrow> Some ''rejected by user'')
      | _ \<Rightarrow> None)"

definition denial_reason :: "network_approval_context option \<Rightarrow> string" where
  "denial_reason ctx =
     (case ctx of
        Some c \<Rightarrow> ''Network access to '' @ [CHR 34] @ context_host c @ [CHR 34] @ '' is blocked by policy.''
      | None \<Rightarrow> ''command failed; retry without sandbox?'')"

definition allow_on_request_network_prompt ::
  "turn_context \<Rightarrow> network_approval_context option \<Rightarrow> bool"
where
  "allow_on_request_network_prompt turn ctx =
     (turn_policy turn = OnRequest \<and> ctx \<noteq> None \<and>
      (case default_exec_approval_requirement (turn_policy turn) (turn_file_system turn) of
         NeedsApproval _ _ \<Rightarrow> True | _ \<Rightarrow> False))"

definition denial_context ::
  "turn_context \<Rightarrow> network_decision_payload option \<Rightarrow> network_approval_context option"
where
  "denial_context turn decision =
     (if managed_network turn then Option.bind decision network_approval_context_from_payload else None)"

text \<open>The second attempt, after the sandbox has stopped the first.\<close>

definition retry_without_sandbox ::
  "'o world \<Rightarrow> turn_context \<Rightarrow> ('r, 'o) tool_runtime \<Rightarrow> 'r \<Rightarrow> bool \<Rightarrow> string \<Rightarrow> network_decision_payload option \<Rightarrow>
   session \<Rightarrow> ((tool_error, 'o) result \<times> string option) \<times> session"
where
  "retry_without_sandbox w turn rt req already_approved output decision s =
     (let ctx = denial_context turn decision;
          denied = ((Inl (SandboxDenied output decision), None), s)
      in if decision \<noteq> None \<and> ctx = None then denied
         else if \<not> rt_escalate rt then denied
         else if \<not> rt_wants_no_sandbox rt (turn_policy turn) \<and> \<not> allow_on_request_network_prompt turn ctx then denied
         else if rt_bypass_approval rt (turn_policy turn) already_approved \<and> ctx = None
         then run_attempt w turn rt req NoSandbox s
         else (let (d, s1) = rt_start_approval rt w turn req
                       \<lparr>retry_reason = Some (denial_reason ctx), prompt_network = ctx\<rparr> s
               in case rejection turn d of
                    Some reason \<Rightarrow> ((Inl (Rejected reason), None), s1)
                  | None \<Rightarrow> run_attempt w turn rt req NoSandbox s1))"

definition initial_sandbox :: "turn_context \<Rightarrow> ('r, 'o) tool_runtime \<Rightarrow> 'r \<Rightarrow> sandbox_type" where
  "initial_sandbox turn rt req =
     (case rt_first_attempt rt req of
        BypassSandboxFirstAttempt \<Rightarrow> NoSandbox
      | NoOverride \<Rightarrow>
          select_initial (turn_os turn) (turn_file_system turn) (turn_network turn) (rt_preference rt)
            (turn_windows_level turn) (managed_network turn))"

definition attempt_and_retry ::
  "'o world \<Rightarrow> turn_context \<Rightarrow> ('r, 'o) tool_runtime \<Rightarrow> 'r \<Rightarrow> bool \<Rightarrow> session \<Rightarrow>
   ((tool_error, 'o) result \<times> string option) \<times> session"
where
  "attempt_and_retry w turn rt req already_approved s =
     (let ((first_result, deferred), s1) = run_attempt w turn rt req (initial_sandbox turn rt req) s in
      case first_result of
        Inl (SandboxDenied output decision) \<Rightarrow>
          retry_without_sandbox w turn rt req already_approved output decision s1
      | _ \<Rightarrow> ((first_result, deferred), s1))"

definition orchestrator_run ::
  "'o world \<Rightarrow> turn_context \<Rightarrow> ('r, 'o) tool_runtime \<Rightarrow> 'r \<Rightarrow> session \<Rightarrow>
   ((tool_error, 'o) result \<times> string option) \<times> session"
where
  "orchestrator_run w turn rt req s =
     (case (case rt_requirement rt req of
              Some r \<Rightarrow> r
            | None \<Rightarrow> default_exec_approval_requirement (turn_policy turn) (turn_file_system turn)) of
        Skip _ _ \<Rightarrow> attempt_and_retry w turn rt req False s
      | ForbiddenApproval reason \<Rightarrow> ((Inl (Rejected reason), None), s)
      | NeedsApproval reason _ \<Rightarrow>
          (let (d, s1) = rt_start_approval rt w turn req \<lparr>retry_reason = reason, prompt_network = None\<rparr> s in
           case rejection turn d of
             Some refusal \<Rightarrow> ((Inl (Rejected refusal), None), s1)
           | None \<Rightarrow> attempt_and_retry w turn rt req True s1))"


subsection \<open>What the runtimes promise, and what the orchestrator then does\<close>

definition attempts_of :: "tool_event list \<Rightarrow> sandbox_type list" where
  "attempts_of tr = List.map_filter (\<lambda>e. case e of Attempted sb \<Rightarrow> Some sb | Prompted _ \<Rightarrow> None) tr"

definition prompts_of :: "tool_event list \<Rightarrow> approval_prompt list" where
  "prompts_of tr = List.map_filter (\<lambda>e. case e of Prompted p \<Rightarrow> Some p | Attempted _ \<Rightarrow> None) tr"

lemma events_of_simps [simp]:
  "attempts_of [] = []" "attempts_of (Attempted sb # tr) = sb # attempts_of tr" "attempts_of (Prompted p # tr) = attempts_of tr"
  "prompts_of [] = []" "prompts_of (Attempted sb # tr) = prompts_of tr" "prompts_of (Prompted p # tr) = p # prompts_of tr"
  by (simp_all add: attempts_of_def prompts_of_def List.map_filter_def)

text \<open>The events up to the first attempt.\<close>

fun until_attempt :: "tool_event list \<Rightarrow> tool_event list" where
  "until_attempt [] = []"
| "until_attempt (Attempted sb # tr) = [Attempted sb]"
| "until_attempt (Prompted p # tr) = Prompted p # until_attempt tr"

text \<open>Nothing happens after a refusal.\<close>

fun heeds_refusals :: "'o world \<Rightarrow> turn_context \<Rightarrow> tool_event list \<Rightarrow> tool_event list \<Rightarrow> bool" where
  "heeds_refusals w turn evs [] = True"
| "heeds_refusals w turn evs (Prompted p # tr) =
     (if rejection turn (reply w (evs @ [Prompted p])) \<noteq> None then tr = []
      else heeds_refusals w turn (evs @ [Prompted p]) tr)"
| "heeds_refusals w turn evs (Attempted sb # tr) = heeds_refusals w turn (evs @ [Attempted sb]) tr"

text \<open>What has been approved by the time of a second attempt: \<open>ok\<close> before the events, or by the answer to a
  prompt among them that precedes the attempt.  A second attempt is one without a sandbox.\<close>

fun retries_approved ::
  "'o world \<Rightarrow> turn_context \<Rightarrow> bool \<Rightarrow> bool \<Rightarrow> tool_event list \<Rightarrow> tool_event list \<Rightarrow> bool"
where
  "retries_approved w turn ok tried evs [] = True"
| "retries_approved w turn ok tried evs (Prompted p # tr) =
     retries_approved w turn (ok \<or> rejection turn (reply w (evs @ [Prompted p])) = None) tried (evs @ [Prompted p]) tr"
| "retries_approved w turn ok tried evs (Attempted sb # tr) =
     ((if tried then ok \<and> sb = NoSandbox else True) \<and> retries_approved w turn ok True (evs @ [Attempted sb]) tr)"

text \<open>There is one attempt in the chosen sandbox, or a second one without a sandbox, when the first was
  stopped by it and the policy is not to be silent.\<close>

definition attempts_in_order ::
  "'o world \<Rightarrow> turn_context \<Rightarrow> ('r, 'o) tool_runtime \<Rightarrow> 'r \<Rightarrow> tool_event list \<Rightarrow> tool_event list \<Rightarrow> bool"
where
  "attempts_in_order w turn rt req evs tr =
     (case attempts_of tr of
        [] \<Rightarrow> True
      | [sb] \<Rightarrow> sb = initial_sandbox turn rt req
      | [sb, sb2] \<Rightarrow>
          sb = initial_sandbox turn rt req \<and> sb2 = NoSandbox \<and> turn_policy turn \<noteq> Never \<and>
          (case rt_run rt w req (evs @ until_attempt tr) of Inl (SandboxDenied _ _) \<Rightarrow> True | _ \<Rightarrow> False)
      | _ \<Rightarrow> False)"

definition run_events ::
  "'o world \<Rightarrow> turn_context \<Rightarrow> ('r, 'o) tool_runtime \<Rightarrow> 'r \<Rightarrow> session \<Rightarrow> tool_event list"
where
  "run_events w turn rt req s =
     drop (length (session_events s)) (session_events (snd (orchestrator_run w turn rt req s)))"

lemma attempts_in_order_prompt:
  "attempts_in_order w turn rt req evs (Prompted p # tr) = attempts_in_order w turn rt req (evs @ [Prompted p]) tr"
  by (simp add: attempts_in_order_def split: list.split)

lemma run_attempt_events:
  assumes "run_attempt w turn rt req sb s = ((r, d), s')"
  shows "session_events s' = session_events s @ [Attempted sb]" "approval_store s' = approval_store s"
    and "r = Inl (SandboxDenied out_text dec) \<Longrightarrow>
      rt_run rt w req (session_events s @ [Attempted sb]) = Inl (SandboxDenied out_text dec)"
  using assms
  by (auto simp: run_attempt_def Let_def happens_def split: option.splits approval_mode.splits sum.splits prod.splits if_splits)

locale runtime =
  fixes rt :: "('r, 'o) tool_runtime"
    and remembered :: "'r \<Rightarrow> (string \<rightharpoonup> review_decision) \<Rightarrow> approval_prompt \<Rightarrow> bool"
  assumes asks_or_remembers:
      "rt_start_approval rt w turn req p s = (d, s') \<Longrightarrow>
        session_events s' = session_events s @ [Prompted p] \<and> d = reply w (session_events s') \<or>
        session_events s' = session_events s \<and> rejection turn d = None \<and> remembered req (approval_store s) p"
    and never_without_sandbox: "\<not> rt_wants_no_sandbox rt Never"
    and bypass_iff: "rt_bypass_approval rt policy approved \<longleftrightarrow> approved \<or> policy = Never"
begin

lemma approval_cases:
  assumes "rt_start_approval rt w turn req p s = (d, s')"
  obtains (refused) reason where "session_events s' = session_events s @ [Prompted p]"
      "rejection turn (reply w (session_events s @ [Prompted p])) \<noteq> None" "rejection turn d = Some reason"
    | (approved) "session_events s' = session_events s @ [Prompted p]"
      "rejection turn (reply w (session_events s @ [Prompted p])) = None" "rejection turn d = None"
    | (cached) "session_events s' = session_events s" "rejection turn d = None" "remembered req (approval_store s) p"
  using asks_or_remembers [OF assms] by (cases "rejection turn d") auto

text \<open>The second attempt adds nothing, a prompt that is refused, an attempt without a sandbox, or both
  a prompt and the attempt.\<close>

lemma retry_cases:
  assumes "retry_without_sandbox w turn rt req already out_text dec s = (r, s')"
  obtains (stays) "session_events s' = session_events s"
    | (declined) p where "session_events s' = session_events s @ [Prompted p]"
        "rejection turn (reply w (session_events s @ [Prompted p])) \<noteq> None"
    | (asked) p where "session_events s' = session_events s @ [Prompted p, Attempted NoSandbox]"
        "rejection turn (reply w (session_events s @ [Prompted p])) = None" "turn_policy turn \<noteq> Never"
    | (silent) p where "session_events s' = session_events s @ [Attempted NoSandbox]" "turn_policy turn \<noteq> Never"
        "already \<or> remembered req (approval_store s) p"
proof -
  let ?ctx = "denial_context turn dec"
  let ?p = "\<lparr>retry_reason = Some (denial_reason ?ctx), prompt_network = ?ctx\<rparr>"
  show thesis
  proof (cases "dec \<noteq> None \<and> ?ctx = None \<or> \<not> rt_escalate rt \<or>
      \<not> rt_wants_no_sandbox rt (turn_policy turn) \<and> \<not> allow_on_request_network_prompt turn ?ctx")
    case True
    then have "session_events s' = session_events s"
      using assms by (auto simp: retry_without_sandbox_def Let_def split: if_splits)
    then show thesis by (rule stays)
  next
    case False
    then have policy: "turn_policy turn \<noteq> Never"
      using never_without_sandbox by (auto simp: allow_on_request_network_prompt_def)
    show thesis
    proof (cases "rt_bypass_approval rt (turn_policy turn) already \<and> ?ctx = None")
      case True
      with False have "run_attempt w turn rt req NoSandbox s = (r, s')"
        using assms by (auto simp: retry_without_sandbox_def Let_def)
      with run_attempt_events(1) [of w turn rt req NoSandbox s "fst r" "snd r" s'] True policy show thesis
        by (intro silent) (auto simp: bypass_iff)
    next
      case ask: False
      obtain d s1 where start: "rt_start_approval rt w turn req ?p s = (d, s1)" by fastforce
      have run: "(case rejection turn d of
           Some reason \<Rightarrow> ((Inl (Rejected reason), None), s1)
         | None \<Rightarrow> run_attempt w turn rt req NoSandbox s1) = (r, s')"
        using assms False ask start unfolding retry_without_sandbox_def Let_def by (simp split: if_splits)
      from start show thesis
      proof (cases rule: approval_cases)
        case (refused reason)
        with run show thesis by (intro declined) auto
      next
        case approved
        with run run_attempt_events(1) [of w turn rt req NoSandbox s1 "fst r" "snd r" s'] policy show thesis
          by (intro asked) auto
      next
        case cached
        with run run_attempt_events(1) [of w turn rt req NoSandbox s1 "fst r" "snd r" s'] policy show thesis
          by (intro silent) auto
      qed
    qed
  qed
qed

end


context runtime
begin

text \<open>What happens after an approval: one attempt, and perhaps a second one.\<close>

lemma attempt_cases:
  assumes "attempt_and_retry w turn rt req already s = (r, s')"
  obtains tr where "session_events s' = session_events s @ tr" "heeds_refusals w turn (session_events s) tr"
    "attempts_in_order w turn rt req (session_events s) tr" "length (prompts_of tr) \<le> 1" "until_attempt tr = [hd tr]"
    "\<And>ok. (already \<longrightarrow> ok) \<Longrightarrow> ((\<exists>p. remembered req (approval_store s) p) \<longrightarrow> ok) \<Longrightarrow>
       retries_approved w turn ok False (session_events s) tr"
proof -
  let ?sb = "initial_sandbox turn rt req"
  obtain r1 d1 s1 where first: "run_attempt w turn rt req ?sb s = ((r1, d1), s1)" by (metis prod.collapse)
  note ev = run_attempt_events(1,2) [OF first]
  show thesis
  proof (cases "\<exists>out_text dec. r1 = Inl (SandboxDenied out_text dec)")
    case False
    then have "s' = s1"
      using assms first by (auto simp: attempt_and_retry_def split: sum.splits tool_error.splits)
    then show thesis using ev by (intro that [of "[Attempted ?sb]"]) (simp_all add: attempts_in_order_def)
  next
    case True
    then obtain out_text dec where denied: "r1 = Inl (SandboxDenied out_text dec)" by blast
    with assms first have retry: "retry_without_sandbox w turn rt req already out_text dec s1 = (r, s')"
      by (simp add: attempt_and_retry_def)
    have run: "rt_run rt w req (session_events s @ [Attempted ?sb]) = Inl (SandboxDenied out_text dec)"
      by (rule run_attempt_events(3) [OF first denied])
    from retry show thesis
    proof (cases rule: retry_cases)
      case stays
      then show thesis using ev by (intro that [of "[Attempted ?sb]"]) (simp_all add: attempts_in_order_def)
    next
      case (declined p)
      then show thesis using ev by (intro that [of "[Attempted ?sb, Prompted p]"]) (simp_all add: attempts_in_order_def)
    next
      case (asked p)
      then show thesis using ev run
        by (intro that [of "[Attempted ?sb, Prompted p, Attempted NoSandbox]"]) (simp_all add: attempts_in_order_def)
    next
      case (silent p)
      then show thesis using ev run
        by (intro that [of "[Attempted ?sb, Attempted NoSandbox]"]) (auto simp: attempts_in_order_def)
    qed
  qed
qed

lemma run_cases:
  obtains tr where "run_events w turn rt req s = tr" "heeds_refusals w turn (session_events s) tr"
    "attempts_in_order w turn rt req (session_events s) tr" "length (prompts_of tr) \<le> 2"
    "retries_approved w turn (\<exists>p. remembered req (approval_store s) p) False (session_events s) tr"
proof -
  let ?requirement = "case rt_requirement rt req of
      Some r \<Rightarrow> r | None \<Rightarrow> default_exec_approval_requirement (turn_policy turn) (turn_file_system turn)"
  obtain r s' where run: "orchestrator_run w turn rt req s = (r, s')" by fastforce
  have events: "run_events w turn rt req s = tr" if "session_events s' = session_events s @ tr" for tr
    by (simp add: run_events_def run that)
  show thesis
  proof (cases ?requirement)
    case (Skip b a)
    then have "attempt_and_retry w turn rt req False s = (r, s')" using run by (simp add: orchestrator_run_def)
    then show thesis
    proof (rule attempt_cases)
      fix tr assume tr: "session_events s' = session_events s @ tr" "heeds_refusals w turn (session_events s) tr"
        "attempts_in_order w turn rt req (session_events s) tr" "length (prompts_of tr) \<le> 1"
        "\<And>ok. (False \<longrightarrow> ok) \<Longrightarrow> ((\<exists>p. remembered req (approval_store s) p) \<longrightarrow> ok) \<Longrightarrow>
           retries_approved w turn ok False (session_events s) tr"
      show thesis
        by (rule that [OF events [OF tr(1)] tr(2,3) _ tr(5)]) (use tr(4) in simp_all)
    qed
  next
    case (ForbiddenApproval reason)
    then have "s' = s" using run by (simp add: orchestrator_run_def)
    then show thesis by (intro that [OF events, of "[]"]) (simp_all add: attempts_in_order_def)
  next
    case (NeedsApproval reason a)
    let ?p = "\<lparr>retry_reason = reason, prompt_network = None\<rparr>"
    obtain d s1 where start: "rt_start_approval rt w turn req ?p s = (d, s1)" by fastforce
    have rest: "(case rejection turn d of
          Some refusal \<Rightarrow> ((Inl (Rejected refusal), None), s1)
        | None \<Rightarrow> attempt_and_retry w turn rt req True s1) = (r, s')"
      using run NeedsApproval start by (simp add: orchestrator_run_def)
    from start show thesis
    proof (cases rule: approval_cases)
      case (refused reason)
      then show thesis using rest
        by (intro that [OF events, of "[Prompted ?p]"]) (auto simp: attempts_in_order_def)
    next
      case approved
      with rest have "attempt_and_retry w turn rt req True s1 = (r, s')" by simp
      then show thesis
      proof (rule attempt_cases)
        fix tr assume tr: "session_events s' = session_events s1 @ tr" "heeds_refusals w turn (session_events s1) tr"
          "attempts_in_order w turn rt req (session_events s1) tr" "length (prompts_of tr) \<le> 1"
          "\<And>ok. (True \<longrightarrow> ok) \<Longrightarrow> ((\<exists>p. remembered req (approval_store s1) p) \<longrightarrow> ok) \<Longrightarrow>
             retries_approved w turn ok False (session_events s1) tr"
        from tr(5) [of True] have "retries_approved w turn True False (session_events s1) tr" by simp
        with approved tr(1-4) show thesis
          by (intro that [OF events, of "Prompted ?p # tr"]) (simp_all add: attempts_in_order_prompt)
      qed
    next
      case cached
      with rest have "attempt_and_retry w turn rt req True s1 = (r, s')" by simp
      then show thesis
      proof (rule attempt_cases)
        fix tr assume tr: "session_events s' = session_events s1 @ tr" "heeds_refusals w turn (session_events s1) tr"
          "attempts_in_order w turn rt req (session_events s1) tr" "length (prompts_of tr) \<le> 1"
          "\<And>ok. (True \<longrightarrow> ok) \<Longrightarrow> ((\<exists>p. remembered req (approval_store s1) p) \<longrightarrow> ok) \<Longrightarrow>
             retries_approved w turn ok False (session_events s1) tr"
        have "\<exists>p. remembered req (approval_store s) p" using cached by blast
        with tr(5) [of True] cached
        have "retries_approved w turn (\<exists>p. remembered req (approval_store s) p) False (session_events s) tr" by simp
        with cached tr(1-4) show thesis by (intro that [OF events, of tr]) auto
      qed
    qed
  qed
qed

lemma run_heeds_refusals: "heeds_refusals w turn (session_events s) (run_events w turn rt req s)"
  by (rule run_cases [of w turn req s]) simp

lemma run_in_order: "attempts_in_order w turn rt req (session_events s) (run_events w turn rt req s)"
  by (rule run_cases [of w turn req s]) simp

lemma run_prompts: "length (prompts_of (run_events w turn rt req s)) \<le> 2"
  by (rule run_cases [of w turn req s]) simp

lemma run_retries_approved:
  "retries_approved w turn (\<exists>p. remembered req (approval_store s) p) False (session_events s)
     (run_events w turn rt req s)"
  by (rule run_cases [of w turn req s]) simp

end

subsection \<open>The runtimes of shell commands and of unified exec\<close>

definition canonicalize_command_for_approval :: "shell_parser \<Rightarrow> string list \<Rightarrow> string list" where
  "canonicalize_command_for_approval parse cmd =
     (case parse_shell_lc_plain_commands parse cmd of
        Some [single_command] \<Rightarrow> single_command
      | _ \<Rightarrow>
          (case extract_bash_command cmd of
             Some (_, script) \<Rightarrow>
               [''__codex_shell_script__'', if 1 < length cmd then cmd ! 1 else [], script]
           | None \<Rightarrow>
               (case extract_powershell_command cmd of
                  Some (_, script) \<Rightarrow> [''__codex_powershell_script__'', script]
                | None \<Rightarrow> cmd)))"

text \<open>The additional permissions of a request are only compared, as a part of its key.\<close>

record shell_request =
  sh_command :: "string list"
  sh_cwd :: string
  sh_network :: bool
  sh_permissions :: sandbox_permissions
  sh_additional :: "string option"
  sh_requirement :: exec_approval_requirement

record shell_approval_key =
  ak_command :: "string list"
  ak_cwd :: string
  ak_permissions :: sandbox_permissions
  ak_additional :: "string option"

definition shell_key :: "shell_parser \<Rightarrow> shell_request \<Rightarrow> shell_approval_key" where
  "shell_key parse req =
     \<lparr>ak_command = canonicalize_command_for_approval parse (sh_command req), ak_cwd = sh_cwd req,
      ak_permissions = sh_permissions req, ak_additional = sh_additional req\<rparr>"

definition start_command_approval ::
  "string option list \<Rightarrow> 'o world \<Rightarrow> turn_context \<Rightarrow> approval_prompt \<Rightarrow> session \<Rightarrow> review_decision \<times> session"
where
  "start_command_approval keys w turn p s =
     (if routes_approval_to_guardian turn then ask w p s else with_cached_approval keys (ask w p) s)"

definition shell_runtime ::
  "shell_parser \<Rightarrow> (shell_approval_key \<Rightarrow> string option) \<Rightarrow> (shell_request, 'o) tool_runtime"
where
  "shell_runtime parse to_json =
     \<lparr>rt_requirement = (\<lambda>req. Some (sh_requirement req)),
      rt_first_attempt = (\<lambda>req. sandbox_override_for_first_attempt (sh_permissions req) (sh_requirement req)),
      rt_bypass_approval = default_bypass_approval,
      rt_wants_no_sandbox = default_wants_no_sandbox,
      rt_start_approval = (\<lambda>w turn req p s. start_command_approval [to_json (shell_key parse req)] w turn p s),
      rt_preference = Auto,
      rt_escalate = True,
      rt_network_spec = (\<lambda>req. if sh_network req then Some (True, Immediate) else None),
      rt_run = (\<lambda>w req evs. if sh_command req = [] then Inl (Rejected ''command args are empty'') else exec_tool w evs)\<rparr>"

record unified_exec_request = shell_request +
  ux_tty :: bool

record unified_exec_approval_key = shell_approval_key +
  uk_tty :: bool

definition unified_exec_key :: "shell_parser \<Rightarrow> unified_exec_request \<Rightarrow> unified_exec_approval_key" where
  "unified_exec_key parse req =
     \<lparr>ak_command = canonicalize_command_for_approval parse (sh_command req), ak_cwd = sh_cwd req,
      ak_permissions = sh_permissions req, ak_additional = sh_additional req, uk_tty = ux_tty req\<rparr>"

definition unified_exec_runtime ::
  "shell_parser \<Rightarrow> (unified_exec_approval_key \<Rightarrow> string option) \<Rightarrow> (unified_exec_request, 'o) tool_runtime"
where
  "unified_exec_runtime parse to_json =
     \<lparr>rt_requirement = (\<lambda>req. Some (sh_requirement req)),
      rt_first_attempt = (\<lambda>req. sandbox_override_for_first_attempt (sh_permissions req) (sh_requirement req)),
      rt_bypass_approval = default_bypass_approval,
      rt_wants_no_sandbox = default_wants_no_sandbox,
      rt_start_approval = (\<lambda>w turn req p s. start_command_approval [to_json (unified_exec_key parse req)] w turn p s),
      rt_preference = Auto,
      rt_escalate = True,
      rt_network_spec = (\<lambda>req. if sh_network req then Some (True, Deferred) else None),
      rt_run = (\<lambda>w req evs. if sh_command req = [] then Inl (Rejected ''missing command line for PTY'') else exec_tool w evs)\<rparr>"

definition all_cached :: "string option list \<Rightarrow> (string \<rightharpoonup> review_decision) \<Rightarrow> bool" where
  "all_cached keys store =
     list_all (\<lambda>key. case key of None \<Rightarrow> False | Some k \<Rightarrow> store k = Some ApprovedForSession) keys"

lemma store_get_iff:
  "store_get key s = Some d \<longleftrightarrow> (case key of None \<Rightarrow> False | Some k \<Rightarrow> approval_store s k = Some d)"
  by (simp add: store_get_def split: option.split)

lemma fold_store_put_events [simp]: "session_events (fold (\<lambda>k. store_put k d) keys s) = session_events s"
  by (induction keys arbitrary: s) (simp_all add: store_put_def split: option.split)

lemma cached_approval_cases:
  assumes "with_cached_approval keys (ask w p) s = (d, s')"
  shows "session_events s' = session_events s @ [Prompted p] \<and> d = reply w (session_events s') \<or>
    session_events s' = session_events s \<and> d = ApprovedForSession \<and> keys \<noteq> [] \<and> all_cached keys (approval_store s)"
  using assms
  by (auto simp: with_cached_approval_def ask_def happens_def Let_def all_cached_def store_get_iff list_all_iff
      split: if_splits)

lemma command_approval_cases:
  assumes "start_command_approval keys w turn p s = (d, s')"
  shows "session_events s' = session_events s @ [Prompted p] \<and> d = reply w (session_events s') \<or>
    session_events s' = session_events s \<and> rejection turn d = None \<and> keys \<noteq> [] \<and> all_cached keys (approval_store s)"
proof (cases "routes_approval_to_guardian turn")
  case True
  with assms show ?thesis by (auto simp: start_command_approval_def ask_def happens_def Let_def)
next
  case False
  with assms cached_approval_cases [of keys w p s d s'] show ?thesis
    by (auto simp: start_command_approval_def rejection_def)
qed

interpretation shell_rt: runtime "shell_runtime parse to_json" "\<lambda>req store p. all_cached [to_json (shell_key parse req)] store"
  for parse to_json
proof
  show "session_events s' = session_events s @ [Prompted p] \<and> d = reply w (session_events s') \<or>
      session_events s' = session_events s \<and> rejection turn d = None \<and>
      all_cached [to_json (shell_key parse req)] (approval_store s)"
    if "rt_start_approval (shell_runtime parse to_json) w turn req p s = (d, s')"
    for w :: "'o world" and turn req p s d s'
    using command_approval_cases [of "[to_json (shell_key parse req)]" w turn p s d s'] that by (auto simp: shell_runtime_def)
qed (auto simp: shell_runtime_def default_wants_no_sandbox_def default_bypass_approval_def)

interpretation unified_exec_rt: runtime "unified_exec_runtime parse to_json"
  "\<lambda>req store p. all_cached [to_json (unified_exec_key parse req)] store"
  for parse to_json
proof
  show "session_events s' = session_events s @ [Prompted p] \<and> d = reply w (session_events s') \<or>
      session_events s' = session_events s \<and> rejection turn d = None \<and>
      all_cached [to_json (unified_exec_key parse req)] (approval_store s)"
    if "rt_start_approval (unified_exec_runtime parse to_json) w turn req p s = (d, s')"
    for w :: "'o world" and turn req p s d s'
    using command_approval_cases [of "[to_json (unified_exec_key parse req)]" w turn p s d s'] that
    by (auto simp: unified_exec_runtime_def)
qed (auto simp: unified_exec_runtime_def default_wants_no_sandbox_def default_bypass_approval_def)

subsection \<open>The runtime of patches\<close>

record patch_request =
  pr_file_paths :: "path list"
  pr_requirement :: exec_approval_requirement
  pr_preapproved :: bool

definition start_patch_approval ::
  "string option list \<Rightarrow> 'o world \<Rightarrow> turn_context \<Rightarrow> bool \<Rightarrow> approval_prompt \<Rightarrow> session \<Rightarrow> review_decision \<times> session"
where
  "start_patch_approval keys w turn preapproved p s =
     (if routes_approval_to_guardian turn then ask w p s
      else if preapproved \<and> retry_reason p = None then (Approved, s)
      else if retry_reason p \<noteq> None then ask w p s
      else with_cached_approval keys (ask w p) s)"

definition patch_wants_no_sandbox :: "ask_for_approval \<Rightarrow> bool" where
  "patch_wants_no_sandbox policy =
     (case policy of
        Never \<Rightarrow> False
      | Reject c \<Rightarrow> \<not> rejects_sandbox_approval c
      | OnFailure \<Rightarrow> True
      | OnRequest \<Rightarrow> True
      | UnlessTrusted \<Rightarrow> True)"

definition patch_runtime :: "(path \<Rightarrow> string option) \<Rightarrow> (patch_request, 'o) tool_runtime" where
  "patch_runtime to_json =
     \<lparr>rt_requirement = (\<lambda>req. Some (pr_requirement req)),
      rt_first_attempt = (\<lambda>_. NoOverride),
      rt_bypass_approval = default_bypass_approval,
      rt_wants_no_sandbox = patch_wants_no_sandbox,
      rt_start_approval = (\<lambda>w turn req p s.
        start_patch_approval (map to_json (pr_file_paths req)) w turn (pr_preapproved req) p s),
      rt_preference = Auto,
      rt_escalate = True,
      rt_network_spec = (\<lambda>_. None),
      rt_run = (\<lambda>w req evs. exec_tool w evs)\<rparr>"

definition patch_remembered ::
  "(path \<Rightarrow> string option) \<Rightarrow> patch_request \<Rightarrow> (string \<rightharpoonup> review_decision) \<Rightarrow> approval_prompt \<Rightarrow> bool"
where
  "patch_remembered to_json req store p =
     (retry_reason p = None \<and>
      (pr_preapproved req \<or> pr_file_paths req \<noteq> [] \<and> all_cached (map to_json (pr_file_paths req)) store))"

interpretation patch_rt: runtime "patch_runtime to_json" "patch_remembered to_json" for to_json
proof
  show "session_events s' = session_events s @ [Prompted p] \<and> d = reply w (session_events s') \<or>
      session_events s' = session_events s \<and> rejection turn d = None \<and> patch_remembered to_json req (approval_store s) p"
    if "rt_start_approval (patch_runtime to_json) w turn req p s = (d, s')"
    for w :: "'o world" and turn req p s d s'
    using that cached_approval_cases [of "map to_json (pr_file_paths req)" w p s d s']
    by (auto simp: patch_runtime_def start_patch_approval_def patch_remembered_def rejection_def ask_def happens_def Let_def
        split: if_splits)
qed (auto simp: patch_runtime_def patch_wants_no_sandbox_def default_bypass_approval_def)

lemma patch_remembered_exists:
  "(\<exists>p. patch_remembered to_json req store p) \<longleftrightarrow>
     pr_preapproved req \<or> pr_file_paths req \<noteq> [] \<and> all_cached (map to_json (pr_file_paths req)) store"
  by (auto simp: patch_remembered_def intro: exI [of _ "\<lparr>retry_reason = None, prompt_network = None\<rparr>"])

subsection \<open>What running a tool guarantees\<close>

text \<open>C8: A refusal is final.  Whatever the user, the processes and the proxy do, nothing is run and
  nothing is asked after a prompt of a shell command, of unified exec or of a patch has been
  refused.\<close>

theorem nothing_runs_after_a_refusal:
  "heeds_refusals w turn (session_events s) (run_events w turn (shell_runtime parse to_json) req s) \<and>
   heeds_refusals w' turn (session_events s) (run_events w' turn (unified_exec_runtime parse to_json') req' s) \<and>
   heeds_refusals w'' turn (session_events s) (run_events w'' turn (patch_runtime to_json'') req'' s)"
  by (intro conjI shell_rt.run_heeds_refusals unified_exec_rt.run_heeds_refusals patch_rt.run_heeds_refusals)

text \<open>A tool is run at most twice, and asks at most twice: first in the sandbox that was chosen for
  it, and then without one, when the sandbox has stopped the first run and the approval policy is
  not \<open>Never\<close>.\<close>

lemma tools_run_at_most_twice:
  "(let tr = run_events w turn (shell_runtime parse to_json) req s in
      attempts_in_order w turn (shell_runtime parse to_json) req (session_events s) tr \<and> length (prompts_of tr) \<le> 2) \<and>
   (let tr = run_events w' turn (unified_exec_runtime parse to_json') req' s in
      attempts_in_order w' turn (unified_exec_runtime parse to_json') req' (session_events s) tr \<and> length (prompts_of tr) \<le> 2) \<and>
   (let tr = run_events w'' turn (patch_runtime to_json'') req'' s in
      attempts_in_order w'' turn (patch_runtime to_json'') req'' (session_events s) tr \<and> length (prompts_of tr) \<le> 2)"
  unfolding Let_def
  by (intro conjI shell_rt.run_in_order shell_rt.run_prompts unified_exec_rt.run_in_order unified_exec_rt.run_prompts
      patch_rt.run_in_order patch_rt.run_prompts)

text \<open>C9: A tool is only run a second time after that is approved.  In the events of a run, in their order,
  every attempt after the first one is without a sandbox, and before it comes a prompt of this run whose
  answer does not refuse it; the only exceptions are approvals from before the run: for the session, of
  the same command, or of all the files of a patch, and, for a patch, of its permissions.\<close>

theorem unsandboxed_retries_are_approved:
  "retries_approved w turn (all_cached [to_json (shell_key parse req)] (approval_store s)) False (session_events s)
     (run_events w turn (shell_runtime parse to_json) req s) \<and>
   retries_approved w' turn (all_cached [to_json' (unified_exec_key parse req')] (approval_store s)) False
     (session_events s) (run_events w' turn (unified_exec_runtime parse to_json') req' s) \<and>
   retries_approved w'' turn
     (pr_preapproved req'' \<or> pr_file_paths req'' \<noteq> [] \<and> all_cached (map to_json'' (pr_file_paths req'')) (approval_store s))
     False (session_events s) (run_events w'' turn (patch_runtime to_json'') req'' s)"
  using shell_rt.run_retries_approved [of w turn to_json parse req s]
    unified_exec_rt.run_retries_approved [of w' turn to_json' parse req' s]
    patch_rt.run_retries_approved [of w'' turn to_json'' req'' s] patch_remembered_exists [of to_json'' req'']
  by simp

lemma store_put_lookup:
  "approval_store (fold (\<lambda>k. store_put k d) keys s) k = (if Some k \<in> set keys then Some d else approval_store s k)"
  by (induction keys arbitrary: s) (auto simp: store_put_def split: option.split)

text \<open>An approval for the session is for each key on its own: once a request is approved for the
  session, every later request for some of its keys is approved without asking, and no other key
  has become approved.\<close>

lemma session_approvals_are_remembered:
  assumes "with_cached_approval keys (ask w p) s = (ApprovedForSession, s')" and "None \<notin> set keys"
    and "keys' \<noteq> []" and "set keys' \<subseteq> set keys"
  shows "with_cached_approval keys' fetch s' = (ApprovedForSession, s') \<and>
    {k. approval_store s' k \<noteq> approval_store s k} \<subseteq> {k. Some k \<in> set keys}"
proof -
  from assms(3,4) have ne: "keys \<noteq> []" by auto
  have store: "approval_store s' k = (if Some k \<in> set keys then Some ApprovedForSession else approval_store s k)" for k
  proof (cases "list_all (\<lambda>k. store_get k s = Some ApprovedForSession) keys")
    case True
    with assms(1) ne have "s' = s" by (simp add: with_cached_approval_def)
    with True show ?thesis by (auto simp: list_all_iff store_get_iff)
  next
    case False
    with assms(1) ne have "s' = fold (\<lambda>k. store_put k ApprovedForSession) keys (happens (Prompted p) s)"
      by (auto simp: with_cached_approval_def ask_def Let_def)
    then show ?thesis by (simp add: store_put_lookup happens_def)
  qed
  have "store_get k s' = Some ApprovedForSession" if "k \<in> set keys'" for k
  proof -
    from that assms(2,4) obtain j where "k = Some j" "Some j \<in> set keys" by (cases k rule: option.exhaust) auto
    with store [of j] show ?thesis by (simp add: store_get_def)
  qed
  then have "list_all (\<lambda>k. store_get k s' = Some ApprovedForSession) keys'" by (simp add: list_all_iff)
  with assms(3) have "with_cached_approval keys' fetch s' = (ApprovedForSession, s')" by (simp add: with_cached_approval_def)
  moreover have "{k. approval_store s' k \<noteq> approval_store s k} \<subseteq> {k. Some k \<in> set keys}" using store by auto
  ultimately show ?thesis by blast
qed

text \<open>The path of a shell does not matter for what is remembered.\<close>

lemma bash_command_parts:
  assumes "extract_bash_command [sh, flag, script] \<noteq> None"
  shows "extract_bash_command [sh, flag, script] = Some (sh, script)"
  using assms unfolding extract_bash_command_def list.case by presburger

lemma shell_path_is_ignored:
  assumes "extract_bash_command [sh, flag, script] \<noteq> None" and "extract_bash_command [sh', flag, script] \<noteq> None"
  shows "canonicalize_command_for_approval parse [sh, flag, script] = canonicalize_command_for_approval parse [sh', flag, script]"
  unfolding canonicalize_command_for_approval_def parse_shell_lc_plain_commands_def
    bash_command_parts [OF assms(1)] bash_command_parts [OF assms(2)] option.case prod.case One_nat_def nth_Cons_Suc nth_Cons_0
  by simp

end
