(* ===== verification/Additional_Permissions.thy ===== *)
theory Additional_Permissions
  imports Platform_Sandbox Approval_Policy "HOL-Library.Char_ord" "HOL-Library.List_Lexorder"
begin

section \<open>Additional permissions\<close>

text \<open>
  A model of the permissions that a command may ask for beyond its sandbox, and of how the request
  for its execution is made: \<^verbatim>\<open>codex-rs/core/src/sandboxing/mod.rs\<close>, \<^verbatim>\<open>macos_permissions.rs\<close>, the command
  line of \<^verbatim>\<open>codex-rs/core/src/landlock.rs\<close> and the profiles of \<^verbatim>\<open>codex-rs/protocol/src/models.rs\<close>.
  Profiles are merged and intersected like sets of permissions; the policies they are merged into
  only widen by permissions to write, but may narrow by permissions to read.
\<close>

subsection \<open>Profiles\<close>

text \<open>The preferences and the contacts have enumerations with the same three levels.\<close>

datatype macos_level = LevelNone | LevelReadOnly | LevelReadWrite

fun level_rank :: "macos_level \<Rightarrow> nat" where
  "level_rank LevelNone = 0"
| "level_rank LevelReadOnly = 1"
| "level_rank LevelReadWrite = 2"

instantiation macos_level :: linorder
begin

definition less_eq_macos_level :: "macos_level \<Rightarrow> macos_level \<Rightarrow> bool" where
  "less_eq_macos_level a b = (level_rank a \<le> level_rank b)"

definition less_macos_level :: "macos_level \<Rightarrow> macos_level \<Rightarrow> bool" where
  "less_macos_level a b = (level_rank a < level_rank b)"

instance
proof
  fix x y :: macos_level
  assume "x \<le> y" "y \<le> x"
  then show "x = y"
    by (cases x; cases y) (simp_all add: less_eq_macos_level_def)
qed (auto simp: less_eq_macos_level_def less_macos_level_def)

end

datatype macos_automation_permission = AutomationNone | AutomationAll | AutomationBundleIds "string list"

record macos_extensions =
  macos_preferences :: macos_level
  macos_automation :: macos_automation_permission
  macos_launch_services :: bool
  macos_accessibility :: bool
  macos_calendar :: bool
  macos_reminders :: bool
  macos_contacts :: macos_level

record file_system_permissions =
  perm_read :: "path list option"
  perm_write :: "path list option"

record network_permissions =
  perm_enabled :: "bool option"

record permission_profile =
  prof_network :: "network_permissions option"
  prof_file_system :: "file_system_permissions option"
  prof_macos :: "macos_extensions option"

definition file_system_permissions_empty :: "file_system_permissions \<Rightarrow> bool" where
  "file_system_permissions_empty f = (perm_read f = None \<and> perm_write f = None)"

definition network_permissions_empty :: "network_permissions \<Rightarrow> bool" where
  "network_permissions_empty n = (perm_enabled n = None)"

definition profile_empty :: "permission_profile \<Rightarrow> bool" where
  "profile_empty p = (prof_network p = None \<and> prof_file_system p = None \<and> prof_macos p = None)"

definition option_filter :: "('a \<Rightarrow> bool) \<Rightarrow> 'a option \<Rightarrow> 'a option" where
  "option_filter keep x = (case x of Some v \<Rightarrow> if keep v then Some v else None | None \<Rightarrow> None)"

text \<open>The texts that the automation permission is written as.\<close>

datatype automation_source = ModeText string | BundleIdList "string list"

definition automation_of_source :: "automation_source \<Rightarrow> (string, macos_automation_permission) result" where
  "automation_of_source source =
     (case source of
        ModeText text \<Rightarrow>
          (let normalized = to_ascii_lowercase (str_trim text) in
           if normalized = ''all'' then Inr AutomationAll
           else if normalized = ''none'' then Inr AutomationNone
           else Inl (''invalid macOS automation permission: '' @ text @ ''; expected none, all, or bundle ids''))
      | BundleIdList ids \<Rightarrow>
          (let bundle_ids = filter (\<lambda>i. i \<noteq> []) (map str_trim ids) in
           Inr (if bundle_ids = [] then AutomationNone else AutomationBundleIds bundle_ids)))"

subsection \<open>Merging and intersecting extensions\<close>

definition union_macos_level :: "macos_level \<Rightarrow> macos_level \<Rightarrow> macos_level" where
  "union_macos_level base requested = (if base < requested then requested else base)"

fun union_macos_automation_permission ::
  "macos_automation_permission \<Rightarrow> macos_automation_permission \<Rightarrow> macos_automation_permission"
where
  "union_macos_automation_permission AutomationAll _ = AutomationAll"
| "union_macos_automation_permission _ AutomationAll = AutomationAll"
| "union_macos_automation_permission AutomationNone requested = requested"
| "union_macos_automation_permission base AutomationNone = base"
| "union_macos_automation_permission (AutomationBundleIds base) (AutomationBundleIds requested) =
     AutomationBundleIds (remdups_adj (sort (base @ requested)))"

fun intersect_macos_automation_permission ::
  "macos_automation_permission \<Rightarrow> macos_automation_permission \<Rightarrow> macos_automation_permission"
where
  "intersect_macos_automation_permission _ AutomationNone = AutomationNone"
| "intersect_macos_automation_permission AutomationNone _ = AutomationNone"
| "intersect_macos_automation_permission AutomationAll granted = granted"
| "intersect_macos_automation_permission (AutomationBundleIds requested) AutomationAll = AutomationBundleIds requested"
| "intersect_macos_automation_permission (AutomationBundleIds requested) (AutomationBundleIds granted) =
     (let bundle_ids = filter (\<lambda>i. i \<in> set granted) requested in
      if bundle_ids = [] then AutomationNone else AutomationBundleIds bundle_ids)"

definition merge_macos_seatbelt_profile_extensions ::
  "macos_extensions option \<Rightarrow> macos_extensions option \<Rightarrow> macos_extensions option"
where
  "merge_macos_seatbelt_profile_extensions base permissions =
     (case permissions of
        None \<Rightarrow> base
      | Some p \<Rightarrow>
          (case base of
             None \<Rightarrow> Some p
           | Some b \<Rightarrow>
               Some \<lparr>macos_preferences = union_macos_level (macos_preferences b) (macos_preferences p),
                 macos_automation = union_macos_automation_permission (macos_automation b) (macos_automation p),
                 macos_launch_services = (macos_launch_services b \<or> macos_launch_services p),
                 macos_accessibility = (macos_accessibility b \<or> macos_accessibility p),
                 macos_calendar = (macos_calendar b \<or> macos_calendar p),
                 macos_reminders = (macos_reminders b \<or> macos_reminders p),
                 macos_contacts = union_macos_level (macos_contacts b) (macos_contacts p)\<rparr>))"

definition intersect_macos_seatbelt_profile_extensions ::
  "macos_extensions option \<Rightarrow> macos_extensions option \<Rightarrow> macos_extensions option"
where
  "intersect_macos_seatbelt_profile_extensions requested granted =
     (case (requested, granted) of
        (Some r, Some g) \<Rightarrow>
          Some \<lparr>macos_preferences = min (macos_preferences r) (macos_preferences g),
            macos_automation = intersect_macos_automation_permission (macos_automation r) (macos_automation g),
            macos_launch_services = (macos_launch_services r \<and> macos_launch_services g),
            macos_accessibility = (macos_accessibility r \<and> macos_accessibility g),
            macos_calendar = (macos_calendar r \<and> macos_calendar g),
            macos_reminders = (macos_reminders r \<and> macos_reminders g),
            macos_contacts = min (macos_contacts r) (macos_contacts g)\<rparr>
      | _ \<Rightarrow> None)"

subsection \<open>Merging and intersecting profiles\<close>

text \<open>The loop over the paths with the set of those that were seen; a path that cannot be resolved in
  the file system is kept as it is.\<close>

definition resolved_permission_path :: "path_env \<Rightarrow> (path \<Rightarrow> path option) \<Rightarrow> path \<Rightarrow> path" where
  "resolved_permission_path env canonicalize p =
     (case canonicalize p of
        None \<Rightarrow> p
      | Some c \<Rightarrow> (case from_absolute_path env c of Inr q \<Rightarrow> q | Inl _ \<Rightarrow> p))"

definition normalize_permission_paths :: "path_env \<Rightarrow> (path \<Rightarrow> path option) \<Rightarrow> path list \<Rightarrow> path list" where
  "normalize_permission_paths env canonicalize paths =
     dedup_loop {} (map (resolved_permission_path env canonicalize) paths)"

definition normalize_additional_permissions ::
  "path_env \<Rightarrow> (path \<Rightarrow> path option) \<Rightarrow> permission_profile \<Rightarrow> permission_profile"
where
  "normalize_additional_permissions env canonicalize p =
     \<lparr>prof_network = option_filter (\<lambda>n. \<not> network_permissions_empty n) (prof_network p),
      prof_file_system =
        option_filter (\<lambda>f. \<not> file_system_permissions_empty f)
          (map_option (\<lambda>f. \<lparr>perm_read = map_option (normalize_permission_paths env canonicalize) (perm_read f),
              perm_write = map_option (normalize_permission_paths env canonicalize) (perm_write f)\<rparr>) (prof_file_system p)),
      prof_macos = prof_macos p\<rparr>"

definition merge_permission_paths :: "path list option \<Rightarrow> path list option \<Rightarrow> path list option" where
  "merge_permission_paths base permissions =
     (case (base, permissions) of
        (Some b, Some p) \<Rightarrow> option_filter (\<lambda>ps. ps \<noteq> []) (Some (dedup_loop {} (b @ p)))
      | (Some b, None) \<Rightarrow> Some b
      | (None, Some p) \<Rightarrow> Some p
      | (None, None) \<Rightarrow> None)"

definition network_allowed :: "network_permissions option \<Rightarrow> bool" where
  "network_allowed n = (case n of Some v \<Rightarrow> perm_enabled v = Some True | None \<Rightarrow> False)"

definition merge_file_system_permissions ::
  "file_system_permissions option \<Rightarrow> file_system_permissions option \<Rightarrow> file_system_permissions option"
where
  "merge_file_system_permissions base permissions =
     (case (base, permissions) of
        (Some b, Some p) \<Rightarrow>
          option_filter (\<lambda>f. \<not> file_system_permissions_empty f)
            (Some \<lparr>perm_read = merge_permission_paths (perm_read b) (perm_read p),
               perm_write = merge_permission_paths (perm_write b) (perm_write p)\<rparr>)
      | (Some b, None) \<Rightarrow> Some b
      | (None, Some p) \<Rightarrow> Some p
      | (None, None) \<Rightarrow> None)"

definition merge_permission_profiles ::
  "permission_profile option \<Rightarrow> permission_profile option \<Rightarrow> permission_profile option"
where
  "merge_permission_profiles base permissions =
     (case permissions of
        None \<Rightarrow> base
      | Some p \<Rightarrow>
          (case base of
             Some b \<Rightarrow>
               option_filter (\<lambda>q. \<not> profile_empty q)
                 (Some \<lparr>prof_network =
                     (if network_allowed (prof_network b) \<or> network_allowed (prof_network p)
                      then Some \<lparr>perm_enabled = Some True\<rparr> else None),
                   prof_file_system = merge_file_system_permissions (prof_file_system b) (prof_file_system p),
                   prof_macos = merge_macos_seatbelt_profile_extensions (prof_macos b) (prof_macos p)\<rparr>)
           | None \<Rightarrow> option_filter (\<lambda>q. \<not> profile_empty q) (Some p)))"

definition intersect_permission_paths :: "path list option \<Rightarrow> path list option \<Rightarrow> path list option" where
  "intersect_permission_paths requested granted =
     (case requested of
        None \<Rightarrow> None
      | Some r \<Rightarrow>
          (let granted_paths = (case granted of Some g \<Rightarrow> g | None \<Rightarrow> []) in
           option_filter (\<lambda>ps. ps \<noteq> []) (Some (filter (\<lambda>p. p \<in> set granted_paths) r))))"

definition intersect_permission_profiles ::
  "permission_profile \<Rightarrow> permission_profile \<Rightarrow> permission_profile"
where
  "intersect_permission_profiles requested granted =
     \<lparr>prof_network =
        (if network_allowed (prof_network requested) \<and> network_allowed (prof_network granted)
         then Some \<lparr>perm_enabled = Some True\<rparr> else None),
      prof_file_system =
        option_filter (\<lambda>f. \<not> file_system_permissions_empty f)
          (map_option (\<lambda>r.
              (let g = (case prof_file_system granted of Some g \<Rightarrow> g | None \<Rightarrow> \<lparr>perm_read = None, perm_write = None\<rparr>) in
               \<lparr>perm_read = intersect_permission_paths (perm_read r) (perm_read g),
                perm_write = intersect_permission_paths (perm_write r) (perm_write g)\<rparr>))
            (prof_file_system requested)),
      prof_macos = intersect_macos_seatbelt_profile_extensions (prof_macos requested) (prof_macos granted)\<rparr>"

subsection \<open>Profiles as sets of permissions\<close>

datatype permission =
    MayRead path | MayWrite path | MayUseNetwork
  | MayReadPreferences | MayWritePreferences | MayAutomate string | MayLaunchServices
  | MayUseAccessibility | MayUseCalendar | MayUseReminders | MayReadContacts | MayWriteContacts

definition in_paths :: "path \<Rightarrow> path list option \<Rightarrow> bool" where
  "in_paths p ps = (case ps of Some l \<Rightarrow> p \<in> set l | None \<Rightarrow> False)"

fun may_automate :: "macos_automation_permission \<Rightarrow> string \<Rightarrow> bool" where
  "may_automate AutomationNone i = False"
| "may_automate AutomationAll i = True"
| "may_automate (AutomationBundleIds ids) i = (i \<in> set ids)"

fun macos_permits :: "macos_extensions \<Rightarrow> permission \<Rightarrow> bool" where
  "macos_permits m MayReadPreferences = (LevelReadOnly \<le> macos_preferences m)"
| "macos_permits m MayWritePreferences = (LevelReadWrite \<le> macos_preferences m)"
| "macos_permits m (MayAutomate i) = may_automate (macos_automation m) i"
| "macos_permits m MayLaunchServices = macos_launch_services m"
| "macos_permits m MayUseAccessibility = macos_accessibility m"
| "macos_permits m MayUseCalendar = macos_calendar m"
| "macos_permits m MayUseReminders = macos_reminders m"
| "macos_permits m MayReadContacts = (LevelReadOnly \<le> macos_contacts m)"
| "macos_permits m MayWriteContacts = (LevelReadWrite \<le> macos_contacts m)"
| "macos_permits m _ = False"

fun file_system_permits :: "file_system_permissions \<Rightarrow> permission \<Rightarrow> bool" where
  "file_system_permits f (MayRead p) = in_paths p (perm_read f)"
| "file_system_permits f (MayWrite p) = in_paths p (perm_write f)"
| "file_system_permits f _ = False"

definition holds_for :: "('a \<Rightarrow> bool) \<Rightarrow> 'a option \<Rightarrow> bool" where
  "holds_for P x = (case x of Some v \<Rightarrow> P v | None \<Rightarrow> False)"

definition permits :: "permission_profile \<Rightarrow> permission \<Rightarrow> bool" where
  "permits p a =
     (a = MayUseNetwork \<and> network_allowed (prof_network p) \<or>
      holds_for (\<lambda>f. file_system_permits f a) (prof_file_system p) \<or>
      holds_for (\<lambda>m. macos_permits m a) (prof_macos p))"

lemma holds_for_simps [simp]: "holds_for P None = False" "holds_for P (Some v) = P v"
  by (simp_all add: holds_for_def)

lemma holds_for_filter:
  "(\<And>v. P v \<Longrightarrow> keep v) \<Longrightarrow> holds_for P (option_filter keep x) = holds_for P x"
  by (auto simp: option_filter_def split: option.splits)

lemma level_union: "l \<le> union_macos_level a b \<longleftrightarrow> l \<le> a \<or> l \<le> b" for l a b :: macos_level
  by (auto simp: union_macos_level_def)

lemma automation_union: "may_automate (union_macos_automation_permission a b) i \<longleftrightarrow> may_automate a i \<or> may_automate b i"
  by (cases "(a, b)" rule: union_macos_automation_permission.cases) simp_all

lemma automation_intersection:
  "may_automate (intersect_macos_automation_permission a b) i \<longleftrightarrow> may_automate a i \<and> may_automate b i"
  by (cases "(a, b)" rule: intersect_macos_automation_permission.cases) (auto simp: Let_def filter_empty_conv)

lemma macos_union:
  "holds_for (\<lambda>m. macos_permits m a) (merge_macos_seatbelt_profile_extensions b p) \<longleftrightarrow>
     holds_for (\<lambda>m. macos_permits m a) b \<or> holds_for (\<lambda>m. macos_permits m a) p"
  by (cases a) (auto simp: merge_macos_seatbelt_profile_extensions_def level_union automation_union split: option.splits)

lemma macos_intersection:
  "holds_for (\<lambda>m. macos_permits m a) (intersect_macos_seatbelt_profile_extensions r g) \<longleftrightarrow>
     holds_for (\<lambda>m. macos_permits m a) r \<and> holds_for (\<lambda>m. macos_permits m a) g"
  by (cases a) (auto simp: intersect_macos_seatbelt_profile_extensions_def automation_intersection split: option.splits)

lemma in_merged_paths: "in_paths p (merge_permission_paths a b) \<longleftrightarrow> in_paths p a \<or> in_paths p b"
  by (auto simp: in_paths_def merge_permission_paths_def option_filter_def set_dedup_loop split: option.splits
      dest: arg_cong [where f = set])

lemma in_intersected_paths: "in_paths p (intersect_permission_paths a b) \<longleftrightarrow> in_paths p a \<and> in_paths p b"
  by (auto simp: in_paths_def intersect_permission_paths_def option_filter_def Let_def filter_empty_conv split: option.splits)

lemma permits_nonempty_files: "file_system_permits f a \<Longrightarrow> \<not> file_system_permissions_empty f"
  by (cases a) (auto simp: file_system_permissions_empty_def in_paths_def)

lemma permits_nonempty: "permits p a \<Longrightarrow> \<not> profile_empty p"
  by (auto simp: permits_def profile_empty_def network_allowed_def)

lemma merged_file_permissions:
  "file_system_permits \<lparr>perm_read = merge_permission_paths (perm_read b) (perm_read p),
     perm_write = merge_permission_paths (perm_write b) (perm_write p)\<rparr> a \<longleftrightarrow>
   file_system_permits b a \<or> file_system_permits p a"
  by (cases a) (simp_all add: in_merged_paths)

lemma intersected_file_permissions:
  "file_system_permits \<lparr>perm_read = intersect_permission_paths (perm_read r) (perm_read g),
     perm_write = intersect_permission_paths (perm_write r) (perm_write g)\<rparr> a \<longleftrightarrow>
   file_system_permits r a \<and> file_system_permits g a"
  by (cases a) (simp_all add: in_intersected_paths)

lemmas kept_file_permissions = holds_for_filter [where P = "\<lambda>f. file_system_permits f a" for a, OF permits_nonempty_files]

lemma files_union:
  "holds_for (\<lambda>f. file_system_permits f a) (merge_file_system_permissions b p) \<longleftrightarrow>
     holds_for (\<lambda>f. file_system_permits f a) b \<or> holds_for (\<lambda>f. file_system_permits f a) p"
  by (cases b; cases p) (simp_all add: merge_file_system_permissions_def kept_file_permissions merged_file_permissions)

lemma no_file_permissions: "\<not> file_system_permits \<lparr>perm_read = None, perm_write = None\<rparr> a"
  by (cases a) (simp_all add: in_paths_def)

lemma files_intersection:
  "holds_for (\<lambda>f. file_system_permits f a) (prof_file_system (intersect_permission_profiles r g)) \<longleftrightarrow>
     holds_for (\<lambda>f. file_system_permits f a) (prof_file_system r) \<and> holds_for (\<lambda>f. file_system_permits f a) (prof_file_system g)"
  using intersected_file_permissions [of _ "\<lparr>perm_read = None, perm_write = None\<rparr>" a]
  by (cases "prof_file_system r"; cases "prof_file_system g")
    (simp_all add: intersect_permission_profiles_def kept_file_permissions intersected_file_permissions no_file_permissions)

lemma network_allowed_simps [simp]: "network_allowed None = False" "network_allowed (Some \<lparr>perm_enabled = Some True\<rparr>) = True"
  by (simp_all add: network_allowed_def)

text \<open>C37: A profile is a set of permissions (to read or write a path, to use the network, to automate an
  application, and so on), and the operations are those of sets: what a request is granted is
  exactly what was both asked for and granted, and what is in force after a further grant is what
  was in force or was granted, nothing less and nothing more.\<close>

theorem permission_profiles_are_sets:
  "(permits (intersect_permission_profiles requested granted) a \<longleftrightarrow> permits requested a \<and> permits granted a) \<and>
   (holds_for (\<lambda>q. permits q a) (merge_permission_profiles base permissions) \<longleftrightarrow>
     holds_for (\<lambda>q. permits q a) base \<or> holds_for (\<lambda>q. permits q a) permissions)"
proof
  have net: "network_allowed (prof_network (intersect_permission_profiles requested granted)) \<longleftrightarrow>
      network_allowed (prof_network requested) \<and> network_allowed (prof_network granted)"
    and mac: "prof_macos (intersect_permission_profiles requested granted) =
      intersect_macos_seatbelt_profile_extensions (prof_macos requested) (prof_macos granted)"
    by (simp_all add: intersect_permission_profiles_def)
  have only: "\<not> holds_for (\<lambda>f. file_system_permits f a) x \<or> a \<noteq> MayUseNetwork \<and> \<not> holds_for (\<lambda>m. macos_permits m a) y"
    "a = MayUseNetwork \<Longrightarrow> \<not> holds_for (\<lambda>m. macos_permits m a) y" for x y
    by (cases a; cases x; cases y; simp)+
  show "permits (intersect_permission_profiles requested granted) a \<longleftrightarrow> permits requested a \<and> permits granted a"
    unfolding permits_def files_intersection net mac macos_intersection using only by blast
next
  show "holds_for (\<lambda>q. permits q a) (merge_permission_profiles base permissions) \<longleftrightarrow>
      holds_for (\<lambda>q. permits q a) base \<or> holds_for (\<lambda>q. permits q a) permissions"
    by (cases base; cases permissions)
      (auto simp: merge_permission_profiles_def holds_for_filter [OF permits_nonempty] permits_def files_union macos_union)
qed

subsection \<open>The policies in force\<close>

definition paths_or_none :: "path list option \<Rightarrow> path list" where
  "paths_or_none ps = (case ps of Some l \<Rightarrow> l | None \<Rightarrow> [])"

definition additional_permission_roots :: "permission_profile \<Rightarrow> path list \<times> path list" where
  "additional_permission_roots p =
     (dedup_absolute_paths (paths_or_none (Option.bind (prof_file_system p) perm_read)),
      dedup_absolute_paths (paths_or_none (Option.bind (prof_file_system p) perm_write)))"

fun push_entries ::
  "file_system_access_mode \<Rightarrow> path list \<Rightarrow> file_system_sandbox_entry list \<Rightarrow> file_system_sandbox_entry list"
where
  "push_entries a [] entries = entries"
| "push_entries a (p # ps) entries =
     (let e = mk_entry (Path p) a in push_entries a ps (if e \<in> set entries then entries else entries @ [e]))"

definition merge_file_system_policy_with_additional_permissions ::
  "file_system_sandbox_policy \<Rightarrow> path list \<Rightarrow> path list \<Rightarrow> file_system_sandbox_policy"
where
  "merge_file_system_policy_with_additional_permissions p extra_reads extra_writes =
     (case policy_kind p of
        Restricted \<Rightarrow>
          p\<lparr>policy_entries := push_entries AccessWrite extra_writes (push_entries AccessRead extra_reads (policy_entries p))\<rparr>
      | _ \<Rightarrow> p)"

definition effective_file_system_sandbox_policy ::
  "file_system_sandbox_policy \<Rightarrow> permission_profile option \<Rightarrow> file_system_sandbox_policy"
where
  "effective_file_system_sandbox_policy p additional =
     (case additional of
        None \<Rightarrow> p
      | Some a \<Rightarrow>
          (let (extra_reads, extra_writes) = additional_permission_roots a in
           if extra_reads = [] \<and> extra_writes = [] then p
           else merge_file_system_policy_with_additional_permissions p extra_reads extra_writes))"

definition merge_read_only_access_with_additional_reads :: "read_only_access \<Rightarrow> path list \<Rightarrow> read_only_access" where
  "merge_read_only_access_with_additional_reads access extra_reads =
     (case access of
        FullAccess \<Rightarrow> FullAccess
      | RestrictedReads defaults readable_roots \<Rightarrow>
          RestrictedReads defaults (dedup_absolute_paths (readable_roots @ extra_reads)))"

definition merge_network_access :: "bool \<Rightarrow> permission_profile \<Rightarrow> bool" where
  "merge_network_access base p =
     (base \<or> (case Option.bind (prof_network p) perm_enabled of Some b \<Rightarrow> b | None \<Rightarrow> False))"

fun sandbox_policy_with_additional_permissions :: "sandbox_policy \<Rightarrow> permission_profile \<Rightarrow> sandbox_policy" where
  "sandbox_policy_with_additional_permissions policy p =
     (if profile_empty p then policy
      else (let (extra_reads, extra_writes) = additional_permission_roots p in
            case policy of
              DangerFullAccess \<Rightarrow> DangerFullAccess
            | ExternalSandboxPolicy network \<Rightarrow>
                ExternalSandboxPolicy
                  (if merge_network_access (network_access_is_enabled network) p then EnabledNetwork else RestrictedNetwork)
            | WorkspaceWrite writable_roots access network exclude_tmpdir exclude_slash_tmp \<Rightarrow>
                WorkspaceWrite (dedup_absolute_paths (writable_roots @ extra_writes))
                  (merge_read_only_access_with_additional_reads access extra_reads)
                  (merge_network_access network p) exclude_tmpdir exclude_slash_tmp
            | ReadOnly access network \<Rightarrow>
                if extra_writes = []
                then ReadOnly (merge_read_only_access_with_additional_reads access extra_reads) (merge_network_access network p)
                else WorkspaceWrite (dedup_absolute_paths extra_writes)
                       (merge_read_only_access_with_additional_reads access extra_reads)
                       (merge_network_access network p) False False))"

record effective_sandbox_permissions =
  eff_policy :: sandbox_policy
  eff_macos :: "macos_extensions option"

definition effective_permissions ::
  "sandbox_policy \<Rightarrow> macos_extensions option \<Rightarrow> permission_profile option \<Rightarrow> effective_sandbox_permissions"
where
  "effective_permissions policy macos additional =
     (case additional of
        None \<Rightarrow> \<lparr>eff_policy = policy, eff_macos = macos\<rparr>
      | Some a \<Rightarrow>
          \<lparr>eff_policy = sandbox_policy_with_additional_permissions policy a,
           eff_macos = merge_macos_seatbelt_profile_extensions macos (prof_macos a)\<rparr>)"

definition effective_network_policy :: "network_sandbox_policy \<Rightarrow> permission_profile option \<Rightarrow> network_sandbox_policy" where
  "effective_network_policy network additional =
     (case additional of
        None \<Rightarrow> network
      | Some a \<Rightarrow> if merge_network_access (network_is_enabled network) a then NetworkEnabled else NetworkRestricted)"

subsection \<open>The request for an execution\<close>

text \<open>The time limit of a command and the handle of the proxy are passed on as they are.\<close>

record 'e command_spec =
  spec_program :: string
  spec_args :: "string list"
  spec_cwd :: path
  spec_env :: "string \<rightharpoonup> string"
  spec_expiration :: 'e
  spec_permissions :: sandbox_permissions
  spec_additional :: "permission_profile option"
  spec_justification :: "string option"

record ('e, 'n) exec_request =
  exec_command :: "string list"
  exec_cwd :: path
  exec_env :: "string \<rightharpoonup> string"
  exec_network :: "'n option"
  exec_expiration :: 'e
  exec_sandbox :: sandbox_type
  exec_windows_level :: windows_sandbox_level
  exec_permissions :: sandbox_permissions
  exec_policy_in_force :: sandbox_policy
  exec_file_system :: file_system_sandbox_policy
  exec_network_policy :: network_sandbox_policy
  exec_justification :: "string option"
  exec_arg0 :: "string option"

record ('e, 'n) transform_request =
  tr_spec :: "'e command_spec"
  tr_policy :: sandbox_policy
  tr_file_system :: file_system_sandbox_policy
  tr_network_policy :: network_sandbox_policy
  tr_sandbox :: sandbox_type
  tr_enforce_managed :: bool
  tr_network :: "'n option"
  tr_cwd :: path
  tr_macos :: "macos_extensions option"
  tr_linux_exe :: "string option"
  tr_legacy_landlock :: bool
  tr_windows_level :: windows_sandbox_level

datatype transform_error = MissingLinuxSandboxExecutable | SeatbeltUnavailable

text \<open>What is printed: the policies as JSON, a path as text (which it may not be), and the command line
  of the sandbox of macOS.\<close>

record 'n sandbox_printers =
  policy_json :: "sandbox_policy \<Rightarrow> string"
  file_system_json :: "file_system_sandbox_policy \<Rightarrow> string"
  network_json :: "network_sandbox_policy \<Rightarrow> string"
  path_to_str :: "path \<Rightarrow> string option"
  seatbelt_args :: "string list \<Rightarrow> file_system_sandbox_policy \<Rightarrow> network_sandbox_policy \<Rightarrow> path \<Rightarrow> bool \<Rightarrow> 'n option \<Rightarrow>
    macos_extensions option \<Rightarrow> string list"

definition create_linux_sandbox_command_args_for_policies ::
  "'n sandbox_printers \<Rightarrow> string list \<Rightarrow> sandbox_policy \<Rightarrow> file_system_sandbox_policy \<Rightarrow> network_sandbox_policy \<Rightarrow> path \<Rightarrow>
   bool \<Rightarrow> bool \<Rightarrow> string list option"
where
  "create_linux_sandbox_command_args_for_policies pr command policy fsp network cwd use_legacy_landlock allow_network_for_proxy =
     (case path_to_str pr cwd of
        None \<Rightarrow> None
      | Some cwd_text \<Rightarrow>
          Some ([''--sandbox-policy-cwd'', cwd_text, ''--sandbox-policy'', policy_json pr policy,
             ''--file-system-sandbox-policy'', file_system_json pr fsp,
             ''--network-sandbox-policy'', network_json pr network] @
            (if use_legacy_landlock then [''--use-legacy-landlock''] else []) @
            (if allow_network_for_proxy then [''--allow-network-for-proxy''] else []) @
            [''--''] @ command))"

definition NETWORK_DISABLED_ENV_VAR :: string where
  "NETWORK_DISABLED_ENV_VAR = ''CODEX_SANDBOX_NETWORK_DISABLED''"

text \<open>The command of the sandbox, the variables it adds and the name it is started under; \<open>None\<close> is a panic.\<close>

definition sandboxed_command ::
  "target_os \<Rightarrow> 'n sandbox_printers \<Rightarrow> ('e, 'n) transform_request \<Rightarrow> string list \<Rightarrow> effective_sandbox_permissions \<Rightarrow>
   file_system_sandbox_policy \<Rightarrow> network_sandbox_policy \<Rightarrow>
   (transform_error, string list \<times> (string \<rightharpoonup> string) \<times> string option) result option"
where
  "sandboxed_command os pr req command eff fsp network =
     (case tr_sandbox req of
        NoSandbox \<Rightarrow> Some (Inr (command, Map.empty, None))
      | WindowsRestrictedToken \<Rightarrow> Some (Inr (command, Map.empty, None))
      | MacosSeatbelt \<Rightarrow>
          if os \<noteq> MacOS then Some (Inl SeatbeltUnavailable)
          else Some (Inr (''/usr/bin/sandbox-exec'' #
                 seatbelt_args pr command fsp network (tr_cwd req) (tr_enforce_managed req) (tr_network req) (eff_macos eff),
               [''CODEX_SANDBOX'' \<mapsto> ''seatbelt''], None))
      | LinuxSeccomp \<Rightarrow>
          (case tr_linux_exe req of
             None \<Rightarrow> Some (Inl MissingLinuxSandboxExecutable)
           | Some exe \<Rightarrow>
               (case create_linux_sandbox_command_args_for_policies pr command (eff_policy eff) fsp network (tr_cwd req)
                       (tr_legacy_landlock req) (tr_enforce_managed req) of
                  None \<Rightarrow> None
                | Some args \<Rightarrow> Some (Inr (exe # args, Map.empty, Some ''codex-linux-sandbox'')))))"

definition transform ::
  "target_os \<Rightarrow> 'n sandbox_printers \<Rightarrow> ('e, 'n) transform_request \<Rightarrow> (transform_error, ('e, 'n) exec_request) result option"
where
  "transform os pr req =
     (let spec = tr_spec req;
          macos = (if os = MacOS then tr_macos req else None);
          eff = effective_permissions (tr_policy req) macos (spec_additional spec);
          fsp = effective_file_system_sandbox_policy (tr_file_system req) (spec_additional spec);
          network = effective_network_policy (tr_network_policy req) (spec_additional spec);
          env = (if network_is_enabled network then spec_env spec
                 else (spec_env spec)(NETWORK_DISABLED_ENV_VAR \<mapsto> ''1''));
          command = spec_program spec # spec_args spec
      in case sandboxed_command os pr req command eff fsp network of
           None \<Rightarrow> None
         | Some (Inl e) \<Rightarrow> Some (Inl e)
         | Some (Inr (full_command, sandbox_env, arg0)) \<Rightarrow>
             Some (Inr \<lparr>exec_command = full_command, exec_cwd = spec_cwd spec, exec_env = env ++ sandbox_env,
               exec_network = tr_network req, exec_expiration = spec_expiration spec, exec_sandbox = tr_sandbox req,
               exec_windows_level = tr_windows_level req, exec_permissions = spec_permissions spec,
               exec_policy_in_force = eff_policy eff, exec_file_system = fsp, exec_network_policy = network,
               exec_justification = spec_justification spec, exec_arg0 = arg0\<rparr>))"

subsection \<open>What additional permissions change\<close>

lemma set_push_entries: "set (push_entries a ps entries) = set entries \<union> (\<lambda>p. mk_entry (Path p) a) ` set ps"
  by (induction ps arbitrary: entries) (auto simp: Let_def)

definition permission_entries :: "file_system_access_mode \<Rightarrow> path list \<Rightarrow> resolved_file_system_entry set" where
  "permission_entries a ps = (\<lambda>p. \<lparr>resolved_path = p, resolved_access = a\<rparr>) ` set ps"

lemma resolved_pushed:
  "set (resolved_entries_with_cwd fs (p\<lparr>policy_entries := push_entries a ps (policy_entries p)\<rparr>) cwd) =
     set (resolved_entries_with_cwd fs p cwd) \<union> permission_entries a ps"
  by (intro set_eqI)
    (auto simp: resolved_entries_member set_push_entries permission_entries_def mk_entry_def resolve_entry_path_def bex_Un)

lemma effective_policy_eq:
  assumes "policy_kind p = Restricted" and "additional_permission_roots a = (reads, writes)"
  shows "policy_kind (effective_file_system_sandbox_policy p (Some a)) = Restricted"
    and "set (resolved_entries_with_cwd fs (effective_file_system_sandbox_policy p (Some a)) cwd) =
      set (resolved_entries_with_cwd fs p cwd) \<union> permission_entries AccessRead reads \<union> permission_entries AccessWrite writes"
proof -
  let ?p1 = "p\<lparr>policy_entries := push_entries AccessRead reads (policy_entries p)\<rparr>"
  have eff: "effective_file_system_sandbox_policy p (Some a) =
      ?p1\<lparr>policy_entries := push_entries AccessWrite writes (policy_entries ?p1)\<rparr>"
    using assms by (auto simp: effective_file_system_sandbox_policy_def merge_file_system_policy_with_additional_permissions_def)
  show "policy_kind (effective_file_system_sandbox_policy p (Some a)) = Restricted" by (simp add: eff assms(1))
  show "set (resolved_entries_with_cwd fs (effective_file_system_sandbox_policy p (Some a)) cwd) =
      set (resolved_entries_with_cwd fs p cwd) \<union> permission_entries AccessRead reads \<union> permission_entries AccessWrite writes"
    unfolding eff resolved_pushed by simp
qed

lemma access_with_decider:
  assumes "policy_kind p = Restricted" and "resolve_candidate_path fs file cwd = Some q"
  obtains e where "decides q (resolved_entries_with_cwd fs p cwd) e" and "resolve_access_with_cwd fs p file cwd = resolved_access e"
  | "\<forall>e \<in> set (resolved_entries_with_cwd fs p cwd). \<not> covers q e" and "resolve_access_with_cwd fs p file cwd = AccessNone"
  using access_decided [OF assms] access_uncovered [OF assms] decider_exists by metis

lemma new_write_wins:
  assumes "decides q es' e" and "set es' = set es \<union> permission_entries AccessWrite writes"
    and "w \<in> set writes" and "starts_with q w"
    and "\<forall>e \<in> set es. covers q e \<longrightarrow> resolved_entry_precedence e \<le> (length w, AccessWrite)"
  shows "resolved_access e = AccessWrite"
proof (cases "e \<in> permission_entries AccessWrite writes")
  case False
  let ?w = "\<lparr>resolved_path = w, resolved_access = AccessWrite\<rparr>"
  have "?w \<in> set es'" using assms(2,3) by (simp add: permission_entries_def)
  moreover have "covers q ?w" using assms(4) by (simp add: covers_def)
  ultimately have "resolved_entry_precedence ?w \<le> resolved_entry_precedence e" using assms(1) by (simp add: decides_def)
  moreover have "resolved_entry_precedence e \<le> resolved_entry_precedence ?w"
    using assms(1,2,5) False by (simp add: decides_def resolved_entry_precedence_def)
  ultimately have "resolved_entry_precedence e = resolved_entry_precedence ?w" by (rule order.antisym [rotated])
  then show ?thesis by (simp add: resolved_entry_precedence_def)
qed (auto simp: permission_entries_def)

text \<open>C38: Permissions to write only widen a policy.  Where a command asks for directories to write and for
  none to read, a file below one of them can be written unless an entry of the policy that is more
  specific, or one that denies access to that very directory, covers it; for every other file the
  access stays what it was.\<close>

theorem additional_writes_are_exact:
  assumes "policy_kind p = Restricted" and "additional_permission_roots a = ([], writes)"
    and "resolve_candidate_path fs file cwd = Some q"
  shows "resolve_access_with_cwd fs (effective_file_system_sandbox_policy p (Some a)) file cwd =
    (if \<exists>w \<in> set writes. starts_with q w \<and>
          (\<forall>e \<in> set (resolved_entries_with_cwd fs p cwd). covers q e \<longrightarrow>
             resolved_entry_precedence e \<le> (length w, AccessWrite))
     then AccessWrite else resolve_access_with_cwd fs p file cwd)"
    (is "_ = (if ?C then _ else _)")
proof -
  let ?p' = "effective_file_system_sandbox_policy p (Some a)" and ?new = "permission_entries AccessWrite writes"
  let ?es = "resolved_entries_with_cwd fs p cwd" and ?es' = "resolved_entries_with_cwd fs ?p' cwd"
  have r': "policy_kind ?p' = Restricted" and es': "set ?es' = set ?es \<union> ?new"
    using effective_policy_eq [OF assms(1,2)] by (simp_all add: permission_entries_def)
  show ?thesis
  proof (cases rule: access_with_decider [OF r' assms(3)])
    case (1 e)
    show ?thesis
    proof (cases ?C)
      case True
      with 1 have "resolved_access e = AccessWrite" using new_write_wins [OF 1(1) es'] by blast
      with 1(2) True show ?thesis by simp
    next
      case False
      have "e \<notin> ?new"
      proof
        assume "e \<in> ?new"
        then obtain w where w: "w \<in> set writes" "e = \<lparr>resolved_path = w, resolved_access = AccessWrite\<rparr>"
          by (auto simp: permission_entries_def)
        with 1(1) es' have "starts_with q w \<and>
            (\<forall>e \<in> set ?es. covers q e \<longrightarrow> resolved_entry_precedence e \<le> (length w, AccessWrite))"
          by (simp add: decides_def covers_def resolved_entry_precedence_def)
        with w(1) False show False by blast
      qed
      then have "decides q ?es e" using 1(1) es' by (simp add: decides_def)
      with access_decided [OF assms(1,3)] 1(2) False show ?thesis by (simp only: if_False)
    qed
  next
    case 2
    from 2(1) have none: "\<forall>w \<in> set writes. \<not> starts_with q w" and "\<forall>e \<in> set ?es. \<not> covers q e"
      unfolding es' ball_Un permission_entries_def by (simp_all add: covers_def)
    then have "resolve_access_with_cwd fs p file cwd = AccessNone" by (intro access_uncovered [OF assms(1,3)])
    moreover from none have "\<not> ?C" by blast
    ultimately show ?thesis using 2(2) by (simp only: if_False)
  qed
qed

text \<open>C39: A permission to read may take away the permission to write.  A directory that the command asks to
  read becomes an entry of the policy, and the most specific entry decides: below a directory that
  was writable as part of a larger one, nothing can be written any more.\<close>

theorem additional_read_takes_writing_away:
  assumes "policy_kind p = Restricted" and "additional_permission_roots a = (reads, writes)"
    and "resolve_candidate_path fs file cwd = Some q" and "r \<in> set reads" and "starts_with q r"
    and "\<forall>e \<in> set (resolved_entries_with_cwd fs p cwd). covers q e \<longrightarrow> length (resolved_path e) < length r"
    and "\<forall>w \<in> set writes. \<not> starts_with q w"
  shows "resolve_access_with_cwd fs (effective_file_system_sandbox_policy p (Some a)) file cwd = AccessRead"
proof -
  let ?p' = "effective_file_system_sandbox_policy p (Some a)"
  let ?es = "resolved_entries_with_cwd fs p cwd" and ?es' = "resolved_entries_with_cwd fs ?p' cwd"
  let ?r = "\<lparr>resolved_path = r, resolved_access = AccessRead\<rparr>"
  have r': "policy_kind ?p' = Restricted"
    and es': "set ?es' = set ?es \<union> permission_entries AccessRead reads \<union> permission_entries AccessWrite writes"
    by (rule effective_policy_eq [OF assms(1,2)])+
  have "?r \<in> set ?es'" "covers q ?r"
    using assms(4,5) es' by (auto simp: permission_entries_def covers_def)
  then obtain e where e: "decides q ?es' e" using decider_exists by blast
  then have "length r \<le> length (resolved_path e)"
    using \<open>?r \<in> set ?es'\<close> \<open>covers q ?r\<close> by (fastforce simp: decides_def resolved_entry_precedence_def)
  moreover have "e \<notin> permission_entries AccessWrite writes"
    using e assms(7) by (auto simp: decides_def permission_entries_def covers_def)
  ultimately have "e \<in> permission_entries AccessRead reads"
    using e es' assms(6) by (force simp: decides_def)
  with access_decided [OF r' assms(3) e] show ?thesis by (auto simp: permission_entries_def)
qed

subsection \<open>Examples\<close>

definition asking_for :: "path list \<Rightarrow> path list \<Rightarrow> permission_profile" where
  "asking_for reads writes =
     \<lparr>prof_network = None, prof_file_system = Some \<lparr>perm_read = Some reads, perm_write = Some writes\<rparr>, prof_macos = None\<rparr>"

definition sub_dir :: path where
  "sub_dir = sample_dir ''w'' @ [NormalComponent ''sub'']"

lemma asking_facts:
  "additional_permission_roots (asking_for [] [sample_dir ''x'']) = ([], [sample_dir ''x''])"
  "additional_permission_roots (asking_for [sub_dir] []) = ([sub_dir], [])"
  "resolve_candidate_path workspace_env (sample_dir ''x'') (sample_dir ''w'') = Some (sample_dir ''x'')"
  "resolve_candidate_path workspace_env sub_dir (sample_dir ''w'') = Some sub_dir"
  by code_simp+

theorem additional_writes_are_exact_witness:
  "resolve_access_with_cwd workspace_env workspace_policy (sample_dir ''x'') (sample_dir ''w'') = AccessRead \<and>
   resolve_access_with_cwd workspace_env (effective_file_system_sandbox_policy workspace_policy (Some (asking_for [] [sample_dir ''x''])))
     (sample_dir ''x'') (sample_dir ''w'') = AccessWrite"
proof -
  have "\<exists>w \<in> set [sample_dir ''x'']. starts_with (sample_dir ''x'') w \<and>
      (\<forall>e \<in> set (resolved_entries_with_cwd workspace_env workspace_policy (sample_dir ''w'')).
         covers (sample_dir ''x'') e \<longrightarrow> resolved_entry_precedence e \<le> (length w, AccessWrite))"
    by code_simp
  moreover have "resolve_access_with_cwd workspace_env workspace_policy (sample_dir ''x'') (sample_dir ''w'') = AccessRead"
    by code_simp
  ultimately show ?thesis
    using additional_writes_are_exact [OF sample_facts(1) asking_facts(1,3)] by (simp only: if_True)
qed

theorem additional_read_takes_writing_away_witness:
  "can_write_path_with_cwd workspace_env workspace_policy sub_dir (sample_dir ''w'') \<and>
   \<not> can_write_path_with_cwd workspace_env (effective_file_system_sandbox_policy workspace_policy (Some (asking_for [sub_dir] [])))
     sub_dir (sample_dir ''w'')"
proof -
  have "can_write_path_with_cwd workspace_env workspace_policy sub_dir (sample_dir ''w'')" by code_simp
  moreover have "starts_with sub_dir sub_dir" by code_simp
  moreover have "\<forall>e \<in> set (resolved_entries_with_cwd workspace_env workspace_policy (sample_dir ''w'')).
      covers sub_dir e \<longrightarrow> length (resolved_path e) < length sub_dir" by code_simp
  ultimately show ?thesis
    using additional_read_takes_writing_away [OF sample_facts(1) asking_facts(2,4), of sub_dir]
    by (simp add: can_write_path_with_cwd_def can_write_def)
qed

end
