(* ===== verification/Ip_Address.thy ===== *)
theory Ip_Address
  imports Rust_Text "HOL-Library.Word"
begin

unbundle bit_operations_syntax

section \<open>Addresses of the internet\<close>

text \<open>
  The addresses of the standard library as far as the network proxy uses them: how
  \<open>parse::<IpAddr>()\<close> reads them, and the classes \<open>is_loopback\<close>, \<open>is_private\<close> and so on; and the
  classification of \<^verbatim>\<open>codex-rs/network-proxy/src/policy.rs\<close> that rests on them.  An address of
  version 4 is a word of 32 bits, one of version 6 the list of its eight segments.
\<close>

datatype ip_addr = V4 "32 word" | V6 "16 word list"

subsection \<open>Reading an address\<close>

definition to_digit :: "nat \<Rightarrow> char \<Rightarrow> nat option" where
  "to_digit radix c =
     (let n = (of_char c :: nat);
          d = (if 0x30 \<le> n \<and> n \<le> 0x39 then n - 0x30
               else if 0x41 \<le> n \<and> n \<le> 0x5A then n - 0x41 + 10
               else if 0x61 \<le> n \<and> n \<le> 0x7A then n - 0x61 + 10
               else radix)
      in if d < radix then Some d else None)"

fun read_digits :: "nat \<Rightarrow> nat \<Rightarrow> string \<Rightarrow> nat \<Rightarrow> nat \<Rightarrow> (nat \<times> nat \<times> string) option" where
  "read_digits radix max_digits [] result count = Some (result, count, [])"
| "read_digits radix max_digits (c # s) result count =
     (case to_digit radix c of
        None \<Rightarrow> Some (result, count, c # s)
      | Some d \<Rightarrow>
          if max_digits < count + 1 then None
          else read_digits radix max_digits s (result * radix + d) (count + 1))"

definition read_number :: "nat \<Rightarrow> nat \<Rightarrow> bool \<Rightarrow> nat \<Rightarrow> string \<Rightarrow> (nat \<times> string) option" where
  "read_number radix max_digits allow_zero_prefix bound s =
     (case read_digits radix max_digits s 0 0 of
        None \<Rightarrow> None
      | Some (result, count, rest) \<Rightarrow>
          if count = 0 then None
          else if \<not> allow_zero_prefix \<and> prefix ''0'' s \<and> 1 < count then None
          else if result < bound then Some (result, rest) else None)"

definition read_given_char :: "char \<Rightarrow> string \<Rightarrow> string option" where
  "read_given_char c s = (case s of [] \<Rightarrow> None | d # rest \<Rightarrow> if d = c then Some rest else None)"

definition read_separator :: "char \<Rightarrow> nat \<Rightarrow> (string \<Rightarrow> ('a \<times> string) option) \<Rightarrow> string \<Rightarrow> ('a \<times> string) option" where
  "read_separator sep i inner s = (if 0 < i then Option.bind (read_given_char sep s) inner else inner s)"

fun read_octets :: "nat \<Rightarrow> nat \<Rightarrow> string \<Rightarrow> (nat list \<times> string) option" where
  "read_octets i 0 s = Some ([], s)"
| "read_octets i (Suc n) s =
     Option.bind (read_separator (CHR ''.'') i (read_number 10 3 False 256) s) (\<lambda>(octet, rest).
     Option.bind (read_octets (i + 1) n rest) (\<lambda>(octets, rest').
     Some (octet # octets, rest')))"

definition ipv4_of_octets :: "nat list \<Rightarrow> 32 word" where
  "ipv4_of_octets octets = of_nat (fold (\<lambda>b n. n * 256 + b) octets 0)"

definition read_ipv4_addr :: "string \<Rightarrow> (32 word \<times> string) option" where
  "read_ipv4_addr s = map_option (\<lambda>(octets, rest). (ipv4_of_octets octets, rest)) (read_octets 0 4 s)"

text \<open>The groups of an address of version 6; the last two may be written as an address of
  version 4, which ends them.\<close>

fun read_groups :: "nat \<Rightarrow> nat \<Rightarrow> string \<Rightarrow> 16 word list \<times> bool \<times> string" where
  "read_groups i 0 s = ([], False, s)"
| "read_groups i (Suc n) s =
     (case (if 0 < n then read_separator (CHR '':'') i read_ipv4_addr s else None) of
        Some (v4, rest) \<Rightarrow> ([ucast (drop_bit 16 v4), ucast v4], True, rest)
      | None \<Rightarrow>
          (case read_separator (CHR '':'') i (read_number 16 4 True 65536) s of
             None \<Rightarrow> ([], False, s)
           | Some (g, rest) \<Rightarrow>
               (let (groups, ipv4, rest') = read_groups (i + 1) n rest in (of_nat g # groups, ipv4, rest'))))"

definition read_ipv6_addr :: "string \<Rightarrow> (16 word list \<times> string) option" where
  "read_ipv6_addr s =
     (let (head, head_ipv4, rest) = read_groups 0 8 s in
      if length head = 8 then Some (head, rest)
      else if head_ipv4 then None
      else Option.bind (read_given_char (CHR '':'') rest) (\<lambda>rest.
           Option.bind (read_given_char (CHR '':'') rest) (\<lambda>rest.
           (let (tail_groups, _, rest') = read_groups 0 (8 - (length head + 1)) rest in
            Some (head @ replicate (8 - (length head + length tail_groups)) 0 @ tail_groups, rest')))))"

definition parse_ip_addr :: "string \<Rightarrow> ip_addr option" where
  "parse_ip_addr s =
     (case (case read_ipv4_addr s of
              Some (ip, rest) \<Rightarrow> Some (V4 ip, rest)
            | None \<Rightarrow> map_option (\<lambda>(ip, rest). (V6 ip, rest)) (read_ipv6_addr s)) of
        Some (ip, []) \<Rightarrow> Some ip
      | _ \<Rightarrow> None)"

subsection \<open>Classes of addresses\<close>

text \<open>The octets of an address, from the most significant one.\<close>

definition octet :: "nat \<Rightarrow> 32 word \<Rightarrow> nat" where
  "octet i ip = unat (drop_bit (8 * (3 - i)) ip) mod 256"

definition ipv4_is_loopback :: "32 word \<Rightarrow> bool" where
  "ipv4_is_loopback ip = (octet 0 ip = 127)"

definition ipv4_is_private :: "32 word \<Rightarrow> bool" where
  "ipv4_is_private ip =
     (octet 0 ip = 10 \<or> octet 0 ip = 172 \<and> 16 \<le> octet 1 ip \<and> octet 1 ip \<le> 31 \<or> octet 0 ip = 192 \<and> octet 1 ip = 168)"

definition ipv4_is_link_local :: "32 word \<Rightarrow> bool" where
  "ipv4_is_link_local ip = (octet 0 ip = 169 \<and> octet 1 ip = 254)"

definition ipv4_is_multicast :: "32 word \<Rightarrow> bool" where
  "ipv4_is_multicast ip = (224 \<le> octet 0 ip \<and> octet 0 ip \<le> 239)"

definition ipv4_in_cidr :: "32 word \<Rightarrow> nat list \<Rightarrow> nat \<Rightarrow> bool" where
  "ipv4_in_cidr ip base prefix_len =
     (let msk = (if prefix_len = 0 then 0 else push_bit (32 - prefix_len) (- 1)) in
      ip AND msk = ipv4_of_octets base AND msk)"

definition is_non_public_ipv4 :: "32 word \<Rightarrow> bool" where
  "is_non_public_ipv4 ip =
     (ipv4_is_loopback ip \<or> ipv4_is_private ip \<or> ipv4_is_link_local ip \<or> ip = 0 \<or> ipv4_is_multicast ip \<or> ip = - 1 \<or>
      ipv4_in_cidr ip [0, 0, 0, 0] 8 \<or> ipv4_in_cidr ip [100, 64, 0, 0] 10 \<or> ipv4_in_cidr ip [192, 0, 0, 0] 24 \<or>
      ipv4_in_cidr ip [192, 0, 2, 0] 24 \<or> ipv4_in_cidr ip [198, 18, 0, 0] 15 \<or> ipv4_in_cidr ip [198, 51, 100, 0] 24 \<or>
      ipv4_in_cidr ip [203, 0, 113, 0] 24 \<or> ipv4_in_cidr ip [240, 0, 0, 0] 4)"

definition ipv6_to_ipv4 :: "16 word list \<Rightarrow> (32 word) option" where
  "ipv6_to_ipv4 ip =
     (case ip of
        [a, b, c, d, e, f, g, h] \<Rightarrow>
          if a = 0 \<and> b = 0 \<and> c = 0 \<and> d = 0 \<and> e = 0 \<and> (f = 0 \<or> f = 0xFFFF)
          then Some (push_bit 16 (ucast g) OR ucast h) else None
      | _ \<Rightarrow> None)"

definition ipv6_is_loopback :: "16 word list \<Rightarrow> bool" where
  "ipv6_is_loopback ip = (ip = [0, 0, 0, 0, 0, 0, 0, 1])"

definition first_segment_is :: "16 word \<Rightarrow> 16 word \<Rightarrow> 16 word list \<Rightarrow> bool" where
  "first_segment_is msk v ip = (case ip of a # _ \<Rightarrow> a AND msk = v | [] \<Rightarrow> False)"

definition is_non_public_ipv6 :: "16 word list \<Rightarrow> bool" where
  "is_non_public_ipv6 ip =
     (case ipv6_to_ipv4 ip of
        Some v4 \<Rightarrow> is_non_public_ipv4 v4 \<or> ipv6_is_loopback ip
      | None \<Rightarrow>
          ipv6_is_loopback ip \<or> ip = replicate 8 0 \<or> first_segment_is 0xFF00 0xFF00 ip \<or>
          first_segment_is 0xFE00 0xFC00 ip \<or> first_segment_is 0xFFC0 0xFE80 ip)"

fun is_non_public_ip :: "ip_addr \<Rightarrow> bool" where
  "is_non_public_ip (V4 ip) = is_non_public_ipv4 ip"
| "is_non_public_ip (V6 ip) = is_non_public_ipv6 ip"

fun ip_is_loopback :: "ip_addr \<Rightarrow> bool" where
  "ip_is_loopback (V4 ip) = ipv4_is_loopback ip"
| "ip_is_loopback (V6 ip) = ipv6_is_loopback ip"

subsection \<open>The ranges that are not public\<close>

definition quad :: "nat \<Rightarrow> nat \<Rightarrow> nat \<Rightarrow> nat \<Rightarrow> nat" where
  "quad a b c d = ((a * 256 + b) * 256 + c) * 256 + d"

definition non_public_ranges :: "(nat \<times> nat) list" where
  "non_public_ranges =
     [(quad 0 0 0 0, quad 0 255 255 255), (quad 10 0 0 0, quad 10 255 255 255),
      (quad 100 64 0 0, quad 100 127 255 255), (quad 127 0 0 0, quad 127 255 255 255),
      (quad 169 254 0 0, quad 169 254 255 255), (quad 172 16 0 0, quad 172 31 255 255),
      (quad 192 0 0 0, quad 192 0 0 255), (quad 192 0 2 0, quad 192 0 2 255),
      (quad 192 168 0 0, quad 192 168 255 255), (quad 198 18 0 0, quad 198 19 255 255),
      (quad 198 51 100 0, quad 198 51 100 255), (quad 203 0 113 0, quad 203 0 113 255),
      (quad 224 0 0 0, quad 255 255 255 255)]"

lemma high_bits_iff:
  fixes a b :: "32 word"
  shows "a AND push_bit k (- 1) = b AND push_bit k (- 1) \<longleftrightarrow> drop_bit k a = drop_bit k b"
proof
  assume eq: "a AND push_bit k (- 1) = b AND push_bit k (- 1)"
  show "drop_bit k a = drop_bit k b"
  proof (rule bit_word_eqI)
    fix n assume "n < LENGTH(32)"
    have "bit (a AND push_bit k (- 1)) (k + n) = bit (b AND push_bit k (- 1)) (k + n)" by (simp only: eq)
    then show "bit (drop_bit k a) n = bit (drop_bit k b) n"
      using bit_imp_le_length [of a "k + n"] bit_imp_le_length [of b "k + n"] by (auto simp: bit_simps)
  qed
next
  assume eq: "drop_bit k a = drop_bit k b"
  show "a AND push_bit k (- 1) = b AND push_bit k (- 1)"
  proof (rule bit_word_eqI)
    fix n assume "n < LENGTH(32)"
    have "bit (drop_bit k a) (n - k) = bit (drop_bit k b) (n - k)" by (simp only: eq)
    then show "bit (a AND push_bit k (- 1)) n = bit (b AND push_bit k (- 1)) n"
      by (cases "k \<le> n") (simp_all add: bit_simps)
  qed
qed

lemma same_high_bits:
  fixes a b :: "32 word"
  shows "a AND push_bit k (- 1) = b AND push_bit k (- 1) \<longleftrightarrow> unat a div 2 ^ k = unat b div 2 ^ k"
proof -
  have "drop_bit k a = drop_bit k b \<longleftrightarrow> drop_bit k (unat a) = drop_bit k (unat b)"
    by (simp only: word_unat_eq_iff unat_drop_bit_eq)
  then show ?thesis by (simp only: high_bits_iff drop_bit_eq_div)
qed

lemma div_eq_range: "0 < d \<Longrightarrow> n div d = q \<longleftrightarrow> q * d \<le> n \<and> n < q * d + d" for n d q :: nat
  using div_nat_eqI [of d q n] dividend_less_div_times [of d n] by (auto simp: mult.commute)

lemma ipv4_in_cidr_range:
  assumes "0 < p" and "p \<le> 32" and "base = [a, b, c, d]" and "quad a b c d < 2 ^ 32" and "quad a b c d mod 2 ^ (32 - p) = 0"
  shows "ipv4_in_cidr ip base p \<longleftrightarrow> quad a b c d \<le> unat ip \<and> unat ip < quad a b c d + 2 ^ (32 - p)"
proof -
  have "unat (ipv4_of_octets base) = quad a b c d"
  proof -
    have "fold (\<lambda>b n. n * 256 + b) base 0 = quad a b c d" by (simp add: assms(3) quad_def)
    with assms(4) show ?thesis unfolding ipv4_of_octets_def by (simp only: unat_of_nat) simp
  qed
  moreover from assms(1) have "ipv4_in_cidr ip base p \<longleftrightarrow> ip AND push_bit (32 - p) (- 1) = ipv4_of_octets base AND push_bit (32 - p) (- 1)"
    unfolding ipv4_in_cidr_def Let_def by (simp only: gr_implies_not0 if_False)
  ultimately have "ipv4_in_cidr ip base p \<longleftrightarrow> unat ip div 2 ^ (32 - p) = quad a b c d div 2 ^ (32 - p)"
    by (simp only: same_high_bits)
  moreover have "quad a b c d div 2 ^ (32 - p) * 2 ^ (32 - p) = quad a b c d"
    using assms(5) by (simp add: mod_0_imp_dvd dvd_div_mult_self)
  ultimately show ?thesis using div_eq_range [of "2 ^ (32 - p)" "unat ip" "quad a b c d div 2 ^ (32 - p)"] by simp
qed

lemma octet_div: "octet i ip = unat ip div 2 ^ (8 * (3 - i)) mod 256"
  unfolding octet_def unat_drop_bit_eq by (simp only: drop_bit_eq_div)

lemma unat_below: "unat ip < 2 ^ 32" for ip :: "32 word"
  using unsigned_less [of ip] by simp

lemma first_octet: "octet 0 ip = unat ip div 2 ^ 24"
  using unat_below [of ip] by (simp add: octet_div)

lemma first_octet_is: "octet 0 ip = p \<longleftrightarrow> quad p 0 0 0 \<le> unat ip \<and> unat ip \<le> quad p 255 255 255"
  unfolding first_octet by (auto simp: div_eq_range quad_def)

lemma first_octet_between:
  "lo \<le> octet 0 ip \<and> octet 0 ip \<le> hi \<longleftrightarrow> quad lo 0 0 0 \<le> unat ip \<and> unat ip \<le> quad hi 255 255 255"
  unfolding first_octet
  by (auto simp: quad_def less_eq_div_iff_mult_less_eq div_less_iff_less_mult less_Suc_eq_le [symmetric])

lemma second_octet_between:
  assumes "hi < 256"
  shows "octet 0 ip = p \<and> lo \<le> octet 1 ip \<and> octet 1 ip \<le> hi \<longleftrightarrow> quad p lo 0 0 \<le> unat ip \<and> unat ip \<le> quad p hi 255 255"
proof -
  let ?x = "unat ip div 2 ^ 16"
  have "octet 0 ip = ?x div 256" unfolding first_octet by (simp add: div_mult2_eq [symmetric])
  moreover have "octet 1 ip = ?x mod 256" by (simp add: octet_div)
  moreover have "x div 256 = p \<and> lo \<le> x mod 256 \<and> x mod 256 \<le> hi \<longleftrightarrow> p * 256 + lo \<le> x \<and> x < p * 256 + Suc hi" for x :: nat
  proof
    assume "x div 256 = p \<and> lo \<le> x mod 256 \<and> x mod 256 \<le> hi"
    then show "p * 256 + lo \<le> x \<and> x < p * 256 + Suc hi" using div_mult_mod_eq [of x 256] by linarith
  next
    assume x: "p * 256 + lo \<le> x \<and> x < p * 256 + Suc hi"
    then obtain r where "x = p * 256 + r" using le_Suc_ex [of "p * 256" x] by auto
    with x assms show "x div 256 = p \<and> lo \<le> x mod 256 \<and> x mod 256 \<le> hi" by simp
  qed
  ultimately have "octet 0 ip = p \<and> lo \<le> octet 1 ip \<and> octet 1 ip \<le> hi \<longleftrightarrow> p * 256 + lo \<le> ?x \<and> ?x < p * 256 + Suc hi"
    by simp
  then show ?thesis
    by (simp only: less_eq_div_iff_mult_less_eq div_less_iff_less_mult zero_less_power zero_less_numeral)
       (auto simp: quad_def)
qed

lemma last_address: "ip = - 1 \<longleftrightarrow> unat ip = quad 255 255 255 255" for ip :: "32 word"
  by (simp add: word_unat_eq_iff quad_def unsigned_minus_1_eq_mask mask_eq_exp_minus_1)

lemma cidr_ranges:
  "ipv4_in_cidr ip [0, 0, 0, 0] 8 \<longleftrightarrow> quad 0 0 0 0 \<le> unat ip \<and> unat ip \<le> quad 0 255 255 255"
  "ipv4_in_cidr ip [100, 64, 0, 0] 10 \<longleftrightarrow> quad 100 64 0 0 \<le> unat ip \<and> unat ip \<le> quad 100 127 255 255"
  "ipv4_in_cidr ip [192, 0, 0, 0] 24 \<longleftrightarrow> quad 192 0 0 0 \<le> unat ip \<and> unat ip \<le> quad 192 0 0 255"
  "ipv4_in_cidr ip [192, 0, 2, 0] 24 \<longleftrightarrow> quad 192 0 2 0 \<le> unat ip \<and> unat ip \<le> quad 192 0 2 255"
  "ipv4_in_cidr ip [198, 18, 0, 0] 15 \<longleftrightarrow> quad 198 18 0 0 \<le> unat ip \<and> unat ip \<le> quad 198 19 255 255"
  "ipv4_in_cidr ip [198, 51, 100, 0] 24 \<longleftrightarrow> quad 198 51 100 0 \<le> unat ip \<and> unat ip \<le> quad 198 51 100 255"
  "ipv4_in_cidr ip [203, 0, 113, 0] 24 \<longleftrightarrow> quad 203 0 113 0 \<le> unat ip \<and> unat ip \<le> quad 203 0 113 255"
  "ipv4_in_cidr ip [240, 0, 0, 0] 4 \<longleftrightarrow> quad 240 0 0 0 \<le> unat ip \<and> unat ip \<le> quad 255 255 255 255"
  by ((subst ipv4_in_cidr_range [OF _ _ refl], simp_all add: quad_def less_eq_Suc_le)[1])+

lemma private_ranges:
  "ipv4_is_private ip \<longleftrightarrow>
     quad 10 0 0 0 \<le> unat ip \<and> unat ip \<le> quad 10 255 255 255 \<or>
     quad 172 16 0 0 \<le> unat ip \<and> unat ip \<le> quad 172 31 255 255 \<or>
     quad 192 168 0 0 \<le> unat ip \<and> unat ip \<le> quad 192 168 255 255"
proof -
  have "octet 1 ip = 168 \<longleftrightarrow> 168 \<le> octet 1 ip \<and> octet 1 ip \<le> 168" by auto
  then show ?thesis
    unfolding ipv4_is_private_def
    using second_octet_between [of 31 ip 172 16] second_octet_between [of 168 ip 192 168] first_octet_is [of ip 10] by simp
qed

lemma link_local_range: "ipv4_is_link_local ip \<longleftrightarrow> quad 169 254 0 0 \<le> unat ip \<and> unat ip \<le> quad 169 254 255 255"
proof -
  have "octet 1 ip = 254 \<longleftrightarrow> 254 \<le> octet 1 ip \<and> octet 1 ip \<le> 254" by auto
  then show ?thesis unfolding ipv4_is_link_local_def using second_octet_between [of 254 ip 169 254] by simp
qed

lemma first_range: "ip = 0 \<or> ipv4_in_cidr ip [0, 0, 0, 0] 8 \<longleftrightarrow> quad 0 0 0 0 \<le> unat ip \<and> unat ip \<le> quad 0 255 255 255"
  by (auto simp: cidr_ranges quad_def)

lemma last_range:
  "ipv4_is_multicast ip \<or> ip = - 1 \<or> ipv4_in_cidr ip [240, 0, 0, 0] 4 \<longleftrightarrow>
     quad 224 0 0 0 \<le> unat ip \<and> unat ip \<le> quad 255 255 255 255"
  unfolding ipv4_is_multicast_def first_octet_between cidr_ranges last_address by (auto simp: quad_def)

text \<open>C18: The addresses that the proxy takes for local or private ones are, as words, exactly those
  of a table of thirteen ranges: the masks and shifts of the code neither leave one out nor take
  one too many.\<close>

theorem non_public_addresses_are_ranges:
  "is_non_public_ipv4 ip = list_ex (\<lambda>(lo, hi). lo \<le> unat ip \<and> unat ip \<le> hi) non_public_ranges"
proof -
  have "is_non_public_ipv4 ip \<longleftrightarrow>
      (ip = 0 \<or> ipv4_in_cidr ip [0, 0, 0, 0] 8) \<or> (ipv4_is_multicast ip \<or> ip = - 1 \<or> ipv4_in_cidr ip [240, 0, 0, 0] 4) \<or>
      ipv4_is_loopback ip \<or> ipv4_is_private ip \<or> ipv4_is_link_local ip \<or> ipv4_in_cidr ip [100, 64, 0, 0] 10 \<or>
      ipv4_in_cidr ip [192, 0, 0, 0] 24 \<or> ipv4_in_cidr ip [192, 0, 2, 0] 24 \<or> ipv4_in_cidr ip [198, 18, 0, 0] 15 \<or>
      ipv4_in_cidr ip [198, 51, 100, 0] 24 \<or> ipv4_in_cidr ip [203, 0, 113, 0] 24"
    unfolding is_non_public_ipv4_def by blast
  then show ?thesis
    unfolding first_range last_range
    unfolding ipv4_is_loopback_def first_octet_is private_ranges link_local_range cidr_ranges non_public_ranges_def
    by (simp add: disj_ac)
qed

subsection \<open>Reading by simplification\<close>

lemma read_octets_numeral [simp]:
  "read_octets i (numeral k) s =
     Option.bind (read_separator (CHR ''.'') i (read_number 10 3 False 256) s) (\<lambda>(octet, rest).
     Option.bind (read_octets (i + 1) (pred_numeral k) rest) (\<lambda>(octets, rest').
     Some (octet # octets, rest')))"
  by (simp add: numeral_eq_Suc)

lemma read_groups_numeral [simp]:
  "read_groups i (numeral k) s =
     (case (if 0 < pred_numeral k then read_separator (CHR '':'') i read_ipv4_addr s else None) of
        Some (v4, rest) \<Rightarrow> ([ucast (drop_bit 16 v4), ucast v4], True, rest)
      | None \<Rightarrow>
          (case read_separator (CHR '':'') i (read_number 16 4 True 65536) s of
             None \<Rightarrow> ([], False, s)
           | Some (g, rest) \<Rightarrow>
               (let (groups, ipv4, rest') = read_groups (i + 1) (pred_numeral k) rest in (of_nat g # groups, ipv4, rest'))))"
  by (simp add: numeral_eq_Suc)

lemma replicate_eval: "replicate (numeral k) x = x # replicate (pred_numeral k) x"
  by (simp add: numeral_eq_Suc)

lemmas read_ip_defs = parse_ip_addr_def read_ipv4_addr_def read_ipv6_addr_def read_separator_def read_number_def
  read_given_char_def to_digit_def ipv4_of_octets_def replicate_eval

lemma parse_loopback: "parse_ip_addr ''127.0.0.1'' = Some (V4 0x7F000001)"
  by (simp add: read_ip_defs)

lemma parse_mapped: "parse_ip_addr ''::ffff:10.0.0.1'' = Some (V6 [0, 0, 0, 0, 0, 0xFFFF, 0x0A00, 1])"
  by (simp add: read_ip_defs)

end
