(* ===== verification/Host_Policy.thy ===== *)
theory Host_Policy
  imports Ip_Address
begin

section \<open>Hosts and domain patterns of the network proxy\<close>

text \<open>
  A model of \<^verbatim>\<open>codex-rs/network-proxy/src/policy.rs\<close>: how hosts are normalised, which of them are
  local, what the patterns of the lists of allowed and denied domains mean, and when a pattern of
  the user stays within a pattern of a managed configuration.  The globs of the \<^verbatim>\<open>globset\<close> library
  and the host parser of the \<^verbatim>\<open>url\<close> library are parameters.
\<close>

subsection \<open>Hosts\<close>

definition normalize_dns_host :: "string \<Rightarrow> string" where
  "normalize_dns_host host = trim_end_char (CHR ''.'') (to_ascii_lowercase host)"

definition normalize_host :: "string \<Rightarrow> string" where
  "normalize_host raw =
     (let host = str_trim raw in
      case (if prefix ''['' host then split_once (CHR '']'') host else None) of
        Some (before, _) \<Rightarrow> normalize_dns_host (tl before)
      | None \<Rightarrow>
          if count_list host (CHR '':'') = 1 then normalize_dns_host (takeWhile (\<lambda>c. c \<noteq> CHR '':'') host)
          else normalize_dns_host host)"

definition parse_host :: "string \<Rightarrow> string option" where
  "parse_host input = (let normalized = normalize_host input in if normalized = [] then None else Some normalized)"

definition without_scope :: "string \<Rightarrow> string" where
  "without_scope host = (case split_once (CHR ''%'') host of Some (ip, _) \<Rightarrow> ip | None \<Rightarrow> host)"

definition is_loopback_host :: "string \<Rightarrow> bool" where
  "is_loopback_host host =
     (let host = without_scope host in
      host = ''localhost'' \<or> (case parse_ip_addr host of Some ip \<Rightarrow> ip_is_loopback ip | None \<Rightarrow> False))"

subsection \<open>Patterns\<close>

datatype domain_pattern =
    ApexAndSubdomains string
  | SubdomainsOnly string
  | Exact string

definition parse_domain :: "string \<Rightarrow> (string \<Rightarrow> domain_pattern) \<Rightarrow> domain_pattern" where
  "parse_domain domain build = (let domain = str_trim domain in if domain = [] then Exact [] else build domain)"

definition parse_pattern_text :: "string \<Rightarrow> domain_pattern" where
  "parse_pattern_text raw =
     (let input = str_trim raw in
      if input = [] then Exact []
      else (case strip_prefix ''**.'' input of
              Some domain \<Rightarrow> parse_domain domain ApexAndSubdomains
            | None \<Rightarrow>
                (case strip_prefix ''*.'' input of
                   Some domain \<Rightarrow> parse_domain domain SubdomainsOnly
                 | None \<Rightarrow> Exact input)))"

definition normalize_pattern :: "string \<Rightarrow> string" where
  "normalize_pattern raw =
     (let pattern = str_trim raw in
      if pattern = ''*'' then ''*''
      else (let (pre, rest) =
              (case strip_prefix ''**.'' pattern of
                 Some domain \<Rightarrow> (''**.'', domain)
               | None \<Rightarrow>
                   (case strip_prefix ''*.'' pattern of
                      Some domain \<Rightarrow> (''*.'', domain)
                    | None \<Rightarrow> ([], pattern)))
            in pre @ normalize_host rest))"

fun expand_parsed :: "domain_pattern \<Rightarrow> string list" where
  "expand_parsed (Exact domain) = [domain]"
| "expand_parsed (SubdomainsOnly domain) = [''?*.'' @ domain]"
| "expand_parsed (ApexAndSubdomains domain) = [domain, ''?*.'' @ domain]"

definition expand_domain_pattern :: "string \<Rightarrow> string list" where
  "expand_domain_pattern pattern = expand_parsed (parse_pattern_text pattern)"

definition is_global_wildcard_domain_pattern :: "string \<Rightarrow> bool" where
  "is_global_wildcard_domain_pattern pattern =
     list_ex (\<lambda>candidate. candidate = ''*'') (expand_domain_pattern (normalize_pattern pattern))"

text \<open>The globs: whether one can be built, whether a set of them can be compiled, and what one
  matches (without regard to case).\<close>

record glob_lib =
  glob_builds :: "string \<Rightarrow> bool"
  globset_builds :: "string list \<Rightarrow> bool"
  glob_matches :: "string \<Rightarrow> string \<Rightarrow> bool"

datatype glob_error = GlobalWildcard | InvalidGlob string | UnbuildableSet

text \<open>The set of candidates already seen is the set of those that have been added.\<close>

fun candidates_loop :: "glob_lib \<Rightarrow> string list \<Rightarrow> string list \<Rightarrow> (glob_error, string list) result" where
  "candidates_loop lib [] built = Inr built"
| "candidates_loop lib (candidate # rest) built =
     (if candidate \<in> set built then candidates_loop lib rest built
      else if glob_builds lib candidate then candidates_loop lib rest (built @ [candidate])
      else Inl (InvalidGlob candidate))"

fun patterns_loop :: "glob_lib \<Rightarrow> string list \<Rightarrow> string list \<Rightarrow> (glob_error, string list) result" where
  "patterns_loop lib [] built = Inr built"
| "patterns_loop lib (pattern # rest) built =
     (if is_global_wildcard_domain_pattern pattern then Inl GlobalWildcard
      else (case candidates_loop lib (expand_domain_pattern (normalize_pattern pattern)) built of
              Inl e \<Rightarrow> Inl e
            | Inr built' \<Rightarrow> patterns_loop lib rest built'))"

definition compile_globset :: "glob_lib \<Rightarrow> string list \<Rightarrow> (glob_error, string list) result" where
  "compile_globset lib patterns =
     (case patterns_loop lib patterns [] of
        Inl e \<Rightarrow> Inl e
      | Inr built \<Rightarrow> if globset_builds lib built then Inr built else Inl UnbuildableSet)"

definition globset_is_match :: "glob_lib \<Rightarrow> string list \<Rightarrow> string \<Rightarrow> bool" where
  "globset_is_match lib globs host = list_ex (\<lambda>g. glob_matches lib g host) globs"

subsection \<open>Patterns within patterns\<close>

definition normalize_domain :: "string \<Rightarrow> string" where
  "normalize_domain domain = to_ascii_lowercase (trim_end_char (CHR ''.'') domain)"

definition domain_eq :: "string \<Rightarrow> string \<Rightarrow> bool" where
  "domain_eq left right = (normalize_domain left = normalize_domain right)"

definition is_subdomain_or_equal :: "string \<Rightarrow> string \<Rightarrow> bool" where
  "is_subdomain_or_equal child parent =
     (let child = normalize_domain child; parent = normalize_domain parent in
      child = parent \<or> suffix (''.'' @ parent) child)"

definition is_strict_subdomain :: "string \<Rightarrow> string \<Rightarrow> bool" where
  "is_strict_subdomain child parent =
     (let child = normalize_domain child; parent = normalize_domain parent in
      child \<noteq> parent \<and> suffix (''.'' @ parent) child)"

fun pattern_allows :: "domain_pattern \<Rightarrow> domain_pattern \<Rightarrow> bool" where
  "pattern_allows (Exact domain) (Exact candidate) = domain_eq candidate domain"
| "pattern_allows (Exact domain) _ = False"
| "pattern_allows (SubdomainsOnly domain) (Exact candidate) = is_strict_subdomain candidate domain"
| "pattern_allows (SubdomainsOnly domain) (SubdomainsOnly candidate) = is_subdomain_or_equal candidate domain"
| "pattern_allows (SubdomainsOnly domain) (ApexAndSubdomains candidate) = is_strict_subdomain candidate domain"
| "pattern_allows (ApexAndSubdomains domain) (Exact candidate) = is_subdomain_or_equal candidate domain"
| "pattern_allows (ApexAndSubdomains domain) (SubdomainsOnly candidate) = is_subdomain_or_equal candidate domain"
| "pattern_allows (ApexAndSubdomains domain) (ApexAndSubdomains candidate) = is_subdomain_or_equal candidate domain"

text \<open>The domain of a pattern of a managed configuration is put through the parser of the \<^verbatim>\<open>url\<close>
  library, which gives none for a text that is no host.\<close>

definition parse_domain_for_constraints :: "(string \<Rightarrow> string option) \<Rightarrow> string \<Rightarrow> string" where
  "parse_domain_for_constraints url_host raw =
     (let domain = trim_end_char (CHR ''.'') (str_trim raw) in
      if domain = [] then []
      else (let host = (if prefix ''['' domain \<and> suffix '']'' domain then tl (butlast domain) else domain) in
            if CHR ''*'' \<in> set host \<or> CHR ''?'' \<in> set host \<or> CHR ''%'' \<in> set host then domain
            else (case url_host host of Some h \<Rightarrow> h | None \<Rightarrow> [])))"

definition parse_for_constraints :: "(string \<Rightarrow> string option) \<Rightarrow> string \<Rightarrow> domain_pattern" where
  "parse_for_constraints url_host raw =
     (let input = str_trim raw in
      if input = [] then Exact []
      else (case strip_prefix ''**.'' input of
              Some domain \<Rightarrow> ApexAndSubdomains (parse_domain_for_constraints url_host domain)
            | None \<Rightarrow>
                (case strip_prefix ''*.'' input of
                   Some domain \<Rightarrow> SubdomainsOnly (parse_domain_for_constraints url_host domain)
                 | None \<Rightarrow> Exact (parse_domain_for_constraints url_host input))))"

subsection \<open>What patterns mean\<close>

fun pattern_domain :: "domain_pattern \<Rightarrow> string" where
  "pattern_domain (ApexAndSubdomains domain) = domain"
| "pattern_domain (SubdomainsOnly domain) = domain"
| "pattern_domain (Exact domain) = domain"

text \<open>A host below a domain has a label in front of it.\<close>

definition below :: "string \<Rightarrow> string \<Rightarrow> bool" where
  "below domain host = (suffix (CHR ''.'' # domain) host \<and> Suc (length domain) < length host)"

fun covers :: "domain_pattern \<Rightarrow> string \<Rightarrow> bool" where
  "covers (Exact domain) host = (host = domain)"
| "covers (SubdomainsOnly domain) host = below domain host"
| "covers (ApexAndSubdomains domain) host = (host = domain \<or> below domain host)"

definition domain_wf :: "string \<Rightarrow> bool" where
  "domain_wf domain = (domain \<noteq> [] \<and> hd domain \<noteq> CHR ''.'' \<and> normalize_domain domain = domain)"

lemma below_trans: "below d e \<Longrightarrow> below e h \<Longrightarrow> below d h"
  unfolding below_def by (auto intro: suffix_order.trans suffix_ConsD)

lemma suffix_below: "domain_wf h \<Longrightarrow> suffix (CHR ''.'' # d) h \<longleftrightarrow> below d h"
  by (auto simp: below_def domain_wf_def suffix_def Cons_eq_append_conv neq_Nil_conv)

lemma below_neq: "below d h \<Longrightarrow> h \<noteq> d"
  by (auto simp: below_def)

lemma below_label:
  assumes "domain_wf e" and "x \<noteq> CHR ''.''"
  shows "below d (x # CHR ''.'' # e) \<longleftrightarrow> d = e \<or> below d e"
  using suffix_below [OF assms(1), of d] assms(2) by (auto simp: below_def suffix_Cons dest: suffix_length_le)

lemma to_ascii_lowercase_length [simp]: "length (to_ascii_lowercase s) = length s"
  by (simp add: to_ascii_lowercase_def)

lemma normalised_iff: "normalize_domain d = d \<longleftrightarrow> to_ascii_lowercase d = d \<and> (d = [] \<or> last d \<noteq> CHR ''.'')"
proof
  assume n: "normalize_domain d = d"
  then have "length (trim_end_char (CHR ''.'') d) = length d"
    unfolding normalize_domain_def by (metis to_ascii_lowercase_length)
  then have "trim_end_char (CHR ''.'') d = d"
    using trim_end_char_prefix [of "CHR ''.''" d] by (metis not_equal_is_parallel parallelD1)
  with n show "to_ascii_lowercase d = d \<and> (d = [] \<or> last d \<noteq> CHR ''.'')"
    by (simp add: normalize_domain_def trim_end_char_id)
qed (simp add: normalize_domain_def trim_end_char_id [THEN iffD2])

lemma labelled_wf: "domain_wf e \<Longrightarrow> x \<in> {CHR ''a'', CHR ''b''} \<Longrightarrow> domain_wf (x # CHR ''.'' # e)"
  by (auto simp: domain_wf_def normalised_iff to_ascii_lowercase_def ascii_lower_def)

lemma strict_subdomain_wf: "domain_wf c \<Longrightarrow> domain_wf d \<Longrightarrow> is_strict_subdomain c d \<longleftrightarrow> below d c"
  using suffix_below [of c d] below_neq [of d c] by (auto simp: is_strict_subdomain_def domain_wf_def)

lemma subdomain_or_equal_wf: "domain_wf c \<Longrightarrow> domain_wf d \<Longrightarrow> is_subdomain_or_equal c d \<longleftrightarrow> c = d \<or> below d c"
  using suffix_below [of c d] by (auto simp: is_subdomain_or_equal_def domain_wf_def)

lemma domain_wf_normalised: "domain_wf d \<Longrightarrow> normalize_domain d = d"
  by (simp add: domain_wf_def)

lemma pattern_containment:
  assumes "domain_wf (pattern_domain managed)" and "domain_wf (pattern_domain candidate)"
  shows "pattern_allows managed candidate \<longleftrightarrow> (\<forall>host. domain_wf host \<longrightarrow> covers candidate host \<longrightarrow> covers managed host)"
    (is "?allows \<longleftrightarrow> ?contained")
proof
  show "?allows \<Longrightarrow> ?contained"
    using assms
    by (cases managed; cases candidate) (auto simp: domain_eq_def domain_wf_normalised strict_subdomain_wf
        subdomain_or_equal_wf dest: below_trans)
next
  let ?e = "pattern_domain candidate"
  let ?a = "CHR ''a'' # CHR ''.'' # ?e" and ?b = "CHR ''b'' # CHR ''.'' # ?e"
  assume c: ?contained
  from c assms(2) have self: "covers candidate ?e \<Longrightarrow> covers managed ?e" by blast
  from c labelled_wf [OF assms(2)] have labels: "covers candidate ?a \<Longrightarrow> covers managed ?a" "covers candidate ?b \<Longrightarrow> covers managed ?b"
    by simp_all
  have "below d ?a \<longleftrightarrow> d = ?e \<or> below d ?e" "below d ?b \<longleftrightarrow> d = ?e \<or> below d ?e" for d
    using below_label [OF assms(2)] by simp_all
  with self labels assms show ?allows
    by (cases managed; cases candidate) (auto simp: domain_eq_def strict_subdomain_wf subdomain_or_equal_wf)
qed

text \<open>A pattern of the user is within a pattern of the managed configuration exactly when every host
  that it covers is covered by that pattern.\<close>

lemma pattern_allows_is_containment:
  assumes "domain_wf (pattern_domain managed)" and "domain_wf (pattern_domain candidate)"
  shows "pattern_allows managed candidate \<longleftrightarrow> (\<forall>host. domain_wf host \<longrightarrow> covers candidate host \<longrightarrow> covers managed host)"
  using assms by (rule pattern_containment)

subsection \<open>Compiled patterns\<close>

text \<open>What the documentation of \<^verbatim>\<open>globset\<close> says of the globs that are built from patterns: a glob without
  special characters matches the text itself, and \<open>?\<close> and \<open>*\<close> match one and any number of characters,
  without regard to case.\<close>

definition plain_domain :: "string \<Rightarrow> bool" where
  "plain_domain domain = list_all (\<lambda>c. c \<notin> {CHR ''*'', CHR ''?'', CHR ''['', CHR '']'', CHR ''{'', CHR ''}'', CHR 92}) domain"

definition glob_laws :: "glob_lib \<Rightarrow> bool" where
  "glob_laws lib =
     (\<forall>domain host. plain_domain domain \<longrightarrow>
        glob_matches lib domain host = (to_ascii_lowercase host = to_ascii_lowercase domain) \<and>
        glob_matches lib (''?*.'' @ domain) host = below (to_ascii_lowercase domain) (to_ascii_lowercase host))"

definition plain_pattern :: "string \<Rightarrow> bool" where
  "plain_pattern p =
     (let domain = pattern_domain (parse_pattern_text (normalize_pattern p)) in
      plain_domain domain \<and> to_ascii_lowercase domain = domain)"

lemma candidates_loop_set:
  "candidates_loop lib cs built = Inr built' \<Longrightarrow> set built' = set built \<union> set cs"
  by (induction lib cs built rule: candidates_loop.induct) (auto split: if_splits)

lemma patterns_loop_set:
  "patterns_loop lib ps built = Inr built' \<Longrightarrow>
     set built' = set built \<union> (\<Union>p \<in> set ps. set (expand_domain_pattern (normalize_pattern p)))"
  by (induction lib ps built rule: patterns_loop.induct)
     (auto split: if_splits sum.splits dest!: candidates_loop_set)

lemma compile_globset_set:
  "compile_globset lib ps = Inr globs \<Longrightarrow> set globs = (\<Union>p \<in> set ps. set (expand_domain_pattern (normalize_pattern p)))"
  by (auto simp: compile_globset_def split: sum.splits if_splits dest!: patterns_loop_set)

lemma expanded_covers:
  assumes "glob_laws lib" and "plain_domain (pattern_domain p)" and "to_ascii_lowercase (pattern_domain p) = pattern_domain p"
  shows "list_ex (\<lambda>g. glob_matches lib g host) (expand_parsed p) \<longleftrightarrow> covers p (to_ascii_lowercase host)"
  using assms by (cases p) (auto simp: glob_laws_def)

lemma globset_covers:
  assumes "compile_globset lib ps = Inr globs" and "glob_laws lib" and "list_all plain_pattern ps"
  shows "globset_is_match lib globs host \<longleftrightarrow>
    list_ex (\<lambda>p. covers (parse_pattern_text (normalize_pattern p)) (to_ascii_lowercase host)) ps"
proof -
  have "list_ex (\<lambda>g. glob_matches lib g host) (expand_domain_pattern (normalize_pattern p)) \<longleftrightarrow>
      covers (parse_pattern_text (normalize_pattern p)) (to_ascii_lowercase host)" if "p \<in> set ps" for p
    using expanded_covers [OF assms(2)] that assms(3)
    by (auto simp: plain_pattern_def expand_domain_pattern_def list_all_iff Let_def)
  then show ?thesis
    unfolding globset_is_match_def list_ex_iff compile_globset_set [OF assms(1)] by (auto simp: list_ex_iff)
qed

end
