(* ===== verification/Proxy_Config.thy ===== *)
theory Proxy_Config
  imports Host_Policy Network_Decision Absolute_Path
begin

section \<open>Configuration of the network proxy\<close>

text \<open>
  A model of \<^verbatim>\<open>codex-rs/network-proxy/src/state.rs\<close> and of the settings, the addresses and the socket
  paths of \<^verbatim>\<open>config.rs\<close>: what a managed configuration demands of the settings of the user, and the
  compiled state of the proxy.  Messages are kept as what they show.
\<close>

subsection \<open>Settings and constraints\<close>

record proxy_settings =
  set_enabled :: bool
  set_proxy_url :: string
  set_enable_socks5 :: bool
  set_socks_url :: string
  set_enable_socks5_udp :: bool
  set_upstream_proxy :: bool
  set_non_loopback_proxy :: bool
  set_all_unix_sockets :: bool
  set_mode :: network_mode
  set_allowed_domains :: "string list"
  set_denied_domains :: "string list"
  set_unix_sockets :: "string list"
  set_local_binding :: bool
  set_mitm :: bool

definition default_proxy_settings :: proxy_settings where
  "default_proxy_settings =
     \<lparr>set_enabled = False, set_proxy_url = ''http://127.0.0.1:3128'', set_enable_socks5 = True,
      set_socks_url = ''http://127.0.0.1:8081'', set_enable_socks5_udp = True, set_upstream_proxy = True,
      set_non_loopback_proxy = False, set_all_unix_sockets = False, set_mode = Full, set_allowed_domains = [],
      set_denied_domains = [], set_unix_sockets = [], set_local_binding = False, set_mitm = False\<rparr>"

record proxy_constraints =
  con_enabled :: "bool option"
  con_mode :: "network_mode option"
  con_upstream_proxy :: "bool option"
  con_non_loopback_proxy :: "bool option"
  con_all_unix_sockets :: "bool option"
  con_allowed_domains :: "string list option"
  con_allowlist_expansion :: "bool option"
  con_denied_domains :: "string list option"
  con_denylist_expansion :: "bool option"
  con_unix_sockets :: "string list option"
  con_local_binding :: "bool option"

definition no_constraints :: proxy_constraints where
  "no_constraints =
     \<lparr>con_enabled = None, con_mode = None, con_upstream_proxy = None, con_non_loopback_proxy = None,
      con_all_unix_sockets = None, con_allowed_domains = None, con_allowlist_expansion = None,
      con_denied_domains = None, con_denylist_expansion = None, con_unix_sockets = None, con_local_binding = None\<rparr>"

datatype shown = ShownText string | ShownEntries "string list" | ShownSet "string set"

datatype constraint_error = InvalidValue string shown shown

fun network_mode_rank :: "network_mode \<Rightarrow> nat" where
  "network_mode_rank Limited = 0"
| "network_mode_rank Full = 1"

fun mode_text :: "network_mode \<Rightarrow> string" where
  "mode_text Limited = ''Limited''"
| "mode_text Full = ''Full''"

subsection \<open>Settings against constraints\<close>

definition validate_domain_patterns :: "string \<Rightarrow> string list \<Rightarrow> (constraint_error, unit) result" where
  "validate_domain_patterns field patterns =
     (case List.find is_global_wildcard_domain_pattern patterns of
        Some p \<Rightarrow>
          Inl (InvalidValue field (ShownText (str_trim p))
            (ShownText ''exact hosts or scoped wildcards like *.example.com or **.example.com''))
      | None \<Rightarrow> Inr ())"

definition disabled_value :: "string \<Rightarrow> constraint_error" where
  "disabled_value field = InvalidValue field (ShownText ''true'') (ShownText ''false (disabled by managed config)'')"

definition validate_flag :: "string \<Rightarrow> bool option \<Rightarrow> bool \<Rightarrow> (constraint_error, unit) result" where
  "validate_flag field managed candidate =
     (case managed of
        Some allowed \<Rightarrow> if candidate \<and> \<not> allowed then Inl (disabled_value field) else Inr ()
      | None \<Rightarrow> Inr ())"

definition validate_mode :: "network_mode option \<Rightarrow> network_mode \<Rightarrow> (constraint_error, unit) result" where
  "validate_mode managed candidate =
     (case managed of
        Some max_mode \<Rightarrow>
          if network_mode_rank max_mode < network_mode_rank candidate
          then Inl (InvalidValue ''network.mode'' (ShownText (mode_text candidate))
                 (ShownText (mode_text max_mode @ '' or more restrictive'')))
          else Inr ()
      | None \<Rightarrow> Inr ())"

definition validate_all_unix_sockets :: "proxy_constraints \<Rightarrow> bool \<Rightarrow> (constraint_error, unit) result" where
  "validate_all_unix_sockets con candidate =
     (let allowed = (case con_all_unix_sockets con of Some b \<Rightarrow> b | None \<Rightarrow> con_unix_sockets con = None) in
      if candidate \<and> \<not> allowed then Inl (disabled_value ''network.dangerously_allow_all_unix_sockets'') else Inr ())"

definition lower_set :: "string list \<Rightarrow> string set" where
  "lower_set entries = to_ascii_lowercase ` set entries"

definition require_entries :: "string \<Rightarrow> string \<Rightarrow> string list \<Rightarrow> string list \<Rightarrow> (constraint_error, unit) result" where
  "require_entries field what managed candidate =
     (let missing = lower_set managed - lower_set candidate in
      if missing = {} then Inr () else Inl (InvalidValue field (ShownText what) (ShownSet missing)))"

definition require_same_entries :: "string \<Rightarrow> string \<Rightarrow> string list \<Rightarrow> string list \<Rightarrow> (constraint_error, unit) result" where
  "require_same_entries field what managed candidate =
     (if lower_set candidate = lower_set managed then Inr ()
      else Inl (InvalidValue field (ShownEntries candidate) (ShownText what)))"

definition validate_within_patterns ::
  "(string \<Rightarrow> string option) \<Rightarrow> string list \<Rightarrow> string list \<Rightarrow> (constraint_error, unit) result"
where
  "validate_within_patterns url_host managed candidate =
     (let managed_patterns = map (parse_for_constraints url_host) managed;
          invalid = filter (\<lambda>entry. \<not> list_ex (\<lambda>m. pattern_allows m (parse_for_constraints url_host entry)) managed_patterns) candidate
      in if invalid = [] then Inr ()
         else Inl (InvalidValue ''network.allowed_domains'' (ShownEntries invalid) (ShownText ''subset of managed allowed_domains'')))"

definition validate_allowed_domains ::
  "(string \<Rightarrow> string option) \<Rightarrow> proxy_constraints \<Rightarrow> string list \<Rightarrow> (constraint_error, unit) result"
where
  "validate_allowed_domains url_host con candidate =
     (case con_allowed_domains con of
        None \<Rightarrow> Inr ()
      | Some managed \<Rightarrow>
          (case validate_domain_patterns ''network.allowed_domains'' managed of
             Inl e \<Rightarrow> Inl e
           | Inr _ \<Rightarrow>
               (case con_allowlist_expansion con of
                  Some True \<Rightarrow>
                    require_entries ''network.allowed_domains'' ''missing managed allowed_domains entries'' managed candidate
                | Some False \<Rightarrow>
                    require_same_entries ''network.allowed_domains'' ''must match managed allowed_domains'' managed candidate
                | None \<Rightarrow> validate_within_patterns url_host managed candidate)))"

definition validate_denied_domains :: "proxy_constraints \<Rightarrow> string list \<Rightarrow> (constraint_error, unit) result" where
  "validate_denied_domains con candidate =
     (case con_denied_domains con of
        None \<Rightarrow> Inr ()
      | Some managed \<Rightarrow>
          (case validate_domain_patterns ''network.denied_domains'' managed of
             Inl e \<Rightarrow> Inl e
           | Inr _ \<Rightarrow>
               if con_denylist_expansion con = Some False
               then require_same_entries ''network.denied_domains'' ''must match managed denied_domains'' managed candidate
               else require_entries ''network.denied_domains'' ''missing managed denied_domains entries'' managed candidate))"

definition validate_unix_sockets :: "proxy_constraints \<Rightarrow> string list \<Rightarrow> (constraint_error, unit) result" where
  "validate_unix_sockets con candidate =
     (case con_unix_sockets con of
        None \<Rightarrow> Inr ()
      | Some managed \<Rightarrow>
          (let invalid = filter (\<lambda>entry. to_ascii_lowercase entry \<notin> lower_set managed) candidate in
           if invalid = [] then Inr ()
           else Inl (InvalidValue ''network.allow_unix_sockets'' (ShownEntries invalid)
                  (ShownText ''subset of managed allow_unix_sockets''))))"

text \<open>The checks are made one after the other, and the first that fails ends them.\<close>

fun all_checks :: "('e, unit) result list \<Rightarrow> ('e, unit) result" where
  "all_checks [] = Inr ()"
| "all_checks (c # cs) = (case c of Inl e \<Rightarrow> Inl e | Inr _ \<Rightarrow> all_checks cs)"

definition validate_policy_against_constraints ::
  "(string \<Rightarrow> string option) \<Rightarrow> proxy_settings \<Rightarrow> proxy_constraints \<Rightarrow> (constraint_error, unit) result"
where
  "validate_policy_against_constraints url_host cfg con =
     all_checks
       [validate_domain_patterns ''network.allowed_domains'' (set_allowed_domains cfg),
        validate_domain_patterns ''network.denied_domains'' (set_denied_domains cfg),
        validate_flag ''network.enabled'' (con_enabled con) (set_enabled cfg),
        validate_mode (con_mode con) (set_mode cfg),
        validate_flag ''network.allow_upstream_proxy'' (con_upstream_proxy con) (set_upstream_proxy cfg),
        validate_flag ''network.dangerously_allow_non_loopback_proxy'' (con_non_loopback_proxy con) (set_non_loopback_proxy cfg),
        validate_all_unix_sockets con (set_all_unix_sockets cfg),
        validate_flag ''network.allow_local_binding'' (con_local_binding con) (set_local_binding cfg),
        validate_allowed_domains url_host con (set_allowed_domains cfg),
        validate_denied_domains con (set_denied_domains cfg),
        validate_unix_sockets con (set_unix_sockets cfg)]"

subsection \<open>The compiled state\<close>

text \<open>On Unix a path is absolute when it starts with a slash, so the paths in the style of Unix on
  another system do not occur.\<close>

definition parse_socket_path :: "path_env \<Rightarrow> string \<Rightarrow> (path_error option, path) result" where
  "parse_socket_path env socket_path =
     (if is_absolute (path_components socket_path)
      then (case from_absolute_path env (path_components socket_path) of Inl e \<Rightarrow> Inl (Some e) | Inr p \<Rightarrow> Inr p)
      else Inl None)"

datatype build_error =
    InvalidSocketPath nat "path_error option"
  | ConstraintFailed constraint_error
  | GlobFailed glob_error
  | MitmFailed string

fun socket_paths_loop :: "path_env \<Rightarrow> nat \<Rightarrow> string list \<Rightarrow> (build_error, unit) result" where
  "socket_paths_loop env i [] = Inr ()"
| "socket_paths_loop env i (p # ps) =
     (case parse_socket_path env p of Inl e \<Rightarrow> Inl (InvalidSocketPath i e) | Inr _ \<Rightarrow> socket_paths_loop env (i + 1) ps)"

definition validate_unix_socket_allowlist_paths :: "path_env \<Rightarrow> proxy_settings \<Rightarrow> (build_error, unit) result" where
  "validate_unix_socket_allowlist_paths env cfg = socket_paths_loop env 0 (set_unix_sockets cfg)"

record config_state =
  st_config :: proxy_settings
  st_allow_set :: "string list"
  st_deny_set :: "string list"
  st_mitm :: bool
  st_constraints :: proxy_constraints
  st_blocked :: "blocked_request list"
  st_blocked_total :: nat

text \<open>What the proxy calls: the globs, the parser of hosts, the paths of the process, and the
  certificate authority for the inspection of encrypted traffic, which may not be had.\<close>

record proxy_libs =
  lib_globs :: glob_lib
  lib_url_host :: "string \<Rightarrow> string option"
  lib_paths :: path_env
  lib_new_mitm :: "bool \<Rightarrow> (string, unit) result"

definition build_config_state ::
  "proxy_libs \<Rightarrow> proxy_settings \<Rightarrow> proxy_constraints \<Rightarrow> (build_error, config_state) result"
where
  "build_config_state lib cfg con =
     (case all_checks
        [validate_unix_socket_allowlist_paths (lib_paths lib) cfg,
         map_sum ConstraintFailed id (validate_domain_patterns ''network.allowed_domains'' (set_allowed_domains cfg)),
         map_sum ConstraintFailed id (validate_domain_patterns ''network.denied_domains'' (set_denied_domains cfg))] of
        Inl e \<Rightarrow> Inl e
      | Inr _ \<Rightarrow>
          (case compile_globset (lib_globs lib) (set_denied_domains cfg) of
             Inl e \<Rightarrow> Inl (GlobFailed e)
           | Inr deny_set \<Rightarrow>
               (case compile_globset (lib_globs lib) (set_allowed_domains cfg) of
                  Inl e \<Rightarrow> Inl (GlobFailed e)
                | Inr allow_set \<Rightarrow>
                    (case (if set_mitm cfg then lib_new_mitm lib (set_upstream_proxy cfg) else Inr ()) of
                       Inl e \<Rightarrow> Inl (MitmFailed e)
                     | Inr _ \<Rightarrow>
                         Inr \<lparr>st_config = cfg, st_allow_set = allow_set, st_deny_set = deny_set, st_mitm = set_mitm cfg,
                              st_constraints = con, st_blocked = [], st_blocked_total = 0\<rparr>))))"

subsection \<open>What the checks mean\<close>

lemma all_checks_ok: "all_checks cs = Inr () \<longleftrightarrow> list_all (\<lambda>c. c = Inr ()) cs"
  by (induction cs) (auto split: sum.splits)

lemma validate_ok:
  "validate_policy_against_constraints url_host cfg con = Inr () \<longleftrightarrow>
     validate_domain_patterns ''network.allowed_domains'' (set_allowed_domains cfg) = Inr () \<and>
     validate_domain_patterns ''network.denied_domains'' (set_denied_domains cfg) = Inr () \<and>
     validate_flag ''network.enabled'' (con_enabled con) (set_enabled cfg) = Inr () \<and>
     validate_mode (con_mode con) (set_mode cfg) = Inr () \<and>
     validate_flag ''network.allow_upstream_proxy'' (con_upstream_proxy con) (set_upstream_proxy cfg) = Inr () \<and>
     validate_flag ''network.dangerously_allow_non_loopback_proxy'' (con_non_loopback_proxy con) (set_non_loopback_proxy cfg) = Inr () \<and>
     validate_all_unix_sockets con (set_all_unix_sockets cfg) = Inr () \<and>
     validate_flag ''network.allow_local_binding'' (con_local_binding con) (set_local_binding cfg) = Inr () \<and>
     validate_allowed_domains url_host con (set_allowed_domains cfg) = Inr () \<and>
     validate_denied_domains con (set_denied_domains cfg) = Inr () \<and>
     validate_unix_sockets con (set_unix_sockets cfg) = Inr ()"
  by (simp add: validate_policy_against_constraints_def all_checks_ok del: all_checks.simps)

text \<open>Only the check of the mode looks at the mode.\<close>

lemma validate_other_mode:
  assumes "validate_policy_against_constraints url_host cfg con = Inr ()"
    and "validate_policy_against_constraints url_host (cfg'\<lparr>set_mode := m\<rparr>) con = Inr ()"
  shows "validate_policy_against_constraints url_host (cfg\<lparr>set_mode := m\<rparr>) con = Inr ()"
  using assms unfolding validate_ok by simp

lemma within_patterns_ok:
  "validate_within_patterns url_host managed candidate = Inr () \<longleftrightarrow>
     (\<forall>entry \<in> set candidate. \<exists>m \<in> set managed.
        pattern_allows (parse_for_constraints url_host m) (parse_for_constraints url_host entry))"
  by (auto simp: validate_within_patterns_def filter_empty_conv list_ex_iff)

text \<open>An entry that the \<^verbatim>\<open>url\<close> library leaves as it is.\<close>

definition canonical_entry :: "(string \<Rightarrow> string option) \<Rightarrow> string \<Rightarrow> bool" where
  "canonical_entry url_host entry =
     (plain_pattern entry \<and> domain_wf (pattern_domain (parse_pattern_text (normalize_pattern entry))) \<and>
      parse_for_constraints url_host entry = parse_pattern_text (normalize_pattern entry))"

text \<open>C17: Accepted settings reach no further than a managed list of allowed domains that is an upper bound.
  The constraints have such a list and say nothing about its expansion (with \<open>Some True\<close> it is a
  lower bound instead), and the entries of both lists are canonical: plain domains, with or without a leading
  wildcard, that the \<^verbatim>\<open>url\<close> library leaves as they are, which IPv6 addresses are not.  Then
  every host that the compiled settings allow is covered by an entry of the managed list.\<close>

theorem managed_allowlist_is_not_exceeded:
  assumes "validate_policy_against_constraints (lib_url_host lib) cfg con = Inr ()"
    and "con_allowed_domains con = Some managed" and "con_allowlist_expansion con = None"
    and "compile_globset (lib_globs lib) (set_allowed_domains cfg) = Inr allow_set" and "glob_laws (lib_globs lib)"
    and "list_all (canonical_entry (lib_url_host lib)) (set_allowed_domains cfg)"
    and "list_all (canonical_entry (lib_url_host lib)) managed"
    and "domain_wf host" and "globset_is_match (lib_globs lib) allow_set host"
  shows "list_ex (\<lambda>m. covers (parse_pattern_text (normalize_pattern m)) host) managed"
proof -
  let ?p = "\<lambda>e. parse_pattern_text (normalize_pattern e)"
  have lower: "to_ascii_lowercase host = host"
    using domain_wf_normalised [OF assms(8)] by (simp add: normalised_iff)
  have "list_all plain_pattern (set_allowed_domains cfg)" using assms(6) by (auto simp: canonical_entry_def list_all_iff)
  from globset_covers [OF assms(4,5) this] assms(9) obtain entry
    where entry: "entry \<in> set (set_allowed_domains cfg)" "covers (?p entry) host"
    by (auto simp: list_ex_iff lower)
  have "validate_within_patterns (lib_url_host lib) managed (set_allowed_domains cfg) = Inr ()"
    using assms(1-3) by (auto simp: validate_ok validate_allowed_domains_def split: sum.splits)
  with entry(1) obtain m where m: "m \<in> set managed"
    "pattern_allows (parse_for_constraints (lib_url_host lib) m) (parse_for_constraints (lib_url_host lib) entry)"
    by (auto simp: within_patterns_ok)
  have "pattern_allows (?p m) (?p entry)" "domain_wf (pattern_domain (?p m))" "domain_wf (pattern_domain (?p entry))"
    using m entry(1) assms(6,7) by (auto simp: canonical_entry_def list_all_iff)
  with pattern_containment [of "?p m" "?p entry"] entry(2) assms(8) have "covers (?p m) host" by blast
  with m(1) show ?thesis by (auto simp: list_ex_iff)
qed

definition is_ascii_hexdigit :: "char \<Rightarrow> bool" where
  "is_ascii_hexdigit c = (to_digit 16 c \<noteq> None)"

subsection \<open>An example\<close>

definition sample_globs :: glob_lib where
  "sample_globs =
     \<lparr>glob_builds = (\<lambda>_. True), globset_builds = (\<lambda>_. True),
      glob_matches = (\<lambda>g host. if prefix ''?*.'' g then below (to_ascii_lowercase (drop 3 g)) (to_ascii_lowercase host)
                               else to_ascii_lowercase host = to_ascii_lowercase g)\<rparr>"

lemma sample_glob_laws: "glob_laws sample_globs"
proof -
  have "\<not> prefix ''?*.'' domain" if "plain_domain domain" for domain
    using that by (cases domain) (auto simp: plain_domain_def)
  then show ?thesis by (simp add: glob_laws_def sample_globs_def)
qed

definition sample_libs :: proxy_libs where
  "sample_libs = \<lparr>lib_globs = sample_globs, lib_url_host = Some, lib_paths = \<lparr>home_dir = None, process_dir = None\<rparr>,
     lib_new_mitm = (\<lambda>_. Inr ())\<rparr>"

definition sample_settings :: proxy_settings where
  "sample_settings = default_proxy_settings\<lparr>set_enabled := True, set_allowed_domains := [''*.example.com''],
     set_denied_domains := [''bad.example.com'']\<rparr>"

definition sample_constraints :: proxy_constraints where
  "sample_constraints = no_constraints\<lparr>con_allowed_domains := Some [''**.example.com'']\<rparr>"

lemma sample_trims:
  "str_trim ''*.example.com'' = ''*.example.com''" "str_trim ''**.example.com'' = ''**.example.com''"
  "str_trim ''example.com'' = ''example.com''" "str_trim ''bad.example.com'' = ''bad.example.com''"
  by code_simp+

lemmas host_eval = normalize_host_def normalize_dns_host_def normalize_pattern_def parse_pattern_text_def parse_domain_def
  parse_for_constraints_def parse_domain_for_constraints_def strip_prefix_def trim_end_char_def to_ascii_lowercase_def ascii_lower_def

lemma sample_patterns:
  "parse_pattern_text (normalize_pattern ''*.example.com'') = SubdomainsOnly ''example.com''"
  "parse_pattern_text (normalize_pattern ''**.example.com'') = ApexAndSubdomains ''example.com''"
  "parse_pattern_text (normalize_pattern ''bad.example.com'') = Exact ''bad.example.com''"
  "parse_for_constraints Some ''*.example.com'' = SubdomainsOnly ''example.com''"
  "parse_for_constraints Some ''**.example.com'' = ApexAndSubdomains ''example.com''"
  by (simp_all add: host_eval sample_trims)

lemma sample_wf: "domain_wf ''example.com''" "domain_wf ''a.example.com''"
  by (simp_all add: domain_wf_def normalize_domain_def host_eval)

lemma sample_canonical: "canonical_entry Some ''*.example.com''" "canonical_entry Some ''**.example.com''"
  by (simp_all add: canonical_entry_def plain_pattern_def sample_patterns plain_domain_def sample_wf
      to_ascii_lowercase_def ascii_lower_def)

lemma sample_not_global:
  "\<not> is_global_wildcard_domain_pattern ''*.example.com''" "\<not> is_global_wildcard_domain_pattern ''**.example.com''"
  "\<not> is_global_wildcard_domain_pattern ''bad.example.com''"
  by (simp_all add: is_global_wildcard_domain_pattern_def expand_domain_pattern_def sample_patterns)

lemma sample_globsets:
  "compile_globset sample_globs [''*.example.com''] = Inr [''?*.example.com'']"
  "compile_globset sample_globs [''bad.example.com''] = Inr [''bad.example.com'']"
  by (simp_all add: compile_globset_def sample_not_global expand_domain_pattern_def sample_patterns sample_globs_def)

lemma sample_valid: "validate_policy_against_constraints Some sample_settings sample_constraints = Inr ()"
  by (simp add: validate_ok sample_settings_def sample_constraints_def no_constraints_def default_proxy_settings_def
      validate_domain_patterns_def sample_not_global validate_flag_def validate_mode_def validate_all_unix_sockets_def
      validate_allowed_domains_def validate_within_patterns_def sample_patterns is_subdomain_or_equal_def
      validate_denied_domains_def validate_unix_sockets_def)

theorem managed_allowlist_is_not_exceeded_witness:
  "list_ex (\<lambda>m. covers (parse_pattern_text (normalize_pattern m)) ''a.example.com'') [''**.example.com'']"
proof (rule managed_allowlist_is_not_exceeded)
  show "validate_policy_against_constraints (lib_url_host sample_libs) sample_settings sample_constraints = Inr ()"
    by (simp add: sample_libs_def sample_valid)
  show "con_allowed_domains sample_constraints = Some [''**.example.com'']" "con_allowlist_expansion sample_constraints = None"
    by (simp_all add: sample_constraints_def no_constraints_def)
  show "compile_globset (lib_globs sample_libs) (set_allowed_domains sample_settings) = Inr [''?*.example.com'']"
    by (simp add: sample_libs_def sample_settings_def sample_globsets)
  show "glob_laws (lib_globs sample_libs)" by (simp add: sample_libs_def sample_glob_laws)
  show "list_all (canonical_entry (lib_url_host sample_libs)) (set_allowed_domains sample_settings)"
    "list_all (canonical_entry (lib_url_host sample_libs)) [''**.example.com'']"
    by (simp_all add: sample_libs_def sample_settings_def sample_canonical)
  show "domain_wf ''a.example.com''" by (rule sample_wf)
  show "globset_is_match (lib_globs sample_libs) [''?*.example.com''] ''a.example.com''"
    by (simp add: globset_is_match_def sample_libs_def sample_globs_def below_def host_eval suffix_Cons)
qed

subsection \<open>Hosts that cannot be parsed\<close>

definition ipv6_text :: "string \<Rightarrow> bool" where
  "ipv6_text a = (CHR '':'' \<in> set a \<and> list_all (\<lambda>c. c = CHR '':'' \<or> is_ascii_hexdigit c) a)"

lemma not_ipv6_chars: "\<not> is_ascii_hexdigit (CHR ''*'')" "\<not> is_ascii_hexdigit (CHR ''?'')" "\<not> is_ascii_hexdigit (CHR ''%'')"
  "\<not> is_ascii_hexdigit (CHR ''['')"
  by (simp_all add: is_ascii_hexdigit_def to_digit_def)

lemma ipv6_text_chars:
  assumes "ipv6_text a"
  shows "CHR ''*'' \<notin> set a" "CHR ''?'' \<notin> set a" "CHR ''%'' \<notin> set a" "a \<noteq> []" "hd a \<noteq> CHR ''[''"
proof -
  have all: "c = CHR '':'' \<or> is_ascii_hexdigit c" if "c \<in> set a" for c using assms that by (auto simp: ipv6_text_def list_all_iff)
  show "CHR ''*'' \<notin> set a" "CHR ''?'' \<notin> set a" "CHR ''%'' \<notin> set a" using all not_ipv6_chars by fastforce+
  show "a \<noteq> []" using assms by (auto simp: ipv6_text_def)
  then show "hd a \<noteq> CHR ''[''" using all [of "hd a"] not_ipv6_chars by auto
qed

lemma bracketed_trim: "str_trim (CHR ''['' # a @ '']'') = CHR ''['' # a @ '']''"
  by (rule str_trim_visible_ends) (simp_all add: ws_bytes_def ws_units_def)

lemma bracketed_for_constraints:
  assumes "\<forall>h. CHR '':'' \<in> set h \<longrightarrow> hd h \<noteq> CHR ''['' \<longrightarrow> url_host h = None" and "ipv6_text a"
  shows "parse_for_constraints url_host (CHR ''['' # a @ '']'') = Exact []"
proof -
  have "trim_end_char (CHR ''.'') (CHR ''['' # a @ '']'') = CHR ''['' # a @ '']''" by (simp add: trim_end_char_id)
  moreover have "url_host a = None" using assms ipv6_text_chars(5) by (simp add: ipv6_text_def)
  ultimately show ?thesis
    using ipv6_text_chars [OF assms(2)]
    by (simp add: parse_for_constraints_def parse_domain_for_constraints_def bracketed_trim strip_prefix_def suffix_def butlast_append)
qed

lemma no_star_not_global:
  assumes "CHR ''*'' \<notin> set (normalize_pattern p)"
  shows "\<not> is_global_wildcard_domain_pattern p"
proof -
  let ?input = "str_trim (normalize_pattern p)"
  have star: "CHR ''*'' \<notin> set ?input" using assms str_trim_subset [of "normalize_pattern p"] by blast
  then have "strip_prefix ''**.'' ?input = None" "strip_prefix ''*.'' ?input = None"
    by (auto simp: strip_prefix_def prefix_def)
  then have "parse_pattern_text (normalize_pattern p) = Exact ?input" by (simp add: parse_pattern_text_def Let_def)
  with star show ?thesis by (auto simp: is_global_wildcard_domain_pattern_def expand_domain_pattern_def)
qed

lemma bracketed_not_global:
  assumes "ipv6_text a"
  shows "\<not> is_global_wildcard_domain_pattern (CHR ''['' # a @ '']'')"
proof (rule no_star_not_global)
  have "normalize_pattern (CHR ''['' # a @ '']'') = normalize_host (CHR ''['' # a @ '']'')"
    by (simp add: normalize_pattern_def bracketed_trim strip_prefix_def)
  also have "\<dots> = normalize_dns_host (takeWhile (\<lambda>c. c \<noteq> CHR '']'') a)"
  proof (cases "CHR '']'' \<in> set a")
    case True
    then show ?thesis by (simp add: normalize_host_def bracketed_trim split_once_def takeWhile_append1)
  next
    case False
    then have inside: "takeWhile (\<lambda>c. c \<noteq> CHR '']'') a = a" by (auto simp: takeWhile_eq_all_conv)
    show ?thesis using False by (simp add: normalize_host_def bracketed_trim split_once_def takeWhile_append inside)
  qed
  finally show "CHR ''*'' \<notin> set (normalize_pattern (CHR ''['' # a @ '']''))"
    using ipv6_text_chars(1) [OF assms] trim_end_char_subset in_lowercase [of "CHR ''*''"]
    by (auto simp: normalize_dns_host_def dest!: set_takeWhileD subsetD [OF trim_end_char_subset])
qed

text \<open>C19: Hosts that the \<^verbatim>\<open>url\<close> library rejects are all the same to the constraints.  It takes addresses of
  version 6 only in brackets, which are removed before it is called, so a managed list with one
  such address lets the user allow any other.\<close>

theorem ipv6_entries_allow_each_other:
  assumes "\<forall>h. CHR '':'' \<in> set h \<longrightarrow> hd h \<noteq> CHR ''['' \<longrightarrow> url_host h = None" and "ipv6_text a" and "ipv6_text b"
  shows "validate_allowed_domains url_host (no_constraints\<lparr>con_allowed_domains := Some [CHR ''['' # a @ '']'']\<rparr>) [CHR ''['' # b @ '']''] = Inr ()"
  using bracketed_for_constraints [OF assms(1)] assms(2,3) bracketed_not_global
  by (simp add: validate_allowed_domains_def no_constraints_def validate_domain_patterns_def validate_within_patterns_def domain_eq_def)

theorem ipv6_entries_allow_each_other_witness:
  "validate_allowed_domains (\<lambda>h. if CHR '':'' \<in> set h \<and> hd h \<noteq> CHR ''['' then None else Some h)
     (no_constraints\<lparr>con_allowed_domains := Some [''[::1]'']\<rparr>) [''[2001:db8::1]''] = Inr ()"
  using ipv6_entries_allow_each_other [of "\<lambda>h. if CHR '':'' \<in> set h \<and> hd h \<noteq> CHR ''['' then None else Some h" "''::1''" "''2001:db8::1''"]
  by (simp add: ipv6_text_def is_ascii_hexdigit_def to_digit_def)

end
