(* ===== verification/Proxy_State.thy ===== *)
theory Proxy_State
  imports Proxy_Config
begin

section \<open>The state of the network proxy\<close>

text \<open>
  A model of \<^verbatim>\<open>codex-rs/network-proxy/src/runtime.rs\<close> and of how
  \<^verbatim>\<open>codex-rs/core/src/network_proxy_loader.rs\<close> loads its configuration: which hosts are blocked, the
  buffer of blocked requests, and the changes of the mode and of the lists while the proxy runs.
  The operations are tasks that interleave wherever the code gives up the lock of the state; the
  domain name service and the files of the configuration answer as they like.
\<close>

subsection \<open>Which hosts are blocked\<close>

datatype host_block_reason = BlockDenied | BlockNotAllowed | BlockNotAllowedLocal

fun block_reason_text :: "host_block_reason \<Rightarrow> string" where
  "block_reason_text BlockDenied = ''denied''"
| "block_reason_text BlockNotAllowed = ''not_allowed''"
| "block_reason_text BlockNotAllowedLocal = ''not_allowed_local''"

datatype host_block_decision = HostAllowed | HostBlocked host_block_reason

definition local_literal :: "string \<Rightarrow> bool" where
  "local_literal host =
     (if is_loopback_host host then True
      else (case parse_ip_addr (without_scope host) of Some ip \<Rightarrow> is_non_public_ip ip | None \<Rightarrow> False))"

type_synonym dns = "string \<Rightarrow> nat \<Rightarrow> ip_addr list option"

definition host_resolves_to_non_public_ip :: "dns \<Rightarrow> string \<Rightarrow> nat \<Rightarrow> bool" where
  "host_resolves_to_non_public_ip lookup_host host port =
     (case parse_ip_addr host of
        Some ip \<Rightarrow> is_non_public_ip ip
      | None \<Rightarrow>
          (case lookup_host host port of
             None \<Rightarrow> False
           | Some addrs \<Rightarrow> list_ex is_non_public_ip addrs))"

definition is_explicit_local_allowlisted :: "string list \<Rightarrow> string \<Rightarrow> bool" where
  "is_explicit_local_allowlisted allowed_domains host =
     list_ex (\<lambda>pattern.
       (let pattern = str_trim pattern in
        if pattern = ''*'' \<or> prefix ''*.'' pattern \<or> prefix ''**.'' pattern then False
        else if CHR ''*'' \<in> set pattern \<or> CHR ''?'' \<in> set pattern then False
        else normalize_host pattern = host)) allowed_domains"

definition host_blocked :: "proxy_libs \<Rightarrow> dns \<Rightarrow> config_state \<Rightarrow> string \<Rightarrow> nat \<Rightarrow> host_block_decision" where
  "host_blocked lib lookup_host st raw port =
     (case parse_host raw of
        None \<Rightarrow> HostBlocked BlockNotAllowed
      | Some host \<Rightarrow>
          (let cfg = st_config st;
               is_allowlisted = globset_is_match (lib_globs lib) (st_allow_set st) host
           in if globset_is_match (lib_globs lib) (st_deny_set st) host then HostBlocked BlockDenied
              else if \<not> set_local_binding cfg \<and>
                      (if local_literal host then \<not> is_explicit_local_allowlisted (set_allowed_domains cfg) host
                       else host_resolves_to_non_public_ip lookup_host host port)
              then HostBlocked BlockNotAllowedLocal
              else if set_allowed_domains cfg = [] \<or> \<not> is_allowlisted then HostBlocked BlockNotAllowed
              else HostAllowed))"

subsection \<open>Blocked requests\<close>

definition MAX_BLOCKED_EVENTS :: nat where
  "MAX_BLOCKED_EVENTS = 200"

fun pop_front_loop :: "'a list \<Rightarrow> 'a list" where
  "pop_front_loop [] = []"
| "pop_front_loop (b # bs) = (if MAX_BLOCKED_EVENTS < length (b # bs) then pop_front_loop bs else b # bs)"

definition u64_max :: nat where
  "u64_max = 2 ^ 64 - 1"

definition push_blocked :: "blocked_request \<Rightarrow> config_state \<Rightarrow> config_state" where
  "push_blocked entry st =
     st\<lparr>st_blocked := pop_front_loop (st_blocked st @ [entry]),
        st_blocked_total := min u64_max (st_blocked_total st + 1)\<rparr>"

subsection \<open>Loading and changing the configuration\<close>

text \<open>What the loader does with the settings and constraints that it has read from the files.\<close>

definition load_state :: "proxy_libs \<Rightarrow> proxy_settings \<Rightarrow> proxy_constraints \<Rightarrow> (build_error, config_state) result" where
  "load_state lib cfg con =
     (case validate_policy_against_constraints (lib_url_host lib) cfg con of
        Inl e \<Rightarrow> Inl (ConstraintFailed e)
      | Inr _ \<Rightarrow> build_config_state lib cfg con)"

datatype domain_list_kind = AllowList | DenyList

definition target_entries :: "domain_list_kind \<Rightarrow> proxy_settings \<Rightarrow> string list" where
  "target_entries kind cfg = (case kind of AllowList \<Rightarrow> set_allowed_domains cfg | DenyList \<Rightarrow> set_denied_domains cfg)"

definition opposite_entries :: "domain_list_kind \<Rightarrow> proxy_settings \<Rightarrow> string list" where
  "opposite_entries kind cfg = (case kind of AllowList \<Rightarrow> set_denied_domains cfg | DenyList \<Rightarrow> set_allowed_domains cfg)"

definition entries_contain :: "string \<Rightarrow> string list \<Rightarrow> bool" where
  "entries_contain host entries = list_ex (\<lambda>entry. normalize_host entry = host) entries"

definition with_domain :: "domain_list_kind \<Rightarrow> string \<Rightarrow> proxy_settings \<Rightarrow> proxy_settings" where
  "with_domain kind host cfg =
     (let keep = filter (\<lambda>entry. normalize_host entry \<noteq> host);
          target = keep (target_entries kind cfg) @ [host];
          opposite = keep (opposite_entries kind cfg)
      in case kind of
           AllowList \<Rightarrow> cfg\<lparr>set_allowed_domains := target, set_denied_domains := opposite\<rparr>
         | DenyList \<Rightarrow> cfg\<lparr>set_denied_domains := target, set_allowed_domains := opposite\<rparr>)"

subsection \<open>Operations as tasks\<close>

datatype proxy_op =
    RecordBlocked blocked_request
  | DrainBlocked
  | SetNetworkMode network_mode
  | UpdateDomainList string domain_list_kind
  | ForceReload

text \<open>Where a task is: before the configuration has been looked at, with a new state that was loaded,
  with the buffer copied into it, after the reload, with the constraints under which a mode was
  found valid, with an updated state and what it was made from, and with a state loaded by force.\<close>

datatype proxy_pc =
    Begin
  | Loaded config_state
  | Merged config_state
  | Current
  | ModeChecked proxy_constraints
  | Built proxy_settings proxy_constraints config_state
  | Forced config_state
  | Completed
  | Failed

record proxy_task =
  op :: proxy_op
  pc :: proxy_pc

datatype reload_outcome = ReloadFails | NothingNew | ReadsFiles proxy_settings proxy_constraints

text \<open>The host of an update is looked at before anything else.\<close>

definition names_no_host :: "proxy_op \<Rightarrow> bool" where
  "names_no_host oper = (case oper of UpdateDomainList raw _ \<Rightarrow> parse_host raw = None | _ \<Rightarrow> False)"

definition after_reload :: "proxy_libs \<Rightarrow> proxy_op \<Rightarrow> reload_outcome \<Rightarrow> proxy_pc option" where
  "after_reload lib oper outcome =
     (case outcome of
        ReloadFails \<Rightarrow> Some Failed
      | NothingNew \<Rightarrow> if oper = ForceReload then None else Some Current
      | ReadsFiles cfg con \<Rightarrow>
          (case load_state lib cfg con of
             Inl _ \<Rightarrow> Some Failed
           | Inr s \<Rightarrow> Some (if oper = ForceReload then Forced s else Loaded s)))"

definition perform_op :: "proxy_libs \<Rightarrow> proxy_op \<Rightarrow> config_state \<Rightarrow> proxy_pc \<times> config_state" where
  "perform_op lib oper st =
     (case oper of
        RecordBlocked entry \<Rightarrow> (Completed, push_blocked entry st)
      | DrainBlocked \<Rightarrow> (Completed, st\<lparr>st_blocked := []\<rparr>)
      | SetNetworkMode mode \<Rightarrow>
          (case validate_policy_against_constraints (lib_url_host lib) ((st_config st)\<lparr>set_mode := mode\<rparr>) (st_constraints st) of
             Inl _ \<Rightarrow> (Failed, st)
           | Inr _ \<Rightarrow> (ModeChecked (st_constraints st), st))
      | UpdateDomainList raw kind \<Rightarrow>
          (case parse_host raw of
             None \<Rightarrow> (Failed, st)
           | Some host \<Rightarrow>
               if entries_contain host (target_entries kind (st_config st)) \<and>
                  \<not> entries_contain host (opposite_entries kind (st_config st))
               then (Completed, st)
               else (let candidate = with_domain kind host (st_config st) in
                     case validate_policy_against_constraints (lib_url_host lib) candidate (st_constraints st) of
                       Inl _ \<Rightarrow> (Failed, st)
                     | Inr _ \<Rightarrow>
                         (case build_config_state lib candidate (st_constraints st) of
                            Inl _ \<Rightarrow> (Failed, st)
                          | Inr new_state \<Rightarrow>
                              (Built (st_config st) (st_constraints st)
                                 (new_state\<lparr>st_blocked := st_blocked st, st_blocked_total := st_blocked_total st\<rparr>), st))))
      | ForceReload \<Rightarrow> (Completed, st))"

definition task_step :: "proxy_libs \<Rightarrow> reload_outcome \<Rightarrow> proxy_task \<Rightarrow> config_state \<Rightarrow> (proxy_pc \<times> config_state) option" where
  "task_step lib outcome t st =
     (case pc t of
        Begin \<Rightarrow>
          if names_no_host (op t) then Some (Failed, st)
          else map_option (\<lambda>p. (p, st)) (after_reload lib (op t) outcome)
      | Loaded s \<Rightarrow> Some (Merged (s\<lparr>st_blocked := st_blocked st, st_blocked_total := st_blocked_total st\<rparr>), st)
      | Merged s \<Rightarrow> Some (Current, s)
      | Current \<Rightarrow> Some (perform_op lib (op t) st)
      | ModeChecked con \<Rightarrow>
          (case op t of
             SetNetworkMode mode \<Rightarrow>
               if st_constraints st \<noteq> con then Some (Begin, st)
               else Some (Completed, st\<lparr>st_config := (st_config st)\<lparr>set_mode := mode\<rparr>\<rparr>)
           | _ \<Rightarrow> None)
      | Built previous con new_state \<Rightarrow>
          if st_constraints st \<noteq> con \<or> st_config st \<noteq> previous then Some (Begin, st) else Some (Completed, new_state)
      | Forced s \<Rightarrow> Some (Completed, s\<lparr>st_blocked := st_blocked st\<rparr>)
      | Completed \<Rightarrow> None
      | Failed \<Rightarrow> None)"

record proxy =
  proxy_state :: config_state
  proxy_tasks :: "proxy_task list"

inductive proxy_step :: "proxy_libs \<Rightarrow> proxy \<Rightarrow> proxy \<Rightarrow> bool" for lib where
  calls: "proxy_step lib p (p\<lparr>proxy_tasks := proxy_tasks p @ [\<lparr>op = oper, pc = Begin\<rparr>]\<rparr>)"
| advances: "i < length (proxy_tasks p) \<Longrightarrow> task_step lib outcome (proxy_tasks p ! i) (proxy_state p) = Some (q, st) \<Longrightarrow>
    proxy_step lib p \<lparr>proxy_state = st, proxy_tasks = (proxy_tasks p)[i := (proxy_tasks p ! i)\<lparr>pc := q\<rparr>]\<rparr>"

inductive proxy_reachable :: "proxy_libs \<Rightarrow> proxy \<Rightarrow> bool" for lib where
  starts: "load_state lib cfg con = Inr st \<Longrightarrow> proxy_reachable lib \<lparr>proxy_state = st, proxy_tasks = []\<rparr>"
| goes_on: "proxy_reachable lib p \<Longrightarrow> proxy_step lib p p' \<Longrightarrow> proxy_reachable lib p'"

subsection \<open>The configuration stays within its constraints\<close>

definition state_ok :: "proxy_libs \<Rightarrow> config_state \<Rightarrow> bool" where
  "state_ok lib st =
     (validate_policy_against_constraints (lib_url_host lib) (st_config st) (st_constraints st) = Inr () \<and>
      compile_globset (lib_globs lib) (set_allowed_domains (st_config st)) = Inr (st_allow_set st) \<and>
      compile_globset (lib_globs lib) (set_denied_domains (st_config st)) = Inr (st_deny_set st) \<and>
      length (st_blocked st) \<le> MAX_BLOCKED_EVENTS)"

definition pc_ok :: "proxy_libs \<Rightarrow> proxy_op \<Rightarrow> proxy_pc \<Rightarrow> bool" where
  "pc_ok lib oper p =
     (case p of
        Loaded s \<Rightarrow> state_ok lib s
      | Merged s \<Rightarrow> state_ok lib s
      | Forced s \<Rightarrow> state_ok lib s
      | Built _ _ s \<Rightarrow> state_ok lib s
      | ModeChecked con \<Rightarrow>
          (\<forall>mode. oper = SetNetworkMode mode \<longrightarrow>
             (\<exists>cfg. validate_policy_against_constraints (lib_url_host lib) (cfg\<lparr>set_mode := mode\<rparr>) con = Inr ()))
      | _ \<Rightarrow> True)"

lemma pop_front_length: "length (pop_front_loop bs) \<le> MAX_BLOCKED_EVENTS"
  by (induction bs) auto

lemma build_config_state_Inr:
  "build_config_state lib cfg con = Inr st \<Longrightarrow>
     st_config st = cfg \<and> st_constraints st = con \<and> st_blocked st = [] \<and> st_blocked_total st = 0 \<and>
     compile_globset (lib_globs lib) (set_allowed_domains cfg) = Inr (st_allow_set st) \<and>
     compile_globset (lib_globs lib) (set_denied_domains cfg) = Inr (st_deny_set st)"
  by (auto simp: build_config_state_def split: sum.splits)

lemma built_ok:
  assumes "validate_policy_against_constraints (lib_url_host lib) cfg con = Inr ()" and "build_config_state lib cfg con = Inr st"
  shows "state_ok lib st"
  using build_config_state_Inr [OF assms(2)] assms(1) by (simp add: state_ok_def)

lemma load_state_ok: "load_state lib cfg con = Inr st \<Longrightarrow> state_ok lib st"
  by (auto simp: load_state_def split: sum.splits intro: built_ok)

lemma state_ok_blocked:
  "state_ok lib st \<Longrightarrow> length bs \<le> MAX_BLOCKED_EVENTS \<Longrightarrow> state_ok lib (st\<lparr>st_blocked := bs\<rparr>)"
  "state_ok lib (st\<lparr>st_blocked_total := n\<rparr>) = state_ok lib st"
  by (simp_all add: state_ok_def)

lemma state_ok_mode:
  assumes "state_ok lib st"
    and "validate_policy_against_constraints (lib_url_host lib) (cfg\<lparr>set_mode := mode\<rparr>) (st_constraints st) = Inr ()"
  shows "state_ok lib (st\<lparr>st_config := (st_config st)\<lparr>set_mode := mode\<rparr>\<rparr>)"
  using assms validate_other_mode by (auto simp: state_ok_def)

lemma perform_op_ok:
  assumes "state_ok lib st" and "perform_op lib oper st = (q, st')"
  shows "state_ok lib st' \<and> pc_ok lib oper q"
proof -
  from assms(1) have len: "length (st_blocked st) \<le> MAX_BLOCKED_EVENTS" by (simp add: state_ok_def)
  show ?thesis
  proof (cases oper)
    case (RecordBlocked entry)
    with assms state_ok_blocked(1) [OF assms(1) pop_front_length] show ?thesis
      by (auto simp: perform_op_def push_blocked_def pc_ok_def state_ok_blocked(2))
  next
    case (UpdateDomainList raw kind)
    with assms len built_ok show ?thesis
      by (auto simp: perform_op_def pc_ok_def Let_def state_ok_blocked split: option.splits if_splits sum.splits)
  next
    case (SetNetworkMode mode)
    with assms show ?thesis by (auto simp: perform_op_def pc_ok_def split: sum.splits)
  qed (use assms in \<open>auto simp: perform_op_def pc_ok_def state_ok_blocked\<close>)
qed

lemma task_step_ok:
  assumes "state_ok lib st" and "pc_ok lib (op t) (pc t)" and "task_step lib outcome t st = Some (q, st')"
  shows "state_ok lib st' \<and> pc_ok lib (op t) q"
proof (cases "pc t")
  case Begin
  with assms load_state_ok show ?thesis
    by (auto simp: task_step_def after_reload_def pc_ok_def split: if_splits reload_outcome.splits sum.splits)
next
  case (Loaded s)
  with assms show ?thesis by (auto simp: task_step_def pc_ok_def state_ok_blocked intro!: state_ok_blocked(1)) (simp_all add: state_ok_def)
next
  case (Merged s)
  with assms show ?thesis by (auto simp: task_step_def pc_ok_def)
next
  case Current
  with assms perform_op_ok show ?thesis by (auto simp: task_step_def)
next
  case (ModeChecked con)
  with assms state_ok_mode show ?thesis by (auto simp: task_step_def pc_ok_def split: proxy_op.splits if_splits)
next
  case (Built previous con s)
  with assms show ?thesis by (auto simp: task_step_def pc_ok_def split: if_splits)
next
  case (Forced s)
  with assms show ?thesis by (auto simp: task_step_def pc_ok_def intro!: state_ok_blocked(1)) (simp_all add: state_ok_def)
qed (use assms in \<open>simp_all add: task_step_def\<close>)

lemma proxy_reachable_ok:
  "proxy_reachable lib p \<Longrightarrow> state_ok lib (proxy_state p) \<and> (\<forall>t \<in> set (proxy_tasks p). pc_ok lib (op t) (pc t))"
proof (induction rule: proxy_reachable.induct)
  case (starts cfg con st)
  then show ?case by (simp add: load_state_ok)
next
  case (goes_on p p')
  from goes_on.hyps(2) goes_on.IH show ?case
  proof (cases rule: proxy_step.cases)
    case (calls oper)
    with goes_on.IH show ?thesis by (auto simp: pc_ok_def)
  next
    case (advances i outcome q st)
    with goes_on.IH task_step_ok [of lib "proxy_state p" "proxy_tasks p ! i"] nth_mem [of i "proxy_tasks p"]
    show ?thesis by (auto dest!: set_update_subset_insert [THEN subsetD])
  qed
qed
text \<open>C11: However changes of the mode, changes of the lists and reloads interleave, the configuration in
  force satisfies the constraints in force, the compiled patterns are those of its lists, and at
  most two hundred blocked requests are kept.\<close>

theorem constraints_hold_while_running:
  assumes "proxy_reachable lib p"
  shows "validate_policy_against_constraints (lib_url_host lib) (st_config (proxy_state p)) (st_constraints (proxy_state p)) = Inr () \<and>
    compile_globset (lib_globs lib) (set_allowed_domains (st_config (proxy_state p))) = Inr (st_allow_set (proxy_state p)) \<and>
    compile_globset (lib_globs lib) (set_denied_domains (st_config (proxy_state p))) = Inr (st_deny_set (proxy_state p)) \<and>
    length (st_blocked (proxy_state p)) \<le> 200"
  using proxy_reachable_ok [OF assms] by (simp add: state_ok_def MAX_BLOCKED_EVENTS_def)

subsection \<open>Updates of the lists\<close>

text \<open>A task that runs alone while the files do not change.\<close>

fun run_alone :: "nat \<Rightarrow> proxy_libs \<Rightarrow> proxy_task \<Rightarrow> config_state \<Rightarrow> proxy_task \<times> config_state" where
  "run_alone 0 lib t st = (t, st)"
| "run_alone (Suc n) lib t st =
     (case task_step lib NothingNew t st of
        None \<Rightarrow> (t, st)
      | Some (q, st') \<Rightarrow> run_alone n lib (t\<lparr>pc := q\<rparr>) st')"

definition update_alone :: "proxy_libs \<Rightarrow> string \<Rightarrow> domain_list_kind \<Rightarrow> config_state \<Rightarrow> proxy_pc \<times> config_state" where
  "update_alone lib host kind st =
     (let (t, st') = run_alone 3 lib \<lparr>op = UpdateDomainList host kind, pc = Begin\<rparr> st in (pc t, st'))"

lemma update_alone_eq:
  "update_alone lib raw kind st =
     (if parse_host raw = None then (Failed, st)
      else (case perform_op lib (UpdateDomainList raw kind) st of (Built _ _ s, _) \<Rightarrow> (Completed, s) | (q, _) \<Rightarrow> (q, st)))"
  by (auto simp: update_alone_def numeral_3_eq_3 task_step_def names_no_host_def after_reload_def perform_op_def Let_def
      split: option.splits sum.splits)

text \<open>A host that is its own pattern.\<close>

definition proper_host :: "string \<Rightarrow> bool" where
  "proper_host host = (plain_domain host \<and> str_trim host = host \<and> normalize_host host = host \<and> host \<noteq> [])"

lemma star_first_stays:
  assumes "prefix ''*'' (str_trim e)"
  shows "CHR ''*'' \<in> set (normalize_host e)"
proof -
  from assms obtain r where s: "str_trim e = CHR ''*'' # r" by (auto simp: prefix_def)
  have "\<exists>r'. normalize_host e = normalize_dns_host (CHR ''*'' # r')"
    unfolding normalize_host_def Let_def s by auto
  then obtain r' where "normalize_host e = normalize_dns_host (CHR ''*'' # r')" by blast
  moreover have "CHR ''*'' \<in> set (trim_end_char (CHR ''.'') (CHR ''*'' # x))" for x
    by (induction x rule: rev_induct) (auto simp: trim_end_char_snoc [of _ "CHR ''*'' # _", simplified] trim_end_char_def)
  ultimately show ?thesis by (simp add: normalize_dns_host_def to_ascii_lowercase_def ascii_lower_def)
qed

lemma entry_of_host:
  assumes "proper_host host" and "normalize_host e = host"
  shows "parse_pattern_text (normalize_pattern e) = Exact host"
proof -
  have no_star: "CHR ''*'' \<notin> set host" using assms(1) by (auto simp: proper_host_def plain_domain_def list_all_iff)
  with star_first_stays assms(2) have "\<not> prefix ''*'' (str_trim e)" by blast
  then have "strip_prefix ''**.'' (str_trim e) = None" "strip_prefix ''*.'' (str_trim e) = None" "str_trim e \<noteq> ''*''"
    by (auto simp: strip_prefix_def prefix_def)
  then have "normalize_pattern e = normalize_host (str_trim e)" by (simp add: normalize_pattern_def)
  also have "\<dots> = host" using assms(2) by (simp add: normalize_host_def str_trim_idem)
  finally have "normalize_pattern e = host" .
  moreover have "strip_prefix ''**.'' host = None" "strip_prefix ''*.'' host = None"
    using no_star by (auto simp: strip_prefix_def prefix_def)
  ultimately show ?thesis using assms(1) by (simp add: parse_pattern_text_def proper_host_def)
qed

lemma normalize_host_lower: "to_ascii_lowercase (normalize_host e) = normalize_host e"
proof -
  have "to_ascii_lowercase (normalize_dns_host s) = normalize_dns_host s" for s
    using trim_end_char_prefix [of "CHR ''.''" "to_ascii_lowercase s"]
    by (auto simp: normalize_dns_host_def prefix_def to_ascii_lowercase_def map_eq_append_conv)
  then show ?thesis by (simp add: normalize_host_def Let_def split: option.split prod.split)
qed

lemma entries_match:
  assumes "compile_globset (lib_globs lib) entries = Inr globs" and "glob_laws (lib_globs lib)"
    and "list_all plain_pattern entries" and "proper_host host" and "entries_contain host entries"
  shows "globset_is_match (lib_globs lib) globs host"
proof -
  from assms(5) obtain e where "e \<in> set entries" "normalize_host e = host" by (auto simp: entries_contain_def list_ex_iff)
  moreover have "to_ascii_lowercase host = host" using normalize_host_lower [of host] assms(4) by (simp add: proper_host_def)
  ultimately have "e \<in> set entries \<and> covers (parse_pattern_text (normalize_pattern e)) (to_ascii_lowercase host)"
    using entry_of_host [OF assms(4), of e] by simp
  then show ?thesis unfolding globset_covers [OF assms(1-3)] list_ex_iff by blast
qed

lemma with_domain_entries:
  assumes "proper_host host"
  shows "entries_contain host (target_entries kind (with_domain kind host cfg))"
    "\<not> entries_contain host (opposite_entries kind (with_domain kind host cfg))"
    "set (target_entries kind (with_domain kind host cfg)) \<subseteq> insert host (set (target_entries kind cfg))"
  using assms
  by (cases kind; auto simp: with_domain_def target_entries_def opposite_entries_def entries_contain_def proper_host_def
      list_ex_iff Let_def)+

lemma update_alone_Completed:
  assumes "state_ok lib st" and "parse_host raw = Some host" and "proper_host host"
    and "update_alone lib raw kind st = (Completed, st')"
  shows "state_ok lib st' \<and> entries_contain host (target_entries kind (st_config st')) \<and>
    \<not> entries_contain host (opposite_entries kind (st_config st')) \<and>
    set (target_entries kind (st_config st')) \<subseteq> insert host (set (target_entries kind (st_config st)))"
proof -
  consider "st' = st" "entries_contain host (target_entries kind (st_config st))"
      "\<not> entries_contain host (opposite_entries kind (st_config st))"
    | "st_config st' = with_domain kind host (st_config st)" "state_ok lib st'"
  proof (cases "entries_contain host (target_entries kind (st_config st)) \<and> \<not> entries_contain host (opposite_entries kind (st_config st))")
    case True
    with assms(2,4) that(1) show ?thesis by (auto simp: update_alone_eq perform_op_def)
  next
    case False
    with assms(2,4) obtain s where s: "perform_op lib (UpdateDomainList raw kind) st = (Built (st_config st) (st_constraints st) st', st)"
      "build_config_state lib (with_domain kind host (st_config st)) (st_constraints st) = Inr s" "st_config st' = st_config s"
      by (auto simp: update_alone_eq perform_op_def Let_def split: sum.splits if_splits)
    with perform_op_ok [OF assms(1) s(1)] build_config_state_Inr [OF s(2)] that(2) show ?thesis by (simp add: pc_ok_def)
  qed
  then show ?thesis using assms(1) with_domain_entries [OF assms(3)] by cases auto
qed

text \<open>A host that is put on a list is on that list and on no other from then on: when an update that
  is not disturbed ends well, a denied host is blocked as such, whatever else the configuration
  says and wherever the host leads, and an allowed one is found among the allowed ones.\<close>

lemma updated_hosts_are_decided:
  assumes "state_ok lib st" and "parse_host raw = Some host" and "proper_host host" and "glob_laws (lib_globs lib)"
    and "list_all plain_pattern (target_entries kind (st_config st))"
    and "update_alone lib raw kind st = (Completed, st')"
  shows "\<not> entries_contain host (opposite_entries kind (st_config st')) \<and>
    (case kind of
       DenyList \<Rightarrow> host_blocked lib lookup_host st' raw port = HostBlocked BlockDenied
     | AllowList \<Rightarrow> globset_is_match (lib_globs lib) (st_allow_set st') host)"
proof -
  note upd = update_alone_Completed [OF assms(1,2,3,6)]
  have "plain_pattern host"
    using entry_of_host [OF assms(3), of host] assms(3) normalize_host_lower [of host]
    by (simp add: plain_pattern_def proper_host_def)
  with upd assms(5) have "list_all plain_pattern (target_entries kind (st_config st'))" by (auto simp: list_all_iff)
  with upd assms(2-4) entries_match [of lib "target_entries kind (st_config st')" _ host] show ?thesis
    by (cases kind) (auto simp: state_ok_def target_entries_def host_blocked_def Let_def)
qed

subsection \<open>A lost record\<close>

lemma pop_front_last: "pop_front_loop (bs @ [b]) \<noteq> [] \<and> last (pop_front_loop (bs @ [b])) = b"
  by (induction bs) (auto simp: MAX_BLOCKED_EVENTS_def)

lemma update_step_Built:
  assumes "task_step lib outcome \<lparr>op = UpdateDomainList raw kind, pc = Current\<rparr> st = Some (Built cfg con new_state, st')"
  shows "cfg = st_config st \<and> con = st_constraints st \<and> st' = st \<and> st_blocked new_state = st_blocked st \<and>
    st_blocked_total new_state = st_blocked_total st"
  using assms by (auto simp: task_step_def perform_op_def Let_def split: option.splits if_splits sum.splits)

text \<open>C20: A blocked request that is recorded while a list is updated is lost.  The update takes the buffer
  with it when it reads the state, and puts the old buffer back when it writes the new state; that
  the constraints and the settings are the same, which it checks, says nothing of the buffer.\<close>

theorem update_loses_blocked_requests:
  assumes "task_step lib outcome \<lparr>op = UpdateDomainList raw kind, pc = Current\<rparr> st = Some (Built cfg con new_state, st)"
  shows "task_step lib outcome' \<lparr>op = RecordBlocked entry, pc = Current\<rparr> st = Some (Completed, push_blocked entry st) \<and>
    last (st_blocked (push_blocked entry st)) = entry \<and>
    task_step lib outcome'' \<lparr>op = UpdateDomainList raw kind, pc = Built cfg con new_state\<rparr> (push_blocked entry st) = Some (Completed, new_state) \<and>
    st_blocked new_state = st_blocked st \<and> st_blocked_total new_state = st_blocked_total st"
proof -
  have "last (st_blocked (push_blocked entry st)) = entry"
    using pop_front_last [of "st_blocked st" entry] by (simp add: push_blocked_def)
  with update_step_Built [OF assms] show ?thesis
    by (auto simp: task_step_def perform_op_def push_blocked_def)
qed

text \<open>A reload by force keeps the buffer, and forgets how many requests have been blocked.\<close>

lemma force_reload_forgets_total:
  assumes "load_state lib cfg con = Inr s"
  shows "task_step lib outcome \<lparr>op = ForceReload, pc = Forced s\<rparr> st = Some (Completed, s\<lparr>st_blocked := st_blocked st\<rparr>) \<and>
    st_blocked_total (s\<lparr>st_blocked := st_blocked st\<rparr>) = 0"
  using assms build_config_state_Inr [of lib cfg con s] by (auto simp: task_step_def load_state_def split: sum.splits)

subsection \<open>An example\<close>

definition sample_state :: config_state where
  "sample_state =
     \<lparr>st_config = sample_settings, st_allow_set = [''?*.example.com''], st_deny_set = [''bad.example.com''], st_mitm = False,
      st_constraints = sample_constraints, st_blocked = [], st_blocked_total = 0\<rparr>"

lemma sample_loads: "load_state sample_libs sample_settings sample_constraints = Inr sample_state"
  using sample_valid
  by (simp add: load_state_def sample_libs_def build_config_state_def validate_unix_socket_allowlist_paths_def sample_settings_def
      default_proxy_settings_def validate_domain_patterns_def sample_not_global sample_globsets sample_state_def)

theorem constraints_hold_while_running_witness:
  "validate_policy_against_constraints Some sample_settings sample_constraints = Inr () \<and>
   compile_globset sample_globs [''*.example.com''] = Inr [''?*.example.com''] \<and>
   compile_globset sample_globs [''bad.example.com''] = Inr [''bad.example.com''] \<and> length (st_blocked sample_state) \<le> 200"
  using constraints_hold_while_running [OF starts [OF sample_loads]]
  by (simp add: sample_libs_def sample_state_def sample_settings_def default_proxy_settings_def)

definition evil :: string where
  "evil = ''evil.example.com''"

lemma evil_trim: "str_trim evil = evil"
  by code_simp

lemma evil_host: "normalize_host evil = evil" "parse_host evil = Some evil"
proof -
  show "normalize_host evil = evil"
    unfolding normalize_host_def evil_trim by (simp add: evil_def normalize_dns_host_def trim_end_char_def to_ascii_lowercase_def ascii_lower_def)
  then show "parse_host evil = Some evil" by (simp add: parse_host_def evil_def)
qed

lemma evil_proper: "proper_host evil"
  by (simp add: proper_host_def evil_trim evil_host) (simp add: evil_def plain_domain_def)

lemma evil_pattern: "parse_pattern_text (normalize_pattern evil) = Exact evil"
  by (rule entry_of_host [OF evil_proper evil_host(1)])

lemma evil_not_global: "\<not> is_global_wildcard_domain_pattern evil"
  by (simp add: is_global_wildcard_domain_pattern_def expand_domain_pattern_def evil_pattern) (simp add: evil_def)

definition denying_settings :: proxy_settings where
  "denying_settings = sample_settings\<lparr>set_denied_domains := [''bad.example.com'', evil]\<rparr>"

lemma sample_hosts: "normalize_host ''bad.example.com'' = ''bad.example.com''" "normalize_host ''*.example.com'' = ''*.example.com''"
  by (simp_all add: normalize_host_def sample_trims normalize_dns_host_def trim_end_char_def to_ascii_lowercase_def ascii_lower_def)

lemma denying_update: "with_domain DenyList evil sample_settings = denying_settings"
  by (simp add: with_domain_def target_entries_def opposite_entries_def sample_settings_def denying_settings_def sample_hosts)
     (simp add: evil_def)

lemma denying_valid: "validate_policy_against_constraints Some denying_settings sample_constraints = Inr ()"
  using sample_valid
  by (simp add: validate_ok denying_settings_def sample_settings_def sample_constraints_def no_constraints_def default_proxy_settings_def
      validate_domain_patterns_def sample_not_global evil_not_global validate_denied_domains_def)

definition denying_state :: config_state where
  "denying_state = sample_state\<lparr>st_config := denying_settings, st_deny_set := [''bad.example.com'', evil]\<rparr>"

lemma denying_builds: "build_config_state sample_libs denying_settings sample_constraints = Inr denying_state"
proof -
  have "compile_globset sample_globs [''bad.example.com'', evil] = Inr [''bad.example.com'', evil]"
    by (simp add: compile_globset_def sample_not_global evil_not_global expand_domain_pattern_def sample_patterns evil_pattern
        sample_globs_def) (simp add: evil_def)
  then show ?thesis
    by (simp add: sample_libs_def build_config_state_def validate_unix_socket_allowlist_paths_def denying_settings_def
        sample_settings_def default_proxy_settings_def validate_domain_patterns_def sample_not_global evil_not_global sample_globsets
        denying_state_def sample_state_def)
qed

lemma denying_step:
  "task_step sample_libs NothingNew \<lparr>op = UpdateDomainList evil DenyList, pc = Current\<rparr> sample_state =
     Some (Built sample_settings sample_constraints denying_state, sample_state)"
proof -
  have "\<not> entries_contain evil (set_denied_domains sample_settings)"
    by (simp add: entries_contain_def sample_settings_def sample_hosts) (simp add: evil_def)
  moreover have "denying_state\<lparr>st_blocked := st_blocked sample_state, st_blocked_total := st_blocked_total sample_state\<rparr> = denying_state"
    by (simp add: denying_state_def sample_state_def)
  moreover have "lib_url_host sample_libs = Some" by (simp add: sample_libs_def)
  moreover have "st_config sample_state = sample_settings" "st_constraints sample_state = sample_constraints"
    by (simp_all add: sample_state_def)
  ultimately show ?thesis
    by (simp add: task_step_def perform_op_def evil_host target_entries_def denying_update denying_valid denying_builds)
qed

definition sample_blocked :: blocked_request where
  "sample_blocked =
     \<lparr>blocked_host = ''x.org'', blocked_reason = ''not_allowed'', blocked_client = None, blocked_method = None, blocked_mode = None,
      blocked_protocol = ''http'', blocked_decision = None, blocked_source = None, blocked_port = Some 80, blocked_timestamp = 0\<rparr>"

theorem update_loses_blocked_requests_witness:
  "task_step sample_libs NothingNew \<lparr>op = RecordBlocked sample_blocked, pc = Current\<rparr> sample_state =
     Some (Completed, push_blocked sample_blocked sample_state) \<and>
   last (st_blocked (push_blocked sample_blocked sample_state)) = sample_blocked \<and>
   task_step sample_libs NothingNew
     \<lparr>op = UpdateDomainList evil DenyList, pc = Built sample_settings sample_constraints denying_state\<rparr>
     (push_blocked sample_blocked sample_state) = Some (Completed, denying_state) \<and>
   st_blocked denying_state = []"
  using update_loses_blocked_requests [OF denying_step, of NothingNew sample_blocked NothingNew]
  by (simp add: sample_state_def)

end
