(* ===== verification/Proxy_Handlers.thy ===== *)
theory Proxy_Handlers
  imports Proxy_State
begin

section \<open>What the network proxy lets through\<close>

text \<open>
  A model of the policy decisions of \<^verbatim>\<open>codex-rs/network-proxy/src/network_policy.rs\<close>,
  \<^verbatim>\<open>http_proxy.rs\<close>, \<^verbatim>\<open>socks5.rs\<close>, \<^verbatim>\<open>mitm.rs\<close> and \<^verbatim>\<open>responses.rs\<close>.  A handler reads the state of the
  proxy several times, and other tasks may change it in between, so each reading is a parameter
  of its own, and may fail.  The parsing of requests and the forwarding itself are left to the
  libraries: a handler ends with a response, or with what it passes on.
\<close>

subsection \<open>Effects\<close>

record audit_event =
  audit_scope :: string
  audit_decision :: string
  audit_source :: string
  audit_reason :: string
  audit_protocol :: string
  audit_address :: string
  audit_port :: nat
  audit_method :: string
  audit_client :: string
  audit_override :: bool

datatype effect = Audited audit_event | Recorded blocked_request

definition or_default :: "'a \<Rightarrow> 'a option \<Rightarrow> 'a" where
  "or_default d x = (case x of Some v \<Rightarrow> v | None \<Rightarrow> d)"

text \<open>An event for a decision that no domain policy has made.\<close>

definition non_domain_audit ::
  "string \<Rightarrow> network_decision_source \<Rightarrow> string \<Rightarrow> network_protocol \<Rightarrow> string \<Rightarrow> nat \<Rightarrow> string option \<Rightarrow> string option \<Rightarrow> effect"
where
  "non_domain_audit decision source reason protocol address port http_method client =
     Audited \<lparr>audit_scope = ''non_domain'', audit_decision = decision, audit_source = source_text source,
       audit_reason = reason, audit_protocol = as_policy_protocol protocol, audit_address = address, audit_port = port,
       audit_method = or_default ''none'' http_method, audit_client = or_default ''unknown'' client, audit_override = False\<rparr>"

record proxy_world =
  now :: int
  lookup :: dns
  decider :: "(network_policy_request \<Rightarrow> network_decision) option"
  unix_sockets_supported :: bool
  canonicalize :: "path \<Rightarrow> path option"

definition blocked_entry ::
  "proxy_world \<Rightarrow> string \<Rightarrow> string \<Rightarrow> string option \<Rightarrow> string option \<Rightarrow> network_mode option \<Rightarrow> string \<Rightarrow>
   (network_policy_decision \<times> network_decision_source) option \<Rightarrow> nat \<Rightarrow> effect"
where
  "blocked_entry w host reason client http_method mode protocol by_whom port =
     Recorded \<lparr>blocked_host = host, blocked_reason = reason, blocked_client = client, blocked_method = http_method,
       blocked_mode = mode, blocked_protocol = protocol, blocked_decision = map_option (decision_text \<circ> fst) by_whom,
       blocked_source = map_option (source_text \<circ> snd) by_whom, blocked_port = Some port, blocked_timestamp = now w\<rparr>"

subsection \<open>The policy for hosts\<close>

type_synonym view = "(string, config_state) result"

fun map_decider_decision :: "network_decision \<Rightarrow> network_decision" where
  "map_decider_decision NetworkAllow = NetworkAllow"
| "map_decider_decision (NetworkDeny reason source decision) = NetworkDeny reason Decider decision"

definition host_policy_decision ::
  "proxy_libs \<Rightarrow> proxy_world \<Rightarrow> config_state \<Rightarrow> network_policy_request \<Rightarrow> network_decision \<times> bool"
where
  "host_policy_decision lib w st req =
     (case host_blocked lib (lookup w) st (request_host req) (request_port req) of
        HostAllowed \<Rightarrow> (NetworkAllow, False)
      | HostBlocked BlockNotAllowed \<Rightarrow>
          (case decider w of
             Some decide \<Rightarrow> (let d = map_decider_decision (decide req) in (d, d = NetworkAllow))
           | None \<Rightarrow> (deny_with_source (block_reason_text BlockNotAllowed) BaselinePolicy, False))
      | HostBlocked reason \<Rightarrow> (deny_with_source (block_reason_text reason) BaselinePolicy, False))"

definition evaluate_host_policy ::
  "proxy_libs \<Rightarrow> proxy_world \<Rightarrow> view \<Rightarrow> network_policy_request \<Rightarrow> (string, network_decision) result \<times> effect list"
where
  "evaluate_host_policy lib w v req =
     (case v of
        Inl e \<Rightarrow> (Inl e, [])
      | Inr st \<Rightarrow>
          (let (decision, policy_override) = host_policy_decision lib w st req;
               (text, source, reason) =
                 (case decision of
                    NetworkAllow \<Rightarrow>
                      (''allow'', if policy_override then Decider else BaselinePolicy,
                       if policy_override then block_reason_text BlockNotAllowed else ''allow'')
                  | NetworkDeny reason source d \<Rightarrow> (decision_text d, source, reason))
           in (Inr decision,
               [Audited \<lparr>audit_scope = ''domain'', audit_decision = text, audit_source = source_text source,
                  audit_reason = reason, audit_protocol = as_policy_protocol (request_protocol req),
                  audit_address = request_host req, audit_port = request_port req,
                  audit_method = or_default ''none'' (request_method req),
                  audit_client = or_default ''unknown'' (request_client req), audit_override = policy_override\<rparr>])))"

subsection \<open>Responses\<close>

definition blocked_header_value :: "string \<Rightarrow> string" where
  "blocked_header_value reason =
     (if reason \<in> {''not_allowed'', ''not_allowed_local''} then ''blocked-by-allowlist''
      else if reason = ''denied'' then ''blocked-by-denylist''
      else if reason = ''method_not_allowed'' then ''blocked-by-method-policy''
      else if reason = ''mitm_required'' then ''blocked-by-mitm-required''
      else ''blocked-by-policy'')"

definition blocked_message :: "string \<Rightarrow> string" where
  "blocked_message reason =
     (if reason = ''not_allowed''
      then ''Codex blocked this request: domain not in allowlist (this is not a denylist block).''
      else if reason = ''not_allowed_local'' then ''Codex blocked this request: local/private addresses not allowed.''
      else if reason = ''denied'' then ''Codex blocked this request: domain denied by policy.''
      else if reason = ''method_not_allowed'' then ''Codex blocked this request: method not allowed in limited mode.''
      else if reason = ''mitm_required'' then ''Codex blocked this request: MITM required for limited HTTPS.''
      else ''Codex blocked this request by network policy.'')"

text \<open>A response with a text; a blocked one, with the header that says why; and a blocked one in
  JSON, with the host, the reason and, where a policy decided, who did.\<close>

datatype http_response =
    TextResponse nat string
  | BlockedText nat string string
  | BlockedJson nat string string string "(network_policy_decision \<times> network_decision_source \<times> network_protocol \<times> nat \<times> string) option"

definition blocked_text_response :: "string \<Rightarrow> http_response" where
  "blocked_text_response reason = BlockedText 403 (blocked_header_value reason) (blocked_message reason)"

definition json_blocked ::
  "string \<Rightarrow> string \<Rightarrow> (network_policy_decision \<times> network_decision_source \<times> network_protocol \<times> nat) option \<Rightarrow> http_response"
where
  "json_blocked host reason details =
     BlockedJson 403 (blocked_header_value reason) host reason
       (map_option (\<lambda>(d, s, p, port). (d, s, p, port, blocked_message reason)) details)"

definition proxy_disabled_response ::
  "proxy_world \<Rightarrow> string \<Rightarrow> nat \<Rightarrow> string option \<Rightarrow> string option \<Rightarrow> network_protocol \<Rightarrow> (string \<times> nat) option \<Rightarrow>
   http_response \<times> effect list"
where
  "proxy_disabled_response w host port client http_method protocol audit_endpoint =
     (let (address, audit_port) = or_default (host, port) audit_endpoint in
      (TextResponse 503 (blocked_message ''proxy_disabled''),
       [non_domain_audit ''deny'' ProxyState ''proxy_disabled'' protocol address audit_port http_method client,
        blocked_entry w host ''proxy_disabled'' client http_method None (as_policy_protocol protocol)
          (Some (PolicyDeny, ProxyState)) port]))"

definition after :: "effect list \<Rightarrow> 'a \<times> effect list \<Rightarrow> 'a \<times> effect list" where
  "after fx r = (fst r, fx @ snd r)"

subsection \<open>Encrypted connections over HTTP\<close>

text \<open>A request, as the libraries have parsed it: whether the state of the proxy was attached to it, its
  method and client, the host and port that it is for, the header that names a local socket (which
  may be unreadable), the scheme and the host header, with the host and port of the target.\<close>

record http_request =
  has_state :: bool
  http_verb :: string
  http_client :: "string option"
  http_authority :: "(string \<times> nat) option"
  unix_socket_header :: "string option option"
  has_scheme :: bool
  host_header :: "(unit, (string \<times> nat option) option) result"
  target_host :: string
  target_port :: "nat option"
  has_default_port :: bool

record proxy_views =
  view_enabled :: view
  view_host :: view
  view_mode :: view
  view_mitm :: view
  view_method :: view
  view_socket :: view
  view_upstream :: view

datatype connect_outcome =
    ConnectRefused http_response
  | ConnectAccepted "string \<times> nat" network_mode bool

definition connect_mode_guard ::
  "proxy_world \<Rightarrow> proxy_views \<Rightarrow> http_request \<Rightarrow> string \<Rightarrow> string \<times> nat \<Rightarrow> connect_outcome \<times> effect list"
where
  "connect_mode_guard w v req host authority =
     (case view_mode v of
        Inl _ \<Rightarrow> (ConnectRefused (TextResponse 500 ''error''), [])
      | Inr mode_st \<Rightarrow>
          (case view_mitm v of
             Inl _ \<Rightarrow> (ConnectRefused (TextResponse 500 ''error''), [])
           | Inr mitm_st \<Rightarrow>
               (let mode = set_mode (st_config mode_st) in
                if mode = Limited \<and> \<not> st_mitm mitm_st
                then (ConnectRefused (blocked_text_response ''mitm_required''),
                      [non_domain_audit ''deny'' ModeGuard ''mitm_required'' ProtoHttpsConnect host (snd authority)
                         (Some ''CONNECT'') (http_client req),
                       blocked_entry w host ''mitm_required'' (http_client req) (Some ''CONNECT'') (Some Limited)
                         ''http-connect'' (Some (PolicyDeny, ModeGuard)) (snd authority)])
                else (ConnectAccepted authority mode (st_mitm mitm_st), []))))"

definition host_request ::
  "network_protocol \<Rightarrow> string \<Rightarrow> nat \<Rightarrow> string option \<Rightarrow> string option \<Rightarrow> network_policy_request"
where
  "host_request protocol host port client http_method =
     \<lparr>request_protocol = protocol, request_host = host, request_port = port, request_client = client,
      request_method = http_method, request_command = None, request_hint = None\<rparr>"

definition http_connect_accept ::
  "proxy_libs \<Rightarrow> proxy_world \<Rightarrow> proxy_views \<Rightarrow> http_request \<Rightarrow> connect_outcome \<times> effect list"
where
  "http_connect_accept lib w v req =
     (if \<not> has_state req then (ConnectRefused (TextResponse 500 ''missing state''), [])
      else (case http_authority req of
              None \<Rightarrow> (ConnectRefused (TextResponse 400 ''missing authority''), [])
            | Some (raw, port) \<Rightarrow>
                (let host = normalize_host raw; client = http_client req in
                 if host = [] then (ConnectRefused (TextResponse 400 ''invalid host''), [])
                 else (case view_enabled v of
                         Inl _ \<Rightarrow> (ConnectRefused (TextResponse 500 ''error''), [])
                       | Inr st \<Rightarrow>
                           if \<not> set_enabled (st_config st)
                           then map_prod ConnectRefused id
                                  (proxy_disabled_response w host port client (Some ''CONNECT'') ProtoHttpsConnect None)
                           else (case evaluate_host_policy lib w (view_host v)
                                        (host_request ProtoHttpsConnect host port client (Some ''CONNECT'')) of
                                   (Inr (NetworkDeny reason source decision), fx) \<Rightarrow>
                                     (ConnectRefused (blocked_text_response reason),
                                      fx @ [blocked_entry w host reason client (Some ''CONNECT'') None ''http-connect''
                                              (Some (decision, source)) port])
                                 | (Inr NetworkAllow, fx) \<Rightarrow> after fx (connect_mode_guard w v req host (raw, port))
                                 | (Inl _, fx) \<Rightarrow> (ConnectRefused (TextResponse 500 ''error''), fx))))))"

text \<open>What becomes of an accepted connection.\<close>

datatype tunnel = NoTunnel | MitmTunnel | ForwardTunnel bool

definition http_connect_proxy ::
  "bool \<Rightarrow> (string \<times> nat) option \<Rightarrow> network_mode option \<Rightarrow> bool \<Rightarrow> view \<Rightarrow> tunnel"
where
  "http_connect_proxy state_attached target mode_ext mitm_attached v =
     (let mode = or_default Full mode_ext in
      case target of
        None \<Rightarrow> NoTunnel
      | Some _ \<Rightarrow>
          if mode = Limited \<and> mitm_attached then MitmTunnel
          else ForwardTunnel
                 (if state_attached then (case v of Inr st \<Rightarrow> set_upstream_proxy (st_config st) | Inl _ \<Rightarrow> False) else False))"

subsection \<open>Plain requests over HTTP\<close>

definition allowed_socket_path :: "path_env \<Rightarrow> (path \<Rightarrow> path option) \<Rightarrow> path \<Rightarrow> string \<Rightarrow> bool" where
  "allowed_socket_path env canon requested allowed =
     (case parse_socket_path env allowed of
        Inl _ \<Rightarrow> False
      | Inr allowed_path \<Rightarrow>
          allowed_path = requested \<or>
          (case canon requested of
             None \<Rightarrow> False
           | Some requested_canonical \<Rightarrow> canon allowed_path = Some requested_canonical))"

definition is_unix_socket_allowed :: "proxy_libs \<Rightarrow> proxy_world \<Rightarrow> config_state \<Rightarrow> string \<Rightarrow> bool" where
  "is_unix_socket_allowed lib w st raw =
     (if \<not> unix_sockets_supported w then False
      else if \<not> is_absolute (path_components raw) then False
      else if set_all_unix_sockets (st_config st) then True
      else (case from_absolute_path (lib_paths lib) (path_components raw) of
              Inl _ \<Rightarrow> False
            | Inr requested \<Rightarrow>
                list_ex (allowed_socket_path (lib_paths lib) (canonicalize w) requested) (set_unix_sockets (st_config st))))"

datatype plain_outcome =
    Responded http_response
  | ServedUpstream bool
  | ServedSocket string

definition unix_socket_request ::
  "proxy_libs \<Rightarrow> proxy_world \<Rightarrow> proxy_views \<Rightarrow> http_request \<Rightarrow> bool \<Rightarrow> string option \<Rightarrow> plain_outcome \<times> effect list"
where
  "unix_socket_request lib w v req method_allowed header_text =
     (case header_text of
        None \<Rightarrow> (Responded (TextResponse 400 ''invalid x-unix-socket header''), [])
      | Some socket_path \<Rightarrow>
          (let verb = Some (http_verb req); client = http_client req in
           case view_enabled v of
             Inl _ \<Rightarrow> (Responded (TextResponse 500 ''error''), [])
           | Inr st \<Rightarrow>
               if \<not> set_enabled (st_config st)
               then map_prod Responded id
                      (proxy_disabled_response w socket_path 0 client verb ProtoHttp (Some (''unix-socket'', 0)))
               else if \<not> method_allowed
               then (Responded (json_blocked ''unix-socket'' ''method_not_allowed'' None),
                     [non_domain_audit ''deny'' ModeGuard ''method_not_allowed'' ProtoHttp ''unix-socket'' 0 verb client])
               else if \<not> unix_sockets_supported w
               then (Responded (TextResponse 501 ''unix sockets unsupported''),
                     [non_domain_audit ''deny'' ProxyState ''unix_socket_unsupported'' ProtoHttp ''unix-socket'' 0 verb client])
               else (case view_socket v of
                       Inl _ \<Rightarrow> (Responded (TextResponse 500 ''error''), [])
                     | Inr st \<Rightarrow>
                         if is_unix_socket_allowed lib w st socket_path
                         then (ServedSocket socket_path,
                               [non_domain_audit ''allow'' ProxyState ''allow'' ProtoHttp ''unix-socket'' 0 verb client])
                         else (Responded (json_blocked ''unix-socket'' ''not_allowed'' None),
                               [non_domain_audit ''deny'' ProxyState ''not_allowed'' ProtoHttp ''unix-socket'' 0 verb client]))))"

definition validate_absolute_form_host_header :: "http_request \<Rightarrow> (string, unit) result" where
  "validate_absolute_form_host_header req =
     (let mismatch = Inl ''Host header does not match request target'' in
      if \<not> has_scheme req then Inr ()
      else (case host_header req of
              Inl _ \<Rightarrow> Inl ''invalid Host header''
            | Inr None \<Rightarrow> Inr ()
            | Inr (Some (host, port)) \<Rightarrow>
                if host \<noteq> target_host req then mismatch
                else (case port of
                        Some p \<Rightarrow> if Some p \<noteq> target_port req then mismatch else Inr ()
                      | None \<Rightarrow> if \<not> has_default_port req then mismatch else Inr ())))"

definition plain_host_request ::
  "proxy_libs \<Rightarrow> proxy_world \<Rightarrow> proxy_views \<Rightarrow> http_request \<Rightarrow> bool \<Rightarrow> string \<Rightarrow> nat \<Rightarrow> plain_outcome \<times> effect list"
where
  "plain_host_request lib w v req method_allowed host port =
     (let verb = Some (http_verb req); client = http_client req in
      case evaluate_host_policy lib w (view_host v) (host_request ProtoHttp host port client verb) of
        (Inl _, fx) \<Rightarrow> (Responded (TextResponse 500 ''error''), fx)
      | (Inr (NetworkDeny reason source decision), fx) \<Rightarrow>
          (Responded (json_blocked host reason (Some (decision, source, ProtoHttp, port))),
           fx @ [blocked_entry w host reason client verb None ''http'' (Some (decision, source)) port])
      | (Inr NetworkAllow, fx) \<Rightarrow>
          if \<not> method_allowed
          then (Responded (json_blocked host ''method_not_allowed'' (Some (PolicyDeny, ModeGuard, ProtoHttp, port))),
                fx @ [non_domain_audit ''deny'' ModeGuard ''method_not_allowed'' ProtoHttp host port verb client,
                      blocked_entry w host ''method_not_allowed'' client verb (Some Limited) ''http''
                        (Some (PolicyDeny, ModeGuard)) port])
          else (case view_upstream v of
                  Inl _ \<Rightarrow> (Responded (TextResponse 500 ''error''), fx)
                | Inr st \<Rightarrow> (ServedUpstream (set_upstream_proxy (st_config st)), fx)))"

definition http_plain_proxy ::
  "proxy_libs \<Rightarrow> proxy_world \<Rightarrow> proxy_views \<Rightarrow> http_request \<Rightarrow> plain_outcome \<times> effect list"
where
  "http_plain_proxy lib w v req =
     (if \<not> has_state req then (Responded (TextResponse 500 ''error''), [])
      else (case view_method v of
              Inl _ \<Rightarrow> (Responded (TextResponse 500 ''error''), [])
            | Inr method_st \<Rightarrow>
                (let method_allowed = allows_method (set_mode (st_config method_st)) (http_verb req) in
                 case unix_socket_header req of
                   Some header_text \<Rightarrow> unix_socket_request lib w v req method_allowed header_text
                 | None \<Rightarrow>
                     (case http_authority req of
                        None \<Rightarrow> (Responded (TextResponse 400 ''missing host''), [])
                      | Some (raw, port) \<Rightarrow>
                          (case validate_absolute_form_host_header req of
                             Inl reason \<Rightarrow> (Responded (TextResponse 400 reason), [])
                           | Inr _ \<Rightarrow>
                               (case view_enabled v of
                                  Inl _ \<Rightarrow> (Responded (TextResponse 500 ''error''), [])
                                | Inr st \<Rightarrow>
                                    if \<not> set_enabled (st_config st)
                                    then map_prod Responded id
                                           (proxy_disabled_response w (normalize_host raw) port (http_client req)
                                              (Some (http_verb req)) ProtoHttp None)
                                    else plain_host_request lib w v req method_allowed (normalize_host raw) port))))))"

subsection \<open>Connections over SOCKS\<close>

datatype socks_error = InvalidHost | PolicyDenied string | OtherSocksError string

definition socks_policy ::
  "proxy_libs \<Rightarrow> proxy_world \<Rightarrow> proxy_views \<Rightarrow> network_protocol \<Rightarrow> string \<Rightarrow> string \<Rightarrow> nat \<Rightarrow> string option \<Rightarrow>
   (socks_error, unit) result \<times> effect list"
where
  "socks_policy lib w v protocol label raw port client =
     (let host = normalize_host raw;
          denied = (\<lambda>source reason mode.
            (Inl (PolicyDenied (blocked_message reason)),
             [non_domain_audit ''deny'' source reason protocol host port None client,
              blocked_entry w host reason client None mode label (Some (PolicyDeny, source)) port]))
      in if host = [] then (Inl InvalidHost, [])
         else (case view_enabled v of
                 Inl _ \<Rightarrow> (Inl (OtherSocksError ''proxy error''), [])
               | Inr st \<Rightarrow>
                   if \<not> set_enabled (st_config st) then denied ProxyState ''proxy_disabled'' None
                   else (case view_mode v of
                           Inl _ \<Rightarrow> (Inl (OtherSocksError ''proxy error''), [])
                         | Inr st \<Rightarrow>
                             if set_mode (st_config st) = Limited then denied ModeGuard ''method_not_allowed'' (Some Limited)
                             else (case evaluate_host_policy lib w (view_host v) (host_request protocol host port client None) of
                                     (Inl _, fx) \<Rightarrow> (Inl (OtherSocksError ''proxy error''), fx)
                                   | (Inr (NetworkDeny reason source decision), fx) \<Rightarrow>
                                       (Inl (PolicyDenied (blocked_message reason)),
                                        fx @ [blocked_entry w host reason client None None label (Some (decision, source)) port])
                                   | (Inr NetworkAllow, fx) \<Rightarrow> (Inr (), fx)))))"

definition handle_socks5_tcp ::
  "proxy_libs \<Rightarrow> proxy_world \<Rightarrow> proxy_views \<Rightarrow> bool \<Rightarrow> string \<Rightarrow> nat \<Rightarrow> string option \<Rightarrow> (socks_error, unit) result \<times> effect list"
where
  "handle_socks5_tcp lib w v state_attached raw port client =
     (if \<not> state_attached then (Inl (OtherSocksError ''missing state''), [])
      else socks_policy lib w v ProtoSocks5Tcp ''socks5'' raw port client)"

definition inspect_socks5_udp ::
  "proxy_libs \<Rightarrow> proxy_world \<Rightarrow> proxy_views \<Rightarrow> string \<Rightarrow> nat \<Rightarrow> string option \<Rightarrow> (socks_error, unit) result \<times> effect list"
where
  "inspect_socks5_udp lib w v address port client =
     socks_policy lib w v ProtoSocks5Udp ''socks5-udp'' address port client"

subsection \<open>Requests inside an encrypted connection\<close>

record mitm_policy =
  mitm_host :: string
  mitm_port :: nat
  mitm_mode :: network_mode

definition mitm_blocking_response ::
  "proxy_libs \<Rightarrow> proxy_world \<Rightarrow> view \<Rightarrow> mitm_policy \<Rightarrow> string \<Rightarrow> string option \<Rightarrow> string option \<Rightarrow>
   (string, http_response option) result \<times> effect list"
where
  "mitm_blocking_response lib w v policy verb request_host_text client =
     (let mismatch = (case request_host_text of
            Some text \<Rightarrow> (let normalized = normalize_host text in normalized \<noteq> [] \<and> normalized \<noteq> mitm_host policy)
          | None \<Rightarrow> False);
          recorded = (\<lambda>reason. blocked_entry w (mitm_host policy) reason client (Some verb) (Some (mitm_mode policy)) ''https''
            None (mitm_port policy))
      in if verb = ''CONNECT'' then (Inr (Some (TextResponse 405 ''CONNECT not supported inside MITM'')), [])
         else if mismatch then (Inr (Some (TextResponse 400 ''host mismatch'')), [])
         else (case v of
                 Inl e \<Rightarrow> (Inl e, [])
               | Inr st \<Rightarrow>
                   if host_blocked lib (lookup w) st (mitm_host policy) (mitm_port policy) = HostBlocked BlockNotAllowedLocal
                   then (Inr (Some (blocked_text_response ''not_allowed_local'')), [recorded ''not_allowed_local''])
                   else if \<not> allows_method (mitm_mode policy) verb
                   then (Inr (Some (blocked_text_response ''method_not_allowed'')), [recorded ''method_not_allowed''])
                   else (Inr None, [])))"

definition authority_header_value :: "string \<Rightarrow> nat \<Rightarrow> string" where
  "authority_header_value host port =
     (if CHR '':'' \<in> set host
      then (if port = 443 then ''['' @ host @ '']'' else ''['' @ host @ '']:'' @ nat_digits port)
      else if port = 443 then host else host @ '':'' @ nat_digits port)"

subsection \<open>What passes\<close>

definition view_holds :: "(config_state \<Rightarrow> bool) \<Rightarrow> view \<Rightarrow> bool" where
  "view_holds P v = (case v of Inr st \<Rightarrow> P st | Inl _ \<Rightarrow> False)"

definition decider_allows :: "proxy_world \<Rightarrow> network_policy_request \<Rightarrow> bool" where
  "decider_allows w req = (case decider w of Some decide \<Rightarrow> decide req = NetworkAllow | None \<Rightarrow> False)"

text \<open>A host may be reached when it is not denied, is not local (unless local addresses are allowed, or
  the address is in the list as such), and is in the list of allowed hosts, or the decider allows it.\<close>

definition permitted :: "proxy_libs \<Rightarrow> proxy_world \<Rightarrow> config_state \<Rightarrow> network_policy_request \<Rightarrow> bool" where
  "permitted lib w st req =
     (case parse_host (request_host req) of
        None \<Rightarrow> decider_allows w req
      | Some host \<Rightarrow>
          \<not> globset_is_match (lib_globs lib) (st_deny_set st) host \<and>
          (set_local_binding (st_config st) \<or>
           (if local_literal host then is_explicit_local_allowlisted (set_allowed_domains (st_config st)) host
            else \<not> host_resolves_to_non_public_ip (lookup w) host (request_port req))) \<and>
          (globset_is_match (lib_globs lib) (st_allow_set st) host \<or> decider_allows w req))"

lemma map_decider_allow [simp]: "map_decider_decision d = NetworkAllow \<longleftrightarrow> d = NetworkAllow"
  by (cases d) auto

lemma deny_is_not_allow [simp]: "deny_with_source reason source \<noteq> NetworkAllow"
  by (simp add: deny_with_source_def)

lemma policy_allows_permitted:
  assumes "fst (host_policy_decision lib w st req) = NetworkAllow"
  shows "permitted lib w st req"
  using assms
  by (auto simp: host_policy_decision_def host_blocked_def permitted_def decider_allows_def Let_def
      split: option.splits if_splits host_block_decision.splits host_block_reason.splits)

lemma evaluate_allows_permitted:
  assumes "evaluate_host_policy lib w v req = (Inr NetworkAllow, fx)"
  shows "view_holds (\<lambda>st. permitted lib w st req) v"
  using assms policy_allows_permitted
  by (auto simp: evaluate_host_policy_def view_holds_def split: sum.splits prod.splits)

lemma connect_guard_accepts:
  assumes "fst (connect_mode_guard w v req host a) = ConnectAccepted a' mode mitm"
  shows "a' = a \<and> view_holds (\<lambda>st. set_mode (st_config st) = mode) (view_mode v) \<and> (mode = Full \<or> mitm)"
  using assms by (auto simp: connect_mode_guard_def view_holds_def Let_def split: sum.splits if_splits intro: network_mode.exhaust)

lemma connect_cases:
  assumes "fst (http_connect_accept lib w v req) = ConnectAccepted (raw, port) mode mitm"
  shows "view_holds (\<lambda>st. set_enabled (st_config st)) (view_enabled v) \<and>
    view_holds (\<lambda>st. permitted lib w st (host_request ProtoHttpsConnect (normalize_host raw) port (http_client req) (Some ''CONNECT''))) (view_host v) \<and>
    view_holds (\<lambda>st. set_mode (st_config st) = mode) (view_mode v) \<and> (mode = Full \<or> mitm)"
proof -
  obtain st fx where st: "http_authority req = Some (raw, port)" "view_enabled v = Inr st" "set_enabled (st_config st)"
    "evaluate_host_policy lib w (view_host v) (host_request ProtoHttpsConnect (normalize_host raw) port (http_client req) (Some ''CONNECT'')) =
       (Inr NetworkAllow, fx)"
    "fst (connect_mode_guard w v req (normalize_host raw) (raw, port)) = ConnectAccepted (raw, port) mode mitm"
    using assms
    by (auto simp: http_connect_accept_def Let_def after_def proxy_disabled_response_def
        split: if_splits option.splits sum.splits prod.splits network_decision.splits
        dest: connect_guard_accepts)
  with evaluate_allows_permitted connect_guard_accepts show ?thesis by (simp add: view_holds_def)
qed

lemma plain_host_cases:
  assumes "fst (plain_host_request lib w v req method_allowed host port) = r"
  shows "case r of
      ServedUpstream _ \<Rightarrow> method_allowed \<and>
        view_holds (\<lambda>st. permitted lib w st (host_request ProtoHttp host port (http_client req) (Some (http_verb req)))) (view_host v)
    | ServedSocket _ \<Rightarrow> False
    | Responded _ \<Rightarrow> True"
  using assms evaluate_allows_permitted
  by (auto simp: plain_host_request_def Let_def split: sum.splits prod.splits network_decision.splits if_splits)

lemma unix_socket_cases:
  assumes "fst (unix_socket_request lib w v req method_allowed header_text) = r"
  shows "case r of
      ServedUpstream _ \<Rightarrow> False
    | ServedSocket p \<Rightarrow> method_allowed \<and> unix_sockets_supported w \<and> view_holds (\<lambda>st. set_enabled (st_config st)) (view_enabled v) \<and>
        view_holds (\<lambda>st. is_unix_socket_allowed lib w st p) (view_socket v)
    | Responded _ \<Rightarrow> True"
  using assms
  by (auto simp: unix_socket_request_def Let_def view_holds_def proxy_disabled_response_def
      split: option.splits sum.splits prod.splits if_splits)

lemma plain_cases:
  "case fst (http_plain_proxy lib w v req) of
     ServedUpstream _ \<Rightarrow>
       view_holds (\<lambda>st. set_enabled (st_config st)) (view_enabled v) \<and>
       view_holds (\<lambda>st. allows_method (set_mode (st_config st)) (http_verb req)) (view_method v) \<and>
       (case http_authority req of
          Some (raw, port) \<Rightarrow>
            view_holds (\<lambda>st. permitted lib w st
              (host_request ProtoHttp (normalize_host raw) port (http_client req) (Some (http_verb req)))) (view_host v)
        | None \<Rightarrow> False)
   | ServedSocket p \<Rightarrow>
       view_holds (\<lambda>st. set_enabled (st_config st)) (view_enabled v) \<and>
       view_holds (\<lambda>st. allows_method (set_mode (st_config st)) (http_verb req)) (view_method v) \<and>
       unix_sockets_supported w \<and> view_holds (\<lambda>st. is_unix_socket_allowed lib w st p) (view_socket v)
   | Responded _ \<Rightarrow> True"
proof (cases "fst (http_plain_proxy lib w v req)")
  case (ServedUpstream u)
  then obtain st raw port where st: "view_method v = Inr st" "http_authority req = Some (raw, port)"
    "view_holds (\<lambda>st. set_enabled (st_config st)) (view_enabled v)"
    "fst (plain_host_request lib w v req (allows_method (set_mode (st_config st)) (http_verb req)) (normalize_host raw) port) = ServedUpstream u"
    by (auto simp: http_plain_proxy_def Let_def view_holds_def proxy_disabled_response_def dest: unix_socket_cases
        split: option.splits sum.splits if_splits)
  with plain_host_cases [OF st(4)] ServedUpstream show ?thesis by (simp add: view_holds_def)
next
  case (ServedSocket p)
  then obtain st header_text where st: "view_method v = Inr st"
    "fst (unix_socket_request lib w v req (allows_method (set_mode (st_config st)) (http_verb req)) header_text) = ServedSocket p"
    by (auto simp: http_plain_proxy_def Let_def proxy_disabled_response_def
        dest: plain_host_cases [where r = "ServedSocket p", simplified]
        split: option.splits sum.splits if_splits)
  with unix_socket_cases [OF st(2)] ServedSocket show ?thesis by (simp add: view_holds_def)
qed simp

lemma socks_cases:
  assumes "fst (socks_policy lib w v protocol label raw port client) = Inr ()"
  shows "view_holds (\<lambda>st. set_enabled (st_config st)) (view_enabled v) \<and>
    view_holds (\<lambda>st. set_mode (st_config st) = Full) (view_mode v) \<and>
    view_holds (\<lambda>st. permitted lib w st (host_request protocol (normalize_host raw) port client None)) (view_host v)"
proof -
  obtain st st' fx where "view_enabled v = Inr st" "set_enabled (st_config st)" "view_mode v = Inr st'"
    "set_mode (st_config st') \<noteq> Limited"
    "evaluate_host_policy lib w (view_host v) (host_request protocol (normalize_host raw) port client None) = (Inr NetworkAllow, fx)"
    using assms
    by (auto simp: socks_policy_def Let_def split: if_splits sum.splits prod.splits network_decision.splits)
  with evaluate_allows_permitted show ?thesis by (auto simp: view_holds_def intro: network_mode.exhaust)
qed

text \<open>C12: Nothing passes the proxy unchecked.  A connection that is accepted, a request that is served and
  a packet that is relayed was so while the proxy was enabled, for a host that the policy permits:
  one that is not denied, not a local address, and either allowed or approved; and a request
  reaches a local socket only where these are supported, and only one that the settings allow.\<close>

theorem nothing_passes_unchecked:
  "(case fst (http_connect_accept lib w v req) of
      ConnectAccepted (raw, port) mode mitm \<Rightarrow>
        view_holds (\<lambda>st. set_enabled (st_config st)) (view_enabled v) \<and>
        view_holds (\<lambda>st. permitted lib w st
          (host_request ProtoHttpsConnect (normalize_host raw) port (http_client req) (Some ''CONNECT''))) (view_host v)
    | ConnectRefused _ \<Rightarrow> True) \<and>
   (case fst (http_plain_proxy lib w v req) of
      ServedUpstream _ \<Rightarrow>
        view_holds (\<lambda>st. set_enabled (st_config st)) (view_enabled v) \<and>
        (case http_authority req of
           Some (raw, port) \<Rightarrow>
             view_holds (\<lambda>st. permitted lib w st
               (host_request ProtoHttp (normalize_host raw) port (http_client req) (Some (http_verb req)))) (view_host v)
         | None \<Rightarrow> False)
    | ServedSocket p \<Rightarrow>
        view_holds (\<lambda>st. set_enabled (st_config st)) (view_enabled v) \<and> unix_sockets_supported w \<and>
        view_holds (\<lambda>st. is_unix_socket_allowed lib w st p) (view_socket v)
    | Responded _ \<Rightarrow> True) \<and>
   (case fst (handle_socks5_tcp lib w v attached raw port client) of
      Inr _ \<Rightarrow>
        view_holds (\<lambda>st. set_enabled (st_config st)) (view_enabled v) \<and>
        view_holds (\<lambda>st. permitted lib w st (host_request ProtoSocks5Tcp (normalize_host raw) port client None)) (view_host v)
    | Inl _ \<Rightarrow> True) \<and>
   (case fst (inspect_socks5_udp lib w v raw port client) of
      Inr _ \<Rightarrow>
        view_holds (\<lambda>st. set_enabled (st_config st)) (view_enabled v) \<and>
        view_holds (\<lambda>st. permitted lib w st (host_request ProtoSocks5Udp (normalize_host raw) port client None)) (view_host v)
    | Inl _ \<Rightarrow> True)"
  using connect_cases [of lib w v req] plain_cases [where lib = lib and w = w and v = v and req = req] socks_cases [of lib w v _ _ raw port client]
  by (auto simp: handle_socks5_tcp_def inspect_socks5_udp_def split: connect_outcome.split plain_outcome.splits sum.split)

text \<open>C13: In limited mode only requests that read pass: an encrypted connection is accepted only to be
  opened and inspected, and of the requests inside, as of plain ones, only those with a reading
  method are let through; connections over SOCKS need the full mode.\<close>

theorem limited_mode_only_reads:
  "(case fst (http_connect_accept lib w v req) of
      ConnectAccepted target mode mitm \<Rightarrow>
        view_holds (\<lambda>st. set_mode (st_config st) = mode) (view_mode v) \<and>
        (if mode = Limited then http_connect_proxy True (Some target) (Some mode) mitm up = MitmTunnel else True)
    | ConnectRefused _ \<Rightarrow> True) \<and>
   (case fst (http_plain_proxy lib w v req) of
      Responded _ \<Rightarrow> True
    | _ \<Rightarrow> view_holds (\<lambda>st. set_mode (st_config st) = Full \<or> http_verb req \<in> {''GET'', ''HEAD'', ''OPTIONS''}) (view_method v)) \<and>
   (case fst (handle_socks5_tcp lib w v attached raw port client) of
      Inr _ \<Rightarrow> view_holds (\<lambda>st. set_mode (st_config st) = Full) (view_mode v)
    | Inl _ \<Rightarrow> True) \<and>
   (case fst (inspect_socks5_udp lib w v raw port client) of
      Inr _ \<Rightarrow> view_holds (\<lambda>st. set_mode (st_config st) = Full) (view_mode v)
    | Inl _ \<Rightarrow> True) \<and>
   (case fst (mitm_blocking_response lib w view policy verb host_text client) of
      Inr None \<Rightarrow> mitm_mode policy = Full \<or> verb \<in> {''GET'', ''HEAD'', ''OPTIONS''}
    | _ \<Rightarrow> True)"
proof -
  have reads: "allows_method mode verb \<longleftrightarrow> mode = Full \<or> verb \<in> {''GET'', ''HEAD'', ''OPTIONS''}" for mode verb
    by (cases mode) (auto simp: allows_method_def)
  have "case fst (mitm_blocking_response lib w view policy verb host_text client) of
      Inr None \<Rightarrow> allows_method (mitm_mode policy) verb | _ \<Rightarrow> True"
    by (simp add: mitm_blocking_response_def Let_def split: sum.split)
  then show ?thesis
    using connect_cases [of lib w v req] plain_cases [where lib = lib and w = w and v = v and req = req] socks_cases [of lib w v _ _ raw port client]
    unfolding reads
    by (auto simp: handle_socks5_tcp_def inspect_socks5_udp_def http_connect_proxy_def or_default_def
        split: connect_outcome.split plain_outcome.splits sum.split)
qed

end
