(* ===== verification/Config_Layers.thy ===== *)
theory Config_Layers
  imports Absolute_Path Rust_Text "HOL-Library.AList" "HOL-Library.Word"
begin

section \<open>Layers of configuration\<close>

text \<open>
  A model of \<^verbatim>\<open>merge.rs\<close>, \<^verbatim>\<open>overrides.rs\<close>, \<^verbatim>\<open>state.rs\<close> and the origins of \<^verbatim>\<open>fingerprint.rs\<close> in
  \<^verbatim>\<open>codex-rs/config/src\<close>, with the sources of layers of
  \<^verbatim>\<open>codex-rs/app-server-protocol/src/protocol/v2.rs\<close>.  A table is the list of its entries in the order
  in which it is walked; \<open>insert\<close> is \<open>AList.update\<close>.  A float is its bits, a date its text.  The
  version of a layer, a hash made by libraries, is a parameter.
\<close>

subsection \<open>Values\<close>

datatype toml_value =
    TomlString string
  | TomlInteger int
  | TomlFloat "64 word"
  | TomlBoolean bool
  | TomlDatetime string
  | TomlArray "toml_value list"
  | TomlTable "(string \<times> toml_value) list"

text \<open>The keys of a table are distinct.\<close>

fun wf_toml :: "toml_value \<Rightarrow> bool" where
  "wf_toml (TomlTable es) = (distinct (map fst es) \<and> (\<forall>e \<in> set es. wf_toml (snd e)))"
| "wf_toml (TomlArray xs) = (\<forall>x \<in> set xs. wf_toml x)"
| "wf_toml _ = True"

fun merge_toml_values :: "toml_value \<Rightarrow> toml_value \<Rightarrow> toml_value"
  and merge_entries :: "(string \<times> toml_value) list \<Rightarrow> (string \<times> toml_value) list \<Rightarrow> (string \<times> toml_value) list" where
  "merge_toml_values base overlay =
     (case overlay of
        TomlTable overlay_table \<Rightarrow>
          (case base of
             TomlTable base_table \<Rightarrow> TomlTable (merge_entries base_table overlay_table)
           | _ \<Rightarrow> overlay)
      | _ \<Rightarrow> overlay)"
| "merge_entries base_table [] = base_table"
| "merge_entries base_table ((key, v) # overlay_table) =
     merge_entries
       (AList.update key
          (case map_of base_table key of Some existing \<Rightarrow> merge_toml_values existing v | None \<Rightarrow> v) base_table)
       overlay_table"

declare merge_toml_values.simps [simp del]

text \<open>Setting the value at a dotted path; what is in the way becomes a table.\<close>

definition empty_table :: toml_value where
  "empty_table = TomlTable []"

fun table_entries :: "toml_value \<Rightarrow> (string \<times> toml_value) list" where
  "table_entries (TomlTable es) = es"
| "table_entries _ = []"

fun override_at :: "toml_value \<Rightarrow> string list \<Rightarrow> toml_value \<Rightarrow> toml_value" where
  "override_at current [] v = current"
| "override_at current [segment] v = TomlTable (AList.update segment v (table_entries current))"
| "override_at current (segment # next # rest) v =
     (let es = table_entries current;
          entry = (case map_of es segment of Some t \<Rightarrow> t | None \<Rightarrow> empty_table)
      in TomlTable (AList.update segment (override_at entry (next # rest) v) es))"

definition apply_toml_override :: "toml_value \<Rightarrow> string \<Rightarrow> toml_value \<Rightarrow> toml_value" where
  "apply_toml_override root p v = override_at root (split_char (CHR ''.'') p) v"

definition build_cli_overrides_layer :: "(string \<times> toml_value) list \<Rightarrow> toml_value" where
  "build_cli_overrides_layer cli_overrides =
     fold (\<lambda>(p, v) root. apply_toml_override root p v) cli_overrides empty_table"


subsection \<open>Sources and layers\<close>

definition CONFIG_TOML_FILE :: path where
  "CONFIG_TOML_FILE = [NormalComponent ''config.toml'']"

datatype config_layer_source =
    LayerMdm string string | LayerSystem path | LayerUser path | LayerProject path | LayerSessionFlags
  | LayerLegacyFile path | LayerLegacyMdm

fun precedence :: "config_layer_source \<Rightarrow> nat" where
  "precedence (LayerMdm _ _) = 0"
| "precedence (LayerSystem _) = 10"
| "precedence (LayerUser _) = 20"
| "precedence (LayerProject _) = 25"
| "precedence LayerSessionFlags = 30"
| "precedence (LayerLegacyFile _) = 40"
| "precedence LayerLegacyMdm = 50"

record layer_metadata =
  meta_name :: config_layer_source
  meta_version :: string

record config_layer_entry =
  entry_name :: config_layer_source
  entry_config :: toml_value
  entry_raw_toml :: "string option"
  entry_version :: string
  disabled_reason :: "string option"

definition new_layer :: "(toml_value \<Rightarrow> string) \<Rightarrow> config_layer_source \<Rightarrow> toml_value \<Rightarrow> config_layer_entry" where
  "new_layer version_for name config =
     \<lparr>entry_name = name, entry_config = config, entry_raw_toml = None, entry_version = version_for config,
      disabled_reason = None\<rparr>"

definition new_layer_with_raw_toml ::
  "(toml_value \<Rightarrow> string) \<Rightarrow> config_layer_source \<Rightarrow> toml_value \<Rightarrow> string \<Rightarrow> config_layer_entry"
where
  "new_layer_with_raw_toml version_for name config raw =
     \<lparr>entry_name = name, entry_config = config, entry_raw_toml = Some raw, entry_version = version_for config,
      disabled_reason = None\<rparr>"

definition new_disabled_layer ::
  "(toml_value \<Rightarrow> string) \<Rightarrow> config_layer_source \<Rightarrow> toml_value \<Rightarrow> string \<Rightarrow> config_layer_entry"
where
  "new_disabled_layer version_for name config reason =
     \<lparr>entry_name = name, entry_config = config, entry_raw_toml = None, entry_version = version_for config,
      disabled_reason = Some reason\<rparr>"

definition is_disabled :: "config_layer_entry \<Rightarrow> bool" where
  "is_disabled layer = (disabled_reason layer \<noteq> None)"

definition metadata :: "config_layer_entry \<Rightarrow> layer_metadata" where
  "metadata layer = \<lparr>meta_name = entry_name layer, meta_version = entry_version layer\<rparr>"

definition config_folder :: "config_layer_entry \<Rightarrow> path option" where
  "config_folder layer =
     (case entry_name layer of
        LayerSystem file \<Rightarrow> path_parent file
      | LayerUser file \<Rightarrow> path_parent file
      | LayerProject dot_codex_folder \<Rightarrow> Some dot_codex_folder
      | _ \<Rightarrow> None)"

subsection \<open>Stacks of layers\<close>

text \<open>The requirements that a stack carries are in the theory of requirements.\<close>

record config_layer_stack =
  layers :: "config_layer_entry list"
  user_layer_index :: "nat option"

datatype ordering_error =
    WrongPrecedence | MultipleUserLayers | ProjectLayerWithoutParent | ProjectLayersOutOfOrder

definition is_user_layer :: "config_layer_entry \<Rightarrow> bool" where
  "is_user_layer layer = (case entry_name layer of LayerUser _ \<Rightarrow> True | _ \<Rightarrow> False)"

definition ancestors :: "path \<Rightarrow> path list" where
  "ancestors p = filter (\<lambda>a. a \<noteq> [] \<or> \<not> is_absolute p) (rev (prefixes p))"

definition project_layer_follows :: "path option \<Rightarrow> path \<Rightarrow> (ordering_error, unit) result" where
  "project_layer_follows previous current =
     (case previous of
        None \<Rightarrow> Inr ()
      | Some prev \<Rightarrow>
          (case path_parent prev of
             None \<Rightarrow> Inl ProjectLayerWithoutParent
           | Some parent \<Rightarrow>
               if prev = current \<or> \<not> list_ex (\<lambda>ancestor. ancestor = parent) (ancestors current)
               then Inl ProjectLayersOutOfOrder else Inr ()))"

fun verify_layers_loop ::
  "config_layer_entry list \<Rightarrow> nat \<Rightarrow> nat option \<Rightarrow> path option \<Rightarrow> (ordering_error, nat option) result"
where
  "verify_layers_loop [] index user previous = Inr user"
| "verify_layers_loop (layer # rest) index user previous =
     (if is_user_layer layer \<and> user \<noteq> None then Inl MultipleUserLayers
      else (let user' = (if is_user_layer layer then Some index else user) in
            case entry_name layer of
              LayerProject current \<Rightarrow>
                (case project_layer_follows previous current of
                   Inl e \<Rightarrow> Inl e
                 | Inr _ \<Rightarrow> verify_layers_loop rest (index + 1) user' (Some current))
            | _ \<Rightarrow> verify_layers_loop rest (index + 1) user' previous))"

definition verify_layer_ordering :: "config_layer_entry list \<Rightarrow> (ordering_error, nat option) result" where
  "verify_layer_ordering ls =
     (if \<not> sorted_wrt (\<le>) (map (precedence \<circ> entry_name) ls) then Inl WrongPrecedence
      else verify_layers_loop ls 0 None None)"

definition new_layer_stack :: "config_layer_entry list \<Rightarrow> (ordering_error, config_layer_stack) result" where
  "new_layer_stack ls =
     (case verify_layer_ordering ls of
        Inl e \<Rightarrow> Inl e
      | Inr index \<Rightarrow> Inr \<lparr>layers = ls, user_layer_index = index\<rparr>)"

definition get_user_layer :: "config_layer_stack \<Rightarrow> config_layer_entry option" where
  "get_user_layer st =
     (case user_layer_index st of
        None \<Rightarrow> None
      | Some index \<Rightarrow> if index < length (layers st) then Some (layers st ! index) else None)"

text \<open>\<open>None\<close> is the panic of an index out of bounds.\<close>

definition with_user_config ::
  "(toml_value \<Rightarrow> string) \<Rightarrow> path \<Rightarrow> toml_value \<Rightarrow> config_layer_stack \<Rightarrow> config_layer_stack option"
where
  "with_user_config version_for config_toml user_config st =
     (let user_layer = new_layer version_for (LayerUser config_toml) user_config; ls = layers st in
      case user_layer_index st of
        Some index \<Rightarrow>
          if index < length ls then Some (st\<lparr>layers := ls[index := user_layer]\<rparr>) else None
      | None \<Rightarrow>
          (case List.find (\<lambda>i. precedence (entry_name (ls ! i)) > precedence (entry_name user_layer)) [0..<length ls] of
             Some index \<Rightarrow> Some \<lparr>layers = take index ls @ user_layer # drop index ls, user_layer_index = Some index\<rparr>
           | None \<Rightarrow> Some \<lparr>layers = ls @ [user_layer], user_layer_index = Some (length ls)\<rparr>))"

datatype stack_ordering = LowestPrecedenceFirst | HighestPrecedenceFirst

definition get_layers :: "config_layer_stack \<Rightarrow> stack_ordering \<Rightarrow> bool \<Rightarrow> config_layer_entry list" where
  "get_layers st direction include_disabled =
     (let ls = filter (\<lambda>layer. include_disabled \<or> \<not> is_disabled layer) (layers st) in
      if direction = HighestPrecedenceFirst then rev ls else ls)"

definition layers_high_to_low :: "config_layer_stack \<Rightarrow> config_layer_entry list" where
  "layers_high_to_low st = get_layers st HighestPrecedenceFirst False"

definition merge_layers :: "config_layer_entry list \<Rightarrow> toml_value" where
  "merge_layers ls = fold (\<lambda>layer merged. merge_toml_values merged (entry_config layer)) ls empty_table"

definition effective_config :: "config_layer_stack \<Rightarrow> toml_value" where
  "effective_config st = merge_layers (get_layers st LowestPrecedenceFirst False)"

text \<open>\<open>push\<close> and \<open>pop\<close> around the recursive call: the path is an argument here.\<close>

fun record_origins ::
    "toml_value \<Rightarrow> layer_metadata \<Rightarrow> string list \<Rightarrow> (string \<rightharpoonup> layer_metadata) \<Rightarrow> (string \<rightharpoonup> layer_metadata)"
  and record_entries ::
    "(string \<times> toml_value) list \<Rightarrow> layer_metadata \<Rightarrow> string list \<Rightarrow> (string \<rightharpoonup> layer_metadata) \<Rightarrow> (string \<rightharpoonup> layer_metadata)"
  and record_items ::
    "nat \<Rightarrow> toml_value list \<Rightarrow> layer_metadata \<Rightarrow> string list \<Rightarrow> (string \<rightharpoonup> layer_metadata) \<Rightarrow> (string \<rightharpoonup> layer_metadata)"
where
  "record_origins (TomlTable table) meta p origins = record_entries table meta p origins"
| "record_origins (TomlArray items) meta p origins = record_items 0 items meta p origins"
| "record_origins v meta p origins = (if p \<noteq> [] then origins(join_str ''.'' p \<mapsto> meta) else origins)"
| "record_entries [] meta p origins = origins"
| "record_entries ((key, v) # table) meta p origins =
     record_entries table meta p (record_origins v meta (p @ [key]) origins)"
| "record_items idx [] meta p origins = origins"
| "record_items idx (item # items) meta p origins =
     record_items (idx + 1) items meta p (record_origins item meta (p @ [nat_digits idx]) origins)"

definition origins :: "config_layer_stack \<Rightarrow> (string \<rightharpoonup> layer_metadata)" where
  "origins st =
     fold (\<lambda>layer. record_origins (entry_config layer) (metadata layer) [])
       (get_layers st LowestPrecedenceFirst False) Map.empty"


subsection \<open>Merging\<close>

text \<open>The scalars of a value with the paths they stand at.\<close>

fun leaves :: "toml_value \<Rightarrow> (string list \<times> toml_value) list"
  and entry_leaves :: "(string \<times> toml_value) list \<Rightarrow> (string list \<times> toml_value) list"
  and item_leaves :: "nat \<Rightarrow> toml_value list \<Rightarrow> (string list \<times> toml_value) list" where
  "leaves (TomlTable table) = entry_leaves table"
| "leaves (TomlArray items) = item_leaves 0 items"
| "leaves v = [([], v)]"
| "entry_leaves [] = []"
| "entry_leaves ((key, v) # table) = map (map_prod (Cons key) id) (leaves v) @ entry_leaves table"
| "item_leaves idx [] = []"
| "item_leaves idx (item # items) =
     map (map_prod (Cons (nat_digits idx)) id) (leaves item) @ item_leaves (idx + 1) items"

definition leaf_paths :: "toml_value \<Rightarrow> string list set" where
  "leaf_paths v = fst ` set (leaves v)"

lemma entry_leaves_set: "(p, w) \<in> set (entry_leaves es) \<longleftrightarrow> (\<exists>key v q. (key, v) \<in> set es \<and> p = key # q \<and> (q, w) \<in> set (leaves v))"
proof (induction es)
  case (Cons e es)
  obtain key v where "e = (key, v)" by fastforce
  moreover have "(p, w) \<in> map_prod (Cons key) id ` A \<longleftrightarrow> (\<exists>q. p = key # q \<and> (q, w) \<in> A)" for A :: "(string list \<times> toml_value) set"
    by force
  ultimately show ?case using Cons.IH by auto
qed simp

lemma table_leaves:
  assumes "distinct (map fst es)"
  shows "(p, w) \<in> set (leaves (TomlTable es)) \<longleftrightarrow> (\<exists>key v q. map_of es key = Some v \<and> p = key # q \<and> (q, w) \<in> set (leaves v))"
  using assms by (auto simp: entry_leaves_set)

fun is_table :: "toml_value \<Rightarrow> bool" where
  "is_table (TomlTable _) = True"
| "is_table _ = False"

lemma merge_tables [simp]: "merge_toml_values (TomlTable b) (TomlTable ov) = TomlTable (merge_entries b ov)"
  by (simp add: merge_toml_values.simps)

lemma merge_replaces: "\<not> is_table b \<or> \<not> is_table ov \<Longrightarrow> merge_toml_values b ov = ov"
  by (cases b; cases ov) (simp_all add: merge_toml_values.simps)

lemma merge_entries_keys: "distinct (map fst b) \<Longrightarrow> distinct (map fst (merge_entries b ov))"
  by (induction ov arbitrary: b) (auto simp: distinct_update split: prod.splits)

lemma map_of_merge_entries:
  "distinct (map fst ov) \<Longrightarrow> map_of (merge_entries b ov) key =
     (case map_of ov key of
        None \<Rightarrow> map_of b key
      | Some v \<Rightarrow> Some (case map_of b key of Some existing \<Rightarrow> merge_toml_values existing v | None \<Rightarrow> v))"
proof (induction ov arbitrary: b key)
  case (Cons e ov)
  obtain k v where e: "e = (k, v)" by fastforce
  with Cons.prems have absent: "map_of ov k = None" by (simp add: map_of_eq_None_iff)
  have IH: "map_of (merge_entries b ov) key =
      (case map_of ov key of None \<Rightarrow> map_of b key
       | Some w \<Rightarrow> Some (case map_of b key of Some existing \<Rightarrow> merge_toml_values existing w | None \<Rightarrow> w))" for b key
    by (rule Cons.IH) (use Cons.prems in simp)
  show ?case by (simp add: e IH absent AList.update_conv' split: option.split)
qed simp

text \<open>What a merged table shows: the scalars of the overlay, and those of the base that the overlay
  does not set.\<close>

lemma map_of_wf: "wf_toml (TomlTable es) \<Longrightarrow> map_of es key = Some v \<Longrightarrow> wf_toml v"
  by (auto dest!: map_of_SomeD)

lemma merged_wf_step:
  assumes "wf_toml (TomlTable b)" and "wf_toml (TomlTable ov)"
    and "\<And>key v w. map_of b key = Some v \<Longrightarrow> map_of ov key = Some w \<Longrightarrow> wf_toml (merge_toml_values v w)"
  shows "wf_toml (TomlTable (merge_entries b ov))"
proof -
  have keys: "distinct (map fst (merge_entries b ov))" using assms(1) merge_entries_keys by simp
  have "wf_toml v" if merged: "map_of (merge_entries b ov) key = Some v" for key v
  proof (cases "map_of ov key")
    case None
    with merged assms(2) map_of_wf [OF assms(1)] show ?thesis by (simp add: map_of_merge_entries)
  next
    case (Some w)
    with merged assms(2) have "v = (case map_of b key of Some existing \<Rightarrow> merge_toml_values existing w | None \<Rightarrow> w)"
      by (simp add: map_of_merge_entries)
    with Some assms(3) map_of_wf [OF assms(2) Some] show ?thesis by (cases "map_of b key") auto
  qed
  then have "wf_toml (snd e)" if "e \<in> set (merge_entries b ov)" for e
    using that keys by (metis map_of_eq_Some_iff prod.collapse)
  with keys show ?thesis by simp
qed

lemma merge_induct [case_names replace tables]:
  assumes "\<And>b ov. \<not> is_table b \<or> \<not> is_table ov \<Longrightarrow> P b ov"
    and "\<And>bs os. (\<And>key v w. map_of bs key = Some v \<Longrightarrow> map_of os key = Some w \<Longrightarrow> P v w) \<Longrightarrow>
      P (TomlTable bs) (TomlTable os)"
  shows "P b ov"
proof (induction "size b" arbitrary: b ov rule: less_induct)
  case (less b ov)
  show ?case
  proof (cases "is_table b \<and> is_table ov")
    case True
    then obtain bs os where eq: "b = TomlTable bs" "ov = TomlTable os"
      by (metis is_table.elims(2))
    have "size v < size b" if "map_of bs key = Some v" for key v
      using size_list_estimation' [of "(key, v)" bs "size v" "size_prod (\<lambda>_. 0) size"] map_of_SomeD [OF that]
      by (simp add: eq)
    then have "P v w" if "map_of bs key = Some v" "map_of os key = Some w" for key v w
      using less.hyps that(1) by blast
    then show ?thesis unfolding eq by (rule assms(2))
  qed (use assms(1) in blast)
qed

lemma merge_wf: "wf_toml b \<Longrightarrow> wf_toml ov \<Longrightarrow> wf_toml (merge_toml_values b ov)"
proof (induction b ov rule: merge_induct)
  case (tables bs os)
  have "wf_toml (merge_toml_values v w)" if "map_of bs key = Some v" "map_of os key = Some w" for key v w
    using tables.IH [OF that] map_of_wf [OF tables.prems(1) that(1)] map_of_wf [OF tables.prems(2) that(2)] by blast
  then show ?case unfolding merge_tables by (rule merged_wf_step [OF tables.prems])
qed (simp add: merge_replaces)

lemma wf_table_keys: "wf_toml (TomlTable es) \<Longrightarrow> distinct (map fst es)"
  by simp

lemma merged_leaf:
  "(p, w) \<in> set (leaves (merge_toml_values b ov)) \<Longrightarrow> wf_toml b \<Longrightarrow> wf_toml ov \<Longrightarrow>
   (p, w) \<in> set (leaves ov) \<or> ((p, w) \<in> set (leaves b) \<and> p \<notin> leaf_paths ov)"
proof (induction b ov arbitrary: p rule: merge_induct)
  case (tables bs os)
  note keys = wf_table_keys [OF tables.prems(2)] wf_table_keys [OF tables.prems(3)]
  from tables.prems(1) obtain key v q where v: "map_of (merge_entries bs os) key = Some v" "p = key # q" "(q, w) \<in> set (leaves v)"
    by (simp only: merge_tables table_leaves [OF merge_entries_keys [OF keys(1)]]) blast
  have set_os: "(key # q, u) \<in> set (leaves (TomlTable os)) \<longleftrightarrow> (\<exists>x. map_of os key = Some x \<and> (q, u) \<in> set (leaves x))" for u
    by (simp only: table_leaves [OF keys(2)]) simp
  have set_bs: "(key # q, u) \<in> set (leaves (TomlTable bs)) \<longleftrightarrow> (\<exists>x. map_of bs key = Some x \<and> (q, u) \<in> set (leaves x))" for u
    by (simp only: table_leaves [OF keys(1)]) simp
  have paths: "key # q \<in> leaf_paths (TomlTable os) \<longleftrightarrow> (\<exists>x. map_of os key = Some x \<and> q \<in> leaf_paths x)"
    using set_os by (force simp: leaf_paths_def image_iff Bex_def simp del: leaves.simps)
  show ?case
  proof (cases "map_of os key")
    case None
    with v keys show ?thesis by (simp only: paths set_os set_bs v(2)) (simp add: map_of_merge_entries)
  next
    case (Some x)
    show ?thesis
    proof (cases "map_of bs key")
      case None
      with Some v keys(2) show ?thesis by (simp only: set_os v(2)) (simp add: map_of_merge_entries)
    next
      case (Some y)
      with \<open>map_of os key = Some x\<close> v(1) keys(2) have "v = merge_toml_values y x" by (simp add: map_of_merge_entries)
      with tables.IH [OF Some \<open>map_of os key = Some x\<close>, of q] v(3) tables.prems(2,3) Some \<open>map_of os key = Some x\<close> map_of_wf
      have "(q, w) \<in> set (leaves x) \<or> ((q, w) \<in> set (leaves y) \<and> q \<notin> leaf_paths x)" by blast
      with Some \<open>map_of os key = Some x\<close> show ?thesis by (simp only: paths set_os set_bs v(2)) simp
    qed
  qed
qed (simp add: merge_replaces)

lemma overlay_leaf:
  "(p, w) \<in> set (leaves ov) \<Longrightarrow> wf_toml b \<Longrightarrow> wf_toml ov \<Longrightarrow> (p, w) \<in> set (leaves (merge_toml_values b ov))"
proof (induction b ov arbitrary: p rule: merge_induct)
  case (tables bs os)
  note keys = wf_table_keys [OF tables.prems(2)] wf_table_keys [OF tables.prems(3)]
  from tables.prems(1) obtain key v q where v: "map_of os key = Some v" "p = key # q" "(q, w) \<in> set (leaves v)"
    by (simp only: table_leaves [OF keys(2)]) blast
  have "\<exists>x. map_of (merge_entries bs os) key = Some x \<and> (q, w) \<in> set (leaves x)"
  proof (cases "map_of bs key")
    case (Some y)
    with tables.IH [OF Some v(1) v(3)] tables.prems(2,3) v(1) map_of_wf keys(2) show ?thesis
      by (simp add: map_of_merge_entries) blast
  qed (use v keys(2) in \<open>simp add: map_of_merge_entries\<close>)
  then show ?case by (simp only: merge_tables table_leaves [OF merge_entries_keys [OF keys(1)]] v(2)) blast
qed (simp add: merge_replaces)

text \<open>Every scalar of the effective configuration is one of the last enabled layer that sets its path.\<close>

lemma merge_layers_snoc: "merge_layers (ls @ [l]) = merge_toml_values (merge_layers ls) (entry_config l)"
  by (simp add: merge_layers_def)

lemma merge_layers_wf: "\<forall>l \<in> set ls. wf_toml (entry_config l) \<Longrightarrow> wf_toml (merge_layers ls)"
  by (induction ls rule: rev_induct) (auto simp: merge_layers_snoc merge_wf, simp add: merge_layers_def empty_table_def)

definition last_setting :: "config_layer_entry list \<Rightarrow> string list \<Rightarrow> config_layer_entry \<Rightarrow> bool" where
  "last_setting ls p l =
     (\<exists>pre post. ls = pre @ l # post \<and> p \<in> leaf_paths (entry_config l) \<and> (\<forall>l' \<in> set post. p \<notin> leaf_paths (entry_config l')))"

lemma last_setting_in: "last_setting ls p l \<Longrightarrow> l \<in> set ls \<and> p \<in> leaf_paths (entry_config l)"
  unfolding last_setting_def by (elim exE conjE) simp

lemma last_setting_snoc:
  "last_setting (ls @ [l]) p l' \<longleftrightarrow>
     (if p \<in> leaf_paths (entry_config l) then l' = l else last_setting ls p l')"
proof -
  have "last_setting (ls @ [l]) p l' \<longleftrightarrow>
      (l' = l \<and> p \<in> leaf_paths (entry_config l)) \<or> (p \<notin> leaf_paths (entry_config l) \<and> last_setting ls p l')"
  proof
    assume "last_setting (ls @ [l]) p l'"
    then obtain pre post where s: "ls @ [l] = pre @ l' # post" "p \<in> leaf_paths (entry_config l')"
      "\<forall>l' \<in> set post. p \<notin> leaf_paths (entry_config l')"
      by (auto simp: last_setting_def)
    show "(l' = l \<and> p \<in> leaf_paths (entry_config l)) \<or> (p \<notin> leaf_paths (entry_config l) \<and> last_setting ls p l')"
    proof (cases post rule: rev_cases)
      case (snoc post' x)
      with s have "ls = pre @ l' # post'" "x = l" by simp_all
      with s snoc show ?thesis by (auto simp: last_setting_def)
    qed (use s in simp)
  next
    assume "(l' = l \<and> p \<in> leaf_paths (entry_config l)) \<or> (p \<notin> leaf_paths (entry_config l) \<and> last_setting ls p l')"
    then show "last_setting (ls @ [l]) p l'"
    proof (elim disjE conjE)
      assume "p \<notin> leaf_paths (entry_config l)" "last_setting ls p l'"
      then obtain pre post where "ls @ [l] = pre @ l' # (post @ [l])" "p \<in> leaf_paths (entry_config l')"
        "\<forall>l' \<in> set (post @ [l]). p \<notin> leaf_paths (entry_config l')"
        by (auto simp: last_setting_def)
      then show ?thesis unfolding last_setting_def by blast
    next
      assume "l' = l" "p \<in> leaf_paths (entry_config l)"
      then have "ls @ [l] = ls @ l' # []" "p \<in> leaf_paths (entry_config l')" by simp_all
      then show ?thesis unfolding last_setting_def by fastforce
    qed
  qed
  then show ?thesis by auto
qed

lemma merged_setting:
  "(p, w) \<in> set (leaves (merge_layers ls)) \<Longrightarrow> \<forall>l \<in> set ls. wf_toml (entry_config l) \<Longrightarrow>
   \<exists>l. last_setting ls p l \<and> (p, w) \<in> set (leaves (entry_config l))"
proof (induction ls rule: rev_induct)
  case (snoc l ls)
  have wf: "wf_toml (merge_layers ls)" "wf_toml (entry_config l)" using snoc.prems(2) by (auto intro: merge_layers_wf)
  from merged_leaf [OF snoc.prems(1) [unfolded merge_layers_snoc] wf] show ?case
  proof (elim disjE conjE)
    assume "(p, w) \<in> set (leaves (entry_config l))"
    then show ?thesis by (force simp: last_setting_snoc leaf_paths_def)
  next
    assume "(p, w) \<in> set (leaves (merge_layers ls))" and "p \<notin> leaf_paths (entry_config l)"
    with snoc.IH snoc.prems(2) show ?thesis by (auto simp: last_setting_snoc)
  qed
qed (simp add: merge_layers_def empty_table_def)

subsection \<open>Origins\<close>

fun dotless :: "toml_value \<Rightarrow> bool" where
  "dotless (TomlTable es) = (\<forall>e \<in> set es. CHR ''.'' \<notin> set (fst e) \<and> dotless (snd e))"
| "dotless (TomlArray xs) = (\<forall>x \<in> set xs. dotless x)"
| "dotless _ = True"

lemma nat_digits_dotless: "CHR ''.'' \<notin> set (nat_digits n)"
proof (induction n rule: nat_digits.induct)
  case (1 n)
  have digit: "False" if "CHR ''.'' = char_of (48 + m)" "m < 10" for m :: nat
  proof -
    from that(1) have "of_char CHR ''.'' = (of_char (char_of (48 + m)) :: nat)" by simp
    with that(2) show False by simp
  qed
  with 1 show ?case by (subst nat_digits.simps) (auto dest: digit)
qed

lemma dotless_leaves:
  "dotless v \<Longrightarrow> \<forall>l \<in> set (leaves v). \<forall>s \<in> set (fst l). CHR ''.'' \<notin> set s"
  "\<forall>e \<in> set es. CHR ''.'' \<notin> set (fst e) \<and> dotless (snd e) \<Longrightarrow>
    \<forall>l \<in> set (entry_leaves es). \<forall>s \<in> set (fst l). CHR ''.'' \<notin> set s"
  "\<forall>x \<in> set xs. dotless x \<Longrightarrow> \<forall>l \<in> set (item_leaves idx xs). \<forall>s \<in> set (fst l). CHR ''.'' \<notin> set s"
  by (induction v and es and idx xs rule: leaves_entry_leaves_item_leaves.induct)
    (simp_all add: nat_digits_dotless ball_Un)

lemma entry_paths_nonempty: "\<forall>l \<in> set (entry_leaves es). fst l \<noteq> []"
  by (induction es) auto

lemma item_paths_nonempty: "\<forall>l \<in> set (item_leaves idx xs). fst l \<noteq> []"
  by (induction xs arbitrary: idx) (auto simp: ball_Un)

lemma record_origins_eq:
  "record_origins v meta p og q =
     (if \<exists>l \<in> set (leaves v). p @ fst l \<noteq> [] \<and> q = join_str ''.'' (p @ fst l) then Some meta else og q)"
  "record_entries es meta p og q =
     (if \<exists>l \<in> set (entry_leaves es). q = join_str ''.'' (p @ fst l) then Some meta else og q)"
  "record_items idx xs meta p og q =
     (if \<exists>l \<in> set (item_leaves idx xs). q = join_str ''.'' (p @ fst l) then Some meta else og q)"
proof (induction v meta p og and es meta p og and idx xs meta p og rule: record_origins_record_entries_record_items.induct)
  case (1 table meta p og)
  then show ?case using entry_paths_nonempty [of table] by auto
next
  case (2 items meta p og)
  then show ?case using item_paths_nonempty [of 0 items] by auto
qed (simp_all add: bex_Un)

lemma split_char_sep: "c \<notin> set x \<Longrightarrow> split_char c (x @ c # s) = x # split_char c s"
  by (induction x) auto

lemma split_join: "xs \<noteq> [] \<Longrightarrow> \<forall>s \<in> set xs. c \<notin> set s \<Longrightarrow> split_char c (join_str [c] xs) = xs"
proof (induction "[c]" xs rule: join_str.induct)
  case (3 x y xs)
  then show ?case by (simp add: split_char_sep)
qed (simp_all add: split_char_absent)

lemma join_dotless_inject:
  assumes "dotless v" and "dotless v'" and "p \<in> leaf_paths v" and "p' \<in> leaf_paths v'" and "p \<noteq> []" and "p' \<noteq> []"
    and "join_str ''.'' p = join_str ''.'' p'"
  shows "p = p'"
proof -
  have "split_char (CHR ''.'') (join_str ''.'' r) = r" if "dotless u" "r \<in> leaf_paths u" "r \<noteq> []" for u r
    using dotless_leaves(1) [OF that(1)] that(2,3) by (intro split_join) (force simp: leaf_paths_def)+
  with assms show ?thesis by metis
qed

lemma origins_fold:
  assumes "\<forall>l \<in> set ls. dotless (entry_config l)" and "last_setting ls p l" and "p \<noteq> []"
  shows "fold (\<lambda>layer. record_origins (entry_config layer) (metadata layer) []) ls og (join_str ''.'' p) = Some (metadata l)"
  using assms(1,2)
proof (induction ls arbitrary: l rule: rev_induct)
  case (snoc x ls)
  have "dotless (entry_config l)" "p \<in> leaf_paths (entry_config l)"
    using snoc.prems(1) last_setting_in [OF snoc.prems(2)] by blast+
  then have "p' = p" if "p' \<in> leaf_paths (entry_config x)" "p' \<noteq> []" "join_str ''.'' p = join_str ''.'' p'" for p'
    using join_dotless_inject [of "entry_config l" "entry_config x" p p'] that snoc.prems(1) assms(3) by simp
  then have sets: "(\<exists>q \<in> set (leaves (entry_config x)). fst q \<noteq> [] \<and> join_str ''.'' p = join_str ''.'' (fst q)) \<longleftrightarrow>
      p \<in> leaf_paths (entry_config x)"
    using assms(3) by (force simp: leaf_paths_def)
  show ?case using snoc.prems snoc.IH by (auto simp: record_origins_eq(1) sets last_setting_snoc split: if_splits)
qed (use last_setting_in in fastforce)

text \<open>The configuration in force and what is reported about it agree: every setting of the effective
  configuration is one that an enabled layer has and that no layer above it sets, and the origin
  reported for its path is that layer.  Keys that contain a dot are excluded: origins are reported
  under paths joined by dots.\<close>

lemma origins_name_the_deciding_layer:
  assumes "\<forall>l \<in> set (layers st). wf_toml (entry_config l) \<and> dotless (entry_config l)"
    and "(p, w) \<in> set (leaves (effective_config st))" and "p \<noteq> []"
  shows "\<exists>l. last_setting (get_layers st LowestPrecedenceFirst False) p l \<and>
    (p, w) \<in> set (leaves (entry_config l)) \<and> origins st (join_str ''.'' p) = Some (metadata l)"
proof -
  let ?ls = "get_layers st LowestPrecedenceFirst False"
  have ls: "\<forall>l \<in> set ?ls. wf_toml (entry_config l)" "\<forall>l \<in> set ?ls. dotless (entry_config l)"
    using assms(1) by (auto simp: get_layers_def)
  from merged_setting [OF assms(2) [unfolded effective_config_def] ls(1)] obtain l
    where "last_setting ?ls p l" "(p, w) \<in> set (leaves (entry_config l))" by blast
  moreover from origins_fold [OF ls(2) this(1) assms(3)] have "origins st (join_str ''.'' p) = Some (metadata l)"
    by (simp add: origins_def)
  ultimately show ?thesis by blast
qed

subsection \<open>The order of a stack\<close>

definition stack_ok :: "config_layer_stack \<Rightarrow> bool" where
  "stack_ok st = (verify_layer_ordering (layers st) = Inr (user_layer_index st))"

definition project_folders :: "config_layer_entry list \<Rightarrow> path list" where
  "project_folders ls = List.map_filter (\<lambda>l. case entry_name l of LayerProject d \<Rightarrow> Some d | _ \<Rightarrow> None) ls"

fun folders_follow :: "path option \<Rightarrow> path list \<Rightarrow> (ordering_error, unit) result" where
  "folders_follow previous [] = Inr ()"
| "folders_follow previous (d # ds) =
     (case project_layer_follows previous d of Inl e \<Rightarrow> Inl e | Inr _ \<Rightarrow> folders_follow (Some d) ds)"

lemma project_folders_simps:
  "project_folders [] = []"
  "project_folders (l # ls) = (case entry_name l of LayerProject d \<Rightarrow> d # project_folders ls | _ \<Rightarrow> project_folders ls)"
  "project_folders (xs @ ys) = project_folders xs @ project_folders ys"
  by (simp_all add: project_folders_def List.map_filter_def split: config_layer_source.split)

lemma user_layer_no_folder: "is_user_layer l \<Longrightarrow> project_folders (l # ls) = project_folders ls"
  by (auto simp: is_user_layer_def project_folders_simps split: config_layer_source.splits)

lemma new_stack_ok: "new_layer_stack ls = Inr st \<Longrightarrow> stack_ok st"
  by (auto simp: new_layer_stack_def stack_ok_def split: sum.splits)

lemma loop_without_user:
  "\<not> list_ex is_user_layer ls \<Longrightarrow>
   verify_layers_loop ls i user prev = (case folders_follow prev (project_folders ls) of Inl e \<Rightarrow> Inl e | Inr _ \<Rightarrow> Inr user)"
  by (induction ls arbitrary: i prev)
    (auto simp: project_folders_simps Let_def split: config_layer_source.split sum.split)

lemma loop_after_user: "verify_layers_loop ls i (Some j) prev = Inr u \<Longrightarrow> \<not> list_ex is_user_layer ls"
  by (induction ls arbitrary: i prev) (auto simp: Let_def split: if_splits config_layer_source.splits sum.splits)

lemma loop_through_user:
  assumes "is_user_layer l" and "\<not> list_ex is_user_layer (pre @ post)"
  shows "verify_layers_loop (pre @ l # post) i None prev =
    (case folders_follow prev (project_folders (pre @ post)) of Inl e \<Rightarrow> Inl e | Inr _ \<Rightarrow> Inr (Some (i + length pre)))"
  using assms(2)
proof (induction pre arbitrary: i prev)
  case Nil
  have "verify_layers_loop (l # post) i None prev = verify_layers_loop post (i + 1) (Some i) prev"
    using assms(1) by (auto simp: is_user_layer_def split: config_layer_source.splits)
  with Nil show ?case by (simp add: loop_without_user split: sum.split)
qed (auto simp: project_folders_simps Let_def split: config_layer_source.split sum.split)

lemma loop_finds_user:
  "verify_layers_loop ls i None prev = Inr u \<Longrightarrow>
   (case u of None \<Rightarrow> \<not> list_ex is_user_layer ls
    | Some j \<Rightarrow> \<exists>pre l post. ls = pre @ l # post \<and> j = i + length pre \<and> is_user_layer l \<and> \<not> list_ex is_user_layer (pre @ post))"
proof (induction ls arbitrary: i prev)
  case (Cons x ls)
  show ?case
  proof (cases "is_user_layer x")
    case True
    with Cons.prems have loop: "verify_layers_loop ls (i + 1) (Some i) prev = Inr u"
      by (auto simp: is_user_layer_def Let_def split: config_layer_source.splits)
    note no_user = loop_after_user [OF loop]
    with loop have "u = Some i" by (auto simp: loop_without_user split: sum.splits)
    with True no_user show ?thesis by (auto intro!: exI [of _ "[]"])
  next
    case False
    with Cons.prems obtain prev' where "verify_layers_loop ls (i + 1) None prev' = Inr u"
      by (auto simp: Let_def split: config_layer_source.splits sum.splits)
    note found = Cons.IH [OF this]
    show ?thesis
    proof (cases u)
      case (Some j)
      with found obtain pre l post where "ls = pre @ l # post" "j = i + 1 + length pre" "is_user_layer l"
        "\<not> list_ex is_user_layer (pre @ post)" by auto
      with False Some show ?thesis by (auto intro!: exI [of _ "x # pre"])
    qed (use found False in simp)
  qed
qed simp

lemma sorted_precedence_split:
  assumes "sorted_wrt (\<le>) (map (precedence \<circ> entry_name) (pre @ l # post))" and "is_user_layer l" and "is_user_layer l'"
  shows "sorted_wrt (\<le>) (map (precedence \<circ> entry_name) (pre @ l' # post))"
  using assms by (auto simp: is_user_layer_def sorted_wrt_append split: config_layer_source.splits)

lemma first_above:
  assumes "sorted_wrt (\<le>) (map (precedence \<circ> entry_name) ls)"
  obtains pre post where "ls = pre @ post" and "\<forall>l \<in> set pre. precedence (entry_name l) \<le> 20"
    and "\<forall>l \<in> set post. precedence (entry_name l) > 20"
    and "List.find (\<lambda>i. precedence (entry_name (ls ! i)) > 20) [0..<length ls] = (if post = [] then None else Some (length pre))"
proof (cases "List.find (\<lambda>i. precedence (entry_name (ls ! i)) > 20) [0..<length ls]")
  case None
  then have "\<forall>l \<in> set ls. precedence (entry_name l) \<le> 20"
    by (auto simp: find_upt_None_iff in_set_conv_nth not_less)
  with None show ?thesis by (intro that [of ls "[]"]) auto
next
  case (Some i)
  then have i: "i < length ls" "precedence (entry_name (ls ! i)) > 20"
      "\<forall>j < i. precedence (entry_name (ls ! j)) \<le> 20"
    by (auto simp: find_upt_Some_iff not_less)
  have "precedence (entry_name (ls ! j)) > 20" if "i \<le> j" "j < length ls" for j
    using assms i(2) that by (cases "i = j") (auto simp: sorted_wrt_iff_nth_less intro: less_le_trans)
  then have "\<forall>l \<in> set (drop i ls). precedence (entry_name l) > 20"
    by (auto simp: in_set_conv_nth)
  moreover have "\<forall>l \<in> set (take i ls). precedence (entry_name l) \<le> 20"
    using i by (auto simp: in_set_conv_nth)
  ultimately show ?thesis using i(1) Some by (intro that [of "take i ls" "drop i ls"]) auto
qed

lemma with_user_config_spec:
  assumes "stack_ok st"
  shows "\<exists>st'. with_user_config version_for file config st = Some st' \<and> stack_ok st' \<and>
    get_user_layer st' = Some (new_layer version_for (LayerUser file) config) \<and>
    filter (\<lambda>l. \<not> is_user_layer l) (layers st') = filter (\<lambda>l. \<not> is_user_layer l) (layers st)"
proof -
  let ?ls = "layers st" and ?user = "new_layer version_for (LayerUser file) config"
  have user: "is_user_layer ?user" "precedence (entry_name ?user) = 20" by (simp_all add: is_user_layer_def new_layer_def)
  from assms have sorted: "sorted_wrt (\<le>) (map (precedence \<circ> entry_name) ?ls)"
    and loop: "verify_layers_loop ?ls 0 None None = Inr (user_layer_index st)"
    by (auto simp: stack_ok_def verify_layer_ordering_def split: if_splits)
  note found = loop_finds_user [OF loop]
  show ?thesis
  proof (cases "user_layer_index st")
    case (Some j)
    with found obtain pre l post where ls: "?ls = pre @ l # post" "j = length pre" "is_user_layer l"
      "\<not> list_ex is_user_layer (pre @ post)" by auto
    have "verify_layers_loop (pre @ ?user # post) 0 None None = Inr (Some j)"
      using loop Some unfolding ls(1) loop_through_user [OF ls(3,4)] loop_through_user [OF user(1) ls(4)] by simp
    with sorted_precedence_split [OF sorted [unfolded ls(1)] ls(3) user(1)] show ?thesis
      using ls user(1) Some
      by (simp add: with_user_config_def Let_def stack_ok_def verify_layer_ordering_def get_user_layer_def list_update_append)
  next
    case None
    with found have no_user: "\<not> list_ex is_user_layer ?ls" by simp
    obtain pre post where ls: "?ls = pre @ post" "\<forall>l \<in> set pre. precedence (entry_name l) \<le> 20"
        "\<forall>l \<in> set post. precedence (entry_name l) > 20"
        "List.find (\<lambda>i. precedence (entry_name (?ls ! i)) > 20) [0..<length ?ls] = (if post = [] then None else Some (length pre))"
      by (rule first_above [OF sorted])
    have "sorted_wrt (\<le>) (map (precedence \<circ> entry_name) (pre @ ?user # post))"
      using sorted ls user(2) by (auto simp: sorted_wrt_append less_imp_le)
    moreover have "verify_layers_loop (pre @ ?user # post) 0 None None = Inr (Some (length pre))"
      using loop no_user by (simp add: ls(1) loop_without_user loop_through_user user(1) split: sum.splits)
    moreover have "with_user_config version_for file config st =
        Some \<lparr>layers = pre @ ?user # post, user_layer_index = Some (length pre)\<rparr>"
      using None ls(1,4) user(2) by (simp add: with_user_config_def Let_def)
    ultimately show ?thesis
      using user(1) by (simp add: stack_ok_def verify_layer_ordering_def get_user_layer_def ls(1))
  qed
qed

lemma with_user_config_layers:
  "with_user_config version_for file config st = Some st' \<Longrightarrow>
   set (layers st') \<subseteq> insert (new_layer version_for (LayerUser file) config) (set (layers st))"
  using set_take_subset set_drop_subset set_update_subset_insert
  by (fastforce simp: with_user_config_def Let_def split: option.splits if_splits)

text \<open>Writing the user's configuration keeps a stack of layers in order.  The layer of the user is put
  in the place of the old one, or between the layers below and above it, without touching any other
  layer; the result passes the check that a new stack has to pass, with the user's layer at the index
  that is kept for it.\<close>

lemma with_user_config_keeps_the_order:
  assumes "stack_ok st"
  shows "\<exists>st'. with_user_config version_for file config st = Some st' \<and> stack_ok st' \<and>
    get_user_layer st' = Some (new_layer version_for (LayerUser file) config) \<and>
    filter (\<lambda>l. \<not> is_user_layer l) (layers st') = filter (\<lambda>l. \<not> is_user_layer l) (layers st)"
  using assms by (rule with_user_config_spec)

subsection \<open>Witnesses\<close>

definition sample_layers :: config_layer_stack where
  "sample_layers =
     \<lparr>layers = [new_layer (\<lambda>_. ''v'') (LayerSystem [RootDir, NormalComponent ''s'']) (TomlTable [(''m'', TomlTable [(''a'', TomlInteger 1)])]),
                new_layer (\<lambda>_. ''w'') LayerSessionFlags (TomlTable [(''m'', TomlTable [(''b'', TomlInteger 2)])])],
      user_layer_index = None\<rparr>"

end
