(* ===== verification/Proxy_Spec.thy ===== *)
theory Proxy_Spec
  imports Proxy_Handlers Sandbox_Policy Exec_Policy Config_Layers
begin

section \<open>Where the settings of the network proxy come from\<close>

text \<open>
  A model of \<^verbatim>\<open>codex-rs/core/src/network_proxy_loader.rs\<close> (settings and constraints from the layers of
  the configuration, and the network rules of the execution policy),
  \<^verbatim>\<open>codex-rs/core/src/config/network_proxy_spec.rs\<close> (settings under the requirements of an
  administrator, and the decider the proxy is started with), the network part of
  \<^verbatim>\<open>codex-rs/core/src/config/permissions.rs\<close>, and the addresses the proxy listens on
  (\<^verbatim>\<open>codex-rs/network-proxy/src/config.rs\<close>).  The texts of the layers are parsed by a library.
\<close>

subsection \<open>Layers\<close>

record network_toml =
  toml_enabled :: "bool option"
  toml_proxy_url :: "string option"
  toml_enable_socks5 :: "bool option"
  toml_socks_url :: "string option"
  toml_enable_socks5_udp :: "bool option"
  toml_upstream_proxy :: "bool option"
  toml_non_loopback_proxy :: "bool option"
  toml_all_unix_sockets :: "bool option"
  toml_mode :: "network_mode option"
  toml_allowed_domains :: "string list option"
  toml_denied_domains :: "string list option"
  toml_unix_sockets :: "string list option"
  toml_local_binding :: "bool option"

definition apply_to_network_proxy_config :: "network_toml \<Rightarrow> proxy_settings \<Rightarrow> proxy_settings" where
  "apply_to_network_proxy_config t cfg =
     \<lparr>set_enabled = or_default (set_enabled cfg) (toml_enabled t),
      set_proxy_url = or_default (set_proxy_url cfg) (toml_proxy_url t),
      set_enable_socks5 = or_default (set_enable_socks5 cfg) (toml_enable_socks5 t),
      set_socks_url = or_default (set_socks_url cfg) (toml_socks_url t),
      set_enable_socks5_udp = or_default (set_enable_socks5_udp cfg) (toml_enable_socks5_udp t),
      set_upstream_proxy = or_default (set_upstream_proxy cfg) (toml_upstream_proxy t),
      set_non_loopback_proxy = or_default (set_non_loopback_proxy cfg) (toml_non_loopback_proxy t),
      set_all_unix_sockets = or_default (set_all_unix_sockets cfg) (toml_all_unix_sockets t),
      set_mode = or_default (set_mode cfg) (toml_mode t),
      set_allowed_domains = or_default (set_allowed_domains cfg) (toml_allowed_domains t),
      set_denied_domains = or_default (set_denied_domains cfg) (toml_denied_domains t),
      set_unix_sockets = or_default (set_unix_sockets cfg) (toml_unix_sockets t),
      set_local_binding = or_default (set_local_binding cfg) (toml_local_binding t),
      set_mitm = set_mitm cfg\<rparr>"

definition or_else :: "'a option \<Rightarrow> 'a option \<Rightarrow> 'a option" where
  "or_else x y = (case x of Some v \<Rightarrow> Some v | None \<Rightarrow> y)"

definition apply_network_constraints :: "network_toml \<Rightarrow> proxy_constraints \<Rightarrow> proxy_constraints" where
  "apply_network_constraints t con =
     con\<lparr>con_enabled := or_else (toml_enabled t) (con_enabled con),
       con_mode := or_else (toml_mode t) (con_mode con),
       con_upstream_proxy := or_else (toml_upstream_proxy t) (con_upstream_proxy con),
       con_non_loopback_proxy := or_else (toml_non_loopback_proxy t) (con_non_loopback_proxy con),
       con_all_unix_sockets := or_else (toml_all_unix_sockets t) (con_all_unix_sockets con),
       con_allowed_domains := or_else (toml_allowed_domains t) (con_allowed_domains con),
       con_denied_domains := or_else (toml_denied_domains t) (con_denied_domains con),
       con_unix_sockets := or_else (toml_unix_sockets t) (con_unix_sockets con),
       con_local_binding := or_else (toml_local_binding t) (con_local_binding con)\<rparr>"

text \<open>The tables of a layer: the name of the profile in force and the network table of each profile.\<close>

record network_tables =
  default_permissions :: "string option"
  permission_networks :: "(string \<rightharpoonup> network_toml option) option"

datatype loader_error =
    UnreadableTables string
  | MissingPermissionsTable
  | UndefinedProfile string
  | LoadFailed build_error

definition selected_network_from_tables :: "network_tables \<Rightarrow> (loader_error, network_toml option) result" where
  "selected_network_from_tables tables =
     (case default_permissions tables of
        None \<Rightarrow> Inr None
      | Some profile \<Rightarrow>
          (case permission_networks tables of
             None \<Rightarrow> Inl MissingPermissionsTable
           | Some networks \<Rightarrow>
               (case networks profile of None \<Rightarrow> Inl (UndefinedProfile profile) | Some network \<Rightarrow> Inr network)))"

fun is_user_controlled_layer :: "config_layer_source \<Rightarrow> bool" where
  "is_user_controlled_layer (LayerUser _) = True"
| "is_user_controlled_layer (LayerProject _) = True"
| "is_user_controlled_layer LayerSessionFlags = True"
| "is_user_controlled_layer _ = False"

record config_layer =
  layer_name :: config_layer_source
  layer_tables :: "(string, network_tables) result"

definition layer_network :: "config_layer \<Rightarrow> (loader_error, network_toml option) result" where
  "layer_network layer =
     (case layer_tables layer of
        Inl e \<Rightarrow> Inl (UnreadableTables e)
      | Inr tables \<Rightarrow> selected_network_from_tables tables)"

fun settings_from_layers :: "config_layer list \<Rightarrow> proxy_settings \<Rightarrow> (loader_error, proxy_settings) result" where
  "settings_from_layers [] cfg = Inr cfg"
| "settings_from_layers (layer # stack) cfg =
     (case layer_network layer of
        Inl e \<Rightarrow> Inl e
      | Inr None \<Rightarrow> settings_from_layers stack cfg
      | Inr (Some t) \<Rightarrow> settings_from_layers stack (apply_to_network_proxy_config t cfg))"

fun constraints_from_layers :: "config_layer list \<Rightarrow> proxy_constraints \<Rightarrow> (loader_error, proxy_constraints) result" where
  "constraints_from_layers [] con = Inr con"
| "constraints_from_layers (layer # stack) con =
     (if is_user_controlled_layer (layer_name layer) then constraints_from_layers stack con
      else (case layer_network layer of
              Inl e \<Rightarrow> Inl e
            | Inr None \<Rightarrow> constraints_from_layers stack con
            | Inr (Some t) \<Rightarrow> constraints_from_layers stack (apply_network_constraints t con)))"

definition upsert_network_domain :: "string \<Rightarrow> string list \<times> string list \<Rightarrow> string list \<times> string list" where
  "upsert_network_domain host both =
     (let (target, opposite) = both; keep = filter (\<lambda>entry. normalize_host entry \<noteq> host) in
      (keep target @ [host], keep opposite))"

definition apply_exec_policy_network_rules :: "proxy_settings \<Rightarrow> 'p policy \<Rightarrow> proxy_settings" where
  "apply_exec_policy_network_rules cfg policy =
     (let (allowed_hosts, denied_hosts) = compiled_network_domains policy;
          (allowed, denied) = fold upsert_network_domain allowed_hosts (set_allowed_domains cfg, set_denied_domains cfg);
          (denied', allowed') = fold upsert_network_domain denied_hosts (denied, allowed)
      in cfg\<lparr>set_allowed_domains := allowed', set_denied_domains := denied'\<rparr>)"

definition config_from_layers :: "config_layer list \<Rightarrow> 'p policy \<Rightarrow> (loader_error, proxy_settings) result" where
  "config_from_layers stack policy =
     (case settings_from_layers stack default_proxy_settings of
        Inl e \<Rightarrow> Inl e
      | Inr cfg \<Rightarrow> Inr (apply_exec_policy_network_rules cfg policy))"

definition state_from_layers :: "proxy_libs \<Rightarrow> config_layer list \<Rightarrow> 'p policy \<Rightarrow> (loader_error, config_state) result" where
  "state_from_layers lib stack policy =
     (case config_from_layers stack policy of
        Inl e \<Rightarrow> Inl e
      | Inr cfg \<Rightarrow>
          (case constraints_from_layers stack no_constraints of
             Inl e \<Rightarrow> Inl e
           | Inr con \<Rightarrow> map_sum LoadFailed id (load_state lib cfg con)))"

subsection \<open>Requirements of an administrator\<close>

record network_requirements =
  req_enabled :: "bool option"
  req_http_port :: "nat option"
  req_socks_port :: "nat option"
  req_upstream_proxy :: "bool option"
  req_non_loopback_proxy :: "bool option"
  req_all_unix_sockets :: "bool option"
  req_allowed_domains :: "string list option"
  req_managed_domains_only :: "bool option"
  req_denied_domains :: "string list option"
  req_unix_sockets :: "string list option"
  req_local_binding :: "bool option"

definition asks_in_sandbox :: "sandbox_policy \<Rightarrow> bool" where
  "asks_in_sandbox sp = (case sp of ReadOnly _ _ \<Rightarrow> True | WorkspaceWrite _ _ _ _ _ \<Rightarrow> True | _ \<Rightarrow> False)"

definition managed_allowed_domains_only :: "network_requirements \<Rightarrow> bool" where
  "managed_allowed_domains_only req = or_default False (req_managed_domains_only req)"

definition allowlist_expansion_enabled :: "sandbox_policy \<Rightarrow> bool \<Rightarrow> bool" where
  "allowlist_expansion_enabled sp hard_deny = (asks_in_sandbox sp \<and> \<not> hard_deny)"

definition denylist_expansion_enabled :: "sandbox_policy \<Rightarrow> bool" where
  "denylist_expansion_enabled sp = asks_in_sandbox sp"

fun merge_domain_lists :: "string list \<Rightarrow> string list \<Rightarrow> string list" where
  "merge_domain_lists managed [] = managed"
| "merge_domain_lists managed (entry # entries) =
     merge_domain_lists
       (if list_ex (\<lambda>m. to_ascii_lowercase m = to_ascii_lowercase entry) managed then managed else managed @ [entry])
       entries"

definition required_list :: "string list option \<Rightarrow> bool \<Rightarrow> string list \<Rightarrow> string list" where
  "required_list managed expansion entries =
     (case managed of
        None \<Rightarrow> entries
      | Some m \<Rightarrow> if expansion then merge_domain_lists m entries else m)"

definition apply_requirements ::
  "proxy_settings \<Rightarrow> network_requirements \<Rightarrow> sandbox_policy \<Rightarrow> bool \<Rightarrow> proxy_settings \<times> proxy_constraints"
where
  "apply_requirements cfg req sp hard_deny =
     (let allow_expansion = allowlist_expansion_enabled sp hard_deny;
          deny_expansion = denylist_expansion_enabled sp;
          managed_allowed = (if hard_deny then Some (or_default [] (req_allowed_domains req)) else req_allowed_domains req)
      in (cfg\<lparr>set_enabled := or_default (set_enabled cfg) (req_enabled req),
            set_proxy_url :=
              (case req_http_port req of Some port \<Rightarrow> ''http://127.0.0.1:'' @ nat_digits port | None \<Rightarrow> set_proxy_url cfg),
            set_socks_url :=
              (case req_socks_port req of Some port \<Rightarrow> ''http://127.0.0.1:'' @ nat_digits port | None \<Rightarrow> set_socks_url cfg),
            set_upstream_proxy := or_default (set_upstream_proxy cfg) (req_upstream_proxy req),
            set_non_loopback_proxy := or_default (set_non_loopback_proxy cfg) (req_non_loopback_proxy req),
            set_all_unix_sockets := or_default (set_all_unix_sockets cfg) (req_all_unix_sockets req),
            set_allowed_domains := required_list managed_allowed allow_expansion (set_allowed_domains cfg),
            set_denied_domains := required_list (req_denied_domains req) deny_expansion (set_denied_domains cfg),
            set_unix_sockets := or_default (set_unix_sockets cfg) (req_unix_sockets req),
            set_local_binding := or_default (set_local_binding cfg) (req_local_binding req)\<rparr>,
          \<lparr>con_enabled = req_enabled req, con_mode = None, con_upstream_proxy = req_upstream_proxy req,
           con_non_loopback_proxy = req_non_loopback_proxy req, con_all_unix_sockets = req_all_unix_sockets req,
           con_allowed_domains = managed_allowed, con_allowlist_expansion = map_option (\<lambda>_. allow_expansion) managed_allowed,
           con_denied_domains = req_denied_domains req,
           con_denylist_expansion = map_option (\<lambda>_. deny_expansion) (req_denied_domains req),
           con_unix_sockets = req_unix_sockets req, con_local_binding = req_local_binding req\<rparr>))"

record proxy_spec =
  spec_config :: proxy_settings
  spec_constraints :: proxy_constraints
  hard_deny_allowlist_misses :: bool

definition from_config_and_constraints ::
  "(string \<Rightarrow> string option) \<Rightarrow> proxy_settings \<Rightarrow> network_requirements option \<Rightarrow> sandbox_policy \<Rightarrow>
   (constraint_error, proxy_spec) result"
where
  "from_config_and_constraints url_host cfg requirements sp =
     (let hard_deny = (case requirements of Some req \<Rightarrow> managed_allowed_domains_only req | None \<Rightarrow> False);
          (cfg', con) = (case requirements of
             Some req \<Rightarrow> apply_requirements cfg req sp hard_deny
           | None \<Rightarrow> (cfg, no_constraints))
      in case validate_policy_against_constraints url_host cfg' con of
           Inl e \<Rightarrow> Inl e
         | Inr _ \<Rightarrow> Inr \<lparr>spec_config = cfg', spec_constraints = con, hard_deny_allowlist_misses = hard_deny\<rparr>)"

text \<open>The decider that the proxy is started with: none, that of the caller, or one that asks.\<close>

definition started_decider ::
  "proxy_spec \<Rightarrow> sandbox_policy \<Rightarrow> (network_policy_request \<Rightarrow> network_decision) option \<Rightarrow> bool \<Rightarrow>
   (network_policy_request \<Rightarrow> network_decision) option"
where
  "started_decider spec sp policy_decider enable_network_approval_flow =
     (if enable_network_approval_flow \<and> \<not> hard_deny_allowlist_misses spec \<and> asks_in_sandbox sp
      then Some (case policy_decider of Some decide \<Rightarrow> decide | None \<Rightarrow> (\<lambda>_. network_ask ''not_allowed''))
      else None)"

definition started_state :: "proxy_libs \<Rightarrow> proxy_spec \<Rightarrow> (build_error, config_state) result" where
  "started_state lib spec = build_config_state lib (spec_config spec) (spec_constraints spec)"

text \<open>What the static reloader answers: there is nothing new, unless a reload is forced.\<close>

definition static_reload :: "proxy_spec \<Rightarrow> proxy_op \<Rightarrow> reload_outcome" where
  "static_reload spec oper =
     (if oper = ForceReload then ReadsFiles (spec_config spec) (spec_constraints spec) else NothingNew)"

inductive spec_reachable :: "proxy_libs \<Rightarrow> proxy_spec \<Rightarrow> proxy \<Rightarrow> bool" for lib spec where
  spec_starts: "started_state lib spec = Inr st \<Longrightarrow> spec_reachable lib spec \<lparr>proxy_state = st, proxy_tasks = []\<rparr>"
| spec_calls: "spec_reachable lib spec p \<Longrightarrow>
    spec_reachable lib spec (p\<lparr>proxy_tasks := proxy_tasks p @ [\<lparr>op = oper, pc = Begin\<rparr>]\<rparr>)"
| spec_advances: "spec_reachable lib spec p \<Longrightarrow> i < length (proxy_tasks p) \<Longrightarrow>
    task_step lib (static_reload spec (op (proxy_tasks p ! i))) (proxy_tasks p ! i) (proxy_state p) = Some (q, st) \<Longrightarrow>
    spec_reachable lib spec \<lparr>proxy_state = st, proxy_tasks = (proxy_tasks p)[i := (proxy_tasks p ! i)\<lparr>pc := q\<rparr>]\<rparr>"

subsection \<open>Where the proxy listens\<close>

record socket_address_parts =
  part_host :: string
  part_port :: nat

datatype address_error = MissingHost string

text \<open>\<open>parse::<u16>()\<close>: digits after an optional plus sign.\<close>

definition parse_u16 :: "string \<Rightarrow> nat option" where
  "parse_u16 s =
     (let ds = (if prefix ''+'' s then tl s else s) in
      if ds = [] \<or> \<not> list_all (\<lambda>c. to_digit 10 c \<noteq> None) ds then None
      else (let n = foldl (\<lambda>acc c. acc * 10 + the (to_digit 10 c)) 0 ds in if n < 65536 then Some n else None))"

definition parse_host_port_fallback :: "string \<Rightarrow> nat \<Rightarrow> (address_error, socket_address_parts) result" where
  "parse_host_port_fallback input default_port =
     (let without_scheme = (case find_str ''://'' input of Some i \<Rightarrow> drop (i + 3) input | None \<Rightarrow> input);
          host_port = takeWhile (\<lambda>c. c \<noteq> CHR ''/'') without_scheme;
          host_port = (case rsplit_once (CHR ''@'') host_port of Some (_, rest) \<Rightarrow> rest | None \<Rightarrow> host_port)
      in case (if prefix ''['' host_port then split_once (CHR '']'') host_port else None) of
           Some (before, after_bracket) \<Rightarrow>
             (let host = tl before;
                  port = or_default default_port (Option.bind (strip_prefix '':'' after_bracket) parse_u16)
              in if host = [] then Inl (MissingHost input) else Inr \<lparr>part_host = host, part_port = port\<rparr>)
         | None \<Rightarrow>
             (case (if count_list host_port (CHR '':'') = 1 then rsplit_once (CHR '':'') host_port else None) of
                Some (host, port) \<Rightarrow>
                  if host = [] then Inl (MissingHost input)
                  else Inr \<lparr>part_host = host, part_port = or_default default_port (parse_u16 port)\<rparr>
              | None \<Rightarrow>
                  if host_port = [] then Inl (MissingHost input)
                  else Inr \<lparr>part_host = host_port, part_port = default_port\<rparr>))"

definition trim_brackets :: "string \<Rightarrow> string" where
  "trim_brackets s =
     (let bracket = (\<lambda>c. c = CHR ''['' \<or> c = CHR '']'') in rev (dropWhile bracket (rev (dropWhile bracket s))))"

type_synonym url_parser = "string \<Rightarrow> (string option \<times> nat option) option"

definition parse_host_port :: "url_parser \<Rightarrow> string \<Rightarrow> nat \<Rightarrow> (address_error, socket_address_parts) result" where
  "parse_host_port url_parse url default_port =
     (let trimmed = str_trim url in
      if trimmed = [] then Inl (MissingHost url)
      else if (case parse_ip_addr trimmed of Some (V6 _) \<Rightarrow> True | _ \<Rightarrow> False) \<and> \<not> prefix ''['' trimmed
      then Inr \<lparr>part_host = trimmed, part_port = default_port\<rparr>
      else (let candidate = (if find_str ''://'' trimmed \<noteq> None then trimmed else ''http://'' @ trimmed) in
            case url_parse candidate of
              Some (Some host, port) \<Rightarrow>
                (let host = trim_brackets host in
                 if host = [] then Inl (MissingHost url)
                 else Inr \<lparr>part_host = host, part_port = or_default default_port port\<rparr>)
            | _ \<Rightarrow> parse_host_port_fallback trimmed default_port))"

definition loopback_v4 :: ip_addr where
  "loopback_v4 = V4 (ipv4_of_octets [127, 0, 0, 1])"

definition resolve_addr :: "url_parser \<Rightarrow> string \<Rightarrow> nat \<Rightarrow> (address_error, ip_addr \<times> nat) result" where
  "resolve_addr url_parse url default_port =
     (case parse_host_port url_parse url default_port of
        Inl e \<Rightarrow> Inl e
      | Inr parts \<Rightarrow>
          (let host = (if to_ascii_lowercase (part_host parts) = ''localhost'' then ''127.0.0.1'' else part_host parts) in
           Inr (or_default loopback_v4 (parse_ip_addr host), part_port parts)))"

definition format_host_and_port :: "string \<Rightarrow> nat \<Rightarrow> string" where
  "format_host_and_port host port =
     (if CHR '':'' \<in> set host then ''['' @ host @ '']:'' @ nat_digits port else host @ '':'' @ nat_digits port)"

definition host_and_port_from_network_addr :: "url_parser \<Rightarrow> string \<Rightarrow> nat \<Rightarrow> string" where
  "host_and_port_from_network_addr url_parse text default_port =
     (let trimmed = str_trim text in
      if trimmed = [] then ''<missing>''
      else (case parse_host_port url_parse trimmed default_port of
              Inr parts \<Rightarrow> format_host_and_port (part_host parts) (part_port parts)
            | Inl _ \<Rightarrow> format_host_and_port trimmed default_port))"

definition clamp_non_loopback :: "ip_addr \<times> nat \<Rightarrow> bool \<Rightarrow> ip_addr \<times> nat" where
  "clamp_non_loopback addr allow_non_loopback =
     (if ip_is_loopback (fst addr) then addr
      else if allow_non_loopback then addr
      else (loopback_v4, snd addr))"

definition clamp_bind_addrs ::
  "ip_addr \<times> nat \<Rightarrow> ip_addr \<times> nat \<Rightarrow> proxy_settings \<Rightarrow> (ip_addr \<times> nat) \<times> (ip_addr \<times> nat)"
where
  "clamp_bind_addrs http_addr socks_addr cfg =
     (let http_addr = clamp_non_loopback http_addr (set_non_loopback_proxy cfg);
          socks_addr = clamp_non_loopback socks_addr (set_non_loopback_proxy cfg)
      in if set_unix_sockets cfg = [] \<and> \<not> set_all_unix_sockets cfg then (http_addr, socks_addr)
         else ((loopback_v4, snd http_addr), (loopback_v4, snd socks_addr)))"

datatype runtime_error = SocketPathError build_error | ProxyUrlError address_error | SocksUrlError address_error

definition resolve_runtime ::
  "path_env \<Rightarrow> url_parser \<Rightarrow> proxy_settings \<Rightarrow> (runtime_error, (ip_addr \<times> nat) \<times> (ip_addr \<times> nat)) result"
where
  "resolve_runtime env url_parse cfg =
     (case validate_unix_socket_allowlist_paths env cfg of
        Inl e \<Rightarrow> Inl (SocketPathError e)
      | Inr _ \<Rightarrow>
          (case resolve_addr url_parse (set_proxy_url cfg) 3128 of
             Inl e \<Rightarrow> Inl (ProxyUrlError e)
           | Inr http_addr \<Rightarrow>
               (case resolve_addr url_parse (set_socks_url cfg) 8081 of
                  Inl e \<Rightarrow> Inl (SocksUrlError e)
                | Inr socks_addr \<Rightarrow> Inr (clamp_bind_addrs http_addr socks_addr cfg))))"

text \<open>The proxy listens on the machine itself, unless the settings allow other addresses and no local
  socket can be reached through it.\<close>

lemma loopback_v4_is: "ip_is_loopback loopback_v4"
  by (simp add: loopback_v4_def ipv4_is_loopback_def octet_def ipv4_of_octets_def)

lemma listeners_stay_local:
  assumes "resolve_runtime env url_parse cfg = Inr (http_addr, socks_addr)"
    and "\<not> set_non_loopback_proxy cfg \<or> set_unix_sockets cfg \<noteq> [] \<or> set_all_unix_sockets cfg"
  shows "ip_is_loopback (fst http_addr) \<and> ip_is_loopback (fst socks_addr)"
  using assms loopback_v4_is
  by (auto simp: resolve_runtime_def clamp_bind_addrs_def clamp_non_loopback_def Let_def split: sum.splits if_splits)

subsection \<open>Requirements are met\<close>

definition no_global_wildcard :: "string list \<Rightarrow> bool" where
  "no_global_wildcard entries = list_all (\<lambda>e. \<not> is_global_wildcard_domain_pattern e) entries"

lemma domain_patterns_ok: "validate_domain_patterns field entries = Inr () \<longleftrightarrow> no_global_wildcard entries"
proof -
  have "List.find P xs = None \<longleftrightarrow> list_all (\<lambda>e. \<not> P e) xs" for P and xs :: "string list"
    by (auto simp: find_None_iff list_all_iff)
  then show ?thesis
    by (auto simp: validate_domain_patterns_def no_global_wildcard_def split: option.split) (metis option.distinct(1))
qed

lemma set_merge_domain_lists: "set managed \<subseteq> set (merge_domain_lists managed entries)"
  by (induction managed entries rule: merge_domain_lists.induct) (auto split: if_splits)

lemma required_list_wildcard: "no_global_wildcard (required_list (Some m) x entries) \<Longrightarrow> no_global_wildcard m"
  using set_merge_domain_lists [of m entries] by (cases x) (auto simp: required_list_def no_global_wildcard_def list_all_iff)

lemma flag_required: "validate_flag field m (or_default c m) = Inr ()"
  by (simp add: validate_flag_def or_default_def split: option.split)

lemma required_entries_ok:
  "require_entries field what m (required_list (Some m) True entries) = Inr ()"
  "require_same_entries field what m (required_list (Some m) False entries) = Inr ()"
  using set_merge_domain_lists [of m entries]
  by (auto simp: require_entries_def require_same_entries_def required_list_def lower_set_def)

lemma required_allowed_ok:
  assumes "con_allowlist_expansion con = map_option (\<lambda>_. x) (con_allowed_domains con)"
    and "no_global_wildcard (required_list (con_allowed_domains con) x entries)"
  shows "validate_allowed_domains url_host con (required_list (con_allowed_domains con) x entries) = Inr ()"
proof (cases "con_allowed_domains con")
  case (Some m)
  with assms(2) have "validate_domain_patterns ''network.allowed_domains'' m = Inr ()"
    using required_list_wildcard by (simp add: domain_patterns_ok)
  with Some assms(1) show ?thesis by (cases x) (simp_all add: validate_allowed_domains_def required_entries_ok)
qed (simp add: validate_allowed_domains_def)

lemma required_denied_ok:
  assumes "con_denylist_expansion con = map_option (\<lambda>_. x) (con_denied_domains con)"
    and "no_global_wildcard (required_list (con_denied_domains con) x entries)"
  shows "validate_denied_domains con (required_list (con_denied_domains con) x entries) = Inr ()"
proof (cases "con_denied_domains con")
  case (Some m)
  with assms(2) have "validate_domain_patterns ''network.denied_domains'' m = Inr ()"
    using required_list_wildcard by (simp add: domain_patterns_ok)
  with Some assms(1) show ?thesis by (cases x) (simp_all add: validate_denied_domains_def required_entries_ok)
qed (simp add: validate_denied_domains_def)

lemma required_sockets_ok: "validate_unix_sockets con (or_default c (con_unix_sockets con)) = Inr ()"
  by (auto simp: validate_unix_sockets_def or_default_def lower_set_def filter_empty_conv split: option.split)

lemma required_all_sockets_ok:
  "validate_all_unix_sockets con (or_default c (con_all_unix_sockets con)) = Inr () \<longleftrightarrow>
     \<not> (c \<and> con_all_unix_sockets con = None \<and> con_unix_sockets con \<noteq> None)"
  by (auto simp: validate_all_unix_sockets_def or_default_def split: option.split)

text \<open>C16: Settings under the requirements of an administrator fail to meet them for two reasons only: a
  list of domains holds the global wildcard, or the user allows all local sockets where the
  administrator lists the allowed ones.  Whatever else the user has set, the requirements take over.\<close>

theorem requirements_are_met:
  "(\<exists>spec. from_config_and_constraints url_host cfg (Some req) sp = Inr spec) \<longleftrightarrow>
     (let cfg' = fst (apply_requirements cfg req sp (managed_allowed_domains_only req)) in
      no_global_wildcard (set_allowed_domains cfg') \<and> no_global_wildcard (set_denied_domains cfg') \<and>
      \<not> (set_all_unix_sockets cfg \<and> req_all_unix_sockets req = None \<and> req_unix_sockets req \<noteq> None))"
proof -
  obtain cfg' con where a: "apply_requirements cfg req sp (managed_allowed_domains_only req) = (cfg', con)" by fastforce
  define x where "x = allowlist_expansion_enabled sp (managed_allowed_domains_only req)"
  define y where "y = denylist_expansion_enabled sp"
  have con: "con_mode con = None" "con_allowlist_expansion con = map_option (\<lambda>_. x) (con_allowed_domains con)"
    "con_denylist_expansion con = map_option (\<lambda>_. y) (con_denied_domains con)"
    "con_all_unix_sockets con = req_all_unix_sockets req" "con_unix_sockets con = req_unix_sockets req"
    using a by (auto simp: apply_requirements_def Let_def x_def y_def)
  have cfg: "set_enabled cfg' = or_default (set_enabled cfg) (con_enabled con)"
    "set_upstream_proxy cfg' = or_default (set_upstream_proxy cfg) (con_upstream_proxy con)"
    "set_non_loopback_proxy cfg' = or_default (set_non_loopback_proxy cfg) (con_non_loopback_proxy con)"
    "set_all_unix_sockets cfg' = or_default (set_all_unix_sockets cfg) (con_all_unix_sockets con)"
    "set_local_binding cfg' = or_default (set_local_binding cfg) (con_local_binding con)"
    "set_unix_sockets cfg' = or_default (set_unix_sockets cfg) (con_unix_sockets con)"
    "set_allowed_domains cfg' = required_list (con_allowed_domains con) x (set_allowed_domains cfg)"
    "set_denied_domains cfg' = required_list (con_denied_domains con) y (set_denied_domains cfg)"
    using a by (auto simp: apply_requirements_def Let_def x_def y_def)
  have "validate_policy_against_constraints url_host cfg' con = Inr () \<longleftrightarrow>
      no_global_wildcard (set_allowed_domains cfg') \<and> no_global_wildcard (set_denied_domains cfg') \<and>
      \<not> (set_all_unix_sockets cfg \<and> req_all_unix_sockets req = None \<and> req_unix_sockets req \<noteq> None)"
    unfolding validate_ok domain_patterns_ok cfg(1-6) flag_required required_sockets_ok required_all_sockets_ok
    unfolding con(4,5)
    using required_allowed_ok [OF con(2), of "set_allowed_domains cfg" url_host]
      required_denied_ok [OF con(3), of "set_denied_domains cfg"] con(1)
    by (auto simp: cfg(7,8) validate_mode_def)
  then show ?thesis
    by (auto simp: from_config_and_constraints_def a split: sum.split)
qed

subsection \<open>A managed list that is final\<close>

fun pc_state :: "proxy_pc \<Rightarrow> config_state option" where
  "pc_state (Loaded s) = Some s"
| "pc_state (Merged s) = Some s"
| "pc_state (Built _ _ s) = Some s"
| "pc_state (Forced s) = Some s"
| "pc_state _ = None"

lemma perform_op_constraints:
  assumes "perform_op lib oper st = (q, st')"
  shows "st_constraints st' = st_constraints st" and "pc_state q = Some s \<Longrightarrow> st_constraints s = st_constraints st"
  using assms build_config_state_Inr
  by (fastforce simp: perform_op_def push_blocked_def Let_def split: proxy_op.splits option.splits if_splits sum.splits)+

lemma spec_step_constraints:
  assumes "task_step lib (static_reload spec (op t)) t st = Some (q, st')" and "st_constraints st = spec_constraints spec"
    and "\<And>s. pc_state (pc t) = Some s \<Longrightarrow> st_constraints s = spec_constraints spec"
  shows "st_constraints st' = spec_constraints spec \<and> (\<forall>s. pc_state q = Some s \<longrightarrow> st_constraints s = spec_constraints spec)"
proof (cases "pc t")
  case Begin
  have "st_constraints s = spec_constraints spec" if "load_state lib (spec_config spec) (spec_constraints spec) = Inr s" for s
    using that build_config_state_Inr by (fastforce simp: load_state_def split: sum.splits)
  with Begin assms show ?thesis
    by (auto simp: task_step_def after_reload_def static_reload_def split: if_splits sum.splits)
next
  case Current
  with assms(1) have "perform_op lib (op t) st = (q, st')" by (simp add: task_step_def)
  from perform_op_constraints [OF this] assms(2) show ?thesis by simp
qed (use assms in \<open>auto simp: task_step_def split: proxy_op.splits if_splits\<close>)

lemma spec_reachable_constraints:
  assumes "spec_reachable lib spec p"
  shows "st_constraints (proxy_state p) = spec_constraints spec \<and>
    (\<forall>t \<in> set (proxy_tasks p). \<forall>s. pc_state (pc t) = Some s \<longrightarrow> st_constraints s = spec_constraints spec)"
  using assms
proof (induction rule: spec_reachable.induct)
  case (spec_starts st)
  then show ?case using build_config_state_Inr by (auto simp: started_state_def)
next
  case (spec_calls p oper)
  then show ?case by auto
next
  case (spec_advances p i q st)
  have t: "proxy_tasks p ! i \<in> set (proxy_tasks p)" using spec_advances.hyps(2) by simp
  from spec_step_constraints [OF spec_advances.hyps(3)] spec_advances.IH t
  have "st_constraints st = spec_constraints spec \<and> (\<forall>s. pc_state q = Some s \<longrightarrow> st_constraints s = spec_constraints spec)" by blast
  with spec_advances.IH show ?case by (auto dest!: set_update_subset_insert [THEN subsetD])
qed

lemma spec_reachable_reachable:
  assumes "spec_reachable lib spec p"
    and "validate_policy_against_constraints (lib_url_host lib) (spec_config spec) (spec_constraints spec) = Inr ()"
  shows "proxy_reachable lib p"
  using assms(1)
proof (induction rule: spec_reachable.induct)
  case (spec_starts st)
  with assms(2) have "load_state lib (spec_config spec) (spec_constraints spec) = Inr st"
    by (simp add: started_state_def load_state_def)
  then show ?case by (rule starts)
next
  case (spec_calls p oper)
  then show ?case using calls goes_on by blast
next
  case (spec_advances p i q st)
  then show ?case using advances goes_on by blast
qed

lemma spec_of_requirements:
  assumes "from_config_and_constraints url_host cfg (Some req) sp = Inr spec"
  shows "validate_policy_against_constraints url_host (spec_config spec) (spec_constraints spec) = Inr () \<and>
    hard_deny_allowlist_misses spec = managed_allowed_domains_only req \<and>
    (spec_config spec, spec_constraints spec) = apply_requirements cfg req sp (managed_allowed_domains_only req)"
  using assms by (auto simp: from_config_and_constraints_def Let_def split: sum.splits prod.splits)

text \<open>C14: Where an administrator says that only the managed domains count, they are the last word: in
  whatever way the running proxy is updated and whatever decider it was given, it allows a host
  only if one of the managed domains, written in small or capital letters, covers it.\<close>

theorem managed_only_list_is_final:
  assumes "from_config_and_constraints (lib_url_host lib) cfg (Some req) sp = Inr spec"
    and "req_managed_domains_only req = Some True" and "spec_reachable lib spec p" and "glob_laws (lib_globs lib)"
    and "list_all plain_pattern (set_allowed_domains (st_config (proxy_state p)))"
    and "decider w = started_decider spec sp' policy_decider flow"
    and "fst (evaluate_host_policy lib w (Inr (proxy_state p)) r) = Inr NetworkAllow"
  shows "\<exists>h entry m. parse_host (request_host r) = Some h \<and> m \<in> set (or_default [] (req_allowed_domains req)) \<and>
    to_ascii_lowercase entry = to_ascii_lowercase m \<and> covers (parse_pattern_text (normalize_pattern entry)) h"
proof -
  let ?st = "proxy_state p"
  note spec = spec_of_requirements [OF assms(1)]
  have hard: "managed_allowed_domains_only req" by (simp add: managed_allowed_domains_only_def assms(2) or_default_def)
  have con: "con_allowed_domains (st_constraints ?st) = Some (or_default [] (req_allowed_domains req))"
    "con_allowlist_expansion (st_constraints ?st) = Some False"
    using spec spec_reachable_constraints [OF assms(3)] hard
    by (auto simp: apply_requirements_def Let_def allowlist_expansion_enabled_def)
  have ok: "state_ok lib ?st" using proxy_reachable_ok [OF spec_reachable_reachable [OF assms(3)]] spec by blast
  then have "lower_set (set_allowed_domains (st_config ?st)) = lower_set (or_default [] (req_allowed_domains req))"
    using con by (auto simp: state_ok_def validate_ok validate_allowed_domains_def require_same_entries_def split: sum.splits if_splits)
  then have same: "\<exists>m \<in> set (or_default [] (req_allowed_domains req)). to_ascii_lowercase e = to_ascii_lowercase m"
    if "e \<in> set (set_allowed_domains (st_config ?st))" for e
    using that by (fastforce simp: lower_set_def)
  have none: "decider w = None" using assms(6) spec hard by (simp add: started_decider_def)
  from assms(7) obtain fx where "evaluate_host_policy lib w (Inr ?st) r = (Inr NetworkAllow, fx)" by (metis prod.collapse)
  from evaluate_allows_permitted [OF this] have "permitted lib w ?st r" by (simp add: view_holds_def)
  with none obtain h where h: "parse_host (request_host r) = Some h" "globset_is_match (lib_globs lib) (st_allow_set ?st) h"
    by (auto simp: permitted_def decider_allows_def split: option.splits)
  have "to_ascii_lowercase h = h" using h(1) normalize_host_lower by (auto simp: parse_host_def Let_def split: if_splits)
  with h(2) globset_covers [of "lib_globs lib" "set_allowed_domains (st_config ?st)"] ok assms(4,5)
  obtain e where "e \<in> set (set_allowed_domains (st_config ?st))" "covers (parse_pattern_text (normalize_pattern e)) h"
    by (auto simp: state_ok_def list_ex_iff)
  with same h(1) show ?thesis by metis
qed

subsection \<open>The network rules of the execution policy\<close>

lemma upsert_twice:
  assumes "\<forall>h \<in> set hosts. proper_host h"
  shows "entries_contain h (fst (fold upsert_network_domain hosts (target, opposite))) \<longleftrightarrow>
      h \<in> set hosts \<or> entries_contain h target"
    and "entries_contain h (snd (fold upsert_network_domain hosts (target, opposite))) \<longleftrightarrow>
      h \<notin> set hosts \<and> entries_contain h opposite"
proof -
  have step: "entries_contain h (fst (upsert_network_domain h' (t, p))) \<longleftrightarrow> h = h' \<or> entries_contain h t"
    "entries_contain h (snd (upsert_network_domain h' (t, p))) \<longleftrightarrow> h \<noteq> h' \<and> entries_contain h p"
    if "proper_host h'" for h' t p
    using that by (auto simp: upsert_network_domain_def Let_def entries_contain_def list_ex_iff proper_host_def)
  have "(entries_contain h (fst (fold upsert_network_domain hosts x)) \<longleftrightarrow> h \<in> set hosts \<or> entries_contain h (fst x)) \<and>
      (entries_contain h (snd (fold upsert_network_domain hosts x)) \<longleftrightarrow> h \<notin> set hosts \<and> entries_contain h (snd x))" for x
    using assms
  proof (induction hosts arbitrary: x)
    case (Cons a hosts)
    obtain t p where x: "x = (t, p)" by fastforce
    from Cons.IH [of "upsert_network_domain a x"] Cons.prems step [of a t p] x show ?case by auto
  qed simp
  from this [of "(target, opposite)"]
  show "entries_contain h (fst (fold upsert_network_domain hosts (target, opposite))) \<longleftrightarrow>
      h \<in> set hosts \<or> entries_contain h target"
    and "entries_contain h (snd (fold upsert_network_domain hosts (target, opposite))) \<longleftrightarrow>
      h \<notin> set hosts \<and> entries_contain h opposite"
    by simp_all
qed

lemma proper_host_parses: "proper_host h \<Longrightarrow> parse_host h = Some h"
  by (simp add: proper_host_def parse_host_def)

lemma loaded_from_layers:
  assumes "state_from_layers lib stack policy = Inr st"
  shows "\<exists>cfg con. load_state lib (apply_exec_policy_network_rules cfg policy) con = Inr st"
proof (cases "settings_from_layers stack default_proxy_settings")
  case (Inr cfg)
  show ?thesis
  proof (cases "constraints_from_layers stack no_constraints")
    case (Inr con)
    with \<open>settings_from_layers stack default_proxy_settings = Inr cfg\<close> assms
    have "map_sum LoadFailed id (load_state lib (apply_exec_policy_network_rules cfg policy) con) = Inr st"
      by (simp add: state_from_layers_def config_from_layers_def)
    then show ?thesis by (cases "load_state lib (apply_exec_policy_network_rules cfg policy) con") auto
  qed (use assms Inr in \<open>simp add: state_from_layers_def config_from_layers_def\<close>)
qed (use assms in \<open>simp add: state_from_layers_def config_from_layers_def\<close>)

lemma last_verdict_rule:
  assumes "last_verdict h rules = Some verdict"
  shows "verdict \<noteq> Prompt \<and> (\<exists>r \<in> set rules. net_host r = h)"
proof -
  let ?rs = "filter (\<lambda>r. net_host r = h \<and> net_decision r \<noteq> Prompt) (rev rules)"
  from assms obtain r rest where r: "?rs = r # rest" "net_decision r = verdict"
    by (auto simp: last_verdict_def split: list.splits)
  have "r \<in> set ?rs" unfolding r(1) by simp
  then have "r \<in> set rules \<and> net_host r = h \<and> net_decision r \<noteq> Prompt" by simp
  with r(2) show ?thesis by auto
qed

lemma settings_with_rules:
  assumes "compiled_network_domains policy = (allowed, denied)"
    and "list_all (\<lambda>r. proper_host (net_host r)) (network_rules policy)"
  shows "h \<in> set denied \<Longrightarrow> entries_contain h (set_denied_domains (apply_exec_policy_network_rules cfg policy))"
    and "h \<in> set allowed \<Longrightarrow> entries_contain h (set_allowed_domains (apply_exec_policy_network_rules cfg policy)) \<and>
      \<not> entries_contain h (set_denied_domains (apply_exec_policy_network_rules cfg policy))"
proof -
  note verdicts = compiled_domains_last_rule_wins [OF assms(1)]
  have "proper_host x" if "x \<in> set allowed \<or> x \<in> set denied" for x
    using that verdicts [of x] last_verdict_rule assms(2) by (fastforce simp: list_all_iff)
  then have proper: "\<forall>x \<in> set allowed. proper_host x" "\<forall>x \<in> set denied. proper_host x" by auto
  let ?a = "fold upsert_network_domain allowed (set_allowed_domains cfg, set_denied_domains cfg)"
  let ?d = "fold upsert_network_domain denied (snd ?a, fst ?a)"
  have eq: "apply_exec_policy_network_rules cfg policy = cfg\<lparr>set_allowed_domains := snd ?d, set_denied_domains := fst ?d\<rparr>"
    by (simp add: apply_exec_policy_network_rules_def assms(1) split_beta Let_def)
  have disjoint: "set allowed \<inter> set denied = {}" using verdicts by simp
  show "entries_contain h (set_denied_domains (apply_exec_policy_network_rules cfg policy))" if "h \<in> set denied"
    using that upsert_twice(1) [OF proper(2)] by (simp add: eq)
  show "entries_contain h (set_allowed_domains (apply_exec_policy_network_rules cfg policy)) \<and>
      \<not> entries_contain h (set_denied_domains (apply_exec_policy_network_rules cfg policy))" if "h \<in> set allowed"
  proof -
    have "h \<notin> set denied" using that disjoint by auto
    moreover have "entries_contain h (fst ?a)" "\<not> entries_contain h (snd ?a)"
      using that upsert_twice [OF proper(1), of h "set_allowed_domains cfg" "set_denied_domains cfg"] by simp_all
    ultimately show ?thesis using upsert_twice [OF proper(2), of h "snd ?a" "fst ?a"] by (simp add: eq)
  qed
qed

text \<open>The network rules of the execution policy reach the lists of the proxy, whatever the
  layers of the configuration say.  Of the rules for a host those that prompt are skipped; if the last of the others
  forbids the host, it is blocked, and if it allows it, it matches the allowed hosts and is itself no
  entry of the denied ones, where a pattern may still block it.  The hosts of the
  rules are proper and the entries of the lists plain patterns.\<close>

lemma network_rules_reach_the_proxy:
  assumes "state_from_layers lib stack policy = Inr st" and "glob_laws (lib_globs lib)"
    and "list_all (\<lambda>r. proper_host (net_host r)) (network_rules policy)"
    and "list_all plain_pattern (set_allowed_domains (st_config st) @ set_denied_domains (st_config st))"
    and "last_verdict h (network_rules policy) = Some verdict"
  shows "case verdict of
      Forbidden \<Rightarrow> host_blocked lib lookup_host st h port = HostBlocked BlockDenied
    | Allow \<Rightarrow> globset_is_match (lib_globs lib) (st_allow_set st) h \<and> \<not> entries_contain h (set_denied_domains (st_config st))
    | Prompt \<Rightarrow> False"
proof -
  obtain allowed denied where c: "compiled_network_domains policy = (allowed, denied)" by fastforce
  obtain cfg con where load: "load_state lib (apply_exec_policy_network_rules cfg policy) con = Inr st"
    using loaded_from_layers [OF assms(1)] by blast
  then have st: "st_config st = apply_exec_policy_network_rules cfg policy"
    using build_config_state_Inr by (auto simp: load_state_def split: sum.splits)
  have ok: "state_ok lib st" using load by (rule load_state_ok)
  have proper: "proper_host h" using last_verdict_rule [OF assms(5)] assms(3) by (auto simp: list_all_iff)
  have plain: "list_all plain_pattern (set_allowed_domains (st_config st))" "list_all plain_pattern (set_denied_domains (st_config st))"
    using assms(4) by simp_all
  show ?thesis
  proof (cases verdict)
    case Forbidden
    then have "entries_contain h (set_denied_domains (st_config st))"
      using settings_with_rules(1) [OF c assms(3)] compiled_domains_last_rule_wins [OF c, of h] assms(5) st by simp
    with entries_match [OF _ assms(2) plain(2) proper] ok have "globset_is_match (lib_globs lib) (st_deny_set st) h"
      by (simp add: state_ok_def)
    with Forbidden show ?thesis by (simp add: host_blocked_def proper_host_parses [OF proper])
  next
    case Allow
    then have e: "entries_contain h (set_allowed_domains (st_config st)) \<and> \<not> entries_contain h (set_denied_domains (st_config st))"
      using settings_with_rules(2) [OF c assms(3)] compiled_domains_last_rule_wins [OF c, of h] assms(5) st by simp
    with entries_match [OF _ assms(2) plain(1) proper] ok Allow show ?thesis by (simp add: state_ok_def)
  next
    case Prompt
    with last_verdict_rule [OF assms(5)] show ?thesis by simp
  qed
qed

subsection \<open>Examples\<close>

definition sample_requirements :: network_requirements where
  "sample_requirements =
     \<lparr>req_enabled = Some True, req_http_port = None, req_socks_port = None, req_upstream_proxy = None, req_non_loopback_proxy = None,
      req_all_unix_sockets = None, req_allowed_domains = Some [''*.example.com''], req_managed_domains_only = Some True,
      req_denied_domains = None, req_unix_sockets = None, req_local_binding = None\<rparr>"

definition required_constraints :: proxy_constraints where
  "required_constraints = no_constraints\<lparr>con_enabled := Some True, con_allowed_domains := Some [''*.example.com''],
     con_allowlist_expansion := Some False\<rparr>"

definition sample_spec :: proxy_spec where
  "sample_spec = \<lparr>spec_config = sample_settings, spec_constraints = required_constraints, hard_deny_allowlist_misses = True\<rparr>"

definition required_state :: config_state where
  "required_state = sample_state\<lparr>st_constraints := required_constraints\<rparr>"

lemma sample_spec_made:
  "from_config_and_constraints Some sample_settings (Some sample_requirements) DangerFullAccess = Inr sample_spec"
proof -
  have "apply_requirements sample_settings sample_requirements DangerFullAccess True = (sample_settings, required_constraints)"
    by (simp add: apply_requirements_def Let_def sample_requirements_def required_constraints_def no_constraints_def
        sample_settings_def default_proxy_settings_def or_default_def required_list_def allowlist_expansion_enabled_def)
  moreover have "validate_policy_against_constraints Some sample_settings required_constraints = Inr ()"
    by (simp add: validate_ok sample_settings_def required_constraints_def no_constraints_def default_proxy_settings_def
        validate_domain_patterns_def sample_not_global validate_flag_def validate_mode_def validate_all_unix_sockets_def
        validate_allowed_domains_def require_same_entries_def validate_denied_domains_def validate_unix_sockets_def)
  moreover have "managed_allowed_domains_only sample_requirements"
    by (simp add: managed_allowed_domains_only_def sample_requirements_def or_default_def)
  ultimately show ?thesis by (simp add: from_config_and_constraints_def sample_spec_def)
qed

lemma sample_spec_starts: "started_state sample_libs sample_spec = Inr required_state"
  by (simp add: started_state_def sample_spec_def sample_libs_def build_config_state_def validate_unix_socket_allowlist_paths_def
      sample_settings_def default_proxy_settings_def validate_domain_patterns_def sample_not_global sample_globsets
      required_state_def sample_state_def)

definition offline_world :: proxy_world where
  "offline_world = \<lparr>now = 0, lookup = (\<lambda>_ _. None), decider = None, unix_sockets_supported = False, canonicalize = (\<lambda>_. None)\<rparr>"

definition a_request :: network_policy_request where
  "a_request = host_request ProtoHttp ''a.example.com'' 80 None (Some ''GET'')"

lemma a_host: "parse_host ''a.example.com'' = Some ''a.example.com''" "parse_ip_addr ''a.example.com'' = None"
proof -
  show "parse_host ''a.example.com'' = Some ''a.example.com''" by code_simp
  show "parse_ip_addr ''a.example.com'' = None" by (simp add: read_ip_defs)
qed

lemma a_request_allowed: "fst (evaluate_host_policy sample_libs offline_world (Inr required_state) a_request) = Inr NetworkAllow"
proof -
  have "globset_is_match sample_globs [''?*.example.com''] ''a.example.com''"
    "\<not> globset_is_match sample_globs [''bad.example.com''] ''a.example.com''"
    by (simp_all add: globset_is_match_def sample_globs_def below_def host_eval suffix_Cons)
  moreover have "\<not> local_literal ''a.example.com''" "\<not> host_resolves_to_non_public_ip (\<lambda>_ _. None) ''a.example.com'' port" for port
    by (simp_all add: local_literal_def is_loopback_host_def without_scope_def split_once_def host_resolves_to_non_public_ip_def a_host)
  ultimately show ?thesis
    by (simp add: evaluate_host_policy_def host_policy_decision_def host_blocked_def a_request_def host_request_def a_host sample_libs_def
        required_state_def sample_state_def sample_settings_def offline_world_def)
qed

theorem managed_only_list_is_final_witness:
  "\<exists>h entry m. parse_host (request_host a_request) = Some h \<and> m \<in> set (or_default [] (req_allowed_domains sample_requirements)) \<and>
     to_ascii_lowercase entry = to_ascii_lowercase m \<and> covers (parse_pattern_text (normalize_pattern entry)) h"
proof (rule managed_only_list_is_final)
  show "from_config_and_constraints (lib_url_host sample_libs) sample_settings (Some sample_requirements) DangerFullAccess = Inr sample_spec"
    by (simp add: sample_libs_def sample_spec_made)
  show "req_managed_domains_only sample_requirements = Some True" by (simp add: sample_requirements_def)
  show "spec_reachable sample_libs sample_spec \<lparr>proxy_state = required_state, proxy_tasks = []\<rparr>"
    by (rule spec_starts [OF sample_spec_starts])
  show "glob_laws (lib_globs sample_libs)" by (simp add: sample_libs_def sample_glob_laws)
  show "list_all plain_pattern (set_allowed_domains (st_config (proxy_state \<lparr>proxy_state = required_state, proxy_tasks = []\<rparr>)))"
    using sample_canonical(1) by (simp add: required_state_def sample_state_def sample_settings_def canonical_entry_def)
  show "decider offline_world = started_decider sample_spec DangerFullAccess None False"
    by (simp add: offline_world_def started_decider_def)
  show "fst (evaluate_host_policy sample_libs offline_world
      (Inr (proxy_state \<lparr>proxy_state = required_state, proxy_tasks = []\<rparr>)) a_request) = Inr NetworkAllow"
    using a_request_allowed by simp
qed

definition forbidding_policy :: "string policy" where
  "forbidding_policy = policy_empty\<lparr>network_rules :=
     [\<lparr>net_host = evil, net_protocol = Https, net_decision = Forbidden, net_justification = None\<rparr>]\<rparr>"

definition forbidding_state :: config_state where
  "forbidding_state =
     \<lparr>st_config = default_proxy_settings\<lparr>set_denied_domains := [evil]\<rparr>, st_allow_set = [], st_deny_set = [evil], st_mitm = False,
      st_constraints = no_constraints, st_blocked = [], st_blocked_total = 0\<rparr>"

lemma forbidding_loads: "state_from_layers sample_libs [] forbidding_policy = Inr forbidding_state"
proof -
  have rules: "apply_exec_policy_network_rules default_proxy_settings forbidding_policy =
      default_proxy_settings\<lparr>set_denied_domains := [evil]\<rparr>"
    by (simp add: apply_exec_policy_network_rules_def compiled_network_domains_def forbidding_policy_def upsert_domain_def
        upsert_network_domain_def default_proxy_settings_def)
  have valid: "validate_policy_against_constraints Some (default_proxy_settings\<lparr>set_denied_domains := [evil]\<rparr>) no_constraints = Inr ()"
    by (simp add: validate_ok no_constraints_def default_proxy_settings_def validate_domain_patterns_def evil_not_global
        validate_flag_def validate_mode_def validate_all_unix_sockets_def validate_allowed_domains_def
        validate_denied_domains_def validate_unix_sockets_def)
  have globs: "compile_globset sample_globs [evil] = Inr [evil]" "compile_globset sample_globs [] = Inr []"
    by (simp_all add: compile_globset_def evil_not_global expand_domain_pattern_def evil_pattern sample_globs_def)
  have "load_state sample_libs (default_proxy_settings\<lparr>set_denied_domains := [evil]\<rparr>) no_constraints = Inr forbidding_state"
    using valid globs
    by (simp add: load_state_def sample_libs_def build_config_state_def validate_unix_socket_allowlist_paths_def
        default_proxy_settings_def validate_domain_patterns_def evil_not_global forbidding_state_def)
  then show ?thesis by (simp add: state_from_layers_def config_from_layers_def rules)
qed

end
