(* ===== verification/Permission_Profiles.thy ===== *)
theory Permission_Profiles
  imports Proxy_Spec File_System_Policy
begin

section \<open>Permission profiles of the configuration\<close>

text \<open>
  A model of \<^verbatim>\<open>codex-rs/core/src/config/permissions.rs\<close> on Unix: how a named profile of the configuration
  becomes a file-system policy and a network policy, with the warnings for what this version does
  not know.  The tables are lists in the order of their keys.
\<close>

subsection \<open>Tables\<close>

datatype filesystem_permission_toml =
    AccessToml file_system_access_mode
  | ScopedToml "(string \<times> file_system_access_mode) list"

record permission_profile_toml =
  toml_filesystem :: "(string \<times> filesystem_permission_toml) list option"
  toml_network :: "network_toml option"

type_synonym permissions_toml = "string \<rightharpoonup> permission_profile_toml"

datatype profile_error =
    UndefinedPermissionProfile string
  | NestedEntriesUnsupported string
  | PathNotAbsolute string
  | SubpathNotDescendant string
  | PathUnusable path_error

definition resolve_permission_profile :: "permissions_toml \<Rightarrow> string \<Rightarrow> (profile_error, permission_profile_toml) result" where
  "resolve_permission_profile permissions profile_name =
     (case permissions profile_name of
        Some profile \<Rightarrow> Inr profile
      | None \<Rightarrow> Inl (UndefinedPermissionProfile profile_name))"

definition to_network_proxy_config :: "network_toml \<Rightarrow> proxy_settings" where
  "to_network_proxy_config t = apply_to_network_proxy_config t default_proxy_settings"

definition network_proxy_config_from_profile_network :: "network_toml option \<Rightarrow> proxy_settings" where
  "network_proxy_config_from_profile_network network =
     (case network of None \<Rightarrow> default_proxy_settings | Some t \<Rightarrow> to_network_proxy_config t)"

definition compile_network_sandbox_policy :: "network_toml option \<Rightarrow> network_sandbox_policy" where
  "compile_network_sandbox_policy network =
     (case network of
        None \<Rightarrow> NetworkRestricted
      | Some t \<Rightarrow> if toml_enabled t = Some True then NetworkEnabled else NetworkRestricted)"

subsection \<open>Paths\<close>

definition parse_special_path :: "string \<Rightarrow> file_system_special_path option" where
  "parse_special_path text =
     (if text = '':root'' then Some Special_Root
      else if text = '':minimal'' then Some Special_Minimal
      else if text = '':project_roots'' then Some (Special_ProjectRoots None)
      else if text = '':tmpdir'' then Some Special_Tmpdir
      else if prefix '':'' text then Some (Special_Unknown text None)
      else None)"

definition parse_absolute_path :: "path_env \<Rightarrow> string \<Rightarrow> (profile_error, path) result" where
  "parse_absolute_path env text =
     (if \<not> is_absolute (path_components text) \<and> text \<noteq> ''~'' \<and> \<not> prefix ''~/'' text
      then Inl (PathNotAbsolute text)
      else map_sum PathUnusable id (from_absolute_path env (path_components text)))"

definition is_normal_component :: "path_component \<Rightarrow> bool" where
  "is_normal_component c = (case c of NormalComponent _ \<Rightarrow> True | _ \<Rightarrow> False)"

definition parse_relative_subpath :: "string \<Rightarrow> (profile_error, path) result" where
  "parse_relative_subpath subpath =
     (if subpath \<noteq> [] \<and> list_all is_normal_component (path_components subpath)
      then Inr (path_components subpath)
      else Inl (SubpathNotDescendant subpath))"

text \<open>The warnings, with the texts as they were written.\<close>

definition missing_filesystem_entries_warning :: "string \<Rightarrow> string" where
  "missing_filesystem_entries_warning profile_name =
     ''Permissions profile `'' @ profile_name @
     ''` does not define any recognized filesystem entries for this version of Codex. '' @
     ''Filesystem access will remain restricted. Upgrade Codex if this profile expects filesystem permissions.''"

definition unknown_special_path_warnings :: "file_system_special_path \<Rightarrow> string \<Rightarrow> string list" where
  "unknown_special_path_warnings special subpath_text =
     (case special of
        Special_Unknown text (Some _) \<Rightarrow>
          [''Configured filesystem path `'' @ text @ ''` with nested entry `'' @ subpath_text @
           ''` is not recognized by this version of Codex and will be ignored. Upgrade Codex if this path is required.'']
      | Special_Unknown text None \<Rightarrow>
          [''Configured filesystem path `'' @ text @
           ''` is not recognized by this version of Codex and will be ignored. Upgrade Codex if this path is required.'']
      | _ \<Rightarrow> [])"

definition compile_filesystem_path ::
  "path_env \<Rightarrow> string \<Rightarrow> string list \<Rightarrow> (profile_error, file_system_path) result \<times> string list"
where
  "compile_filesystem_path env text warnings =
     (case parse_special_path text of
        Some special \<Rightarrow> (Inr (Special special), warnings @ unknown_special_path_warnings special [])
      | None \<Rightarrow> (map_sum id Path (parse_absolute_path env text), warnings))"

fun nested_special_path :: "string \<Rightarrow> file_system_special_path \<Rightarrow> path \<Rightarrow> (profile_error, file_system_special_path) result" where
  "nested_special_path text (Special_ProjectRoots _) subpath = Inr (Special_ProjectRoots (Some subpath))"
| "nested_special_path text (Special_Unknown name _) subpath = Inr (Special_Unknown name (Some subpath))"
| "nested_special_path text _ subpath = Inl (NestedEntriesUnsupported text)"

definition compile_scoped_filesystem_path ::
  "path_env \<Rightarrow> string \<Rightarrow> string \<Rightarrow> string list \<Rightarrow> (profile_error, file_system_path) result \<times> string list"
where
  "compile_scoped_filesystem_path env text subpath warnings =
     (if subpath = ''.'' then compile_filesystem_path env text warnings
      else (case parse_special_path text of
              Some special \<Rightarrow>
                (case parse_relative_subpath subpath of
                   Inl e \<Rightarrow> (Inl e, warnings)
                 | Inr sub \<Rightarrow>
                     (case nested_special_path text special sub of
                        Inl e \<Rightarrow> (Inl e, warnings)
                      | Inr nested \<Rightarrow> (Inr (Special nested), warnings @ unknown_special_path_warnings nested subpath)))
            | None \<Rightarrow>
                (case parse_relative_subpath subpath of
                   Inl e \<Rightarrow> (Inl e, warnings)
                 | Inr sub \<Rightarrow>
                     (case parse_absolute_path env text of
                        Inl e \<Rightarrow> (Inl e, warnings)
                      | Inr base \<Rightarrow>
                          (map_sum PathUnusable Path (resolve_path_against_base env sub base), warnings)))))"

subsection \<open>Profiles\<close>

fun scoped_entries_loop ::
  "path_env \<Rightarrow> string \<Rightarrow> (string \<times> file_system_access_mode) list \<Rightarrow> file_system_sandbox_entry list \<Rightarrow> string list \<Rightarrow>
   (profile_error, file_system_sandbox_entry list) result \<times> string list"
where
  "scoped_entries_loop env text [] entries warnings = (Inr entries, warnings)"
| "scoped_entries_loop env text ((subpath, access) # rest) entries warnings =
     (case compile_scoped_filesystem_path env text subpath warnings of
        (Inl e, warnings) \<Rightarrow> (Inl e, warnings)
      | (Inr p, warnings) \<Rightarrow> scoped_entries_loop env text rest (entries @ [mk_entry p access]) warnings)"

definition compile_filesystem_permission ::
  "path_env \<Rightarrow> string \<Rightarrow> filesystem_permission_toml \<Rightarrow> file_system_sandbox_entry list \<Rightarrow> string list \<Rightarrow>
   (profile_error, file_system_sandbox_entry list) result \<times> string list"
where
  "compile_filesystem_permission env text permission entries warnings =
     (case permission of
        AccessToml access \<Rightarrow>
          (case compile_filesystem_path env text warnings of
             (Inl e, warnings) \<Rightarrow> (Inl e, warnings)
           | (Inr p, warnings) \<Rightarrow> (Inr (entries @ [mk_entry p access]), warnings))
      | ScopedToml scoped \<Rightarrow> scoped_entries_loop env text scoped entries warnings)"

fun filesystem_loop ::
  "path_env \<Rightarrow> (string \<times> filesystem_permission_toml) list \<Rightarrow> file_system_sandbox_entry list \<Rightarrow> string list \<Rightarrow>
   (profile_error, file_system_sandbox_entry list) result \<times> string list"
where
  "filesystem_loop env [] entries warnings = (Inr entries, warnings)"
| "filesystem_loop env ((text, permission) # rest) entries warnings =
     (case compile_filesystem_permission env text permission entries warnings of
        (Inl e, warnings) \<Rightarrow> (Inl e, warnings)
      | (Inr entries, warnings) \<Rightarrow> filesystem_loop env rest entries warnings)"

definition compile_permission_profile ::
  "path_env \<Rightarrow> permissions_toml \<Rightarrow> string \<Rightarrow> string list \<Rightarrow>
   (profile_error, file_system_sandbox_policy \<times> network_sandbox_policy) result \<times> string list"
where
  "compile_permission_profile env permissions profile_name warnings =
     (case resolve_permission_profile permissions profile_name of
        Inl e \<Rightarrow> (Inl e, warnings)
      | Inr profile \<Rightarrow>
          (case (case toml_filesystem profile of
                   None \<Rightarrow> (Inr [], warnings @ [missing_filesystem_entries_warning profile_name])
                 | Some table \<Rightarrow>
                     if table = [] then (Inr [], warnings @ [missing_filesystem_entries_warning profile_name])
                     else filesystem_loop env table [] warnings) of
             (Inl e, warnings) \<Rightarrow> (Inl e, warnings)
           | (Inr entries, warnings) \<Rightarrow>
               (Inr (restricted entries, compile_network_sandbox_policy (toml_network profile)), warnings)))"

subsection \<open>Compiled profiles are well formed\<close>

abbreviation wf_entries :: "file_system_sandbox_entry list \<Rightarrow> bool" where
  "wf_entries es \<equiv> list_all (\<lambda>e. case entry_path e of Path q \<Rightarrow> normalised q | Special _ \<Rightarrow> True) es"

lemma parse_absolute_wf: "wf_env fs \<Longrightarrow> parse_absolute_path (path_env fs) text = Inr q \<Longrightarrow> normalised q"
  using from_absolute_wf by (cases "from_absolute_path (path_env fs) (path_components text)") (auto simp: parse_absolute_path_def split: if_splits)

lemma compiled_path_wf:
  assumes "wf_env fs" and "compile_filesystem_path (path_env fs) text ws = (Inr p, ws')"
  shows "case p of Path q \<Rightarrow> normalised q | Special _ \<Rightarrow> True"
  using assms parse_absolute_wf [OF assms(1)]
  by (cases "parse_absolute_path (path_env fs) text") (auto simp: compile_filesystem_path_def split: option.splits)

lemma scoped_path_wf:
  assumes "wf_env fs" and "compile_scoped_filesystem_path (path_env fs) text sub ws = (Inr p, ws')"
  shows "case p of Path q \<Rightarrow> normalised q | Special _ \<Rightarrow> True"
proof (cases "sub = ''.'' \<or> parse_special_path text \<noteq> None")
  case True
  with assms compiled_path_wf show ?thesis
    by (auto simp: compile_scoped_filesystem_path_def split: if_splits sum.splits)
next
  case False
  with assms obtain s base q where "parse_absolute_path (path_env fs) text = Inr base"
    "resolve_path_against_base (path_env fs) s base = Inr q" "p = Path q"
    by (auto simp: compile_scoped_filesystem_path_def map_sum_def split: sum.splits)
  with parse_absolute_wf [OF assms(1)] resolve_against_wf show ?thesis by fastforce
qed

lemma scoped_entries_wf:
  assumes "wf_env fs" and "scoped_entries_loop (path_env fs) text scoped entries ws = (Inr entries', ws')" and "wf_entries entries"
  shows "wf_entries entries'"
  using assms(2,3)
proof (induction "path_env fs" "text" scoped entries ws rule: scoped_entries_loop.induct)
  case (2 t subpath access rest entries ws)
  then obtain p ws1 where p: "compile_scoped_filesystem_path (path_env fs) t subpath ws = (Inr p, ws1)"
    "scoped_entries_loop (path_env fs) t rest (entries @ [mk_entry p access]) ws1 = (Inr entries', ws')"
    by (auto split: prod.splits sum.splits)
  moreover have "wf_entries (entries @ [mk_entry p access])"
    using scoped_path_wf [OF assms(1) p(1)] 2(3) by (simp add: mk_entry_def)
  ultimately show ?case using 2(1) by metis
qed simp

lemma compiled_permission_wf:
  assumes "wf_env fs" and "compile_filesystem_permission (path_env fs) text permission entries ws = (Inr entries', ws')"
    and "wf_entries entries"
  shows "wf_entries entries'"
proof (cases permission)
  case (AccessToml access)
  with assms(2) obtain p where p: "compile_filesystem_path (path_env fs) text ws = (Inr p, ws')" "entries' = entries @ [mk_entry p access]"
    by (auto simp: compile_filesystem_permission_def split: prod.splits sum.splits)
  with compiled_path_wf [OF assms(1) p(1)] assms(3) show ?thesis by (simp add: mk_entry_def)
next
  case (ScopedToml scoped)
  with assms scoped_entries_wf show ?thesis by (auto simp: compile_filesystem_permission_def)
qed

lemma filesystem_loop_wf:
  assumes "wf_env fs" and "filesystem_loop (path_env fs) table entries ws = (Inr entries', ws')" and "wf_entries entries"
  shows "wf_entries entries'"
  using assms(2,3)
proof (induction "path_env fs" table entries ws rule: filesystem_loop.induct)
  case (2 t permission rest entries ws)
  then obtain es ws1 where es: "compile_filesystem_permission (path_env fs) t permission entries ws = (Inr es, ws1)"
    "filesystem_loop (path_env fs) rest es ws1 = (Inr entries', ws')"
    by (auto split: prod.splits sum.splits)
  with 2(1) compiled_permission_wf [OF assms(1) es(1) 2(3)] show ?case by metis
qed simp

text \<open>A profile gives a policy of the restricted kind whose paths are absolute and normalised.\<close>

lemma compiled_profile_wf:
  assumes "wf_env fs" and "compile_permission_profile (path_env fs) permissions name ws = (Inr (fsp, net), ws')"
  shows "policy_kind fsp = Restricted \<and> wf_policy fsp"
proof -
  from assms(2) obtain table entries ws1 where "fsp = restricted entries" "entries = [] \<or> filesystem_loop (path_env fs) table [] ws = (Inr entries, ws1)"
    by (auto simp: compile_permission_profile_def split: sum.splits option.splits prod.splits if_splits)
  with filesystem_loop_wf [OF assms(1)] show ?thesis by (auto simp: restricted_def wf_policy_def)
qed

subsection \<open>Nested entries\<close>

lemma normalize_names:
  "normalised base \<Longrightarrow> normalize_path env (map NormalComponent names) (Some base) = Inr (base @ map NormalComponent names)"
proof -
  assume base: "normalised base"
  have "\<not> is_absolute (map NormalComponent names)" by (cases names) (simp_all add: is_absolute_def)
  moreover have "is_absolute base" "is_absolute (base @ map NormalComponent names)"
    using base by (auto simp: normalised_def is_absolute_def)
  ultimately show ?thesis using normalize_loop_names [of names "[]" base] by (simp add: normalize_path_def)
qed

lemma normalize_home: "normalised home \<Longrightarrow> normalize_path env (path_join home (map NormalComponent names)) (Some base) =
    Inr (home @ map NormalComponent names)"
proof -
  assume home: "normalised home"
  have rel: "\<not> is_absolute (map NormalComponent names)" by (cases names) (simp_all add: is_absolute_def)
  have "filter (\<lambda>c. c \<noteq> CurDir) (map NormalComponent names) = map NormalComponent names" by (induction names) simp_all
  with rel home have join: "path_join home (map NormalComponent names) = home @ map NormalComponent names"
    by (auto simp: path_join_def normalised_def)
  have "is_absolute (home @ map NormalComponent names)" using home by (auto simp: normalised_def is_absolute_def)
  then show ?thesis
    using normalize_loop_base [OF home, of "map NormalComponent names" "[]"] normalize_loop_names [of names "[]" home]
    by (simp add: normalize_path_def join)
qed

text \<open>C40: A nested entry of a directory is meant to name something below it, and is checked for \<open>.\<close> and
  \<open>..\<close>; but where it starts with the sign for the home directory it is resolved against the home
  directory instead, so the entry may leave the directory it is written under.\<close>

theorem nested_entry_may_leave_its_directory:
  assumes "parse_special_path text = None" and "sub \<noteq> ''.''" and "path_components sub = map NormalComponent (n # ns)"
    and "parse_absolute_path env text = Inr base" and "normalised base" and "home_dir env = Some home" and "normalised home"
  shows "compile_scoped_filesystem_path env text sub warnings =
    (Inr (Path (if n = ''~'' then home @ map NormalComponent ns else base @ map NormalComponent (n # ns))), warnings)"
proof -
  have "sub \<noteq> []"
  proof
    assume "sub = []"
    moreover have "path_components [] = []" by code_simp
    ultimately show False using assms(3) by simp
  qed
  then have sub: "parse_relative_subpath sub = Inr (map NormalComponent (n # ns))"
    by (simp add: parse_relative_subpath_def assms(3) is_normal_component_def list_all_iff)
  have "resolve_path_against_base env (map NormalComponent (n # ns)) base =
      Inr (if n = ''~'' then home @ map NormalComponent ns else base @ map NormalComponent (n # ns))"
    using normalize_home [OF assms(7)] normalize_names [OF assms(5), of env "n # ns"]
    by (simp add: resolve_path_against_base_def maybe_expand_home_directory_def assms(6))
  then show ?thesis by (simp add: compile_scoped_filesystem_path_def assms(1,2,4) sub)
qed

definition home_env :: path_env where
  "home_env = \<lparr>home_dir = Some [RootDir, NormalComponent ''home''], process_dir = None\<rparr>"

theorem nested_entry_may_leave_its_directory_witness:
  "compile_scoped_filesystem_path home_env ''/w'' ''~/.ssh'' [] = (Inr (Path [RootDir, NormalComponent ''home'', NormalComponent ''.ssh'']), [])"
proof -
  have "parse_special_path ''/w'' = None" "path_components ''~/.ssh'' = map NormalComponent [''~'', ''.ssh'']"
    "parse_absolute_path home_env ''/w'' = Inr [RootDir, NormalComponent ''w'']" "normalised [RootDir, NormalComponent ''w'']"
    "normalised [RootDir, NormalComponent ''home'']" "home_dir home_env = Some [RootDir, NormalComponent ''home'']"
    by code_simp+
  then show ?thesis
    using nested_entry_may_leave_its_directory [of "''/w''" "''~/.ssh''" "''~''" "[''.ssh'']" home_env "[RootDir, NormalComponent ''w'']"
      "[RootDir, NormalComponent ''home'']" "[]"] by simp
qed

end
