(* ===== verification/Config_Edits.thy ===== *)
theory Config_Edits
  imports Config_Layers
begin

section \<open>Edits of the user's configuration\<close>

text \<open>
  A model of the writes of \<^verbatim>\<open>codex-rs/core/src/config/service.rs\<close>: values at key paths, edits of the
  user's layer, and what is reported when another layer overrides them.  Reading JSON, the
  validation of a whole configuration and the rewriting of the file are parameters.
\<close>

subsection \<open>Values at key paths\<close>

text \<open>Floats are compared as numbers: the zeros are equal, and nothing equals a NaN.\<close>

definition f64_nan :: "64 word \<Rightarrow> bool" where
  "f64_nan w = (let m = unat w mod 2 ^ 63 in 2047 * 2 ^ 52 < m)"

definition f64_eq :: "64 word \<Rightarrow> 64 word \<Rightarrow> bool" where
  "f64_eq a b = (\<not> f64_nan a \<and> \<not> f64_nan b \<and> (a = b \<or> (unat a mod 2 ^ 63 = 0 \<and> unat b mod 2 ^ 63 = 0)))"

fun toml_eq :: "toml_value \<Rightarrow> toml_value \<Rightarrow> bool" where
  "toml_eq (TomlString a) (TomlString b) = (a = b)"
| "toml_eq (TomlInteger a) (TomlInteger b) = (a = b)"
| "toml_eq (TomlFloat a) (TomlFloat b) = f64_eq a b"
| "toml_eq (TomlBoolean a) (TomlBoolean b) = (a = b)"
| "toml_eq (TomlDatetime a) (TomlDatetime b) = (a = b)"
| "toml_eq (TomlArray xs) (TomlArray ys) = list_all2 toml_eq xs ys"
| "toml_eq (TomlTable es) (TomlTable fs) =
     (length es = length fs \<and>
      list_all (\<lambda>e. case map_of fs (fst e) of None \<Rightarrow> False | Some w \<Rightarrow> toml_eq (snd e) w) es)"
| "toml_eq _ _ = False"

definition opt_toml_eq :: "toml_value option \<Rightarrow> toml_value option \<Rightarrow> bool" where
  "opt_toml_eq a b =
     (case a of
        None \<Rightarrow> b = None
      | Some v \<Rightarrow> (case b of None \<Rightarrow> False | Some w \<Rightarrow> toml_eq v w))"

text \<open>\<open>parse::<i64>()\<close> and then \<open>usize::try_from\<close>.\<close>

definition parse_index :: "string \<Rightarrow> nat option" where
  "parse_index s =
     (let negative = prefix ''-'' s;
          ds = (if prefix ''+'' s \<or> negative then tl s else s) in
      if ds = [] \<or> \<not> list_all is_ascii_digit ds then None
      else (let n = foldl (\<lambda>acc c. acc * 10 + (of_char c - 48)) 0 ds in
            if negative then (if n = 0 then Some 0 else None)
            else if n < 2 ^ 63 then Some n else None))"

fun value_at_path :: "toml_value \<Rightarrow> string list \<Rightarrow> toml_value option" where
  "value_at_path current [] = Some current"
| "value_at_path current (segment # segments) =
     (case current of
        TomlTable table \<Rightarrow>
          (case map_of table segment of None \<Rightarrow> None | Some v \<Rightarrow> value_at_path v segments)
      | TomlArray items \<Rightarrow>
          (case parse_index segment of
             None \<Rightarrow> None
           | Some idx \<Rightarrow> if idx < length items then value_at_path (items ! idx) segments else None)
      | _ \<Rightarrow> None)"

definition parse_key_path :: "string \<Rightarrow> (string, string list) result" where
  "parse_key_path p =
     (if str_trim p = [] then Inl ''keyPath must not be empty'' else Inr (split_char (CHR ''.'') p))"

subsection \<open>Edits\<close>

datatype merge_strategy = Replace | Upsert

datatype merge_error = PathNotFound | MergeValidation string

fun clear_path :: "toml_value \<Rightarrow> string list \<Rightarrow> (merge_error, toml_value \<times> bool) result" where
  "clear_path current [] = Inl (MergeValidation ''keyPath must not be empty'')"
| "clear_path current [segment] =
     (case current of
        TomlTable table \<Rightarrow> Inr (TomlTable (AList.delete segment table), map_of table segment \<noteq> None)
      | _ \<Rightarrow> Inl PathNotFound)"
| "clear_path current (segment # next # rest) =
     (case current of
        TomlTable table \<Rightarrow>
          (case map_of table segment of
             None \<Rightarrow> Inl PathNotFound
           | Some v \<Rightarrow>
               (case clear_path v (next # rest) of
                  Inl e \<Rightarrow> Inl e
                | Inr (v', changed) \<Rightarrow> Inr (TomlTable (AList.update segment v' table), changed)))
      | _ \<Rightarrow> Inl PathNotFound)"

definition set_in_table ::
  "(string \<times> toml_value) list \<Rightarrow> string \<Rightarrow> toml_value \<Rightarrow> merge_strategy \<Rightarrow> toml_value \<times> bool"
where
  "set_in_table table key v strategy =
     (case map_of table key of
        Some existing \<Rightarrow>
          if strategy = Upsert \<and> is_table existing \<and> is_table v
          then (TomlTable (AList.update key (merge_toml_values existing v) table), True)
          else (TomlTable (AList.update key v table), \<not> toml_eq existing v)
      | None \<Rightarrow> (TomlTable (AList.update key v table), True))"

fun set_path :: "toml_value \<Rightarrow> string list \<Rightarrow> toml_value \<Rightarrow> merge_strategy \<Rightarrow> (merge_error, toml_value \<times> bool) result" where
  "set_path current [] v strategy = Inl (MergeValidation ''keyPath must not be empty'')"
| "set_path current [segment] v strategy =
     (case current of
        TomlTable table \<Rightarrow> Inr (set_in_table table segment v strategy)
      | _ \<Rightarrow> Inl (MergeValidation ''cannot set value on non-table parent''))"
| "set_path current (segment # next # rest) v strategy =
     (let table = table_entries current;
          entry = (case map_of table segment of Some t \<Rightarrow> t | None \<Rightarrow> empty_table)
      in case set_path entry (next # rest) v strategy of
           Inl e \<Rightarrow> Inl e
         | Inr (entry', changed) \<Rightarrow> Inr (TomlTable (AList.update segment entry' table), changed))"

definition apply_merge ::
  "toml_value \<Rightarrow> string list \<Rightarrow> toml_value option \<Rightarrow> merge_strategy \<Rightarrow> (merge_error, toml_value \<times> bool) result"
where
  "apply_merge root segments v strategy =
     (case v of
        None \<Rightarrow> clear_path root segments
      | Some w \<Rightarrow> set_path root segments w strategy)"

subsection \<open>Overridden edits\<close>

record overridden_metadata =
  override_layer :: layer_metadata
  override_value :: "toml_value option"

definition find_effective_layer :: "config_layer_stack \<Rightarrow> string list \<Rightarrow> layer_metadata option" where
  "find_effective_layer st segments =
     map_option metadata (List.find (\<lambda>layer. value_at_path (entry_config layer) segments \<noteq> None) (layers_high_to_low st))"

definition compute_override_metadata :: "config_layer_stack \<Rightarrow> toml_value \<Rightarrow> string list \<Rightarrow> overridden_metadata option" where
  "compute_override_metadata st effective segments =
     (case get_user_layer st of
        None \<Rightarrow> None
      | Some user_layer \<Rightarrow>
          (let user_value = value_at_path (entry_config user_layer) segments;
               effective_value = value_at_path effective segments
           in if user_value \<noteq> None \<and> opt_toml_eq user_value effective_value then None
              else if user_value = None \<and> effective_value = None then None
              else map_option (\<lambda>layer. \<lparr>override_layer = layer, override_value = effective_value\<rparr>)
                     (find_effective_layer st segments)))"

fun first_overridden_edit :: "config_layer_stack \<Rightarrow> toml_value \<Rightarrow> string list list \<Rightarrow> overridden_metadata option" where
  "first_overridden_edit st effective [] = None"
| "first_overridden_edit st effective (segments # edits) =
     (case compute_override_metadata st effective segments of
        Some meta \<Rightarrow> Some meta
      | None \<Rightarrow> first_overridden_edit st effective edits)"

subsection \<open>Writing\<close>

datatype service_error =
    PathError | LayerReadonly | LayersError string | EmptyLayerError | VersionConflict | ValidationError string
  | EditPathNotFound | PersistError | UserLayerNotFound

datatype config_edit = SetPath "string list" toml_value | ClearPath "string list"

record write_response =
  write_overridden :: "overridden_metadata option"
  write_version :: string
  write_file :: path

text \<open>What a write uses of the outside: JSON values, canonical paths, the types of the configuration
  and the file.  The checks of the user's configuration are those of its types and of its features.\<close>

record 'j edit_env =
  parse_value :: "'j \<Rightarrow> (string, toml_value option) result"
  canonical :: "path \<Rightarrow> path option"
  version_for :: "toml_value \<Rightarrow> string"
  empty_user_layer :: "config_layer_entry option"
  validate_config :: "toml_value \<Rightarrow> (string, unit) result"
  validate_user_config :: "toml_value \<Rightarrow> (string, unit) result"
  persist_edits :: "config_edit list \<Rightarrow> bool"

definition paths_match :: "(path \<Rightarrow> path option) \<Rightarrow> path \<Rightarrow> path \<Rightarrow> bool" where
  "paths_match canon expected provided =
     (case (canon expected, canon provided) of
        (Some a, Some b) \<Rightarrow> a = b
      | _ \<Rightarrow> expected = provided)"

definition edit_of :: "string list \<Rightarrow> toml_value option \<Rightarrow> config_edit" where
  "edit_of segments updated = (case updated of Some v \<Rightarrow> SetPath segments v | None \<Rightarrow> ClearPath segments)"

fun edit_loop ::
  "'j edit_env \<Rightarrow> (string \<times> 'j \<times> merge_strategy) list \<Rightarrow> toml_value \<Rightarrow>
   (service_error, toml_value \<times> config_edit list \<times> string list list) result"
where
  "edit_loop env [] user_config = Inr (user_config, [], [])"
| "edit_loop env ((key_path, v, strategy) # edits) user_config =
     (case parse_key_path key_path of
        Inl m \<Rightarrow> Inl (ValidationError m)
      | Inr segments \<Rightarrow>
          (case parse_value env v of
             Inl m \<Rightarrow> Inl (ValidationError m)
           | Inr parsed_value \<Rightarrow>
               (case apply_merge user_config segments parsed_value strategy of
                  Inl PathNotFound \<Rightarrow> Inl EditPathNotFound
                | Inl (MergeValidation m) \<Rightarrow> Inl (ValidationError m)
                | Inr (user_config', _) \<Rightarrow>
                    (let original_value = value_at_path user_config segments;
                         updated_value = value_at_path user_config' segments;
                         new = (if \<not> opt_toml_eq original_value updated_value then [edit_of segments updated_value] else [])
                     in case edit_loop env edits user_config' of
                          Inl e \<Rightarrow> Inl e
                        | Inr (final, config_edits, parsed) \<Rightarrow> Inr (final, new @ config_edits, segments # parsed)))))"

definition edit_paths :: "path_env \<Rightarrow> path \<Rightarrow> path option \<Rightarrow> (service_error, path \<times> path) result" where
  "edit_paths penv codex_home file_path =
     (case resolve_path_against_base penv CONFIG_TOML_FILE codex_home of
        Inl _ \<Rightarrow> Inl PathError
      | Inr allowed_path \<Rightarrow>
          (case file_path of
             None \<Rightarrow> Inr (allowed_path, allowed_path)
           | Some p \<Rightarrow>
               (case from_absolute_path penv p of
                  Inl _ \<Rightarrow> Inl PathError
                | Inr provided_path \<Rightarrow> Inr (allowed_path, provided_path))))"

text \<open>The result, and the edits that were written to the file.\<close>

definition write_edits ::
  "'j edit_env \<Rightarrow> path \<Rightarrow> config_edit list \<Rightarrow> string list list \<Rightarrow> config_layer_stack \<Rightarrow>
   (service_error, write_response) result \<times> config_edit list"
where
  "write_edits env provided_path config_edits parsed_segments updated_layers =
     (let effective = effective_config updated_layers in
      case validate_config env effective of
        Inl m \<Rightarrow> (Inl (ValidationError m), [])
      | Inr _ \<Rightarrow>
          if config_edits \<noteq> [] \<and> \<not> persist_edits env config_edits then (Inl PersistError, [])
          else (case get_user_layer updated_layers of
                  None \<Rightarrow> (Inl UserLayerNotFound, config_edits)
                | Some layer \<Rightarrow>
                    (Inr \<lparr>write_overridden = first_overridden_edit updated_layers effective parsed_segments,
                          write_version = entry_version layer, write_file = provided_path\<rparr>,
                     config_edits)))"

definition apply_edits ::
  "'j edit_env \<Rightarrow> path_env \<Rightarrow> path \<Rightarrow> path option \<Rightarrow> string option \<Rightarrow> (string, config_layer_stack) result \<Rightarrow>
   (string \<times> 'j \<times> merge_strategy) list \<Rightarrow> (service_error, write_response) result \<times> config_edit list"
where
  "apply_edits env penv codex_home file_path expected_version loaded edits =
     (case edit_paths penv codex_home file_path of
        Inl e \<Rightarrow> (Inl e, [])
      | Inr (allowed_path, provided_path) \<Rightarrow>
      if \<not> paths_match (canonical env) allowed_path provided_path then (Inl LayerReadonly, [])
      else (case loaded of
        Inl m \<Rightarrow> (Inl (LayersError m), [])
      | Inr st \<Rightarrow>
          (case (case get_user_layer st of Some layer \<Rightarrow> Some layer | None \<Rightarrow> empty_user_layer env) of
             None \<Rightarrow> (Inl EmptyLayerError, [])
           | Some user_layer \<Rightarrow>
               if (case expected_version of Some expected \<Rightarrow> expected \<noteq> entry_version user_layer | None \<Rightarrow> False)
               then (Inl VersionConflict, [])
               else (case edit_loop env edits (entry_config user_layer) of
                 Inl e \<Rightarrow> (Inl e, [])
               | Inr (user_config, config_edits, parsed_segments) \<Rightarrow>
                   (case validate_user_config env user_config of
                      Inl m \<Rightarrow> (Inl (ValidationError m), [])
                    | Inr _ \<Rightarrow>
                        (case with_user_config (version_for env) provided_path user_config st of
                           None \<Rightarrow> (Inl UserLayerNotFound, [])
                         | Some updated_layers \<Rightarrow>
                             write_edits env provided_path config_edits parsed_segments updated_layers))))))"

subsection \<open>What an edit changes\<close>

definition tables_along :: "toml_value \<Rightarrow> string list \<Rightarrow> bool" where
  "tables_along root segments = (\<forall>r v. strict_prefix r segments \<and> value_at_path root r = Some v \<longrightarrow> is_table v)"

lemma tables_along_step:
  assumes "tables_along current (segment # next # rest)"
  shows "\<exists>table. current = TomlTable table \<and> (\<forall>v. map_of table segment = Some v \<longrightarrow> tables_along v (next # rest))"
proof -
  have "strict_prefix [] (segment # next # rest)" "value_at_path current [] = Some current" by simp_all
  with assms have "is_table current" unfolding tables_along_def by blast
  then obtain table where table: "current = TomlTable table" by (metis is_table.elims(2))
  have "tables_along v (next # rest)" if "map_of table segment = Some v" for v
    unfolding tables_along_def
  proof safe
    fix r w assume "strict_prefix r (next # rest)" "value_at_path v r = Some w"
    with that table have "strict_prefix (segment # r) (segment # next # rest)" "value_at_path current (segment # r) = Some w"
      by simp_all
    with assms show "is_table w" unfolding tables_along_def by blast
  qed
  with table show ?thesis by blast
qed

definition set_value :: "toml_value option \<Rightarrow> toml_value \<Rightarrow> merge_strategy \<Rightarrow> toml_value" where
  "set_value existing v strategy =
     (case existing of
        Some e \<Rightarrow> if strategy = Upsert \<and> is_table e \<and> is_table v then merge_toml_values e v else v
      | None \<Rightarrow> v)"

declare empty_table_def [simp]

lemma tables_along_empty: "tables_along empty_table ss"
  by (auto simp: tables_along_def elim!: value_at_path.elims)

lemma set_path_spec:
  "set_path root segments v strategy = Inr (root', c) \<Longrightarrow> tables_along root segments \<Longrightarrow>
   value_at_path root' segments = Some (set_value (value_at_path root segments) v strategy) \<and>
   (\<forall>q. \<not> prefix q segments \<longrightarrow> \<not> prefix segments q \<longrightarrow> value_at_path root' q = value_at_path root q)"
proof (induction root segments v strategy arbitrary: root' c rule: set_path.induct)
  case (2 current segment v strategy)
  then obtain table where table: "current = TomlTable table" "set_in_table table segment v strategy = (root', c)"
    by (auto split: toml_value.splits)
  then have root': "root' = TomlTable (AList.update segment (set_value (map_of table segment) v strategy) table)"
    by (auto simp: set_in_table_def set_value_def split: option.splits if_splits)
  have "value_at_path root' q = value_at_path current q" if "\<not> prefix q [segment]" "\<not> prefix [segment] q" for q
    using that by (cases q) (auto simp: root' table(1) AList.update_conv')
  then show ?case by (simp add: root' table(1) AList.update_conv' split: option.split)
next
  case (3 current segment "next" rest v strategy)
  from tables_along_step [OF 3(3)] obtain table where table: "current = TomlTable table"
    and along: "\<And>v. map_of table segment = Some v \<Longrightarrow> tables_along v (next # rest)" by blast
  let ?entry = "case map_of table segment of Some t \<Rightarrow> t | None \<Rightarrow> empty_table"
  from 3(2) obtain entry' where entry': "set_path ?entry (next # rest) v strategy = Inr (entry', c)"
    and root': "root' = TomlTable (AList.update segment entry' table)"
    by (auto simp: table Let_def split: sum.splits)
  have "tables_along ?entry (next # rest)" using along tables_along_empty by (auto split: option.split)
  with 3(1) [OF _ refl entry'] table have IH: "value_at_path entry' (next # rest) = Some (set_value (value_at_path ?entry (next # rest)) v strategy)"
      "\<And>q. \<not> prefix q (next # rest) \<Longrightarrow> \<not> prefix (next # rest) q \<Longrightarrow> value_at_path entry' q = value_at_path ?entry q"
    by simp_all
  have "value_at_path root' q = value_at_path current q"
    if "\<not> prefix q (segment # next # rest)" "\<not> prefix (segment # next # rest) q" for q
  proof (cases q)
    case (Cons a q')
    show ?thesis
    proof (cases "a = segment")
      case True
      with that Cons have q': "\<not> prefix q' (next # rest)" "\<not> prefix (next # rest) q'" by simp_all
      then obtain b q'' where "q' = b # q''" by (cases q') auto
      with IH(2) [OF q'] True Cons show ?thesis
        by (simp add: root' table AList.update_conv' split: option.splits)
    qed (simp add: root' table AList.update_conv' Cons)
  qed (use that in simp)
  moreover have "value_at_path ?entry (next # rest) = value_at_path current (segment # next # rest)"
    by (simp add: table split: option.split)
  ultimately show ?case using IH(1) by (simp add: root' AList.update_conv')
qed simp

lemma clear_path_spec:
  "clear_path root segments = Inr (root', c) \<Longrightarrow>
   value_at_path root' segments = None \<and>
   (\<forall>q. \<not> prefix q segments \<longrightarrow> \<not> prefix segments q \<longrightarrow> value_at_path root' q = value_at_path root q)"
proof (induction root segments arbitrary: root' c rule: clear_path.induct)
  case (2 current segment)
  then obtain table where table: "current = TomlTable table" "root' = TomlTable (AList.delete segment table)"
    by (auto split: toml_value.splits)
  have "value_at_path root' q = value_at_path current q" if "\<not> prefix q [segment]" "\<not> prefix [segment] q" for q
    using that by (cases q) (auto simp: table AList.delete_conv')
  then show ?case by (simp add: table AList.delete_conv')
next
  case (3 current segment "next" rest)
  then obtain table entry entry' where table: "current = TomlTable table" "map_of table segment = Some entry"
      "clear_path entry (next # rest) = Inr (entry', c)" "root' = TomlTable (AList.update segment entry' table)"
    by (auto split: toml_value.splits option.splits sum.splits)
  note IH = 3(1) [OF table(1,2,3)]
  have "value_at_path root' q = value_at_path current q"
    if "\<not> prefix q (segment # next # rest)" "\<not> prefix (segment # next # rest) q" for q
    using that IH by (cases q) (auto simp: table AList.update_conv')
  then show ?case using IH by (simp add: table AList.update_conv')
qed simp

text \<open>An edit of the configuration does what it says and nothing else, unless it has to replace a
  scalar or an array on its way: a removed key is gone, a replaced one has the new value, an upserted
  table is merged into the old one, and every value at another path stays as it is.\<close>

lemma edits_change_only_their_path:
  assumes "apply_merge root segments v strategy = Inr (root', changed)" and "tables_along root segments"
  shows "value_at_path root' segments = map_option (\<lambda>w. set_value (value_at_path root segments) w strategy) v \<and>
    (\<forall>q. \<not> prefix q segments \<longrightarrow> \<not> prefix segments q \<longrightarrow> value_at_path root' q = value_at_path root q)"
  using assms set_path_spec clear_path_spec by (cases v) (simp_all add: apply_merge_def)

subsection \<open>What a write reports\<close>

lemma merged_value:
  "value_at_path (merge_toml_values b ov) p \<noteq> None \<Longrightarrow> wf_toml ov \<Longrightarrow>
   value_at_path b p \<noteq> None \<or> value_at_path ov p \<noteq> None"
proof (induction b ov arbitrary: p rule: merge_induct)
  case (tables bs os)
  show ?case
  proof (cases p)
    case (Cons key q)
    note merged = map_of_merge_entries [OF wf_table_keys [OF tables.prems(2)], of bs key]
    show ?thesis
    proof (cases "map_of bs key = None \<or> map_of os key = None")
      case False
      then obtain v w where vw: "map_of bs key = Some v" "map_of os key = Some w" by auto
      with tables.IH [OF vw, of q] tables.prems Cons map_of_wf [OF tables.prems(2) vw(2)] merged show ?thesis by simp
    qed (use tables.prems(1) Cons merged in \<open>auto split: option.splits\<close>)
  qed simp
qed (simp add: merge_replaces)

lemma merged_layers_value:
  "value_at_path (merge_layers ls) p \<noteq> None \<Longrightarrow> p \<noteq> [] \<Longrightarrow> \<forall>l \<in> set ls. wf_toml (entry_config l) \<Longrightarrow>
   \<exists>l \<in> set ls. value_at_path (entry_config l) p \<noteq> None"
proof (induction ls rule: rev_induct)
  case Nil
  then show ?case by (cases p) (auto simp: merge_layers_def)
next
  case (snoc l ls)
  then show ?case using merged_value [of "merge_layers ls" "entry_config l" p] by (auto simp: merge_layers_snoc)
qed

lemma first_overridden_None: "first_overridden_edit st effective edits = None \<Longrightarrow> segments \<in> set edits \<Longrightarrow>
    compute_override_metadata st effective segments = None"
  by (induction edits) (auto split: option.splits)

lemma compute_None:
  assumes "compute_override_metadata st (effective_config st) segments = None" and "segments \<noteq> []"
    and "get_user_layer st = Some user" and "\<not> is_disabled user" and "\<forall>l \<in> set (layers st). wf_toml (entry_config l)"
  shows "value_at_path (entry_config user) segments = None \<and> value_at_path (effective_config st) segments = None \<or>
    (\<exists>v w. value_at_path (entry_config user) segments = Some v \<and>
       value_at_path (effective_config st) segments = Some w \<and> toml_eq v w)"
proof (cases "find_effective_layer st segments")
  case None
  then have none: "value_at_path (entry_config l) segments = None" if "l \<in> set (layers st)" "\<not> is_disabled l" for l
    using that by (auto simp: find_effective_layer_def find_None_iff layers_high_to_low_def get_layers_def)
  have "user \<in> set (layers st)" using assms(3) by (auto simp: get_user_layer_def split: option.splits if_splits)
  with none assms(4) have "value_at_path (entry_config user) segments = None" by blast
  moreover have "value_at_path (effective_config st) segments = None"
    using merged_layers_value [of "get_layers st LowestPrecedenceFirst False" segments] none assms(2,5)
    by (force simp: effective_config_def get_layers_def)
  ultimately show ?thesis by simp
next
  case (Some meta)
  with assms(1,3) show ?thesis
    by (auto simp: compute_override_metadata_def Let_def opt_toml_eq_def split: if_splits option.splits)
qed

definition wf_edit_env :: "'j edit_env \<Rightarrow> bool" where
  "wf_edit_env env =
     ((\<forall>j v. parse_value env j = Inr (Some v) \<longrightarrow> wf_toml v) \<and>
      (\<forall>l. empty_user_layer env = Some l \<longrightarrow> wf_toml (entry_config l)))"

lemma wf_table_update: "wf_toml (TomlTable es) \<Longrightarrow> wf_toml v \<Longrightarrow> wf_toml (TomlTable (AList.update k v es))"
proof -
  assume es: "wf_toml (TomlTable es)" and v: "wf_toml v"
  have keys: "distinct (map fst (AList.update k v es))" using es by (simp add: distinct_update)
  have "wf_toml w" if "map_of (AList.update k v es) key = Some w" for key w
    using that es v map_of_wf [OF es] by (auto simp: AList.update_conv' split: if_splits)
  then have "wf_toml (snd e)" if "e \<in> set (AList.update k v es)" for e
    using that keys by (metis map_of_eq_Some_iff prod.collapse)
  with keys show ?thesis by simp
qed

lemma wf_table_entries: "wf_toml v \<Longrightarrow> wf_toml (TomlTable (table_entries v))"
  by (cases v) auto

lemma wf_set_path:
  "set_path root segments v strategy = Inr (root', c) \<Longrightarrow> wf_toml root \<Longrightarrow> wf_toml v \<Longrightarrow> wf_toml root'"
proof (induction root segments v strategy arbitrary: root' c rule: set_path.induct)
  case (2 current segment v strategy)
  then show ?case
    by (auto simp del: wf_toml.simps simp: set_in_table_def merge_wf map_of_wf wf_table_update
        split: toml_value.splits option.splits if_splits)
next
  case (3 current segment "next" rest v strategy)
  let ?es = "table_entries current"
  let ?entry = "case map_of ?es segment of Some t \<Rightarrow> t | None \<Rightarrow> empty_table"
  from 3(2) obtain entry' where entry': "set_path ?entry (next # rest) v strategy = Inr (entry', c)"
    "root' = TomlTable (AList.update segment entry' ?es)" by (auto simp: Let_def split: sum.splits)
  note es = wf_table_entries [OF 3(3)]
  have "wf_toml ?entry" using map_of_wf [OF es] by (auto split: option.split)
  from 3(1) [OF refl refl entry'(1) this 3(4)] es show ?case unfolding entry'(2) by (intro wf_table_update)
qed simp

lemma wf_clear_path: "clear_path root segments = Inr (root', c) \<Longrightarrow> wf_toml root \<Longrightarrow> wf_toml root'"
proof (induction root segments arbitrary: root' c rule: clear_path.induct)
  case (2 current segment)
  then show ?case by (auto simp: AList.delete_eq distinct_map_filter split: toml_value.splits)
next
  case (3 current segment "next" rest)
  then obtain table entry entry' where table: "current = TomlTable table" "map_of table segment = Some entry"
      "clear_path entry (next # rest) = Inr (entry', c)" "root' = TomlTable (AList.update segment entry' table)"
    by (auto split: toml_value.splits option.splits sum.splits)
  have "wf_toml entry" using 3(3) table(1,2) map_of_wf by blast
  from 3(1) [OF table(1,2,3) this] 3(3) show ?case unfolding table(1,4) by (intro wf_table_update)
qed simp

lemma edit_loop_spec:
  "edit_loop env edits user_config = Inr (final, config_edits, parsed) \<Longrightarrow> wf_edit_env env \<Longrightarrow> wf_toml user_config \<Longrightarrow>
   wf_toml final \<and> list_all2 (\<lambda>e segments. parse_key_path (fst e) = Inr segments) edits parsed"
proof (induction env edits user_config arbitrary: final config_edits parsed rule: edit_loop.induct)
  case (2 env key_path j strategy edits user_config)
  from 2(2) obtain segments v user_config' c config_edits' parsed' where step:
    "parse_key_path key_path = Inr segments" "parse_value env j = Inr v"
    "apply_merge user_config segments v strategy = Inr (user_config', c)"
    "edit_loop env edits user_config' = Inr (final, config_edits', parsed')" "parsed = segments # parsed'"
    by (auto simp: Let_def split: sum.splits merge_error.splits)
  have "wf_toml user_config'"
    using step(2,3) 2(3,4) wf_set_path wf_clear_path by (auto simp: apply_merge_def wf_edit_env_def split: option.splits)
  with 2(1) [OF step(1,2,3) refl refl refl refl step(4) 2(3)] step show ?case by simp
qed simp

text \<open>C34: A write that reports no override is in force.  The edits are applied, in their order, to the
  user's layer as it was loaded, and the result is the user's layer of the new stack, in which the other layers are
  as they were and in order; what is written to the file is what these edits changed, and the version in the answer is
  that of the new layer.  If the answer names no overriding layer, the new effective configuration
  has, at every path that was edited, the value that the new layer has there, or both have
  none.  The stack that was loaded passes the check of its order, and no table has a key twice,
  neither in a layer nor in a value that is written.\<close>

theorem unreported_writes_are_in_force:
  assumes "apply_edits env penv codex_home file_path expected (Inr st) edits = (Inr response, written)"
    and "write_overridden response = None" and "stack_ok st" and "wf_edit_env env"
    and "\<forall>l \<in> set (layers st). wf_toml (entry_config l)"
  shows "\<exists>st' old user parsed. get_user_layer st' = Some user \<and> stack_ok st' \<and> write_version response = entry_version user \<and>
    filter (\<lambda>l. \<not> is_user_layer l) (layers st') = filter (\<lambda>l. \<not> is_user_layer l) (layers st) \<and>
    (case get_user_layer st of Some layer \<Rightarrow> Some layer | None \<Rightarrow> empty_user_layer env) = Some old \<and>
    edit_loop env edits (entry_config old) = Inr (entry_config user, written, parsed) \<and>
    (\<forall>e \<in> set edits. \<exists>segments. parse_key_path (fst e) = Inr segments \<and>
       (case (value_at_path (entry_config user) segments, value_at_path (effective_config st') segments) of
          (None, None) \<Rightarrow> True
        | (Some v, Some w) \<Rightarrow> toml_eq v w
        | _ \<Rightarrow> False))"
proof -
  from assms(1) obtain provided old user_config config_edits parsed st' where run:
    "(case get_user_layer st of Some layer \<Rightarrow> Some layer | None \<Rightarrow> empty_user_layer env) = Some old"
    "edit_loop env edits (entry_config old) = Inr (user_config, config_edits, parsed)"
    "with_user_config (version_for env) provided user_config st = Some st'"
    "write_edits env provided config_edits parsed st' = (Inr response, written)"
    by (auto simp: apply_edits_def split: sum.splits prod.splits if_splits option.splits)
  let ?user = "new_layer (version_for env) (LayerUser provided) user_config"
  from with_user_config_spec [OF assms(3), of "version_for env" provided user_config] run(3)
  have st': "stack_ok st'" "get_user_layer st' = Some ?user"
    "filter (\<lambda>l. \<not> is_user_layer l) (layers st') = filter (\<lambda>l. \<not> is_user_layer l) (layers st)" by auto
  from run(4) st'(2) have response: "write_overridden response = first_overridden_edit st' (effective_config st') parsed"
    "write_version response = entry_version ?user" "written = config_edits"
    by (auto simp: write_edits_def Let_def split: sum.splits if_splits)
  have "wf_toml (entry_config old)"
    using run(1) assms(4,5) by (auto simp: wf_edit_env_def get_user_layer_def split: option.splits if_splits)
  note loop = edit_loop_spec [OF run(2) assms(4) this]
  have "wf_toml (entry_config l)" if "l \<in> set (layers st')" for l
    using with_user_config_layers [OF run(3)] that assms(5) loop by (auto simp: new_layer_def)
  note none = compute_None [OF first_overridden_None [OF assms(2) [unfolded response(1)]] _ st'(2)]
  have "\<exists>segments. parse_key_path (fst e) = Inr segments \<and>
       (case (value_at_path (entry_config ?user) segments, value_at_path (effective_config st') segments) of
          (None, None) \<Rightarrow> True | (Some v, Some w) \<Rightarrow> toml_eq v w | _ \<Rightarrow> False)" if "e \<in> set edits" for e
  proof -
    from loop have "list_all2 (\<lambda>e segments. parse_key_path (fst e) = Inr segments) edits parsed" by simp
    moreover from that obtain i where "i < length edits" "e = edits ! i" by (auto simp: in_set_conv_nth)
    ultimately have s: "parsed ! i \<in> set parsed" "parse_key_path (fst e) = Inr (parsed ! i)"
      by (simp_all add: list_all2_conv_all_nth)
    then have "parsed ! i \<noteq> []" by (auto simp: parse_key_path_def split_char_nonempty split: if_splits)
    from none [OF s(1) this] \<open>\<And>l. l \<in> set (layers st') \<Longrightarrow> wf_toml (entry_config l)\<close> s(2) show ?thesis
      by (auto simp: is_disabled_def new_layer_def)
  qed
  moreover have "edit_loop env edits (entry_config old) = Inr (entry_config ?user, written, parsed)"
    using run(2) response(3) by (simp add: new_layer_def)
  ultimately show ?thesis using st' response(2) run(1) by blast
qed

subsection \<open>What it reports too much, and what it loses\<close>

definition sample_file :: "string \<Rightarrow> path" where
  "sample_file name = [RootDir, NormalComponent name, NormalComponent ''config.toml'']"

definition sample_version :: "toml_value \<Rightarrow> string" where
  "sample_version v = (if v = empty_table then ''v0'' else ''v1'')"

definition sample_stack :: config_layer_stack where
  "sample_stack =
     \<lparr>layers = [new_layer sample_version (LayerSystem (sample_file ''etc''))
                  (TomlTable [(''tui'', TomlTable [(''theme'', TomlString ''dark'')])]),
                new_layer sample_version (LayerUser (sample_file ''home'')) empty_table],
      user_layer_index = Some 1\<rparr>"

definition sample_edit_env :: "toml_value option edit_env" where
  "sample_edit_env =
     \<lparr>parse_value = (\<lambda>v. if v = None \<or> wf_toml (the v) then Inr v else Inl ''duplicate key''),
      canonical = (\<lambda>p. None), version_for = sample_version, empty_user_layer = None,
      validate_config = (\<lambda>_. Inr ()), validate_user_config = (\<lambda>_. Inr ()), persist_edits = (\<lambda>_. True)\<rparr>"

definition sample_write ::
  "(string \<times> toml_value option \<times> merge_strategy) list \<Rightarrow> (service_error, write_response) result \<times> config_edit list"
where
  "sample_write edits =
     apply_edits sample_edit_env \<lparr>home_dir = None, process_dir = None\<rparr> [RootDir, NormalComponent ''home'']
       None None (Inr sample_stack) edits"

text \<open>An edit may be reported as overridden by the layer that was just edited.  Where the system has a
  setting in a table and the user writes a table with another one, both are in force, but the
  whole tables differ: the answer names the user's own layer as the one that overrides the edit.\<close>

lemma merged_tables_are_reported_as_overridden:
  "sample_write [(''tui'', Some (TomlTable [(''animations'', TomlBoolean False)]), Replace)] =
     (Inr \<lparr>write_overridden =
             Some \<lparr>override_layer = \<lparr>meta_name = LayerUser (sample_file ''home''), meta_version = ''v1''\<rparr>,
                   override_value =
                     Some (TomlTable [(''theme'', TomlString ''dark''), (''animations'', TomlBoolean False)])\<rparr>,
           write_version = ''v1'', write_file = sample_file ''home''\<rparr>,
      [SetPath [''tui''] (TomlTable [(''animations'', TomlBoolean False)])])"
  by code_simp

text \<open>An edit below an element of an array replaces the array by a table; when the value itself
  does not change, nothing is written, and the answer is that of the changed configuration.\<close>

lemma array_becomes_a_table:
  "apply_merge (TomlTable [(''a'', TomlArray [TomlTable [(''b'', TomlInteger 1)]])]) [''a'', ''0'', ''b''] (Some (TomlInteger 1)) Replace =
     Inr (TomlTable [(''a'', TomlTable [(''0'', TomlTable [(''b'', TomlInteger 1)])])], True)"
  by code_simp

text \<open>A scalar above the parent of a key is replaced by a table; as the parent itself it is refused.\<close>

lemma scalar_on_the_way:
  "apply_merge (TomlTable [(''a'', TomlInteger 1)]) [''a'', ''b'', ''c''] (Some (TomlInteger 2)) Replace =
     Inr (TomlTable [(''a'', TomlTable [(''b'', TomlTable [(''c'', TomlInteger 2)])])], True)"
  "apply_merge (TomlTable [(''a'', TomlInteger 1)]) [''a'', ''b''] (Some (TomlInteger 2)) Replace =
     Inl (MergeValidation ''cannot set value on non-table parent'')"
  by code_simp+

subsection \<open>Witnesses\<close>

lemma sample_writes:
  "sample_write [(''tui.theme'', Some (TomlString ''light''), Replace)] =
     (Inr \<lparr>write_overridden = None, write_version = ''v1'', write_file = sample_file ''home''\<rparr>,
      [SetPath [''tui'', ''theme''] (TomlString ''light'')])"
  "stack_ok sample_stack" "wf_edit_env sample_edit_env" "\<forall>l \<in> set (layers sample_stack). wf_toml (entry_config l)"
  by (code_simp, code_simp, auto simp: wf_edit_env_def sample_edit_env_def sample_stack_def new_layer_def)

theorem unreported_writes_are_in_force_witness:
  "\<exists>st' user. get_user_layer st' = Some user \<and> stack_ok st' \<and>
    (case (value_at_path (entry_config user) [''tui'', ''theme''], value_at_path (effective_config st') [''tui'', ''theme'']) of
       (None, None) \<Rightarrow> True
     | (Some v, Some w) \<Rightarrow> toml_eq v w
     | _ \<Rightarrow> False)"
proof -
  have "parse_key_path ''tui.theme'' = Inr [''tui'', ''theme'']" by code_simp
  with unreported_writes_are_in_force [OF sample_writes(1) [unfolded sample_write_def] _ sample_writes(2,3,4)]
  show ?thesis by fastforce
qed

end
