(* ===== verification/Config_Requirements.thy ===== *)
theory Config_Requirements
  imports Proxy_Spec Approval_Policy
begin

section \<open>Requirements of an administrator\<close>

text \<open>
  A model of \<^verbatim>\<open>constraint.rs\<close>, \<^verbatim>\<open>config_requirements.rs\<close> and \<^verbatim>\<open>requirements_exec_policy.rs\<close> in
  \<^verbatim>\<open>codex-rs/config/src\<close>: values with a validator, the requirements collected from several
  sources, and what they become.  Of an error the field and the source are kept, not the text.
\<close>

subsection \<open>Constrained values\<close>

datatype requirement_source =
    UnknownSource | MdmSource string string | CloudSource | SystemSource path | LegacyFileSource path | LegacyMdmSource

datatype rules_error =
    EmptyPrefixRules | EmptyPattern nat | InvalidPatternToken nat nat string | EmptyJustification nat
  | MissingDecision nat | AllowDecisionNotAllowed nat

datatype requirement_error =
    InvalidValue string requirement_source
  | EmptyField string
  | ExecPolicyParse requirement_source rules_error

record 'a constrained =
  constrained_value :: 'a
  validator :: "'a \<Rightarrow> (requirement_error, unit) result"
  normalizer :: "('a \<Rightarrow> 'a) option"

definition allow_any :: "'a \<Rightarrow> 'a constrained" where
  "allow_any v = \<lparr>constrained_value = v, validator = (\<lambda>_. Inr ()), normalizer = None\<rparr>"

definition constrained_new ::
  "'a \<Rightarrow> ('a \<Rightarrow> (requirement_error, unit) result) \<Rightarrow> (requirement_error, 'a constrained) result"
where
  "constrained_new v valid =
     (case valid v of
        Inl e \<Rightarrow> Inl e
      | Inr _ \<Rightarrow> Inr \<lparr>constrained_value = v, validator = valid, normalizer = None\<rparr>)"

definition constrained_normalized :: "'a \<Rightarrow> ('a \<Rightarrow> 'a) \<Rightarrow> 'a constrained" where
  "constrained_normalized v f =
     \<lparr>constrained_value = f v, validator = (\<lambda>_. Inr ()), normalizer = Some f\<rparr>"

definition allow_only :: "'a \<Rightarrow> 'a constrained" where
  "allow_only only =
     \<lparr>constrained_value = only,
      validator = (\<lambda>candidate. if candidate = only then Inr () else Inl (InvalidValue ''<unknown>'' UnknownSource)),
      normalizer = None\<rparr>"

definition can_set :: "'a constrained \<Rightarrow> 'a \<Rightarrow> (requirement_error, unit) result" where
  "can_set c candidate = validator c candidate"

text \<open>The result, and the value afterwards.\<close>

definition constrained_set :: "'a constrained \<Rightarrow> 'a \<Rightarrow> (requirement_error, unit) result \<times> 'a constrained" where
  "constrained_set c v =
     (let v = (case normalizer c of Some f \<Rightarrow> f v | None \<Rightarrow> v) in
      case validator c v of
        Inl e \<Rightarrow> (Inl e, c)
      | Inr _ \<Rightarrow> (Inr (), c\<lparr>constrained_value := v\<rparr>))"

record 'a constrained_with_source =
  with_value :: "'a constrained"
  with_source :: "requirement_source option"

definition unconstrained :: "'a \<Rightarrow> 'a constrained_with_source" where
  "unconstrained v = \<lparr>with_value = allow_any v, with_source = None\<rparr>"

subsection \<open>Rules of the execution policy\<close>

datatype requirements_decision = RequireAllow | RequirePrompt | RequireForbidden

fun as_decision :: "requirements_decision \<Rightarrow> decision" where
  "as_decision RequireAllow = Allow"
| "as_decision RequirePrompt = Prompt"
| "as_decision RequireForbidden = Forbidden"

record pattern_token_toml =
  toml_token :: "string option"
  toml_any_of :: "string list option"

record prefix_rule_toml =
  toml_pattern :: "pattern_token_toml list"
  toml_decision :: "requirements_decision option"
  toml_justification :: "string option"

definition read_pattern_token :: "pattern_token_toml \<Rightarrow> nat \<Rightarrow> nat \<Rightarrow> (rules_error, pattern_token) result" where
  "read_pattern_token t rule_index token_index =
     (let invalid = (\<lambda>reason. Inl (InvalidPatternToken rule_index token_index reason)) in
      case (toml_token t, toml_any_of t) of
        (Some single, None) \<Rightarrow>
          if str_trim single = [] then invalid ''token cannot be empty'' else Inr (Single single)
      | (None, Some alternatives) \<Rightarrow>
          if alternatives = [] then invalid ''any_of cannot be empty''
          else if list_ex (\<lambda>alt. str_trim alt = []) alternatives then invalid ''any_of cannot include empty tokens''
          else Inr (Alts alternatives)
      | (Some _, Some _) \<Rightarrow> invalid ''set either token or any_of, not both''
      | (None, None) \<Rightarrow> invalid ''set either token or any_of'')"

fun read_pattern :: "nat \<Rightarrow> nat \<Rightarrow> pattern_token_toml list \<Rightarrow> (rules_error, pattern_token list) result" where
  "read_pattern rule_index token_index [] = Inr []"
| "read_pattern rule_index token_index (t # ts) =
     (case read_pattern_token t rule_index token_index of
        Inl e \<Rightarrow> Inl e
      | Inr p \<Rightarrow>
          (case read_pattern rule_index (token_index + 1) ts of Inl e \<Rightarrow> Inl e | Inr ps \<Rightarrow> Inr (p # ps)))"

definition rule_from_toml ::
  "prefix_rule_toml \<Rightarrow> nat \<Rightarrow> (rules_error, (pattern_token list \<times> decision)) result"
where
  "rule_from_toml r rule_index =
     (if blank_justification (toml_justification r) then Inl (EmptyJustification rule_index)
      else if toml_pattern r = [] then Inl (EmptyPattern rule_index)
      else (case read_pattern rule_index 0 (toml_pattern r) of
              Inl e \<Rightarrow> Inl e
            | Inr tokens \<Rightarrow>
                (case toml_decision r of
                   Some RequireAllow \<Rightarrow> Inl (AllowDecisionNotAllowed rule_index)
                 | Some d \<Rightarrow> Inr (tokens, as_decision d)
                 | None \<Rightarrow> Inl (MissingDecision rule_index))))"

definition insert_rule_heads :: "pattern_token list \<Rightarrow> decision \<Rightarrow> string option \<Rightarrow> rule_map \<Rightarrow> rule_map" where
  "insert_rule_heads tokens d justification m =
     fold (\<lambda>head. mm_insert head
       \<lparr>rule_pattern = \<lparr>pat_first = head, pat_rest = tl tokens\<rparr>, rule_decision = d, rule_justification = justification\<rparr>)
       (token_alternatives (hd tokens)) m"

fun to_policy_loop :: "nat \<Rightarrow> prefix_rule_toml list \<Rightarrow> rule_map \<Rightarrow> (rules_error, rule_map) result" where
  "to_policy_loop rule_index [] m = Inr m"
| "to_policy_loop rule_index (r # rs) m =
     (case rule_from_toml r rule_index of
        Inl e \<Rightarrow> Inl e
      | Inr (tokens, d) \<Rightarrow>
          to_policy_loop (rule_index + 1) rs (insert_rule_heads tokens d (toml_justification r) m))"

definition to_policy :: "prefix_rule_toml list \<Rightarrow> (rules_error, 'p policy) result" where
  "to_policy prefix_rules =
     (if prefix_rules = [] then Inl EmptyPrefixRules
      else map_sum id (\<lambda>m. policy_empty\<lparr>rules_by_program := m\<rparr>) (to_policy_loop 0 prefix_rules []))"

subsection \<open>Requirements from several sources\<close>

datatype web_search_mode = SearchDisabled | SearchCached | SearchLive

datatype sandbox_mode_requirement = AllowReadOnly | AllowWorkspaceWrite | AllowDangerFullAccess | AllowExternalSandbox

datatype residency_requirement = ResidencyUs

datatype mcp_server_identity = McpCommand string | McpUrl string

record requirements_toml =
  allowed_approval_policies :: "ask_for_approval list option"
  allowed_sandbox_modes :: "sandbox_mode_requirement list option"
  allowed_web_search_modes :: "web_search_mode list option"
  toml_features :: "(string \<times> bool) list option"
  toml_mcp_servers :: "(string \<rightharpoonup> mcp_server_identity) option"
  toml_rules :: "prefix_rule_toml list option"
  toml_residency :: "residency_requirement option"
  toml_network_requirements :: "network_requirements option"

definition no_requirements_toml :: requirements_toml where
  "no_requirements_toml =
     \<lparr>allowed_approval_policies = None, allowed_sandbox_modes = None, allowed_web_search_modes = None,
      toml_features = None, toml_mcp_servers = None, toml_rules = None, toml_residency = None,
      toml_network_requirements = None\<rparr>"

record 'a sourced =
  sourced_value :: 'a
  source :: requirement_source

record sourced_requirements =
  src_approval_policies :: "ask_for_approval list sourced option"
  src_sandbox_modes :: "sandbox_mode_requirement list sourced option"
  src_web_search_modes :: "web_search_mode list sourced option"
  src_features :: "(string \<times> bool) list sourced option"
  src_mcp_servers :: "(string \<rightharpoonup> mcp_server_identity) sourced option"
  src_rules :: "prefix_rule_toml list sourced option"
  src_residency :: "residency_requirement sourced option"
  src_network :: "network_requirements sourced option"

definition no_sourced_requirements :: sourced_requirements where
  "no_sourced_requirements =
     \<lparr>src_approval_policies = None, src_sandbox_modes = None, src_web_search_modes = None, src_features = None,
      src_mcp_servers = None, src_rules = None, src_residency = None, src_network = None\<rparr>"

definition fill_missing :: "requirement_source \<Rightarrow> 'a sourced option \<Rightarrow> 'a option \<Rightarrow> 'a sourced option" where
  "fill_missing src base other =
     (case base of
        Some s \<Rightarrow> Some s
      | None \<Rightarrow> map_option (\<lambda>v. \<lparr>sourced_value = v, source = src\<rparr>) other)"

definition merge_unset_fields :: "requirement_source \<Rightarrow> requirements_toml \<Rightarrow> sourced_requirements \<Rightarrow> sourced_requirements" where
  "merge_unset_fields src other base =
     \<lparr>src_approval_policies = fill_missing src (src_approval_policies base) (allowed_approval_policies other),
      src_sandbox_modes = fill_missing src (src_sandbox_modes base) (allowed_sandbox_modes other),
      src_web_search_modes = fill_missing src (src_web_search_modes base) (allowed_web_search_modes other),
      src_features = fill_missing src (src_features base) (toml_features other),
      src_mcp_servers = fill_missing src (src_mcp_servers base) (toml_mcp_servers other),
      src_rules = fill_missing src (src_rules base) (toml_rules other),
      src_residency = fill_missing src (src_residency base) (toml_residency other),
      src_network = fill_missing src (src_network base) (toml_network_requirements other)\<rparr>"

definition into_toml :: "sourced_requirements \<Rightarrow> requirements_toml" where
  "into_toml s =
     \<lparr>allowed_approval_policies = map_option sourced_value (src_approval_policies s),
      allowed_sandbox_modes = map_option sourced_value (src_sandbox_modes s),
      allowed_web_search_modes = map_option sourced_value (src_web_search_modes s),
      toml_features = map_option sourced_value (src_features s),
      toml_mcp_servers = map_option sourced_value (src_mcp_servers s),
      toml_rules = map_option sourced_value (src_rules s),
      toml_residency = map_option sourced_value (src_residency s),
      toml_network_requirements = map_option sourced_value (src_network s)\<rparr>"

definition requirements_is_empty :: "requirements_toml \<Rightarrow> bool" where
  "requirements_is_empty r =
     (allowed_approval_policies r = None \<and> allowed_sandbox_modes r = None \<and> allowed_web_search_modes r = None \<and>
      (case toml_features r of Some fs \<Rightarrow> fs = [] | None \<Rightarrow> True) \<and>
      (case toml_mcp_servers r of Some _ \<Rightarrow> False | None \<Rightarrow> True) \<and>
      toml_rules r = None \<and> toml_residency r = None \<and> toml_network_requirements r = None)"

subsection \<open>What they become\<close>

record 'p config_requirements =
  requires_approval :: "ask_for_approval constrained_with_source"
  requires_sandbox :: "sandbox_policy constrained_with_source"
  requires_search :: "web_search_mode constrained_with_source"
  requires_features :: "(string \<times> bool) list sourced option"
  requires_mcp_servers :: "(string \<rightharpoonup> mcp_server_identity) sourced option"
  requires_rules :: "'p policy sourced option"
  requires_residency :: "residency_requirement option constrained_with_source"
  requires_network :: "network_requirements sourced option"

definition one_of :: "string \<Rightarrow> ('a \<Rightarrow> bool) \<Rightarrow> requirement_source \<Rightarrow> 'a \<Rightarrow> (requirement_error, unit) result" where
  "one_of field allowed src candidate = (if allowed candidate then Inr () else Inl (InvalidValue field src))"

text \<open>A value that has to pass the validator, with the source of the requirement.\<close>

definition constrained_by ::
  "'a \<Rightarrow> string \<Rightarrow> ('a \<Rightarrow> bool) \<Rightarrow> requirement_source \<Rightarrow> (requirement_error, 'a constrained_with_source) result"
where
  "constrained_by initial field allowed src =
     map_sum id (\<lambda>c. \<lparr>with_value = c, with_source = Some src\<rparr>) (constrained_new initial (one_of field allowed src))"

definition approval_requirement ::
  "ask_for_approval list sourced option \<Rightarrow> (requirement_error, ask_for_approval constrained_with_source) result"
where
  "approval_requirement policies =
     (case policies of
        None \<Rightarrow> Inr (unconstrained OnRequest)
      | Some s \<Rightarrow>
          (case sourced_value s of
             [] \<Rightarrow> Inl (EmptyField ''allowed_approval_policies'')
           | initial # rest \<Rightarrow>
               constrained_by initial ''approval_policy'' (\<lambda>p. p \<in> set (sourced_value s)) (source s)))"

fun mode_of_policy :: "sandbox_policy \<Rightarrow> sandbox_mode_requirement" where
  "mode_of_policy (ReadOnly _ _) = AllowReadOnly"
| "mode_of_policy (WorkspaceWrite _ _ _ _ _) = AllowWorkspaceWrite"
| "mode_of_policy DangerFullAccess = AllowDangerFullAccess"
| "mode_of_policy (ExternalSandboxPolicy _) = AllowExternalSandbox"

definition sandbox_requirement ::
  "sandbox_mode_requirement list sourced option \<Rightarrow> (requirement_error, sandbox_policy constrained_with_source) result"
where
  "sandbox_requirement modes =
     (case modes of
        None \<Rightarrow> Inr (unconstrained new_read_only_policy)
      | Some s \<Rightarrow>
          if AllowReadOnly \<notin> set (sourced_value s) then Inl (InvalidValue ''allowed_sandbox_modes'' (source s))
          else constrained_by new_read_only_policy ''sandbox_mode'' (\<lambda>p. mode_of_policy p \<in> set (sourced_value s)) (source s))"

definition search_requirement ::
  "web_search_mode list sourced option \<Rightarrow> (requirement_error, web_search_mode constrained_with_source) result"
where
  "search_requirement modes =
     (case modes of
        None \<Rightarrow> Inr (unconstrained SearchCached)
      | Some s \<Rightarrow>
          (let accepted = insert SearchDisabled (set (sourced_value s));
               initial = (if SearchCached \<in> accepted then SearchCached
                          else if SearchLive \<in> accepted then SearchLive else SearchDisabled)
           in constrained_by initial ''web_search_mode'' (\<lambda>m. m \<in> accepted) (source s)))"

definition residency_of ::
  "residency_requirement sourced option \<Rightarrow>
   (requirement_error, residency_requirement option constrained_with_source) result"
where
  "residency_of residency =
     (case residency of
        None \<Rightarrow> Inr (unconstrained None)
      | Some s \<Rightarrow>
          constrained_by (Some (sourced_value s)) ''enforce_residency'' (\<lambda>r. r = Some (sourced_value s)) (source s))"

definition rules_requirement :: "prefix_rule_toml list sourced option \<Rightarrow> (requirement_error, 'p policy sourced option) result" where
  "rules_requirement rules_toml =
     (case rules_toml of
        None \<Rightarrow> Inr None
      | Some s \<Rightarrow>
          map_sum (ExecPolicyParse (source s)) (\<lambda>p. Some \<lparr>sourced_value = p, source = source s\<rparr>)
            (to_policy (sourced_value s)))"

definition requirements_from_sources :: "sourced_requirements \<Rightarrow> (requirement_error, 'p config_requirements) result" where
  "requirements_from_sources s =
     (case approval_requirement (src_approval_policies s) of
        Inl e \<Rightarrow> Inl e
      | Inr approval \<Rightarrow>
     (case sandbox_requirement (src_sandbox_modes s) of
        Inl e \<Rightarrow> Inl e
      | Inr sandbox \<Rightarrow>
     (case rules_requirement (src_rules s) of
        Inl e \<Rightarrow> Inl e
      | Inr rules_policy \<Rightarrow>
     (case search_requirement (src_web_search_modes s) of
        Inl e \<Rightarrow> Inl e
      | Inr search \<Rightarrow>
     (case residency_of (src_residency s) of
        Inl e \<Rightarrow> Inl e
      | Inr residency \<Rightarrow>
          Inr \<lparr>requires_approval = approval, requires_sandbox = sandbox, requires_search = search,
               requires_features =
                 (case src_features s of
                    Some fs \<Rightarrow> if sourced_value fs = [] then None else Some fs
                  | None \<Rightarrow> None),
               requires_mcp_servers = src_mcp_servers s, requires_rules = rules_policy,
               requires_residency = residency, requires_network = src_network s\<rparr>)))))"

subsection \<open>Required rules\<close>

definition toml_token_matches :: "pattern_token_toml \<Rightarrow> string \<Rightarrow> bool" where
  "toml_token_matches t s = (toml_token t = Some s \<or> (\<exists>alternatives. toml_any_of t = Some alternatives \<and> s \<in> set alternatives))"

definition toml_rule_matches :: "prefix_rule_toml \<Rightarrow> string list \<Rightarrow> bool" where
  "toml_rule_matches r cmd =
     (length (toml_pattern r) \<le> length cmd \<and>
      list_all2 toml_token_matches (toml_pattern r) (take (length (toml_pattern r)) cmd))"

lemma read_pattern_token_matches:
  "read_pattern_token t i j = Inr p \<Longrightarrow> token_matches p s \<longleftrightarrow> toml_token_matches t s"
  by (auto simp: read_pattern_token_def toml_token_matches_def Let_def list_ex_iff split: option.splits if_splits)

lemma read_pattern_list:
  "read_pattern i j ts = Inr ps \<Longrightarrow> list_all2 (\<lambda>t p. \<forall>s. token_matches p s \<longleftrightarrow> toml_token_matches t s) ts ps"
proof (induction i j ts arbitrary: ps rule: read_pattern.induct)
  case (2 i j t ts)
  then obtain p ps' where p: "read_pattern_token t i j = Inr p" "read_pattern i (j + 1) ts = Inr ps'" "ps = p # ps'"
    by (auto split: sum.splits)
  with 2(1) [OF p(1,2)] read_pattern_token_matches [OF p(1)] show ?case by simp
qed simp

lemma rule_from_toml_Inr:
  assumes "rule_from_toml r i = Inr (tokens, d)"
  shows "list_all2 (\<lambda>t p. \<forall>s. token_matches p s \<longleftrightarrow> toml_token_matches t s) (toml_pattern r) tokens"
    and "tokens \<noteq> []" and "map_option as_decision (toml_decision r) = Some d" and "d \<noteq> Allow"
proof -
  from assms obtain e where e: "read_pattern i 0 (toml_pattern r) = Inr tokens" "toml_pattern r \<noteq> []"
      "toml_decision r = Some e" "e \<noteq> RequireAllow" "d = as_decision e"
    by (auto simp: rule_from_toml_def split: if_splits sum.splits option.splits requirements_decision.splits)
  show "list_all2 (\<lambda>t p. \<forall>s. token_matches p s \<longleftrightarrow> toml_token_matches t s) (toml_pattern r) tokens"
    by (rule read_pattern_list [OF e(1)])
  with e show "tokens \<noteq> []" "map_option as_decision (toml_decision r) = Some d" "d \<noteq> Allow"
    by (auto elim: as_decision.elims)
qed

definition rule_of_head :: "pattern_token list \<Rightarrow> decision \<Rightarrow> string option \<Rightarrow> string \<Rightarrow> prefix_rule" where
  "rule_of_head tokens d j head =
     \<lparr>rule_pattern = \<lparr>pat_first = head, pat_rest = tl tokens\<rparr>, rule_decision = d, rule_justification = j\<rparr>"

lemma insert_rule_heads_spec:
  "set (mm_get k (insert_rule_heads tokens d j m)) =
     set (mm_get k m) \<union> (if k \<in> set (token_alternatives (hd tokens)) then {rule_of_head tokens d j k} else {})"
  "wf_rules m \<Longrightarrow> wf_rules (insert_rule_heads tokens d j m)"
proof -
  have "set (mm_get k (fold (\<lambda>head. mm_insert head (rule_of_head tokens d j head)) heads m)) =
      set (mm_get k m) \<union> (if k \<in> set heads then {rule_of_head tokens d j k} else {})" for heads
    by (induction heads arbitrary: m) (auto simp: mm_get_insert)
  then show "set (mm_get k (insert_rule_heads tokens d j m)) =
     set (mm_get k m) \<union> (if k \<in> set (token_alternatives (hd tokens)) then {rule_of_head tokens d j k} else {})"
    by (simp add: insert_rule_heads_def rule_of_head_def)
  have "wf_rules m \<Longrightarrow> wf_rules (fold (\<lambda>head. mm_insert head (rule_of_head tokens d j head)) heads m)" for heads
    by (induction heads arbitrary: m) (auto simp: wf_mm_insert)
  then show "wf_rules m \<Longrightarrow> wf_rules (insert_rule_heads tokens d j m)"
    by (simp add: insert_rule_heads_def rule_of_head_def)
qed

lemma to_policy_loop_spec:
  "to_policy_loop i rs m = Inr m' \<Longrightarrow> wf_rules m \<Longrightarrow>
   wf_rules m' \<and> (\<forall>k. set (mm_get k m) \<subseteq> set (mm_get k m')) \<and>
   (\<forall>r \<in> set rs. \<exists>i tokens d. rule_from_toml r i = Inr (tokens, d) \<and>
      (\<forall>k \<in> set (token_alternatives (hd tokens)). rule_of_head tokens d (toml_justification r) k \<in> set (mm_get k m'))) \<and>
   (\<forall>k. \<forall>x \<in> set (mm_get k m'). x \<in> set (mm_get k m) \<or> rule_decision x \<noteq> Allow)"
proof (induction i rs m rule: to_policy_loop.induct)
  case (2 i r rs m)
  from 2(2) obtain tokens d where step: "rule_from_toml r i = Inr (tokens, d)"
    "to_policy_loop (i + 1) rs (insert_rule_heads tokens d (toml_justification r) m) = Inr m'"
    by (auto split: sum.splits)
  note IH = 2(1) [OF step(1) refl step(2) insert_rule_heads_spec(2) [OF 2(3)]]
  have new: "rule_of_head tokens d (toml_justification r) k \<in> set (mm_get k m')"
    if "k \<in> set (token_alternatives (hd tokens))" for k
    using IH that insert_rule_heads_spec(1) [of k tokens d "toml_justification r" m] by auto
  have old: "set (mm_get k m) \<subseteq> set (mm_get k m')" for k
    using IH insert_rule_heads_spec(1) [of k tokens d "toml_justification r" m] by auto
  have "x \<in> set (mm_get k m) \<or> rule_decision x \<noteq> Allow" if "x \<in> set (mm_get k m')" for k x
  proof -
    from IH that have "x \<in> set (mm_get k (insert_rule_heads tokens d (toml_justification r) m)) \<or> rule_decision x \<noteq> Allow"
      by blast
    then show ?thesis
      using insert_rule_heads_spec(1) [of k tokens d "toml_justification r" m] rule_from_toml_Inr(4) [OF step(1)]
      by (auto simp: rule_of_head_def split: if_splits)
  qed
  with IH new old step(1) show ?case by auto
qed simp

lemma to_policy_spec:
  assumes "to_policy rs = Inr (p :: 'p policy)"
  shows "wf_rules (rules_by_program p)"
    and "r \<in> set rs \<Longrightarrow> \<exists>i tokens d. rule_from_toml r i = Inr (tokens, d) \<and>
      (\<forall>k \<in> set (token_alternatives (hd tokens)). rule_of_head tokens d (toml_justification r) k \<in> set (mm_get k (rules_by_program p)))"
    and "x \<in> set (mm_get k (rules_by_program p)) \<Longrightarrow> rule_decision x \<noteq> Allow"
proof -
  from assms obtain m where m: "to_policy_loop 0 rs [] = Inr m" "p = policy_empty\<lparr>rules_by_program := m\<rparr>"
    by (cases "to_policy_loop 0 rs []") (auto simp: to_policy_def split: if_splits)
  have "wf_rules []" by (simp add: wf_rules_def)
  note spec = to_policy_loop_spec [OF m(1) this]
  show "wf_rules (rules_by_program p)" using spec m(2) by simp
  show "\<exists>i tokens d. rule_from_toml r i = Inr (tokens, d) \<and>
      (\<forall>k \<in> set (token_alternatives (hd tokens)). rule_of_head tokens d (toml_justification r) k \<in> set (mm_get k (rules_by_program p)))"
    if "r \<in> set rs" using spec m(2) that by simp
  show "rule_decision x \<noteq> Allow" if "x \<in> set (mm_get k (rules_by_program p))"
  proof -
    have "mm_get k [] = []" by (simp add: mm_get_def)
    moreover from spec m(2) that have "x \<in> set (mm_get k []) \<or> rule_decision x \<noteq> Allow" by simp
    ultimately show ?thesis by simp
  qed
qed

text \<open>Rules that an administrator requires always count: a command that starts with words that such a
  rule lists is decided at least as strictly as the rule says, whatever rules the user or the
  project have for it, and so is never allowed without a prompt.\<close>

lemma required_rules_always_count:
  assumes "to_policy rs = Inr required" and "r \<in> set rs" and "toml_rule_matches r cmd"
  shows "\<exists>e d. check env (merge_overlay p required) cmd fb = Some e \<and> toml_decision r = Some d \<and>
    as_decision d \<le> eval_decision e \<and> eval_decision e \<noteq> Allow"
proof -
  from to_policy_spec(2) [OF assms(1,2)] obtain i tokens d where rule: "rule_from_toml r i = Inr (tokens, d)"
    and heads: "\<And>k. k \<in> set (token_alternatives (hd tokens)) \<Longrightarrow>
      rule_of_head tokens d (toml_justification r) k \<in> set (mm_get k (rules_by_program required))" by blast
  note parsed = rule_from_toml_Inr [OF rule]
  let ?n = "length (toml_pattern r)"
  have "list_all2 token_matches tokens (take ?n cmd)"
    using parsed(1) assms(3) unfolding toml_rule_matches_def list_all2_conv_all_nth by simp
  with parsed(2) obtain t ts first args where
    match: "tokens = t # ts" "take ?n cmd = first # args" "token_matches t first" "list_all2 token_matches ts args"
    by (cases tokens; cases "take ?n cmd") auto
  then have cmd: "cmd = first # args @ drop ?n cmd" by (metis append_Cons append_take_drop_id)
  then have hd: "hd cmd = first" and "cmd \<noteq> []" by (metis list.sel(1), metis list.distinct(1))
  let ?rule = "rule_of_head tokens d (toml_justification r) first"
  have "first \<in> set (token_alternatives t)" using match(3) by (cases t) (auto simp: list_ex_iff)
  with heads match(1) have "?rule \<in> set (mm_get (hd cmd) (rules_by_program required))" unfolding hd by simp
  moreover have "matches_prefix (rule_pattern ?rule) cmd = Some (first # args)"
    unfolding matches_prefix_Some rule_of_head_def using cmd match(1,4) by auto
  ultimately have rule_in: "?rule \<in> set (matching_rules required cmd)"
    by (simp add: matching_rules_def rule_program_def rule_matches_def rule_of_head_def hd)
  then have merged: "?rule \<in> set (matching_rules (merge_overlay p required) cmd)"
    by (simp add: matching_rules_merge [OF to_policy_spec(1) [OF assms(1)]])
  then have "matching_rules (merge_overlay p required) cmd \<noteq> []" by auto
  from check_decision [OF \<open>cmd \<noteq> []\<close> this, of env fb] obtain e where
    e: "check env (merge_overlay p required) cmd fb = Some e"
       "eval_decision e = Max (rule_decision ` set (matching_rules (merge_overlay p required) cmd))" by auto
  have "rule_decision ?rule \<le> eval_decision e" unfolding e(2) by (intro Max_ge imageI merged) simp
  then have "d \<le> eval_decision e" by (simp add: rule_of_head_def)
  moreover from this have "eval_decision e \<noteq> Allow"
    using \<open>d \<le> eval_decision e\<close> parsed(4) by (cases d) (auto simp: less_eq_decision_def)
  ultimately show ?thesis using e(1) parsed(3) by auto
qed

subsection \<open>Values within their requirements\<close>

definition within :: "'a constrained_with_source \<Rightarrow> bool" where
  "within c = (validator (with_value c) (constrained_value (with_value c)) = Inr ())"

lemma set_stays_within:
  assumes "validator c (constrained_value c) = Inr ()" and "constrained_set c v = (r, c')"
  shows "validator c' = validator c \<and> normalizer c' = normalizer c \<and> validator c' (constrained_value c') = Inr ()"
  using assms by (auto simp: constrained_set_def Let_def split: sum.splits)

lemma set_without_normalizer:
  "normalizer c = None \<Longrightarrow> constrained_set c v =
     (case can_set c v of Inl e \<Rightarrow> (Inl e, c) | Inr _ \<Rightarrow> (Inr (), c\<lparr>constrained_value := v\<rparr>))"
  by (simp add: constrained_set_def can_set_def)

text \<open>What a requirement admits, and that its own value is admitted.\<close>

definition admits :: "'a constrained_with_source \<Rightarrow> 'a \<Rightarrow> bool" where
  "admits c v = (can_set (with_value c) v = Inr ())"

definition plain_requirement :: "'a constrained_with_source \<Rightarrow> bool" where
  "plain_requirement c = (normalizer (with_value c) = None \<and> admits c (constrained_value (with_value c)))"

lemma unconstrained_admits [simp]: "admits (unconstrained v) w" "plain_requirement (unconstrained v)"
  by (simp_all add: admits_def plain_requirement_def can_set_def unconstrained_def allow_any_def)

lemma unconstrained_eq: "unconstrained v = c \<Longrightarrow> (\<forall>w. admits c w) \<and> plain_requirement c"
  by (metis unconstrained_admits)

lemma constrained_by_Inr:
  assumes "constrained_by initial field allowed src = Inr c"
  shows "plain_requirement c" and "admits c v \<longleftrightarrow> allowed v" and "with_source c = Some src"
  using assms
  by (auto simp: constrained_by_def constrained_new_def one_of_def plain_requirement_def admits_def can_set_def
      split: if_splits)

lemma constrained_by_fails: "constrained_by initial field allowed src = Inl e \<longleftrightarrow> \<not> allowed initial \<and> e = InvalidValue field src"
  by (auto simp: constrained_by_def constrained_new_def one_of_def)

lemma requirements_admit:
  assumes "requirements_from_sources s = Inr (req :: 'p config_requirements)"
  shows "admits (requires_approval req) a \<longleftrightarrow> (case src_approval_policies s of Some ps \<Rightarrow> a \<in> set (sourced_value ps) | None \<Rightarrow> True)"
    and "admits (requires_sandbox req) p \<longleftrightarrow> (case src_sandbox_modes s of Some ms \<Rightarrow> mode_of_policy p \<in> set (sourced_value ms) | None \<Rightarrow> True)"
    and "admits (requires_search req) m \<longleftrightarrow>
      (case src_web_search_modes s of Some ms \<Rightarrow> m = SearchDisabled \<or> m \<in> set (sourced_value ms) | None \<Rightarrow> True)"
    and "admits (requires_residency req) r \<longleftrightarrow> (case src_residency s of Some v \<Rightarrow> r = Some (sourced_value v) | None \<Rightarrow> True)"
    and "plain_requirement (requires_approval req)" and "plain_requirement (requires_sandbox req)"
    and "plain_requirement (requires_search req)" and "plain_requirement (requires_residency req)"
    and "rules_requirement (src_rules s) = Inr (requires_rules req)" and "requires_network req = src_network s"
    and "requires_mcp_servers req = src_mcp_servers s"
proof -
  from assms have parts: "approval_requirement (src_approval_policies s) = Inr (requires_approval req)"
    "sandbox_requirement (src_sandbox_modes s) = Inr (requires_sandbox req)"
    "search_requirement (src_web_search_modes s) = Inr (requires_search req)"
    "residency_of (src_residency s) = Inr (requires_residency req)"
    by (auto simp: requirements_from_sources_def split: sum.splits)
  show "rules_requirement (src_rules s) = Inr (requires_rules req)" "requires_network req = src_network s"
    "requires_mcp_servers req = src_mcp_servers s"
    using assms by (auto simp: requirements_from_sources_def split: sum.splits)
  show "admits (requires_approval req) a \<longleftrightarrow> (case src_approval_policies s of Some ps \<Rightarrow> a \<in> set (sourced_value ps) | None \<Rightarrow> True)"
    "plain_requirement (requires_approval req)"
    using parts(1) by (auto simp: approval_requirement_def constrained_by_Inr dest: unconstrained_eq split: option.splits list.splits)
  show "admits (requires_sandbox req) p \<longleftrightarrow> (case src_sandbox_modes s of Some ms \<Rightarrow> mode_of_policy p \<in> set (sourced_value ms) | None \<Rightarrow> True)"
    "plain_requirement (requires_sandbox req)"
    using parts(2) by (auto simp: sandbox_requirement_def constrained_by_Inr dest: unconstrained_eq split: option.splits if_splits)
  show "admits (requires_search req) m \<longleftrightarrow>
      (case src_web_search_modes s of Some ms \<Rightarrow> m = SearchDisabled \<or> m \<in> set (sourced_value ms) | None \<Rightarrow> True)"
    "plain_requirement (requires_search req)"
    using parts(3) by (auto simp: search_requirement_def constrained_by_Inr Let_def dest: unconstrained_eq split: option.splits)
  show "admits (requires_residency req) r \<longleftrightarrow> (case src_residency s of Some v \<Rightarrow> r = Some (sourced_value v) | None \<Rightarrow> True)"
    "plain_requirement (requires_residency req)"
    using parts(4) by (auto simp: residency_of_def constrained_by_Inr dest: unconstrained_eq split: option.splits)
qed

text \<open>Requirements are refused only for an empty list of approval policies, for sandbox modes without
  the read-only one, and for rules that cannot be read.\<close>

lemma map_sum_Inl: "map_sum f g x = Inl e \<longleftrightarrow> (\<exists>y. x = Inl y \<and> e = f y)"
  by (cases x) auto

lemma requirements_refused:
  "requirements_from_sources s = (Inl e :: (requirement_error, 'p config_requirements) result) \<Longrightarrow>
   (\<exists>ps. src_approval_policies s = Some ps \<and> sourced_value ps = []) \<or>
   (\<exists>ms. src_sandbox_modes s = Some ms \<and> AllowReadOnly \<notin> set (sourced_value ms)) \<or>
   (\<exists>rs err. src_rules s = Some rs \<and> to_policy (sourced_value rs) = (Inl err :: (rules_error, 'p policy) result))"
  by (auto simp: requirements_from_sources_def approval_requirement_def sandbox_requirement_def search_requirement_def
      residency_of_def rules_requirement_def constrained_by_fails map_sum_Inl new_read_only_policy_def Let_def
      split: sum.splits option.splits list.splits if_splits)

text \<open>The first source that sets a requirement decides about it.\<close>

lemma fill_missing_first [simp]: "fill_missing src (Some s) other = Some s" "fill_missing src None None = None"
  "fill_missing src None (Some v) = Some \<lparr>sourced_value = v, source = src\<rparr>"
  by (simp_all add: fill_missing_def)

subsection \<open>Witnesses\<close>

definition sample_required_rule :: prefix_rule_toml where
  "sample_required_rule =
     \<lparr>toml_pattern = [\<lparr>toml_token = None, toml_any_of = Some [''rm'', ''mv'']\<rparr>],
      toml_decision = Some RequirePrompt, toml_justification = None\<rparr>"

definition permissive_policy :: "string policy" where
  "permissive_policy = policy_empty\<lparr>rules_by_program := [(''rm'', [rule_of_head [Single ''rm''] Allow None ''rm''])]\<rparr>"

end
