(* ===== verification/Config_Loader.thy ===== *)
theory Config_Loader
  imports Config_Requirements
begin

section \<open>Loading the configuration\<close>

text \<open>
  A model of \<^verbatim>\<open>codex-rs/core/src/config_loader\<close> and of the repository root of
  \<^verbatim>\<open>codex-rs/core/src/git_info.rs\<close>: the layers and requirements that are loaded for a directory, and
  which projects are trusted.  Files are read by a function; parsing TOML and reading a value as one
  of the configuration types, work of libraries and generated code, are parameters.  Of an error
  the reason is kept, not the text.
\<close>

subsection \<open>The outside\<close>

datatype file_text = FileMissing | FileUnreadable | FileText string

datatype trust_level = Trusted | Untrusted

datatype sandbox_mode = ModeReadOnly | ModeWorkspaceWrite | ModeDangerFullAccess

record legacy_managed_config =
  legacy_approval_policy :: "ask_for_approval option"
  legacy_sandbox_mode :: "sandbox_mode option"

text \<open>\<open>as_config_toml\<close> is the round trip through the type of the configuration with paths resolved
  against a base: \<open>None\<close> where the value does not have that type, an error where it cannot be written
  back.\<close>

record load_env =
  files :: fs_env
  read_file :: "path \<Rightarrow> file_text"
  canonicalized :: "path \<Rightarrow> path option"
  parse_toml :: "string \<Rightarrow> toml_value option"
  as_config_toml :: "toml_value \<Rightarrow> path \<Rightarrow> (unit, toml_value) result option"
  as_trust_tables :: "toml_value \<Rightarrow> path \<Rightarrow> (string \<rightharpoonup> trust_level option) option option"
  as_legacy_config :: "toml_value \<Rightarrow> legacy_managed_config option"
  parse_requirements :: "string \<Rightarrow> requirements_toml option"
  version_of :: "toml_value \<Rightarrow> string"

datatype load_error =
    BadPath path_error | UnreadableFile path | InvalidFile path | NoParentDirectory path | CannotResolvePaths
  | BadProjectRootMarkers | BadTrustTables | BadLegacyConfig | CloudFailed | RequirementsFailed requirement_error
  | OrderingFailed ordering_error

subsection \<open>Relative paths\<close>

fun copy_shape_from_original :: "toml_value \<Rightarrow> toml_value \<Rightarrow> toml_value"
  and copy_entries :: "(string \<times> toml_value) list \<Rightarrow> (string \<times> toml_value) list \<Rightarrow> (string \<times> toml_value) list"
  and copy_items :: "toml_value list \<Rightarrow> toml_value list \<Rightarrow> toml_value list" where
  "copy_shape_from_original original resolved =
     (case original of
        TomlTable original_table \<Rightarrow>
          (case resolved of
             TomlTable resolved_table \<Rightarrow> TomlTable (copy_entries original_table resolved_table)
           | _ \<Rightarrow> resolved)
      | TomlArray original_array \<Rightarrow>
          (case resolved of
             TomlArray resolved_array \<Rightarrow> TomlArray (copy_items original_array resolved_array)
           | _ \<Rightarrow> resolved)
      | _ \<Rightarrow> resolved)"
| "copy_entries [] resolved_table = []"
| "copy_entries ((key, original_value) # rest) resolved_table =
     (key, copy_shape_from_original original_value
             (case map_of resolved_table key of Some v \<Rightarrow> v | None \<Rightarrow> original_value))
     # copy_entries rest resolved_table"
| "copy_items [] resolved_array = []"
| "copy_items (original_value # rest) resolved_array =
     (case resolved_array of
        [] \<Rightarrow> copy_shape_from_original original_value original_value # copy_items rest []
      | v # vs \<Rightarrow> copy_shape_from_original original_value v # copy_items rest vs)"

declare copy_shape_from_original.simps [simp del]

definition resolve_relative_paths_in_config_toml :: "load_env \<Rightarrow> toml_value \<Rightarrow> path \<Rightarrow> (load_error, toml_value) result" where
  "resolve_relative_paths_in_config_toml env v base_dir =
     (case as_config_toml env v base_dir of
        None \<Rightarrow> Inr v
      | Some (Inl _) \<Rightarrow> Inl CannotResolvePaths
      | Some (Inr resolved) \<Rightarrow> Inr (copy_shape_from_original v resolved))"

subsection \<open>Requirements\<close>

definition load_requirements_toml ::
  "load_env \<Rightarrow> path \<Rightarrow> sourced_requirements \<Rightarrow> (load_error, sourced_requirements) result"
where
  "load_requirements_toml env file reqs =
     (case from_absolute_path (path_env (files env)) file of
        Inl e \<Rightarrow> Inl (BadPath e)
      | Inr file \<Rightarrow>
          (case read_file env file of
             FileText contents \<Rightarrow>
               (case parse_requirements env contents of
                  None \<Rightarrow> Inl (InvalidFile file)
                | Some r \<Rightarrow> Inr (merge_unset_fields (SystemSource file) r reqs))
           | FileMissing \<Rightarrow> Inr reqs
           | FileUnreadable \<Rightarrow> Inl (UnreadableFile file)))"

definition system_requirements_toml_file :: path where
  "system_requirements_toml_file = path_components ''/etc/codex/requirements.toml''"

definition system_config_toml_file :: path where
  "system_config_toml_file = path_components ''/etc/codex/config.toml''"

definition managed_config_default_path :: path where
  "managed_config_default_path = path_components ''/etc/codex/managed_config.toml''"

fun requirement_of_mode :: "sandbox_mode \<Rightarrow> sandbox_mode_requirement" where
  "requirement_of_mode ModeReadOnly = AllowReadOnly"
| "requirement_of_mode ModeWorkspaceWrite = AllowWorkspaceWrite"
| "requirement_of_mode ModeDangerFullAccess = AllowDangerFullAccess"

definition requirements_of_legacy :: "legacy_managed_config \<Rightarrow> requirements_toml" where
  "requirements_of_legacy legacy =
     no_requirements_toml
       \<lparr>allowed_approval_policies := map_option (\<lambda>p. [p]) (legacy_approval_policy legacy),
        allowed_sandbox_modes :=
          map_option (\<lambda>m. let required = requirement_of_mode m in
                          AllowReadOnly # (if required \<noteq> AllowReadOnly then [required] else []))
            (legacy_sandbox_mode legacy)\<rparr>"

record loaded_managed_config =
  managed_file :: "(path \<times> toml_value) option"
  managed_mdm :: "(toml_value \<times> string) option"

text \<open>Managed preferences exist on macOS only: the caller gives what was found there.\<close>

definition read_config_from_path :: "load_env \<Rightarrow> path \<Rightarrow> (load_error, toml_value option) result" where
  "read_config_from_path env file =
     (case read_file env file of
        FileText contents \<Rightarrow>
          (case parse_toml env contents of Some v \<Rightarrow> Inr (Some v) | None \<Rightarrow> Inl (InvalidFile file))
      | FileMissing \<Rightarrow> Inr None
      | FileUnreadable \<Rightarrow> Inl (UnreadableFile file))"

definition load_config_layers_internal ::
  "load_env \<Rightarrow> path option \<Rightarrow> (toml_value \<times> string) option \<Rightarrow> (load_error, loaded_managed_config) result"
where
  "load_config_layers_internal env managed_config_path mdm =
     (case from_absolute_path (path_env (files env))
             (case managed_config_path of Some p \<Rightarrow> p | None \<Rightarrow> managed_config_default_path) of
        Inl e \<Rightarrow> Inl (BadPath e)
      | Inr file \<Rightarrow>
          (case read_config_from_path env file of
             Inl e \<Rightarrow> Inl e
           | Inr found \<Rightarrow> Inr \<lparr>managed_file = map_option (Pair file) found, managed_mdm = mdm\<rparr>))"

fun legacy_loop ::
  "load_env \<Rightarrow> (requirement_source \<times> toml_value) list \<Rightarrow> sourced_requirements \<Rightarrow> (load_error, sourced_requirements) result"
where
  "legacy_loop env [] reqs = Inr reqs"
| "legacy_loop env ((src, config) # rest) reqs =
     (case as_legacy_config env config of
        None \<Rightarrow> Inl BadLegacyConfig
      | Some legacy \<Rightarrow> legacy_loop env rest (merge_unset_fields src (requirements_of_legacy legacy) reqs))"

definition load_requirements_from_legacy_scheme ::
  "load_env \<Rightarrow> loaded_managed_config \<Rightarrow> sourced_requirements \<Rightarrow> (load_error, sourced_requirements) result"
where
  "load_requirements_from_legacy_scheme env loaded reqs =
     legacy_loop env
       ((case managed_mdm loaded of Some (v, _) \<Rightarrow> [(LegacyMdmSource, v)] | None \<Rightarrow> []) @
        (case managed_file loaded of Some (file, v) \<Rightarrow> [(LegacyFileSource file, v)] | None \<Rightarrow> []))
       reqs"

subsection \<open>Trust\<close>

definition as_str :: "toml_value \<Rightarrow> string option" where
  "as_str v = (case v of TomlString s \<Rightarrow> Some s | _ \<Rightarrow> None)"

definition project_root_markers_from_config :: "toml_value \<Rightarrow> (load_error, string list option) result" where
  "project_root_markers_from_config config =
     (case config of
        TomlTable table \<Rightarrow>
          (case map_of table ''project_root_markers'' of
             None \<Rightarrow> Inr None
           | Some (TomlArray entries) \<Rightarrow>
               if list_all (\<lambda>entry. as_str entry \<noteq> None) entries then Inr (Some (List.map_filter as_str entries))
               else Inl BadProjectRootMarkers
           | Some _ \<Rightarrow> Inl BadProjectRootMarkers)
      | _ \<Rightarrow> Inr None)"

definition default_project_root_markers :: "string list" where
  "default_project_root_markers = [''.git'']"

definition find_project_root :: "load_env \<Rightarrow> path \<Rightarrow> string list \<Rightarrow> (load_error, path) result" where
  "find_project_root env cwd markers =
     (if markers = [] then Inr cwd
      else (case List.find
                   (\<lambda>ancestor. list_ex (\<lambda>marker. path_exists (files env) (path_join ancestor (path_components marker))) markers)
                   (ancestors cwd) of
              Some ancestor \<Rightarrow> map_sum BadPath id (from_absolute_path (path_env (files env)) ancestor)
            | None \<Rightarrow> Inr cwd))"

definition canonicalize_or_raw :: "load_env \<Rightarrow> path \<Rightarrow> path" where
  "canonicalize_or_raw env p = (case canonicalized env p of Some q \<Rightarrow> q | None \<Rightarrow> p)"

definition git_entry :: path where
  "git_entry = [NormalComponent ''.git'']"

text \<open>\<open>pop\<close> until there is a parent no more.\<close>

definition find_ancestor_git_entry :: "load_env \<Rightarrow> path \<Rightarrow> (path \<times> path) option" where
  "find_ancestor_git_entry env base =
     map_option (\<lambda>dir. (dir, path_join dir git_entry))
       (List.find (\<lambda>dir. path_exists (files env) (path_join dir git_entry)) (ancestors base))"

definition last_name :: "path \<Rightarrow> string option" where
  "last_name p = (case rev p of NormalComponent n # _ \<Rightarrow> Some n | _ \<Rightarrow> None)"

definition main_root_of_git_dir :: "load_env \<Rightarrow> path \<Rightarrow> path option" where
  "main_root_of_git_dir env git_dir_path =
     Option.bind (path_parent git_dir_path) (\<lambda>worktrees_dir.
       if last_name worktrees_dir \<noteq> Some ''worktrees'' then None
       else Option.bind (path_parent worktrees_dir) (\<lambda>common_dir.
         map_option (canonicalize_or_raw env) (path_parent common_dir)))"

definition resolve_root_git_project_for_trust :: "load_env \<Rightarrow> path \<Rightarrow> path option" where
  "resolve_root_git_project_for_trust env cwd =
     Option.bind (if is_dir (files env) cwd then Some cwd else path_parent cwd) (\<lambda>base.
     Option.bind (find_ancestor_git_entry env base) (\<lambda>(repo_root, dot_git).
       if is_dir (files env) dot_git then Some (canonicalize_or_raw env repo_root)
       else (case read_file env dot_git of
               FileText git_dir_s \<Rightarrow>
                 (case strip_prefix ''gitdir:'' (str_trim git_dir_s) of
                    None \<Rightarrow> None
                  | Some r \<Rightarrow>
                      (let git_dir_rel = str_trim r in
                       if git_dir_rel = [] then None
                       else main_root_of_git_dir env
                              (canonicalize_or_raw env (path_join repo_root (path_components git_dir_rel)))))
             | _ \<Rightarrow> None)))"

text \<open>A path as text, for the keys of the table of projects.\<close>

fun component_text :: "path_component \<Rightarrow> string" where
  "component_text RootDir = []"
| "component_text CurDir = ''.''"
| "component_text ParentDir = ''..''"
| "component_text (NormalComponent n) = n"

definition path_text :: "path \<Rightarrow> string" where
  "path_text p = (if p = [RootDir] then ''/'' else join_str ''/'' (map component_text p))"

record project_trust_context =
  project_root :: path
  project_root_key :: string
  repo_root_key :: "string option"
  projects_trust :: "string \<rightharpoonup> trust_level"
  user_config_file :: path

record project_trust_decision =
  decided_level :: "trust_level option"
  trust_key :: string

definition is_trusted :: "project_trust_decision \<Rightarrow> bool" where
  "is_trusted d = (decided_level d = Some Trusted)"

definition decision_for_dir :: "project_trust_context \<Rightarrow> path \<Rightarrow> project_trust_decision" where
  "decision_for_dir ctx dir =
     (let dir_key = path_text dir; root_key = project_root_key ctx in
      case projects_trust ctx dir_key of
        Some level \<Rightarrow> \<lparr>decided_level = Some level, trust_key = dir_key\<rparr>
      | None \<Rightarrow>
          (case projects_trust ctx root_key of
             Some level \<Rightarrow> \<lparr>decided_level = Some level, trust_key = root_key\<rparr>
           | None \<Rightarrow>
               (case Option.bind (repo_root_key ctx) (\<lambda>key. map_option (Pair key) (projects_trust ctx key)) of
                  Some (key, level) \<Rightarrow> \<lparr>decided_level = Some level, trust_key = key\<rparr>
                | None \<Rightarrow>
                    \<lparr>decided_level = None,
                     trust_key = (case repo_root_key ctx of Some key \<Rightarrow> key | None \<Rightarrow> root_key)\<rparr>)))"

definition disabled_reason_for_dir :: "project_trust_context \<Rightarrow> path \<Rightarrow> string option" where
  "disabled_reason_for_dir ctx dir =
     (let d = decision_for_dir ctx dir; file = path_text (user_config_file ctx) in
      if is_trusted d then None
      else if decided_level d = Some Untrusted then
        Some (trust_key d @ '' is marked as untrusted in '' @ file @ ''. To load config.toml, mark it trusted.'')
      else Some (''To load config.toml, add '' @ trust_key d @ '' as a trusted project in '' @ file @ ''.''))"

definition trust_context ::
  "load_env \<Rightarrow> toml_value \<Rightarrow> path \<Rightarrow> string list \<Rightarrow> path \<Rightarrow> path \<Rightarrow> (load_error, project_trust_context) result"
where
  "trust_context env merged_config cwd markers config_base_dir user_file =
     (case as_trust_tables env merged_config config_base_dir of
        None \<Rightarrow> Inl BadTrustTables
      | Some projects \<Rightarrow>
          (case find_project_root env cwd markers of
             Inl e \<Rightarrow> Inl e
           | Inr proj \<Rightarrow>
               Inr \<lparr>project_root = proj, project_root_key = path_text proj,
                    repo_root_key = map_option path_text (resolve_root_git_project_for_trust env cwd),
                    projects_trust = (case projects of Some ps \<Rightarrow> (\<lambda>k. Option.bind (ps k) id) | None \<Rightarrow> Map.empty),
                    user_config_file = user_file\<rparr>))"

subsection \<open>Layers\<close>

definition project_layer_entry ::
  "load_env \<Rightarrow> project_trust_context \<Rightarrow> path \<Rightarrow> path \<Rightarrow> toml_value \<Rightarrow> bool \<Rightarrow> config_layer_entry"
where
  "project_layer_entry env ctx dot_codex_folder layer_dir config config_toml_exists =
     (case (if config_toml_exists then disabled_reason_for_dir ctx layer_dir else None) of
        Some reason \<Rightarrow> new_disabled_layer (version_of env) (LayerProject dot_codex_folder) config reason
      | None \<Rightarrow> new_layer (version_of env) (LayerProject dot_codex_folder) config)"

definition dot_codex :: path where
  "dot_codex = [NormalComponent ''.codex'']"

text \<open>The layer of one directory, if it has one.\<close>

definition project_layer_of_dir ::
  "load_env \<Rightarrow> project_trust_context \<Rightarrow> path \<Rightarrow> path \<Rightarrow> (load_error, config_layer_entry option) result"
where
  "project_layer_of_dir env ctx codex_home dir =
     (let penv = path_env (files env); dot_codex_dir = path_join dir dot_codex in
      if \<not> is_dir (files env) dot_codex_dir then Inr None
      else (case (from_absolute_path penv dir, from_absolute_path penv dot_codex_dir) of
              (Inl e, _) \<Rightarrow> Inl (BadPath e)
            | (_, Inl e) \<Rightarrow> Inl (BadPath e)
            | (Inr layer_dir, Inr dot_codex_abs) \<Rightarrow>
                if dot_codex_abs = codex_home \<or> canonicalize_or_raw env dot_codex_abs = canonicalize_or_raw env codex_home
                then Inr None
                else (case resolve_path_against_base penv CONFIG_TOML_FILE dot_codex_abs of
                  Inl e \<Rightarrow> Inl (BadPath e)
                | Inr config_file \<Rightarrow>
                    (case read_file env config_file of
                       FileText contents \<Rightarrow>
                         (case parse_toml env contents of
                            None \<Rightarrow>
                              if is_trusted (decision_for_dir ctx layer_dir) then Inl (InvalidFile config_file)
                              else Inr (Some (project_layer_entry env ctx dot_codex_abs layer_dir empty_table True))
                          | Some config \<Rightarrow>
                              map_sum id (\<lambda>config. Some (project_layer_entry env ctx dot_codex_abs layer_dir config True))
                                (resolve_relative_paths_in_config_toml env config dot_codex_abs))
                     | FileMissing \<Rightarrow> Inr (Some (project_layer_entry env ctx dot_codex_abs layer_dir empty_table False))
                     | FileUnreadable \<Rightarrow> Inl (UnreadableFile config_file)))))"

fun project_layers_loop ::
  "load_env \<Rightarrow> project_trust_context \<Rightarrow> path \<Rightarrow> path list \<Rightarrow> (load_error, config_layer_entry list) result"
where
  "project_layers_loop env ctx codex_home [] = Inr []"
| "project_layers_loop env ctx codex_home (dir # dirs) =
     (case project_layer_of_dir env ctx codex_home dir of
        Inl e \<Rightarrow> Inl e
      | Inr layer \<Rightarrow>
          (case project_layers_loop env ctx codex_home dirs of
             Inl e \<Rightarrow> Inl e
           | Inr ls \<Rightarrow> Inr ((case layer of Some l \<Rightarrow> [l] | None \<Rightarrow> []) @ ls)))"

text \<open>The directories from the root of the project down to the working directory.\<close>

fun up_to :: "path \<Rightarrow> path list \<Rightarrow> path list" where
  "up_to stop [] = []"
| "up_to stop (a # rest) = (if a = stop then [a] else a # up_to stop rest)"

definition project_dirs :: "path \<Rightarrow> path \<Rightarrow> path list" where
  "project_dirs stop cwd = rev (up_to stop (ancestors cwd))"

definition load_project_layers ::
  "load_env \<Rightarrow> path \<Rightarrow> project_trust_context \<Rightarrow> path \<Rightarrow> (load_error, config_layer_entry list) result"
where
  "load_project_layers env cwd ctx codex_home =
     (case from_absolute_path (path_env (files env)) codex_home of
        Inl e \<Rightarrow> Inl (BadPath e)
      | Inr codex_home_abs \<Rightarrow> project_layers_loop env ctx codex_home_abs (project_dirs (project_root ctx) cwd))"

definition load_config_toml_for_required_layer ::
  "load_env \<Rightarrow> path \<Rightarrow> (toml_value \<Rightarrow> config_layer_entry) \<Rightarrow> (load_error, config_layer_entry) result"
where
  "load_config_toml_for_required_layer env file create_entry =
     (case read_file env file of
        FileText contents \<Rightarrow>
          (case parse_toml env contents of
             None \<Rightarrow> Inl (InvalidFile file)
           | Some config \<Rightarrow>
               (case path_parent file of
                  None \<Rightarrow> Inl (NoParentDirectory file)
                | Some config_parent \<Rightarrow>
                    map_sum id create_entry (resolve_relative_paths_in_config_toml env config config_parent)))
      | FileMissing \<Rightarrow> Inr (create_entry empty_table)
      | FileUnreadable \<Rightarrow> Inl (UnreadableFile file))"

subsection \<open>The whole stack\<close>

record load_request =
  req_codex_home :: path
  req_cwd :: "path option"
  req_cli_overrides :: "(string \<times> toml_value) list"
  req_managed_config_path :: "path option"
  req_managed_preferences :: "(toml_value \<times> string) option"
  req_cloud :: "(unit, requirements_toml option) result"

record 'p loaded_config =
  loaded_stack :: config_layer_stack
  loaded_requirements :: "'p config_requirements"
  loaded_requirements_toml :: requirements_toml

text \<open>Requirements: those of the cloud first, then of the system, then of the older scheme.\<close>

definition load_requirements ::
  "load_env \<Rightarrow> load_request \<Rightarrow> (load_error, sourced_requirements \<times> loaded_managed_config) result"
where
  "load_requirements env rq =
     (case req_cloud rq of
        Inl _ \<Rightarrow> Inl CloudFailed
      | Inr cloud \<Rightarrow>
          (let reqs = (case cloud of Some r \<Rightarrow> merge_unset_fields CloudSource r no_sourced_requirements
                       | None \<Rightarrow> no_sourced_requirements) in
           case load_requirements_toml env system_requirements_toml_file reqs of
             Inl e \<Rightarrow> Inl e
           | Inr reqs \<Rightarrow>
               (case load_config_layers_internal env (req_managed_config_path rq) (req_managed_preferences rq) of
                  Inl e \<Rightarrow> Inl e
                | Inr loaded \<Rightarrow>
                    (case load_requirements_from_legacy_scheme env loaded reqs of
                       Inl e \<Rightarrow> Inl e
                     | Inr reqs \<Rightarrow> Inr (reqs, loaded)))))"

definition cli_layer_config :: "load_env \<Rightarrow> load_request \<Rightarrow> (load_error, toml_value option) result" where
  "cli_layer_config env rq =
     (if req_cli_overrides rq = [] then Inr None
      else map_sum id Some
        (resolve_relative_paths_in_config_toml env (build_cli_overrides_layer (req_cli_overrides rq))
           (case req_cwd rq of Some cwd \<Rightarrow> cwd | None \<Rightarrow> req_codex_home rq)))"

text \<open>The layers of the system and of the user.\<close>

definition base_layers :: "load_env \<Rightarrow> path \<Rightarrow> path \<Rightarrow> (load_error, config_layer_entry list) result" where
  "base_layers env system_file user_file =
     (case load_config_toml_for_required_layer env system_file (new_layer (version_of env) (LayerSystem system_file)) of
        Inl e \<Rightarrow> Inl e
      | Inr system_layer \<Rightarrow>
          (case load_config_toml_for_required_layer env user_file (new_layer (version_of env) (LayerUser user_file)) of
             Inl e \<Rightarrow> Inl e
           | Inr user_layer \<Rightarrow> Inr [system_layer, user_layer]))"

text \<open>The projects: what they trust is read from the layers below them and from the command line.\<close>

definition merged_before_projects :: "config_layer_entry list \<Rightarrow> toml_value option \<Rightarrow> toml_value" where
  "merged_before_projects base cli =
     (case cli of
        Some v \<Rightarrow> merge_toml_values (merge_layers base) v
      | None \<Rightarrow> merge_layers base)"

definition context_for_project ::
  "load_env \<Rightarrow> load_request \<Rightarrow> config_layer_entry list \<Rightarrow> toml_value option \<Rightarrow> path \<Rightarrow> path \<Rightarrow>
   (load_error, project_trust_context) result"
where
  "context_for_project env rq base cli user_file cwd =
     (let merged_so_far = merged_before_projects base cli in
      case project_root_markers_from_config merged_so_far of
        Inl e \<Rightarrow> Inl e
      | Inr markers \<Rightarrow>
          trust_context env merged_so_far cwd
            (case markers of Some ms \<Rightarrow> ms | None \<Rightarrow> default_project_root_markers) (req_codex_home rq) user_file)"

definition project_layers ::
  "load_env \<Rightarrow> load_request \<Rightarrow> config_layer_entry list \<Rightarrow> toml_value option \<Rightarrow> path \<Rightarrow>
   (load_error, config_layer_entry list) result"
where
  "project_layers env rq base cli user_file =
     (case req_cwd rq of
        None \<Rightarrow> Inr []
      | Some cwd \<Rightarrow>
          (case context_for_project env rq base cli user_file cwd of
             Inl e \<Rightarrow> Inl e
           | Inr ctx \<Rightarrow> load_project_layers env cwd ctx (req_codex_home rq)))"

definition managed_layers :: "load_env \<Rightarrow> loaded_managed_config \<Rightarrow> (load_error, config_layer_entry list) result" where
  "managed_layers env loaded =
     (case (case managed_file loaded of
              None \<Rightarrow> Inr []
            | Some (file, config) \<Rightarrow>
                (case path_parent file of
                   None \<Rightarrow> Inl (NoParentDirectory file)
                 | Some managed_parent \<Rightarrow>
                     map_sum id (\<lambda>v. [new_layer (version_of env) (LayerLegacyFile file) v])
                       (resolve_relative_paths_in_config_toml env config managed_parent))) of
        Inl e \<Rightarrow> Inl e
      | Inr from_file \<Rightarrow>
          Inr (from_file @
               (case managed_mdm loaded of
                  Some (v, raw) \<Rightarrow> [new_layer_with_raw_toml (version_of env) LayerLegacyMdm v raw]
                | None \<Rightarrow> [])))"

definition load_layers ::
  "load_env \<Rightarrow> load_request \<Rightarrow> loaded_managed_config \<Rightarrow> (load_error, config_layer_entry list) result"
where
  "load_layers env rq loaded =
     (case cli_layer_config env rq of
        Inl e \<Rightarrow> Inl e
      | Inr cli \<Rightarrow>
     (case from_absolute_path (path_env (files env)) system_config_toml_file of
        Inl e \<Rightarrow> Inl (BadPath e)
      | Inr system_file \<Rightarrow>
     (case resolve_path_against_base (path_env (files env)) CONFIG_TOML_FILE (req_codex_home rq) of
        Inl e \<Rightarrow> Inl (BadPath e)
      | Inr user_file \<Rightarrow>
     (case base_layers env system_file user_file of
        Inl e \<Rightarrow> Inl e
      | Inr base \<Rightarrow>
     (case project_layers env rq base cli user_file of
        Inl e \<Rightarrow> Inl e
      | Inr projects \<Rightarrow>
     (case managed_layers env loaded of
        Inl e \<Rightarrow> Inl e
      | Inr managed \<Rightarrow>
          Inr (base @ projects @
               (case cli of Some v \<Rightarrow> [new_layer (version_of env) LayerSessionFlags v] | None \<Rightarrow> []) @
               managed)))))))"

definition load_config_layers_state :: "load_env \<Rightarrow> load_request \<Rightarrow> (load_error, 'p loaded_config) result" where
  "load_config_layers_state env rq =
     (case load_requirements env rq of
        Inl e \<Rightarrow> Inl e
      | Inr (reqs, loaded) \<Rightarrow>
          (case load_layers env rq loaded of
             Inl e \<Rightarrow> Inl e
           | Inr ls \<Rightarrow>
               (case requirements_from_sources reqs of
                  Inl e \<Rightarrow> Inl (RequirementsFailed e)
                | Inr requirements \<Rightarrow>
                    (case new_layer_stack ls of
                       Inl e \<Rightarrow> Inl (OrderingFailed e)
                     | Inr st \<Rightarrow>
                         Inr \<lparr>loaded_stack = st, loaded_requirements = requirements,
                              loaded_requirements_toml = into_toml reqs\<rparr>))))"

subsection \<open>The layers of projects\<close>

lemma prefixes_increase: "sorted_wrt strict_prefix (prefixes xs)"
  by (induction xs) (auto simp: sorted_wrt_map)

lemma ancestors_normalised: "normalised cwd \<Longrightarrow> a \<in> set (ancestors cwd) \<Longrightarrow> normalised a"
proof -
  assume "normalised cwd" and "a \<in> set (ancestors cwd)"
  then obtain names where cwd: "cwd = RootDir # map NormalComponent names" and a: "prefix a cwd" "a \<noteq> []"
    by (auto simp: ancestors_def normalised_def is_absolute_def)
  from a cwd obtain b where "a = RootDir # b" "prefix b (map NormalComponent names)" by (cases a) auto
  then show ?thesis unfolding normalised_def by (metis prefix_def append_eq_map_conv map_append)
qed

lemma up_to_prefix: "prefix (up_to stop xs) xs"
  by (induction xs) auto

lemma sorted_wrt_prefix: "prefix xs ys \<Longrightarrow> sorted_wrt P ys \<Longrightarrow> sorted_wrt P xs"
  by (auto simp: prefix_def sorted_wrt_append)

lemma project_dirs_increase: "sorted_wrt strict_prefix (project_dirs stop cwd)"
proof -
  have "sorted_wrt (\<lambda>a b. strict_prefix b a) (ancestors cwd)"
    unfolding ancestors_def using prefixes_increase [of cwd] by (simp add: sorted_wrt_filter sorted_wrt_rev)
  from sorted_wrt_prefix [OF up_to_prefix this] show ?thesis by (simp add: project_dirs_def sorted_wrt_rev)
qed

lemma project_dirs_normalised: "normalised cwd \<Longrightarrow> dir \<in> set (project_dirs stop cwd) \<Longrightarrow> normalised dir"
  using up_to_prefix [of stop "ancestors cwd"] ancestors_normalised
  by (auto simp: project_dirs_def prefix_def) (metis Un_iff set_append)

text \<open>A layer of a project is enabled only where it is trusted, or where there is no file.\<close>

lemma project_layer_of_dir_Some:
  assumes "project_layer_of_dir env ctx codex_home dir = Inr (Some l)" and "normalised dir"
  shows "entry_name l = LayerProject (dir @ dot_codex)"
    and "is_disabled l \<or> entry_config l = empty_table \<or> is_trusted (decision_for_dir ctx dir)"
proof -
  have join: "path_join dir dot_codex = dir @ dot_codex" "normalised (dir @ dot_codex)"
    using assms(2) normalised_push [OF assms(2)]
    by (auto simp: path_join_def dot_codex_def is_absolute_def normalised_def)
  then have dirs: "from_absolute_path (path_env (files env)) dir = Inr dir"
    "from_absolute_path (path_env (files env)) (dir @ dot_codex) = Inr (dir @ dot_codex)"
    using assms(2) by (simp_all add: from_absolute_normalised)
  have entry: "entry_name (project_layer_entry env ctx f d c e) = LayerProject f"
    "is_disabled (project_layer_entry env ctx f d c e) \<or> \<not> e \<or> is_trusted (decision_for_dir ctx d)"
    "entry_config (project_layer_entry env ctx f d c e) = c" for f d c e
    by (auto simp: project_layer_entry_def new_layer_def new_disabled_layer_def is_disabled_def disabled_reason_for_dir_def
        Let_def split: if_splits option.splits)
  show "entry_name l = LayerProject (dir @ dot_codex)"
    "is_disabled l \<or> entry_config l = empty_table \<or> is_trusted (decision_for_dir ctx dir)"
    using assms(1) entry(2) [of "dir @ dot_codex" dir] entry(1,3) 
    by (auto simp: project_layer_of_dir_def Let_def join(1) dirs map_sum_def
        split: if_splits sum.splits file_text.splits option.splits)
qed

definition project_layer_ok :: "project_trust_context \<Rightarrow> path list \<Rightarrow> config_layer_entry \<Rightarrow> bool" where
  "project_layer_ok ctx dirs l =
     (\<exists>dir \<in> set dirs. entry_name l = LayerProject (dir @ dot_codex) \<and>
        (is_disabled l \<or> entry_config l = empty_table \<or> is_trusted (decision_for_dir ctx dir)))"

lemma ancestors_member: "prefix d x \<Longrightarrow> d \<noteq> [] \<Longrightarrow> d \<in> set (ancestors x)"
  by (simp add: ancestors_def)

lemma folder_follows:
  assumes "strict_prefix d d'" and "normalised d"
  shows "project_layer_follows (Some (d @ dot_codex)) (d' @ dot_codex) = Inr ()"
proof -
  from assms obtain x where "d' = d @ x" "x \<noteq> []" by (auto simp: strict_prefix_def prefix_def)
  then have "d @ dot_codex \<noteq> d' @ dot_codex" by (auto simp: dot_codex_def)
  moreover have "path_parent (d @ dot_codex) = Some d" by (simp add: path_parent_def dot_codex_def)
  moreover have "d \<in> set (ancestors (d' @ dot_codex))"
    using assms by (intro ancestors_member) (auto simp: strict_prefix_def normalised_def)
  ultimately show ?thesis by (auto simp: project_layer_follows_def list_ex_iff)
qed

lemma project_layers_loop_spec:
  "project_layers_loop env ctx codex_home dirs = Inr ls \<Longrightarrow> sorted_wrt strict_prefix dirs \<Longrightarrow> \<forall>d \<in> set dirs. normalised d \<Longrightarrow>
   (\<forall>l \<in> set ls. project_layer_ok ctx dirs l) \<and>
   (\<forall>prev. (case prev of None \<Rightarrow> True | Some p \<Rightarrow> \<exists>d. p = d @ dot_codex \<and> normalised d \<and> (\<forall>d' \<in> set dirs. strict_prefix d d')) \<longrightarrow>
      folders_follow prev (project_folders ls) = Inr ())"
proof (induction env ctx codex_home dirs arbitrary: ls rule: project_layers_loop.induct)
  case (2 env ctx codex_home dir dirs)
  from 2(2) obtain layer rest where step: "project_layer_of_dir env ctx codex_home dir = Inr layer"
    "project_layers_loop env ctx codex_home dirs = Inr rest" "ls = (case layer of Some l \<Rightarrow> [l] | None \<Rightarrow> []) @ rest"
    by (auto split: sum.splits)
  have later: "\<forall>d' \<in> set dirs. strict_prefix dir d'" "normalised dir" using 2(3,4) by auto
  from 2(1) [OF step(1,2)] 2(3,4) have IH: "\<forall>l \<in> set rest. project_layer_ok ctx dirs l"
    "\<And>prev. (case prev of None \<Rightarrow> True | Some p \<Rightarrow> \<exists>d. p = d @ dot_codex \<and> normalised d \<and> (\<forall>d' \<in> set dirs. strict_prefix d d')) \<Longrightarrow>
      folders_follow prev (project_folders rest) = Inr ()" by auto
  have ok: "\<forall>l \<in> set rest. project_layer_ok ctx (dir # dirs) l" using IH(1) by (auto simp: project_layer_ok_def)
  show ?case
  proof (cases layer)
    case None
    have "folders_follow prev (project_folders rest) = Inr ()"
      if "case prev of None \<Rightarrow> True | Some p \<Rightarrow> \<exists>d. p = d @ dot_codex \<and> normalised d \<and> (\<forall>d' \<in> set (dir # dirs). strict_prefix d d')" for prev
      using that by (intro IH(2)) (auto split: option.splits)
    with None step(3) ok show ?thesis by simp
  next
    case (Some l)
    note l = project_layer_of_dir_Some [OF step(1) [unfolded Some] later(2)]
    have "project_layer_ok ctx (dir # dirs) l" using l by (auto simp: project_layer_ok_def)
    moreover have "folders_follow prev (project_folders ls) = Inr ()"
      if "case prev of None \<Rightarrow> True | Some p \<Rightarrow> \<exists>d. p = d @ dot_codex \<and> normalised d \<and> (\<forall>d' \<in> set (dir # dirs). strict_prefix d d')" for prev
    proof -
      have "folders_follow (Some (dir @ dot_codex)) (project_folders rest) = Inr ()" using later by (intro IH(2)) auto
      moreover have "project_layer_follows prev (dir @ dot_codex) = Inr ()"
        using that folder_follows by (auto simp: project_layer_follows_def [of None] split: option.splits)
      ultimately show ?thesis using Some step(3) l(1) by (simp add: project_folders_simps)
    qed
    ultimately show ?thesis using Some step(3) ok by simp
  qed
qed (simp add: project_folders_simps)

lemma project_layers_spec:
  assumes "project_layers env rq base cli user_file = Inr ls" and "\<forall>cwd. req_cwd rq = Some cwd \<longrightarrow> normalised cwd"
  shows "folders_follow None (project_folders ls) = Inr ()"
    and "l \<in> set ls \<Longrightarrow> \<exists>cwd ctx. req_cwd rq = Some cwd \<and> context_for_project env rq base cli user_file cwd = Inr ctx \<and>
      project_layer_ok ctx (project_dirs (project_root ctx) cwd) l"
proof -
  have "folders_follow None (project_folders ls) = Inr () \<and>
    (\<forall>l \<in> set ls. \<exists>cwd ctx. req_cwd rq = Some cwd \<and> context_for_project env rq base cli user_file cwd = Inr ctx \<and>
      project_layer_ok ctx (project_dirs (project_root ctx) cwd) l)"
  proof (cases "req_cwd rq")
    case (Some cwd)
    with assms(1) obtain ctx home where ctx: "context_for_project env rq base cli user_file cwd = Inr ctx"
      "project_layers_loop env ctx home (project_dirs (project_root ctx) cwd) = Inr ls"
      by (auto simp: project_layers_def load_project_layers_def split: sum.splits)
    from project_layers_loop_spec [OF ctx(2) project_dirs_increase] project_dirs_normalised assms(2) Some
    have "\<forall>l \<in> set ls. project_layer_ok ctx (project_dirs (project_root ctx) cwd) l"
      "folders_follow None (project_folders ls) = Inr ()" by fastforce+
    with Some ctx(1) show ?thesis by auto
  qed (use assms(1) in \<open>simp add: project_layers_def project_folders_simps\<close>)
  then show "folders_follow None (project_folders ls) = Inr ()"
    "l \<in> set ls \<Longrightarrow> \<exists>cwd ctx. req_cwd rq = Some cwd \<and> context_for_project env rq base cli user_file cwd = Inr ctx \<and>
      project_layer_ok ctx (project_dirs (project_root ctx) cwd) l" by blast+
qed

subsection \<open>The order of what is loaded\<close>

definition is_project_layer :: "config_layer_entry \<Rightarrow> bool" where
  "is_project_layer l = (case entry_name l of LayerProject _ \<Rightarrow> True | _ \<Rightarrow> False)"

text \<open>The trust that a request finds: it depends on the system, the user and the command line only.\<close>

definition trust_of_request :: "load_env \<Rightarrow> load_request \<Rightarrow> path \<Rightarrow> (load_error, project_trust_context) result" where
  "trust_of_request env rq cwd =
     (case cli_layer_config env rq of
        Inl e \<Rightarrow> Inl e
      | Inr cli \<Rightarrow>
     (case from_absolute_path (path_env (files env)) system_config_toml_file of
        Inl e \<Rightarrow> Inl (BadPath e)
      | Inr system_file \<Rightarrow>
     (case resolve_path_against_base (path_env (files env)) CONFIG_TOML_FILE (req_codex_home rq) of
        Inl e \<Rightarrow> Inl (BadPath e)
      | Inr user_file \<Rightarrow>
     (case base_layers env system_file user_file of
        Inl e \<Rightarrow> Inl e
      | Inr base \<Rightarrow> context_for_project env rq base cli user_file cwd))))"

lemma map_sum_Inr: "map_sum f g x = Inr y \<longleftrightarrow> (\<exists>z. x = Inr z \<and> y = g z)"
  by (cases x) auto

lemma required_layer_name:
  "load_config_toml_for_required_layer env file (new_layer version name) = Inr l \<Longrightarrow> entry_name l = name \<and> disabled_reason l = None"
  by (auto simp: load_config_toml_for_required_layer_def new_layer_def map_sum_Inr split: file_text.splits option.splits)

lemma managed_layers_shape:
  "managed_layers env loaded = Inr ls \<Longrightarrow>
   sorted_wrt (\<le>) (map (precedence \<circ> entry_name) ls) \<and>
   (\<forall>l \<in> set ls. precedence (entry_name l) \<ge> 40)"
  by (auto simp: managed_layers_def new_layer_def new_layer_with_raw_toml_def map_sum_Inr
      split: sum.splits option.splits prod.splits)

lemma load_layers_shape:
  assumes "load_layers env rq loaded = Inr ls" and "\<forall>cwd. req_cwd rq = Some cwd \<longrightarrow> normalised cwd"
  obtains sys user projects rest where "ls = sys # user # projects @ rest"
    and "\<exists>f. entry_name sys = LayerSystem f" and "\<exists>f. entry_name user = LayerUser f"
    and "\<And>l. l \<in> set projects \<Longrightarrow> \<exists>cwd ctx. req_cwd rq = Some cwd \<and> trust_of_request env rq cwd = Inr ctx \<and>
      project_layer_ok ctx (project_dirs (project_root ctx) cwd) l"
    and "folders_follow None (project_folders projects) = Inr ()"
    and "sorted_wrt (\<le>) (map (precedence \<circ> entry_name) rest)"
    and "\<And>l. l \<in> set rest \<Longrightarrow> precedence (entry_name l) \<ge> 30"
proof -
  from assms(1) obtain cli system_file user_file base projects managed where steps:
    "cli_layer_config env rq = Inr cli" "from_absolute_path (path_env (files env)) system_config_toml_file = Inr system_file"
    "resolve_path_against_base (path_env (files env)) CONFIG_TOML_FILE (req_codex_home rq) = Inr user_file"
    "base_layers env system_file user_file = Inr base" "project_layers env rq base cli user_file = Inr projects"
    "managed_layers env loaded = Inr managed"
    "ls = base @ projects @ (case cli of Some v \<Rightarrow> [new_layer (version_of env) LayerSessionFlags v] | None \<Rightarrow> []) @ managed"
    by (auto simp: load_layers_def split: sum.splits)
  from steps(4) obtain sys user where base: "base = [sys, user]" "entry_name sys = LayerSystem system_file"
    "entry_name user = LayerUser user_file"
    by (auto simp: base_layers_def dest!: required_layer_name split: sum.splits)
  have trust: "trust_of_request env rq cwd = context_for_project env rq base cli user_file cwd" for cwd
    by (simp add: trust_of_request_def steps)
  let ?rest = "(case cli of Some v \<Rightarrow> [new_layer (version_of env) LayerSessionFlags v] | None \<Rightarrow> []) @ managed"
  show ?thesis
  proof (rule that [of sys user projects ?rest])
    show "sorted_wrt (\<le>) (map (precedence \<circ> entry_name) ?rest)"
      using managed_layers_shape [OF steps(6)] by (auto simp: new_layer_def sorted_wrt_append split: option.split)
    show "precedence (entry_name l) \<ge> 30" if "l \<in> set ?rest" for l
      using that managed_layers_shape [OF steps(6)] by (force simp: new_layer_def split: option.splits)
  qed (use steps(7) base project_layers_spec [OF steps(5) assms(2)] trust in \<open>simp_all\<close>)
qed

lemma project_layer_ok_name: "project_layer_ok ctx dirs l \<Longrightarrow> \<exists>d. entry_name l = LayerProject d"
  by (auto simp: project_layer_ok_def)

lemma late_layers_are_plain:
  "\<forall>l \<in> set rest. precedence (entry_name l) \<ge> 30 \<Longrightarrow> project_folders rest = [] \<and> \<not> list_ex is_user_layer rest"
  by (induction rest) (auto simp: project_folders_simps is_user_layer_def split: config_layer_source.splits)

lemma loaded_layers_pass:
  assumes "load_layers env rq loaded = Inr ls" and "\<forall>cwd. req_cwd rq = Some cwd \<longrightarrow> normalised cwd"
  shows "verify_layer_ordering ls = Inr (Some 1)"
  using assms
proof (rule load_layers_shape)
  fix sys user projects rest
  assume ls: "ls = sys # user # projects @ rest" "\<exists>f. entry_name sys = LayerSystem f" "\<exists>f. entry_name user = LayerUser f"
    and ok: "\<And>l. l \<in> set projects \<Longrightarrow> \<exists>cwd ctx. req_cwd rq = Some cwd \<and> trust_of_request env rq cwd = Inr ctx \<and>
      project_layer_ok ctx (project_dirs (project_root ctx) cwd) l"
    and follow: "folders_follow None (project_folders projects) = Inr ()"
    and rest: "sorted_wrt (\<le>) (map (precedence \<circ> entry_name) rest)" "\<And>l. l \<in> set rest \<Longrightarrow> precedence (entry_name l) \<ge> 30"
  have names: "\<exists>d. entry_name l = LayerProject d" if "l \<in> set projects" for l using ok [OF that] project_layer_ok_name by blast
  have sorted: "sorted_wrt (\<le>) (map (precedence \<circ> entry_name) projects)"
  proof -
    have "precedence (entry_name l) = 25" if "l \<in> set projects" for l using names [OF that] by auto
    then have "map (precedence \<circ> entry_name) projects = replicate (length projects) 25" by (simp add: map_replicate_const flip: map_replicate_const)
    then show ?thesis by simp
  qed
  have "sorted_wrt (\<le>) (map (precedence \<circ> entry_name) ls)"
    using ls rest sorted names by (fastforce simp: sorted_wrt_append)
  moreover have "\<not> list_ex is_user_layer ([sys] @ projects @ rest)"
    using ls(2) names late_layers_are_plain [of rest] rest(2) by (fastforce simp: is_user_layer_def list_ex_iff)
  moreover have "project_folders ([sys] @ projects @ rest) = project_folders projects"
    using ls(2) late_layers_are_plain [of rest] rest(2) by (auto simp: project_folders_simps)
  moreover have "is_user_layer user" using ls(3) by (auto simp: is_user_layer_def)
  ultimately show ?thesis
    using loop_through_user [of user "[sys]" "projects @ rest" 0 None] ls(1) follow
    by (simp add: verify_layer_ordering_def)
qed

text \<open>Reading does not fail on the order.\<close>

fun reads_fail :: "load_error \<Rightarrow> bool" where
  "reads_fail (OrderingFailed _) = False"
| "reads_fail _ = True"

lemma resolve_fails: "resolve_relative_paths_in_config_toml env v p = Inl e \<Longrightarrow> reads_fail e"
  by (auto simp: resolve_relative_paths_in_config_toml_def split: option.splits sum.splits)

lemma required_layer_fails: "load_config_toml_for_required_layer env f c = Inl e \<Longrightarrow> reads_fail e"
  by (auto simp: load_config_toml_for_required_layer_def map_sum_Inl resolve_fails split: file_text.splits option.splits)

lemma legacy_loop_fails: "legacy_loop env xs reqs = Inl e \<Longrightarrow> reads_fail e"
  by (induction env xs reqs rule: legacy_loop.induct) (auto split: option.splits)

lemma load_requirements_fails: "load_requirements env rq = Inl e \<Longrightarrow> reads_fail e"
  by (auto simp: load_requirements_def load_requirements_toml_def load_config_layers_internal_def read_config_from_path_def
      load_requirements_from_legacy_scheme_def Let_def legacy_loop_fails split: sum.splits file_text.splits option.splits)

lemma dir_fails: "project_layer_of_dir env ctx home dir = Inl e \<Longrightarrow> reads_fail e"
  by (auto simp: project_layer_of_dir_def Let_def map_sum_Inl resolve_fails
      split: if_splits sum.splits file_text.splits option.splits)

lemma dirs_fail: "project_layers_loop env ctx home dirs = Inl e \<Longrightarrow> reads_fail e"
  by (induction env ctx home dirs rule: project_layers_loop.induct) (auto simp: dir_fails split: sum.splits)

lemma project_layers_fail: "project_layers env rq base cli user_file = Inl e \<Longrightarrow> reads_fail e"
  by (auto simp: project_layers_def context_for_project_def project_root_markers_from_config_def trust_context_def
      find_project_root_def load_project_layers_def Let_def map_sum_Inl dirs_fail
      split: option.splits sum.splits if_splits toml_value.splits)

lemma load_layers_fails: "load_layers env rq loaded = Inl e \<Longrightarrow> reads_fail e"
  by (auto simp: load_layers_def cli_layer_config_def base_layers_def managed_layers_def map_sum_Inl resolve_fails
      required_layer_fails project_layers_fail split: option.splits sum.splits if_splits)

lemma load_config_layers_state_cases:
  assumes "\<forall>cwd. req_cwd rq = Some cwd \<longrightarrow> normalised cwd"
  shows "(\<exists>e. load_config_layers_state env rq = (Inl e :: (load_error, 'p loaded_config) result) \<and> reads_fail e) \<or>
    (\<exists>ls cfg reqs loaded. load_config_layers_state env rq = (Inr cfg :: (load_error, 'p loaded_config) result) \<and> load_requirements env rq = Inr (reqs, loaded) \<and>
       load_layers env rq loaded = Inr ls \<and> requirements_from_sources reqs = Inr (loaded_requirements cfg) \<and>
       loaded_stack cfg = \<lparr>layers = ls, user_layer_index = Some 1\<rparr> \<and> verify_layer_ordering ls = Inr (Some 1))"
proof (cases "load_requirements env rq")
  case (Inl e)
  with load_requirements_fails show ?thesis by (simp add: load_config_layers_state_def)
next
  case (Inr r)
  obtain reqs loaded where r: "r = (reqs, loaded)" by (cases r)
  show ?thesis
  proof (cases "load_layers env rq loaded")
    case (Inl e)
    with Inr r load_layers_fails show ?thesis by (simp add: load_config_layers_state_def)
  next
    case (Inr ls)
    with \<open>load_requirements env rq = Inr r\<close> r loaded_layers_pass [OF Inr assms] show ?thesis
      by (cases "requirements_from_sources reqs :: (requirement_error, 'p config_requirements) result")
        (simp_all add: load_config_layers_state_def new_layer_stack_def)
  qed
qed

text \<open>What is loaded is in order: the check that a new stack has to pass never fails for the layers
  that are read for a request, whatever files there are, and the user's layer is the second one.\<close>

lemma loaded_stacks_are_in_order:
  assumes "\<forall>cwd. req_cwd rq = Some cwd \<longrightarrow> normalised cwd"
  shows "case (load_config_layers_state env rq :: (load_error, 'p loaded_config) result) of
      Inl (OrderingFailed _) \<Rightarrow> False
    | Inl _ \<Rightarrow> True
    | Inr cfg \<Rightarrow> stack_ok (loaded_stack cfg) \<and> user_layer_index (loaded_stack cfg) = Some 1"
  using load_config_layers_state_cases [OF assms, of env, where 'p = 'p]
  by (auto simp: stack_ok_def elim: reads_fail.elims)

subsection \<open>Projects that are not trusted\<close>

lemma merge_layers_table: "\<forall>l \<in> set ls. is_table (entry_config l) \<Longrightarrow> is_table (merge_layers ls)"
proof (induction ls rule: rev_induct)
  case (snoc l ls)
  then obtain b os where "merge_layers ls = TomlTable b" "entry_config l = TomlTable os"
    by (metis is_table.elims(2) in_set_conv_decomp in_set_butlastD snoc_eq_iff_butlast)
  then show ?case by (simp add: merge_layers_snoc)
qed (simp add: merge_layers_def empty_table_def)

lemma merge_without_empty:
  "\<forall>l \<in> set ls. is_table (entry_config l) \<Longrightarrow> \<forall>l \<in> set ls. P l \<or> entry_config l = empty_table \<Longrightarrow>
   merge_layers ls = merge_layers (filter P ls)"
proof (induction ls rule: rev_induct)
  case (snoc l ls)
  then have IH: "merge_layers ls = merge_layers (filter P ls)" by simp
  have "is_table (merge_layers ls)" using snoc.prems(1) by (intro merge_layers_table) simp
  then obtain b where "merge_layers ls = TomlTable b" by (metis is_table.elims(2))
  then have "merge_toml_values (merge_layers ls) empty_table = merge_layers ls" by (simp add: empty_table_def)
  with IH snoc.prems(2) show ?case by (auto simp: merge_layers_snoc)
qed simp

text \<open>C15: A project that is not trusted does not configure anything.  The request has a working directory, a
  normalised path; the trust it finds comes from the layers of the system and the user and from the command line, and
  from where the root of the project and the repository are; and the layers that are loaded are
  tables, as documents in TOML are.  If then no directory from the root of the project down to
  the working directory is trusted, the effective configuration is that of the other layers alone, whatever
  the files of the project say.\<close>

theorem untrusted_projects_change_nothing:
  fixes cfg :: "'p loaded_config"
  assumes "load_config_layers_state env rq = Inr cfg" and "req_cwd rq = Some cwd" and "normalised cwd"
    and "trust_of_request env rq cwd = Inr ctx"
    and "\<forall>dir \<in> set (project_dirs (project_root ctx) cwd). \<not> is_trusted (decision_for_dir ctx dir)"
    and "\<forall>l \<in> set (layers (loaded_stack cfg)). is_table (entry_config l)"
  shows "effective_config (loaded_stack cfg) =
    merge_layers (filter (\<lambda>l. \<not> is_project_layer l) (get_layers (loaded_stack cfg) LowestPrecedenceFirst False))"
proof -
  from assms(2,3) have cwd: "\<forall>c. req_cwd rq = Some c \<longrightarrow> normalised c" by simp
  from load_config_layers_state_cases [OF cwd, of env, where 'p = 'p] assms(1) obtain ls reqs loaded where
    ls: "load_layers env rq loaded = Inr ls" "layers (loaded_stack cfg) = ls" by auto
  have "\<not> is_project_layer l \<or> entry_config l = empty_table" if "l \<in> set ls" "\<not> is_disabled l" for l
  proof (cases "is_project_layer l")
    case True
    from load_layers_shape [OF ls(1) cwd] obtain sys user projects rest where
      shape: "ls = sys # user # projects @ rest" "\<exists>f. entry_name sys = LayerSystem f" "\<exists>f. entry_name user = LayerUser f"
      "\<And>l. l \<in> set projects \<Longrightarrow> \<exists>cwd ctx. req_cwd rq = Some cwd \<and> trust_of_request env rq cwd = Inr ctx \<and>
        project_layer_ok ctx (project_dirs (project_root ctx) cwd) l"
      "\<And>l. l \<in> set rest \<Longrightarrow> precedence (entry_name l) \<ge> 30" by metis
    have "l \<notin> set rest" using True shape(5) by (fastforce simp: is_project_layer_def split: config_layer_source.splits)
    with True shape(1,2,3) that(1) have "l \<in> set projects" by (auto simp: is_project_layer_def)
    with shape(4) assms(2,4) have "project_layer_ok ctx (project_dirs (project_root ctx) cwd) l" by fastforce
    with assms(5) that(2) show ?thesis by (auto simp: project_layer_ok_def)
  qed simp
  with ls(2) assms(6) show ?thesis
    unfolding effective_config_def by (intro merge_without_empty) (auto simp: get_layers_def)
qed

text \<open>A directory can name the repository whose trust it takes.  If its \<^verbatim>\<open>.git\<close> is a file that points to
  a directory of worktrees of a trusted repository, the directory is trusted like that repository,
  whether or not the repository knows the worktree, or anything exists there.\<close>

lemma worktree_files_borrow_trust:
  assumes "trust_context env merged dir markers home user_file = Inr ctx"
    and "normalised dir" and "is_dir (files env) dir" and "path_exists (files env) (dir @ git_entry)"
    and "\<not> is_dir (files env) (dir @ git_entry)" and "read_file env (dir @ git_entry) = FileText contents"
    and "str_trim contents = ''gitdir:'' @ rest" and "str_trim rest \<noteq> []"
    and "path_components (str_trim rest) = repo @ [NormalComponent ''.git'', NormalComponent ''worktrees'', NormalComponent w]"
    and "normalised repo" and "canonicalized env (path_components (str_trim rest)) = None"
    and "canonicalized env repo \<in> {None, Some repo}"
    and "projects_trust ctx (path_text repo) = Some Trusted"
    and "projects_trust ctx (path_text dir) = None" and "projects_trust ctx (project_root_key ctx) = None"
  shows "is_trusted (decision_for_dir ctx dir)"
proof -
  from assms(2) have join: "path_join dir git_entry = dir @ git_entry"
    by (auto simp: path_join_def git_entry_def is_absolute_def normalised_def)
  obtain b l where dir: "dir = b @ [l]" "dir \<noteq> []" using assms(2) by (cases dir rule: rev_cases) (auto simp: normalised_def)
  then obtain others where anc: "ancestors dir = dir # others" by (simp add: ancestors_def)
  have "find_ancestor_git_entry env dir = Some (dir, dir @ git_entry)"
    by (simp add: find_ancestor_git_entry_def anc join assms(4))
  moreover have "is_absolute (path_components (str_trim rest))"
    using assms(9,10) by (auto simp: normalised_def is_absolute_def)
  moreover have "strip_prefix ''gitdir:'' (str_trim contents) = Some rest" by (simp add: strip_prefix_def assms(7))
  moreover have "main_root_of_git_dir env (path_components (str_trim rest)) = Some repo"
    using assms(9,10,12) by (auto simp: main_root_of_git_dir_def path_parent_def last_name_def butlast_append
        canonicalize_or_raw_def normalised_def)
  ultimately have "resolve_root_git_project_for_trust env dir = Some repo"
    using assms(3,5,6,8,11)
    by (simp add: resolve_root_git_project_for_trust_def canonicalize_or_raw_def path_join_def)
  with assms(1) have "repo_root_key ctx = Some (path_text repo)"
    by (auto simp: trust_context_def split: option.splits sum.splits)
  with assms(13-15) show ?thesis by (simp add: decision_for_dir_def is_trusted_def Let_def)
qed

subsection \<open>Witnesses\<close>

text \<open>A project with a configuration, a home without one, and a repository that is trusted.\<close>

definition at :: "string list \<Rightarrow> path" where
  "at names = RootDir # map NormalComponent names"

definition sample_load_env :: load_env where
  "sample_load_env =
     \<lparr>files = \<lparr>path_env = \<lparr>home_dir = None, process_dir = None\<rparr>, tmpdir_var = None,
                is_dir = (\<lambda>p. p = at [''p''] \<or> p = at [''p'', ''.codex'']), is_file = (\<lambda>_. False),
                path_exists = (\<lambda>p. p = at [''p''] \<or> p = at [''p'', ''.git'']), read_text = (\<lambda>_. None)\<rparr>,
      read_file = (\<lambda>p. if p = at [''p'', ''.codex'', ''config.toml''] then FileText ''settings''
                       else if p = at [''p'', ''.git''] then FileText ''gitdir: /good/.git/worktrees/w'' else FileMissing),
      canonicalized = (\<lambda>_. None),
      parse_toml = (\<lambda>_. Some (TomlTable [(''model'', TomlString ''m'')])),
      as_config_toml = (\<lambda>_ _. None),
      as_trust_tables = (\<lambda>v _. Some (if v = empty_table then None else Some [''/good'' \<mapsto> Some Trusted])),
      as_legacy_config = (\<lambda>_. None), parse_requirements = (\<lambda>_. None), version_of = (\<lambda>_. ''v'')\<rparr>"

definition sample_load_request :: load_request where
  "sample_load_request =
     \<lparr>req_codex_home = at [''h''], req_cwd = Some (at [''p'']), req_cli_overrides = [], req_managed_config_path = None,
      req_managed_preferences = None, req_cloud = Inr None\<rparr>"

lemma sample_load:
  "case (load_config_layers_state sample_load_env sample_load_request :: (load_error, string loaded_config) result) of
     Inl _ \<Rightarrow> False
   | Inr cfg \<Rightarrow> map entry_name (layers (loaded_stack cfg)) =
         [LayerSystem (at [''etc'', ''codex'', ''config.toml'']), LayerUser (at [''h'', ''config.toml'']), LayerProject (at [''p'', ''.codex''])] \<and>
       list_all (\<lambda>l. is_table (entry_config l)) (layers (loaded_stack cfg))"
  "case trust_of_request sample_load_env sample_load_request (at [''p'']) of
     Inl _ \<Rightarrow> False
   | Inr ctx \<Rightarrow> list_all (\<lambda>dir. \<not> is_trusted (decision_for_dir ctx dir)) (project_dirs (project_root ctx) (at [''p'']))"
  "normalised (at [''p''])"
  by code_simp+

theorem untrusted_projects_change_nothing_witness:
  "case (load_config_layers_state sample_load_env sample_load_request :: (load_error, string loaded_config) result) of
     Inl _ \<Rightarrow> False
   | Inr cfg \<Rightarrow> effective_config (loaded_stack cfg) =
       merge_layers (filter (\<lambda>l. \<not> is_project_layer l) (get_layers (loaded_stack cfg) LowestPrecedenceFirst False))"
proof -
  obtain cfg where cfg: "load_config_layers_state sample_load_env sample_load_request = (Inr cfg :: (load_error, string loaded_config) result)"
    and tables: "\<forall>l \<in> set (layers (loaded_stack cfg)). is_table (entry_config l)"
    using sample_load(1) by (auto simp: list_all_iff split: sum.splits)
  obtain ctx where ctx: "trust_of_request sample_load_env sample_load_request (at [''p'']) = Inr ctx"
    and untrusted: "\<forall>dir \<in> set (project_dirs (project_root ctx) (at [''p''])). \<not> is_trusted (decision_for_dir ctx dir)"
    using sample_load(2) by (auto simp: list_all_iff split: sum.splits)
  have "req_cwd sample_load_request = Some (at [''p''])" by (simp add: sample_load_request_def)
  from untrusted_projects_change_nothing [OF cfg this sample_load(3) ctx untrusted tables] cfg show ?thesis by simp
qed

definition worktree_merged :: toml_value where
  "worktree_merged = TomlTable [(''projects'', TomlTable [(''/good'', TomlTable [(''trust_level'', TomlString ''trusted'')])])]"

end
