(* ===== verification/Response_Item.thy ===== *)
theory Response_Item
  imports Rust_Text
begin

section \<open>Items of a conversation\<close>

text \<open>
  A model of the item types in \<^verbatim>\<open>codex-rs/protocol/src/models.rs\<close> and of
  \<^verbatim>\<open>codex-rs/core/src/contextual_user_message.rs\<close>, which tells messages the user wrote from
  messages the program adds in the user's name.

  A JSON value is the type variable \<open>'j\<close>.  Constructors that two enums of the source share
  carry the enum's initials.
\<close>

subsection \<open>Data\<close>

datatype content_item = InputText string | InputImage string | OutputText string

datatype image_detail = Auto | Low | High | Original

datatype fco_content_item = FcoText string | FcoImage string "image_detail option"

datatype fco_body = BodyText string | BodyItems "fco_content_item list"

record fco_payload =
  payload_body :: fco_body
  payload_success :: "bool option"

definition payload_from_text :: "string \<Rightarrow> fco_payload" where
  "payload_from_text s = \<lparr>payload_body = BodyText s, payload_success = None\<rparr>"

datatype message_phase = Commentary | FinalAnswer

datatype local_shell_status = Completed | InProgress | Incomplete

record local_shell_exec_action =
  exec_command :: "string list"
  exec_timeout_ms :: "nat option"
  exec_working_directory :: "string option"
  exec_env :: "(string \<times> string) list option"
  exec_user :: "string option"

datatype local_shell_action = Exec local_shell_exec_action

datatype web_search_action =
    WsSearch "string option" "string list option"
  | WsOpenPage "string option"
  | WsFindInPage "string option" "string option"
  | WsOther

datatype reasoning_summary = SummaryText string

datatype reasoning_content = ReasoningText string | RcText string

record ghost_commit =
  gc_id :: string
  gc_parent :: "string option"
  preexisting_untracked_files :: "string list"
  preexisting_untracked_dirs :: "string list"

text \<open>The arguments of a constructor are the fields of the variant, in the order of the source.\<close>

datatype 'j response_item =
    Message "string option" string "content_item list" "bool option" "message_phase option"
  | Reasoning string "reasoning_summary list" "reasoning_content list option" "string option"
  | LocalShellCall "string option" "string option" local_shell_status local_shell_action
  | FunctionCall "string option" string "string option" string string
  | ToolSearchCall "string option" "string option" "string option" string 'j
  | FunctionCallOutput string fco_payload
  | CustomToolCall "string option" "string option" string string string
  | CustomToolCallOutput string fco_payload
  | ToolSearchOutput "string option" string string "'j list"
  | WebSearchCall "string option" "string option" "web_search_action option"
  | ImageGenerationCall string string "string option" string
  | GhostSnapshot ghost_commit
  | Compaction string
  | OtherItem

subsection \<open>Messages the program adds in the user's name\<close>

record fragment_definition =
  start_marker :: string
  end_marker :: string

definition matches_text :: "fragment_definition \<Rightarrow> string \<Rightarrow> bool" where
  "matches_text d text =
     (let t = trim_start text;
          starts = (case str_get_to t (length (start_marker d)) of
                      None \<Rightarrow> False | Some x \<Rightarrow> eq_ignore_ascii_case x (start_marker d));
          t = trim_end t;
          ends = (case str_get_from t (saturating_sub (length t) (length (end_marker d))) of
                    None \<Rightarrow> False | Some x \<Rightarrow> eq_ignore_ascii_case x (end_marker d))
      in starts \<and> ends)"

definition wrap_fragment :: "fragment_definition \<Rightarrow> string \<Rightarrow> string" where
  "wrap_fragment d s = start_marker d @ [nl] @ s @ [nl] @ end_marker d"

definition into_message :: "string \<Rightarrow> 'j response_item" where
  "into_message t = Message None ''user'' [InputText t] None None"

definition CONTEXTUAL_USER_FRAGMENTS :: "fragment_definition list" where
  "CONTEXTUAL_USER_FRAGMENTS =
     [\<lparr>start_marker = ''# AGENTS.md instructions for '', end_marker = ''</INSTRUCTIONS>''\<rparr>,
      \<lparr>start_marker = ''<environment_context>'', end_marker = ''</environment_context>''\<rparr>,
      \<lparr>start_marker = ''<skill>'', end_marker = ''</skill>''\<rparr>,
      \<lparr>start_marker = ''<user_shell_command>'', end_marker = ''</user_shell_command>''\<rparr>,
      \<lparr>start_marker = ''<turn_aborted>'', end_marker = ''</turn_aborted>''\<rparr>,
      \<lparr>start_marker = ''<subagent_notification>'', end_marker = ''</subagent_notification>''\<rparr>]"

definition is_contextual_user_fragment :: "content_item \<Rightarrow> bool" where
  "is_contextual_user_fragment c =
     (case c of InputText t \<Rightarrow> list_ex (\<lambda>d. matches_text d t) CONTEXTUAL_USER_FRAGMENTS
      | _ \<Rightarrow> False)"

definition is_contextual_user_message_content :: "content_item list \<Rightarrow> bool" where
  "is_contextual_user_message_content cs = list_ex is_contextual_user_fragment cs"

end
