(* ===== verification/Context_Normalize.thy ===== *)
theory Context_Normalize
  imports Response_Item
begin

section \<open>Normal form of a conversation\<close>

text \<open>
  A model of \<^verbatim>\<open>codex-rs/core/src/context_manager/normalize.rs\<close>: the history sent to the
  model must pair every call with an output and every output with a call.

  \<open>error_or_panic\<close> panics in builds with debug assertions and logs otherwise; the flag
  \<open>debug\<close> says which build it is, and a panic is \<open>None\<close>.
\<close>

subsection \<open>Outputs for calls\<close>

definition aborted_payload :: fco_payload where
  "aborted_payload = payload_from_text ''aborted''"

definition has_function_output :: "'j response_item list \<Rightarrow> string \<Rightarrow> bool" where
  "has_function_output items call_id =
     list_ex (\<lambda>i. case i of FunctionCallOutput existing _ \<Rightarrow> existing = call_id | _ \<Rightarrow> False) items"

definition has_search_output :: "'j response_item list \<Rightarrow> string \<Rightarrow> bool" where
  "has_search_output items call_id =
     list_ex (\<lambda>i. case i of ToolSearchOutput (Some existing) _ _ _ \<Rightarrow> existing = call_id | _ \<Rightarrow> False) items"

definition has_custom_output :: "'j response_item list \<Rightarrow> string \<Rightarrow> bool" where
  "has_custom_output items call_id =
     list_ex (\<lambda>i. case i of CustomToolCallOutput existing _ \<Rightarrow> existing = call_id | _ \<Rightarrow> False) items"

text \<open>The body of the first loop: the output to insert after an item.\<close>

fun missing_output :: "'j response_item list \<Rightarrow> 'j response_item \<Rightarrow> 'j response_item option" where
  "missing_output items (FunctionCall _ _ _ _ call_id) =
     (if has_function_output items call_id then None else Some (FunctionCallOutput call_id aborted_payload))"
| "missing_output items (ToolSearchCall _ (Some call_id) _ _ _) =
     (if has_search_output items call_id then None
      else Some (ToolSearchOutput (Some call_id) ''completed'' ''client'' []))"
| "missing_output items (CustomToolCall _ _ call_id _ _) =
     (if has_custom_output items call_id then None else Some (CustomToolCallOutput call_id aborted_payload))"
| "missing_output items (LocalShellCall _ (Some call_id) _ _) =
     (if has_function_output items call_id then None else Some (FunctionCallOutput call_id aborted_payload))"
| "missing_output items _ = None"

definition missing_is_error :: "'j response_item \<Rightarrow> bool" where
  "missing_is_error i = (case i of CustomToolCall _ _ _ _ _ \<Rightarrow> True | LocalShellCall _ _ _ _ \<Rightarrow> True | _ \<Rightarrow> False)"

definition missing_outputs_to_insert :: "'j response_item list \<Rightarrow> (nat \<times> 'j response_item) list" where
  "missing_outputs_to_insert items =
     concat (map (\<lambda>(idx, i). case missing_output items i of None \<Rightarrow> [] | Some out \<Rightarrow> [(idx, out)])
       (enumerate 0 items))"

definition insert_at :: "nat \<Rightarrow> 'a \<Rightarrow> 'a list \<Rightarrow> 'a list" where
  "insert_at n x xs = take n xs @ x # drop n xs"

definition ensure_call_outputs_present :: "bool \<Rightarrow> 'j response_item list \<Rightarrow> 'j response_item list option" where
  "ensure_call_outputs_present debug items =
     (if debug \<and> list_ex (\<lambda>i. missing_is_error i \<and> missing_output items i \<noteq> None) items then None
      else Some (fold (\<lambda>(idx, out) items. insert_at (idx + 1) out items)
             (rev (missing_outputs_to_insert items)) items))"

subsection \<open>Calls for outputs\<close>

definition function_call_ids :: "'j response_item list \<Rightarrow> string list" where
  "function_call_ids items =
     concat (map (\<lambda>i. case i of FunctionCall _ _ _ _ call_id \<Rightarrow> [call_id] | _ \<Rightarrow> []) items)"

definition tool_search_call_ids :: "'j response_item list \<Rightarrow> string list" where
  "tool_search_call_ids items =
     concat (map (\<lambda>i. case i of ToolSearchCall _ (Some call_id) _ _ _ \<Rightarrow> [call_id] | _ \<Rightarrow> []) items)"

definition local_shell_call_ids :: "'j response_item list \<Rightarrow> string list" where
  "local_shell_call_ids items =
     concat (map (\<lambda>i. case i of LocalShellCall _ (Some call_id) _ _ \<Rightarrow> [call_id] | _ \<Rightarrow> []) items)"

definition custom_tool_call_ids :: "'j response_item list \<Rightarrow> string list" where
  "custom_tool_call_ids items =
     concat (map (\<lambda>i. case i of CustomToolCall _ _ call_id _ _ \<Rightarrow> [call_id] | _ \<Rightarrow> []) items)"

fun has_match :: "'j response_item list \<Rightarrow> 'j response_item \<Rightarrow> bool" where
  "has_match items (FunctionCallOutput call_id _) =
     (call_id \<in> set (function_call_ids items) \<or> call_id \<in> set (local_shell_call_ids items))"
| "has_match items (CustomToolCallOutput call_id _) = (call_id \<in> set (custom_tool_call_ids items))"
| "has_match items (ToolSearchOutput call_id _ execution _) =
     (if execution = ''server'' then True
      else case call_id of Some call_id \<Rightarrow> call_id \<in> set (tool_search_call_ids items) | None \<Rightarrow> True)"
| "has_match items _ = True"

definition remove_orphan_outputs :: "bool \<Rightarrow> 'j response_item list \<Rightarrow> 'j response_item list option" where
  "remove_orphan_outputs debug items =
     (if debug \<and> list_ex (\<lambda>i. \<not> has_match items i) items then None
      else Some (filter (has_match items) items))"

subsection \<open>Removing the counterpart of an item\<close>

fun remove_first_matching :: "('a \<Rightarrow> bool) \<Rightarrow> 'a list \<Rightarrow> 'a list" where
  "remove_first_matching p [] = []"
| "remove_first_matching p (x # xs) = (if p x then xs else x # remove_first_matching p xs)"

definition is_function_output :: "string \<Rightarrow> 'j response_item \<Rightarrow> bool" where
  "is_function_output call_id i = (case i of FunctionCallOutput existing _ \<Rightarrow> existing = call_id | _ \<Rightarrow> False)"

definition is_function_call :: "string \<Rightarrow> 'j response_item \<Rightarrow> bool" where
  "is_function_call call_id i = (case i of FunctionCall _ _ _ _ existing \<Rightarrow> existing = call_id | _ \<Rightarrow> False)"

definition is_local_shell_call :: "string \<Rightarrow> 'j response_item \<Rightarrow> bool" where
  "is_local_shell_call call_id i =
     (case i of LocalShellCall _ (Some existing) _ _ \<Rightarrow> existing = call_id | _ \<Rightarrow> False)"

definition is_search_output :: "string \<Rightarrow> 'j response_item \<Rightarrow> bool" where
  "is_search_output call_id i =
     (case i of ToolSearchOutput (Some existing) _ _ _ \<Rightarrow> existing = call_id | _ \<Rightarrow> False)"

definition is_search_call :: "string \<Rightarrow> 'j response_item \<Rightarrow> bool" where
  "is_search_call call_id i =
     (case i of ToolSearchCall _ (Some existing) _ _ _ \<Rightarrow> existing = call_id | _ \<Rightarrow> False)"

definition is_custom_output :: "string \<Rightarrow> 'j response_item \<Rightarrow> bool" where
  "is_custom_output call_id i = (case i of CustomToolCallOutput existing _ \<Rightarrow> existing = call_id | _ \<Rightarrow> False)"

definition is_custom_call :: "string \<Rightarrow> 'j response_item \<Rightarrow> bool" where
  "is_custom_call call_id i = (case i of CustomToolCall _ _ existing _ _ \<Rightarrow> existing = call_id | _ \<Rightarrow> False)"

fun remove_corresponding_for :: "'j response_item list \<Rightarrow> 'j response_item \<Rightarrow> 'j response_item list" where
  "remove_corresponding_for items (FunctionCall _ _ _ _ call_id) =
     remove_first_matching (is_function_output call_id) items"
| "remove_corresponding_for items (FunctionCallOutput call_id _) =
     (if list_ex (is_function_call call_id) items
      then remove_first_matching (is_function_call call_id) items
      else remove_first_matching (is_local_shell_call call_id) items)"
| "remove_corresponding_for items (ToolSearchCall _ (Some call_id) _ _ _) =
     remove_first_matching (is_search_output call_id) items"
| "remove_corresponding_for items (ToolSearchOutput (Some call_id) _ _ _) =
     remove_first_matching (is_search_call call_id) items"
| "remove_corresponding_for items (CustomToolCall _ _ call_id _ _) =
     remove_first_matching (is_custom_output call_id) items"
| "remove_corresponding_for items (CustomToolCallOutput call_id _) =
     remove_first_matching (is_custom_call call_id) items"
| "remove_corresponding_for items (LocalShellCall _ (Some call_id) _ _) =
     remove_first_matching (is_function_output call_id) items"
| "remove_corresponding_for items _ = items"

subsection \<open>Images\<close>

definition IMAGE_CONTENT_OMITTED_PLACEHOLDER :: string where
  "IMAGE_CONTENT_OMITTED_PLACEHOLDER = ''image content omitted because you do not support image input''"

fun rewrite_image_call :: "'j response_item \<Rightarrow> 'j response_item" where
  "rewrite_image_call (ImageGenerationCall ident _ revised_prompt result) =
     (let image_url = (if prefix ''data:'' result then result else ''data:image/png;base64,'' @ result);
          revised_prompt = (case revised_prompt of None \<Rightarrow> [] | Some t \<Rightarrow> t)
      in Message None ''user''
           [InputText ''Image Generation Call'', InputText (''Image ID: '' @ ident),
            InputText (''Prompt: '' @ revised_prompt), InputImage image_url] None None)"
| "rewrite_image_call item = item"

definition rewrite_image_generation_calls_for_stateless_input ::
  "'j response_item list \<Rightarrow> 'j response_item list"
where
  "rewrite_image_generation_calls_for_stateless_input items = map rewrite_image_call items"

datatype input_modality = TextModality | ImageModality

definition strip_content_image :: "content_item \<Rightarrow> content_item" where
  "strip_content_image c =
     (case c of InputImage _ \<Rightarrow> InputText IMAGE_CONTENT_OMITTED_PLACEHOLDER | _ \<Rightarrow> c)"

definition strip_fco_image :: "fco_content_item \<Rightarrow> fco_content_item" where
  "strip_fco_image c = (case c of FcoImage _ _ \<Rightarrow> FcoText IMAGE_CONTENT_OMITTED_PLACEHOLDER | _ \<Rightarrow> c)"

definition strip_payload_images :: "fco_payload \<Rightarrow> fco_payload" where
  "strip_payload_images p =
     (case payload_body p of
        BodyText _ \<Rightarrow> p
      | BodyItems items \<Rightarrow> p\<lparr>payload_body := BodyItems (map strip_fco_image items)\<rparr>)"

fun strip_item_images :: "'j response_item \<Rightarrow> 'j response_item" where
  "strip_item_images (Message ident role content end_turn phase) =
     Message ident role (map strip_content_image content) end_turn phase"
| "strip_item_images (FunctionCallOutput call_id out) = FunctionCallOutput call_id (strip_payload_images out)"
| "strip_item_images (CustomToolCallOutput call_id out) = CustomToolCallOutput call_id (strip_payload_images out)"
| "strip_item_images item = item"

definition strip_images_when_unsupported ::
  "input_modality list \<Rightarrow> 'j response_item list \<Rightarrow> 'j response_item list"
where
  "strip_images_when_unsupported modalities items =
     (if ImageModality \<in> set modalities then items else map strip_item_images items)"

subsection \<open>Calls and outputs as keys\<close>

text \<open>The specification: a call and an output belong together when their keys are equal.  A
  function call and a local shell call have outputs of the same kind.  An output of a
  server-side search needs no call.\<close>

datatype pair_kind = FunctionPair | SearchPair | CustomPair

fun call_key :: "'j response_item \<Rightarrow> (pair_kind \<times> string) option" where
  "call_key (FunctionCall _ _ _ _ c) = Some (FunctionPair, c)"
| "call_key (LocalShellCall _ (Some c) _ _) = Some (FunctionPair, c)"
| "call_key (ToolSearchCall _ (Some c) _ _ _) = Some (SearchPair, c)"
| "call_key (CustomToolCall _ _ c _ _) = Some (CustomPair, c)"
| "call_key _ = None"

fun output_key :: "'j response_item \<Rightarrow> (pair_kind \<times> string) option" where
  "output_key (FunctionCallOutput c _) = Some (FunctionPair, c)"
| "output_key (ToolSearchOutput (Some c) _ _ _) = Some (SearchPair, c)"
| "output_key (CustomToolCallOutput c _) = Some (CustomPair, c)"
| "output_key _ = None"

fun needs_call :: "'j response_item \<Rightarrow> bool" where
  "needs_call (FunctionCallOutput _ _) = True"
| "needs_call (CustomToolCallOutput _ _) = True"
| "needs_call (ToolSearchOutput (Some _) _ e _) = (e \<noteq> ''server'')"
| "needs_call _ = False"

definition call_keys :: "'j response_item list \<Rightarrow> (pair_kind \<times> string) list" where
  "call_keys items = List.map_filter call_key items"

definition output_keys :: "'j response_item list \<Rightarrow> (pair_kind \<times> string) list" where
  "output_keys items = List.map_filter output_key items"

definition paired :: "'j response_item list \<Rightarrow> bool" where
  "paired items =
     (set (call_keys items) \<subseteq> set (output_keys items) \<and>
      set (output_keys (filter needs_call items)) \<subseteq> set (call_keys items))"

definition unique_ids :: "'j response_item list \<Rightarrow> bool" where
  "unique_ids items = (distinct (call_keys items) \<and> distinct (output_keys items))"

named_theorems item_simps \<open>keys of lists of items\<close>

lemma keys_simps [item_simps]:
  "call_keys [] = []" "output_keys [] = []"
  "call_keys (i # is) = (case call_key i of None \<Rightarrow> [] | Some k \<Rightarrow> [k]) @ call_keys is"
  "output_keys (i # is) = (case output_key i of None \<Rightarrow> [] | Some k \<Rightarrow> [k]) @ output_keys is"
  "call_keys (is @ js) = call_keys is @ call_keys js"
  "output_keys (is @ js) = output_keys is @ output_keys js"
  by (simp_all add: call_keys_def output_keys_def List.map_filter_def split: option.splits)

lemma keys_Cons:
  "call_key i = None \<Longrightarrow> call_keys (i # is) = call_keys is"
  "call_key i = Some k \<Longrightarrow> call_keys (i # is) = k # call_keys is"
  "output_key i = None \<Longrightarrow> output_keys (i # is) = output_keys is"
  "output_key i = Some k \<Longrightarrow> output_keys (i # is) = k # output_keys is"
  by (simp_all add: keys_simps)

lemma in_call_keys: "k \<in> set (call_keys items) \<longleftrightarrow> (\<exists>i \<in> set items. call_key i = Some k)"
  unfolding call_keys_def List.map_filter_def by (force simp: image_iff)

lemma in_output_keys: "k \<in> set (output_keys items) \<longleftrightarrow> (\<exists>i \<in> set items. output_key i = Some k)"
  unfolding output_keys_def List.map_filter_def by (force simp: image_iff)

text \<open>A call is not an output.\<close>

lemma call_not_output: "call_key i = Some k \<Longrightarrow> output_key i = None"
  by (cases i rule: call_key.cases) simp_all

lemma output_not_call: "output_key i = Some k \<Longrightarrow> call_key i = None"
  by (cases i rule: output_key.cases) simp_all

subsection \<open>The searches of the code find keys\<close>

lemma is_output_iff:
  "is_function_output c i \<longleftrightarrow> output_key i = Some (FunctionPair, c)"
  "is_search_output c i \<longleftrightarrow> output_key i = Some (SearchPair, c)"
  "is_custom_output c i \<longleftrightarrow> output_key i = Some (CustomPair, c)"
  by (cases i rule: output_key.cases;
      simp add: is_function_output_def is_search_output_def is_custom_output_def)+

lemma is_call_iff:
  "is_function_call c i \<or> is_local_shell_call c i \<longleftrightarrow> call_key i = Some (FunctionPair, c)"
  "is_search_call c i \<longleftrightarrow> call_key i = Some (SearchPair, c)"
  "is_custom_call c i \<longleftrightarrow> call_key i = Some (CustomPair, c)"
  by (cases i rule: call_key.cases;
      simp add: is_function_call_def is_local_shell_call_def is_search_call_def is_custom_call_def)+

lemma has_output_iff:
  "has_function_output items c \<longleftrightarrow> (FunctionPair, c) \<in> set (output_keys items)"
  "has_search_output items c \<longleftrightarrow> (SearchPair, c) \<in> set (output_keys items)"
  "has_custom_output items c \<longleftrightarrow> (CustomPair, c) \<in> set (output_keys items)"
proof -
  have "has_function_output items c = list_ex (is_function_output c) items"
    and "has_search_output items c = list_ex (is_search_output c) items"
    and "has_custom_output items c = list_ex (is_custom_output c) items"
    by (simp_all only: has_function_output_def has_search_output_def has_custom_output_def
        is_function_output_def [abs_def] is_search_output_def [abs_def] is_custom_output_def [abs_def])
  then show "has_function_output items c \<longleftrightarrow> (FunctionPair, c) \<in> set (output_keys items)"
    "has_search_output items c \<longleftrightarrow> (SearchPair, c) \<in> set (output_keys items)"
    "has_custom_output items c \<longleftrightarrow> (CustomPair, c) \<in> set (output_keys items)"
    by (simp_all add: is_output_iff in_output_keys list_ex_iff)
qed

lemma call_ids_iff:
  "c \<in> set (function_call_ids items) \<or> c \<in> set (local_shell_call_ids items) \<longleftrightarrow>
     (FunctionPair, c) \<in> set (call_keys items)"
  "c \<in> set (tool_search_call_ids items) \<longleftrightarrow> (SearchPair, c) \<in> set (call_keys items)"
  "c \<in> set (custom_tool_call_ids items) \<longleftrightarrow> (CustomPair, c) \<in> set (call_keys items)"
proof -
  have "c \<in> set (function_call_ids items) \<longleftrightarrow> (\<exists>i \<in> set items. is_function_call c i)"
    and "c \<in> set (local_shell_call_ids items) \<longleftrightarrow> (\<exists>i \<in> set items. is_local_shell_call c i)"
    and "c \<in> set (tool_search_call_ids items) \<longleftrightarrow> (\<exists>i \<in> set items. is_search_call c i)"
    and "c \<in> set (custom_tool_call_ids items) \<longleftrightarrow> (\<exists>i \<in> set items. is_custom_call c i)"
    unfolding function_call_ids_def local_shell_call_ids_def tool_search_call_ids_def
      custom_tool_call_ids_def is_function_call_def is_local_shell_call_def is_search_call_def
      is_custom_call_def
    by (induction items) (auto split: response_item.splits option.splits)
  then show "c \<in> set (function_call_ids items) \<or> c \<in> set (local_shell_call_ids items) \<longleftrightarrow>
     (FunctionPair, c) \<in> set (call_keys items)"
    "c \<in> set (tool_search_call_ids items) \<longleftrightarrow> (SearchPair, c) \<in> set (call_keys items)"
    "c \<in> set (custom_tool_call_ids items) \<longleftrightarrow> (CustomPair, c) \<in> set (call_keys items)"
    unfolding in_call_keys is_call_iff [symmetric] by blast+
qed

lemma has_match_iff:
  "has_match items i \<longleftrightarrow>
     \<not> needs_call i \<or> (case output_key i of None \<Rightarrow> True | Some k \<Rightarrow> k \<in> set (call_keys items))"
  by (cases i rule: needs_call.cases) (auto simp: call_ids_iff split: option.splits)

lemma missing_output_iff:
  "missing_output items i = None \<longleftrightarrow>
     (case call_key i of None \<Rightarrow> True | Some k \<Rightarrow> k \<in> set (output_keys items))"
  by (cases i rule: call_key.cases) (simp_all add: has_output_iff)

lemma missing_output_Some:
  "missing_output items i = Some out \<Longrightarrow>
     call_key i \<noteq> None \<and> output_key out = call_key i \<and> call_key out = None \<and> needs_call out"
  by (cases i rule: call_key.cases) (auto split: if_splits)

subsection \<open>What the two passes compute\<close>

text \<open>Inserting from the last position down leaves the earlier positions valid.\<close>

lemma insert_missing_prefix:
  assumes "\<forall>(idx, x) \<in> set ms. idx < length xs"
  shows "fold (\<lambda>(idx, x) ys. insert_at (idx + 1) x ys) ms (xs @ zs) =
     fold (\<lambda>(idx, x) ys. insert_at (idx + 1) x ys) ms xs @ zs"
  using assms
proof (induction ms arbitrary: xs)
  case (Cons m ms)
  obtain idx x where m: "m = (idx, x)" by force
  with Cons.prems have idx: "idx < length xs" by auto
  then have "insert_at (idx + 1) x (xs @ zs) = insert_at (idx + 1) x xs @ zs"
    by (simp add: insert_at_def)
  moreover have "\<forall>(i, y) \<in> set ms. i < length (insert_at (idx + 1) x xs)"
    using Cons.prems idx by (auto simp: insert_at_def)
  ultimately show ?case using Cons.IH m by simp
qed simp

definition missing_list :: "('a \<Rightarrow> 'a option) \<Rightarrow> 'a list \<Rightarrow> (nat \<times> 'a) list" where
  "missing_list f items =
     concat (map (\<lambda>(idx, i). case f i of None \<Rightarrow> [] | Some out \<Rightarrow> [(idx, out)]) (enumerate 0 items))"

lemma missing_list_snoc:
  "missing_list f (items @ [i]) =
     missing_list f items @ (case f i of None \<Rightarrow> [] | Some out \<Rightarrow> [(length items, out)])"
  by (simp add: missing_list_def enumerate_append_eq split: option.splits)

lemma missing_list_bound: "(idx, out) \<in> set (missing_list f items) \<Longrightarrow> idx < length items"
  by (auto simp: missing_list_def in_set_enumerate_eq split: option.splits)

lemma insert_missing:
  "fold (\<lambda>(idx, x) ys. insert_at (idx + 1) x ys) (rev (missing_list f items)) items =
     concat (map (\<lambda>i. i # (case f i of None \<Rightarrow> [] | Some out \<Rightarrow> [out])) items)"
proof (induction items rule: rev_induct)
  case (snoc i items)
  have bound: "\<forall>(idx, x) \<in> set (rev (missing_list f items)). idx < length items"
    using missing_list_bound by fastforce
  show ?case
  proof (cases "f i")
    case None
    with insert_missing_prefix [OF bound, of "[i]"] snoc show ?thesis
      by (simp add: missing_list_snoc)
  next
    case (Some out)
    with insert_missing_prefix [OF bound, of "[i, out]"] snoc show ?thesis
      by (simp add: missing_list_snoc insert_at_def)
  qed
qed (simp add: missing_list_def)

definition with_outputs :: "'j response_item list \<Rightarrow> 'j response_item list \<Rightarrow> 'j response_item list" where
  "with_outputs all items =
     concat (map (\<lambda>i. i # (case missing_output all i of None \<Rightarrow> [] | Some out \<Rightarrow> [out])) items)"

lemma ensure_eq: "ensure_call_outputs_present False items = Some (with_outputs items items)"
proof -
  have "missing_outputs_to_insert items = missing_list (missing_output items) items"
    by (simp only: missing_outputs_to_insert_def missing_list_def)
  then show ?thesis
    by (simp only: ensure_call_outputs_present_def with_outputs_def insert_missing simp_thms if_False)
qed

lemma call_keys_with_outputs: "call_keys (with_outputs all items) = call_keys items"
  by (induction items)
     (auto simp: with_outputs_def item_simps dest: missing_output_Some split: option.splits)

lemma in_with_outputs:
  "i \<in> set (with_outputs all items) \<longleftrightarrow>
     i \<in> set items \<or> (\<exists>c \<in> set items. missing_output all c = Some i)"
  unfolding with_outputs_def by (induction items) (auto split: option.splits)

lemma non_outputs_with_outputs:
  "filter (\<lambda>i. output_key i = None) (with_outputs all items) = filter (\<lambda>i. output_key i = None) items"
  by (induction items)
     (auto simp: with_outputs_def dest: missing_output_Some split: option.splits)

text \<open>After both passes the calls and outputs are paired.\<close>

definition normalize_pairs :: "bool \<Rightarrow> 'j response_item list \<Rightarrow> 'j response_item list option" where
  "normalize_pairs debug items =
     (case ensure_call_outputs_present debug items of
        None \<Rightarrow> None | Some items \<Rightarrow> remove_orphan_outputs debug items)"

lemma normalize_pairs_eq:
  "normalize_pairs False items =
     Some (filter (has_match (with_outputs items items)) (with_outputs items items))"
  by (simp add: normalize_pairs_def ensure_eq remove_orphan_outputs_def)

lemma has_match_non_output: "output_key i = None \<Longrightarrow> has_match items i"
  by (simp add: has_match_iff)

lemma call_keys_filter_match: "call_keys (filter (has_match all) items) = call_keys items"
  by (induction items)
     (auto simp: item_simps split: option.splits dest: call_not_output intro: has_match_non_output)

lemma normalized_paired:
  assumes "normalize_pairs False items = Some items'"
  shows "paired items'"
proof -
  let ?w = "with_outputs items items"
  from assms have items': "items' = filter (has_match ?w) ?w" by (simp add: normalize_pairs_eq)
  then have calls: "call_keys items' = call_keys items"
    by (simp add: call_keys_filter_match call_keys_with_outputs)
  have "k \<in> set (output_keys items')" if k: "k \<in> set (call_keys items')" for k
  proof -
    from k calls obtain c where c: "c \<in> set items" "call_key c = Some k" by (auto simp: in_call_keys)
    obtain out where "out \<in> set ?w" "output_key out = Some k"
    proof (cases "missing_output items c")
      case None
      with c have "k \<in> set (output_keys items)" by (simp add: missing_output_iff)
      then show ?thesis using that by (auto simp: in_output_keys in_with_outputs)
    next
      case (Some out)
      with c show ?thesis using that missing_output_Some [OF Some] by (auto simp: in_with_outputs)
    qed
    moreover have "has_match ?w out"
      using k calls calculation(2) by (simp add: has_match_iff call_keys_with_outputs)
    ultimately show ?thesis by (auto simp: in_output_keys items')
  qed
  moreover have "k \<in> set (call_keys items')" if "k \<in> set (output_keys (filter needs_call items'))" for k
    using that calls by (auto simp: in_output_keys items' has_match_iff call_keys_with_outputs)
  ultimately show ?thesis by (auto simp: paired_def)
qed

lemma normalize_pairs_keeps:
  assumes "normalize_pairs False items = Some items'"
  shows "filter (\<lambda>i. output_key i = None) items' = filter (\<lambda>i. output_key i = None) items"
proof -
  have "filter (\<lambda>i. output_key i = None) (filter (has_match all) xs) =
      filter (\<lambda>i. output_key i = None) xs" for all :: "'a response_item list" and xs
    by (simp add: conj_commute cong: conj_cong) (metis (mono_tags) has_match_non_output)
  with assms show ?thesis by (auto simp: normalize_pairs_eq non_outputs_with_outputs)
qed

lemma paired_normalize_id:
  assumes "paired items"
  shows "normalize_pairs debug items = Some items"
proof -
  have none: "missing_output items i = None" if "i \<in> set items" for i
    using assms that in_call_keys [of _ items] unfolding missing_output_iff paired_def
    by (cases "call_key i") auto
  then have "missing_outputs_to_insert items = []"
    by (auto simp: missing_outputs_to_insert_def in_set_enumerate_eq split: option.splits)
  then have "ensure_call_outputs_present debug items = Some items"
    using none by (auto simp: ensure_call_outputs_present_def list_ex_iff)
  moreover have "has_match items i" if i: "i \<in> set items" for i
  proof -
    have "k \<in> set (call_keys items)" if "needs_call i" "output_key i = Some k" for k
    proof -
      from that i have "k \<in> set (output_keys (filter needs_call items))" by (auto simp: in_output_keys)
      with assms show ?thesis unfolding paired_def by blast
    qed
    then show ?thesis by (auto simp: has_match_iff split: option.split)
  qed
  ultimately show ?thesis
    by (auto simp: normalize_pairs_def remove_orphan_outputs_def list_ex_iff)
qed

subsection \<open>Removing an item with its counterpart\<close>

lemma remove_first_keys:
  "output_keys (remove_first_matching (\<lambda>i. output_key i = Some k) items) = remove1 k (output_keys items)"
  "call_keys (remove_first_matching (\<lambda>i. output_key i = Some k) items) = call_keys items"
  "call_keys (remove_first_matching (\<lambda>i. call_key i = Some k) items) = remove1 k (call_keys items)"
  "output_keys (remove_first_matching (\<lambda>i. call_key i = Some k) items) = output_keys items"
  by (induction items)
     (auto simp: item_simps split: option.splits dest: call_not_output output_not_call)

lemma remove_first_set: "set (remove_first_matching p xs) \<subseteq> set xs"
  by (induction xs) auto

lemma remove_first_cong:
  "(\<And>x. x \<in> set xs \<Longrightarrow> p x = q x) \<Longrightarrow> remove_first_matching p xs = remove_first_matching q xs"
  by (induction xs) auto

lemma remove_first_unique:
  assumes "list_ex p items" and "\<And>i. p i \<Longrightarrow> call_key i = Some k" and "distinct (call_keys items)"
  shows "remove_first_matching p items = remove_first_matching (\<lambda>i. call_key i = Some k) items"
  using assms(1,3)
proof (induction items)
  case (Cons i items)
  show ?case
  proof (cases "p i")
    case True
    with assms(2) show ?thesis by simp
  next
    case False
    with Cons.prems obtain j where "j \<in> set items" "p j" by (auto simp: list_ex_iff)
    with assms(2) have "k \<in> set (call_keys items)" by (auto simp: in_call_keys)
    with Cons.prems(2) have "call_key i \<noteq> Some k" by (auto simp: keys_Cons)
    moreover have "list_ex p items" "distinct (call_keys items)"
      using Cons.prems False by (simp_all add: item_simps split: option.splits)
    ultimately show ?thesis using False Cons.IH by simp
  qed
qed simp

lemma remove_corresponding_eq:
  assumes "distinct (call_keys items)"
  shows "remove_corresponding_for items x =
     (case call_key x of
        Some k \<Rightarrow> remove_first_matching (\<lambda>i. output_key i = Some k) items
      | None \<Rightarrow>
          (case output_key x of
             Some k \<Rightarrow> remove_first_matching (\<lambda>i. call_key i = Some k) items
           | None \<Rightarrow> items))"
proof (cases "(items, x)" rule: remove_corresponding_for.cases)
  case (2 items' call_id out)
  have "remove_corresponding_for items x = remove_first_matching (\<lambda>i. call_key i = Some (FunctionPair, call_id)) items"
  proof (cases "list_ex (is_function_call call_id) items")
    case True
    then have "remove_first_matching (is_function_call call_id) items =
        remove_first_matching (\<lambda>i. call_key i = Some (FunctionPair, call_id)) items"
      by (rule remove_first_unique) (use assms is_call_iff(1) in blast)+
    with True 2 show ?thesis by simp
  next
    case False
    then have "remove_first_matching (is_local_shell_call call_id) items =
        remove_first_matching (\<lambda>i. call_key i = Some (FunctionPair, call_id)) items"
      by (intro remove_first_cong) (auto simp: is_call_iff(1) [symmetric] list_ex_iff)
    with False 2 show ?thesis by simp
  qed
  with 2 show ?thesis by simp
qed (simp_all add: is_output_iff [abs_def] is_call_iff(2,3) [abs_def])

lemma remove_corresponding_keeps_pairs:
  assumes "paired (x # items)" and "unique_ids (x # items)"
  shows "paired (remove_corresponding_for items x) \<and> unique_ids (remove_corresponding_for items x)"
proof -
  let ?R = "remove_corresponding_for items x"
  have dist: "distinct (call_keys items)" "distinct (output_keys items)"
    using assms(2) by (auto simp: unique_ids_def item_simps)
  note R = remove_corresponding_eq [OF dist(1), of x]
  have need: "set (output_keys (filter needs_call ?R)) \<subseteq> set (call_keys (x # items))"
  proof -
    have "set ?R \<subseteq> set items" unfolding R by (auto split: option.splits dest: subsetD [OF remove_first_set])
    then have "set (output_keys (filter needs_call ?R)) \<subseteq> set (output_keys (filter needs_call (x # items)))"
      by (intro subsetI) (auto simp: in_output_keys simp del: filter.simps)
    with assms(1) show ?thesis unfolding paired_def by blast
  qed
  have need_sub: "set (output_keys (filter needs_call ?R)) \<subseteq> set (output_keys ?R)"
    by (auto simp: in_output_keys)
  consider (call) k where "call_key x = Some k" "output_key x = None"
    | (out) k where "output_key x = Some k" "call_key x = None"
    | (neither) "call_key x = None" "output_key x = None"
    by (cases "call_key x"; cases "output_key x") (auto dest: call_not_output)
  then show ?thesis
  proof cases
    case call
    then have keys: "call_keys ?R = call_keys items" "output_keys ?R = remove1 k (output_keys items)"
      by (simp_all add: R remove_first_keys)
    from assms call have "k \<notin> set (call_keys items)" "set (call_keys items) \<subseteq> set (output_keys items)"
      by (auto simp: unique_ids_def paired_def keys_Cons)
    moreover have "set (output_keys (filter needs_call ?R)) \<subseteq> set (call_keys items)"
      using need need_sub call keys dist by (auto simp: keys_Cons)
    ultimately show ?thesis using keys dist by (auto simp: paired_def unique_ids_def)
  next
    case out
    then have keys: "call_keys ?R = remove1 k (call_keys items)" "output_keys ?R = output_keys items"
      by (simp_all add: R remove_first_keys)
    from assms out have "k \<notin> set (output_keys items)" "set (call_keys items) \<subseteq> insert k (set (output_keys items))"
      by (auto simp: unique_ids_def paired_def keys_Cons)
    moreover have "set (output_keys (filter needs_call ?R)) \<subseteq> set (call_keys items)"
      using need out by (auto simp: keys_Cons)
    ultimately show ?thesis using keys dist need_sub by (auto simp: paired_def unique_ids_def)
  next
    case neither
    then have "?R = items" by (simp add: R)
    moreover have "paired items" using assms(1) neither need \<open>?R = items\<close>
      by (auto simp: paired_def keys_Cons)
    ultimately show ?thesis using dist by (simp add: unique_ids_def)
  qed
qed

end
