(* ===== verification/String_Utils.thy ===== *)
theory String_Utils
  imports Rust_Text
begin

section \<open>String utilities\<close>

text \<open>
  A model of \<^verbatim>\<open>codex-rs/utils/string/src/lib.rs\<close>: prefixes and suffixes within a budget of
  bytes that do not cut a character, metric tag values, and location suffixes.  The two
  loops are shown to compute the longest such prefix and suffix (\<open>fits_prefix\<close>,
  \<open>fits_suffix\<close>), which determine it uniquely, so that other components can be compared
  with them.
\<close>

subsection \<open>Budgets of bytes at character boundaries\<close>

text \<open>The loop with its \<open>break\<close>; the state is \<open>last_ok\<close>.\<close>

fun take_loop :: "nat \<Rightarrow> string list \<Rightarrow> nat \<Rightarrow> nat \<Rightarrow> nat" where
  "take_loop maxb [] i last_ok = last_ok"
| "take_loop maxb (ch # cs) i last_ok =
     (let nb = i + length ch in if maxb < nb then last_ok else take_loop maxb cs nb nb)"

definition take_bytes_at_char_boundary :: "string \<Rightarrow> nat \<Rightarrow> string" where
  "take_bytes_at_char_boundary s maxb =
     (if length s \<le> maxb then s else take (take_loop maxb (str_chars s) 0 0) s)"

text \<open>The loop from the end: \<open>i\<close> is the offset behind the next character, the state is
  \<open>start\<close> and \<open>used\<close>.\<close>

fun take_last_loop :: "nat \<Rightarrow> string list \<Rightarrow> nat \<Rightarrow> nat \<times> nat \<Rightarrow> nat" where
  "take_last_loop maxb [] i (start, used) = start"
| "take_last_loop maxb (ch # cs) i (start, used) =
     (let nb = length ch; i = i - nb in
      if maxb < used + nb then start
      else if i = 0 then i
      else take_last_loop maxb cs i (i, used + nb))"

definition take_last_bytes_at_char_boundary :: "string \<Rightarrow> nat \<Rightarrow> string" where
  "take_last_bytes_at_char_boundary s maxb =
     (if length s \<le> maxb then s
      else drop (take_last_loop maxb (rev (str_chars s)) (length s) (length s, 0)) s)"

subsection \<open>Metric tags and locations\<close>

definition is_ascii_alphanumeric :: "char \<Rightarrow> bool" where
  "is_ascii_alphanumeric c =
     (let n = (of_char c :: nat) in
      (0x30 \<le> n \<and> n \<le> 0x39) \<or> (0x41 \<le> n \<and> n \<le> 0x5A) \<or> (0x61 \<le> n \<and> n \<le> 0x7A))"

definition MAX_LEN :: nat where
  "MAX_LEN = 256"

definition tag_char :: "string \<Rightarrow> string" where
  "tag_char ch =
     (case ch of
        [c] \<Rightarrow> if is_ascii_alphanumeric c \<or> c \<in> set ''._-/'' then [c] else ''_''
      | _ \<Rightarrow> ''_'')"

definition trim_matches_char :: "char \<Rightarrow> string \<Rightarrow> string" where
  "trim_matches_char c s = rev (dropWhile (\<lambda>x. x = c) (rev (dropWhile (\<lambda>x. x = c) s)))"

definition sanitize_metric_tag_value :: "string \<Rightarrow> string" where
  "sanitize_metric_tag_value s =
     (let sanitized = concat (map tag_char (str_chars s));
          trimmed = trim_matches_char (CHR ''_'') sanitized
      in if trimmed = [] \<or> list_all (\<lambda>ch. \<not> is_ascii_alphanumeric ch) trimmed then ''unspecified''
         else if length trimmed \<le> MAX_LEN then trimmed
         else take MAX_LEN trimmed)"

definition parse_markdown_hash_location_point :: "string \<Rightarrow> (string \<times> string option) option" where
  "parse_markdown_hash_location_point point =
     (case strip_prefix ''L'' point of
        None \<Rightarrow> None
      | Some point \<Rightarrow>
          (case split_once (CHR ''C'') point of
             Some (line, col) \<Rightarrow> Some (line, Some col)
           | None \<Rightarrow> Some (point, None)))"

definition push_point :: "string \<times> string option \<Rightarrow> string" where
  "push_point p = fst p @ (case snd p of None \<Rightarrow> [] | Some col \<Rightarrow> '':'' @ col)"

definition normalize_markdown_hash_location_suffix :: "string \<Rightarrow> string option" where
  "normalize_markdown_hash_location_suffix suf =
     (case strip_prefix ''#'' suf of
        None \<Rightarrow> None
      | Some fragment \<Rightarrow>
          (let (start, end_part) =
             (case split_once (CHR ''-'') fragment of
                Some (start, e) \<Rightarrow> (start, Some e) | None \<Rightarrow> (fragment, None))
           in case parse_markdown_hash_location_point start of
                None \<Rightarrow> None
              | Some p \<Rightarrow>
                  (case end_part of
                     None \<Rightarrow> Some ('':'' @ push_point p)
                   | Some e \<Rightarrow>
                       (case parse_markdown_hash_location_point e of
                          None \<Rightarrow> None
                        | Some q \<Rightarrow> Some ('':'' @ push_point p @ ''-'' @ push_point q)))))"

subsection \<open>The longest prefix and suffix within a budget\<close>

definition fits_prefix :: "nat \<Rightarrow> string list \<Rightarrow> string list \<Rightarrow> bool" where
  "fits_prefix n a rest = (length (concat a) \<le> n \<and> (rest = [] \<or> n < length (concat a) + length (hd rest)))"

definition fits_suffix :: "nat \<Rightarrow> string list \<Rightarrow> string list \<Rightarrow> bool" where
  "fits_suffix n rest b = (length (concat b) \<le> n \<and> (rest = [] \<or> n < length (last rest) + length (concat b)))"

lemma fits_suffix_rev: "fits_suffix n rest b = fits_prefix n (rev b) (rev rest)"
  by (cases rest rule: rev_cases) (simp_all add: fits_suffix_def fits_prefix_def length_concat add.commute
      rev_map [symmetric] sum_list_rev)

lemma fits_prefix_unique:
  assumes "fits_prefix n a rest" and "fits_prefix n a' rest'" and "a @ rest = a' @ rest'"
  shows "a = a'"
proof -
  have *: False if "fits_prefix n a rest" "fits_prefix n a' rest'" "a' = a @ d" "rest = d @ rest'" "d \<noteq> []"
    for a rest a' rest' d
  proof -
    from that obtain c d' where "d = c # d'" by (cases d) auto
    with that show False by (simp add: fits_prefix_def)
  qed
  from assms(3) consider d where "a = a' @ d" "d @ rest = rest'" | d where "a' = a @ d" "rest = d @ rest'"
    by (auto simp: append_eq_append_conv2)
  then show ?thesis using * assms(1,2) by cases (metis append_Nil2)+
qed

lemma fits_suffix_unique:
  assumes "fits_suffix n rest b" and "fits_suffix n rest' b'" and "rest @ b = rest' @ b'"
  shows "b = b'"
proof -
  from assms(3) have "rev b @ rev rest = rev b' @ rev rest'" by (metis rev_append)
  with assms(1,2) fits_prefix_unique have "rev b = rev b'" by (metis fits_suffix_rev)
  then show ?thesis by simp
qed

lemma take_loop_fits:
  "\<exists>a rest. cs = a @ rest \<and> take_loop n cs i i = i + length (concat a) \<and>
     (i \<le> n \<longrightarrow> i + length (concat a) \<le> n) \<and> (rest = [] \<or> n < i + length (concat a) + length (hd rest))"
proof (induction cs arbitrary: i)
  case (Cons ch cs)
  show ?case
  proof (cases "n < i + length ch")
    case True
    then show ?thesis by (intro exI [of _ "[]"] exI [of _ "ch # cs"]) simp
  next
    case False
    from Cons.IH [of "i + length ch"] obtain a rest where
      "cs = a @ rest" "take_loop n cs (i + length ch) (i + length ch) = i + length ch + length (concat a)"
      "i + length ch \<le> n \<longrightarrow> i + length ch + length (concat a) \<le> n"
      "rest = [] \<or> n < i + length ch + length (concat a) + length (hd rest)" by blast
    with False show ?thesis by (intro exI [of _ "ch # a"] exI [of _ rest]) (simp add: Let_def add.assoc)
  qed
qed simp

text \<open>Both functions return a run of characters, the longest that fits.\<close>

lemma take_bytes_fits:
  "\<exists>a rest. str_chars s = a @ rest \<and> take_bytes_at_char_boundary s n = concat a \<and> fits_prefix n a rest"
proof (cases "length s \<le> n")
  case True
  then show ?thesis
    by (intro exI [of _ "str_chars s"] exI [of _ "[]"])
       (simp add: take_bytes_at_char_boundary_def fits_prefix_def)
next
  case False
  from take_loop_fits [of "str_chars s" n 0] obtain a rest where
    "str_chars s = a @ rest \<and> take_loop n (str_chars s) 0 0 = 0 + length (concat a) \<and>
     (0 \<le> n \<longrightarrow> 0 + length (concat a) \<le> n) \<and>
     (rest = [] \<or> n < 0 + length (concat a) + length (hd rest))" by (elim exE)
  then have a: "str_chars s = a @ rest \<and> take_loop n (str_chars s) 0 0 = length (concat a) \<and>
    fits_prefix n a rest" unfolding fits_prefix_def by linarith
  then have "s = concat a @ concat rest" by (metis concat_append concat_str_chars)
  then have "take (length (concat a)) s = concat a" by (metis append_eq_conv_conj)
  with a False show ?thesis unfolding take_bytes_at_char_boundary_def by metis
qed

lemma str_chars_nonempty: "c \<in> set (str_chars s) \<Longrightarrow> c \<noteq> []"
  by (induction s rule: str_chars.induct) auto

lemma take_last_loop_fits:
  assumes "[] \<notin> set cs" and "i = length (concat cs)"
  shows "\<exists>b rest. cs = b @ rest \<and> take_last_loop n cs i (i, used) = length (concat rest) \<and>
     (used \<le> n \<longrightarrow> used + length (concat b) \<le> n) \<and>
     (rest = [] \<or> n < used + length (concat b) + length (hd rest))"
  using assms
proof (induction cs arbitrary: i used)
  case (Cons ch cs)
  then have i: "i - length ch = length (concat cs)" by simp
  show ?case
  proof (cases "n < used + length ch")
    case True
    with Cons.prems show ?thesis by (intro exI [of _ "[]"] exI [of _ "ch # cs"]) simp
  next
    case False
    from Cons.IH [OF _ i, of "used + length ch"] Cons.prems(1) obtain b rest where
      IH: "cs = b @ rest"
      "take_last_loop n cs (i - length ch) (i - length ch, used + length ch) = length (concat rest)"
      "used + length ch \<le> n \<longrightarrow> used + length ch + length (concat b) \<le> n"
      "rest = [] \<or> n < used + length ch + length (concat b) + length (hd rest)" by auto
    have "cs = []" if "i - length ch = 0"
      using that i Cons.prems(1) by (cases cs) auto
    with IH(2) have "take_last_loop n (ch # cs) i (i, used) = length (concat rest)"
      using False by (cases "i - length ch = 0") (auto simp: Let_def)
    with IH False show ?thesis by (intro exI [of _ "ch # b"] exI [of _ rest]) (simp add: add.assoc)
  qed
qed simp

lemma take_last_bytes_fits:
  "\<exists>rest b. str_chars s = rest @ b \<and> take_last_bytes_at_char_boundary s n = concat b \<and> fits_suffix n rest b"
proof (cases "length s \<le> n")
  case True
  then show ?thesis
    by (intro exI [of _ "[]"] exI [of _ "str_chars s"])
       (simp add: take_last_bytes_at_char_boundary_def fits_suffix_def)
next
  case False
  let ?cs = "rev (str_chars s)"
  have len: "length s = length (concat ?cs)"
    by (metis concat_str_chars length_concat rev_map sum_list_rev)
  have "[] \<notin> set ?cs" using str_chars_nonempty by auto
  from take_last_loop_fits [OF this len, of n 0] obtain b rest where
    "?cs = b @ rest \<and> take_last_loop n ?cs (length s) (length s, 0) = length (concat rest) \<and>
     (0 \<le> n \<longrightarrow> 0 + length (concat b) \<le> n) \<and>
     (rest = [] \<or> n < 0 + length (concat b) + length (hd rest))" by (elim exE)
  then have b: "?cs = b @ rest" "fits_prefix n b rest"
    "take_last_loop n ?cs (length s) (length s, 0) = length (concat rest)"
    unfolding fits_prefix_def by linarith+
  from b(1) have cs: "str_chars s = rev rest @ rev b" by (metis rev_append rev_rev_ident)
  then have "s = concat (rev rest) @ concat (rev b)" by (metis concat_append concat_str_chars)
  moreover have "length (concat (rev rest)) = length (concat rest)"
    by (metis length_concat rev_map sum_list_rev)
  ultimately have "drop (length (concat rest)) s = concat (rev b)" by (metis append_eq_conv_conj)
  with b False have "take_last_bytes_at_char_boundary s n = concat (rev b)"
    unfolding take_last_bytes_at_char_boundary_def by simp
  moreover from b have "fits_suffix n (rev rest) (rev b)" by (simp add: fits_suffix_rev)
  ultimately show ?thesis using cs by blast
qed

lemma take_bytes_unique:
  "str_chars s = a @ rest \<Longrightarrow> fits_prefix n a rest \<Longrightarrow> take_bytes_at_char_boundary s n = concat a"
  using take_bytes_fits [of s n] fits_prefix_unique by metis

lemma take_last_bytes_unique:
  "str_chars s = rest @ b \<Longrightarrow> fits_suffix n rest b \<Longrightarrow> take_last_bytes_at_char_boundary s n = concat b"
  using take_last_bytes_fits [of s n] fits_suffix_unique by metis

end
