(* ===== verification/Text_Truncation.thy ===== *)
theory Text_Truncation
  imports Response_Item String_Utils
begin

section \<open>Truncation of long outputs\<close>

text \<open>
  A model of \<^verbatim>\<open>codex-rs/core/src/truncate.rs\<close>: budgets in bytes or estimated tokens, the cut in
  the middle of a text at character boundaries, and the budget shared by the items of a
  tool output.  The theorems say which part of a text is kept, that it is as long as the
  budget allows, and what a list of items looks like after truncation.

  A budget times 1.2 is computed by the source in double precision; \<open>mul_f64\<close> writes the
  rounding out.
\<close>

subsection \<open>Budgets\<close>

definition APPROX_BYTES_PER_TOKEN :: nat where
  "APPROX_BYTES_PER_TOKEN = 4"

datatype truncation_policy = Bytes nat | Tokens nat

definition approx_token_count :: "string \<Rightarrow> nat" where
  "approx_token_count t =
     saturating_add (length t) (saturating_sub APPROX_BYTES_PER_TOKEN 1) div APPROX_BYTES_PER_TOKEN"

definition approx_bytes_for_tokens :: "nat \<Rightarrow> nat" where
  "approx_bytes_for_tokens n = saturating_mul n APPROX_BYTES_PER_TOKEN"

definition approx_tokens_from_byte_count :: "nat \<Rightarrow> nat" where
  "approx_tokens_from_byte_count n =
     saturating_add n (saturating_sub APPROX_BYTES_PER_TOKEN 1) div APPROX_BYTES_PER_TOKEN"

fun token_budget :: "truncation_policy \<Rightarrow> nat" where
  "token_budget (Bytes b) = approx_tokens_from_byte_count b"
| "token_budget (Tokens t) = t"

fun byte_budget :: "truncation_policy \<Rightarrow> nat" where
  "byte_budget (Bytes b) = b"
| "byte_budget (Tokens t) = approx_bytes_for_tokens t"

text \<open>Double precision: \<open>round53 n\<close> is the double nearest to the integer \<open>n\<close>, ties to even.\<close>

fun bit_length :: "nat \<Rightarrow> nat" where
  "bit_length n = (if n = 0 then 0 else Suc (bit_length (n div 2)))"

declare bit_length.simps [simp del]

definition round53 :: "nat \<Rightarrow> nat" where
  "round53 n =
     (let l = bit_length n in
      if l \<le> 53 then n
      else (let s = l - 53; q = n div 2 ^ s; r = n mod 2 ^ s; h = 2 ^ (s - 1)
            in (if h < r \<or> (r = h \<and> odd q) then q + 1 else q) * 2 ^ s))"

text \<open>\<open>(n as f64 * x).ceil() as usize\<close> for the double \<open>x = m / 2^52\<close>.\<close>

definition mul_f64 :: "nat \<Rightarrow> nat \<Rightarrow> nat" where
  "mul_f64 n m = min usize_max ((round53 (round53 n * m) + (2 ^ 52 - 1)) div 2 ^ 52)"

text \<open>The double nearest to 1.2.\<close>

definition F64_1_2 :: nat where
  "F64_1_2 = 5404319552844595"

fun policy_mul :: "truncation_policy \<Rightarrow> nat \<Rightarrow> truncation_policy" where
  "policy_mul (Bytes b) m = Bytes (mul_f64 b m)"
| "policy_mul (Tokens t) m = Tokens (mul_f64 t m)"

subsection \<open>Cutting a text\<close>

text \<open>The loop of \<open>split_string\<close> over \<open>char_indices\<close>: its state is the end of the prefix, the
  start of the suffix once it has begun, and the number of removed characters.\<close>

fun split_loop ::
  "nat \<Rightarrow> nat \<Rightarrow> string list \<Rightarrow> nat \<Rightarrow> nat \<times> nat option \<times> nat \<Rightarrow> nat \<times> nat option \<times> nat"
where
  "split_loop beginning tail_start [] idx st = st"
| "split_loop beginning tail_start (ch # cs) idx (prefix_end, suffix_start, removed) =
     (let char_end = idx + length ch in
      split_loop beginning tail_start cs char_end
        (if char_end \<le> beginning then (char_end, suffix_start, removed)
         else if tail_start \<le> idx then
           (prefix_end, Some (case suffix_start of None \<Rightarrow> idx | Some i \<Rightarrow> i), removed)
         else (prefix_end, suffix_start, saturating_add removed 1)))"

definition split_string :: "string \<Rightarrow> nat \<Rightarrow> nat \<Rightarrow> nat \<times> string \<times> string" where
  "split_string s beginning end_bytes =
     (if s = [] then (0, [], [])
      else (let len = length s;
                (prefix_end, ss, removed) =
                  split_loop beginning (saturating_sub len end_bytes) (str_chars s) 0 (0, None, 0);
                suffix_start = (case ss of None \<Rightarrow> len | Some i \<Rightarrow> i);
                suffix_start = (if suffix_start < prefix_end then prefix_end else suffix_start)
            in (removed, take prefix_end s, drop suffix_start s)))"

definition split_budget :: "nat \<Rightarrow> nat \<times> nat" where
  "split_budget budget = (let left = budget div 2 in (left, budget - left))"

definition ellipsis :: string where
  "ellipsis = [CHR 0xE2, CHR 0x80, CHR 0xA6]"

definition format_truncation_marker :: "truncation_policy \<Rightarrow> nat \<Rightarrow> string" where
  "format_truncation_marker policy n =
     (case policy of
        Tokens _ \<Rightarrow> ellipsis @ nat_digits n @ '' tokens truncated'' @ ellipsis
      | Bytes _ \<Rightarrow> ellipsis @ nat_digits n @ '' chars truncated'' @ ellipsis)"

definition removed_units_for_source :: "truncation_policy \<Rightarrow> nat \<Rightarrow> nat \<Rightarrow> nat" where
  "removed_units_for_source policy removed_bytes removed_chars =
     (case policy of Tokens _ \<Rightarrow> approx_tokens_from_byte_count removed_bytes
      | Bytes _ \<Rightarrow> removed_chars)"

definition assemble_truncated_output :: "string \<Rightarrow> string \<Rightarrow> string \<Rightarrow> string" where
  "assemble_truncated_output pre suf marker = pre @ marker @ suf"

definition truncate_with_byte_estimate :: "string \<Rightarrow> truncation_policy \<Rightarrow> string" where
  "truncate_with_byte_estimate s policy =
     (if s = [] then []
      else (let total_chars = length (str_chars s); max_bytes = byte_budget policy in
        if max_bytes = 0 then
          format_truncation_marker policy (removed_units_for_source policy (length s) total_chars)
        else if length s \<le> max_bytes then s
        else (let (left_budget, right_budget) = split_budget max_bytes;
                  (removed_chars, left, right) = split_string s left_budget right_budget;
                  marker = format_truncation_marker policy
                    (removed_units_for_source policy (saturating_sub (length s) max_bytes) removed_chars)
              in assemble_truncated_output left right marker)))"

definition truncate_with_token_budget :: "string \<Rightarrow> truncation_policy \<Rightarrow> string \<times> nat option" where
  "truncate_with_token_budget s policy =
     (if s = [] then ([], None)
      else (let max_tokens = token_budget policy in
        if 0 < max_tokens \<and> length s \<le> approx_bytes_for_tokens max_tokens then (s, None)
        else (let truncated = truncate_with_byte_estimate s policy; approx_total = approx_token_count s in
          if truncated = s then (truncated, None) else (truncated, Some approx_total))))"

definition truncate_text :: "string \<Rightarrow> truncation_policy \<Rightarrow> string" where
  "truncate_text content policy =
     (case policy of
        Bytes _ \<Rightarrow> truncate_with_byte_estimate content policy
      | Tokens _ \<Rightarrow> fst (truncate_with_token_budget content policy))"

definition formatted_truncate_text :: "string \<Rightarrow> truncation_policy \<Rightarrow> string" where
  "formatted_truncate_text content policy =
     (if length content \<le> byte_budget policy then content
      else ''Total output lines: '' @ nat_digits (length (str_lines content)) @ [nl, nl] @
           truncate_text content policy)"

subsection \<open>Truncating the items of a tool output\<close>

definition fco_texts :: "fco_content_item list \<Rightarrow> string list" where
  "fco_texts items = concat (map (\<lambda>i. case i of FcoText t \<Rightarrow> [t] | FcoImage _ _ \<Rightarrow> []) items)"

definition fco_images :: "fco_content_item list \<Rightarrow> fco_content_item list" where
  "fco_images items = filter (\<lambda>i. case i of FcoText _ \<Rightarrow> False | FcoImage _ _ \<Rightarrow> True) items"

fun combine_texts :: "string \<Rightarrow> string list \<Rightarrow> string" where
  "combine_texts combined [] = combined"
| "combine_texts combined (t # ts) =
     combine_texts ((if combined \<noteq> [] then combined @ [nl] else combined) @ t) ts"

definition formatted_truncate_text_content_items_with_policy ::
  "fco_content_item list \<Rightarrow> truncation_policy \<Rightarrow> fco_content_item list \<times> nat option"
where
  "formatted_truncate_text_content_items_with_policy items policy =
     (let text_segments = fco_texts items in
      if text_segments = [] then (items, None)
      else (let combined = combine_texts [] text_segments in
        if length combined \<le> byte_budget policy then (items, None)
        else (FcoText (formatted_truncate_text combined policy) # fco_images items,
              Some (approx_token_count combined))))"

definition policy_like :: "truncation_policy \<Rightarrow> nat \<Rightarrow> truncation_policy" where
  "policy_like policy n = (case policy of Bytes _ \<Rightarrow> Bytes n | Tokens _ \<Rightarrow> Tokens n)"

definition text_cost :: "truncation_policy \<Rightarrow> string \<Rightarrow> nat" where
  "text_cost policy t = (case policy of Bytes _ \<Rightarrow> length t | Tokens _ \<Rightarrow> approx_token_count t)"

text \<open>The loop over the items; its state is the output, the remaining budget and the number of
  omitted text items.\<close>

fun items_loop ::
  "truncation_policy \<Rightarrow> fco_content_item list \<Rightarrow> fco_content_item list \<times> nat \<times> nat \<Rightarrow>
   fco_content_item list \<times> nat \<times> nat"
where
  "items_loop policy [] st = st"
| "items_loop policy (FcoText t # is) (out, remaining, omitted) =
     (if remaining = 0 then items_loop policy is (out, remaining, omitted + 1)
      else (let cost = text_cost policy t in
        if cost \<le> remaining then
          items_loop policy is (out @ [FcoText t], saturating_sub remaining cost, omitted)
        else (let snippet = truncate_text t (policy_like policy remaining) in
          if snippet = [] then items_loop policy is (out, 0, omitted + 1)
          else items_loop policy is (out @ [FcoText snippet], 0, omitted))))"
| "items_loop policy (FcoImage u d # is) (out, remaining, omitted) =
     items_loop policy is (out @ [FcoImage u d], remaining, omitted)"

definition truncate_function_output_items_with_policy ::
  "fco_content_item list \<Rightarrow> truncation_policy \<Rightarrow> fco_content_item list"
where
  "truncate_function_output_items_with_policy items policy =
     (let budget = (case policy of Bytes _ \<Rightarrow> byte_budget policy | Tokens _ \<Rightarrow> token_budget policy);
          (out, _, omitted) = items_loop policy items ([], budget, 0)
      in if 0 < omitted then out @ [FcoText (''[omitted '' @ nat_digits omitted @ '' text items ...]'')]
         else out)"

subsection \<open>Which part of a text is kept\<close>

lemma saturating_add_Suc: "r < usize_max \<Longrightarrow> saturating_add r 1 = Suc r"
  by (simp add: saturating_add_def)

text \<open>Once a character does not fit in the prefix, no later one does.\<close>

definition prefix_done :: "nat \<Rightarrow> string list \<Rightarrow> nat \<Rightarrow> bool" where
  "prefix_done n cs idx = (cs = [] \<or> n < idx + length (hd cs))"

lemma prefix_done_tl:
  "prefix_done n (ch # cs) idx \<Longrightarrow> [] \<notin> set cs \<Longrightarrow> prefix_done n cs (idx + length ch)"
  by (cases cs) (auto simp: prefix_done_def)

lemma split_loop_suffix:
  assumes "prefix_done n cs idx" and "tl0 \<le> idx" and "[] \<notin> set cs"
  shows "split_loop n tl0 cs idx (p, Some i, r) = (p, Some i, r)"
  using assms
proof (induction cs arbitrary: idx)
  case (Cons ch cs)
  from Cons.prems have "prefix_done n cs (idx + length ch)" by (intro prefix_done_tl) auto
  with Cons show ?case by (simp add: Let_def prefix_done_def)
qed simp

lemma split_loop_middle:
  assumes "prefix_done n cs idx" and "[] \<notin> set cs" and "r + length cs \<le> usize_max"
  shows "\<exists>m b. cs = m @ b \<and>
     split_loop n tl0 cs idx (p, None, r) =
       (p, if b = [] then None else Some (idx + length (concat m)), r + length m) \<and>
     (b \<noteq> [] \<longrightarrow> tl0 \<le> idx + length (concat m)) \<and>
     (m \<noteq> [] \<longrightarrow> idx + length (concat (butlast m)) < tl0)"
  using assms
proof (induction cs arbitrary: idx r)
  case (Cons ch cs)
  from Cons.prems have done': "prefix_done n cs (idx + length ch)" by (intro prefix_done_tl) auto
  from Cons.prems have fit: "\<not> idx + length ch \<le> n" by (simp add: prefix_done_def)
  show ?case
  proof (cases "tl0 \<le> idx")
    case True
    with done' Cons.prems have "split_loop n tl0 cs (idx + length ch) (p, Some idx, r) = (p, Some idx, r)"
      by (intro split_loop_suffix) auto
    with True fit show ?thesis
      by (intro exI [of _ "[]"] exI [of _ "ch # cs"]) (simp add: Let_def)
  next
    case False
    from Cons.prems have "[] \<notin> set cs" "Suc r + length cs \<le> usize_max" by auto
    from Cons.IH [OF done' this] obtain m b where IH: "cs = m @ b"
      "split_loop n tl0 cs (idx + length ch) (p, None, Suc r) =
        (p, if b = [] then None else Some (idx + length ch + length (concat m)), Suc r + length m)"
      "b \<noteq> [] \<longrightarrow> tl0 \<le> idx + length ch + length (concat m)"
      "m \<noteq> [] \<longrightarrow> idx + length ch + length (concat (butlast m)) < tl0" by blast
    from Cons.prems have "saturating_add r 1 = Suc r" by (intro saturating_add_Suc) simp
    with IH False fit show ?thesis
      by (intro exI [of _ "ch # m"] exI [of _ b]) (simp add: Let_def add.assoc)
  qed
qed simp

lemma split_loop_prefix:
  assumes "[] \<notin> set cs"
  shows "\<exists>a rest. cs = a @ rest \<and>
     split_loop n tl0 cs idx (idx, None, r) =
       split_loop n tl0 rest (idx + length (concat a)) (idx + length (concat a), None, r) \<and>
     (idx \<le> n \<longrightarrow> idx + length (concat a) \<le> n) \<and> prefix_done n rest (idx + length (concat a))"
  using assms
proof (induction cs arbitrary: idx)
  case Nil
  then show ?case by (simp add: prefix_done_def)
next
  case (Cons ch cs)
  show ?case
  proof (cases "idx + length ch \<le> n")
    case True
    from Cons.prems have "[] \<notin> set cs" by simp
    from Cons.IH [OF this, of "idx + length ch"] obtain a rest where IH: "cs = a @ rest"
      "split_loop n tl0 cs (idx + length ch) (idx + length ch, None, r) =
        split_loop n tl0 rest (idx + length ch + length (concat a)) (idx + length ch + length (concat a), None, r)"
      "idx + length ch + length (concat a) \<le> n" "prefix_done n rest (idx + length ch + length (concat a))"
      using True by blast
    with True show ?thesis by (intro exI [of _ "ch # a"] exI [of _ rest]) (simp add: Let_def add.assoc)
  next
    case False
    then show ?thesis
      by (intro exI [of _ "[]"] exI [of _ "ch # cs"]) (simp add: prefix_done_def)
  qed
qed

lemma length_le_concat: "[] \<notin> set cs \<Longrightarrow> length cs \<le> length (concat cs)"
proof (induction cs)
  case (Cons c cs)
  then show ?case by (cases c) auto
qed simp

text \<open>The text is cut into the longest prefix, the longest suffix of what is left, and the
  characters between them.\<close>

lemma split_string_spec:
  assumes "length s \<le> usize_max"
  shows "\<exists>a m b. str_chars s = a @ m @ b \<and> split_string s n k = (length m, concat a, concat b) \<and>
     fits_prefix n a (m @ b) \<and> length (concat b) \<le> k \<and>
     (m \<noteq> [] \<longrightarrow> fits_suffix k (a @ m) b)"
proof (cases "s = []")
  case True
  then show ?thesis by (simp add: split_string_def fits_prefix_def)
next
  case False
  let ?tl = "length s - k"
  have ne: "[] \<notin> set (str_chars s)" using str_chars_nonempty by blast
  from split_loop_prefix [OF ne, of n ?tl 0 0] obtain a rest where a: "str_chars s = a @ rest"
    "split_loop n ?tl (str_chars s) 0 (0, None, 0) =
      split_loop n ?tl rest (length (concat a)) (length (concat a), None, 0)"
    "length (concat a) \<le> n" "prefix_done n rest (length (concat a))"
    by (metis add_0 zero_le)
  have s: "s = concat a @ concat rest" by (metis a(1) concat_append concat_str_chars)
  have "length rest \<le> length (concat rest)" by (rule length_le_concat) (use ne a(1) in auto)
  moreover from s have "length (concat rest) \<le> length s" by (metis length_append le_add2)
  ultimately have "0 + length rest \<le> usize_max" using assms by linarith
  moreover have "[] \<notin> set rest" using ne a(1) by auto
  ultimately obtain m b where m: "rest = m @ b"
    "split_loop n ?tl rest (length (concat a)) (length (concat a), None, 0) =
      (length (concat a), if b = [] then None else Some (length (concat a) + length (concat m)), 0 + length m)"
    "b \<noteq> [] \<longrightarrow> ?tl \<le> length (concat a) + length (concat m)"
    "m \<noteq> [] \<longrightarrow> length (concat a) + length (concat (butlast m)) < ?tl"
    using split_loop_middle [OF a(4), of 0 ?tl "length (concat a)"] by blast
  have len: "length s = length (concat a) + length (concat m) + length (concat b)"
    using arg_cong [OF s, of length] m(1) by (simp del: length_concat)
  have "split_string s n k = (length m, concat a, concat b)"
  proof -
    have "take (length (concat a)) s = concat a" by (metis s append_eq_conv_conj)
    moreover have "drop (length (concat a) + length (concat m)) s = concat b"
      using s m(1) by (metis append.assoc append_eq_conv_conj concat_append length_append)
    ultimately show ?thesis
      using False a(2) m(2) len by (simp add: split_string_def Let_def del: length_concat)
  qed
  moreover have "fits_prefix n a (m @ b)"
    using a(3,4) m(1) by (simp add: fits_prefix_def prefix_done_def del: length_concat)
  moreover have "length (concat b) \<le> k" using m(3) len by (cases "b = []") (auto simp del: length_concat)
  moreover have "fits_suffix k (a @ m) b" if "m \<noteq> []"
  proof -
    have "length (concat m) = length (concat (butlast m)) + length (last m)"
      using that by (metis append_butlast_last_id concat.simps concat_append append_Nil2 length_append)
    with m(4) that len have "k < length (last m) + length (concat b)" by linarith
    with calculation(3) that show ?thesis by (simp add: fits_suffix_def del: length_concat)
  qed
  ultimately show ?thesis using a(1) m(1) by blast
qed

lemma str_chars_concat: "list_all char_ok m \<Longrightarrow> str_chars (concat m) = m"
proof (induction m)
  case (Cons c m)
  from Cons.prems have c: "char_ok c" and m: "list_all char_ok m" by simp_all
  have "str_chars c = [c]"
  proof (cases c)
    case (Cons x xs)
    with c have "list_all is_cont_byte xs" by (simp add: char_ok_def)
    then have "takeWhile is_cont_byte xs = xs" "dropWhile is_cont_byte xs = []"
      by (simp_all add: list_all_iff takeWhile_eq_all_conv dropWhile_eq_Nil_conv)
    then show ?thesis unfolding Cons str_chars.simps by (simp only: str_chars.simps)
  qed (use c in \<open>simp add: char_ok_def\<close>)
  with Cons.IH [OF m] chars_ok_start [OF m] show ?case by (simp add: str_chars_append)
qed simp

lemma truncate_text_cases:
  "truncate_text s p =
     (if s = [] then []
      else if byte_budget p = 0 then
        format_truncation_marker p (removed_units_for_source p (length s) (length (str_chars s)))
      else if length s \<le> byte_budget p then s
      else (let (removed, left, right) =
              split_string s (byte_budget p div 2) (byte_budget p - byte_budget p div 2)
            in left @ format_truncation_marker p
                 (removed_units_for_source p (length s - byte_budget p) removed) @ right))"
proof -
  have "truncate_text s p = truncate_with_byte_estimate s p"
  proof (cases p)
    case (Tokens t)
    have "approx_bytes_for_tokens t = 0 \<longleftrightarrow> t = 0"
      by (auto simp: approx_bytes_for_tokens_def saturating_mul_def usize_max_def
          APPROX_BYTES_PER_TOKEN_def min_def)
    with Tokens show ?thesis
      by (auto simp: truncate_text_def truncate_with_token_budget_def truncate_with_byte_estimate_def Let_def)
  qed (simp add: truncate_text_def)
  then show ?thesis
    by (simp add: truncate_with_byte_estimate_def split_budget_def assemble_truncated_output_def Let_def
        cong: if_cong)
qed

text \<open>C27: truncation keeps both ends of a text.  A text within the budget is returned as it is.
  Of a longer one the result is the longest prefix within half of the budget that does not
  cut a character, a marker, and the longest such suffix within the other half; the marker
  reports the characters between them, or under a token budget the estimated tokens beyond
  the budget.  With no budget only the marker remains.\<close>

theorem truncate_text_keeps_ends:
  assumes "str_start s" and "length s \<le> usize_max"
  shows
    "let b = byte_budget p;
         left = take_bytes_at_char_boundary s (b div 2);
         right = take_last_bytes_at_char_boundary s (b - b div 2);
         mid = drop (length left) (take (length s - length right) s)
     in if length s \<le> b then truncate_text s p = s
        else s = left @ mid @ right \<and> mid \<noteq> [] \<and>
          truncate_text s p = left @ format_truncation_marker p
            (removed_units_for_source p (length s - b) (length (str_chars mid))) @ right"
proof (cases "length s \<le> byte_budget p")
  case True
  then show ?thesis by (auto simp: truncate_text_cases Let_def)
next
  case False
  define b where "b = byte_budget p"
  let ?n = "b div 2" and ?k = "b - b div 2"
  from split_string_spec [OF assms(2), of ?n ?k] obtain a m c where split:
    "str_chars s = a @ m @ c" "split_string s ?n ?k = (length m, concat a, concat c)"
    "fits_prefix ?n a (m @ c)" "length (concat c) \<le> ?k" "m \<noteq> [] \<longrightarrow> fits_suffix ?k (a @ m) c" by blast
  have s: "s = concat a @ concat m @ concat c" by (metis split(1) concat_append concat_str_chars)
  have "length (concat a) \<le> ?n" using split(3) by (simp add: fits_prefix_def)
  then have "concat m \<noteq> []"
    using split(4) False arg_cong [OF s, of length] unfolding b_def
    by (metis add_0 add_le_mono div_le_dividend le_add_diff_inverse length_append list.size(3))
  then have m: "m \<noteq> []" "concat m \<noteq> []" by auto
  have left: "take_bytes_at_char_boundary s ?n = concat a"
    using take_bytes_unique [OF split(1,3)] .
  have "str_chars s = (a @ m) @ c" using split(1) by simp
  then have right: "take_last_bytes_at_char_boundary s ?k = concat c"
    using take_last_bytes_unique split(5) m(1) by blast
  have mid: "drop (length (concat a)) (take (length s - length (concat c)) s) = concat m"
    by (subst (1 2) s) (simp del: length_concat)
  have "list_all char_ok m" using str_chars_ok [OF assms(1)] split(1) by simp
  then have "str_chars (concat m) = m" by (rule str_chars_concat)
  moreover have "truncate_text s p = concat a @ format_truncation_marker p
      (removed_units_for_source p (length s - b) (length m)) @ concat c"
  proof (cases "b = 0")
    case True
    with left right have "concat a = []" "concat c = []"
      using \<open>length (concat a) \<le> ?n\<close> split(4) by (simp_all del: length_concat)
    moreover have "a = []" "c = []"
      using calculation str_chars_nonempty [of _ s] split(1) by fastforce+
    moreover have "s \<noteq> []" using s m(2) by auto
    ultimately show ?thesis using True split(1) unfolding b_def by (simp add: truncate_text_cases)
  next
    case False
    with \<open>\<not> length s \<le> byte_budget p\<close> split(2) s m show ?thesis unfolding b_def
      by (auto simp: truncate_text_cases)
  qed
  ultimately show ?thesis
    using False s m left right mid unfolding b_def [symmetric] Let_def by simp
qed

theorem truncate_text_keeps_ends_witness:
  "truncate_text ''abcdefghij'' (Bytes 5) =
     ''ab'' @ format_truncation_marker (Bytes 5) 5 @ ''hij''"
proof -
  have "str_start ''abcdefghij''" by code_simp
  moreover have "length ''abcdefghij'' \<le> usize_max" by (simp add: usize_max_def)
  moreover have "take_bytes_at_char_boundary ''abcdefghij'' 2 = ''ab''" by code_simp
  moreover have "take_last_bytes_at_char_boundary ''abcdefghij'' 3 = ''hij''" by code_simp
  moreover have "length (str_chars ''cdefg'') = 5" by code_simp
  ultimately show ?thesis
    using truncate_text_keeps_ends [of "''abcdefghij''" "Bytes 5"]
    by (simp add: Let_def removed_units_for_source_def)
qed

subsection \<open>What is left of a list of items\<close>

text \<open>The specification: texts are kept in order while they fit, the first that does not is
  truncated to what is left, and the others are counted.\<close>

fun keep_texts :: "truncation_policy \<Rightarrow> nat \<Rightarrow> string list \<Rightarrow> string list \<times> nat" where
  "keep_texts p budget [] = ([], 0)"
| "keep_texts p budget (t # ts) =
     (if budget = 0 then ([], Suc (length ts))
      else if text_cost p t \<le> budget then
        (let (kept, omitted) = keep_texts p (budget - text_cost p t) ts in (t # kept, omitted))
      else ([truncate_text t (policy_like p budget)], length ts))"

definition omission_note :: "nat \<Rightarrow> string list" where
  "omission_note n = (if 0 < n then [''[omitted '' @ nat_digits n @ '' text items ...]''] else [])"

definition items_budget :: "truncation_policy \<Rightarrow> nat" where
  "items_budget p = (case p of Bytes b \<Rightarrow> b | Tokens t \<Rightarrow> t)"

lemma fco_texts_simps [simp]:
  "fco_texts [] = []" "fco_texts (FcoText t # is) = t # fco_texts is"
  "fco_texts (FcoImage u d # is) = fco_texts is" "fco_texts (is @ js) = fco_texts is @ fco_texts js"
  by (simp_all add: fco_texts_def)

lemma fco_images_simps [simp]:
  "fco_images [] = []" "fco_images (FcoText t # is) = fco_images is"
  "fco_images (FcoImage u d # is) = FcoImage u d # fco_images is"
  "fco_images (is @ js) = fco_images is @ fco_images js"
  by (simp_all add: fco_images_def)

lemma format_truncation_marker_nonempty [simp]: "format_truncation_marker p n \<noteq> []"
  by (cases p) (simp_all add: format_truncation_marker_def ellipsis_def)

lemma truncate_text_empty_iff [simp]: "truncate_text t p = [] \<longleftrightarrow> t = []"
  by (auto simp: truncate_text_cases split: prod.splits)

lemma text_cost_pos [simp]: "0 < text_cost p t \<longleftrightarrow> t \<noteq> []"
proof (cases p)
  case (Tokens n)
  have "4 \<le> min usize_max (length t + 3) \<longleftrightarrow> t \<noteq> []"
    by (cases t) (simp_all add: usize_max_def)
  then show ?thesis using Tokens
    by (simp add: text_cost_def approx_token_count_def saturating_add_def APPROX_BYTES_PER_TOKEN_def
        div_greater_zero_iff)
qed (simp add: text_cost_def)

lemma items_loop_spec:
  assumes "items_loop p items (out, budget, omitted) = (out', budget', omitted')"
  shows "fco_images out' = fco_images out @ fco_images items"
    and "fco_texts out' = fco_texts out @ fst (keep_texts p budget (fco_texts items))"
    and "omitted' = omitted + snd (keep_texts p budget (fco_texts items))"
proof -
  have "fco_images out' = fco_images out @ fco_images items \<and>
      fco_texts out' = fco_texts out @ fst (keep_texts p budget (fco_texts items)) \<and>
      omitted' = omitted + snd (keep_texts p budget (fco_texts items))"
    using assms
  proof (induction p items "(out, budget, omitted)" arbitrary: out budget omitted rule: items_loop.induct)
    case (2 p t "is" out budget omitted)
    have zero: "keep_texts p 0 ts = ([], length ts)" for ts by (cases ts) simp_all
    consider "budget = 0" | "0 < budget" "text_cost p t \<le> budget" | "0 < budget" "budget < text_cost p t"
      by linarith
    then show ?case
    proof cases
      case 1
      with 2 show ?thesis by (simp add: zero)
    next
      case 2
      with "2.prems" "2.hyps"(2) show ?thesis by (simp add: Let_def split: prod.splits)
    next
      case 3
      then have "t \<noteq> []" using text_cost_pos [of p t] by linarith
      with 3 "2.prems" "2.hyps"(4) show ?thesis by (simp add: Let_def zero)
    qed
  qed simp_all
  then show "fco_images out' = fco_images out @ fco_images items"
    and "fco_texts out' = fco_texts out @ fst (keep_texts p budget (fco_texts items))"
    and "omitted' = omitted + snd (keep_texts p budget (fco_texts items))" by blast+
qed

text \<open>Truncating the items of a tool output keeps every image, in order, and of the texts
  those that fit the budget in order, the first that does not fit truncated to what is left
  of the budget, and a note with the number of the others.\<close>

lemma truncate_items_keep_texts:
  "let out = truncate_function_output_items_with_policy items p;
       (kept, omitted) = keep_texts p (items_budget p) (fco_texts items)
   in fco_images out = fco_images items \<and> fco_texts out = kept @ omission_note omitted"
proof -
  obtain out b omitted where loop: "items_loop p items ([], items_budget p, 0) = (out, b, omitted)"
    by (metis prod_cases3)
  have "(case p of Bytes _ \<Rightarrow> byte_budget p | Tokens _ \<Rightarrow> token_budget p) = items_budget p"
    by (cases p) (simp_all add: items_budget_def)
  with loop items_loop_spec [OF loop] show ?thesis
    by (simp add: truncate_function_output_items_with_policy_def Let_def omission_note_def
        split: prod.splits)
qed

text \<open>Non-empty texts within the budget are all kept, and then nothing changes.\<close>

lemma keep_texts_all:
  "[] \<notin> set ts \<Longrightarrow> sum_list (map (text_cost p) ts) \<le> budget \<Longrightarrow> keep_texts p budget ts = (ts, 0)"
proof (induction ts arbitrary: budget)
  case (Cons t ts)
  then have "0 < text_cost p t" "text_cost p t \<le> budget" by auto
  then have "0 < budget" by linarith
  with Cons show ?case by simp
qed simp

lemma items_loop_fit:
  assumes "[] \<notin> set (fco_texts items)" and "sum_list (map (text_cost p) (fco_texts items)) \<le> budget"
  shows "\<exists>b. items_loop p items (out, budget, 0) = (out @ items, b, 0)"
  using assms
proof (induction items arbitrary: out budget)
  case (Cons i "is")
  show ?case
  proof (cases i)
    case (FcoText t)
    with Cons.prems have "0 < text_cost p t" "text_cost p t \<le> budget" by auto
    then have "0 < budget" by linarith
    moreover from FcoText Cons.prems
    have "\<exists>b. items_loop p is (out @ [FcoText t], budget - text_cost p t, 0) =
        ((out @ [FcoText t]) @ is, b, 0)" by (intro Cons.IH) auto
    ultimately show ?thesis using FcoText \<open>text_cost p t \<le> budget\<close> by (simp add: Let_def)
  next
    case (FcoImage u d)
    with Cons.IH [of budget "out @ [FcoImage u d]"] Cons.prems show ?thesis by simp
  qed
qed simp

lemma truncate_items_fit:
  assumes "[] \<notin> set (fco_texts items)"
    and "sum_list (map (text_cost p) (fco_texts items)) \<le> items_budget p"
  shows "truncate_function_output_items_with_policy items p = items"
proof -
  have "(case p of Bytes _ \<Rightarrow> byte_budget p | Tokens _ \<Rightarrow> token_budget p) = items_budget p"
    by (cases p) (simp_all add: items_budget_def)
  with items_loop_fit [OF assms, of "[]"] show ?thesis
    by (auto simp: truncate_function_output_items_with_policy_def Let_def)
qed

end
