(* ===== verification/Context_History.thy ===== *)
theory Context_History
  imports Context_Normalize Text_Truncation
begin

section \<open>The history of a thread\<close>

text \<open>
  A model of \<^verbatim>\<open>codex-rs/core/src/context_manager/history.rs\<close> and of the token counters in
  \<^verbatim>\<open>codex-rs/protocol/src/protocol.rs\<close>: recording items, preparing the prompt, removing items
  from either end, rolling back user turns, and estimating the size of the context.

  A 64-bit signed integer is an \<open>int\<close>; \<open>i64_wrap\<close> is the overflow of \<open>+\<close> and \<open>-\<close> in a release
  build.  The JSON length of an item, base64 and the image decoder are library code: a
  record of functions.  The cache of image estimates is left out; it returns what the
  estimate returned for an image with the same digest.
\<close>

subsection \<open>Signed 64-bit arithmetic\<close>

definition i64_max :: int where
  "i64_max = 2 ^ 63 - 1"

definition i64_min :: int where
  "i64_min = - (2 ^ 63)"

definition i64_wrap :: "int \<Rightarrow> int" where
  "i64_wrap x = (x + 2 ^ 63) mod 2 ^ 64 - 2 ^ 63"

definition i64_saturating_add :: "int \<Rightarrow> int \<Rightarrow> int" where
  "i64_saturating_add a b = max i64_min (min i64_max (a + b))"

definition i64_saturating_sub :: "int \<Rightarrow> int \<Rightarrow> int" where
  "i64_saturating_sub a b = max i64_min (min i64_max (a - b))"

definition i64_of_usize :: "nat \<Rightarrow> int" where
  "i64_of_usize n = min i64_max (int n)"

definition approx_tokens_from_byte_count_i64 :: "int \<Rightarrow> int" where
  "approx_tokens_from_byte_count_i64 bytes =
     (if bytes \<le> 0 then 0 else i64_of_usize (approx_tokens_from_byte_count (nat bytes)))"

subsection \<open>Token counters\<close>

record token_usage =
  input_tokens :: int
  cached_input_tokens :: int
  output_tokens :: int
  reasoning_output_tokens :: int
  total_tokens :: int

record token_usage_info =
  total_token_usage :: token_usage
  last_token_usage :: token_usage
  model_context_window :: "int option"

definition token_usage_default :: token_usage where
  "token_usage_default = \<lparr>input_tokens = 0, cached_input_tokens = 0, output_tokens = 0,
     reasoning_output_tokens = 0, total_tokens = 0\<rparr>"

definition add_assign :: "token_usage \<Rightarrow> token_usage \<Rightarrow> token_usage" where
  "add_assign a b =
     \<lparr>input_tokens = i64_wrap (input_tokens a + input_tokens b),
      cached_input_tokens = i64_wrap (cached_input_tokens a + cached_input_tokens b),
      output_tokens = i64_wrap (output_tokens a + output_tokens b),
      reasoning_output_tokens = i64_wrap (reasoning_output_tokens a + reasoning_output_tokens b),
      total_tokens = i64_wrap (total_tokens a + total_tokens b)\<rparr>"

definition append_last_usage :: "token_usage_info \<Rightarrow> token_usage \<Rightarrow> token_usage_info" where
  "append_last_usage info u =
     info\<lparr>total_token_usage := add_assign (total_token_usage info) u, last_token_usage := u\<rparr>"

definition new_or_append ::
  "token_usage_info option \<Rightarrow> token_usage option \<Rightarrow> int option \<Rightarrow> token_usage_info option"
where
  "new_or_append info last_usage window =
     (if info = None \<and> last_usage = None then None
      else (let i = (case info of
                       Some i \<Rightarrow> i
                     | None \<Rightarrow> \<lparr>total_token_usage = token_usage_default,
                                last_token_usage = token_usage_default, model_context_window = window\<rparr>);
                i = (case last_usage of None \<Rightarrow> i | Some u \<Rightarrow> append_last_usage i u);
                i = (case window of None \<Rightarrow> i | Some w \<Rightarrow> i\<lparr>model_context_window := Some w\<rparr>)
            in Some i))"

definition fill_to_context_window :: "token_usage_info \<Rightarrow> int \<Rightarrow> token_usage_info" where
  "fill_to_context_window info window =
     (let previous_total = total_tokens (total_token_usage info);
          delta = max (i64_wrap (window - previous_total)) 0
      in info\<lparr>model_context_window := Some window,
              total_token_usage := token_usage_default\<lparr>total_tokens := window\<rparr>,
              last_token_usage := token_usage_default\<lparr>total_tokens := delta\<rparr>\<rparr>)"

definition full_context_window :: "int \<Rightarrow> token_usage_info" where
  "full_context_window window =
     fill_to_context_window \<lparr>total_token_usage = token_usage_default,
       last_token_usage = token_usage_default, model_context_window = Some window\<rparr> window"

subsection \<open>Kinds of items\<close>

fun is_api_message :: "'j response_item \<Rightarrow> bool" where
  "is_api_message (Message _ role _ _ _) = (role \<noteq> ''system'')"
| "is_api_message (GhostSnapshot _) = False"
| "is_api_message OtherItem = False"
| "is_api_message _ = True"

fun is_ghost_snapshot :: "'j response_item \<Rightarrow> bool" where
  "is_ghost_snapshot (GhostSnapshot _) = True"
| "is_ghost_snapshot _ = False"

fun is_model_generated_item :: "'j response_item \<Rightarrow> bool" where
  "is_model_generated_item (Message _ role _ _ _) = (role = ''assistant'')"
| "is_model_generated_item (FunctionCallOutput _ _) = False"
| "is_model_generated_item (ToolSearchOutput _ _ _ _) = False"
| "is_model_generated_item (CustomToolCallOutput _ _) = False"
| "is_model_generated_item (GhostSnapshot _) = False"
| "is_model_generated_item OtherItem = False"
| "is_model_generated_item _ = True"

fun is_codex_generated_item :: "'j response_item \<Rightarrow> bool" where
  "is_codex_generated_item (FunctionCallOutput _ _) = True"
| "is_codex_generated_item (ToolSearchOutput _ _ _ _) = True"
| "is_codex_generated_item (CustomToolCallOutput _ _) = True"
| "is_codex_generated_item (Message _ role _ _ _) = (role = ''developer'')"
| "is_codex_generated_item _ = False"

fun is_user_message :: "'j response_item \<Rightarrow> bool" where
  "is_user_message (Message _ role _ _ _) = (role = ''user'')"
| "is_user_message _ = False"

fun is_user_turn_boundary :: "'j response_item \<Rightarrow> bool" where
  "is_user_turn_boundary (Message _ role content _ _) =
     (role = ''user'' \<and> \<not> is_contextual_user_message_content content)"
| "is_user_turn_boundary _ = False"

definition user_message_positions :: "'j response_item list \<Rightarrow> nat list" where
  "user_message_positions items = filter (\<lambda>i. is_user_turn_boundary (items ! i)) [0..<length items]"

text \<open>\<open>rposition\<close>: the last index that satisfies a predicate.\<close>

definition rposition :: "('a \<Rightarrow> bool) \<Rightarrow> 'a list \<Rightarrow> nat option" where
  "rposition p xs = List.find (\<lambda>i. p (xs ! i)) (rev [0..<length xs])"

subsection \<open>Size estimates\<close>

record 'j size_env =
  json_length :: "'j response_item \<Rightarrow> nat option"
  decode_base64 :: "string \<Rightarrow> string option"
  image_dimensions :: "string \<Rightarrow> (nat \<times> nat) option"

definition estimate_reasoning_length :: "nat \<Rightarrow> nat" where
  "estimate_reasoning_length n = saturating_sub (saturating_mul n 3 div 4) 650"

definition RESIZED_IMAGE_BYTES_ESTIMATE :: int where
  "RESIZED_IMAGE_BYTES_ESTIMATE = 7373"

definition ORIGINAL_IMAGE_PATCH_SIZE :: int where
  "ORIGINAL_IMAGE_PATCH_SIZE = 32"

definition parse_base64_image_data_url :: "string \<Rightarrow> string option" where
  "parse_base64_image_data_url url =
     (if \<not> (case str_get_to url 5 of None \<Rightarrow> False | Some p \<Rightarrow> eq_ignore_ascii_case p ''data:'') then None
      else (case split_once (CHR '','') url of
        None \<Rightarrow> None
      | Some (metadata, payload) \<Rightarrow>
          (let parts = split_char (CHR '';'') (drop 5 metadata);
               mime_type = (case parts of [] \<Rightarrow> [] | m # _ \<Rightarrow> m);
               has_base64_marker = list_ex (\<lambda>part. eq_ignore_ascii_case part ''base64'') (drop 1 parts)
           in if \<not> (case str_get_to mime_type 6 of
                      None \<Rightarrow> False | Some p \<Rightarrow> eq_ignore_ascii_case p ''image/'') then None
              else if \<not> has_base64_marker then None
              else Some payload)))"

definition estimate_original_image_bytes :: "'j size_env \<Rightarrow> string \<Rightarrow> int option" where
  "estimate_original_image_bytes e url =
     (case parse_base64_image_data_url url of
        None \<Rightarrow> None
      | Some payload \<Rightarrow>
          (case decode_base64 e payload of
             None \<Rightarrow> None
           | Some bytes \<Rightarrow>
               (case image_dimensions e bytes of
                  None \<Rightarrow> None
                | Some (w, h) \<Rightarrow>
                    (let patch = ORIGINAL_IMAGE_PATCH_SIZE;
                         wide = i64_saturating_add (int w) (i64_saturating_sub patch 1) div patch;
                         high = i64_saturating_add (int h) (i64_saturating_sub patch 1) div patch;
                         count = min i64_max (wide * high)
                     in Some (i64_of_usize (approx_bytes_for_tokens (nat count)))))))"

definition accumulate_image ::
  "'j size_env \<Rightarrow> string \<times> image_detail option \<Rightarrow> int \<times> int \<Rightarrow> int \<times> int"
where
  "accumulate_image e img acc =
     (case parse_base64_image_data_url (fst img) of
        None \<Rightarrow> acc
      | Some payload \<Rightarrow>
          (i64_saturating_add (fst acc) (i64_of_usize (length payload)),
           i64_saturating_add (snd acc)
             (case snd img of
                Some Original \<Rightarrow>
                  (case estimate_original_image_bytes e (fst img) of
                     Some n \<Rightarrow> n | None \<Rightarrow> RESIZED_IMAGE_BYTES_ESTIMATE)
              | _ \<Rightarrow> RESIZED_IMAGE_BYTES_ESTIMATE)))"

definition content_images :: "content_item list \<Rightarrow> (string \<times> image_detail option) list" where
  "content_images cs = concat (map (\<lambda>c. case c of InputImage u \<Rightarrow> [(u, None)] | _ \<Rightarrow> []) cs)"

definition payload_images :: "fco_payload \<Rightarrow> (string \<times> image_detail option) list" where
  "payload_images p =
     (case payload_body p of
        BodyText _ \<Rightarrow> []
      | BodyItems is \<Rightarrow> concat (map (\<lambda>i. case i of FcoImage u d \<Rightarrow> [(u, d)] | FcoText _ \<Rightarrow> []) is))"

fun item_images :: "'j response_item \<Rightarrow> (string \<times> image_detail option) list" where
  "item_images (Message _ _ content _ _) = content_images content"
| "item_images (FunctionCallOutput _ out) = payload_images out"
| "item_images (CustomToolCallOutput _ out) = payload_images out"
| "item_images _ = []"

definition image_data_url_estimate_adjustment :: "'j size_env \<Rightarrow> 'j response_item \<Rightarrow> int \<times> int" where
  "image_data_url_estimate_adjustment e i = fold (accumulate_image e) (item_images i) (0, 0)"

definition estimate_by_json :: "'j size_env \<Rightarrow> 'j response_item \<Rightarrow> int" where
  "estimate_by_json e i =
     (let raw = (case json_length e i of Some n \<Rightarrow> i64_of_usize n | None \<Rightarrow> 0);
          (payload_bytes, replacement_bytes) = image_data_url_estimate_adjustment e i
      in if payload_bytes = 0 \<or> replacement_bytes = 0 then raw
         else i64_saturating_add (i64_saturating_sub raw payload_bytes) replacement_bytes)"

fun estimate_response_item_model_visible_bytes :: "'j size_env \<Rightarrow> 'j response_item \<Rightarrow> int" where
  "estimate_response_item_model_visible_bytes e (GhostSnapshot _) = 0"
| "estimate_response_item_model_visible_bytes e (Reasoning _ _ _ (Some content)) =
     i64_of_usize (estimate_reasoning_length (length content))"
| "estimate_response_item_model_visible_bytes e (Compaction content) =
     i64_of_usize (estimate_reasoning_length (length content))"
| "estimate_response_item_model_visible_bytes e item = estimate_by_json e item"

definition estimate_item_token_count :: "'j size_env \<Rightarrow> 'j response_item \<Rightarrow> int" where
  "estimate_item_token_count e i =
     approx_tokens_from_byte_count_i64 (estimate_response_item_model_visible_bytes e i)"

definition saturating_sum :: "int list \<Rightarrow> int" where
  "saturating_sum ns = foldl i64_saturating_add 0 ns"

subsection \<open>The context manager\<close>

record ('j, 'c) context_manager =
  cm_items :: "'j response_item list"
  cm_token_info :: "token_usage_info option"
  cm_reference_context_item :: "'c option"

definition new_context_manager :: "('j, 'c) context_manager" where
  "new_context_manager = \<lparr>cm_items = [], cm_token_info = new_or_append None None None,
     cm_reference_context_item = None\<rparr>"

definition set_token_info ::
  "('j, 'c) context_manager \<Rightarrow> token_usage_info option \<Rightarrow> ('j, 'c) context_manager"
where
  "set_token_info h info = h\<lparr>cm_token_info := info\<rparr>"

definition set_reference_context_item ::
  "('j, 'c) context_manager \<Rightarrow> 'c option \<Rightarrow> ('j, 'c) context_manager"
where
  "set_reference_context_item h item = h\<lparr>cm_reference_context_item := item\<rparr>"

definition set_token_usage_full :: "('j, 'c) context_manager \<Rightarrow> int \<Rightarrow> ('j, 'c) context_manager" where
  "set_token_usage_full h window =
     h\<lparr>cm_token_info :=
         (case cm_token_info h of
            Some info \<Rightarrow> Some (fill_to_context_window info window)
          | None \<Rightarrow> Some (full_context_window window))\<rparr>"

definition update_token_info ::
  "('j, 'c) context_manager \<Rightarrow> token_usage \<Rightarrow> int option \<Rightarrow> ('j, 'c) context_manager"
where
  "update_token_info h usage window =
     h\<lparr>cm_token_info := new_or_append (cm_token_info h) (Some usage) window\<rparr>"

definition truncate_function_output_payload :: "fco_payload \<Rightarrow> truncation_policy \<Rightarrow> fco_payload" where
  "truncate_function_output_payload out policy =
     \<lparr>payload_body =
        (case payload_body out of
           BodyText t \<Rightarrow> BodyText (truncate_text t policy)
         | BodyItems is \<Rightarrow> BodyItems (truncate_function_output_items_with_policy is policy)),
      payload_success = payload_success out\<rparr>"

definition process_item :: "'j response_item \<Rightarrow> truncation_policy \<Rightarrow> 'j response_item" where
  "process_item item policy =
     (let budget = policy_mul policy F64_1_2 in
      case item of
        FunctionCallOutput call_id out \<Rightarrow>
          FunctionCallOutput call_id (truncate_function_output_payload out budget)
      | CustomToolCallOutput call_id out \<Rightarrow>
          CustomToolCallOutput call_id (truncate_function_output_payload out budget)
      | _ \<Rightarrow> item)"

fun record_items ::
  "('j, 'c) context_manager \<Rightarrow> 'j response_item list \<Rightarrow> truncation_policy \<Rightarrow> ('j, 'c) context_manager"
where
  "record_items h [] policy = h"
| "record_items h (item # rest) policy =
     (if \<not> is_api_message item \<and> \<not> is_ghost_snapshot item then record_items h rest policy
      else record_items (h\<lparr>cm_items := cm_items h @ [process_item item policy]\<rparr>) rest policy)"

definition normalize_history ::
  "bool \<Rightarrow> input_modality list \<Rightarrow> ('j, 'c) context_manager \<Rightarrow> ('j, 'c) context_manager option"
where
  "normalize_history debug modalities h =
     (case ensure_call_outputs_present debug (cm_items h) of
        None \<Rightarrow> None
      | Some items \<Rightarrow>
          (case remove_orphan_outputs debug items of
             None \<Rightarrow> None
           | Some items \<Rightarrow>
               Some (h\<lparr>cm_items := strip_images_when_unsupported modalities
                 (rewrite_image_generation_calls_for_stateless_input items)\<rparr>)))"

definition for_prompt ::
  "bool \<Rightarrow> input_modality list \<Rightarrow> ('j, 'c) context_manager \<Rightarrow> 'j response_item list option"
where
  "for_prompt debug modalities h =
     (case normalize_history debug modalities h of
        None \<Rightarrow> None
      | Some h \<Rightarrow> Some (filter (\<lambda>i. \<not> is_ghost_snapshot i) (cm_items h)))"

definition estimate_token_count_with_base_instructions ::
  "'j size_env \<Rightarrow> ('j, 'c) context_manager \<Rightarrow> string \<Rightarrow> int option"
where
  "estimate_token_count_with_base_instructions e h instructions =
     (let base_tokens = i64_of_usize (approx_token_count instructions);
          items_tokens = saturating_sum (map (estimate_item_token_count e) (cm_items h))
      in Some (i64_saturating_add base_tokens items_tokens))"

definition remove_first_item :: "('j, 'c) context_manager \<Rightarrow> ('j, 'c) context_manager" where
  "remove_first_item h =
     (case cm_items h of [] \<Rightarrow> h
      | removed # items \<Rightarrow> h\<lparr>cm_items := remove_corresponding_for items removed\<rparr>)"

definition remove_last_item :: "('j, 'c) context_manager \<Rightarrow> ('j, 'c) context_manager \<times> bool" where
  "remove_last_item h =
     (if cm_items h = [] then (h, False)
      else (h\<lparr>cm_items := remove_corresponding_for (butlast (cm_items h)) (last (cm_items h))\<rparr>, True))"

definition replace_items :: "('j, 'c) context_manager \<Rightarrow> 'j response_item list \<Rightarrow> ('j, 'c) context_manager" where
  "replace_items h items = h\<lparr>cm_items := items\<rparr>"

definition replace_last_turn_images ::
  "('j, 'c) context_manager \<Rightarrow> string \<Rightarrow> ('j, 'c) context_manager \<times> bool"
where
  "replace_last_turn_images h placeholder =
     (case rposition (\<lambda>i. (case i of FunctionCallOutput _ _ \<Rightarrow> True | _ \<Rightarrow> False) \<or> is_user_message i)
             (cm_items h) of
        None \<Rightarrow> (h, False)
      | Some index \<Rightarrow>
          (case cm_items h ! index of
             FunctionCallOutput call_id out \<Rightarrow>
               (case payload_body out of
                  BodyText _ \<Rightarrow> (h, False)
                | BodyItems is \<Rightarrow>
                    (h\<lparr>cm_items := (cm_items h)[index := FunctionCallOutput call_id
                        (out\<lparr>payload_body := BodyItems
                          (map (\<lambda>c. case c of FcoImage _ _ \<Rightarrow> FcoText placeholder | _ \<Rightarrow> c) is)\<rparr>)]\<rparr>,
                     list_ex (\<lambda>c. case c of FcoImage _ _ \<Rightarrow> True | _ \<Rightarrow> False) is))
           | _ \<Rightarrow> (h, False)))"

definition drop_last_n_user_turns :: "('j, 'c) context_manager \<Rightarrow> nat \<Rightarrow> ('j, 'c) context_manager" where
  "drop_last_n_user_turns h num_turns =
     (if num_turns = 0 then h
      else (let snapshot = cm_items h; user_positions = user_message_positions snapshot in
        case user_positions of
          [] \<Rightarrow> replace_items h snapshot
        | first_user_idx # _ \<Rightarrow>
            (let cut_idx = (if length user_positions \<le> num_turns then first_user_idx
                            else user_positions ! (length user_positions - num_turns))
             in replace_items h (take cut_idx snapshot))))"

definition get_non_last_reasoning_items_tokens :: "'j size_env \<Rightarrow> ('j, 'c) context_manager \<Rightarrow> int" where
  "get_non_last_reasoning_items_tokens e h =
     (case rposition is_user_message (cm_items h) of
        None \<Rightarrow> 0
      | Some last_user_index \<Rightarrow>
          saturating_sum (map (estimate_item_token_count e)
            (filter (\<lambda>i. case i of Reasoning _ _ _ (Some _) \<Rightarrow> True | _ \<Rightarrow> False)
              (take last_user_index (cm_items h)))))"

definition items_after_last_model_generated_item :: "('j, 'c) context_manager \<Rightarrow> 'j response_item list" where
  "items_after_last_model_generated_item h =
     (let start = (case rposition is_model_generated_item (cm_items h) of
                     None \<Rightarrow> length (cm_items h) | Some index \<Rightarrow> saturating_add index 1)
      in drop start (cm_items h))"

definition get_total_token_usage :: "'j size_env \<Rightarrow> ('j, 'c) context_manager \<Rightarrow> bool \<Rightarrow> int" where
  "get_total_token_usage e h server_reasoning_included =
     (let last_tokens = (case cm_token_info h of
                           None \<Rightarrow> 0 | Some info \<Rightarrow> total_tokens (last_token_usage info));
          after = saturating_sum (map (estimate_item_token_count e) (items_after_last_model_generated_item h))
      in if server_reasoning_included then i64_saturating_add last_tokens after
         else i64_saturating_add
                (i64_saturating_add last_tokens (get_non_last_reasoning_items_tokens e h)) after)"

record total_token_usage_breakdown =
  last_api_response_total_tokens :: int
  all_history_items_model_visible_bytes :: int
  estimated_tokens_of_items_added_since_last_successful_api_response :: int
  estimated_bytes_of_items_added_since_last_successful_api_response :: int

definition get_total_token_usage_breakdown ::
  "'j size_env \<Rightarrow> ('j, 'c) context_manager \<Rightarrow> total_token_usage_breakdown"
where
  "get_total_token_usage_breakdown e h =
     (let last_usage = (case cm_token_info h of
                          None \<Rightarrow> token_usage_default | Some info \<Rightarrow> last_token_usage info);
          after = items_after_last_model_generated_item h
      in \<lparr>last_api_response_total_tokens = total_tokens last_usage,
          all_history_items_model_visible_bytes =
            saturating_sum (map (estimate_response_item_model_visible_bytes e) (cm_items h)),
          estimated_tokens_of_items_added_since_last_successful_api_response =
            saturating_sum (map (estimate_item_token_count e) after),
          estimated_bytes_of_items_added_since_last_successful_api_response =
            saturating_sum (map (estimate_response_item_model_visible_bytes e) after)\<rparr>)"

subsection \<open>The prompt\<close>

text \<open>Rewriting and stripping images keeps the keys.\<close>

lemma rewrite_image_call_keys [simp]:
  "call_key (rewrite_image_call i) = call_key i" "output_key (rewrite_image_call i) = output_key i"
  "needs_call (rewrite_image_call i) = needs_call i"
  by (cases i; simp add: Let_def)+

lemma strip_item_images_keys [simp]:
  "call_key (strip_item_images i) = call_key i" "output_key (strip_item_images i) = output_key i"
  "needs_call (strip_item_images i) = needs_call i"
  by (cases i; simp)+

lemma call_key_strip_rest [simp]: "\<not> is_ghost_snapshot i \<or> call_key i = None"
  by (cases i) simp_all

lemma keys_map:
  assumes "\<And>i. call_key (f i) = call_key i" and "\<And>i. output_key (f i) = output_key i"
  shows "call_keys (map f items) = call_keys items" "output_keys (map f items) = output_keys items"
proof -
  have "call_keys (map f items) = call_keys items \<and> output_keys (map f items) = output_keys items"
    using assms by (induction items) (simp_all add: item_simps)
  then show "call_keys (map f items) = call_keys items" "output_keys (map f items) = output_keys items"
    by blast+
qed

lemma paired_map:
  assumes "\<And>i. call_key (f i) = call_key i" and "\<And>i. output_key (f i) = output_key i"
    and "\<And>i. needs_call (f i) = needs_call i"
  shows "paired (map f items) = paired items"
proof -
  have "filter needs_call (map f items) = map f (filter needs_call items)"
    using assms(3) by (simp add: filter_map comp_def)
  then show ?thesis unfolding paired_def by (simp only: keys_map [of f, OF assms(1,2)])
qed

lemma ghost_keys: "is_ghost_snapshot i \<Longrightarrow> call_key i = None \<and> output_key i = None \<and> \<not> needs_call i"
  by (cases i) simp_all

lemma keys_without_ghosts:
  "call_keys (filter (\<lambda>i. \<not> is_ghost_snapshot i) items) = call_keys items"
  "output_keys (filter (\<lambda>i. \<not> is_ghost_snapshot i) items) = output_keys items"
  by (induction items) (auto simp: item_simps dest: ghost_keys)

lemma paired_without_ghosts: "paired (filter (\<lambda>i. \<not> is_ghost_snapshot i) items) = paired items"
proof -
  have "filter needs_call (filter (\<lambda>i. \<not> is_ghost_snapshot i) items) = filter needs_call items"
    by (induction items) (auto dest: ghost_keys)
  then show ?thesis by (simp only: paired_def keys_without_ghosts)
qed

definition prompt_item :: "input_modality list \<Rightarrow> 'j response_item \<Rightarrow> 'j response_item" where
  "prompt_item m i =
     (if ImageModality \<in> set m then rewrite_image_call i else strip_item_images (rewrite_image_call i))"

lemma prompt_item_keys [simp]:
  "call_key (prompt_item m i) = call_key i" "output_key (prompt_item m i) = output_key i"
  "needs_call (prompt_item m i) = needs_call i" "is_ghost_snapshot (prompt_item m i) = is_ghost_snapshot i"
  by (simp_all add: prompt_item_def) (cases i; simp add: Let_def)

lemma strip_images_none [simp]: "item_images (strip_item_images (rewrite_image_call i)) = []"
proof -
  have "content_images (map strip_content_image cs) = []" for cs
    by (induction cs) (auto simp: content_images_def strip_content_image_def split: content_item.splits)
  moreover have "payload_images (strip_payload_images p) = []" for p
    by (auto simp: payload_images_def strip_payload_images_def strip_fco_image_def
        split: fco_body.splits fco_content_item.splits)
  ultimately have strip: "item_images (strip_item_images j) = []" for j by (cases j) simp_all
  show ?thesis by (rule strip)
qed

lemma for_prompt_eq:
  assumes "normalize_pairs debug (cm_items h) = Some items"
  shows "for_prompt debug m h = Some (filter (\<lambda>i. \<not> is_ghost_snapshot i) (map (prompt_item m) items))"
proof -
  have "strip_images_when_unsupported m (rewrite_image_generation_calls_for_stateless_input items) =
      map (prompt_item m) items"
    by (simp add: prompt_item_def [abs_def] strip_images_when_unsupported_def
        rewrite_image_generation_calls_for_stateless_input_def)
  with assms show ?thesis
    by (cases "ensure_call_outputs_present debug (cm_items h)")
       (simp_all add: normalize_pairs_def for_prompt_def normalize_history_def)
qed

text \<open>C23: in a release build a prompt always comes out, and it is well formed: every call has an
  output and every output that needs one has a call, there are no ghost snapshots, and there
  are no images unless the model takes them.  Whatever is not an output is sent in its order,
  and a history that is already paired is sent complete.\<close>

theorem for_prompt_is_well_formed:
  "case for_prompt False m h of
     None \<Rightarrow> False
   | Some out \<Rightarrow>
       paired out \<and> list_all (\<lambda>i. \<not> is_ghost_snapshot i) out \<and>
       (ImageModality \<in> set m \<or> list_all (\<lambda>i. item_images i = []) out) \<and>
       filter (\<lambda>i. output_key i = None) out =
         map (prompt_item m) (filter (\<lambda>i. output_key i = None \<and> \<not> is_ghost_snapshot i) (cm_items h)) \<and>
       (if paired (cm_items h)
        then out = map (prompt_item m) (filter (\<lambda>i. \<not> is_ghost_snapshot i) (cm_items h)) else True)"
proof -
  obtain items where items: "normalize_pairs False (cm_items h) = Some items"
    by (simp add: normalize_pairs_eq)
  let ?out = "filter (\<lambda>i. \<not> is_ghost_snapshot i) (map (prompt_item m) items)"
  have "paired ?out" using normalized_paired [OF items] by (simp only: paired_without_ghosts paired_map prompt_item_keys)
  moreover have "ImageModality \<in> set m \<or> list_all (\<lambda>i. item_images i = []) ?out"
    by (auto simp: list_all_iff prompt_item_def)
  moreover have "filter (\<lambda>i. output_key i = None) ?out =
      map (prompt_item m) (filter (\<lambda>i. output_key i = None \<and> \<not> is_ghost_snapshot i) (cm_items h))"
  proof -
    have "filter (\<lambda>i. output_key i = None) ?out =
        map (prompt_item m) (filter (\<lambda>i. \<not> is_ghost_snapshot i) (filter (\<lambda>i. output_key i = None) items))"
      by (simp add: filter_map comp_def conj_commute)
    then show ?thesis by (simp add: normalize_pairs_keeps [OF items])
  qed
  moreover have "?out = map (prompt_item m) (filter (\<lambda>i. \<not> is_ghost_snapshot i) (cm_items h))"
    if "paired (cm_items h)"
    using paired_normalize_id [OF that, of False] items by (simp add: filter_map comp_def)
  ultimately show ?thesis by (simp add: for_prompt_eq [OF items] list_all_iff)
qed

subsection \<open>Removing items from either end\<close>

lemma paired_snoc: "paired (items @ [x]) = paired (x # items)"
  by (simp add: paired_def in_call_keys in_output_keys subset_iff)

lemma unique_ids_snoc: "unique_ids (items @ [x]) = unique_ids (x # items)"
  by (cases "call_key x"; cases "output_key x") (auto simp: unique_ids_def item_simps)

text \<open>Removing the oldest or the newest item removes its counterpart with it, so a history
  whose calls and outputs are paired, with one of each per call id, stays so without being
  normalised again.\<close>

lemma remove_item_keeps_pairs:
  assumes "paired (cm_items h)" and "unique_ids (cm_items h)"
  shows "paired (cm_items (remove_first_item h)) \<and> unique_ids (cm_items (remove_first_item h)) \<and>
    paired (cm_items (fst (remove_last_item h))) \<and> unique_ids (cm_items (fst (remove_last_item h)))"
proof -
  have "paired (cm_items (remove_first_item h)) \<and> unique_ids (cm_items (remove_first_item h))"
    using assms by (cases "cm_items h") (simp_all add: remove_first_item_def remove_corresponding_keeps_pairs)
  moreover have "paired (cm_items (fst (remove_last_item h))) \<and> unique_ids (cm_items (fst (remove_last_item h)))"
  proof (cases "cm_items h" rule: rev_cases)
    case (snoc items x)
    with assms have "paired (x # items)" "unique_ids (x # items)"
      by (simp_all only: paired_snoc unique_ids_snoc)
    with snoc show ?thesis by (simp add: remove_last_item_def remove_corresponding_keeps_pairs)
  qed (use assms in \<open>simp add: remove_last_item_def\<close>)
  ultimately show ?thesis by blast
qed

subsection \<open>Rolling back user turns\<close>

lemma positions_below:
  assumes "c \<le> length items"
  shows "filter is_user_turn_boundary (take c items) =
     map ((!) items) (filter (\<lambda>i. i < c) (user_message_positions items))"
proof -
  have "[0..<length items] = [0..<c] @ [c..<length items]"
    using assms upt_add_eq_append [of 0 c "length items - c"] by simp
  then have "filter (\<lambda>i. i < c) (user_message_positions items) =
      filter (\<lambda>i. is_user_turn_boundary (items ! i)) [0..<c]"
    unfolding user_message_positions_def by (auto simp: filter_empty_conv intro!: filter_cong)
  moreover have "take c items = map ((!) items) [0..<c]"
    using assms by (simp add: map_nth take_map [symmetric] list_eq_iff_nth_eq)
  ultimately show ?thesis by (simp add: filter_map comp_def)
qed

lemma sorted_filter_below:
  fixes ps :: "nat list"
  assumes "sorted_wrt (<) ps" and "j < length ps"
  shows "filter (\<lambda>i. i < ps ! j) ps = take j ps"
proof -
  have ps: "ps = take j ps @ ps ! j # drop (Suc j) ps" using assms(2) by (rule id_take_nth_drop)
  have "sorted_wrt (<) (take j ps @ ps ! j # drop (Suc j) ps)" using assms(1) ps by metis
  then have "\<forall>i \<in> set (take j ps). i < ps ! j" and "\<forall>i \<in> set (drop (Suc j) ps). ps ! j < i"
    by (auto simp: sorted_wrt_append)
  then have "filter (\<lambda>i. i < ps ! j) (take j ps @ ps ! j # drop (Suc j) ps) = take j ps"
    by (simp add: filter_empty_conv) (metis less_asym)
  then show ?thesis using ps by metis
qed

lemma cut_counts:
  assumes "j < length (user_message_positions items)"
  shows "length (filter is_user_turn_boundary (take (user_message_positions items ! j) items)) = j"
    and "user_message_positions items ! j < length items"
    and "is_user_turn_boundary (items ! (user_message_positions items ! j))"
proof -
  have sorted: "sorted_wrt (<) (user_message_positions items)"
    unfolding user_message_positions_def by (simp add: sorted_wrt_filter)
  have "user_message_positions items ! j \<in> set (user_message_positions items)" using assms by simp
  then show bound: "user_message_positions items ! j < length items"
    and "is_user_turn_boundary (items ! (user_message_positions items ! j))"
    by (auto simp: user_message_positions_def)
  show "length (filter is_user_turn_boundary (take (user_message_positions items ! j) items)) = j"
    using assms bound sorted by (simp add: positions_below sorted_filter_below)
qed

lemma count_positions: "length (user_message_positions items) = length (filter is_user_turn_boundary items)"
proof -
  have "filter (\<lambda>i. i < length items) (user_message_positions items) = user_message_positions items"
    by (simp only: user_message_positions_def filter_filter) (rule filter_cong; simp)
  then show ?thesis using positions_below [of "length items" items] by simp
qed

lemma take_before_first:
  assumes "user_message_positions items \<noteq> []"
  shows "take (user_message_positions items ! 0) items = takeWhile (\<lambda>i. \<not> is_user_turn_boundary i) items"
proof (rule takeWhile_eq_take_P_nth [symmetric])
  let ?k = "user_message_positions items ! 0"
  have len: "0 < length (user_message_positions items)" using assms by simp
  fix i assume i: "i < ?k" "i < length items"
  have "filter is_user_turn_boundary (take ?k items) = []" using cut_counts(1) [OF len] by simp
  moreover have "items ! i \<in> set (take ?k items)" using i by (metis in_set_conv_nth length_take min_less_iff_conj nth_take)
  ultimately show "\<not> is_user_turn_boundary (items ! i)" by (simp add: filter_empty_conv)
next
  have len: "0 < length (user_message_positions items)" using assms by simp
  show "\<not> \<not> is_user_turn_boundary (items ! (user_message_positions items ! 0))"
    using cut_counts(3) [OF len] by simp
qed

lemma drop_last_n_cases:
  assumes "0 < n"
  shows "cm_items (drop_last_n_user_turns h n) =
     (let ps = user_message_positions (cm_items h) in
      if ps = [] then cm_items h else take (ps ! (length ps - n)) (cm_items h))"
  using assms
  by (auto simp: drop_last_n_user_turns_def replace_items_def Let_def split: list.split)

text \<open>Rolling back \<open>n\<close> user turns keeps a prefix of the history that ends where a user turn
  begins, with \<open>n\<close> user turns fewer, or none if there are not that many.  What came before the
  first user turn is always kept, and the token counters are not touched.\<close>

lemma rollback_drops_last_turns:
  "let h' = drop_last_n_user_turns h n; old = cm_items h; new = cm_items h' in
   new = take (length new) old \<and>
   length (filter is_user_turn_boundary new) = length (filter is_user_turn_boundary old) - n \<and>
   (new = old \<or> is_user_turn_boundary (old ! length new)) \<and>
   prefix (takeWhile (\<lambda>i. \<not> is_user_turn_boundary i) old) new \<and>
   cm_token_info h' = cm_token_info h"
proof -
  let ?ps = "user_message_positions (cm_items h)"
  let ?new = "cm_items (drop_last_n_user_turns h n)"
  have info: "cm_token_info (drop_last_n_user_turns h n) = cm_token_info h"
    by (simp add: drop_last_n_user_turns_def replace_items_def Let_def split: list.split)
  consider "n = 0" | "0 < n" "?ps = []" | "0 < n" "?ps \<noteq> []" by blast
  then show ?thesis
  proof cases
    case 1
    then show ?thesis by (simp add: drop_last_n_user_turns_def takeWhile_is_prefix)
  next
    case 2
    then have "?new = cm_items h" by (simp add: drop_last_n_cases)
    moreover from 2 have "filter is_user_turn_boundary (cm_items h) = []"
      using count_positions [of "cm_items h"] by simp
    ultimately show ?thesis using info by (simp add: takeWhile_is_prefix Let_def)
  next
    case 3
    let ?j = "length ?ps - n"
    let ?k = "?ps ! ?j"
    from 3 have j: "?j < length ?ps" by simp
    note cut = cut_counts [OF j]
    from 3 have new: "?new = take ?k (cm_items h)" by (simp add: drop_last_n_cases Let_def)
    with cut(2) have len: "length ?new = ?k" by simp
    have "sorted_wrt (<) ?ps" by (simp add: user_message_positions_def sorted_wrt_filter)
    then have "?ps ! 0 \<le> ?k"
      using j by (cases "?j = 0") (auto simp: sorted_wrt_iff_nth_less less_imp_le)
    then have "prefix (take (?ps ! 0) (cm_items h)) ?new"
      unfolding new by (metis min.absorb1 take_is_prefix take_take)
    with take_before_first [OF 3(2)] have "prefix (takeWhile (\<lambda>i. \<not> is_user_turn_boundary i) (cm_items h)) ?new"
      by simp
    then show ?thesis
      unfolding Let_def using cut(1,3) len new info by (simp add: count_positions)
  qed
qed

subsection \<open>A full context window\<close>

lemma i64_wrap_id: "i64_min \<le> x \<Longrightarrow> x \<le> i64_max \<Longrightarrow> i64_wrap x = x"
  by (simp add: i64_wrap_def i64_min_def i64_max_def)

lemma items_after_token_info [simp]:
  "items_after_last_model_generated_item (h\<lparr>cm_token_info := info\<rparr>) = items_after_last_model_generated_item h"
  by (simp add: items_after_last_model_generated_item_def cong: option.case_cong)

text \<open>Marking the context window as full records as the usage of the last response what was
  left of the window after everything the thread has ever used.  For a thread that has used
  more than one window in total that is nothing, so the reported usage is only the estimate
  of the newest local items.\<close>

lemma full_window_reports_rest:
  assumes "cm_token_info h = Some info"
    and "0 \<le> total_tokens (total_token_usage info)" and "total_tokens (total_token_usage info) \<le> i64_max"
    and "0 \<le> window" and "window \<le> i64_max"
  shows "get_total_token_usage e (set_token_usage_full h window) True =
    i64_saturating_add (max (window - total_tokens (total_token_usage info)) 0)
      (saturating_sum (map (estimate_item_token_count e) (items_after_last_model_generated_item h)))"
proof -
  have "i64_wrap (window - total_tokens (total_token_usage info)) = window - total_tokens (total_token_usage info)"
    using assms(2-5) by (intro i64_wrap_id) (simp_all add: i64_min_def i64_max_def)
  then show ?thesis
    using assms(1) by (simp add: get_total_token_usage_def set_token_usage_full_def Let_def
        fill_to_context_window_def)
qed

end
