(* ===== verification/Turn_Item.thy ===== *)
theory Turn_Item
  imports Response_Item
begin

section \<open>Turn items\<close>

text \<open>
  A model of \<^verbatim>\<open>codex-rs/core/src/event_mapping.rs\<close>, \<^verbatim>\<open>codex-rs/core/src/web_search.rs\<close> and the item types of
  \<^verbatim>\<open>codex-rs/protocol/src/items.rs\<close>: what a recorded item is to the user.  A new random id
  is an argument.
\<close>

datatype user_input =
    UiText string
  | UiImage string
  | UiLocalImage string
  | UiSkill string string
  | UiMention string string

record user_message_item =
  um_id :: string
  um_content :: "user_input list"

record agent_message_item =
  am_id :: string
  am_content :: "string list"
  am_phase :: "message_phase option"

record reasoning_item =
  ri_id :: string
  ri_summary_text :: "string list"
  ri_raw_content :: "string list"

record web_search_item =
  ws_id :: string
  ws_query :: string
  ws_action :: web_search_action

record image_generation_item =
  ig_id :: string
  ig_status :: string
  ig_revised_prompt :: "string option"
  ig_result :: string
  ig_saved_path :: "string option"

datatype turn_item =
    TiUserMessage user_message_item
  | TiAgentMessage agent_message_item
  | TiPlan string string
  | TiReasoning reasoning_item
  | TiWebSearch web_search_item
  | TiImageGeneration image_generation_item
  | TiContextCompaction string

definition user_message_text :: "user_message_item \<Rightarrow> string" where
  "user_message_text u = concat (map (\<lambda>c. case c of UiText t \<Rightarrow> t | _ \<Rightarrow> []) (um_content u))"

subsection \<open>Web searches\<close>

definition search_action_detail :: "string option \<Rightarrow> string list option \<Rightarrow> string" where
  "search_action_detail query queries =
     (case query of
        Some q \<Rightarrow> if q \<noteq> [] then q else
          (case queries of None \<Rightarrow> [] | Some [] \<Rightarrow> []
           | Some (first # rest) \<Rightarrow> if rest \<noteq> [] \<and> first \<noteq> [] then first @ '' ...'' else first)
      | None \<Rightarrow>
          (case queries of None \<Rightarrow> [] | Some [] \<Rightarrow> []
           | Some (first # rest) \<Rightarrow> if rest \<noteq> [] \<and> first \<noteq> [] then first @ '' ...'' else first))"

fun web_search_action_detail :: "web_search_action \<Rightarrow> string" where
  "web_search_action_detail (WsSearch query queries) = search_action_detail query queries"
| "web_search_action_detail (WsOpenPage url) = (case url of None \<Rightarrow> [] | Some u \<Rightarrow> u)"
| "web_search_action_detail (WsFindInPage (Some url) (Some pat)) = [CHR 0x27] @ pat @ [CHR 0x27] @ '' in '' @ url"
| "web_search_action_detail (WsFindInPage None (Some pat)) = [CHR 0x27] @ pat @ [CHR 0x27]"
| "web_search_action_detail (WsFindInPage (Some url) None) = url"
| "web_search_action_detail (WsFindInPage None None) = []"
| "web_search_action_detail WsOther = []"

definition web_search_detail :: "web_search_action option \<Rightarrow> string \<Rightarrow> string" where
  "web_search_detail action query =
     (let detail = (case action of None \<Rightarrow> [] | Some a \<Rightarrow> web_search_action_detail a)
      in if detail = [] then query else detail)"

subsection \<open>Parsing recorded items\<close>

definition is_image_open_tag_text :: "string \<Rightarrow> bool" where
  "is_image_open_tag_text t = (t = ''<image>'')"

definition is_image_close_tag_text :: "string \<Rightarrow> bool" where
  "is_image_close_tag_text t = (t = ''</image>'')"

definition is_local_image_open_tag_text :: "string \<Rightarrow> bool" where
  "is_local_image_open_tag_text t =
     (case strip_prefix ''<image name='' t of None \<Rightarrow> False | Some rest \<Rightarrow> suffix ''>'' rest)"

definition is_local_image_close_tag_text :: "string \<Rightarrow> bool" where
  "is_local_image_close_tag_text t = is_image_close_tag_text t"

definition is_input_image :: "content_item list \<Rightarrow> nat \<Rightarrow> bool" where
  "is_input_image message i =
     (i < length message \<and> (case message ! i of InputImage _ \<Rightarrow> True | _ \<Rightarrow> False))"

text \<open>The loop over the content with its index; tags around an image are skipped.\<close>

definition parse_user_content :: "content_item list \<Rightarrow> user_input list" where
  "parse_user_content message =
     concat (map (\<lambda>(idx, c).
       case c of
         InputText t \<Rightarrow>
           (if ((is_local_image_open_tag_text t \<or> is_image_open_tag_text t) \<and> is_input_image message (idx + 1)) \<or>
               (0 < idx \<and> (is_local_image_close_tag_text t \<or> is_image_close_tag_text t) \<and>
                is_input_image message (idx - 1))
            then [] else [UiText t])
       | InputImage u \<Rightarrow> [UiImage u]
       | OutputText _ \<Rightarrow> []) (enumerate 0 message))"

definition parse_user_message :: "string \<Rightarrow> content_item list \<Rightarrow> user_message_item option" where
  "parse_user_message new_id message =
     (if is_contextual_user_message_content message then None
      else Some \<lparr>um_id = new_id, um_content = parse_user_content message\<rparr>)"

definition parse_agent_message ::
  "string \<Rightarrow> string option \<Rightarrow> content_item list \<Rightarrow> message_phase option \<Rightarrow> agent_message_item"
where
  "parse_agent_message new_id ident message phase =
     \<lparr>am_id = (case ident of Some i \<Rightarrow> i | None \<Rightarrow> new_id),
      am_content = concat (map (\<lambda>c. case c of OutputText t \<Rightarrow> [t] | _ \<Rightarrow> []) message),
      am_phase = phase\<rparr>"

fun parse_turn_item :: "string \<Rightarrow> 'j response_item \<Rightarrow> turn_item option" where
  "parse_turn_item new_id (Message ident role content _ phase) =
     (if role = ''user'' then map_option TiUserMessage (parse_user_message new_id content)
      else if role = ''assistant'' then Some (TiAgentMessage (parse_agent_message new_id ident content phase))
      else None)"
| "parse_turn_item new_id (Reasoning ident summary content _) =
     Some (TiReasoning \<lparr>ri_id = ident,
       ri_summary_text = map (\<lambda>SummaryText t \<Rightarrow> t) summary,
       ri_raw_content = map (\<lambda>c. case c of ReasoningText t \<Rightarrow> t | RcText t \<Rightarrow> t)
         (case content of None \<Rightarrow> [] | Some cs \<Rightarrow> cs)\<rparr>)"
| "parse_turn_item new_id (WebSearchCall ident _ action) =
     (let (action, query) = (case action of Some a \<Rightarrow> (a, web_search_action_detail a) | None \<Rightarrow> (WsOther, []))
      in Some (TiWebSearch \<lparr>ws_id = (case ident of None \<Rightarrow> [] | Some i \<Rightarrow> i), ws_query = query,
           ws_action = action\<rparr>))"
| "parse_turn_item new_id (ImageGenerationCall ident status revised_prompt result) =
     Some (TiImageGeneration \<lparr>ig_id = ident, ig_status = status, ig_revised_prompt = revised_prompt,
       ig_result = result, ig_saved_path = None\<rparr>)"
| "parse_turn_item new_id _ = None"

text \<open>The text of the user message an item is, if it is one.\<close>

definition user_text_of :: "'j response_item \<Rightarrow> string option" where
  "user_text_of i =
     (case parse_turn_item [] i of Some (TiUserMessage u) \<Rightarrow> Some (user_message_text u) | _ \<Rightarrow> None)"

lemma user_text_of_message:
  "user_text_of (Message ident role content et phase) =
     (if role = ''user'' \<and> \<not> is_contextual_user_message_content content
      then Some (user_message_text \<lparr>um_id = [], um_content = parse_user_content content\<rparr>) else None)"
  by (simp add: user_text_of_def parse_user_message_def)

lemma user_text_of_None: "\<not> (\<exists>ident content et phase. i = Message ident ''user'' content et phase) \<Longrightarrow> user_text_of i = None"
  by (cases i) (auto simp: user_text_of_def Let_def split: option.splits)

lemma user_text_single [simp]:
  "user_text_of (Message ident ''user'' [InputText t] et phase) =
     (if is_contextual_user_message_content [InputText t] then None else Some t)"
  by (simp add: user_text_of_message parse_user_content_def user_message_text_def is_input_image_def)

end
