(* ===== verification/Compaction.thy ===== *)
theory Compaction
  imports Context_History Turn_Item Citation Proposed_Plan
begin

section \<open>Compaction of a thread\<close>

text \<open>
  A model of \<^verbatim>\<open>codex-rs/core/src/compact.rs\<close>: the loop that asks the model for a summary and
  drops old items while the prompt is too long, and the history that replaces the thread.
  It uses the last message of the assistant without its hidden markup
  (\<^verbatim>\<open>stream_events_utils.rs\<close>), that is the functions on whole texts of the stream parsers.

  What a request to the model returns is a function of the number of the request and of the
  prompt.  Events shown to the user, the back-off delay and the session's locks are left out.
\<close>

subsection \<open>User messages and summaries\<close>

definition SUMMARY_PREFIX :: string where
  "SUMMARY_PREFIX = ''Another language model started to solve this problem and produced a summary of its thinking process. You also have access to the state of the tools that were used by that language model. Use this to build on the work that has already been done and avoid duplicating work. Here is the summary produced by the other language model, use the information in this summary to assist with your own analysis:''"

definition COMPACT_USER_MESSAGE_MAX_TOKENS :: nat where
  "COMPACT_USER_MESSAGE_MAX_TOKENS = 20000"

definition content_items_to_text :: "content_item list \<Rightarrow> string option" where
  "content_items_to_text content =
     (let pieces = concat (map (\<lambda>c. case c of
            InputText t \<Rightarrow> if t \<noteq> [] then [t] else []
          | OutputText t \<Rightarrow> if t \<noteq> [] then [t] else []
          | InputImage _ \<Rightarrow> []) content)
      in if pieces = [] then None else Some (join_str [nl] pieces))"

definition is_summary_message :: "string \<Rightarrow> bool" where
  "is_summary_message message = prefix (SUMMARY_PREFIX @ [nl]) message"

definition collect_user_messages :: "'j response_item list \<Rightarrow> string list" where
  "collect_user_messages items =
     List.map_filter (\<lambda>i. case parse_turn_item [] i of
         Some (TiUserMessage user) \<Rightarrow>
           if is_summary_message (user_message_text user) then None else Some (user_message_text user)
       | _ \<Rightarrow> None) items"

subsection \<open>The last message of the assistant\<close>

definition strip_hidden_assistant_markup :: "string \<Rightarrow> bool \<Rightarrow> string option" where
  "strip_hidden_assistant_markup t plan_mode =
     (case strip_citations t of
        None \<Rightarrow> None
      | Some (without_citations, _) \<Rightarrow>
          Some (if plan_mode then strip_proposed_plan_blocks without_citations else without_citations))"

definition raw_assistant_output_text_from_item :: "'j response_item \<Rightarrow> string option" where
  "raw_assistant_output_text_from_item item =
     (case item of
        Message _ role content _ _ \<Rightarrow>
          if role = ''assistant''
          then Some (concat (map (\<lambda>c. case c of OutputText t \<Rightarrow> t | _ \<Rightarrow> []) content))
          else None
      | _ \<Rightarrow> None)"

text \<open>The outer option is the loop of the citation parser, which has fuel.\<close>

definition last_assistant_message_from_item :: "'j response_item \<Rightarrow> bool \<Rightarrow> string option option" where
  "last_assistant_message_from_item item plan_mode =
     (case raw_assistant_output_text_from_item item of
        None \<Rightarrow> Some None
      | Some combined \<Rightarrow>
          if combined = [] then Some None
          else (case strip_hidden_assistant_markup combined plan_mode of
                  None \<Rightarrow> None
                | Some stripped \<Rightarrow> Some (if str_trim stripped = [] then None else Some stripped)))"

fun last_message_loop :: "'j response_item list \<Rightarrow> string option option" where
  "last_message_loop [] = Some None"
| "last_message_loop (item # rest) =
     (case last_assistant_message_from_item item False of
        None \<Rightarrow> None
      | Some (Some message) \<Rightarrow> Some (Some message)
      | Some None \<Rightarrow> last_message_loop rest)"

definition get_last_assistant_message_from_turn :: "'j response_item list \<Rightarrow> string option option" where
  "get_last_assistant_message_from_turn responses = last_message_loop (rev responses)"

subsection \<open>The history that replaces the thread\<close>

fun select_messages :: "nat \<Rightarrow> string list \<Rightarrow> string list \<Rightarrow> string list" where
  "select_messages budget [] selected = selected"
| "select_messages budget (message # older) selected =
     (if budget = 0 then selected
      else (let tokens = approx_token_count message in
        if tokens \<le> budget
        then select_messages (saturating_sub budget tokens) older (selected @ [message])
        else selected @ [truncate_text message (Tokens budget)]))"

definition user_text_message :: "string \<Rightarrow> 'j response_item" where
  "user_text_message t = Message None ''user'' [InputText t] None None"

definition build_compacted_history_with_limit ::
  "'j response_item list \<Rightarrow> string list \<Rightarrow> string \<Rightarrow> nat \<Rightarrow> 'j response_item list"
where
  "build_compacted_history_with_limit history user_messages summary_text max_tokens =
     (let selected = (if 0 < max_tokens then rev (select_messages max_tokens (rev user_messages) []) else []);
          summary_text = (if summary_text = [] then ''(no summary available)'' else summary_text)
      in history @ map user_text_message selected @ [user_text_message summary_text])"

definition build_compacted_history ::
  "'j response_item list \<Rightarrow> string list \<Rightarrow> string \<Rightarrow> 'j response_item list"
where
  "build_compacted_history initial_context user_messages summary_text =
     build_compacted_history_with_limit initial_context user_messages summary_text
       COMPACT_USER_MESSAGE_MAX_TOKENS"

text \<open>The reverse loop: the last real user message and the last user message of any kind.  The
  arguments are the indices still to visit, from the last down.\<close>

fun find_user_indices ::
  "'j response_item list \<Rightarrow> nat list \<Rightarrow> nat option \<Rightarrow> nat option \<times> nat option"
where
  "find_user_indices items [] any_user = (None, any_user)"
| "find_user_indices items (i # is) any_user =
     (case parse_turn_item [] (items ! i) of
        Some (TiUserMessage user) \<Rightarrow>
          (let any_user = (case any_user of None \<Rightarrow> Some i | Some j \<Rightarrow> Some j) in
           if \<not> is_summary_message (user_message_text user) then (Some i, any_user)
           else find_user_indices items is any_user)
      | _ \<Rightarrow> find_user_indices items is any_user)"

definition insertion_index :: "'j response_item list \<Rightarrow> nat option" where
  "insertion_index items =
     (let (last_real, last_any) = find_user_indices items (rev [0..<length items]) None;
          last_compaction = rposition (\<lambda>i. case i of Compaction _ \<Rightarrow> True | _ \<Rightarrow> False) items
      in case last_real of
           Some i \<Rightarrow> Some i
         | None \<Rightarrow> (case last_any of Some i \<Rightarrow> Some i | None \<Rightarrow> last_compaction))"

definition insert_initial_context_before_last_real_user_or_summary ::
  "'j response_item list \<Rightarrow> 'j response_item list \<Rightarrow> 'j response_item list"
where
  "insert_initial_context_before_last_real_user_or_summary compacted_history initial_context =
     (case insertion_index compacted_history of
        Some i \<Rightarrow> take i compacted_history @ initial_context @ drop i compacted_history
      | None \<Rightarrow> compacted_history @ initial_context)"

datatype initial_context_injection = BeforeLastUserMessage | DoNotInject

text \<open>The end of \<open>run_compact_task_inner\<close>: the replacement history and the message of the compacted
  item, from the items of the session.\<close>

definition compacted_replacement ::
  "'j response_item list \<Rightarrow> initial_context_injection \<Rightarrow> 'j response_item list \<Rightarrow>
   ('j response_item list \<times> string) option"
where
  "compacted_replacement history_items injection initial_context =
     (case get_last_assistant_message_from_turn history_items of
        None \<Rightarrow> None
      | Some suf \<Rightarrow>
          (let summary_suffix = (case suf of None \<Rightarrow> [] | Some s \<Rightarrow> s);
               summary_text = SUMMARY_PREFIX @ [nl] @ summary_suffix;
               user_messages = collect_user_messages history_items;
               new_history = build_compacted_history [] user_messages summary_text;
               new_history =
                 (if injection = BeforeLastUserMessage
                  then insert_initial_context_before_last_real_user_or_summary new_history initial_context
                  else new_history);
               ghost_snapshots = filter is_ghost_snapshot history_items
           in Some (new_history @ ghost_snapshots, summary_text)))"

subsection \<open>The loop that asks for a summary\<close>

datatype attempt_result = AttemptOk | AttemptInterrupted | AttemptContextWindowExceeded | AttemptError

datatype compact_outcome =
    CompactOk nat
  | CompactInterrupted
  | CompactContextWindowExceeded
  | CompactFailed
  | CompactPanicked

lemma for_prompt_Nil: "cm_items h = [] \<Longrightarrow> for_prompt debug m h = Some []"
  by (simp add: for_prompt_def normalize_history_def ensure_call_outputs_present_def
      missing_outputs_to_insert_def remove_orphan_outputs_def strip_images_when_unsupported_def
      rewrite_image_generation_calls_for_stateless_input_def)

text \<open>Removing the first item removes one item, or two: an item and the one it is paired with.\<close>

lemma remove_first_matching_length:
  "length (remove_first_matching p xs) \<le> length xs \<and> length xs \<le> Suc (length (remove_first_matching p xs))"
  by (induction xs) auto

lemma remove_first_matching_subseq: "subseq (remove_first_matching p xs) xs"
  by (induction xs) (auto intro: list_emb_Cons)

lemma remove_corresponding_length:
  "length (remove_corresponding_for items x) \<le> length items \<and>
   length items \<le> Suc (length (remove_corresponding_for items x))"
  by (cases "(items, x)" rule: remove_corresponding_for.cases) (simp_all add: remove_first_matching_length)

lemma remove_corresponding_subseq: "subseq (remove_corresponding_for items x) items"
  by (cases "(items, x)" rule: remove_corresponding_for.cases) (simp_all add: remove_first_matching_subseq)

lemma remove_first_item_length:
  "cm_items h \<noteq> [] \<Longrightarrow>
     length (cm_items (remove_first_item h)) < length (cm_items h) \<and>
     length (cm_items h) \<le> length (cm_items (remove_first_item h)) + 2"
  using remove_corresponding_length [of "tl (cm_items h)" "hd (cm_items h)"]
  by (cases "cm_items h") (auto simp: remove_first_item_def)

lemma remove_first_item_subseq: "subseq (cm_items (remove_first_item h)) (cm_items h)"
  by (cases "cm_items h") (auto simp: remove_first_item_def remove_corresponding_subseq intro: list_emb_Cons)

text \<open>A history from which the first item is removed \<open>k\<close> times.\<close>

definition trimmed :: "nat \<Rightarrow> ('j, 'c) context_manager \<Rightarrow> ('j, 'c) context_manager \<Rightarrow> bool" where
  "trimmed k h h' =
     (h' = (remove_first_item ^^ k) h \<and> subseq (cm_items h') (cm_items h) \<and>
      length (cm_items h') + k \<le> length (cm_items h) \<and> length (cm_items h) \<le> length (cm_items h') + 2 * k)"

lemma trimmed_0: "trimmed 0 h h"
  by (simp add: trimmed_def)

lemma trimmed_Suc:
  assumes "cm_items h \<noteq> []" and "trimmed k (remove_first_item h) h'"
  shows "trimmed (Suc k) h h'"
  using assms remove_first_item_length [OF assms(1)] subseq_order.order_trans [OF _ remove_first_item_subseq [of h]]
  by (auto simp: trimmed_def funpow_swap1)

text \<open>The result is the outcome, the history that was last tried and the number of requests.\<close>

function compact_loop ::
  "(nat \<Rightarrow> 'j response_item list \<Rightarrow> attempt_result) \<Rightarrow> bool \<Rightarrow> input_modality list \<Rightarrow> nat \<Rightarrow>
   nat \<Rightarrow> ('j, 'c) context_manager \<Rightarrow> nat \<Rightarrow> nat \<Rightarrow> compact_outcome \<times> ('j, 'c) context_manager \<times> nat"
where
  "compact_loop attempt debug m max_retries n history truncated retries =
     (case for_prompt debug m history of
        None \<Rightarrow> (CompactPanicked, history, n)
      | Some turn_input \<Rightarrow>
          (case attempt n turn_input of
             AttemptOk \<Rightarrow> (CompactOk truncated, history, n + 1)
           | AttemptInterrupted \<Rightarrow> (CompactInterrupted, history, n + 1)
           | AttemptContextWindowExceeded \<Rightarrow>
               if 1 < length turn_input
               then compact_loop attempt debug m max_retries (n + 1) (remove_first_item history)
                      (truncated + 1) 0
               else (CompactContextWindowExceeded, history, n + 1)
           | AttemptError \<Rightarrow>
               if retries < max_retries
               then compact_loop attempt debug m max_retries (n + 1) history truncated (retries + 1)
               else (CompactFailed, history, n + 1)))"
  by pat_completeness auto
termination
proof (relation "measures [\<lambda>(_, _, _, _, _, h, _, _). length (cm_items h),
    \<lambda>(_, _, _, max_retries, _, _, _, retries). max_retries - retries]", goal_cases)
  case (2 attempt debug m max_retries n history truncated retries turn_input)
  then have "cm_items history \<noteq> []" using for_prompt_Nil [of history debug m] by force
  then show ?case by (simp add: remove_first_item_length)
qed auto

declare compact_loop.simps [simp del]

subsection \<open>The loop ends\<close>

definition compact_result_ok ::
  "(nat \<Rightarrow> 'j response_item list \<Rightarrow> attempt_result) \<Rightarrow> bool \<Rightarrow> input_modality list \<Rightarrow> nat \<Rightarrow>
   compact_outcome \<times> ('j, 'c) context_manager \<times> nat \<Rightarrow> bool"
where
  "compact_result_ok attempt debug m dropped res =
     (let (out, h', n') = res; prompt = for_prompt debug m h' in
      case out of
        CompactOk k \<Rightarrow> k = dropped \<and> 0 < n' \<and> prompt \<noteq> None \<and> attempt (n' - 1) (the prompt) = AttemptOk
      | CompactContextWindowExceeded \<Rightarrow> prompt \<noteq> None \<and> length (the prompt) \<le> 1
      | CompactPanicked \<Rightarrow> prompt = None
      | _ \<Rightarrow> True)"

lemma compact_loop_spec:
  fixes h :: "('j, 'c) context_manager"
  assumes "compact_loop attempt debug m r n h t i = res" and "i \<le> r"
  shows "\<exists>k. trimmed k h (fst (snd res)) \<and>
     compact_result_ok attempt debug m (t + k) res \<and>
     snd (snd res) + i \<le> n + r + 1 + length (cm_items h) * (r + 1)"
  using assms
proof (induction attempt debug m r n h t i arbitrary: res rule: compact_loop.induct)
  case (1 attempt debug m r n h t i)
  note res = "1.prems"(1) [unfolded compact_loop.simps [of attempt debug m r n h t i]]
  show ?case
  proof (cases "for_prompt debug m h")
    case None
    with res have "res = (CompactPanicked, h, n)" by simp
    with None "1.prems"(2) show ?thesis by (intro exI [of _ 0]) (simp add: compact_result_ok_def trimmed_0)
  next
    case (Some input)
    show ?thesis
    proof (cases "attempt n input")
      case AttemptOk
      with Some res have "res = (CompactOk t, h, n + 1)" by simp
      with Some AttemptOk "1.prems"(2) show ?thesis
        by (intro exI [of _ 0]) (simp add: compact_result_ok_def trimmed_0)
    next
      case AttemptInterrupted
      with Some res have "res = (CompactInterrupted, h, n + 1)" by simp
      with "1.prems"(2) show ?thesis by (intro exI [of _ 0]) (simp add: compact_result_ok_def trimmed_0)
    next
      case AttemptContextWindowExceeded
      show ?thesis
      proof (cases "1 < length input")
        case True
        let ?h = "remove_first_item h"
        from True Some have "cm_items h \<noteq> []" using for_prompt_Nil [of h debug m] by force
        then have ne: "cm_items h \<noteq> []" and len: "length (cm_items ?h) < length (cm_items h)"
          using remove_first_item_length by auto
        from True Some AttemptContextWindowExceeded res
        have "compact_loop attempt debug m r (n + 1) ?h (t + 1) 0 = res" by simp
        from "1.IH"(1) [OF Some AttemptContextWindowExceeded True this] obtain k where k:
          "trimmed k ?h (fst (snd res))" "compact_result_ok attempt debug m (t + 1 + k) res"
          "snd (snd res) + 0 \<le> n + 1 + r + 1 + length (cm_items ?h) * (r + 1)" by auto
        from len have "Suc (length (cm_items ?h)) * (r + 1) \<le> length (cm_items h) * (r + 1)"
          by (intro mult_right_mono) auto
        with k(3) "1.prems"(2) have "snd (snd res) + i \<le> n + r + 1 + length (cm_items h) * (r + 1)" by simp
        moreover from trimmed_Suc [OF ne k(1)] have "trimmed (Suc k) h (fst (snd res))" .
        moreover from k(2) have "compact_result_ok attempt debug m (t + Suc k) res" by simp
        ultimately show ?thesis by blast
      next
        case False
        with Some AttemptContextWindowExceeded res have "res = (CompactContextWindowExceeded, h, n + 1)" by simp
        with Some False "1.prems"(2) show ?thesis by (intro exI [of _ 0]) (simp add: compact_result_ok_def trimmed_0)
      qed
    next
      case AttemptError
      show ?thesis
      proof (cases "i < r")
        case True
        with Some AttemptError res have "compact_loop attempt debug m r (n + 1) h t (i + 1) = res" by simp
        from "1.IH"(2) [OF Some AttemptError True this] True show ?thesis by auto
      next
        case False
        with Some AttemptError res have "res = (CompactFailed, h, n + 1)" by simp
        with "1.prems"(2) show ?thesis by (intro exI [of _ 0]) (simp add: compact_result_ok_def trimmed_0)
      qed
    qed
  qed
qed

lemma for_prompt_release: "for_prompt False m h \<noteq> None"
proof -
  obtain items where "normalize_pairs False (cm_items h) = Some items" by (simp add: normalize_pairs_eq)
  then show ?thesis by (simp add: for_prompt_eq)
qed

text \<open>C26: Asking for a summary ends, whatever the model answers.  There are at most
  \<open>max_retries + 1\<close> requests for every length the history has on the way.  The history that is
  tried last is the original after the first item has been removed \<open>k\<close> times, each time with the item
  that it is paired with: between \<open>k\<close> and \<open>2 * k\<close> items are gone, and the others are in their order.
  Success reports \<open>k\<close>, the number of removals and not of the items removed, and means that
  the prompt of that history was accepted; the loop gives up on a full window only when
  the prompt has at most one item left.\<close>

theorem compact_loop_ends:
  "let (out, h', n') = compact_loop attempt False m max_retries 0 h 0 0 in
   n' \<le> (max_retries + 1) * (length (cm_items h) + 1) \<and> out \<noteq> CompactPanicked \<and>
   (\<exists>k. h' = (remove_first_item ^^ k) h \<and> subseq (cm_items h') (cm_items h) \<and>
     length (cm_items h') + k \<le> length (cm_items h) \<and> length (cm_items h) \<le> length (cm_items h') + 2 * k \<and>
     compact_result_ok attempt False m k (out, h', n'))"
proof -
  obtain out h' n' where res: "compact_loop attempt False m max_retries 0 h 0 0 = (out, h', n')"
    by (metis prod_cases3)
  from compact_loop_spec [OF this] obtain k where k: "trimmed k h h'"
    "compact_result_ok attempt False m k (out, h', n')"
    "n' \<le> max_retries + 1 + length (cm_items h) * (max_retries + 1)" by auto
  moreover have "out \<noteq> CompactPanicked"
    using k(2) for_prompt_release [of m h'] by (auto simp: compact_result_ok_def)
  ultimately show ?thesis unfolding res trimmed_def by (auto simp: algebra_simps)
qed

text \<open>The number that is reported to the user, as the number of items that were trimmed, can be too small: here
  a call and its output are gone, and one item is reported.\<close>

definition paired_history :: "(unit, unit) context_manager" where
  "paired_history = \<lparr>cm_items = [FunctionCall None ''f'' None ''{}'' ''c'', FunctionCallOutput ''c'' aborted_payload,
       Message None ''user'' [InputText ''hi''] None None],
     cm_token_info = None, cm_reference_context_item = None\<rparr>"

lemma trimmed_items_are_undercounted:
  "compact_loop (\<lambda>n _. if n = 0 then AttemptContextWindowExceeded else AttemptOk) False [TextModality] 0 0
     paired_history 0 0 =
   (CompactOk 1, paired_history\<lparr>cm_items := drop 2 (cm_items paired_history)\<rparr>, 2)"
  by code_simp

subsection \<open>What the replacement history holds\<close>

definition token_sum :: "string list \<Rightarrow> nat" where
  "token_sum ts = sum_list (map approx_token_count ts)"

lemma select_messages_spec:
  "\<exists>kept older. rev msgs = kept @ older \<and> token_sum kept \<le> budget \<and>
     (older = [] \<or> token_sum kept = budget \<or> budget < token_sum kept + approx_token_count (hd older)) \<and>
     select_messages budget (rev msgs) selected = selected @ kept @
       (if older = [] \<or> token_sum kept = budget then []
        else [truncate_text (hd older) (Tokens (budget - token_sum kept))])"
proof -
  have "\<exists>kept older. ms = kept @ older \<and> token_sum kept \<le> budget \<and>
     (older = [] \<or> token_sum kept = budget \<or> budget < token_sum kept + approx_token_count (hd older)) \<and>
     select_messages budget ms selected = selected @ kept @
       (if older = [] \<or> token_sum kept = budget then []
        else [truncate_text (hd older) (Tokens (budget - token_sum kept))])" for ms
  proof (induction ms arbitrary: budget selected)
    case Nil
    then show ?case by (simp add: token_sum_def)
  next
    case (Cons t ms)
    consider "budget = 0" | "0 < budget" "approx_token_count t \<le> budget"
      | "0 < budget" "budget < approx_token_count t" by linarith
    then show ?case
    proof cases
      case 1
      then show ?thesis by (intro exI [of _ "[]"] exI [of _ "t # ms"]) (simp add: token_sum_def)
    next
      case 2
      from Cons.IH [of "budget - approx_token_count t" "selected @ [t]"] obtain kept older where IH:
        "ms = kept @ older" "token_sum kept \<le> budget - approx_token_count t"
        "older = [] \<or> token_sum kept = budget - approx_token_count t \<or>
         budget - approx_token_count t < token_sum kept + approx_token_count (hd older)"
        "select_messages (budget - approx_token_count t) ms (selected @ [t]) = (selected @ [t]) @ kept @
         (if older = [] \<or> token_sum kept = budget - approx_token_count t then []
          else [truncate_text (hd older) (Tokens (budget - approx_token_count t - token_sum kept))])" by blast
      have sum: "token_sum (t # kept) = approx_token_count t + token_sum kept" by (simp add: token_sum_def)
      with 2 IH show ?thesis
        by (intro exI [of _ "t # kept"] exI [of _ older]) (auto simp: Let_def)
    next
      case 3
      then show ?thesis
        by (intro exI [of _ "[]"] exI [of _ "t # ms"]) (simp add: token_sum_def Let_def)
    qed
  qed
  then show ?thesis by blast
qed

text \<open>Of the user's messages the newest are kept whole, in order, while their estimated
  tokens fit the limit; the next older one is truncated to what is left, and the summary comes
  last.\<close>

lemma compaction_keeps_newest_messages:
  "\<exists>older kept. msgs = older @ kept \<and> token_sum kept \<le> limit \<and>
     (older = [] \<or> token_sum kept = limit \<or> limit < token_sum kept + approx_token_count (last older)) \<and>
     build_compacted_history_with_limit h msgs s limit =
       h @ map user_text_message
         ((if older = [] \<or> token_sum kept = limit then []
           else [truncate_text (last older) (Tokens (limit - token_sum kept))]) @ kept) @
       [user_text_message (if s = [] then ''(no summary available)'' else s)]"
proof (cases "limit = 0")
  case True
  then show ?thesis
    by (intro exI [of _ msgs] exI [of _ "[]"]) (simp add: build_compacted_history_with_limit_def token_sum_def)
next
  case False
  obtain kept older where k: "rev msgs = kept @ older"
    "token_sum kept \<le> limit"
    "older = [] \<or> token_sum kept = limit \<or> limit < token_sum kept + approx_token_count (hd older)"
    "select_messages limit (rev msgs) [] = kept @ (if older = [] \<or> token_sum kept = limit then []
        else [truncate_text (hd older) (Tokens (limit - token_sum kept))])"
    using select_messages_spec [of msgs limit "[]"] unfolding append_Nil by blast
  have sum: "token_sum (rev kept) = token_sum kept" by (simp add: token_sum_def rev_map [symmetric] sum_list_rev)
  from k(1) have "msgs = rev older @ rev kept" by (metis rev_append rev_rev_ident)
  moreover have "older = [] \<or> last (rev older) = hd older" by (simp add: last_rev)
  ultimately show ?thesis using False k sum
    by (intro exI [of _ "rev older"] exI [of _ "rev kept"])
       (auto simp: build_compacted_history_with_limit_def Let_def)
qed

subsection \<open>Where the initial context goes\<close>

definition is_real_user :: "'j response_item \<Rightarrow> bool" where
  "is_real_user i = (case user_text_of i of Some t \<Rightarrow> \<not> is_summary_message t | None \<Rightarrow> False)"

lemma find_user_indices_Cons:
  "find_user_indices items (i # is) any_user =
     (let any' = (case any_user of None \<Rightarrow> Some i | Some j \<Rightarrow> Some j) in
      if user_text_of (items ! i) = None then find_user_indices items is any_user
      else if is_real_user (items ! i) then (Some i, any') else find_user_indices items is any')"
  by (auto simp: is_real_user_def user_text_of_def Let_def split: option.splits turn_item.splits)

declare find_user_indices.simps(2) [simp del]

lemma find_user_indices_real:
  "fst (find_user_indices items is any_user) = List.find (\<lambda>i. is_real_user (items ! i)) is"
proof (induction "is" arbitrary: any_user)
  case (Cons i "is")
  have "\<not> is_real_user (items ! i)" if "user_text_of (items ! i) = None"
    using that by (simp add: is_real_user_def)
  with Cons show ?case by (simp add: find_user_indices_Cons Let_def)
qed simp

lemma find_user_indices_any:
  "List.find (\<lambda>i. is_real_user (items ! i)) is = None \<Longrightarrow>
     snd (find_user_indices items is any_user) =
       (case any_user of Some j \<Rightarrow> Some j
        | None \<Rightarrow> List.find (\<lambda>i. user_text_of (items ! i) \<noteq> None) is)"
proof (induction "is" arbitrary: any_user)
  case Nil
  then show ?case by (simp split: option.split)
next
  case (Cons i "is")
  then have "\<not> is_real_user (items ! i)" "List.find (\<lambda>i. is_real_user (items ! i)) is = None"
    by (auto split: if_splits)
  with Cons.IH show ?case by (auto simp: find_user_indices_Cons Let_def split: option.split)
qed

lemma find_rev_upt_last:
  "p (xs ! n) \<Longrightarrow> List.find (\<lambda>i. p (xs ! i)) (rev [0..<Suc n]) = Some n"
  by simp

text \<open>When the items end in a user message that is a summary, the context goes before the last
  real user message, or before the summary.\<close>

lemma insertion_index_summary:
  assumes "user_text_of s \<noteq> None" and "\<not> is_real_user s"
  shows "insertion_index (msgs @ [s]) =
     (case rposition is_real_user msgs of Some i \<Rightarrow> Some i | None \<Rightarrow> Some (length msgs))"
proof -
  let ?items = "msgs @ [s]"
  have "List.find (\<lambda>i. is_real_user (?items ! i)) (rev [0..<length ?items]) = rposition is_real_user msgs"
  proof -
    have "List.find (\<lambda>i. is_real_user (?items ! i)) (rev [0..<length msgs]) =
        List.find (\<lambda>i. is_real_user (msgs ! i)) (rev [0..<length msgs])"
      by (rule find_cong) (simp_all add: nth_append)
    with assms(2) show ?thesis by (simp add: rposition_def)
  qed
  moreover have "List.find (\<lambda>i. user_text_of (?items ! i) \<noteq> None) (rev [0..<length ?items]) = Some (length msgs)"
    using assms(1) by simp
  ultimately show ?thesis
    using find_user_indices_real [of ?items "rev [0..<length ?items]" None]
      find_user_indices_any [of ?items "rev [0..<length ?items]" None]
    by (auto simp: insertion_index_def Let_def split: prod.splits option.splits)
qed

lemma rposition_Some:
  "rposition p xs = Some i \<Longrightarrow> i < length xs \<and> p (xs ! i) \<and> (\<forall>j. i < j \<and> j < length xs \<longrightarrow> \<not> p (xs ! j))"
proof -
  assume "rposition p xs = Some i"
  then obtain k where k: "k < length xs" "p (xs ! i)" "i = rev [0..<length xs] ! k"
    "\<forall>j < k. \<not> p (xs ! (rev [0..<length xs] ! j))"
    by (auto simp: rposition_def find_Some_iff)
  then have i: "i = length xs - 1 - k" by (simp add: rev_nth)
  have "\<not> p (xs ! j)" if "i < j" "j < length xs" for j
  proof -
    from that i k(1) have "length xs - 1 - j < k" by linarith
    with k(4) have "\<not> p (xs ! (rev [0..<length xs] ! (length xs - 1 - j)))" by blast
    moreover from that have "rev [0..<length xs] ! (length xs - 1 - j) = j" by (simp add: rev_nth)
    ultimately show ?thesis by simp
  qed
  with k(1,2) i show ?thesis by auto
qed

lemma rposition_None: "rposition p xs = None \<longleftrightarrow> (\<forall>x \<in> set xs. \<not> p x)"
  by (auto simp: rposition_def find_None_iff in_set_conv_nth dest: nth_mem)

lemma summary_text_contextual: "\<not> is_contextual_user_message_content [InputText (SUMMARY_PREFIX @ t)]"
proof -
  have "trim_start (SUMMARY_PREFIX @ t) = SUMMARY_PREFIX @ t"
    unfolding SUMMARY_PREFIX_def append_Cons by (rule trim_start_Cons) code_simp
  moreover have "\<not> matches_text d t'" if "d \<in> set CONTEXTUAL_USER_FRAGMENTS" "trim_start t' = CHR ''A'' # x" for d t' x
  proof -
    have "list_all (\<lambda>d. case start_marker d of [] \<Rightarrow> False
        | c # _ \<Rightarrow> ascii_lower c \<noteq> ascii_lower (CHR ''A'')) CONTEXTUAL_USER_FRAGMENTS" by code_simp
    with that(1) obtain c r where d: "start_marker d = c # r" "ascii_lower c \<noteq> ascii_lower (CHR ''A'')"
      by (cases "start_marker d") (auto simp: list_all_iff)
    then have "take (length (start_marker d)) (CHR ''A'' # x) = CHR ''A'' # take (length r) x" by simp
    then show ?thesis using that(2) d
      by (auto simp: matches_text_def Let_def str_get_to_def eq_ignore_ascii_case_def to_ascii_lowercase_def
          split: option.splits)
  qed
  ultimately show ?thesis
    by (auto simp: is_contextual_user_message_content_def is_contextual_user_fragment_def list_ex_iff
        SUMMARY_PREFIX_def)
qed

text \<open>After a compaction in the middle of a turn the summary is still the last item, apart
  from ghost snapshots, and the initial context stands as one block directly before the last
  real user message that was kept, or before the summary if there is none.\<close>

lemma initial_context_before_last_user_message:
  fixes items :: "'j response_item list"
  assumes "compacted_replacement items BeforeLastUserMessage ctx = Some (new, summary)"
  shows "\<exists>older newest.
    new = older @ ctx @ newest @ [user_text_message summary] @ filter is_ghost_snapshot items \<and>
    older @ newest @ [user_text_message summary] =
      build_compacted_history [] (collect_user_messages items) summary \<and>
    (case newest of [] \<Rightarrow> \<not> list_ex is_real_user older
     | x # xs \<Rightarrow> is_real_user x \<and> \<not> list_ex is_real_user xs)"
proof -
  from assms obtain suff where summary: "summary = SUMMARY_PREFIX @ [nl] @ suff"
    and new: "new = insert_initial_context_before_last_real_user_or_summary
      (build_compacted_history [] (collect_user_messages items) summary) ctx @ filter is_ghost_snapshot items"
    by (auto simp: compacted_replacement_def Let_def split: option.splits)
  obtain msgs :: "'j response_item list" where built: "build_compacted_history [] (collect_user_messages items) summary =
      msgs @ [user_text_message summary]"
    using summary by (simp add: build_compacted_history_def build_compacted_history_with_limit_def SUMMARY_PREFIX_def)
  have utext: "user_text_of (user_text_message summary :: 'j response_item) = Some summary"
    using summary_text_contextual [of "[nl] @ suff"] by (simp add: user_text_message_def summary)
  have "\<not> is_real_user (user_text_message summary :: 'j response_item)"
    by (simp add: is_real_user_def utext is_summary_message_def) (simp add: summary)
  with utext have idx: "insertion_index (msgs @ [user_text_message summary]) =
      (case rposition is_real_user msgs of Some i \<Rightarrow> Some i | None \<Rightarrow> Some (length msgs))"
    by (intro insertion_index_summary) simp_all
  show ?thesis
  proof (cases "rposition is_real_user msgs")
    case None
    with idx new built have "new = msgs @ ctx @ [] @ [user_text_message summary] @ filter is_ghost_snapshot items"
      by (simp add: insert_initial_context_before_last_real_user_or_summary_def)
    moreover from None have "\<not> list_ex is_real_user msgs" by (simp add: rposition_None list_ex_iff)
    ultimately show ?thesis using built by (intro exI [of _ msgs] exI [of _ "[]"]) simp
  next
    case (Some i)
    from rposition_Some [OF Some] have i: "i < length msgs" "is_real_user (msgs ! i)"
      "\<forall>j. i < j \<and> j < length msgs \<longrightarrow> \<not> is_real_user (msgs ! j)" by auto
    from i(1) have drop: "drop i msgs = msgs ! i # drop (Suc i) msgs" by (simp add: Cons_nth_drop_Suc)
    have "\<not> list_ex is_real_user (drop (Suc i) msgs)"
      using i(3) by (auto simp: list_ex_iff in_set_conv_nth)
    moreover from Some idx new built i(1) have
      "new = take i msgs @ ctx @ drop i msgs @ [user_text_message summary] @ filter is_ghost_snapshot items"
      by (simp add: insert_initial_context_before_last_real_user_or_summary_def)
    moreover have "take i msgs @ drop i msgs @ [user_text_message summary] = msgs @ [user_text_message summary]"
      by simp
    ultimately show ?thesis unfolding built
      by (rule_tac exI [of _ "take i msgs"], rule_tac exI [of _ "drop i msgs"]) (simp add: drop i(2))
  qed
qed

end
