(* ===== verification/Rollout.thy ===== *)
theory Rollout
  imports Compaction
begin

section \<open>Rollouts\<close>

text \<open>
  A model of \<^verbatim>\<open>codex-rs/core/src/codex/rollout_reconstruction.rs\<close> and
  \<^verbatim>\<open>codex-rs/core/src/rollout/truncation.rs\<close>: a rollout is the record of a thread, from which the
  history and the settings of the last turn are rebuilt when the thread is resumed, forked or
  rolled back.  The code scans the record from the newest item for the newest checkpoint that
  survives the rollbacks, and replays the items after it.

  The specification is the replay of the whole record from the start (\<open>replay_all\<close>).  Of a
  turn's context only what the code looks at has a field; the rest is \<open>tc_rest\<close>.
\<close>

subsection \<open>Data\<close>

record 'x turn_context_item =
  tc_turn_id :: "string option"
  tc_model :: string
  tc_realtime_active :: "bool option"
  tc_rest :: 'x

datatype event_msg =
    ThreadRolledBack nat
  | TurnComplete string
  | TurnAborted "string option"
  | UserMessage
  | TurnStarted string
  | OtherEvent

datatype ('j, 'x) rollout_item =
    SessionMeta
  | ResponseItem "'j response_item"
  | Compacted string "'j response_item list option"
  | TurnContext "'x turn_context_item"
  | EventMsg event_msg

datatype 'x turn_reference_context_item = NeverSet | Cleared | Latest "'x turn_context_item"

record previous_turn_settings =
  pts_model :: string
  pts_realtime_active :: "bool option"

record ('j, 'x) active_replay_segment =
  seg_turn_id :: "string option"
  seg_counts_as_user_turn :: bool
  seg_previous_turn_settings :: "previous_turn_settings option"
  seg_reference_context_item :: "'x turn_reference_context_item"
  seg_base_replacement_history :: "'j response_item list option"

definition default_segment :: "('j, 'x) active_replay_segment" where
  "default_segment = \<lparr>seg_turn_id = None, seg_counts_as_user_turn = False,
     seg_previous_turn_settings = None, seg_reference_context_item = NeverSet,
     seg_base_replacement_history = None\<rparr>"

text \<open>The variables of the reverse scan; \<open>suffix_start\<close> is where \<open>rollout_suffix\<close> begins.\<close>

record ('j, 'x) replay_state =
  base_replacement_history :: "'j response_item list option"
  rs_previous_turn_settings :: "previous_turn_settings option"
  rs_reference_context_item :: "'x turn_reference_context_item"
  pending_rollback_turns :: nat
  suffix_start :: nat
  active_segment :: "('j, 'x) active_replay_segment option"

definition initial_replay_state :: "('j, 'x) replay_state" where
  "initial_replay_state = \<lparr>base_replacement_history = None, rs_previous_turn_settings = None,
     rs_reference_context_item = NeverSet, pending_rollback_turns = 0, suffix_start = 0,
     active_segment = None\<rparr>"

subsection \<open>The reverse scan\<close>

definition turn_ids_are_compatible :: "string option \<Rightarrow> string option \<Rightarrow> bool" where
  "turn_ids_are_compatible active_turn_id item_turn_id =
     (case active_turn_id of None \<Rightarrow> True
      | Some t \<Rightarrow> (case item_turn_id of None \<Rightarrow> True | Some i \<Rightarrow> i = t))"

definition finalize_active_segment ::
  "('j, 'x) active_replay_segment \<Rightarrow> ('j, 'x) replay_state \<Rightarrow> ('j, 'x) replay_state"
where
  "finalize_active_segment seg s =
     (if 0 < pending_rollback_turns s then
        (if seg_counts_as_user_turn seg
         then s\<lparr>pending_rollback_turns := pending_rollback_turns s - 1\<rparr> else s)
      else
        (let s = (if base_replacement_history s = None
                  then s\<lparr>base_replacement_history := seg_base_replacement_history seg\<rparr> else s);
             s = (if rs_previous_turn_settings s = None \<and> seg_counts_as_user_turn seg
                  then s\<lparr>rs_previous_turn_settings := seg_previous_turn_settings seg\<rparr> else s)
         in if rs_reference_context_item s = NeverSet \<and>
               (seg_counts_as_user_turn seg \<or> seg_reference_context_item seg = Cleared)
            then s\<lparr>rs_reference_context_item := seg_reference_context_item seg\<rparr> else s))"

definition get_or_default :: "('j, 'x) replay_state \<Rightarrow> ('j, 'x) active_replay_segment" where
  "get_or_default s = (case active_segment s of Some seg \<Rightarrow> seg | None \<Rightarrow> default_segment)"

text \<open>The \<open>match\<close> of the loop, for the item at \<open>index\<close>.\<close>

fun replay_step ::
  "nat \<Rightarrow> ('j, 'x) rollout_item \<Rightarrow> ('j, 'x) replay_state \<Rightarrow> ('j, 'x) replay_state"
where
  "replay_step index (Compacted _ replacement) s =
     (let seg = get_or_default s;
          seg = (if seg_reference_context_item seg = NeverSet
                 then seg\<lparr>seg_reference_context_item := Cleared\<rparr> else seg)
      in case replacement of
           Some r \<Rightarrow>
             if seg_base_replacement_history seg = None
             then s\<lparr>active_segment := Some (seg\<lparr>seg_base_replacement_history := Some r\<rparr>),
                    suffix_start := index + 1\<rparr>
             else s\<lparr>active_segment := Some seg\<rparr>
         | None \<Rightarrow> s\<lparr>active_segment := Some seg\<rparr>)"
| "replay_step index (EventMsg (ThreadRolledBack n)) s =
     s\<lparr>pending_rollback_turns := saturating_add (pending_rollback_turns s) n\<rparr>"
| "replay_step index (EventMsg (TurnComplete turn_id)) s =
     (let seg = get_or_default s
      in s\<lparr>active_segment :=
             Some (if seg_turn_id seg = None then seg\<lparr>seg_turn_id := Some turn_id\<rparr> else seg)\<rparr>)"
| "replay_step index (EventMsg (TurnAborted turn_id)) s =
     (case active_segment s of
        Some seg \<Rightarrow>
          s\<lparr>active_segment :=
              Some (if seg_turn_id seg = None \<and> turn_id \<noteq> None then seg\<lparr>seg_turn_id := turn_id\<rparr> else seg)\<rparr>
      | None \<Rightarrow>
          (case turn_id of
             Some t \<Rightarrow> s\<lparr>active_segment := Some (default_segment\<lparr>seg_turn_id := Some t\<rparr>)\<rparr>
           | None \<Rightarrow> s))"
| "replay_step index (EventMsg UserMessage) s =
     s\<lparr>active_segment := Some ((get_or_default s)\<lparr>seg_counts_as_user_turn := True\<rparr>)\<rparr>"
| "replay_step index (TurnContext ctx) s =
     (let seg = get_or_default s;
          seg = (if seg_turn_id seg = None then seg\<lparr>seg_turn_id := tc_turn_id ctx\<rparr> else seg);
          seg = (if turn_ids_are_compatible (seg_turn_id seg) (tc_turn_id ctx)
                 then (let seg = seg\<lparr>seg_previous_turn_settings :=
                         Some \<lparr>pts_model = tc_model ctx, pts_realtime_active = tc_realtime_active ctx\<rparr>\<rparr>
                       in if seg_reference_context_item seg = NeverSet
                          then seg\<lparr>seg_reference_context_item := Latest ctx\<rparr> else seg)
                 else seg)
      in s\<lparr>active_segment := Some seg\<rparr>)"
| "replay_step index (EventMsg (TurnStarted turn_id)) s =
     (case active_segment s of
        Some seg \<Rightarrow>
          if turn_ids_are_compatible (seg_turn_id seg) (Some turn_id)
          then finalize_active_segment seg (s\<lparr>active_segment := None\<rparr>)
          else s
      | None \<Rightarrow> s)"
| "replay_step index (ResponseItem _) s = s"
| "replay_step index (EventMsg OtherEvent) s = s"
| "replay_step index SessionMeta s = s"

definition replay_done :: "('j, 'x) replay_state \<Rightarrow> bool" where
  "replay_done s =
     (base_replacement_history s \<noteq> None \<and> rs_previous_turn_settings s \<noteq> None \<and>
      rs_reference_context_item s \<noteq> NeverSet)"

text \<open>The loop over the items from the newest; the index of an item is the number of older ones.\<close>

fun replay_loop :: "('j, 'x) rollout_item list \<Rightarrow> ('j, 'x) replay_state \<Rightarrow> ('j, 'x) replay_state" where
  "replay_loop [] s = s"
| "replay_loop (item # older) s =
     (let s = replay_step (length older) item s in if replay_done s then s else replay_loop older s)"

definition scan_rollout :: "('j, 'x) rollout_item list \<Rightarrow> ('j, 'x) replay_state" where
  "scan_rollout items =
     (let s = replay_loop (rev items) initial_replay_state in
      case active_segment s of
        Some seg \<Rightarrow> finalize_active_segment seg (s\<lparr>active_segment := None\<rparr>)
      | None \<Rightarrow> s)"

subsection \<open>Replaying the items after the checkpoint\<close>

fun materialize_step ::
  "truncation_policy \<Rightarrow> ('j, 'x) rollout_item \<Rightarrow> ('j, 'c) context_manager \<times> bool \<Rightarrow>
   ('j, 'c) context_manager \<times> bool"
where
  "materialize_step policy (ResponseItem i) (history, saw_legacy) = (record_items history [i] policy, saw_legacy)"
| "materialize_step policy (Compacted message replacement) (history, saw_legacy) =
     (case replacement of
        Some r \<Rightarrow> (replace_items history r, saw_legacy)
      | None \<Rightarrow>
          (replace_items history
             (build_compacted_history [] (collect_user_messages (cm_items history)) message), True))"
| "materialize_step policy (EventMsg (ThreadRolledBack n)) (history, saw_legacy) =
     (drop_last_n_user_turns history n, saw_legacy)"
| "materialize_step policy (EventMsg _) st = st"
| "materialize_step policy (TurnContext _) st = st"
| "materialize_step policy SessionMeta st = st"

record ('j, 'x) rollout_reconstruction =
  rr_history :: "'j response_item list"
  rr_previous_turn_settings :: "previous_turn_settings option"
  rr_reference_context_item :: "'x turn_context_item option"

definition reconstruct_history_from_rollout ::
  "truncation_policy \<Rightarrow> ('j, 'x) rollout_item list \<Rightarrow> ('j, 'x) rollout_reconstruction"
where
  "reconstruct_history_from_rollout policy rollout_items =
     (let s = scan_rollout rollout_items;
          history = (case base_replacement_history s of
                       Some base \<Rightarrow> replace_items new_context_manager base
                     | None \<Rightarrow> (new_context_manager :: ('j, 'x) context_manager));
          (history, saw_legacy) =
            fold (materialize_step policy) (drop (suffix_start s) rollout_items) (history, False);
          reference = (case rs_reference_context_item s of Latest ctx \<Rightarrow> Some ctx | _ \<Rightarrow> None)
      in \<lparr>rr_history = cm_items history, rr_previous_turn_settings = rs_previous_turn_settings s,
          rr_reference_context_item = (if saw_legacy then None else reference)\<rparr>)"

subsection \<open>Truncating a rollout\<close>

fun user_positions_step ::
  "nat \<times> ('j, 'x) rollout_item \<Rightarrow> nat list \<Rightarrow> nat list"
where
  "user_positions_step (idx, ResponseItem i) positions =
     (if (case i of Message _ _ _ _ _ \<Rightarrow> True | _ \<Rightarrow> False) \<and>
         (case parse_turn_item [] i of Some (TiUserMessage _) \<Rightarrow> True | _ \<Rightarrow> False)
      then positions @ [idx] else positions)"
| "user_positions_step (idx, EventMsg (ThreadRolledBack n)) positions =
     take (saturating_sub (length positions) n) positions"
| "user_positions_step _ positions = positions"

definition user_message_positions_in_rollout :: "('j, 'x) rollout_item list \<Rightarrow> nat list" where
  "user_message_positions_in_rollout items = fold user_positions_step (enumerate 0 items) []"

definition truncate_rollout_before_nth_user_message_from_start ::
  "('j, 'x) rollout_item list \<Rightarrow> nat \<Rightarrow> ('j, 'x) rollout_item list"
where
  "truncate_rollout_before_nth_user_message_from_start items n =
     (if n = usize_max then items
      else (let user_positions = user_message_positions_in_rollout items in
        if length user_positions \<le> n then [] else take (user_positions ! n) items))"

subsection \<open>Replaying the whole record\<close>

text \<open>The effect of an item on the items of the history; the other parts of the history stay
  as they are.\<close>

definition list_step ::
  "truncation_policy \<Rightarrow> ('j, 'x) rollout_item \<Rightarrow> 'j response_item list \<Rightarrow> 'j response_item list"
where
  "list_step policy x items =
     cm_items (fst (materialize_step policy x
       ((new_context_manager :: ('j, 'x) context_manager)\<lparr>cm_items := items\<rparr>, False)))"

definition replay_all :: "truncation_policy \<Rightarrow> ('j, 'x) rollout_item list \<Rightarrow> 'j response_item list" where
  "replay_all policy items = fold (list_step policy) items []"

lemma list_step_simps [simp]:
  "list_step policy (ResponseItem i) items =
     items @ (if \<not> is_api_message i \<and> \<not> is_ghost_snapshot i then [] else [process_item i policy])"
  "list_step policy (Compacted m (Some r)) items = r"
  "list_step policy (Compacted m None) items = build_compacted_history [] (collect_user_messages items) m"
  "list_step policy SessionMeta items = items"
  "list_step policy (TurnContext c) items = items"
  "list_step policy (EventMsg UserMessage) items = items"
  "list_step policy (EventMsg (TurnStarted t)) items = items"
  "list_step policy (EventMsg (TurnComplete t)) items = items"
  by (simp_all add: list_step_def replace_items_def)

lemma drop_last_items:
  "cm_items (drop_last_n_user_turns h n) = cm_items (drop_last_n_user_turns (h'\<lparr>cm_items := cm_items h\<rparr>) n)"
  by (simp add: drop_last_n_user_turns_def replace_items_def Let_def split: list.split)

lemma materialize_items: "cm_items (fst (materialize_step policy x st)) = list_step policy x (cm_items (fst st))"
proof (cases st)
  case (Pair h b)
  show ?thesis
  proof (cases x)
    case (Compacted m r)
    with Pair show ?thesis by (cases r) (simp_all add: replace_items_def)
  next
    case (EventMsg e)
    show ?thesis
    proof (cases e)
      case (ThreadRolledBack n)
      with Pair EventMsg show ?thesis by (simp add: list_step_def drop_last_items [of h])
    qed (use Pair EventMsg in \<open>simp_all add: list_step_def\<close>)
  qed (use Pair in simp_all)
qed

lemma materialize_fold:
  "cm_items (fst (fold (materialize_step policy) xs st)) = fold (list_step policy) xs (cm_items (fst st))"
  by (induction xs arbitrary: st) (simp_all add: materialize_items)

lemma reconstructed_history:
  fixes items :: "('j, 'x) rollout_item list"
  shows "rr_history (reconstruct_history_from_rollout policy items) =
     fold (list_step policy) (drop (suffix_start (scan_rollout items)) items)
       (case base_replacement_history (scan_rollout items) of Some base \<Rightarrow> base | None \<Rightarrow> [])"
proof -
  have "cm_items (case b of Some base \<Rightarrow> replace_items new_context_manager base
        | None \<Rightarrow> (new_context_manager :: ('j, 'x) context_manager)) =
      (case b of Some base \<Rightarrow> base | None \<Rightarrow> [])" for b :: "'j response_item list option"
    by (cases b) (simp_all add: replace_items_def new_context_manager_def)
  then show ?thesis
    by (simp add: reconstruct_history_from_rollout_def Let_def case_prod_beta materialize_fold)
qed

subsection \<open>What the scan finds without rollbacks\<close>

fun is_checkpoint :: "('j, 'x) rollout_item \<Rightarrow> bool" where
  "is_checkpoint (Compacted _ (Some _)) = True"
| "is_checkpoint _ = False"

fun is_rollback :: "('j, 'x) rollout_item \<Rightarrow> bool" where
  "is_rollback (EventMsg (ThreadRolledBack _)) = True"
| "is_rollback _ = False"

text \<open>The base the scan will end with when nothing is rolled back any more.\<close>

definition base_of :: "('j, 'x) replay_state \<Rightarrow> 'j response_item list option" where
  "base_of s =
     (case base_replacement_history s of
        Some r \<Rightarrow> Some r
      | None \<Rightarrow> (case active_segment s of None \<Rightarrow> None | Some seg \<Rightarrow> seg_base_replacement_history seg))"

lemma get_or_default_base:
  "base_of s = (case base_replacement_history s of Some r \<Rightarrow> Some r
                | None \<Rightarrow> seg_base_replacement_history (get_or_default s))"
  by (simp add: base_of_def get_or_default_def default_segment_def split: option.split)

lemma finalize_base:
  assumes "pending_rollback_turns s = 0" and "active_segment s = Some seg"
  shows "base_replacement_history (finalize_active_segment seg (s\<lparr>active_segment := None\<rparr>)) = base_of s"
    and "active_segment (finalize_active_segment seg (s\<lparr>active_segment := None\<rparr>)) = None"
    and "suffix_start (finalize_active_segment seg (s\<lparr>active_segment := None\<rparr>)) = suffix_start s"
    and "pending_rollback_turns (finalize_active_segment seg (s\<lparr>active_segment := None\<rparr>)) = 0"
  using assms by (auto simp: finalize_active_segment_def base_of_def Let_def split: option.splits)

lemma replay_step_other:
  assumes "\<not> is_checkpoint x" and "\<not> is_rollback x" and "pending_rollback_turns s = 0"
  shows "base_of (replay_step i x s) = base_of s \<and> suffix_start (replay_step i x s) = suffix_start s \<and>
    pending_rollback_turns (replay_step i x s) = 0"
proof (cases x)
  case (Compacted m r)
  with assms show ?thesis by (cases r) (auto simp: Let_def get_or_default_base get_or_default_def split: option.split)
next
  case (TurnContext c)
  with assms show ?thesis by (auto simp: Let_def get_or_default_base get_or_default_def split: option.split)
next
  case (EventMsg e)
  show ?thesis
  proof (cases e)
    case (TurnStarted t)
    show ?thesis
    proof (cases "active_segment s")
      case (Some seg)
      have "base_of (finalize_active_segment seg (s\<lparr>active_segment := None\<rparr>)) = base_of s"
        using finalize_base [OF assms(3) Some]
        by (simp add: base_of_def [of "finalize_active_segment _ _"] split: option.split)
      with finalize_base [OF assms(3) Some] assms EventMsg TurnStarted Some show ?thesis by simp
    qed (use assms EventMsg TurnStarted in simp)
  next
    case (TurnAborted t)
    with assms EventMsg show ?thesis
      by (auto simp: base_of_def default_segment_def split: option.split)
  qed (use assms EventMsg in \<open>auto simp: Let_def get_or_default_base get_or_default_def split: option.split\<close>)
qed (use assms in simp_all)

lemma replay_step_checkpoint:
  "base_of (replay_step i (Compacted m (Some r)) s) = (case base_of s of Some b \<Rightarrow> Some b | None \<Rightarrow> Some r) \<and>
   pending_rollback_turns (replay_step i (Compacted m (Some r)) s) = pending_rollback_turns s \<and>
   (suffix_start (replay_step i (Compacted m (Some r)) s) = i + 1 \<or>
    base_of s \<noteq> None \<and> suffix_start (replay_step i (Compacted m (Some r)) s) = suffix_start s)"
  by (auto simp: Let_def get_or_default_base get_or_default_def split: option.split)

definition checkpoint_inv :: "('j, 'x) rollout_item list \<Rightarrow> nat \<Rightarrow> ('j, 'x) replay_state \<Rightarrow> bool" where
  "checkpoint_inv xs i s =
     (pending_rollback_turns s = 0 \<and>
      (case base_of s of
         None \<Rightarrow> suffix_start s = 0 \<and> (\<forall>j. i \<le> j \<and> j < length xs \<longrightarrow> \<not> is_checkpoint (xs ! j))
       | Some r \<Rightarrow>
           \<exists>k m. i \<le> k \<and> k < length xs \<and> xs ! k = Compacted m (Some r) \<and> suffix_start s \<le> k + 1))"

lemma checkpoint_inv_step:
  assumes "checkpoint_inv xs (Suc i) s" and "i < length xs" and "\<not> is_rollback (xs ! i)"
  shows "checkpoint_inv xs i (replay_step i (xs ! i) s)"
proof (cases "is_checkpoint (xs ! i)")
  case True
  then obtain m r where x: "xs ! i = Compacted m (Some r)" by (cases "xs ! i" rule: is_checkpoint.cases) auto
  show ?thesis
  proof (cases "base_of s")
    case None
    with replay_step_checkpoint [of i m r s] x assms show ?thesis
      by (auto simp: checkpoint_inv_def)
  next
    case (Some b)
    with assms obtain k m' where "Suc i \<le> k" "k < length xs" "xs ! k = Compacted m' (Some b)" "suffix_start s \<le> k + 1"
      by (auto simp: checkpoint_inv_def)
    with Some replay_step_checkpoint [of i m r s] x assms(1) show ?thesis
      unfolding checkpoint_inv_def by (intro conjI) (auto intro!: exI [of _ k])
  qed
next
  case False
  with assms replay_step_other [OF False assms(3), of s i] have
    same: "base_of (replay_step i (xs ! i) s) = base_of s" "suffix_start (replay_step i (xs ! i) s) = suffix_start s"
      "pending_rollback_turns (replay_step i (xs ! i) s) = 0"
    by (auto simp: checkpoint_inv_def)
  show ?thesis
  proof (cases "base_of s")
    case None
    with assms(1) have later: "suffix_start s = 0" "\<forall>j. Suc i \<le> j \<and> j < length xs \<longrightarrow> \<not> is_checkpoint (xs ! j)"
      by (auto simp: checkpoint_inv_def)
    have "\<not> is_checkpoint (xs ! j)" if "i \<le> j" "j < length xs" for j
      using that False later(2) by (cases "j = i") auto
    with None later(1) same show ?thesis by (simp add: checkpoint_inv_def)
  next
    case (Some b)
    with assms(1) same show ?thesis unfolding checkpoint_inv_def by (auto dest: Suc_leD)
  qed
qed

lemma checkpoint_inv_loop:
  assumes "checkpoint_inv xs (length l) s" and "take (length l) xs = rev l" and "length l \<le> length xs"
    and "list_all (\<lambda>x. \<not> is_rollback x) xs"
  shows "\<exists>i. checkpoint_inv xs i (replay_loop l s) \<and> (i = 0 \<or> base_of (replay_loop l s) \<noteq> None)"
  using assms(1-3)
proof (induction l arbitrary: s)
  case (Cons x l)
  from Cons.prems have len: "length l < length xs" by simp
  have x: "xs ! length l = x"
    using Cons.prems(2) len by (metis length_rev lessI list.size(4) nth_append_length nth_take rev.simps(2) One_nat_def Suc_eq_plus1)
  have "take (length l) (take (length (x # l)) xs) = take (length l) (rev (x # l))" using Cons.prems(2) by simp
  then have take: "take (length l) xs = rev l" by simp
  let ?s = "replay_step (length l) x s"
  have "\<not> is_rollback (xs ! length l)" using assms(4) len by (simp add: list_all_length)
  then have inv: "checkpoint_inv xs (length l) ?s"
    using checkpoint_inv_step [of xs "length l" s] Cons.prems(1) len x by simp
  show ?case
  proof (cases "replay_done ?s")
    case True
    then have "base_of ?s \<noteq> None" by (auto simp: replay_done_def base_of_def)
    with inv True show ?thesis by (intro exI [of _ "length l"]) (simp add: Let_def)
  next
    case False
    with Cons.IH [OF inv take] len show ?thesis by (simp add: Let_def)
  qed
qed auto

lemma scan_rollout_spec:
  assumes "list_all (\<lambda>x. \<not> is_rollback x) items"
  shows "case base_replacement_history (scan_rollout items) of
       None \<Rightarrow> suffix_start (scan_rollout items) = 0
     | Some r \<Rightarrow> \<exists>k m. k < length items \<and> items ! k = Compacted m (Some r) \<and>
         suffix_start (scan_rollout items) \<le> k + 1"
proof -
  let ?s = "replay_loop (rev items) initial_replay_state"
  have "checkpoint_inv items (length (rev items)) initial_replay_state"
    by (auto simp: checkpoint_inv_def initial_replay_state_def base_of_def)
  from checkpoint_inv_loop [OF this] assms obtain i where i: "checkpoint_inv items i ?s" by auto
  show ?thesis
  proof (cases "active_segment ?s")
    case None
    with i show ?thesis
      by (auto simp: scan_rollout_def checkpoint_inv_def base_of_def split: option.splits)
  next
    case (Some seg)
    from i have "pending_rollback_turns ?s = 0" by (simp add: checkpoint_inv_def)
    from finalize_base [OF this Some] i Some show ?thesis
      by (auto simp: scan_rollout_def checkpoint_inv_def split: option.splits)
  qed
qed

lemma replay_from_checkpoint:
  assumes "k < length xs" and "xs ! k = Compacted m (Some r)" and "j \<le> k"
  shows "fold (list_step policy) (drop j xs) items = fold (list_step policy) (drop (k + 1) xs) r"
proof -
  have "drop j xs = take (k - j) (drop j xs) @ xs ! k # drop (k + 1) xs"
  proof -
    from assms have "k - j < length (drop j xs)" by simp
    from id_take_nth_drop [OF this] have "drop j xs = take (k - j) (drop j xs) @ drop j xs ! (k - j) #
        drop (Suc (k - j)) (drop j xs)" .
    moreover have "drop j xs ! (k - j) = xs ! k" using assms by simp
    moreover have "drop (Suc (k - j)) (drop j xs) = drop (k + 1) xs" using assms(3) by simp
    ultimately show ?thesis by metis
  qed
  then have "fold (list_step policy) (drop j xs) items =
      fold (list_step policy) (take (k - j) (drop j xs) @ xs ! k # drop (k + 1) xs) items" by metis
  then show ?thesis using assms(2) by simp
qed

text \<open>C24: without rollbacks the reverse scan is an optimisation only: the history rebuilt from
  the newest checkpoint is the one that replaying the whole record from the start gives.\<close>

theorem reconstruct_is_replay:
  assumes "list_all (\<lambda>x. \<not> is_rollback x) items"
  shows "rr_history (reconstruct_history_from_rollout policy items) = replay_all policy items"
proof -
  note spec = scan_rollout_spec [OF assms]
  let ?j = "suffix_start (scan_rollout items)"
  show ?thesis
  proof (cases "base_replacement_history (scan_rollout items)")
    case None
    with spec show ?thesis by (simp add: reconstructed_history replay_all_def)
  next
    case (Some r)
    with spec obtain k m where k: "k < length items" "items ! k = Compacted m (Some r)" "?j \<le> k + 1" by auto
    have "fold (list_step policy) (drop ?j items) r = fold (list_step policy) (drop (k + 1) items) r"
      using k by (cases "?j = k + 1") (simp_all add: replay_from_checkpoint)
    moreover have "fold (list_step policy) items [] = fold (list_step policy) (drop (k + 1) items) r"
      using replay_from_checkpoint [OF k(1,2), of 0] by simp
    ultimately show ?thesis using Some by (simp add: reconstructed_history replay_all_def)
  qed
qed

definition sample_rollout :: "(nat, nat) rollout_item list" where
  "sample_rollout =
     [EventMsg (TurnStarted ''t1''), EventMsg UserMessage, ResponseItem (user_text_message ''hello''),
      Compacted ''summary'' (Some [user_text_message ''hello'', user_text_message ''summary'']),
      EventMsg (TurnComplete ''t1''),
      ResponseItem (Message None ''assistant'' [OutputText ''bye''] None None)]"

theorem reconstruct_is_replay_witness:
  "rr_history (reconstruct_history_from_rollout (Tokens 100) sample_rollout) =
     replay_all (Tokens 100) sample_rollout"
  by (rule reconstruct_is_replay) (simp add: sample_rollout_def)

subsection \<open>A checkpoint inside a turn that is rolled back\<close>

definition no_base :: "nat \<Rightarrow> ('j, 'x) replay_state \<Rightarrow> bool" where
  "no_base k s = (base_of s = None \<and> suffix_start s = k)"

lemma finalize_no_base:
  assumes "no_base k s" and "active_segment s = Some seg"
  shows "no_base k (finalize_active_segment seg (s\<lparr>active_segment := None\<rparr>))"
    and "base_replacement_history (finalize_active_segment seg (s\<lparr>active_segment := None\<rparr>)) = None"
  using assms by (auto simp: no_base_def finalize_active_segment_def base_of_def Let_def split: option.splits)

lemma replay_step_no_base:
  assumes "\<not> is_checkpoint x" and "no_base k s"
  shows "no_base k (replay_step i x s)"
proof (cases x)
  case (Compacted m r)
  with assms show ?thesis
    by (cases r) (auto simp: no_base_def Let_def get_or_default_base get_or_default_def split: option.splits)
next
  case (TurnContext c)
  with assms show ?thesis
    by (auto simp: no_base_def Let_def get_or_default_base get_or_default_def split: option.splits)
next
  case (EventMsg e)
  show ?thesis
  proof (cases e)
    case (TurnStarted t)
    with assms EventMsg finalize_no_base [OF assms(2)] show ?thesis by (cases "active_segment s") simp_all
  next
    case (TurnAborted t)
    with assms EventMsg show ?thesis
      by (auto simp: no_base_def base_of_def default_segment_def split: option.splits)
  next
    case (ThreadRolledBack n)
    with assms EventMsg show ?thesis by (auto simp: no_base_def base_of_def split: option.splits)
  qed (use assms EventMsg in \<open>auto simp: no_base_def Let_def get_or_default_base get_or_default_def
        split: option.splits\<close>)
qed (use assms in simp_all)

lemma replay_loop_no_base:
  "list_all (\<lambda>x. \<not> is_checkpoint x) l \<Longrightarrow> no_base k s \<Longrightarrow> no_base k (replay_loop l s)"
  by (induction l arbitrary: s) (simp_all add: Let_def replay_step_no_base)

lemma positions_snoc:
  "user_message_positions (xs @ [x]) =
     user_message_positions xs @ (if is_user_turn_boundary x then [length xs] else [])"
proof -
  have "filter (\<lambda>i. is_user_turn_boundary ((xs @ [x]) ! i)) [0..<length xs] =
      filter (\<lambda>i. is_user_turn_boundary (xs ! i)) [0..<length xs]"
    by (rule filter_cong) (simp_all add: nth_append)
  then show ?thesis by (simp add: user_message_positions_def)
qed

lemma rollback_last_turn:
  assumes "is_user_turn_boundary u" and "\<not> is_user_turn_boundary a"
  shows "list_step policy (EventMsg (ThreadRolledBack 1)) (items @ [u, a]) = items"
proof -
  have "user_message_positions (items @ [u, a]) = user_message_positions items @ [length items]"
    using positions_snoc [of "items @ [u]" a] positions_snoc [of items u] assms by simp
  then show ?thesis by (simp add: list_step_def drop_last_n_cases Let_def)
qed

lemma process_message [simp]: "process_item (Message i r c e p) policy = Message i r c e p"
  by (simp add: process_item_def Let_def)

text \<open>The last turn of a thread: the history is compacted before the user's message is recorded.\<close>

definition compacted_turn ::
  "string \<Rightarrow> string \<Rightarrow> 'j response_item list \<Rightarrow> 'j response_item \<Rightarrow> 'j response_item \<Rightarrow>
   ('j, 'x) rollout_item list"
where
  "compacted_turn t summary replacement u a =
     [EventMsg (TurnStarted t), Compacted summary (Some replacement), EventMsg UserMessage,
      ResponseItem u, ResponseItem a, EventMsg (TurnComplete t)]"

text \<open>C25: rolling back a turn in which the history was compacted loses the thread.  The scan has
  moved the start of the replay behind the checkpoint when it skips the turn, and does not move
  it back, so everything before the turn is forgotten.  Replaying the record gives the compacted
  history without the turn's own message.\<close>

theorem rollback_over_compaction_forgets_thread:
  assumes "list_all (\<lambda>x. \<not> is_checkpoint x) earlier"
    and "u = Message iu ''user'' cu eu pu" and "\<not> is_contextual_user_message_content cu"
    and "a = Message ia ''assistant'' ca ea pa"
  shows "rr_history (reconstruct_history_from_rollout policy
      (earlier @ compacted_turn t summary replacement u a @ [EventMsg (ThreadRolledBack 1)])) = [] \<and>
    replay_all policy
      (earlier @ compacted_turn t summary replacement u a @ [EventMsg (ThreadRolledBack 1)]) = replacement"
proof -
  let ?items = "earlier @ compacted_turn t summary replacement u a @ [EventMsg (ThreadRolledBack 1)]"
  let ?k = "length earlier + 2"
  have boundary: "is_user_turn_boundary u" "\<not> is_user_turn_boundary a" using assms(2-4) by auto
  have recorded: "list_step policy (ResponseItem u) xs = xs @ [u]" "list_step policy (ResponseItem a) xs = xs @ [a]"
    for xs using assms(2,4) by simp_all
  let ?s = "initial_replay_state\<lparr>suffix_start := ?k\<rparr>"
  have "replay_loop (rev ?items) initial_replay_state = replay_loop (rev earlier) ?s"
    by (simp add: compacted_turn_def initial_replay_state_def replay_done_def Let_def get_or_default_def
        default_segment_def saturating_add_def usize_max_def turn_ids_are_compatible_def
        finalize_active_segment_def)
  moreover have "no_base ?k (replay_loop (rev earlier) ?s)"
    using assms(1) by (intro replay_loop_no_base) (simp_all add: no_base_def base_of_def initial_replay_state_def)
  ultimately have loop: "no_base ?k (replay_loop (rev ?items) initial_replay_state)" by simp
  have scan: "base_replacement_history (scan_rollout ?items) = None \<and> suffix_start (scan_rollout ?items) = ?k"
  proof (cases "active_segment (replay_loop (rev ?items) initial_replay_state)")
    case None
    with loop show ?thesis unfolding scan_rollout_def Let_def by (simp add: no_base_def base_of_def split: option.splits)
  next
    case (Some seg)
    with finalize_no_base [OF loop Some] show ?thesis unfolding scan_rollout_def Let_def by (simp add: no_base_def)
  qed
  have "drop ?k ?items = [EventMsg UserMessage, ResponseItem u, ResponseItem a, EventMsg (TurnComplete t),
      EventMsg (ThreadRolledBack 1)]"
    by (simp add: compacted_turn_def)
  with scan have "rr_history (reconstruct_history_from_rollout policy ?items) = []"
    using rollback_last_turn [OF boundary, of policy "[]"]
    by (simp add: reconstructed_history recorded del: list_step_simps(1))
  moreover have "replay_all policy ?items = replacement"
    using rollback_last_turn [OF boundary, of policy replacement]
    by (simp add: replay_all_def compacted_turn_def recorded del: list_step_simps(1))
  ultimately show ?thesis by blast
qed

definition first_turn :: "(nat, nat) rollout_item list" where
  "first_turn =
     [EventMsg (TurnStarted ''t1''), EventMsg UserMessage, ResponseItem (user_text_message ''hello''),
      EventMsg (TurnComplete ''t1'')]"

theorem rollback_over_compaction_forgets_thread_witness:
  "rr_history (reconstruct_history_from_rollout (Tokens 100)
      (first_turn @ compacted_turn ''t2'' ''summary'' [user_text_message ''hello'']
        (Message None ''user'' [InputText ''again''] None None)
        (Message None ''assistant'' [OutputText ''done''] None None) @
       [EventMsg (ThreadRolledBack 1)])) = []"
proof -
  have "list_all (\<lambda>x. \<not> is_checkpoint x) first_turn" by (simp add: first_turn_def)
  moreover have "\<not> is_contextual_user_message_content [InputText ''again'']" by code_simp
  ultimately show ?thesis
    by (rule conjunct1 [OF rollback_over_compaction_forgets_thread [OF _ refl _ refl]])
qed

subsection \<open>Cutting a record before a user message\<close>

lemma positions_in_rollout_snoc:
  "user_message_positions_in_rollout (items @ [x]) =
     user_positions_step (length items, x) (user_message_positions_in_rollout items)"
  by (simp add: user_message_positions_in_rollout_def enumerate_append_eq)

lemma user_positions_step_cases:
  "user_positions_step (i, x) ps = ps @ [i] \<or> (\<exists>k. user_positions_step (i, x) ps = take k ps)"
proof (cases "((i, x), ps)" rule: user_positions_step.cases)
  case (2 idx n)
  then show ?thesis by auto
qed (auto intro: exI [of _ "length ps"])

text \<open>The positions are a stack: below a position that survives, nothing has changed since it was
  pushed.\<close>

lemma positions_stack:
  "n < length (user_message_positions_in_rollout items) \<Longrightarrow>
     user_message_positions_in_rollout items ! n < length items \<and>
     user_message_positions_in_rollout (take (user_message_positions_in_rollout items ! n) items) =
       take n (user_message_positions_in_rollout items)"
proof (induction items arbitrary: n rule: rev_induct)
  case Nil
  then show ?case by (simp add: user_message_positions_in_rollout_def)
next
  case (snoc x items)
  let ?ps = "user_message_positions_in_rollout items"
  have old: "?ps ! n < length (items @ [x]) \<and> take (?ps ! n) (items @ [x]) = take (?ps ! n) items \<and>
      user_message_positions_in_rollout (take (?ps ! n) items) = take n ?ps" if "n < length ?ps"
    using snoc.IH [OF that] by simp
  consider "user_message_positions_in_rollout (items @ [x]) = ?ps @ [length items]"
    | k where "user_message_positions_in_rollout (items @ [x]) = take k ?ps"
    unfolding positions_in_rollout_snoc using user_positions_step_cases by blast
  then show ?case
  proof cases
    case 1
    show ?thesis
    proof (cases "n < length ?ps")
      case True
      with 1 have "user_message_positions_in_rollout (items @ [x]) ! n = ?ps ! n" by (simp add: nth_append)
      moreover from 1 True have "take n (user_message_positions_in_rollout (items @ [x])) = take n ?ps" by simp
      ultimately show ?thesis using old [OF True] by simp
    next
      case False
      with 1 snoc.prems have "n = length ?ps" by simp
      with 1 show ?thesis by simp
    qed
  next
    case 2
    with snoc.prems have "n < k" "n < length ?ps" by auto
    with old 2 show ?thesis by (simp add: min_def del: take_append)
  qed
qed

text \<open>Cutting a record before its n-th user message leaves a record with exactly n user
  messages, the first n that survive the rollbacks of the whole record.\<close>

lemma truncated_rollout_keeps_first_turns:
  assumes "n < length (user_message_positions_in_rollout items)" and "n \<noteq> usize_max"
  shows "user_message_positions_in_rollout (truncate_rollout_before_nth_user_message_from_start items n) =
      take n (user_message_positions_in_rollout items) \<and>
    prefix (truncate_rollout_before_nth_user_message_from_start items n) items"
  using assms positions_stack [OF assms(1)]
  by (simp add: truncate_rollout_before_nth_user_message_from_start_def Let_def take_is_prefix)

end
