(* ===== verification/Spec2Isabelle.thy ===== *)
theory Spec2Isabelle
  imports Patch_Grammar Patch_Apply Assistant_Text Utf8_Stream Head_Tail_Buffer Readiness Spawn_Guards
    Exec_Approval Patch_Safety Tool_Orchestrator Additional_Permissions
    Permission_Profiles Config_Edits Config_Loader Rollout
begin

text \<open>
  This development verifies the core of Codex, an agent that runs a language model's tool calls on
  the user's machine (\<^verbatim>\<open>codex-rs\<close>).  The model answers with a stream of text and tool calls; a
  call is a command or a patch; a policy decides whether it runs, runs in a sandbox, asks the user
  or is refused; what it prints is cut to size and recorded in the history that makes up the next
  prompt; its connections go through a proxy with a policy of its own.  The theories model the code
  that takes these decisions and keeps these records, as functions on values and as step relations
  where tasks interleave.  Definitions keep the names of the source.

  \<^bold>\<open>Prelude.\<close>  \<^verbatim>\<open>Rust_Base\<close> and \<^verbatim>\<open>Rust_Text\<close> hold what the code uses of the standard library:
  results, saturating and wrapping integers, lines, trimming, code points, character boundaries,
  ASCII case, with the lemmas the components share.  A Rust string is its sequence of bytes.
  \<^verbatim>\<open>Unix_Path\<close> and \<^verbatim>\<open>Ip_Address\<close> do the same for paths and addresses.

  \<^bold>\<open>Patches\<close> (\<^verbatim>\<open>apply-patch/src\<close>, \<^verbatim>\<open>core/src/safety.rs\<close>, \<^verbatim>\<open>core/src/apply_patch.rs\<close>).
  \<^verbatim>\<open>Patch_Parser\<close> is the parser of patch texts; \<^verbatim>\<open>Patch_Grammar\<close> writes the documented grammar as
  an abstract syntax with a printer and says which of its patches the parser takes, and as what: those
  where each update has a chunk and each chunk a changing line, which the comment does not ask for.
  \<^verbatim>\<open>Seek_Sequence\<close> is the tolerant search for lines, \<^verbatim>\<open>Patch_Apply\<close> the computation of
  replacements and the loop over hunks on a file map: applying the replacements from the end is
  splicing at disjoint regions, and files that no hunk names stay as they are.  A file is named by the
  components of its path, as the source compares paths: \<open>..\<close> is a name like another one, and there are
  no symbolic links, so that two spellings of one file are two files of the model.  \<^verbatim>\<open>Patch_Invocation\<close>
  finds the patch of a command line and the changes it announces, which are what it does if no
  path is named twice and the system refuses nothing.
  \<^verbatim>\<open>Patch_Safety\<close> decides whether a patch needs an approval: without one, and other than under
  \<open>OnFailure\<close>, it changes only what the policy gives access to write, except for a move that a later hunk hides.

  \<^bold>\<open>Streams\<close> (\<^verbatim>\<open>utils/stream-parser/src\<close>).  The locale \<open>stream_text_parser\<close> of \<^verbatim>\<open>Stream_Text\<close> is
  the contract of the trait: an invariant that every push keeps and a reading of what is still to
  come; its lemmas say that how a text is cut into chunks does not matter.  It is interpreted for
  \<^verbatim>\<open>Inline_Hidden_Tag\<close> (\<open>hidden_tags\<close>), \<^verbatim>\<open>Citation\<close> (\<open>citations\<close>), \<^verbatim>\<open>Tagged_Line\<close>
  (\<open>tagged_lines\<close>), \<^verbatim>\<open>Proposed_Plan\<close> (\<open>plans\<close>) and \<^verbatim>\<open>Assistant_Text\<close> (\<open>assistant\<close>), each against
  a function on the whole text.  \<^verbatim>\<open>Utf8_Stream\<close> wraps a text parser into one of bytes; its locale
  \<open>utf8_inner\<close> is interpreted for citations (\<open>citation_bytes\<close>).

  \<^bold>\<open>Commands\<close> (\<^verbatim>\<open>execpolicy/src\<close>, \<^verbatim>\<open>shell-command/src\<close>, \<^verbatim>\<open>core/src/exec_policy.rs\<close>).
  \<^verbatim>\<open>Exec_Rule\<close>, \<^verbatim>\<open>Exec_Policy\<close> and \<^verbatim>\<open>Policy_Builder\<close> are the rules, the checks and the files of a
  policy; \<^verbatim>\<open>Shell_Script\<close> and \<^verbatim>\<open>Powershell\<close> take scripts apart into plain commands;
  \<^verbatim>\<open>Command_Safety\<close> lists what is known to be safe or dangerous; \<^verbatim>\<open>Approval_Policy\<close> has the types
  of approvals; \<^verbatim>\<open>Exec_Approval\<close> puts them together.  A check gives the strictest rule that
  matches; an overlay only tightens it; no dangerous command runs unasked unless a rule allows it;
  one allowed command takes the others of its script out of the sandbox.

  \<^bold>\<open>Permissions\<close> (\<^verbatim>\<open>utils/absolute-path\<close>, \<^verbatim>\<open>protocol/src/protocol.rs\<close>, \<^verbatim>\<open>permissions.rs\<close>).
  \<^verbatim>\<open>Absolute_Path\<close>, \<^verbatim>\<open>Sandbox_Policy\<close> and \<^verbatim>\<open>File_System_Policy\<close>: normalised paths, the older and
  the newer policies, the access of a path by the most specific entry, the writable roots that a
  sandbox is given, which agree with it, and the conversion between the two kinds of policy.
  \<^verbatim>\<open>Platform_Sandbox\<close> chooses the sandbox of a command.  \<^verbatim>\<open>Additional_Permissions\<close>
  (\<^verbatim>\<open>core/src/sandboxing/mod.rs\<close>) merges what a command may have beyond its policy: profiles are sets
  of permissions, additional writes are added exactly, an additional read may take writing away.
  \<^verbatim>\<open>Permission_Profiles\<close> (\<^verbatim>\<open>core/src/config/permissions.rs\<close>) compiles the named profiles of the
  configuration to policies; a nested entry may leave the directory it is written under.

  \<^bold>\<open>Tools\<close> (\<^verbatim>\<open>core/src/tools\<close>).  \<^verbatim>\<open>Tool_Orchestrator\<close> is the sequence of approval, attempt and retry
  without a sandbox.  Its locale \<open>runtime\<close> says what the orchestrator relies on in a runtime, and is
  interpreted for shell commands (\<open>shell_rt\<close>), unified exec (\<open>unified_exec_rt\<close>) and patches
  (\<open>patch_rt\<close>): nothing runs after a refusal, and before a retry outside the sandbox comes an approval.

  \<^bold>\<open>Network\<close> (\<^verbatim>\<open>network-proxy/src\<close>, \<^verbatim>\<open>core/src/tools/network_approval.rs\<close>).
  \<^verbatim>\<open>Network_Decision\<close> has the shared types.  \<^verbatim>\<open>Host_Policy\<close> normalises hosts and compares domain
  patterns, \<^verbatim>\<open>Proxy_Config\<close> checks settings against the constraints of an administrator and compiles
  them, \<^verbatim>\<open>Proxy_State\<close> is the shared state with reloads and updates as tasks that interleave at its
  lock, and \<^verbatim>\<open>Proxy_Handlers\<close> has the decisions of the HTTP, SOCKS and MITM handlers, where each
  reading of the shared state is a parameter of its own, so that anything may happen between two of
  them.  \<^verbatim>\<open>Network_Approval\<close> decides about the hosts that no list mentions, as tasks that interleave
  at the locks of the service.  Settings stay within their constraints in every interleaving, what a
  handler passes on was permitted by the state it read, at most one prompt is open for a host, and
  no request is forgotten.  The theorem on unlisted hosts below joins the two.  \<^verbatim>\<open>Proxy_Spec\<close>
  (\<^verbatim>\<open>core/src/network_proxy_loader.rs\<close>, \<^verbatim>\<open>core/src/config/network_proxy_spec.rs\<close>) makes the settings and
  their constraints from configuration layers, network rules and the requirements of an
  administrator, whose list of managed domains is final, and resolves the listening addresses.

  \<^bold>\<open>Configuration\<close> (\<^verbatim>\<open>config/src\<close>, \<^verbatim>\<open>core/src/config/service.rs\<close>, \<^verbatim>\<open>core/src/config_loader\<close>).
  \<^verbatim>\<open>Config_Layers\<close> is the stack of layers: how they are merged, which layer a setting comes from, and the
  order they must have.  \<^verbatim>\<open>Config_Edits\<close> has the edits of the user's layer and the report of those that another layer
  overrides: an edit changes its path only, and one that is not reported is in force.
  \<^verbatim>\<open>Config_Requirements\<close> turns what an administrator requires into constraints and command rules, which
  count whatever other rules there are, and \<^verbatim>\<open>Config_Loader\<close> loads layers and requirements for
  a directory: what is loaded is in order, a project that is not trusted changes nothing,
  and a directory can borrow the trust of a repository that it names in its \<^verbatim>\<open>.git\<close> file.

  \<^bold>\<open>Threads\<close> (\<^verbatim>\<open>core/src/context_manager\<close>, \<^verbatim>\<open>truncate.rs\<close>, \<^verbatim>\<open>compact.rs\<close>,
  \<^verbatim>\<open>codex/rollout_reconstruction.rs\<close>).  \<^verbatim>\<open>Response_Item\<close> and \<^verbatim>\<open>Turn_Item\<close> are the items,
  \<^verbatim>\<open>Context_Normalize\<close> and \<^verbatim>\<open>Context_History\<close> the history and its prompts, \<^verbatim>\<open>Text_Truncation\<close> and
  \<^verbatim>\<open>String_Utils\<close> the cuts, \<^verbatim>\<open>Compaction\<close> the summary loop and \<^verbatim>\<open>Rollout\<close> the rebuilding of a
  thread from its file.  Every prompt is well formed, truncation keeps the longest ends that fit,
  and the optimised scan of a file rebuilds what a full replay gives, unless a rollback crosses a
  compaction.

  \<^bold>\<open>Shared objects.\<close>  \<^verbatim>\<open>Head_Tail_Buffer\<close> (output of commands), \<^verbatim>\<open>Readiness\<close> (a flag with tokens
  and waiters) and \<^verbatim>\<open>Spawn_Guards\<close> (slots for agents, with the two steps of a release): exact counts
  and bounds in every order of operations, a wake-up that may be lost, and a slot that is lost
  when a registered agent is resumed.

  \<^bold>\<open>State, errors, bounds.\<close>  Structures are records, enumerations are datatypes, a fallible function
  returns \<open>('e, 'a) result\<close> with the source's errors, a panic is \<open>None\<close>.  Objects behind locks are
  step relations whose steps are the code between two locks or awaits.  Sizes are natural numbers
  with the saturation of \<open>usize\<close>, \<open>u64\<close> and \<open>i64\<close> written out where the code relies on it; the
  addresses are 32- and 16-bit words.  The loops of the source are recursive functions with a measure.
  Fuel is used three times: the inline parser gets one more than the length of its text, and a step
  that does not consume ends the loop; the search for an unused token gets two more than there are
  tokens; an update of the proxy that runs alone gets three steps.  In each case a lemma says that
  this is enough.  The summary loop is bounded by its retries and items.

  \<^bold>\<open>Parameters.\<close>  What is not in the repository is an argument: the syntax trees of tree-sitter and
  its query, the output of PowerShell, shlex, JSON texts, the diff, glob and url libraries, name
  resolution, the file system, the current and the home directory, random choices, and the answers of
  users, models and processes.  Where a theorem needs a law of such a library it is a hypothesis, and
  its witness gives an instance.  The target is Unix.

  \<^bold>\<open>Not modelled.\<close>  The session loop and its channels, process and terminal handling, the sandboxes of
  the platforms, the types of the configuration and what each setting does apart from the network and permission
  tables, the user interface, the servers and clients, and the database: they are input and output, or calls of
  libraries, around the modelled decisions.  Within modelled parts: the Starlark evaluator, the Windows
  list of dangerous commands, the directories that a patch creates, reading and writing TOML, starting the processes of a runtime, saving
  network amendments, certificates and the forwarding of bytes in the proxy.
\<close>

section \<open>Properties that span components\<close>




text \<open>C10: The proxy and the approvals together: a host that is not on the list of allowed hosts is reached
  only if the user, or the guardian, has approved access to that host with that protocol and port,
  and never when it is denied.  The decider of the proxy answers what the request, as a task of the
  approval service, ended with, in whatever interleaving.\<close>

theorem unlisted_hosts_need_an_approval:
  assumes "network_reachable st" and "i < length (net_tasks st)" and "task_pc (net_tasks st ! i) = Finished d"
    and "decider w = Some decide" and "decide (task_request (net_tasks st ! i)) = d"
    and "parse_host (request_host (task_request (net_tasks st ! i))) = Some h"
    and "\<not> globset_is_match (lib_globs lib) (st_allow_set pst) h"
    and "fst (evaluate_host_policy lib w (Inr pst) (task_request (net_tasks st ! i))) = Inr NetworkAllow"
  shows "affirmed (net_answers st) (task_key (net_tasks st ! i)) \<and> \<not> globset_is_match (lib_globs lib) (st_deny_set pst) h"
proof -
  from assms(8) obtain fx where "evaluate_host_policy lib w (Inr pst) (task_request (net_tasks st ! i)) = (Inr NetworkAllow, fx)"
    by (metis prod.collapse)
  from evaluate_allows_permitted [OF this] assms(4-7)
  have "d = NetworkAllow" "\<not> globset_is_match (lib_globs lib) (st_deny_set pst) h"
    by (simp_all add: view_holds_def permitted_def decider_allows_def)
  with network_access_needs_approval [OF assms(1,2)] assms(3) show ?thesis by simp
qed

definition approving_world :: proxy_world where
  "approving_world = \<lparr>now = 0, lookup = (\<lambda>_ _. None), decider = Some (\<lambda>_. NetworkAllow), unix_sockets_supported = False,
     canonicalize = (\<lambda>_. None)\<rparr>"

lemma example_host: "parse_host ''Example.com'' = Some ''example.com''"
  by code_simp

theorem unlisted_hosts_need_an_approval_witness:
  "affirmed (net_answers granted_network) (task_key (net_tasks granted_network ! 1)) \<and>
   \<not> globset_is_match sample_globs [''bad.example.com''] ''example.com''"
proof -
  have host: "request_host sample_network_request = ''Example.com''" by (simp add: sample_network_request_def)
  have no_match: "\<not> globset_is_match sample_globs [''?*.example.com''] ''example.com''"
    "\<not> globset_is_match sample_globs [''bad.example.com''] ''example.com''"
    by (simp_all add: globset_is_match_def sample_globs_def below_def to_ascii_lowercase_def ascii_lower_def)
  have name: "parse_ip_addr ''example.com'' = None" by (simp add: read_ip_defs)
  then have "\<not> local_literal ''example.com''"
    by (simp add: local_literal_def is_loopback_host_def without_scope_def split_once_def)
  moreover have "\<not> host_resolves_to_non_public_ip (lookup approving_world) ''example.com'' port" for port
    by (simp add: host_resolves_to_non_public_ip_def name approving_world_def)
  ultimately have "fst (evaluate_host_policy sample_libs approving_world (Inr sample_state) sample_network_request) = Inr NetworkAllow"
    using no_match
    by (simp add: evaluate_host_policy_def host_policy_decision_def host_blocked_def host example_host sample_libs_def
        sample_state_def approving_world_def)
  then show ?thesis
    using unlisted_hosts_need_an_approval [OF sample_networks_reachable(2), of 1 NetworkAllow approving_world "\<lambda>_. NetworkAllow"
        "''example.com''" sample_libs sample_state] no_match granted_tasks host example_host
    by (simp add: sample_libs_def sample_state_def approving_world_def)
qed

end
